(* ===== verification/K64_Prelude.thy ===== *)
theory K64_Prelude
  imports Main "HOL-Library.Word"
begin

text \<open>
  Shared vocabulary of the development: the machine integer types of
  \<^verbatim>\<open>src/k64/cpu64.h\<close>, the theorem collections the component theories add to,
  and the facts on words, lists and searches that several components use.

  Conventions.  A C unsigned integer is a word of its width; an array index and a loop counter
  is a \<^typ>\<open>nat\<close>; a C \<^verbatim>\<open>int\<close> or \<^verbatim>\<open>long\<close> result is
  an \<^typ>\<open>int\<close>, with a negative value for an error number.  State is passed explicitly.
\<close>

unbundle bit_operations_syntax

type_synonym u8 = "8 word"
type_synonym u16 = "16 word"
type_synonym u32 = "32 word"
type_synonym u64 = "64 word"

named_theorems mask_bits \<open>which bits a constant of the source has\<close>
named_theorems frame_rules \<open>fields and slots an operation leaves alone\<close>

section \<open>Words\<close>

lemma bit_numeral_mask_push:
  assumes "c = push_bit k (mask m :: 'a::len word)" "k + m \<le> LENGTH('a)"
  shows "bit c n \<longleftrightarrow> k \<le> n \<and> n < k + m"
  using assms by (auto simp: bit_simps)

lemma word_and_eq_0_iff:
  "(x::'a::len word) AND y = 0 \<longleftrightarrow> (\<forall>n < LENGTH('a). \<not> (bit x n \<and> bit y n))"
  by (auto simp: bit_eq_iff bit_simps)

text \<open>The simplifier's normal form of a one-bit constant is a power of two.\<close>

lemma word_and_single_bit [simp]: "(x::'a::len word) AND 2 ^ k = 0 \<longleftrightarrow> \<not> bit x k"
  by (auto simp: word_and_eq_0_iff bit_simps dest: bit_imp_le_length)

lemma word_all_ones_iff:
  "NOT (w::'a::len word) = 0 \<longleftrightarrow> (\<forall>n < LENGTH('a). bit w n)"
  by (auto simp: bit_eq_iff bit_simps)

lemma word_and_eq_self_iff: "(e::'a::len word) AND m = m \<longleftrightarrow> (\<forall>n. bit m n \<longrightarrow> bit e n)"
proof
  assume "e AND m = m"
  then have "bit (e AND m) n = bit m n" for n by simp
  then show "\<forall>n. bit m n \<longrightarrow> bit e n" by (auto simp: bit_and_iff)
qed (auto intro: bit_word_eqI simp: bit_simps)

lemma unat_u64: "unat (x::u64) < 2 ^ 64"
  using unsigned_less [of x] by simp

section \<open>First index of a scan\<close>

text \<open>
  Most tables of the kernel are searched by a counted loop that stops at the first entry that
  fits.  \<open>scan P i n\<close> is that loop over the indices from \<open>i\<close> up to \<open>n\<close>, exclusive.
\<close>

function scan :: "(nat \<Rightarrow> bool) \<Rightarrow> nat \<Rightarrow> nat \<Rightarrow> nat option" where
  "scan P i n = (if i < n then (if P i then Some i else scan P (Suc i) n) else None)"
  by pat_completeness auto
termination by (relation "measure (\<lambda>(P, i, n). n - i)") auto

declare scan.simps [simp del]

lemma scan_end [simp]: "n \<le> i \<Longrightarrow> scan P i n = None"
  by (simp add: scan.simps)

lemma scan_hit [simp]: "i < n \<Longrightarrow> P i \<Longrightarrow> scan P i n = Some i"
  by (simp add: scan.simps)

lemma scan_miss [simp]: "i < n \<Longrightarrow> \<not> P i \<Longrightarrow> scan P i n = scan P (Suc i) n"
  by (subst scan.simps) simp

lemma scan_SomeD:
  assumes "scan P i n = Some j"
  shows "i \<le> j \<and> j < n \<and> P j \<and> (\<forall>k. i \<le> k \<and> k < j \<longrightarrow> \<not> P k)"
  using assms
proof (induction P i n rule: scan.induct)
  case (1 P i n)
  show ?case
  proof (cases "i < n \<and> \<not> P i")
    case True
    with "1.prems" have "scan P (Suc i) n = Some j" by simp
    with True "1.IH" show ?thesis by (metis Suc_le_eq le_neq_implies_less less_imp_le)
  next
    case False
    with "1.prems" have "i < n" "P i" "j = i" by (auto simp: scan.simps [of P i n] split: if_splits)
    then show ?thesis by auto
  qed
qed

lemma scan_None_iff: "scan P i n = None \<longleftrightarrow> (\<forall>k. i \<le> k \<and> k < n \<longrightarrow> \<not> P k)"
proof (induction P i n rule: scan.induct)
  case (1 P i n)
  show ?case
  proof (cases "i < n \<and> \<not> P i")
    case True
    with "1.IH" show ?thesis by (auto simp: Suc_le_eq) (metis le_neq_implies_less)
  next
    case False
    then show ?thesis by (auto simp: scan.simps [of P i n])
  qed
qed

lemma scan_Some_iff:
  "scan P i n = Some j \<longleftrightarrow> i \<le> j \<and> j < n \<and> P j \<and> (\<forall>k. i \<le> k \<and> k < j \<longrightarrow> \<not> P k)"
proof
  assume r: "i \<le> j \<and> j < n \<and> P j \<and> (\<forall>k. i \<le> k \<and> k < j \<longrightarrow> \<not> P k)"
  then obtain j' where j': "scan P i n = Some j'"
    by (meson option.exhaust scan_None_iff)
  with scan_SomeD [OF j'] r have "j' = j" by (metis linorder_neqE_nat)
  with j' show "scan P i n = Some j" by simp
qed (rule scan_SomeD)

section \<open>Fixed-size names\<close>

text \<open>
  The kernel copies names into \<^verbatim>\<open>char[16]\<close> fields: at most fifteen characters, up to the
  first NUL.  A stored name is the list of characters before its NUL.
\<close>

definition cstr :: "string \<Rightarrow> string" where
  "cstr s = takeWhile (\<lambda>c. c \<noteq> CHR 0x00) s"

definition name15 :: "string \<Rightarrow> string" where
  "name15 s = take 15 (cstr s)"

lemma cstr_no_nul: "CHR 0x00 \<notin> set (cstr s)"
  by (auto simp: cstr_def dest: set_takeWhileD)

lemma cstr_idem [simp]: "cstr (cstr s) = cstr s"
  by (simp add: cstr_def)

lemma length_name15: "length (name15 s) \<le> 15"
  by (simp add: name15_def)

lemma name15_no_nul: "CHR 0x00 \<notin> set (name15 s)"
  using cstr_no_nul by (auto simp: name15_def dest: in_set_takeD)

end
