(* ===== verification/Res.thy ===== *)
theory Res
  imports K64_Prelude
begin

text \<open>
  Operations that may fail, over an explicit state.  The kernel's file code is a sequence of steps,
  each followed by \<^verbatim>\<open>if (...) return -errno;\<close>.  An operation maps a state to an outcome and
  the state it leaves: \<open>Val\<close> is a normal return, \<open>Err e\<close> a return of the negative error number \<open>e\<close>,
  and \<open>Trap\<close> means that the operation does not return: a divide error, an access outside a static
  buffer, or spinning on a lock the caller already holds.
\<close>

datatype 'a res = Val 'a | Err int | Trap

type_synonym ('s, 'a) opn = "'s \<Rightarrow> 'a res \<times> 's"

definition ret :: "'a \<Rightarrow> ('s, 'a) opn" where
  "ret a s = (Val a, s)"

definition fail :: "int \<Rightarrow> ('s, 'a) opn" where
  "fail e s = (Err e, s)"

definition trap :: "('s, 'a) opn" where
  "trap s = (Trap, s)"

definition gets :: "('s \<Rightarrow> 'a) \<Rightarrow> ('s, 'a) opn" where
  "gets f s = (Val (f s), s)"

definition modify :: "('s \<Rightarrow> 's) \<Rightarrow> ('s, unit) opn" where
  "modify f s = (Val (), f s)"

text \<open>\<open>seq m k\<close> runs \<open>m\<close> and, when it returns normally, continues with \<open>k\<close>.\<close>

definition seq :: "('s, 'a) opn \<Rightarrow> ('a \<Rightarrow> ('s, 'b) opn) \<Rightarrow> ('s, 'b) opn" where
  "seq m k s = (case m s of (Val a, s') \<Rightarrow> k a s' | (Err e, s') \<Rightarrow> (Err e, s') | (Trap, s') \<Rightarrow> (Trap, s'))"

text \<open>\<open>err_to e m\<close> reports every error of \<open>m\<close> as \<open>e\<close>; \<open>attempt m\<close> turns an error into \<open>None\<close>.\<close>

definition err_to :: "int \<Rightarrow> ('s, 'a) opn \<Rightarrow> ('s, 'a) opn" where
  "err_to e m s = (case m s of (Err _, s') \<Rightarrow> (Err e, s') | r \<Rightarrow> r)"

definition attempt :: "('s, 'a) opn \<Rightarrow> ('s, 'a option) opn" where
  "attempt m s = (case m s of (Val a, s') \<Rightarrow> (Val (Some a), s') | (Err _, s') \<Rightarrow> (Val None, s') | (Trap, s') \<Rightarrow> (Trap, s'))"

text \<open>A counted loop over the values of its index, left by the first body that yields \<open>Some\<close>.\<close>

primrec each :: "('x \<Rightarrow> ('s, 'b option) opn) \<Rightarrow> 'x list \<Rightarrow> ('s, 'b option) opn" where
  "each f [] = ret None"
| "each f (x # xs) = seq (f x) (\<lambda>r. case r of Some b \<Rightarrow> ret (Some b) | None \<Rightarrow> each f xs)"

primrec for_each :: "('x \<Rightarrow> ('s, unit) opn) \<Rightarrow> 'x list \<Rightarrow> ('s, unit) opn" where
  "for_each f [] = ret ()"
| "for_each f (x # xs) = seq (f x) (\<lambda>_. for_each f xs)"

lemma seq_Val [simp]: "m s = (Val a, s') \<Longrightarrow> seq m k s = k a s'"
  by (simp add: seq_def)

lemma seq_Err [simp]: "m s = (Err e, s') \<Longrightarrow> seq m k s = (Err e, s')"
  by (simp add: seq_def)

lemma seq_Trap [simp]: "m s = (Trap, s') \<Longrightarrow> seq m k s = (Trap, s')"
  by (simp add: seq_def)

lemma ret_run [simp]: "ret a s = (Val a, s)" and fail_run [simp]: "fail e s = (Err e, s)" and
  trap_run [simp]: "trap s = (Trap, s)" and gets_run [simp]: "gets f s = (Val (f s), s)" and
  modify_run [simp]: "modify g s = (Val (), g s)"
  by (simp_all add: ret_def fail_def trap_def gets_def modify_def)

lemma seq_simps [simp]:
  "seq (ret a) k s = k a s" "seq (gets f) k s = k (f s) s" "seq (modify g) k' s = k' () (g s)"
  "seq (fail e) k s = (Err e, s)"
  by (simp_all add: seq_def)

lemma seq_ValE:
  assumes "seq m k s = (Val b, s'')"
  obtains a s' where "m s = (Val a, s')" "k a s' = (Val b, s'')"
  using assms by (auto simp: seq_def split: prod.splits res.splits)

lemma err_to_Val [simp]: "err_to e m s = (Val a, s') \<longleftrightarrow> m s = (Val a, s')"
  by (auto simp: err_to_def split: prod.splits res.splits)

lemma attempt_ValE:
  assumes "attempt m s = (Val r, s')"
  obtains a where "m s = (Val a, s')" "r = Some a" | e where "m s = (Err e, s')" "r = None"
  using assms by (auto simp: attempt_def split: prod.splits res.splits)

lemma each_Some_iff:
  "each f xs s = (Val (Some b), s') \<longleftrightarrow>
   (\<exists>ys x zs s1. xs = ys @ x # zs \<and> each f ys s = (Val None, s1) \<and> f x s1 = (Val (Some b), s'))"
proof (induction xs arbitrary: s)
  case (Cons y xs)
  show ?case
  proof
    assume "each f (y # xs) s = (Val (Some b), s')"
    then obtain r s1 where y: "f y s = (Val r, s1)"
      and r: "(case r of Some b \<Rightarrow> ret (Some b) | None \<Rightarrow> each f xs) s1 = (Val (Some b), s')"
      by (auto elim: seq_ValE)
    show "\<exists>ys x zs s1. y # xs = ys @ x # zs \<and> each f ys s = (Val None, s1) \<and> f x s1 = (Val (Some b), s')"
    proof (cases r)
      case None
      with r Cons.IH [of s1] obtain ys x zs s2 where
        "xs = ys @ x # zs" "each f ys s1 = (Val None, s2)" "f x s2 = (Val (Some b), s')" by auto
      then show ?thesis using y None by (intro exI [of _ "y # ys"]) auto
    next
      case (Some c)
      then show ?thesis using y r by (intro exI [of _ "[]"]) auto
    qed
  next
    assume "\<exists>ys x zs s1. y # xs = ys @ x # zs \<and> each f ys s = (Val None, s1) \<and> f x s1 = (Val (Some b), s')"
    then obtain ys x zs s1 where e: "y # xs = ys @ x # zs" "each f ys s = (Val None, s1)" "f x s1 = (Val (Some b), s')" by blast
    show "each f (y # xs) s = (Val (Some b), s')"
    proof (cases ys)
      case Nil
      then show ?thesis using e by simp
    next
      case (Cons y' ys')
      then obtain r s2 where y: "f y s = (Val r, s2)" "(case r of Some b \<Rightarrow> ret (Some b) | None \<Rightarrow> each f ys') s2 = (Val None, s1)"
        using e by (auto elim: seq_ValE)
      then have r: "r = None" "each f ys' s2 = (Val None, s1)" by (cases r; simp)+
      then have "each f xs s2 = (Val (Some b), s')" using Cons.IH [of s2] e Cons by auto
      with y(1) r(1) show ?thesis by simp
    qed
  qed
qed simp

text \<open>What every body of a loop that does not leave it preserves, the loop preserves.\<close>

lemma each_None_inv:
  assumes "each f xs s = (Val None, s')" and "P s"
    and "\<And>x t t'. x \<in> set xs \<Longrightarrow> P t \<Longrightarrow> f x t = (Val None, t') \<Longrightarrow> P t'"
  shows "P s'"
  using assms
proof (induction xs arbitrary: s)
  case (Cons x xs)
  from Cons.prems(1) obtain r s1 where
    x: "f x s = (Val r, s1)" "(case r of Some b \<Rightarrow> ret (Some b) | None \<Rightarrow> each f xs) s1 = (Val None, s')" by (auto elim: seq_ValE)
  then have r: "r = None" "each f xs s1 = (Val None, s')" by (cases r; simp)+
  with x have "P s1" using Cons.prems by auto
  show ?case
  proof (rule Cons.IH [OF r(2) \<open>P s1\<close>])
    fix y t t' assume "y \<in> set xs" "P t" "f y t = (Val None, t')"
    then show "P t'" using Cons.prems(3) [of y t t'] by simp
  qed
qed simp

end
