(* ===== verification/Ext.thy ===== *)
theory Ext
  imports Res
begin

text \<open>
  The ext2 volume of \<^verbatim>\<open>src/k64/ext64.c\<close> over the sector interface of
  \<^verbatim>\<open>src/k64/ahci64.c\<close>.

  The device is a function from drive, sector and byte offset to bytes; command number \<open>k\<close> of the
  device fails when \<open>fault s k\<close> is \<open>Some m\<close>, a failing write having transferred its first \<open>m\<close>
  sectors.  The five static 4096-byte buffers are part of the state, because the code passes data
  between functions in them.  Arithmetic on block and inode numbers is on 32-bit words as in the
  source; offsets inside a block and loop counters are natural numbers.
\<close>

section \<open>State\<close>

type_synonym buf = "nat \<Rightarrow> u8"

datatype bufid = B_DATA | B_IND | B_META | B_META2 | B_AUD

record vol =
  ex_drive :: int
  ex_block_size :: u32
  ex_inodes :: u32
  ex_blocks :: u32
  ex_first_block :: u32
  ex_bpg :: u32
  ex_ipg :: u32
  ex_inode_size :: u32

record exst =
  sec :: "int \<Rightarrow> u32 \<Rightarrow> nat \<Rightarrow> u8"
  drive_ok :: "int \<Rightarrow> bool"
  fault :: "nat \<Rightarrow> nat option"
  ncmd :: nat
  bufs :: "bufid \<Rightarrow> buf"
  ex_held :: bool
  ex_vol_mounted :: bool
  geo :: vol

record ex_inode_t =
  imode :: u16
  isize :: u32
  iblocks :: u32
  iblock :: "nat \<Rightarrow> u32"

definition EX_MAX_BLOCK :: nat where "EX_MAX_BLOCK = 4096"
definition EX_DIRECT :: nat where "EX_DIRECT = 12"
definition EX_ROOT_INO :: u32 where "EX_ROOT_INO = 2"
definition EX_ENOENT :: int where "EX_ENOENT = -2"
definition EX_EIO :: int where "EX_EIO = -5"
definition EX_ENOTDIR :: int where "EX_ENOTDIR = -20"
definition EX_EISDIR :: int where "EX_EISDIR = -21"
definition EX_EINVAL :: int where "EX_EINVAL = -22"
definition EX_EFBIG :: int where "EX_EFBIG = -27"

lemmas ex_errnos = EX_ENOENT_def EX_EIO_def EX_ENOTDIR_def EX_EISDIR_def EX_EINVAL_def EX_EFBIG_def

text \<open>The block size as a number, and the entries of an indirect block.\<close>

definition bsz :: "vol \<Rightarrow> nat" where
  "bsz v = unat (ex_block_size v)"

definition per :: "vol \<Rightarrow> nat" where
  "per v = bsz v div 4"

section \<open>The sector device\<close>

definition batch_limit :: "u32 \<Rightarrow> nat \<Rightarrow> nat" where
  "batch_limit lba count = max 1 (min (min count 128) (128 - unat (lba AND 127)))"

text \<open>A read yields the number of sectors transferred and their bytes.\<close>

definition ahci64_read :: "int \<Rightarrow> u32 \<Rightarrow> nat \<Rightarrow> (exst, nat \<times> buf) opn" where
  "ahci64_read d lba count s =
     (if \<not> drive_ok s d \<or> count < 1 then (Err (-1), s)
      else
        let n = batch_limit lba count; s' = s\<lparr>ncmd := Suc (ncmd s)\<rparr>
        in case fault s (ncmd s) of
             Some _ \<Rightarrow> (Err (-1), s')
           | None \<Rightarrow> (Val (n, \<lambda>j. sec s d (lba + of_nat (j div 512)) (j mod 512)), s'))"

definition ahci64_write :: "int \<Rightarrow> u32 \<Rightarrow> nat \<Rightarrow> buf \<Rightarrow> (exst, unit) opn" where
  "ahci64_write d lba count data s =
     (if \<not> drive_ok s d \<or> count < 1 then (Err (-1), s)
      else
        let n = batch_limit lba count;
            m = (case fault s (ncmd s) of None \<Rightarrow> n | Some m \<Rightarrow> min m n);
            s' = s\<lparr>ncmd := Suc (ncmd s),
                   sec := (\<lambda>d' l. if d' = d \<and> unat (l - lba) < m then (\<lambda>i. data (unat (l - lba) * 512 + i)) else sec s d' l)\<rparr>
        in (case fault s (ncmd s) of None \<Rightarrow> (Val (), s') | Some _ \<Rightarrow> (Err (-1), s')))"

section \<open>Blocks\<close>

lemma and127: "unat (x AND 127 :: u32) < 128"
proof -
  have "unat (x AND 127) \<le> unat (127 :: u32)" by (rule word_and_le1 [THEN word_le_nat_alt [THEN iffD1]])
  then show ?thesis by simp
qed

text \<open>Both transfer loops split at 128-sector boundaries.\<close>

definition chunk :: "u32 \<Rightarrow> nat \<Rightarrow> nat \<Rightarrow> nat" where
  "chunk lba nsec got = min (nsec - got) (128 - unat ((lba + of_nat got) AND 127))"

lemma loop_less: "(a::nat) < n \<Longrightarrow> 0 < d \<Longrightarrow> n - (a + d) < n - a"
  by simp

lemma chunk_pos: "got < nsec \<Longrightarrow> 0 < chunk lba nsec got"
  using and127 [of "lba + of_nat got"] by (simp add: chunk_def)

function rd_loop :: "int \<Rightarrow> u32 \<Rightarrow> nat \<Rightarrow> nat \<Rightarrow> bufid \<Rightarrow> (exst, unit) opn" where
  "rd_loop d lba nsec got dst =
     (if got < nsec then
        seq (err_to EX_EIO (ahci64_read d (lba + of_nat got) (chunk lba nsec got))) (\<lambda>(n, data).
        seq (modify (\<lambda>s. s\<lparr>bufs := (bufs s)(dst := \<lambda>j. if got * 512 \<le> j \<and> j < (got + n) * 512 then data (j - got * 512) else bufs s dst j)\<rparr>)) (\<lambda>_.
        rd_loop d lba nsec (got + chunk lba nsec got) dst))
      else ret ())"
  by pat_completeness auto
termination by (relation "measure (\<lambda>(d, lba, nsec, got, dst). nsec - got)") (auto intro: loop_less chunk_pos)

function wr_loop :: "int \<Rightarrow> u32 \<Rightarrow> nat \<Rightarrow> nat \<Rightarrow> buf \<Rightarrow> (exst, unit) opn" where
  "wr_loop d lba nsec got src =
     (if got < nsec then
        seq (err_to EX_EIO (ahci64_write d (lba + of_nat got) (chunk lba nsec got) (\<lambda>j. src (got * 512 + j)))) (\<lambda>_.
        wr_loop d lba nsec (got + chunk lba nsec got) src)
      else ret ())"
  by pat_completeness auto
termination by (relation "measure (\<lambda>(d, lba, nsec, got, src). nsec - got)") (auto intro: loop_less chunk_pos)

declare rd_loop.simps [simp del] wr_loop.simps [simp del]

definition blk_lba :: "vol \<Rightarrow> u32 \<Rightarrow> u32" where
  "blk_lba v blk = ucast ((ucast blk * ucast (ex_block_size v) :: u64) div 512)"

definition ex_block :: "vol \<Rightarrow> u32 \<Rightarrow> bufid \<Rightarrow> (exst, unit) opn" where
  "ex_block v blk dst = rd_loop (ex_drive v) (blk_lba v blk) (bsz v div 512) 0 dst"

definition ex_write_block :: "vol \<Rightarrow> u32 \<Rightarrow> bufid \<Rightarrow> (exst, unit) opn" where
  "ex_write_block v blk src s = wr_loop (ex_drive v) (blk_lba v blk) (bsz v div 512) 0 (bufs s src) s"

section \<open>Little-endian fields\<close>

definition ex_rd32 :: "buf \<Rightarrow> nat \<Rightarrow> u32" where
  "ex_rd32 p off = ucast (p off) OR push_bit 8 (ucast (p (off + 1))) OR push_bit 16 (ucast (p (off + 2))) OR
     push_bit 24 (ucast (p (off + 3)))"

definition ex_rd16 :: "buf \<Rightarrow> nat \<Rightarrow> u16" where
  "ex_rd16 p off = ucast (p off) OR push_bit 8 (ucast (p (off + 1)))"

definition wr32 :: "nat \<Rightarrow> u32 \<Rightarrow> buf \<Rightarrow> buf" where
  "wr32 off w p = p(off := ucast w, off + 1 := ucast (drop_bit 8 w), off + 2 := ucast (drop_bit 16 w), off + 3 := ucast (drop_bit 24 w))"

definition wr16 :: "nat \<Rightarrow> u32 \<Rightarrow> buf \<Rightarrow> buf" where
  "wr16 off w p = p(off := ucast w, off + 1 := ucast (drop_bit 8 w))"

definition upd_buf :: "bufid \<Rightarrow> (buf \<Rightarrow> buf) \<Rightarrow> (exst, unit) opn" where
  "upd_buf i f = modify (\<lambda>s. s\<lparr>bufs := (bufs s)(i := f (bufs s i))\<rparr>)"

definition get_buf :: "bufid \<Rightarrow> (exst, buf) opn" where
  "get_buf i = gets (\<lambda>s. bufs s i)"

definition ex_memzero :: "nat \<Rightarrow> buf \<Rightarrow> buf" where
  "ex_memzero n p = (\<lambda>j. if j < n then 0 else p j)"

section \<open>Inodes\<close>

text \<open>\<open>inode_loc v ino\<close>: block of the group descriptor, offset in it, and the inode's byte offset
  in the group's table.\<close>

definition gd_bytes :: "vol \<Rightarrow> u32 \<Rightarrow> u32" where
  "gd_bytes v grp = (ex_first_block v + 1) * ex_block_size v + grp * 32"

definition ex_gd_block :: "vol \<Rightarrow> u32 \<Rightarrow> u32" where
  "ex_gd_block v grp = gd_bytes v grp div ex_block_size v"

definition gd_off :: "vol \<Rightarrow> u32 \<Rightarrow> nat" where
  "gd_off v grp = unat ((grp * 32) mod ex_block_size v)"

text \<open>Load the table block that holds an inode into \<^verbatim>\<open>B_META\<close>; yields the block and the
  offset of the slot.\<close>

definition inode_slot :: "vol \<Rightarrow> u32 \<Rightarrow> (exst, u32 \<times> nat) opn" where
  "inode_slot v ino =
     (let grp = (ino - 1) div ex_ipg v; idx = (ino - 1) mod ex_ipg v; gb = gd_bytes v grp
      in seq (err_to EX_EIO (ex_block v (gb div ex_block_size v) B_META)) (\<lambda>_.
         seq (get_buf B_META) (\<lambda>b.
         let itable = ex_rd32 b (unat (gb mod ex_block_size v) + 8);
             ino_bytes = idx * ex_inode_size v;
             ib = itable + ino_bytes div ex_block_size v;
             io = unat (ino_bytes mod ex_block_size v)
         in if itable = 0 then fail EX_EIO
            else if io + 128 > bsz v then fail EX_EIO
            else seq (err_to EX_EIO (ex_block v ib B_META)) (\<lambda>_. ret (ib, io)))))"

definition inode_decode :: "buf \<Rightarrow> nat \<Rightarrow> ex_inode_t" where
  "inode_decode b io = \<lparr>imode = ex_rd16 b io, isize = ex_rd32 b (io + 4), iblocks = ex_rd32 b (io + 28),
     iblock = (\<lambda>i. if i < 15 then ex_rd32 b (io + 40 + i * 4) else 0)\<rparr>"

definition ex_inode :: "vol \<Rightarrow> u32 \<Rightarrow> (exst, ex_inode_t) opn" where
  "ex_inode v ino =
     (if ino = 0 \<or> ino > ex_inodes v then fail EX_ENOENT
      else if ex_ipg v = 0 \<or> ex_block_size v = 0 then trap
      else seq (inode_slot v ino) (\<lambda>(ib, io). seq (get_buf B_META) (\<lambda>b. ret (inode_decode b io))))"

definition is_dir_mode :: "u16 \<Rightarrow> bool" where
  "is_dir_mode m \<longleftrightarrow> m AND 0x4000 \<noteq> 0"

definition inode_encode :: "nat \<Rightarrow> ex_inode_t \<Rightarrow> buf \<Rightarrow> buf" where
  "inode_encode io i b =
     fold (\<lambda>k. wr32 (io + 40 + k * 4) (iblock i k)) [0..<15]
       (wr32 (io + 28) (iblocks i) (wr32 (io + 4) (isize i) (wr16 io (ucast (imode i)) b)))"

definition ex_write_inode :: "vol \<Rightarrow> u32 \<Rightarrow> ex_inode_t \<Rightarrow> (exst, unit) opn" where
  "ex_write_inode v ino i =
     (if ex_ipg v = 0 \<or> ex_block_size v = 0 then trap
      else if ino = 0 \<or> ino > ex_inodes v then fail EX_ENOENT
      else seq (inode_slot v ino) (\<lambda>(ib, io).
           seq (upd_buf B_META (inode_encode io i)) (\<lambda>_.
           err_to EX_EIO (ex_write_block v ib B_META))))"

section \<open>Block maps and reading\<close>

text \<open>An unreadable indirect block yields 0, as a hole does.\<close>

definition ex_ind :: "vol \<Rightarrow> u32 \<Rightarrow> nat \<Rightarrow> (exst, u32) opn" where
  "ex_ind v blk idx =
     (if blk = 0 \<or> idx \<ge> per v then ret 0
      else seq (attempt (ex_block v blk B_IND)) (\<lambda>r.
           case r of None \<Rightarrow> ret 0 | Some _ \<Rightarrow> seq (get_buf B_IND) (\<lambda>b. ret (ex_rd32 b (idx * 4)))))"

text \<open>The second component is the \<^verbatim>\<open>unsupported\<close> flag.\<close>

definition ex_bmap :: "vol \<Rightarrow> ex_inode_t \<Rightarrow> nat \<Rightarrow> (exst, u32 \<times> bool) opn" where
  "ex_bmap v i lb =
     (if lb < EX_DIRECT then ret (iblock i lb, False)
      else let lb = lb - EX_DIRECT
           in if lb < per v then seq (ex_ind v (iblock i 12) lb) (\<lambda>b. ret (b, False))
              else let lb = lb - per v
                   in if lb < per v * per v then
                        seq (ex_ind v (iblock i 13) (lb div per v)) (\<lambda>first.
                        seq (ex_ind v first (lb mod per v)) (\<lambda>b. ret (b, False)))
                      else ret (0, True))"

text \<open>The read loop; \<open>acc\<close> holds the bytes stored in the caller's buffer so far.\<close>

function data_loop :: "vol \<Rightarrow> ex_inode_t \<Rightarrow> u64 \<Rightarrow> nat \<Rightarrow> u8 list \<Rightarrow> bool \<Rightarrow> (exst, u8 list \<times> bool) opn" where
  "data_loop v i off len acc uns =
     (if length acc < len then
        if bsz v = 0 then trap
        else
          let pos = unat off + length acc;
              inb = pos mod bsz v;
              tk = min (bsz v - inb) (len - length acc)
          in seq (ex_bmap v i (pos div bsz v)) (\<lambda>(pb, u).
             if pb \<noteq> 0 then
               seq (attempt (ex_block v pb B_DATA)) (\<lambda>r.
               case r of
                 None \<Rightarrow> if acc = [] then fail EX_EIO else ret (acc, uns \<or> u)
               | Some _ \<Rightarrow> seq (get_buf B_DATA) (\<lambda>b. data_loop v i off len (acc @ map b [inb..<inb + tk]) (uns \<or> u)))
             else data_loop v i off len (acc @ replicate tk 0) (uns \<or> u))
      else ret (acc, uns))"
  by pat_completeness auto
termination by (relation "measure (\<lambda>(v, i, off, len, acc, uns). len - length acc)") (auto simp: Let_def intro!: loop_less)

declare data_loop.simps [simp del]

definition ex_data_read :: "vol \<Rightarrow> ex_inode_t \<Rightarrow> u64 \<Rightarrow> u32 \<Rightarrow> (exst, u8 list \<times> bool) opn" where
  "ex_data_read v i off len =
     (if off \<ge> ucast (isize i) then ret ([], False)
      else data_loop v i off (min (unat len) (unat (isize i) - unat off)) [] False)"

section \<open>Directories\<close>

definition dent_ino :: "buf \<Rightarrow> nat \<Rightarrow> u32" where "dent_ino b off = ex_rd32 b off"
definition dent_rlen :: "buf \<Rightarrow> nat \<Rightarrow> nat" where "dent_rlen b off = unat (ex_rd16 b (off + 4))"
definition dent_nlen :: "buf \<Rightarrow> nat \<Rightarrow> nat" where "dent_nlen b off = unat (b (off + 6))"
definition dent_name :: "buf \<Rightarrow> nat \<Rightarrow> u8 list" where "dent_name b off = map b [off + 8..<off + 8 + dent_nlen b off]"

text \<open>The records of a directory block, by offset, as far as the scan loops get.\<close>

function dir_offs :: "nat \<Rightarrow> buf \<Rightarrow> nat \<Rightarrow> nat list" where
  "dir_offs bs b off =
     (if off + 8 \<le> bs \<and> dent_rlen b off \<noteq> 0 \<and> off + dent_rlen b off \<le> bs
      then off # dir_offs bs b (off + dent_rlen b off) else [])"
  by pat_completeness auto
termination by (relation "measure (\<lambda>(bs, b, off). bs - off)") auto

declare dir_offs.simps [simp del]

definition dent_live :: "nat \<Rightarrow> buf \<Rightarrow> nat \<Rightarrow> bool" where
  "dent_live bs b off \<longleftrightarrow> dent_ino b off \<noteq> 0 \<and> dent_nlen b off \<noteq> 0 \<and> off + 8 + dent_nlen b off \<le> bs"

definition cbytes :: "u8 list \<Rightarrow> u8 list" where
  "cbytes = takeWhile (\<lambda>c. c \<noteq> 0)"

definition dent_match :: "nat \<Rightarrow> buf \<Rightarrow> u8 list \<Rightarrow> nat \<Rightarrow> bool" where
  "dent_match bs b nm off \<longleftrightarrow> dent_live bs b off \<and> dent_nlen b off \<le> 63 \<and> cbytes (dent_name b off) = nm"

definition dir_find :: "nat \<Rightarrow> buf \<Rightarrow> u8 list \<Rightarrow> u32 option" where
  "dir_find bs b nm = map_option (dent_ino b) (find (dent_match bs b nm) (dir_offs bs b 0))"

text \<open>The blocks a directory scan visits: up to the size, refused beyond the single-indirect range.
  \<open>visit\<close> is the work on a block that was read into \<^verbatim>\<open>B_DATA\<close>.\<close>

definition dir_block :: "vol \<Rightarrow> ex_inode_t \<Rightarrow> (buf \<Rightarrow> 'b option) \<Rightarrow> nat \<Rightarrow> (exst, 'b option option) opn" where
  "dir_block v i visit lb =
     (if \<not> of_nat lb * ex_block_size v < isize i then ret (Some None)
      else if lb = EX_DIRECT + per v then fail EX_EFBIG
      else seq (ex_bmap v i lb) (\<lambda>(pb, uns).
           if uns then fail EX_EFBIG
           else if pb = 0 then ret None
           else seq (err_to EX_EIO (ex_block v pb B_DATA)) (\<lambda>_.
                seq (get_buf B_DATA) (\<lambda>b. ret (map_option Some (visit b))))))"

definition dir_search :: "vol \<Rightarrow> ex_inode_t \<Rightarrow> u8 list \<Rightarrow> (exst, u32 option) opn" where
  "dir_search v i nm =
     seq (each (dir_block v i (\<lambda>b. dir_find (bsz v) b nm)) [0..<EX_DIRECT + per v + 1]) (\<lambda>r.
     ret (case r of None \<Rightarrow> None | Some r \<Rightarrow> r))"

section \<open>Path lookup\<close>

definition SLASH :: u8 where "SLASH = 47"

lemma dropWhile_len_less:
  assumes "dropWhile (\<lambda>c. c = x) p = q" "q \<noteq> []"
  shows "length (dropWhile (\<lambda>c. c \<noteq> x) q) < length p"
proof -
  have "hd q \<noteq> x" using assms hd_dropWhile [of "\<lambda>c. c = x" p] by metis
  then obtain c r where "q = c # r" "c \<noteq> x" using assms(2) by (cases q) auto
  moreover have "length q \<le> length p" using assms(1) by (metis length_dropWhile_le)
  moreover have "length (dropWhile (\<lambda>c. c \<noteq> x) r) \<le> length r" by (rule length_dropWhile_le)
  ultimately show ?thesis by simp
qed

function path_comps :: "u8 list \<Rightarrow> u8 list list" where
  "path_comps p =
     (let q = dropWhile (\<lambda>c. c = SLASH) p
      in if q = [] then []
         else take 63 (takeWhile (\<lambda>c. c \<noteq> SLASH) q) # path_comps (dropWhile (\<lambda>c. c \<noteq> SLASH) q))"
  by pat_completeness auto
termination
  by (relation "measure length") (simp_all add: dropWhile_len_less)

declare path_comps.simps [simp del]

type_synonym lookup_out = "(u32 \<times> bool \<times> u32) option"

primrec lookup_walk :: "vol \<Rightarrow> u8 list list \<Rightarrow> ex_inode_t \<Rightarrow> lookup_out \<Rightarrow> (exst, lookup_out) opn" where
  "lookup_walk v [] i out = ret out"
| "lookup_walk v (c # cs) i out =
     (if c = [46] then lookup_walk v cs i out
      else if \<not> is_dir_mode (imode i) then fail EX_ENOTDIR
      else seq (dir_search v i c) (\<lambda>r.
           case r of
             None \<Rightarrow> fail EX_ENOENT
           | Some ino \<Rightarrow>
               seq (err_to EX_EIO (ex_inode v ino)) (\<lambda>n.
               lookup_walk v cs n (Some (ino, is_dir_mode (imode n), isize n)))))"

text \<open>Public operations hold the volume lock; taking it while it is held spins for ever.\<close>

definition with_ex_lock :: "(vol \<Rightarrow> (exst, 'a) opn) \<Rightarrow> (exst, 'a) opn" where
  "with_ex_lock m s =
     (if ex_held s then (Trap, s)
      else case m (geo s) (s\<lparr>ex_held := True\<rparr>) of
             (Trap, s') \<Rightarrow> (Trap, s')
           | (r, s') \<Rightarrow> (r, s'\<lparr>ex_held := False\<rparr>))"

text \<open>\<open>None\<close>: the call succeeded and left the caller's variables alone.\<close>

definition ex_lookup :: "u8 list \<Rightarrow> (exst, lookup_out) opn" where
  "ex_lookup path s =
     (if \<not> ex_vol_mounted s then (Err EX_EIO, s)
      else with_ex_lock (\<lambda>v.
             seq (err_to EX_EIO (ex_inode v EX_ROOT_INO)) (\<lambda>i.
             if cbytes path = [SLASH] then ret (Some (EX_ROOT_INO, True, isize i))
             else lookup_walk v (path_comps (cbytes path)) i None)) s)"

definition ex_read_ino :: "u32 \<Rightarrow> u64 \<Rightarrow> u32 \<Rightarrow> (exst, u8 list) opn" where
  "ex_read_ino ino off len s =
     (if \<not> ex_vol_mounted s then (Err EX_EIO, s)
      else seq (with_ex_lock (\<lambda>v.
             seq (err_to EX_EIO (ex_inode v ino)) (\<lambda>i.
             if is_dir_mode (imode i) then fail EX_EISDIR else ex_data_read v i off len)))
           (\<lambda>(bs, uns). if uns then fail EX_EFBIG else ret bs) s)"

text \<open>Entry number \<open>index\<close> of a directory; \<open>None\<close> past the end.  \<open>seen\<close> counts the live records of
  earlier blocks.\<close>

primrec readdir_loop :: "vol \<Rightarrow> ex_inode_t \<Rightarrow> nat \<Rightarrow> nat list \<Rightarrow> nat \<Rightarrow> (exst, (u32 \<times> u8 list) option) opn" where
  "readdir_loop v i index [] seen = ret None"
| "readdir_loop v i index (lb # lbs) seen =
     seq (dir_block v i (\<lambda>b. Some (b, filter (dent_live (bsz v) b) (dir_offs (bsz v) b 0))) lb) (\<lambda>r.
     case r of
       None \<Rightarrow> readdir_loop v i index lbs seen
     | Some None \<Rightarrow> ret None
     | Some (Some (b, offs)) \<Rightarrow>
         if index - seen < length offs
         then let off = offs ! (index - seen) in ret (Some (dent_ino b off, take 63 (dent_name b off)))
         else readdir_loop v i index lbs (seen + length offs))"

definition ex_readdir_ino :: "u32 \<Rightarrow> u32 \<Rightarrow> (exst, (u32 \<times> bool \<times> u8 list) option) opn" where
  "ex_readdir_ino ino index s =
     (if \<not> ex_vol_mounted s then (Err EX_EIO, s)
      else with_ex_lock (\<lambda>v.
             seq (err_to EX_EIO (ex_inode v ino)) (\<lambda>i.
             if \<not> is_dir_mode (imode i) then fail EX_ENOTDIR
             else seq (readdir_loop v i (unat index) [0..<EX_DIRECT + per v + 1] 0) (\<lambda>r.
                  case r of
                    None \<Rightarrow> ret None
                  | Some (ei, name) \<Rightarrow>
                      seq (err_to EX_EIO (ex_inode v ei)) (\<lambda>c. ret (Some (ei, is_dir_mode (imode c), name)))))) s)"

end
