(* ===== verification/Ext_Write.thy ===== *)
theory Ext_Write
  imports Ext
begin

text \<open>
  The write side of \<^verbatim>\<open>src/k64/ext64.c\<close>: block and inode allocation, the growing block map,
  truncation, file writes, directory insertion, file creation, the bitmap rebuild at mount time,
  and \<^verbatim>\<open>ex_mount\<close> itself.
\<close>

section \<open>Superblock, bitmaps and counters\<close>

definition ex_read_sb :: "int \<Rightarrow> (exst, unit) opn" where
  "ex_read_sb d = seq (err_to EX_EIO (ahci64_read d 2 2)) (\<lambda>(n, data). upd_buf B_META (\<lambda>p j. if j < n * 512 then data j else p j))"

definition ex_write_sb :: "vol \<Rightarrow> (exst, unit) opn" where
  "ex_write_sb v = seq (get_buf B_META) (\<lambda>b. err_to EX_EIO (ahci64_write (ex_drive v) 2 2 b))"

definition bm_get :: "buf \<Rightarrow> nat \<Rightarrow> bool" where
  "bm_get b k = bit (b (k div 8)) (k mod 8)"

definition bm_set :: "nat \<Rightarrow> buf \<Rightarrow> buf" where
  "bm_set k b = b(k div 8 := b (k div 8) OR push_bit (k mod 8) 1)"

definition bm_clear :: "nat \<Rightarrow> buf \<Rightarrow> buf" where
  "bm_clear k b = b(k div 8 := b (k div 8) AND NOT (push_bit (k mod 8) 1))"

definition ngroups :: "u32 \<Rightarrow> u32 \<Rightarrow> u32" where
  "ngroups n pg = min ((n + pg - 1) div pg) 32"

definition groups :: "u32 \<Rightarrow> u32 \<Rightarrow> u32 list" where
  "groups n pg = map of_nat [0..<unat (ngroups n pg)]"

text \<open>One free counter of the superblock (offset \<open>so\<close>) and of a group descriptor (offset \<open>go\<close>).\<close>

definition upd_counts :: "vol \<Rightarrow> u32 \<Rightarrow> nat \<Rightarrow> nat \<Rightarrow> (u32 \<Rightarrow> u32) \<Rightarrow> (exst, unit) opn" where
  "upd_counts v g so go f =
     seq (ex_read_sb (ex_drive v)) (\<lambda>_.
     seq (upd_buf B_META (\<lambda>b. wr32 so (f (ex_rd32 b so)) b)) (\<lambda>_.
     seq (ex_write_sb v) (\<lambda>_.
     seq (ex_block v (ex_gd_block v g) B_META) (\<lambda>_.
     seq (upd_buf B_META (\<lambda>b. wr16 (gd_off v g + go) (f (ex_rd32 b (gd_off v g + go) AND 0xFFFF)) b)) (\<lambda>_.
     ex_write_block v (ex_gd_block v g) B_META)))))"

definition dec0 :: "u32 \<Rightarrow> u32" where
  "dec0 n = (if n = 0 then 0 else n - 1)"

section \<open>Blocks\<close>

definition is_meta_group :: "vol \<Rightarrow> u32 \<Rightarrow> u32 \<Rightarrow> (exst, unit option) opn" where
  "is_meta_group v blk g =
     (if blk = ex_gd_block v g then ret (Some ())
      else seq (attempt (ex_block v (ex_gd_block v g) B_META2)) (\<lambda>r.
           case r of
             None \<Rightarrow> ret None
           | Some _ \<Rightarrow>
               seq (get_buf B_META2) (\<lambda>b.
               let off = gd_off v g; bbm = ex_rd32 b off; ibm = ex_rd32 b (off + 4); itab = ex_rd32 b (off + 8);
                   ipgb = (ex_ipg v * ex_inode_size v + ex_block_size v - 1) div ex_block_size v
               in ret (if blk = bbm \<or> blk = ibm \<or> (bbm \<noteq> 0 \<and> blk > g * ex_bpg v \<and> blk < bbm) \<or>
                          (itab \<noteq> 0 \<and> blk \<ge> itab \<and> blk < itab + ipgb)
                       then Some () else None))))"

definition ex_is_meta :: "vol \<Rightarrow> u32 \<Rightarrow> (exst, bool) opn" where
  "ex_is_meta v blk =
     (if ex_block_size v = 0 then trap
      else if blk = 0 \<or> blk < ex_first_block v then ret True
      else if blk \<ge> 1024 div ex_block_size v \<and> blk \<le> (1024 + 1023) div ex_block_size v then ret True
      else if ex_bpg v = 0 then trap
      else seq (each (is_meta_group v blk) (groups (ex_blocks v) (ex_bpg v))) (\<lambda>r. ret (r \<noteq> None)))"

text \<open>Taking bit \<open>k\<close> of group \<open>g\<close>, which owns block \<open>ab\<close>.\<close>

definition alloc_commit :: "vol \<Rightarrow> u32 \<Rightarrow> u32 \<Rightarrow> nat \<Rightarrow> u32 \<Rightarrow> (exst, u32) opn" where
  "alloc_commit v g bbm k ab =
     seq (upd_buf B_META (bm_set k)) (\<lambda>_.
     seq (ex_write_block v bbm B_META) (\<lambda>_.
     seq (upd_counts v g 12 12 dec0) (\<lambda>_.
     seq (upd_buf B_DATA (ex_memzero (bsz v))) (\<lambda>_.
     seq (ex_write_block v ab B_DATA) (\<lambda>_.
     ret ab)))))"

text \<open>\<open>Some None\<close> leaves the bit loop, \<open>Some (Some b)\<close> returns block \<open>b\<close>.\<close>

definition alloc_bit :: "vol \<Rightarrow> u32 \<Rightarrow> u32 \<Rightarrow> nat \<Rightarrow> (exst, u32 option option) opn" where
  "alloc_bit v g bbm k =
     (let ab = g * ex_bpg v + of_nat k + 1
      in if ab \<ge> ex_blocks v then ret (Some None)
         else seq (ex_is_meta v ab) (\<lambda>m.
              if m then ret None
              else if k div 8 \<ge> EX_MAX_BLOCK then trap
              else seq (get_buf B_META) (\<lambda>b.
                   if bm_get b k then ret None
                   else seq (alloc_commit v g bbm k ab) (\<lambda>ab. ret (Some (Some ab))))))"

definition alloc_group :: "vol \<Rightarrow> u32 \<Rightarrow> (exst, u32 option) opn" where
  "alloc_group v g =
     seq (ex_block v (ex_gd_block v g) B_META) (\<lambda>_.
     seq (get_buf B_META) (\<lambda>b.
     let bbm = ex_rd32 b (gd_off v g)
     in if bbm = 0 then fail EX_EIO
        else seq (ex_block v bbm B_META) (\<lambda>_.
             seq (each (alloc_bit v g bbm) [0..<unat (ex_bpg v)]) (\<lambda>r.
             ret (case r of Some (Some ab) \<Rightarrow> Some ab | _ \<Rightarrow> None)))))"

definition ex_alloc_block :: "vol \<Rightarrow> (exst, u32) opn" where
  "ex_alloc_block v =
     (if ex_bpg v = 0 then trap
      else seq (each (alloc_group v) (groups (ex_blocks v) (ex_bpg v))) (\<lambda>r.
           case r of Some ab \<Rightarrow> ret ab | None \<Rightarrow> fail EX_EFBIG))"

definition ex_free_block :: "vol \<Rightarrow> u32 \<Rightarrow> (exst, unit) opn" where
  "ex_free_block v blk =
     (if ex_bpg v = 0 then trap
      else if blk = 0 then fail EX_EINVAL
      else seq (ex_is_meta v blk) (\<lambda>m.
           let g = (blk - 1) div ex_bpg v; k = unat ((blk - 1) mod ex_bpg v)
           in if m \<or> g \<ge> ngroups (ex_blocks v) (ex_bpg v) then fail EX_EINVAL
              else seq (ex_block v (ex_gd_block v g) B_META) (\<lambda>_.
                   seq (get_buf B_META) (\<lambda>b.
                   let bbm = ex_rd32 b (gd_off v g)
                   in if bbm = 0 then fail EX_EIO
                      else seq (ex_block v bbm B_META) (\<lambda>_.
                           if k div 8 \<ge> EX_MAX_BLOCK then trap
                           else seq (upd_buf B_META (bm_clear k)) (\<lambda>_.
                                seq (ex_write_block v bbm B_META) (\<lambda>_.
                                upd_counts v g 12 12 (\<lambda>n. n + 1))))))))"

section \<open>The growing block map\<close>

definition set_iblock :: "nat \<Rightarrow> u32 \<Rightarrow> ex_inode_t \<Rightarrow> ex_inode_t" where
  "set_iblock k b i = i\<lparr>iblock := (iblock i)(k := b)\<rparr>"

definition get_direct :: "vol \<Rightarrow> ex_inode_t \<Rightarrow> nat \<Rightarrow> bool \<Rightarrow> (exst, u32 \<times> ex_inode_t) opn" where
  "get_direct v i lb alloc =
     (if iblock i lb \<noteq> 0 then ret (iblock i lb, i)
      else if \<not> alloc then ret (0, i)
      else seq (err_to EX_EFBIG (ex_alloc_block v)) (\<lambda>nb. ret (nb, set_iblock lb nb i)))"

definition get_table :: "vol \<Rightarrow> ex_inode_t \<Rightarrow> (exst, u32 \<times> ex_inode_t) opn" where
  "get_table v i =
     (if iblock i 12 \<noteq> 0 then ret (iblock i 12, i)
      else seq (err_to EX_EFBIG (ex_alloc_block v)) (\<lambda>tab.
           seq (upd_buf B_IND (ex_memzero (bsz v))) (\<lambda>_.
           seq (ex_write_block v tab B_IND) (\<lambda>_. ret (tab, set_iblock 12 tab i)))))"

definition ex_get_block :: "vol \<Rightarrow> ex_inode_t \<Rightarrow> nat \<Rightarrow> bool \<Rightarrow> (exst, u32 \<times> ex_inode_t) opn" where
  "ex_get_block v i lb alloc =
     (if lb < EX_DIRECT then get_direct v i lb alloc
      else if lb - EX_DIRECT < per v then
        if iblock i 12 = 0 \<and> \<not> alloc then ret (0, i)
        else seq (get_table v i) (\<lambda>(tab, i).
             seq (ex_block v tab B_IND) (\<lambda>_.
             seq (get_buf B_IND) (\<lambda>b.
             let nb = ex_rd32 b ((lb - EX_DIRECT) * 4)
             in if nb \<noteq> 0 \<or> \<not> alloc then ret (nb, i)
                else seq (err_to EX_EFBIG (ex_alloc_block v)) (\<lambda>nb.
                     seq (upd_buf B_IND (wr32 ((lb - EX_DIRECT) * 4) nb)) (\<lambda>_.
                     seq (ex_write_block v tab B_IND) (\<lambda>_. ret (nb, i)))))))
      else fail EX_EFBIG)"

definition ex_count_blocks :: "vol \<Rightarrow> ex_inode_t \<Rightarrow> (exst, u32) opn" where
  "ex_count_blocks v i =
     (let p = ex_block_size v div 512;
          n = of_nat (length (filter (\<lambda>k. iblock i k \<noteq> 0) [0..<EX_DIRECT])) * p
      in if iblock i 12 = 0 then ret n
         else seq (attempt (ex_block v (iblock i 12) B_IND)) (\<lambda>r.
              seq (get_buf B_IND) (\<lambda>b.
              ret (n + p + (if r = None then 0
                            else of_nat (length (filter (\<lambda>k. ex_rd32 b (k * 4) \<noteq> 0) [0..<per v])) * p)))))"

definition ex_uses_doubly :: "ex_inode_t \<Rightarrow> bool" where
  "ex_uses_doubly i \<longleftrightarrow> iblock i 13 \<noteq> 0"

section \<open>Truncation\<close>

definition free_if :: "vol \<Rightarrow> u32 \<Rightarrow> (exst, unit) opn" where
  "free_if v b = (if b = 0 then ret () else ex_free_block v b)"

definition free_entry :: "vol \<Rightarrow> nat \<Rightarrow> (exst, unit) opn" where
  "free_entry v k = seq (get_buf B_IND) (\<lambda>b. free_if v (ex_rd32 b (k * 4)))"

definition clear_from :: "nat \<Rightarrow> nat \<Rightarrow> ex_inode_t \<Rightarrow> ex_inode_t" where
  "clear_from a n i = i\<lparr>iblock := (\<lambda>k. if a \<le> k \<and> k < n then 0 else iblock i k)\<rparr>"

definition ex_free_data :: "vol \<Rightarrow> ex_inode_t \<Rightarrow> (exst, ex_inode_t) opn" where
  "ex_free_data v i =
     (if iblock i 13 \<noteq> 0 \<or> iblock i 14 \<noteq> 0 then fail EX_EFBIG
      else seq (for_each (\<lambda>k. free_if v (iblock i k)) [0..<EX_DIRECT]) (\<lambda>_.
           if iblock i 12 = 0 then ret (clear_from 0 12 i)
           else seq (ex_block v (iblock i 12) B_IND) (\<lambda>_.
                seq (for_each (free_entry v) [0..<per v]) (\<lambda>_.
                seq (ex_free_block v (iblock i 12)) (\<lambda>_. ret (clear_from 0 13 i))))))"

text \<open>The single-indirect part of a shrink: free the entries from \<open>start\<close> on, then the table
  if nothing is left in it.\<close>

definition trunc_table :: "vol \<Rightarrow> ex_inode_t \<Rightarrow> nat \<Rightarrow> (exst, ex_inode_t) opn" where
  "trunc_table v i start =
     seq (ex_block v (iblock i 12) B_IND) (\<lambda>_.
     seq (for_each (\<lambda>k. seq (free_entry v k) (\<lambda>_. upd_buf B_IND (wr32 (k * 4) 0))) [start..<per v]) (\<lambda>_.
     seq (get_buf B_IND) (\<lambda>b.
     if \<exists>k \<in> set [0..<per v]. ex_rd32 b (k * 4) \<noteq> 0
     then seq (ex_write_block v (iblock i 12) B_IND) (\<lambda>_. ret i)
     else seq (ex_free_block v (iblock i 12)) (\<lambda>_. ret (set_iblock 12 0 i)))))"

definition ex_truncate_locked :: "vol \<Rightarrow> u32 \<Rightarrow> u32 \<Rightarrow> (exst, unit) opn" where
  "ex_truncate_locked v ino sz =
     seq (err_to EX_EIO (ex_inode v ino)) (\<lambda>i.
     if is_dir_mode (imode i) then fail EX_EISDIR
     else if ex_uses_doubly i then fail EX_EFBIG
     else if sz \<ge> isize i then (if sz = isize i then ret () else fail EX_EINVAL)
     else if sz = 0 then
       seq (ex_free_data v i) (\<lambda>i. ex_write_inode v ino (i\<lparr>isize := 0, iblocks := 0\<rparr>))
     else
       let keep = unat ((sz + ex_block_size v - 1) div ex_block_size v)
       in seq (for_each (\<lambda>k. free_if v (iblock i k)) [keep..<EX_DIRECT]) (\<lambda>_.
          seq (if keep \<ge> EX_DIRECT \<or> iblock i 12 = 0 then ret (clear_from keep 12 i)
               else trunc_table v (clear_from keep 12 i) (if keep > EX_DIRECT then keep - EX_DIRECT else 0)) (\<lambda>i.
          seq (ex_count_blocks v (i\<lparr>isize := sz\<rparr>)) (\<lambda>n.
          ex_write_inode v ino (i\<lparr>isize := sz, iblocks := n\<rparr>)))))"

section \<open>Writing\<close>

text \<open>\<^verbatim>\<open>return done ? done : rc\<close>: after progress an error ends the loop with a short count.\<close>

definition or_short :: "nat \<Rightarrow> (exst, 'a) opn \<Rightarrow> (exst, 'a option) opn" where
  "or_short n m s =
     (case m s of (Val a, s') \<Rightarrow> (Val (Some a), s') | (Trap, s') \<Rightarrow> (Trap, s')
      | (Err e, s') \<Rightarrow> if n = 0 then (Err e, s') else (Val None, s'))"

definition wr_bytes :: "nat \<Rightarrow> u8 list \<Rightarrow> buf \<Rightarrow> buf" where
  "wr_bytes off bs b = (\<lambda>j. if off \<le> j \<and> j < off + length bs then bs ! (j - off) else b j)"

text \<open>One round of the loop: the block of byte \<open>pos\<close>, updated with \<open>chk\<close> at offset \<open>inb\<close>.\<close>

definition write_chunk :: "vol \<Rightarrow> ex_inode_t \<Rightarrow> nat \<Rightarrow> nat \<Rightarrow> u8 list \<Rightarrow> (exst, ex_inode_t) opn" where
  "write_chunk v i lb inb chk =
     seq (ex_get_block v i lb True) (\<lambda>(pb, i).
     seq (ex_block v pb B_DATA) (\<lambda>_.
     seq (upd_buf B_DATA (wr_bytes inb chk)) (\<lambda>_.
     seq (ex_write_block v pb B_DATA) (\<lambda>_. ret i))))"

text \<open>The loop ends with \<open>(Some inode, n)\<close> when all bytes were stored, \<open>(None, n)\<close> after a short write.\<close>

function write_loop :: "vol \<Rightarrow> ex_inode_t \<Rightarrow> nat \<Rightarrow> u8 list \<Rightarrow> nat \<Rightarrow> (exst, ex_inode_t option \<times> nat) opn" where
  "write_loop v i off data n =
     (if n < length data then
        if bsz v = 0 then trap
        else
          let pos = off + n; lb = pos div bsz v; inb = pos mod bsz v; tk = min (bsz v - inb) (length data - n)
          in if lb \<ge> EX_DIRECT + per v then fail EX_EFBIG
             else seq (or_short n (write_chunk v i lb inb (take tk (drop n data)))) (\<lambda>r.
                  case r of None \<Rightarrow> ret (None, n) | Some i \<Rightarrow> write_loop v i off data (n + tk))
      else ret (Some i, n))"
  by pat_completeness auto
termination by (relation "measure (\<lambda>(v, i, off, data, n). length data - n)") (auto simp: Let_def intro!: loop_less)

declare write_loop.simps [simp del]

definition ex_write_data_locked :: "vol \<Rightarrow> u32 \<Rightarrow> u64 \<Rightarrow> u8 list \<Rightarrow> (exst, nat) opn" where
  "ex_write_data_locked v ino off data =
     seq (err_to EX_EIO (ex_inode v ino)) (\<lambda>i.
     if is_dir_mode (imode i) then fail EX_EISDIR
     else if ex_uses_doubly i then fail EX_EFBIG
     else if off > ucast (isize i) then fail EX_EINVAL
     else if off + of_nat (length data) < off then fail EX_EINVAL
     else seq (write_loop v i (unat off) data 0) (\<lambda>(r, n).
          case r of
            None \<Rightarrow> ret n
          | Some i \<Rightarrow>
              let i = (if unat off + n > unat (isize i) then i\<lparr>isize := of_nat (unat off + n)\<rparr> else i)
              in seq (ex_count_blocks v i) (\<lambda>c.
                 seq (or_short n (ex_write_inode v ino (i\<lparr>iblocks := c\<rparr>))) (\<lambda>_. ret n))))"

section \<open>Creating files\<close>

definition ialloc_bit :: "vol \<Rightarrow> u32 \<Rightarrow> u32 \<Rightarrow> nat \<Rightarrow> (exst, u32 option) opn" where
  "ialloc_bit v g ibm k =
     (let ino = g * ex_ipg v + of_nat k + 1
      in if ino > ex_inodes v \<or> ino < 12 then ret None
         else seq (get_buf B_META) (\<lambda>b.
              if bm_get b k then ret None
              else seq (upd_buf B_META (bm_set k)) (\<lambda>_.
                   seq (ex_write_block v ibm B_META) (\<lambda>_.
                   seq (upd_counts v g 16 14 dec0) (\<lambda>_. ret (Some ino))))))"

definition ialloc_group :: "vol \<Rightarrow> u32 \<Rightarrow> (exst, u32 option) opn" where
  "ialloc_group v g =
     seq (ex_block v (ex_gd_block v g) B_META) (\<lambda>_.
     seq (get_buf B_META) (\<lambda>b.
     let ibm = ex_rd32 b (gd_off v g + 4)
     in if ibm = 0 then fail EX_EIO
        else seq (ex_block v ibm B_META) (\<lambda>_.
             each (ialloc_bit v g ibm) [0..<min (bsz v * 8) (unat (ex_ipg v))])))"

definition ex_alloc_inode :: "vol \<Rightarrow> (exst, u32) opn" where
  "ex_alloc_inode v =
     (if ex_ipg v = 0 \<or> ex_block_size v = 0 then trap
      else seq (each (ialloc_group v) (groups (ex_inodes v) (ex_ipg v))) (\<lambda>r.
           case r of Some ino \<Rightarrow> ret ino | None \<Rightarrow> fail EX_EFBIG))"

text \<open>Directory records occupy multiples of four bytes.\<close>

definition round4 :: "nat \<Rightarrow> nat" where
  "round4 n = (n + 3) div 4 * 4"

definition dent_need :: "u8 list \<Rightarrow> nat" where
  "dent_need nm = round4 (8 + length nm)"

text \<open>Inode, name length, type and name of a record; the record length is written separately.\<close>

definition put_dent :: "nat \<Rightarrow> u32 \<Rightarrow> u8 list \<Rightarrow> bool \<Rightarrow> buf \<Rightarrow> buf" where
  "put_dent off ino nm isd b =
     wr_bytes (off + 8) nm ((wr32 off ino b)(off + 6 := of_nat (length nm), off + 7 := (if isd then 2 else 1)))"

definition dir_fresh :: "vol \<Rightarrow> u32 \<Rightarrow> u8 list \<Rightarrow> bool \<Rightarrow> buf \<Rightarrow> buf" where
  "dir_fresh v ino nm isd b = put_dent 0 ino nm isd (wr16 4 (ex_block_size v) (ex_memzero (bsz v) b))"

definition dent_used :: "buf \<Rightarrow> nat \<Rightarrow> nat" where
  "dent_used b off = round4 (8 + dent_nlen b off)"

definition dent_fits :: "buf \<Rightarrow> nat \<Rightarrow> nat \<Rightarrow> bool" where
  "dent_fits b need off \<longleftrightarrow>
     (if dent_ino b off = 0 then dent_rlen b off \<ge> need
      else dent_rlen b off > dent_used b off \<and> dent_rlen b off - dent_used b off \<ge> need)"

text \<open>A free record is taken whole; the slack behind a live record is split off.\<close>

definition dir_place :: "nat \<Rightarrow> u32 \<Rightarrow> u8 list \<Rightarrow> bool \<Rightarrow> buf \<Rightarrow> buf option" where
  "dir_place bs ino nm isd b =
     (case find (dent_fits b (dent_need nm)) (dir_offs bs b 0) of
        None \<Rightarrow> None
      | Some off \<Rightarrow>
          if dent_ino b off = 0 then Some (put_dent off ino nm isd b)
          else let u = dent_used b off
               in Some (put_dent (off + u) ino nm isd
                          (wr16 (off + u + 4) (of_nat (dent_rlen b off - u)) (wr16 (off + 4) (of_nat u) b))))"

primrec dir_add_loop :: "vol \<Rightarrow> u32 \<Rightarrow> u32 \<Rightarrow> u8 list \<Rightarrow> bool \<Rightarrow> nat list \<Rightarrow> ex_inode_t \<Rightarrow> (exst, unit) opn" where
  "dir_add_loop v dino ino nm isd [] dir = fail EX_EFBIG"
| "dir_add_loop v dino ino nm isd (lb # lbs) dir =
     seq (ex_get_block v dir lb True) (\<lambda>(pb, dir).
     if of_nat lb * ex_block_size v \<ge> isize dir then
       seq (upd_buf B_DATA (dir_fresh v ino nm isd)) (\<lambda>_.
       seq (ex_write_block v pb B_DATA) (\<lambda>_.
       let dir = dir\<lparr>isize := isize dir + ex_block_size v\<rparr>
       in seq (ex_count_blocks v dir) (\<lambda>n. ex_write_inode v dino (dir\<lparr>iblocks := n\<rparr>))))
     else
       seq (ex_block v pb B_DATA) (\<lambda>_.
       seq (get_buf B_DATA) (\<lambda>b.
       case dir_place (bsz v) ino nm isd b of
         Some b' \<Rightarrow> seq (upd_buf B_DATA (\<lambda>_. b')) (\<lambda>_. ex_write_block v pb B_DATA)
       | None \<Rightarrow> dir_add_loop v dino ino nm isd lbs dir)))"

definition ex_dir_add :: "vol \<Rightarrow> u32 \<Rightarrow> u32 \<Rightarrow> u8 list \<Rightarrow> bool \<Rightarrow> (exst, unit) opn" where
  "ex_dir_add v dino ino name isd =
     (let nm = take 64 (cbytes name)
      in if nm = [] then fail EX_EINVAL
         else seq (err_to EX_EIO (ex_inode v dino)) (\<lambda>dir.
              if \<not> is_dir_mode (imode dir) then fail EX_ENOTDIR
              else if ex_uses_doubly dir then fail EX_EFBIG
              else dir_add_loop v dino ino nm isd [0..<EX_DIRECT + per v] dir))"

text \<open>A fresh inode slot: all zero but the mode 0x81A4 and one link.\<close>

definition inode_fresh :: "vol \<Rightarrow> nat \<Rightarrow> buf \<Rightarrow> buf" where
  "inode_fresh v io b =
     (\<lambda>j. if io \<le> j \<and> j < io + min (unat (ex_inode_size v)) (bsz v) then 0 else b j)
       (io := 0xA4, io + 1 := 0x81, io + 26 := 1)"

definition ex_create_locked :: "vol \<Rightarrow> u32 \<Rightarrow> u8 list \<Rightarrow> (exst, u32) opn" where
  "ex_create_locked v dino name =
     seq (err_to EX_EIO (ex_inode v dino)) (\<lambda>dir.
     if \<not> is_dir_mode (imode dir) then fail EX_ENOTDIR
     else seq (err_to EX_EFBIG (ex_alloc_inode v)) (\<lambda>ino.
          seq (inode_slot v ino) (\<lambda>(ib, io).
          seq (upd_buf B_META (inode_fresh v io)) (\<lambda>_.
          seq (ex_write_block v ib B_META) (\<lambda>_.
          seq (err_to EX_EIO (ex_dir_add v dino ino name False)) (\<lambda>_.
          ret ino))))))"

definition ex_fsize_locked :: "vol \<Rightarrow> u32 \<Rightarrow> (exst, u32) opn" where
  "ex_fsize_locked v ino =
     seq (err_to EX_EIO (ex_inode v ino)) (\<lambda>i. if is_dir_mode (imode i) then fail EX_EISDIR else ret (isize i))"

definition ex_truncate :: "u32 \<Rightarrow> u32 \<Rightarrow> (exst, unit) opn" where
  "ex_truncate ino sz = with_ex_lock (\<lambda>v. ex_truncate_locked v ino sz)"

definition ex_write_data :: "u32 \<Rightarrow> u64 \<Rightarrow> u8 list \<Rightarrow> (exst, nat) opn" where
  "ex_write_data ino off data = with_ex_lock (\<lambda>v. ex_write_data_locked v ino off data)"

definition ex_create :: "u32 \<Rightarrow> u8 list \<Rightarrow> (exst, u32) opn" where
  "ex_create dino name = with_ex_lock (\<lambda>v. ex_create_locked v dino name)"

definition ex_fsize :: "u32 \<Rightarrow> (exst, u32) opn" where
  "ex_fsize ino = with_ex_lock (\<lambda>v. ex_fsize_locked v ino)"

section \<open>The bitmap rebuild\<close>

definition aud_set :: "nat \<Rightarrow> (exst, unit) opn" where
  "aud_set k = (if k div 8 < EX_MAX_BLOCK then upd_buf B_AUD (bm_set k) else trap)"

definition ex_audit_mark :: "vol \<Rightarrow> u32 \<Rightarrow> u32 \<Rightarrow> (exst, unit) opn" where
  "ex_audit_mark v g vb =
     (let lo = g * ex_bpg v; slot = vb - 1
      in if vb = 0 \<or> vb \<ge> ex_blocks v \<or> slot < lo \<or> slot \<ge> lo + ex_bpg v then ret ()
         else aud_set (unat (slot - lo)))"

text \<open>The macro \<^verbatim>\<open>EX_MARK\<close>, whose upper bound is cut at the end of the volume.\<close>

definition ex_mark :: "vol \<Rightarrow> u32 \<Rightarrow> u32 \<Rightarrow> (exst, unit) opn" where
  "ex_mark v g b =
     (let lo = g * ex_bpg v; hi = min (lo + ex_bpg v) (ex_blocks v)
      in if b \<ge> 1 \<and> b < ex_blocks v \<and> b - 1 \<ge> lo \<and> b - 1 < hi then aud_set (unat (b - 1 - lo)) else ret ())"

definition reserved_ino :: "u32 \<Rightarrow> bool" where
  "reserved_ino ino \<longleftrightarrow> ino = 1 \<or> (3 \<le> ino \<and> ino \<le> 10)"

text \<open>The pre-pass: is there an inode with a triple-indirect block?\<close>

definition has_triple :: "vol \<Rightarrow> u32 \<Rightarrow> nat \<Rightarrow> (exst, bool option) opn" where
  "has_triple v g k =
     (let ino = g * ex_ipg v + of_nat k + 1
      in if ino > ex_inodes v then ret (Some False)
         else if reserved_ino ino then ret None
         else seq (attempt (ex_inode v ino)) (\<lambda>r.
              ret (case r of
                     None \<Rightarrow> None
                   | Some i \<Rightarrow> if imode i \<noteq> 0 \<and> iblock i 14 \<noteq> 0 then Some True else None)))"

definition triple_group :: "vol \<Rightarrow> u32 \<Rightarrow> (exst, unit option) opn" where
  "triple_group v g =
     seq (each (has_triple v g) [0..<unat (ex_ipg v)]) (\<lambda>r. ret (if r = Some True then Some () else None))"

definition mark_table :: "vol \<Rightarrow> u32 \<Rightarrow> bufid \<Rightarrow> (exst, unit) opn" where
  "mark_table v g t = for_each (\<lambda>k. seq (get_buf t) (\<lambda>b. ex_audit_mark v g (ex_rd32 b (k * 4)))) [0..<per v]"

definition mark_double_entry :: "vol \<Rightarrow> u32 \<Rightarrow> nat \<Rightarrow> (exst, unit) opn" where
  "mark_double_entry v g k =
     seq (get_buf B_IND) (\<lambda>b.
     let l1 = ex_rd32 b (k * 4)
     in if l1 = 0 \<or> l1 \<ge> ex_blocks v then ret ()
        else seq (ex_audit_mark v g l1) (\<lambda>_.
             seq (attempt (ex_block v l1 B_DATA)) (\<lambda>r.
             if r = None then ret () else mark_table v g B_DATA)))"

definition mark_double :: "vol \<Rightarrow> u32 \<Rightarrow> ex_inode_t \<Rightarrow> (exst, unit) opn" where
  "mark_double v g i =
     (if iblock i 13 = 0 then ret ()
      else seq (ex_audit_mark v g (iblock i 13)) (\<lambda>_.
           seq (attempt (ex_block v (iblock i 13) B_IND)) (\<lambda>r.
           if r = None then ret () else for_each (mark_double_entry v g) [0..<per v])))"

definition mark_inode :: "vol \<Rightarrow> u32 \<Rightarrow> ex_inode_t \<Rightarrow> (exst, unit) opn" where
  "mark_inode v g i =
     seq (for_each (\<lambda>k. ex_audit_mark v g (iblock i k)) [0..<EX_DIRECT]) (\<lambda>_.
     if iblock i 12 = 0 then mark_double v g i
     else seq (ex_audit_mark v g (iblock i 12)) (\<lambda>_.
          seq (attempt (ex_block v (iblock i 12) B_IND)) (\<lambda>r.
          if r = None then ret ()
          else seq (mark_table v g B_IND) (\<lambda>_. mark_double v g i))))"

definition audit_inode :: "vol \<Rightarrow> u32 \<Rightarrow> nat \<Rightarrow> (exst, unit option) opn" where
  "audit_inode v g k =
     (let ino = g * ex_ipg v + of_nat k + 1
      in if ino > ex_inodes v then ret (Some ())
         else if k div 8 \<ge> EX_MAX_BLOCK then trap
         else seq (get_buf B_META2) (\<lambda>b.
              if \<not> bm_get b k \<or> reserved_ino ino then ret None
              else seq (attempt (ex_inode v ino)) (\<lambda>r.
                   case r of
                     None \<Rightarrow> ret None
                   | Some i \<Rightarrow> if imode i = 0 then ret None else seq (mark_inode v g i) (\<lambda>_. ret None))))"

definition mark_meta :: "vol \<Rightarrow> u32 \<Rightarrow> u32 \<Rightarrow> u32 \<Rightarrow> u32 \<Rightarrow> (exst, unit) opn" where
  "mark_meta v g bbm ibm itab =
     (let lo = g * ex_bpg v; hi = min (lo + ex_bpg v) (ex_blocks v);
          ipgb = (ex_ipg v * ex_inode_size v + ex_block_size v - 1) div ex_block_size v
      in seq (for_each (\<lambda>m. ex_mark v g (of_nat m)) [unat (lo + 1)..<min (unat bbm) (unat hi)]) (\<lambda>_.
         seq (ex_mark v g bbm) (\<lambda>_.
         seq (ex_mark v g ibm) (\<lambda>_.
         for_each (\<lambda>m. ex_mark v g (itab + of_nat m)) [0..<unat ipgb]))))"

text \<open>The padding bits past the last block are set, and the clear bits of existing blocks counted.\<close>

definition audit_finish :: "vol \<Rightarrow> u32 \<Rightarrow> (exst, nat) opn" where
  "audit_finish v g =
     (let ex = (\<lambda>k. g * ex_bpg v + of_nat k + 1 < ex_blocks v); ks = [0..<unat (ex_bpg v)]
      in if unat (ex_bpg v) > 8 * EX_MAX_BLOCK then trap
         else seq (for_each (\<lambda>k. if ex k then ret () else aud_set k) ks) (\<lambda>_.
              seq (get_buf B_AUD) (\<lambda>b. ret (length (filter (\<lambda>k. ex k \<and> \<not> bm_get b k) ks)))))"

definition audit_group :: "vol \<Rightarrow> u32 \<Rightarrow> (exst, nat) opn" where
  "audit_group v g =
     seq (attempt (ex_block v (ex_gd_block v g) B_META)) (\<lambda>r.
     seq (get_buf B_META) (\<lambda>b.
     let bbm = ex_rd32 b (gd_off v g); ibm = ex_rd32 b (gd_off v g + 4); itab = ex_rd32 b (gd_off v g + 8)
     in if r = None \<or> bbm = 0 then ret 0
        else seq (upd_buf B_AUD (ex_memzero (bsz v))) (\<lambda>_.
             seq (mark_meta v g bbm ibm itab) (\<lambda>_.
             seq (if ibm = 0 then ret None else attempt (ex_block v ibm B_META2)) (\<lambda>r.
             if r = None then ret 0
             else seq (each (audit_inode v g) [0..<unat (ex_ipg v)]) (\<lambda>_.
                  seq (audit_finish v g) (\<lambda>gfree.
                  seq (attempt (ex_write_block v bbm B_AUD)) (\<lambda>_.
                  seq (attempt (ex_block v (ex_gd_block v g) B_META)) (\<lambda>r.
                  if r = None then ret 0
                  else seq (upd_buf B_META (wr16 (gd_off v g + 12) (of_nat gfree))) (\<lambda>_.
                       seq (attempt (ex_write_block v (ex_gd_block v g) B_META)) (\<lambda>_. ret gfree)))))))))))"

primrec audit_groups :: "vol \<Rightarrow> u32 list \<Rightarrow> nat \<Rightarrow> (exst, nat) opn" where
  "audit_groups v [] n = ret n"
| "audit_groups v (g # gs) n = seq (audit_group v g) (\<lambda>k. audit_groups v gs (n + k))"

definition ex_audit_locked :: "vol \<Rightarrow> (exst, unit) opn" where
  "ex_audit_locked v =
     (if ex_bpg v = 0 then trap
      else let gs = groups (ex_blocks v) (ex_bpg v)
           in seq (each (triple_group v) gs) (\<lambda>r.
              if r \<noteq> None then ret ()
              else seq (audit_groups v gs 0) (\<lambda>n.
                   seq (attempt (ex_read_sb (ex_drive v))) (\<lambda>r.
                   if r = None then ret ()
                   else seq (upd_buf B_META (wr32 12 (of_nat n))) (\<lambda>_.
                        seq (attempt (ex_write_sb v)) (\<lambda>_. ret ()))))))"

definition ex_audit_bitmaps :: "(exst, unit) opn" where
  "ex_audit_bitmaps = with_ex_lock ex_audit_locked"

section \<open>Mounting\<close>

definition EX_SUPER_MAGIC :: u16 where "EX_SUPER_MAGIC = 0xEF53"
definition EX_INCOMPAT_OK :: u32 where "EX_INCOMPAT_OK = 0x2 OR 0x8 OR 0x20 OR 0x200"

definition sb_geometry :: "int \<Rightarrow> buf \<Rightarrow> u32 \<Rightarrow> vol" where
  "sb_geometry d b isz =
     \<lparr>ex_drive = d, ex_block_size = push_bit (unat (ex_rd32 b 24)) 1024, ex_inodes = ex_rd32 b 0, ex_blocks = ex_rd32 b 4,
      ex_first_block = ex_rd32 b 20, ex_bpg = ex_rd32 b 32, ex_ipg = ex_rd32 b 40, ex_inode_size = isz\<rparr>"

definition ex_mount :: "int \<Rightarrow> (exst, unit) opn" where
  "ex_mount d =
     seq (ex_read_sb d) (\<lambda>_.
     seq (get_buf B_META) (\<lambda>b.
     let isz = (if ex_rd32 b 76 \<ge> 1 then ex_rd32 b 88 else 128)
     in if ex_rd16 b 56 \<noteq> EX_SUPER_MAGIC then fail EX_EINVAL
        else if ex_rd32 b 96 AND NOT EX_INCOMPAT_OK \<noteq> 0 then fail EX_EFBIG
        else if ex_rd32 b 24 > 2 then fail EX_EFBIG
        else if isz < 128 \<or> isz > 1024 \<or> isz AND (isz - 1) \<noteq> 0 then fail EX_EFBIG
        else seq (with_ex_lock (\<lambda>_. modify (\<lambda>s. s\<lparr>geo := sb_geometry d b isz, ex_vol_mounted := True\<rparr>))) (\<lambda>_.
             ex_audit_bitmaps)))"

end
