(* ===== verification/Ring.thy ===== *)
theory Ring
  imports K64_Prelude
begin

text \<open>
  Bounded queues.  The keyboard driver (\<^verbatim>\<open>kbd64.c\<close>) and each window slot
  (\<^verbatim>\<open>win64.c\<close>) keep a ring buffer with one writer index and one reader index; a full ring
  drops the newest element.  This theory gives the contract the readers rely on as a locale, the
  arithmetic of a ring of \<open>N\<close> cells, and the client facts (FIFO order, no loss below capacity).
\<close>

section \<open>The contract\<close>

locale bounded_queue =
  fixes push :: "'a \<Rightarrow> 'q \<Rightarrow> 'q"
    and pop :: "'q \<Rightarrow> ('a \<times> 'q) option"
    and items :: "'q \<Rightarrow> 'a list"
    and inv :: "'q \<Rightarrow> bool"
    and cap :: nat
  assumes push_inv: "inv q \<Longrightarrow> inv (push x q)"
    and push_items: "inv q \<Longrightarrow> items (push x q) = (if length (items q) < cap then items q @ [x] else items q)"
    and pop_None: "inv q \<Longrightarrow> items q = [] \<Longrightarrow> pop q = None"
    and pop_Some: "inv q \<Longrightarrow> items q = x # xs \<Longrightarrow> \<exists>q'. pop q = Some (x, q') \<and> items q' = xs \<and> inv q'"
    and cap_bound: "inv q \<Longrightarrow> length (items q) \<le> cap"
begin

lemma push_all_items:
  "inv q \<Longrightarrow> length (items q) + length xs \<le> cap \<Longrightarrow>
   items (fold push xs q) = items q @ xs \<and> inv (fold push xs q)"
  by (induction xs arbitrary: q) (simp_all add: push_inv push_items)

lemma pop_iff: "inv q \<Longrightarrow> pop q = None \<longleftrightarrow> items q = []"
  by (cases "items q") (auto simp: pop_None dest: pop_Some)

lemma pop_SomeD:
  assumes "inv q" "pop q = Some (x, q')"
  shows "items q = x # items q' \<and> inv q'"
proof (cases "items q")
  case Nil
  with assms pop_None show ?thesis by simp
next
  case (Cons y ys)
  from pop_Some [OF assms(1) this] assms(2) Cons show ?thesis by auto
qed

end

text \<open>A reader that takes up to \<open>n\<close> elements, stopping when the queue is empty.\<close>

fun drain :: "('q \<Rightarrow> ('a \<times> 'q) option) \<Rightarrow> nat \<Rightarrow> 'q \<Rightarrow> 'a list \<times> 'q" where
  "drain pop 0 q = ([], q)"
| "drain pop (Suc n) q =
     (case pop q of None \<Rightarrow> ([], q)
      | Some (x, q') \<Rightarrow> let (xs, q'') = drain pop n q' in (x # xs, q''))"

context bounded_queue
begin

lemma drain_items:
  assumes "inv q" "drain pop n q = (xs, q')"
  shows "xs = take n (items q) \<and> items q' = drop n (items q) \<and> inv q'"
  using assms
proof (induction n arbitrary: q xs q')
  case (Suc n)
  show ?case
  proof (cases "items q")
    case Nil
    with Suc.prems pop_None show ?thesis by auto
  next
    case (Cons y ys)
    with pop_Some [OF Suc.prems(1)] obtain q1 where q1: "pop q = Some (y, q1)" "items q1 = ys" "inv q1" by blast
    obtain zs q2 where d: "drain pop n q1 = (zs, q2)" by fastforce
    with Suc.IH [OF q1(3) d] Suc.prems(2) q1 Cons show ?thesis by auto
  qed
qed simp

lemma fifo:
  assumes "inv q" "items q = []" "length xs \<le> cap"
  shows "fst (drain pop (length xs) (fold push xs q)) = xs"
  using push_all_items [of q xs] assms
    drain_items [of "fold push xs q" "length xs"] by (metis add_0 append_Nil list.size(3) prod.collapse take_all_iff order_refl)

end

section \<open>Ring arithmetic\<close>

definition ring_len :: "nat \<Rightarrow> nat \<Rightarrow> nat \<Rightarrow> nat" where
  "ring_len N h t = (h + N - t) mod N"

definition ring_items :: "nat \<Rightarrow> (nat \<Rightarrow> 'a) \<Rightarrow> nat \<Rightarrow> nat \<Rightarrow> 'a list" where
  "ring_items N buf h t = map (\<lambda>i. buf ((t + i) mod N)) [0..<ring_len N h t]"

lemma ring_len_cases:
  assumes "h < N" "t < N"
  shows "ring_len N h t = (if t \<le> h then h - t else h + N - t)"
proof (cases "t \<le> h")
  case True
  then have e: "h + N - t = (h - t) + N" by simp
  have "(h - t + N) mod N = h - t" using assms by simp
  with True show ?thesis unfolding ring_len_def e by simp
next
  case False
  with assms show ?thesis by (simp add: ring_len_def)
qed

lemma ring_next:
  assumes "h < N"
  shows "Suc h mod N = (if Suc h = N then 0 else Suc h)"
  using assms by auto

lemma ring_full_iff:
  assumes "h < N" "t < N"
  shows "Suc h mod N = t \<longleftrightarrow> ring_len N h t = N - 1"
  using assms by (auto simp: ring_len_cases ring_next)

lemma ring_empty_iff: "h < N \<Longrightarrow> t < N \<Longrightarrow> ring_len N h t = 0 \<longleftrightarrow> h = t"
  by (auto simp: ring_len_cases)

lemma length_ring_items [simp]: "length (ring_items N buf h t) = ring_len N h t"
  by (simp add: ring_items_def)

lemma ring_push:
  assumes "h < N" "t < N" "Suc h mod N \<noteq> t"
  shows "ring_items N (buf(h := x)) (Suc h mod N) t = ring_items N buf h t @ [x]"
proof -
  have l: "ring_len N (Suc h mod N) t = Suc (ring_len N h t)"
    using assms by (auto simp: ring_len_cases ring_next split: if_splits)
  have h: "(t + ring_len N h t) mod N = h"
    using assms(1,2) by (auto simp: ring_len_cases)
  have "(t + i) mod N \<noteq> h" if "i < ring_len N h t" for i
  proof (cases "t + i < N")
    case True
    with that assms(1,2) show ?thesis by (auto simp: ring_len_cases split: if_splits)
  next
    case False
    have "i < N" using that mod_less_divisor [of N "h + N - t"] assms(1) unfolding ring_len_def by linarith
    then have "t + i - N < N" "t + i = t + i - N + N" using False assms(2) by simp_all
    then have e: "(t + i) mod N = t + i - N" by (metis mod_add_self2 mod_less)
    show ?thesis unfolding e using False that assms(1,2) by (auto simp: ring_len_cases split: if_splits)
  qed
  then show ?thesis by (simp add: ring_items_def l h)
qed

lemma ring_pop:
  assumes "h < N" "t < N" "h \<noteq> t"
  shows "ring_items N buf h t = buf t # ring_items N buf h (Suc t mod N)"
proof -
  have l: "ring_len N h t = Suc (ring_len N h (Suc t mod N))"
    using assms by (auto simp: ring_len_cases ring_next split: if_splits)
  have "(Suc t mod N + i) mod N = (t + Suc i) mod N" for i by (simp add: mod_simps)
  then have "map (\<lambda>i. buf ((t + Suc i) mod N)) [0..<n] = map (\<lambda>i. buf ((Suc t mod N + i) mod N)) [0..<n]" for n
    by simp
  then show ?thesis
    using assms(2) by (simp add: ring_items_def l upt_conv_Cons map_Suc_upt [symmetric] comp_def del: upt_Suc)
qed

lemma ring_items_bound: "0 < N \<Longrightarrow> length (ring_items N buf h t) \<le> N - 1"
  using mod_less_divisor [of N "h + N - t"] unfolding length_ring_items ring_len_def by linarith

end
