(* ===== verification/Desk.thy ===== *)
theory Desk
  imports Ring
begin

text \<open>
  The state of the graphical part of the kernel, shared by the console (\<^verbatim>\<open>cons64.c\<close>), the
  window slots (\<^verbatim>\<open>win64.c\<close>) and the mouse (\<^verbatim>\<open>mouse64.c\<close>), and the raster loops
  they have in common.  Pixel memories (the console backbuffer, the display, the window pool) are maps from a
  word index to a pixel, with no bound: an index a C access would compute is the index the model
  writes, so a write outside an array is visible in the model.

  \<^verbatim>\<open>serial_lock\<close> serialises all operations here and is never nested; each operation is one
  atomic step of the model.
\<close>

section \<open>State\<close>

text \<open>The static variables of \<^verbatim>\<open>cons64.c\<close>; \<open>fb_mem\<close> is the display.\<close>

record cons64 =
  fb_mem :: "nat \<Rightarrow> u32"
  cons_bb :: "nat \<Rightarrow> u32"
  fb_stride :: u32
  fb_w :: u32
  fb_h :: u32
  ncols :: u32
  nrows :: u32
  cur_x :: u32
  cur_y :: u32
  fg_color :: u32
  live :: bool
  dirty_y0 :: u32
  dirty_y1 :: u32
  cur_dx :: u32
  cur_dy :: u32
  cur_shown :: bool
  status_want :: u32
  status_drawn :: u32
  gfx_on :: bool

text \<open>A task is named by its slot number; \<open>None\<close> is the null pointer.\<close>

type_synonym task_id = nat

datatype wev_type = WEV_KEY | WEV_MOVE | WEV_BTN | WEV_ENTER | WEV_LEAVE | WEV_FOCUS

record winev =
  ev_type :: wev_type
  d0 :: u32
  d1 :: u32
  d2 :: u32

record win =
  used :: bool
  wx :: u32
  wy :: u32
  ww :: u32
  wh :: u32
  off :: u32
  owner :: "task_id option"
  title :: string
  ev :: "nat \<Rightarrow> winev"
  ev_head :: u8
  ev_tail :: u8

text \<open>\<open>freev\<close> is the first \<^verbatim>\<open>freen\<close> entries of the free list, as (offset, size).\<close>

record winsys =
  wins :: "nat \<Rightarrow> win"
  win_pool :: "nat \<Rightarrow> u32"
  pool_bump :: u64
  freev :: "(u32 \<times> u32) list"
  win_focus :: int
  win_hover :: int
  win_last_btn :: u32

record mouse64 =
  mouse_x :: u32
  mouse_y :: u32
  mouse_btn :: u32
  mouse_seq :: u32
  mouse_live :: bool
  mouse_max_x :: u32
  mouse_max_y :: u32
  pkt :: "nat \<Rightarrow> u8"
  pkt_i :: nat

record desk =
  con :: cons64
  wsys :: winsys
  mou :: mouse64

section \<open>Dirty band\<close>

definition mark_dirty :: "u32 \<Rightarrow> u32 \<Rightarrow> cons64 \<Rightarrow> cons64" where
  "mark_dirty y0 y1 c =
     (if y0 \<ge> y1 then c
      else c\<lparr>dirty_y0 := (if y0 < dirty_y0 c then y0 else dirty_y0 c),
             dirty_y1 := (if y1 > dirty_y1 c then y1 else dirty_y1 c)\<rparr>)"

definition cons_mark_dirty :: "u32 \<Rightarrow> u32 \<Rightarrow> cons64 \<Rightarrow> cons64" where
  "cons_mark_dirty y0 y1 c = (if \<not> live c then c else mark_dirty y0 y1 c)"

definition in_band :: "nat \<Rightarrow> cons64 \<Rightarrow> bool" where
  "in_band y c \<longleftrightarrow> unat (dirty_y0 c) \<le> y \<and> y < unat (dirty_y1 c)"

lemma mark_dirty_band:
  "in_band y c \<or> (unat y0 \<le> y \<and> y < unat y1) \<Longrightarrow> in_band y (mark_dirty y0 y1 c)"
  by (auto simp: mark_dirty_def in_band_def word_less_nat_alt word_le_nat_alt)

lemma mark_dirty_fields [simp]:
  "fb_mem (mark_dirty a b c) = fb_mem c" "cons_bb (mark_dirty a b c) = cons_bb c"
  "fb_stride (mark_dirty a b c) = fb_stride c" "fb_w (mark_dirty a b c) = fb_w c" "fb_h (mark_dirty a b c) = fb_h c"
  "ncols (mark_dirty a b c) = ncols c" "nrows (mark_dirty a b c) = nrows c"
  "cur_x (mark_dirty a b c) = cur_x c" "cur_y (mark_dirty a b c) = cur_y c"
  "cur_dx (mark_dirty a b c) = cur_dx c" "cur_dy (mark_dirty a b c) = cur_dy c"
  "cur_shown (mark_dirty a b c) = cur_shown c"
  "fg_color (mark_dirty a b c) = fg_color c" "live (mark_dirty a b c) = live c"
  "status_want (mark_dirty a b c) = status_want c" "status_drawn (mark_dirty a b c) = status_drawn c"
  "gfx_on (mark_dirty a b c) = gfx_on c"
  by (simp_all add: mark_dirty_def)

section \<open>Raster loops\<close>

text \<open>
  \<open>raster base stride ys xs px p\<close>: for each row of \<open>ys\<close> and each column of \<open>xs\<close>, in order,
  \<^verbatim>\<open>p[base + y * stride + x] = px(y, x)\<close>.
\<close>

definition raster ::
  "nat \<Rightarrow> nat \<Rightarrow> nat list \<Rightarrow> nat list \<Rightarrow> (nat \<Rightarrow> nat \<Rightarrow> u32) \<Rightarrow> (nat \<Rightarrow> u32) \<Rightarrow> nat \<Rightarrow> u32" where
  "raster base stride ys xs px =
     fold (\<lambda>y. fold (\<lambda>x p. p(base + y * stride + x := px y x)) xs) ys"

lemma row_other:
  "(\<And>x. x \<in> set xs \<Longrightarrow> k \<noteq> f x) \<Longrightarrow> fold (\<lambda>x p. p(f x := v x)) xs p k = p k"
  by (induction xs arbitrary: p) auto

lemma row_at:
  "inj_on f (set xs) \<Longrightarrow> x \<in> set xs \<Longrightarrow> fold (\<lambda>x p. p(f x := v x)) xs p (f x) = v x"
proof (induction xs arbitrary: p)
  case (Cons a xs)
  show ?case
  proof (cases "x \<in> set xs")
    case False
    then have "x = a" "\<And>y. y \<in> set xs \<Longrightarrow> f x \<noteq> f y" using Cons.prems by (auto simp: inj_on_def)
    with row_other [of xs "f x" f v] show ?thesis by (simp del: fun_upd_apply) simp
  next
    case True
    with Cons show ?thesis by simp
  qed
qed simp

lemma raster_other:
  "(\<And>y x. y \<in> set ys \<Longrightarrow> x \<in> set xs \<Longrightarrow> k \<noteq> base + y * stride + x) \<Longrightarrow>
   raster base stride ys xs px p k = p k"
proof (induction ys arbitrary: p)
  case (Cons y ys)
  have "fold (\<lambda>x p. p(base + y * stride + x := px y x)) xs p k = p k"
    by (rule row_other) (simp add: Cons.prems)
  with Cons show ?case by (simp add: raster_def)
qed (simp add: raster_def)

lemma raster_addr_inj:
  assumes "x < stride" "x' < stride" "base + y * stride + x = base + y' * stride + x'"
  shows "y = y' \<and> x = (x'::nat)"
proof -
  have e: "y * stride + x = y' * stride + x'" using assms(3) by simp
  then have "(y * stride + x) div stride = (y' * stride + x') div stride" by simp
  with assms(1,2) have "y = y'" by simp
  with e show ?thesis by simp
qed

lemma raster_at:
  assumes "y \<in> set ys" "x \<in> set xs" "\<And>x. x \<in> set xs \<Longrightarrow> x < stride"
  shows "raster base stride ys xs px p (base + y * stride + x) = px y x"
  using assms(1)
proof (induction ys arbitrary: p)
  case (Cons a ys)
  show ?case
  proof (cases "y \<in> set ys")
    case True
    with Cons.IH show ?thesis by (simp add: raster_def)
  next
    case False
    then have a: "a = y" using Cons.prems by simp
    have o: "raster base stride ys xs px q (base + y * stride + x) = q (base + y * stride + x)" for q
      by (rule raster_other) (use False assms(2,3) raster_addr_inj [of x stride _ base y] in blast)
    have "inj_on (\<lambda>x. base + y * stride + x) (set xs)" by (simp add: inj_on_def)
    then have "fold (\<lambda>x p. p(base + y * stride + x := px y x)) xs p (base + y * stride + x) = px y x"
      using assms(2) by (rule row_at)
    with o show ?thesis by (simp add: raster_def a)
  qed
qed simp

end
