(* ===== verification/Fd.thy ===== *)
theory Fd
  imports Ext_Write Desk
begin

text \<open>
  The open file table of \<^verbatim>\<open>src/k64/fd64.c\<close>.  A task's descriptor table holds indices into
  a global table of 64 entries, or \<open>-1\<close>; the offset is in the global entry, so tasks that inherit
  an entry share it.

  Every critical section under \<^verbatim>\<open>fd_lock\<close> is one function here; the calls into the volume
  happen between two of them, with the lock released, and the second looks the descriptor up again.
  A negative return value is an error outcome.
\<close>

definition NTASK :: nat where "NTASK = 32"
definition FD_MAX_TASK :: nat where "FD_MAX_TASK = 16"
definition FD_MAX_GLOBAL :: nat where "FD_MAX_GLOBAL = 64"
definition FD_MAX_OFF :: u64 where "FD_MAX_OFF = 64 * 1024 * 1024"

lemmas fd_limits = NTASK_def FD_MAX_TASK_def FD_MAX_GLOBAL_def

record fildes =
  in_use :: bool
  fref :: int
  fino :: u32
  foff :: u64
  fflags :: u32

text \<open>\<open>fd_tab\<close> is the field \<^verbatim>\<open>fd_table\<close> of every task; \<open>vol_st\<close> is the mounted volume.\<close>

record fdsys =
  fds :: "nat \<Rightarrow> fildes"
  fd_tab :: "task_id \<Rightarrow> nat \<Rightarrow> int"
  vol_st :: exst

section \<open>Tables\<close>

definition fd_local_get :: "task_id option \<Rightarrow> int \<Rightarrow> fdsys \<Rightarrow> int" where
  "fd_local_get t fd s =
     (case t of None \<Rightarrow> -1 | Some t \<Rightarrow> if fd < 0 \<or> fd \<ge> int FD_MAX_TASK then -1 else fd_tab s t (nat fd))"

definition put_tab :: "task_id \<Rightarrow> nat \<Rightarrow> int \<Rightarrow> fdsys \<Rightarrow> fdsys" where
  "put_tab t k g s = s\<lparr>fd_tab := (fd_tab s)(t := (fd_tab s t)(k := g))\<rparr>"

definition fd_local_set :: "task_id option \<Rightarrow> int \<Rightarrow> int \<Rightarrow> fdsys \<Rightarrow> int \<times> fdsys" where
  "fd_local_set t fd g s =
     (case t of None \<Rightarrow> (-1, s)
      | Some t \<Rightarrow> if fd < 0 \<or> fd \<ge> int FD_MAX_TASK then (-1, s) else (0, put_tab t (nat fd) g s))"

definition put_fd :: "nat \<Rightarrow> fildes \<Rightarrow> fdsys \<Rightarrow> fdsys" where
  "put_fd g e s = s\<lparr>fds := (fds s)(g := e)\<rparr>"

definition fd_alloc_global :: "u32 \<Rightarrow> u32 \<Rightarrow> fdsys \<Rightarrow> nat option \<times> fdsys" where
  "fd_alloc_global ino flags s =
     (case scan (\<lambda>g. \<not> in_use (fds s g)) 0 FD_MAX_GLOBAL of
        None \<Rightarrow> (None, s)
      | Some g \<Rightarrow> (Some g, put_fd g \<lparr>in_use = True, fref = 1, fino = ino, foff = 0, fflags = flags\<rparr> s))"

definition fd_map_local :: "task_id \<Rightarrow> nat \<Rightarrow> fdsys \<Rightarrow> nat option \<times> fdsys" where
  "fd_map_local t g s =
     (case scan (\<lambda>k. fd_tab s t k < 0) 0 FD_MAX_TASK of
        None \<Rightarrow> (None, s)
      | Some k \<Rightarrow> (Some k, put_tab t k (int g) s))"

text \<open>One reference to entry \<open>g\<close> is dropped.\<close>

definition fd_drop :: "nat \<Rightarrow> fdsys \<Rightarrow> fdsys" where
  "fd_drop g s =
     (let e = fds s g
      in put_fd g (if fref e - 1 \<le> 0 then e\<lparr>in_use := False, fref := 0\<rparr> else e\<lparr>fref := fref e - 1\<rparr>) s)"

section \<open>Critical sections\<close>

definition fd_valid :: "int \<Rightarrow> fdsys \<Rightarrow> bool" where
  "fd_valid g s \<longleftrightarrow> 0 \<le> g \<and> g < int FD_MAX_GLOBAL \<and> in_use (fds s (nat g))"

text \<open>The common start of read, write, close and lseek.\<close>

definition fd_entry :: "task_id \<Rightarrow> int \<Rightarrow> (fdsys, nat) opn" where
  "fd_entry t fd =
     seq (gets (fd_local_get (Some t) fd)) (\<lambda>g.
     seq (gets (fd_valid g)) (\<lambda>ok. if ok then ret (nat g) else fail (-9)))"

text \<open>The common end of read, write and lseek; the index is not tested against the table's size.\<close>

definition fd_move :: "task_id \<Rightarrow> int \<Rightarrow> (u64 \<Rightarrow> u64) \<Rightarrow> (fdsys, unit) opn" where
  "fd_move t fd f =
     seq (gets (fd_local_get (Some t) fd)) (\<lambda>g.
     if g < 0 then ret ()
     else if g \<ge> int FD_MAX_GLOBAL then trap
     else modify (\<lambda>s. let e = fds s (nat g) in if in_use e then put_fd (nat g) (e\<lparr>foff := f (foff e)\<rparr>) s else s))"

text \<open>The end of open.\<close>

definition fd_install :: "task_id \<Rightarrow> u32 \<Rightarrow> u32 \<Rightarrow> (fdsys, nat) opn" where
  "fd_install t ino flags s =
     (case fd_alloc_global ino flags s of
        (None, s) \<Rightarrow> (Err (-1), s)
      | (Some g, s) \<Rightarrow>
          (case fd_map_local t g s of
             (None, s) \<Rightarrow> (Err (-12), put_fd g ((fds s g)\<lparr>in_use := False\<rparr>) s)
           | (Some fd, s) \<Rightarrow> (Val fd, s)))"

definition close_slot :: "task_id \<Rightarrow> nat \<Rightarrow> fdsys \<Rightarrow> fdsys" where
  "close_slot t k s =
     (let g = fd_tab s t k in put_tab t k (-1) (if fd_valid g s then fd_drop (nat g) s else s))"

definition inherit_slot :: "task_id \<Rightarrow> task_id \<Rightarrow> nat \<Rightarrow> fdsys \<Rightarrow> fdsys" where
  "inherit_slot dst src k s =
     (let g = fd_tab s src k; s' = put_tab dst k g s
      in if fd_valid g s' then put_fd (nat g) ((fds s' (nat g))\<lparr>fref := fref (fds s' (nat g)) + 1\<rparr>) s' else s')"

section \<open>System calls\<close>

definition on_vol :: "(exst, 'a) opn \<Rightarrow> (fdsys, 'a) opn" where
  "on_vol m s = (case m (vol_st s) of (r, e) \<Rightarrow> (r, s\<lparr>vol_st := e\<rparr>))"

definition O_CREAT :: u32 where "O_CREAT = 0x40"
definition O_TRUNC :: u32 where "O_TRUNC = 0x200"

text \<open>Directory and leaf of an absolute path of fewer than 256 bytes.\<close>

definition open_split :: "u8 list \<Rightarrow> (u8 list \<times> u8 list) option" where
  "open_split path =
     (let p = cbytes path; leaf = rev (takeWhile (\<lambda>c. c \<noteq> SLASH) (rev p)); slash = length p - length leaf - 1
      in if length p \<ge> 256 \<or> p = [] \<or> SLASH \<notin> set p \<or> leaf = [] \<or> length leaf > 63 then None
         else Some (if slash = 0 then [SLASH] else take slash p, leaf))"

text \<open>A lookup that succeeds without a result leaves the caller's zeroed variables.\<close>

definition lookup0 :: "u8 list \<Rightarrow> (fdsys, u32 \<times> bool) opn" where
  "lookup0 path = seq (on_vol (ex_lookup path)) (\<lambda>r. ret (case r of None \<Rightarrow> (0, False) | Some (ino, d, _) \<Rightarrow> (ino, d)))"

definition open_create :: "u8 list \<Rightarrow> (fdsys, u32 \<times> bool) opn" where
  "open_create path =
     (case open_split path of
        None \<Rightarrow> fail (-22)
      | Some (dir, leaf) \<Rightarrow>
          seq (lookup0 dir) (\<lambda>(dino, isd).
          if \<not> isd then fail (-20)
          else seq (on_vol (ex_create dino leaf)) (\<lambda>ino. ret (ino, False))))"

text \<open>The lookup of open: any error of it leads to the creation attempt when \<^verbatim>\<open>O_CREAT\<close> is given.\<close>

definition open_find :: "u8 list \<Rightarrow> u32 \<Rightarrow> (fdsys, u32 \<times> bool) opn" where
  "open_find path flags s =
     (case lookup0 path s of
        (Err e, s) \<Rightarrow> if flags AND O_CREAT = 0 then (Err e, s) else open_create path s
      | r \<Rightarrow> r)"

definition fd_open :: "task_id option \<Rightarrow> u8 list \<Rightarrow> u32 \<Rightarrow> (fdsys, nat) opn" where
  "fd_open self path flags =
     (case self of
        None \<Rightarrow> fail (-22)
      | Some t \<Rightarrow>
          if flags AND 3 = 3 then fail (-22)
          else seq (open_find path flags) (\<lambda>(ino, isd).
               if isd \<and> flags AND 3 \<noteq> 0 then fail (-21)
               else seq (if \<not> isd \<and> flags AND O_TRUNC \<noteq> 0 \<and> flags AND 3 \<noteq> 0 then on_vol (ex_truncate ino 0) else ret ()) (\<lambda>_.
                    fd_install t ino flags)))"

definition fd_read :: "task_id option \<Rightarrow> int \<Rightarrow> u64 \<Rightarrow> (fdsys, u8 list) opn" where
  "fd_read self fd len =
     (case self of
        None \<Rightarrow> fail (-22)
      | Some t \<Rightarrow>
          seq (fd_entry t fd) (\<lambda>g.
          seq (gets (\<lambda>s. fds s g)) (\<lambda>e.
          if fflags e AND 3 = 1 then fail (-22)
          else seq (on_vol (ex_read_ino (fino e) (foff e) (ucast len))) (\<lambda>bs.
               seq (fd_move t fd (\<lambda>p. p + of_nat (length bs))) (\<lambda>_. ret bs)))))"

text \<open>Only the low 32 bits of the length count.\<close>

definition fd_write :: "task_id option \<Rightarrow> int \<Rightarrow> u8 list \<Rightarrow> u64 \<Rightarrow> (fdsys, nat) opn" where
  "fd_write self fd buf len =
     (case self of
        None \<Rightarrow> fail (-22)
      | Some t \<Rightarrow>
          seq (fd_entry t fd) (\<lambda>g.
          seq (gets (\<lambda>s. fds s g)) (\<lambda>e.
          if fflags e AND 3 = 0 then fail (-22)
          else seq (on_vol (ex_write_data (fino e) (foff e) (take (unat (ucast len :: u32)) buf))) (\<lambda>n.
               seq (fd_move t fd (\<lambda>p. p + of_nat n)) (\<lambda>_. ret n)))))"

definition fd_close :: "task_id option \<Rightarrow> int \<Rightarrow> (fdsys, unit) opn" where
  "fd_close self fd =
     (case self of
        None \<Rightarrow> fail (-22)
      | Some t \<Rightarrow> seq (fd_entry t fd) (\<lambda>_. modify (close_slot t (nat fd))))"

text \<open>The new offset, on 64-bit words.\<close>

definition seek_target :: "fildes \<Rightarrow> u64 \<Rightarrow> int \<Rightarrow> (fdsys, u64) opn" where
  "seek_target e d whence =
     (if whence = 2 then
        seq (err_to (-5) (on_vol (ex_fsize (fino e)))) (\<lambda>sz.
        if d > FD_MAX_OFF - ucast sz then fail (-22) else ret (ucast sz + d))
      else if whence = 1 then (if d > FD_MAX_OFF - foff e then fail (-22) else ret (foff e + d))
      else if whence = 0 then ret d
      else fail (-22))"

definition fd_lseek :: "task_id option \<Rightarrow> int \<Rightarrow> u64 \<Rightarrow> int \<Rightarrow> (fdsys, u64) opn" where
  "fd_lseek self fd d whence =
     (case self of
        None \<Rightarrow> fail (-22)
      | Some t \<Rightarrow>
          seq (fd_entry t fd) (\<lambda>g.
          seq (gets (\<lambda>s. fds s g)) (\<lambda>e.
          seq (seek_target e d whence) (\<lambda>no.
          if no > FD_MAX_OFF then fail (-22)
          else seq (fd_move t fd (\<lambda>_. no)) (\<lambda>_. ret no)))))"

definition fd_close_all :: "task_id option \<Rightarrow> fdsys \<Rightarrow> fdsys" where
  "fd_close_all t s = (case t of None \<Rightarrow> s | Some t \<Rightarrow> fold (close_slot t) [0..<FD_MAX_TASK] s)"

definition fd_inherit :: "task_id option \<Rightarrow> task_id option \<Rightarrow> fdsys \<Rightarrow> fdsys" where
  "fd_inherit dst src s =
     (case (dst, src) of (Some d, Some r) \<Rightarrow> fold (inherit_slot d r) [0..<FD_MAX_TASK] s | _ \<Rightarrow> s)"

end
