(* ===== verification/Win.thy ===== *)
theory Win
  imports Desk
begin

text \<open>
  Window slots of \<^verbatim>\<open>src/k64/win64.c\<close>: the pixel pool with its free list, slot life cycle,
  drawing, scanline composition, and input routing with one event ring per slot.  An operation that
  the code runs for the calling task takes that task as its first argument
  (\<^verbatim>\<open>task64_self()\<close>, \<open>None\<close> when there is none) and returns the error number with the new
  state.
\<close>

definition WIN_MAX :: nat where "WIN_MAX = 8"
definition WIN_POOL_BYTES :: nat where "WIN_POOL_BYTES = 8 * 1024 * 1024"
definition WIN_MAX_DIM :: u32 where "WIN_MAX_DIM = 1024"
definition WIN_EV_N :: nat where "WIN_EV_N = 64"

section \<open>The pool\<close>

text \<open>First fit; \<open>None\<close> when no free block is large enough.\<close>

fun take_block :: "u32 \<Rightarrow> (u32 \<times> u32) list \<Rightarrow> (u32 \<times> (u32 \<times> u32) list) option" where
  "take_block req [] = None"
| "take_block req ((o', sz) # fl) =
     (if sz \<ge> req then
        Some (o', if sz = req then fl else (o' + req, sz - req) # fl)
      else map_option (\<lambda>(r, fl'). (r, (o', sz) # fl')) (take_block req fl))"

definition pool_alloc :: "u32 \<Rightarrow> winsys \<Rightarrow> (u32 \<times> winsys) option" where
  "pool_alloc req s =
     (case take_block req (freev s) of
        Some (o', fl) \<Rightarrow> Some (o', s\<lparr>freev := fl\<rparr>)
      | None \<Rightarrow>
          if pool_bump s + ucast req > of_nat WIN_POOL_BYTES then None
          else Some (ucast (pool_bump s), s\<lparr>pool_bump := pool_bump s + ucast req\<rparr>))"

text \<open>The insertion step moves the new last entry left past every entry with a larger offset; the
  merge loop joins neighbours, staying at the same index after a join.\<close>

definition sift_last :: "(u32 \<times> u32) list \<Rightarrow> u32 \<times> u32 \<Rightarrow> (u32 \<times> u32) list" where
  "sift_last fl e =
     (let n = length (takeWhile (\<lambda>f. fst e < fst f) (rev fl))
      in take (length fl - n) fl @ e # drop (length fl - n) fl)"

fun merge_free :: "(u32 \<times> u32) list \<Rightarrow> (u32 \<times> u32) list" where
  "merge_free (a # b # fl) =
     (if fst a + snd a = fst b then merge_free ((fst a, snd a + snd b) # fl)
      else a # merge_free (b # fl))"
| "merge_free fl = fl"

definition pool_free :: "u32 \<Rightarrow> u32 \<Rightarrow> winsys \<Rightarrow> winsys" where
  "pool_free o' req s =
     (if length (freev s) \<ge> WIN_MAX + 1 then s
      else s\<lparr>freev := merge_free (sift_last (freev s) (o', req))\<rparr>)"

section \<open>Slots\<close>

definition set_win :: "nat \<Rightarrow> (win \<Rightarrow> win) \<Rightarrow> winsys \<Rightarrow> winsys" where
  "set_win i f s = s\<lparr>wins := (wins s)(i := f (wins s i))\<rparr>"

definition win_get :: "int \<Rightarrow> task_id option \<Rightarrow> bool \<Rightarrow> winsys \<Rightarrow> nat option" where
  "win_get wid self need_owner s =
     (if wid < 0 \<or> wid \<ge> int WIN_MAX \<or> \<not> used (wins s (nat wid)) then None
      else if need_owner \<and> owner (wins s (nat wid)) \<noteq> self then None
      else Some (nat wid))"

definition win_focus_drop_locked :: "int \<Rightarrow> winsys \<Rightarrow> winsys" where
  "win_focus_drop_locked wid s =
     s\<lparr>win_focus := (if win_focus s = wid then -1 else win_focus s),
       win_hover := (if win_hover s = wid then -1 else win_hover s)\<rparr>"

definition win_create :: "task_id option \<Rightarrow> u32 \<Rightarrow> u32 \<Rightarrow> string \<Rightarrow> desk \<Rightarrow> int \<times> desk" where
  "win_create self w h ttl d =
     (if self = None then (-22, d)
      else if w = 0 \<or> h = 0 \<or> w > WIN_MAX_DIM \<or> h > WIN_MAX_DIM then (-22, d)
      else
        let bytes = ucast w * ucast h * (4 :: u64)
        in if bytes > of_nat WIN_POOL_BYTES then (-12, d)
           else
             case scan (\<lambda>i. \<not> used (wins (wsys d) i)) 0 WIN_MAX of
               None \<Rightarrow> (-12, d)
             | Some wid \<Rightarrow>
                 (case pool_alloc (ucast bytes) (wsys d) of
                    None \<Rightarrow> (-12, d)
                  | Some (o', s1) \<Rightarrow>
                      (int wid, d\<lparr>wsys := set_win wid (\<lambda>s. s\<lparr>used := True,
                         wx := of_nat (64 + wid * 32), wy := of_nat (64 + wid * 24), ww := w, wh := h, off := o',
                         owner := self, title := name15 ttl\<rparr>) s1\<rparr>)))"

definition kill_win :: "nat \<Rightarrow> winsys \<Rightarrow> winsys" where
  "kill_win i s =
     (let w = wins s i
      in win_focus_drop_locked (int i)
           (set_win i (\<lambda>s. s\<lparr>used := False, owner := None\<rparr>) (pool_free (off w) (ww w * wh w * 4) s)))"

definition win_close :: "task_id option \<Rightarrow> int \<Rightarrow> desk \<Rightarrow> int \<times> desk" where
  "win_close self wid d =
     (if self = None then (-22, d)
      else case win_get wid self True (wsys d) of
             None \<Rightarrow> (-22, d)
           | Some i \<Rightarrow>
               let w = wins (wsys d) i
               in (0, d\<lparr>wsys := kill_win i (wsys d), con := cons_mark_dirty (wy w) (wy w + wh w) (con d)\<rparr>))"

definition win_fill :: "task_id option \<Rightarrow> int \<Rightarrow> u32 \<Rightarrow> u32 \<Rightarrow> u32 \<Rightarrow> u32 \<Rightarrow> u32 \<Rightarrow> desk \<Rightarrow> int \<times> desk" where
  "win_fill self wid x y w h rgb d =
     (if self = None then (-22, d)
      else case win_get wid self True (wsys d) of
             None \<Rightarrow> (-22, d)
           | Some i \<Rightarrow>
               let s = wins (wsys d) i;
                   x1 = (if x + w > ww s then ww s else x + w);
                   y1 = (if y + h > wh s then wh s else y + h);
                   base = unat (off s) div 4;
                   pool = raster base (unat (ww s)) [unat y..<unat y1] [unat x..<unat x1] (\<lambda>_ _. rgb) (win_pool (wsys d))
               in (0, d\<lparr>wsys := (wsys d)\<lparr>win_pool := pool\<rparr>,
                        con := (if x < x1 \<and> y < y1 then cons_mark_dirty (wy s + y) (wy s + y1) (con d) else con d)\<rparr>))"

text \<open>
  Text.  \<open>font c row\<close> is \<^verbatim>\<open>font8x16_data[c][row]\<close>.  A column index is computed in 32 bits
  (\<^verbatim>\<open>px + col\<close>), a row offset in 64.
\<close>

definition glyph_px :: "(u8 \<Rightarrow> nat \<Rightarrow> u8) \<Rightarrow> u8 \<Rightarrow> u32 \<Rightarrow> u32 \<Rightarrow> nat \<Rightarrow> nat \<Rightarrow> u32" where
  "glyph_px font c fg bg row col = (if bit (font c row) (7 - col) then fg else bg)"

definition text_glyph ::
  "(u8 \<Rightarrow> nat \<Rightarrow> u8) \<Rightarrow> win \<Rightarrow> u32 \<Rightarrow> u32 \<Rightarrow> u8 \<Rightarrow> u32 \<Rightarrow> u32 \<Rightarrow> (nat \<Rightarrow> u32) \<Rightarrow> nat \<Rightarrow> u32" where
  "text_glyph font s px y c fg bg pool =
     fold (\<lambda>row. fold (\<lambda>col p.
              p(unat (off s) div 4 + unat (y + of_nat row) * unat (ww s) + unat (px + of_nat col) :=
                glyph_px font c fg bg row col)) [0..<8])
       (takeWhile (\<lambda>row. y + of_nat row < wh s) [0..<16]) pool"

fun text_run ::
  "(u8 \<Rightarrow> nat \<Rightarrow> u8) \<Rightarrow> win \<Rightarrow> u32 \<Rightarrow> u32 \<Rightarrow> u8 list \<Rightarrow> u32 \<Rightarrow> u32 \<Rightarrow> (nat \<Rightarrow> u32) \<Rightarrow> nat \<Rightarrow> u32" where
  "text_run font s px y [] fg bg pool = pool"
| "text_run font s px y (c # cs) fg bg pool =
     (if px + 8 > ww s then pool
      else text_run font s (px + 8) y cs fg bg (text_glyph font s px y c fg bg pool))"

definition win_text ::
  "(u8 \<Rightarrow> nat \<Rightarrow> u8) \<Rightarrow> task_id option \<Rightarrow> int \<Rightarrow> u32 \<Rightarrow> u32 \<Rightarrow> u8 list \<Rightarrow> u32 \<Rightarrow> u32 \<Rightarrow> desk \<Rightarrow> int \<times> desk" where
  "win_text font self wid x y us fg bg d =
     (if self = None then (-22, d)
      else if length us > 256 then (-22, d)
      else case win_get wid self True (wsys d) of
             None \<Rightarrow> (-22, d)
           | Some i \<Rightarrow>
               let s = wins (wsys d) i;
                   pool = text_run font s x y us (fg AND 0xFFFFFF) (bg AND 0xFFFFFF) (win_pool (wsys d))
               in (0, d\<lparr>wsys := (wsys d)\<lparr>win_pool := pool\<rparr>,
                        con := (if us \<noteq> [] then cons_mark_dirty (wy s + y) (wy s + y + 16) (con d) else con d)\<rparr>))"

definition win_setpos :: "task_id option \<Rightarrow> int \<Rightarrow> u32 \<Rightarrow> u32 \<Rightarrow> desk \<Rightarrow> int \<times> desk" where
  "win_setpos self wid x y d =
     (if self = None then (-22, d)
      else let w = fb_w (con d); h = fb_h (con d)
           in if w = 0 then (-19, d)
              else case win_get wid self False (wsys d) of
                     None \<Rightarrow> (-22, d)
                   | Some i \<Rightarrow>
                       let s = wins (wsys d) i;
                           nx = (if ww s \<le> w then (if x > w - ww s then w - ww s else x) else 0);
                           ny = (if wh s \<le> h then (if y > h - wh s then h - wh s else y) else 0)
                       in (0, d\<lparr>wsys := set_win i (\<lambda>s. s\<lparr>wx := nx, wy := ny\<rparr>) (wsys d),
                                con := cons_mark_dirty ny (ny + wh s)
                                         (cons_mark_dirty (wy s) (wy s + wh s) (con d))\<rparr>))"

text \<open>\<open>src r c\<close> is the caller's pixel at index \<^verbatim>\<open>r * w + c\<close> of the buffer; \<open>None\<close> is a null pointer.\<close>

definition win_blit ::
  "task_id option \<Rightarrow> int \<Rightarrow> u32 \<Rightarrow> u32 \<Rightarrow> u32 \<Rightarrow> u32 \<Rightarrow> (nat \<Rightarrow> u32) option \<Rightarrow> desk \<Rightarrow> int \<times> desk" where
  "win_blit self wid x y w h us d =
     (case (self, us) of
        (Some _, Some src) \<Rightarrow>
          (case win_get wid self True (wsys d) of
             None \<Rightarrow> (-22, d)
           | Some i \<Rightarrow>
               let s = wins (wsys d) i;
                   x1 = (if x + w > ww s then ww s else x + w);
                   y1 = (if y + h > wh s then wh s else y + h);
                   base = unat (off s) div 4;
                   pool = raster base (unat (ww s)) [unat y..<unat y1] [unat x..<unat x1]
                            (\<lambda>yy xx. src ((yy - unat y) * unat w + (xx - unat x))) (win_pool (wsys d))
               in (0, d\<lparr>wsys := (wsys d)\<lparr>win_pool := pool\<rparr>,
                        con := (if x < x1 \<and> y < y1 then cons_mark_dirty (wy s + y) (wy s + y1) (con d) else con d)\<rparr>))
      | _ \<Rightarrow> (-22, d))"

definition release_slot :: "task_id \<Rightarrow> nat \<Rightarrow> desk \<Rightarrow> desk" where
  "release_slot t i d =
     (let w = wins (wsys d) i
      in if used w \<and> owner w = Some t
         then d\<lparr>wsys := kill_win i (wsys d), con := cons_mark_dirty (wy w) (wy w + wh w) (con d)\<rparr>
         else d)"

definition win_owner_release :: "task_id option \<Rightarrow> desk \<Rightarrow> desk" where
  "win_owner_release t d =
     (case t of None \<Rightarrow> d | Some t \<Rightarrow> fold (release_slot t) [0..<WIN_MAX] d)"

text \<open>Composition of one display row: \<open>drow\<close> is the row's pixels by column.\<close>

definition composite_slot :: "winsys \<Rightarrow> u32 \<Rightarrow> u32 \<Rightarrow> nat \<Rightarrow> (nat \<Rightarrow> u32) \<Rightarrow> nat \<Rightarrow> u32" where
  "composite_slot s y fbw i drow =
     (let w = wins s i
      in if \<not> used w then drow
         else if y < wy w \<or> y \<ge> wy w + wh w then drow
         else
           let src = unat (off w) div 4 + unat (y - wy w) * unat (ww w);
               x0 = wx w; x1 = wx w + ww w
           in if x0 \<ge> fbw then drow
              else
                let x1 = (if x1 > fbw then fbw else x1)
                in fold (\<lambda>x r. r(x := win_pool s (src + (x - unat x0)))) [unat x0..<unat x1] drow)"

definition win_composite_scanline :: "winsys \<Rightarrow> u32 \<Rightarrow> u32 \<Rightarrow> (nat \<Rightarrow> u32) \<Rightarrow> nat \<Rightarrow> u32" where
  "win_composite_scanline s y fbw drow = fold (composite_slot s y fbw) [0..<WIN_MAX] drow"

section \<open>Input routing\<close>

definition win_ev_push :: "winev \<Rightarrow> win \<Rightarrow> win" where
  "win_ev_push e s =
     (if \<not> used s then s
      else
        let h = ev_head s; n = (h + 1) AND 63
        in if n = ev_tail s then s
           else s\<lparr>ev := (ev s)(unat h := e), ev_head := n\<rparr>)"

definition mk_ev :: "wev_type \<Rightarrow> u32 \<Rightarrow> u32 \<Rightarrow> u32 \<Rightarrow> winev" where
  "mk_ev t a b c = \<lparr>ev_type = t, d0 = a, d1 = b, d2 = c\<rparr>"

definition win_route_key :: "u32 \<Rightarrow> winsys \<Rightarrow> bool \<times> winsys" where
  "win_route_key c s =
     (if win_focus s < 0 \<or> win_focus s \<ge> int WIN_MAX then (False, s)
      else if \<not> used (wins s (nat (win_focus s))) then (False, s)
      else (True, set_win (nat (win_focus s)) (win_ev_push (mk_ev WEV_KEY c 0 0)) s))"

definition win_contains :: "u32 \<Rightarrow> u32 \<Rightarrow> win \<Rightarrow> bool" where
  "win_contains x y s \<longleftrightarrow> used s \<and> x \<ge> wx s \<and> x < wx s + ww s \<and> y \<ge> wy s \<and> y < wy s + wh s"

text \<open>\<^verbatim>\<open>win_hit\<close> scans from the topmost slot down.\<close>

definition win_hit :: "u32 \<Rightarrow> u32 \<Rightarrow> winsys \<Rightarrow> int" where
  "win_hit x y s =
     (case find (\<lambda>i. win_contains x y (wins s i)) (rev [0..<WIN_MAX]) of None \<Rightarrow> -1 | Some i \<Rightarrow> int i)"

definition win_route_mouse :: "u32 \<Rightarrow> u32 \<Rightarrow> u32 \<Rightarrow> winsys \<Rightarrow> winsys" where
  "win_route_mouse x y btn s =
     (let hit = win_hit x y s;
          s = (if hit \<noteq> win_hover s then
                 let s = (if win_hover s \<ge> 0 \<and> win_hover s < int WIN_MAX
                          then set_win (nat (win_hover s)) (win_ev_push (mk_ev WEV_LEAVE x y 0)) s else s);
                     s = (if hit \<ge> 0 then set_win (nat hit) (win_ev_push (mk_ev WEV_ENTER x y 0)) s else s)
                 in s\<lparr>win_hover := hit\<rparr>
               else s);
          s = (if hit \<ge> 0 then set_win (nat hit) (win_ev_push (mk_ev WEV_MOVE x y 0)) s else s)
      in if btn \<noteq> win_last_btn s then
           let s = s\<lparr>win_last_btn := btn\<rparr>
           in if hit \<ge> 0 then set_win (nat hit) (win_ev_push (mk_ev WEV_BTN x y btn)) s else s
         else s)"

definition win_focus_set :: "int \<Rightarrow> winsys \<Rightarrow> int \<times> winsys" where
  "win_focus_set wid s =
     (if wid < -1 \<or> wid \<ge> int WIN_MAX then (-22, s)
      else if wid \<ge> 0 \<and> \<not> used (wins s (nat wid)) then (-22, s)
      else
        let s = (if win_focus s \<ge> 0 \<and> win_focus s < int WIN_MAX \<and> used (wins s (nat (win_focus s)))
                 then set_win (nat (win_focus s)) (win_ev_push (mk_ev WEV_FOCUS 0 0 0)) s else s);
            s = s\<lparr>win_focus := wid\<rparr>
        in (0, if wid \<ge> 0 then set_win (nat wid) (win_ev_push (mk_ev WEV_FOCUS 1 0 0)) s else s))"

definition ev_pop :: "win \<Rightarrow> (winev \<times> win) option" where
  "ev_pop s =
     (if ev_tail s = ev_head s then None
      else Some (ev s (unat (ev_tail s)), s\<lparr>ev_tail := (ev_tail s + 1) AND 63\<rparr>))"

text \<open>\<^verbatim>\<open>win_getevent\<close>: \<open>Inl\<close> an error number, \<open>Inr\<close> the events copied out.\<close>

definition win_getevent :: "task_id option \<Rightarrow> int \<Rightarrow> int \<Rightarrow> winsys \<Rightarrow> (int + winev list) \<times> winsys" where
  "win_getevent self wid mx s =
     (if self = None then (Inl (-22), s)
      else if wid < 0 \<or> wid \<ge> int WIN_MAX \<or> mx < 1 \<or> mx > 16 then (Inl (-22), s)
      else if \<not> used (wins s (nat wid)) \<or> owner (wins s (nat wid)) \<noteq> self then (Inl (-22), s)
      else let (es, w) = drain ev_pop (nat mx) (wins s (nat wid))
           in (Inr es, set_win (nat wid) (\<lambda>_. w) s))"

definition win_list :: "int \<Rightarrow> winsys \<Rightarrow> int + (nat \<times> win) list" where
  "win_list mx s =
     (if mx < 1 \<or> mx > 16 then Inl (-22)
      else Inr (take (nat mx) (map (\<lambda>i. (i, wins s i)) (filter (\<lambda>i. used (wins s i)) [0..<WIN_MAX]))))"

definition win_top :: "winsys \<Rightarrow> int" where
  "win_top s = (case find (\<lambda>i. used (wins s i)) (rev [0..<WIN_MAX]) of None \<Rightarrow> -1 | Some i \<Rightarrow> int i)"

definition raise_index :: "int \<Rightarrow> int \<Rightarrow> int \<Rightarrow> int" where
  "raise_index wid tp f = (if f = wid then tp else if f > wid \<and> f \<le> tp then f - 1 else f)"

definition win_raise :: "int \<Rightarrow> desk \<Rightarrow> int \<times> desk" where
  "win_raise wid d =
     (let s = wsys d
      in if wid < 0 \<or> wid \<ge> int WIN_MAX then (-22, d)
         else if \<not> used (wins s (nat wid)) then (-22, d)
         else
           let tp = win_top s
           in if wid = tp then (0, d)
              else
                let tmp = wins s (nat wid);
                    slid = fold (\<lambda>i w. w(i := w (i + 1))) [nat wid..<nat tp] (wins s)
                in (0, d\<lparr>wsys := s\<lparr>wins := slid(nat tp := tmp),
                           win_focus := raise_index wid tp (win_focus s),
                           win_hover := raise_index wid tp (win_hover s)\<rparr>,
                         con := cons_mark_dirty 0 (- 1) (con d)\<rparr>))"

end
