(* ===== verification/Pmm.thy ===== *)
theory Pmm
  imports K64_Prelude
begin

text \<open>
  The physical frame allocator of \<^verbatim>\<open>src/k64/mem64.c\<close> (bitmap, reference counts, free
  counter) over the state of that file.  \<open>mem64\<close> holds every global of \<^verbatim>\<open>mem64.c\<close>
  that the modelled code reads or writes, the live \<^verbatim>\<open>CR3\<close> of the executing CPU, and
  physical memory.  Every pointer the memory code dereferences is page aligned (it is masked with
  \<^verbatim>\<open>PTE_ADDR\<close> or comes from the allocator), so memory is a map from a frame's base address
  and a word index below 512 to a 64-bit word: \<^verbatim>\<open>tab[i]\<close> is \<open>phys s tab i\<close>.

  \<^verbatim>\<open>mem_lock\<close> is the flag \<open>mem_locked\<close>.  Acquiring a held lock is \<open>None\<close>: the CPU that
  holds it spins for ever with interrupts off.
\<close>

section \<open>State\<close>

record mem64 =
  mem_locked :: bool
  pmm_bits :: "nat \<Rightarrow> u64"
  frame_ref :: "nat \<Rightarrow> u16"
  pmm_total :: u64
  pmm_free_n :: u64
  mem_top :: u64
  nx_on :: bool
  g_fb :: u64
  g_fbsize :: u64
  vmm_root :: u64
  live_cr3 :: u64
  phys :: "u64 \<Rightarrow> nat \<Rightarrow> u64"

definition PAGE4K :: u64 where "PAGE4K = 4096"
definition PMM_MAX_FRAMES :: nat where "PMM_MAX_FRAMES = 1024 * 1024"
definition PMM_WORDS :: nat where "PMM_WORDS = PMM_MAX_FRAMES div 64"

definition mem_lock_acquire :: "mem64 \<Rightarrow> mem64 option" where
  "mem_lock_acquire s = (if mem_locked s then None else Some (s\<lparr>mem_locked := True\<rparr>))"

definition mem_lock_release :: "mem64 \<Rightarrow> mem64" where
  "mem_lock_release s = s\<lparr>mem_locked := False\<rparr>"

section \<open>Operations\<close>

definition frame_used :: "mem64 \<Rightarrow> nat \<Rightarrow> bool" where
  "frame_used s f \<longleftrightarrow> bit (pmm_bits s (f div 64)) (f mod 64)"

definition pmm_mark :: "nat \<Rightarrow> bool \<Rightarrow> mem64 \<Rightarrow> mem64" where
  "pmm_mark frame used s =
     (if frame \<ge> PMM_MAX_FRAMES then s
      else
        let i = frame div 64; b = push_bit (frame mod 64) 1;
            was = (pmm_bits s i AND b \<noteq> 0)
        in if used \<and> \<not> was
           then s\<lparr>pmm_bits := (pmm_bits s)(i := pmm_bits s i OR b), pmm_free_n := pmm_free_n s - 1\<rparr>
           else if \<not> used \<and> was
           then s\<lparr>pmm_bits := (pmm_bits s)(i := pmm_bits s i AND NOT b),
                  pmm_free_n := pmm_free_n s + 1, pmm_total := pmm_total s + 1\<rparr>
           else s)"

text \<open>\<^verbatim>\<open>__builtin_ctzll\<close>: index of the lowest set bit (undefined at 0, where the model gives 64).\<close>

definition ctzll :: "u64 \<Rightarrow> nat" where
  "ctzll w = (case scan (bit w) 0 64 of Some n \<Rightarrow> n | None \<Rightarrow> 64)"

text \<open>\<^verbatim>\<open>__pmm_alloc\<close>: first clear bit, reference count 1, page zeroed; 0 when no frame is free.\<close>

definition pmm_alloc_inner :: "mem64 \<Rightarrow> u64 \<times> mem64" where
  "pmm_alloc_inner s =
     (case scan (\<lambda>i. NOT (pmm_bits s i) \<noteq> 0) 0 PMM_WORDS of
        None \<Rightarrow> (0, s)
      | Some i \<Rightarrow>
          let b = ctzll (NOT (pmm_bits s i));
              f = i * 64 + b;
              pa = of_nat f * PAGE4K
          in (pa, s\<lparr>pmm_bits := (pmm_bits s)(i := pmm_bits s i OR push_bit b 1),
                    pmm_free_n := pmm_free_n s - 1,
                    frame_ref := (frame_ref s)(f := 1),
                    phys := (phys s)(pa := (\<lambda>_. 0))\<rparr>))"

definition pmm_alloc :: "mem64 \<Rightarrow> (u64 \<times> mem64) option" where
  "pmm_alloc s =
     (case mem_lock_acquire s of None \<Rightarrow> None
      | Some s1 \<Rightarrow> let (r, s2) = pmm_alloc_inner s1 in Some (r, mem_lock_release s2))"

definition bitmap_free_frame :: "nat \<Rightarrow> mem64 \<Rightarrow> mem64" where
  "bitmap_free_frame fr s =
     (let i = fr div 64; b = push_bit (fr mod 64) 1
      in if pmm_bits s i AND b \<noteq> 0
         then s\<lparr>pmm_bits := (pmm_bits s)(i := pmm_bits s i AND NOT b), pmm_free_n := pmm_free_n s + 1\<rparr>
         else s)"

definition frame_of :: "u64 \<Rightarrow> nat" where
  "frame_of pa = unat (drop_bit 12 pa)"

definition frame_ref_put_inner :: "u64 \<Rightarrow> mem64 \<Rightarrow> u16 \<times> mem64" where
  "frame_ref_put_inner pa s =
     (let f = frame_of pa
      in if f \<ge> PMM_MAX_FRAMES then (0, s)
         else
           let s1 = (if frame_ref s f > 0
                     then s\<lparr>frame_ref := (frame_ref s)(f := frame_ref s f - 1)\<rparr> else s);
               s2 = (if frame_ref s1 f = 0 then bitmap_free_frame f s1 else s1)
           in (frame_ref s2 f, s2))"

definition frame_ref_put :: "u64 \<Rightarrow> mem64 \<Rightarrow> (u16 \<times> mem64) option" where
  "frame_ref_put pa s =
     (case mem_lock_acquire s of None \<Rightarrow> None
      | Some s1 \<Rightarrow> let (r, s2) = frame_ref_put_inner pa s1 in Some (r, mem_lock_release s2))"

definition frame_ref_inc_inner :: "u64 \<Rightarrow> mem64 \<Rightarrow> mem64" where
  "frame_ref_inc_inner pa s =
     (let f = frame_of pa
      in if f < PMM_MAX_FRAMES \<and> frame_ref s f < 0xFFFF
         then s\<lparr>frame_ref := (frame_ref s)(f := frame_ref s f + 1)\<rparr> else s)"

definition frame_ref_inc :: "u64 \<Rightarrow> mem64 \<Rightarrow> mem64 option" where
  "frame_ref_inc pa s =
     (case mem_lock_acquire s of None \<Rightarrow> None
      | Some s1 \<Rightarrow> Some (mem_lock_release (frame_ref_inc_inner pa s1)))"

definition pmm_free :: "u64 \<Rightarrow> mem64 \<Rightarrow> mem64 option" where
  "pmm_free pa s =
     (if pa AND 0xFFF \<noteq> 0 then Some s
      else case mem_lock_acquire s of None \<Rightarrow> None
           | Some s1 \<Rightarrow> Some (mem_lock_release (snd (frame_ref_put_inner pa s1))))"

definition pmm_free_raw_inner :: "u64 \<Rightarrow> mem64 \<Rightarrow> mem64" where
  "pmm_free_raw_inner pa s =
     (let f = frame_of pa in if f \<ge> PMM_MAX_FRAMES then s else bitmap_free_frame f s)"

definition pmm_free_raw :: "u64 \<Rightarrow> mem64 \<Rightarrow> mem64 option" where
  "pmm_free_raw pa s =
     (if pa AND 0xFFF \<noteq> 0 then Some s
      else case mem_lock_acquire s of None \<Rightarrow> None
           | Some s1 \<Rightarrow> Some (mem_lock_release (pmm_free_raw_inner pa s1)))"

definition pmm_free_frames :: "mem64 \<Rightarrow> u64" where "pmm_free_frames s = pmm_free_n s"
definition pmm_total_frames :: "mem64 \<Rightarrow> u64" where "pmm_total_frames s = pmm_total s"

section \<open>Abstraction: the set of free frames\<close>

definition free_set :: "mem64 \<Rightarrow> nat set" where
  "free_set s = {f. f < PMM_MAX_FRAMES \<and> \<not> frame_used s f}"

text \<open>The allocator's invariant: the counter counts the clear bits, and frame 0 is reserved.\<close>

definition pmm_inv :: "mem64 \<Rightarrow> bool" where
  "pmm_inv s \<longleftrightarrow> unat (pmm_free_n s) = card (free_set s) \<and> frame_used s 0"

lemma finite_free_set [simp]: "finite (free_set s)"
  by (simp add: free_set_def)

lemma free_set_bound: "f \<in> free_set s \<Longrightarrow> f < PMM_MAX_FRAMES"
  by (simp add: free_set_def)

lemma card_free_set_le: "card (free_set s) \<le> PMM_MAX_FRAMES"
  using card_mono [of "{..<PMM_MAX_FRAMES}" "free_set s"] by (auto simp: free_set_def)

lemma div_mod_64_inj: "(g::nat) div 64 = f div 64 \<Longrightarrow> g mod 64 = f mod 64 \<Longrightarrow> g = f"
  by (metis div_mult_mod_eq)

lemma bitmap_set_bit [simp]:
  fixes b :: "nat \<Rightarrow> u64"
  shows "bit ((b(f div 64 := b (f div 64) OR 2 ^ (f mod 64))) (g div 64)) (g mod 64)
     \<longleftrightarrow> g = f \<or> bit (b (g div 64)) (g mod 64)"
proof (cases "g div 64 = f div 64")
  case True
  then have "g mod 64 = f mod 64 \<longleftrightarrow> g = f" using div_mod_64_inj by blast
  with True show ?thesis by (auto simp: bit_simps)
qed auto

lemma bitmap_clear_bit [simp]:
  fixes b :: "nat \<Rightarrow> u64"
  shows "bit ((b(f div 64 := b (f div 64) AND NOT (2 ^ (f mod 64)))) (g div 64)) (g mod 64)
     \<longleftrightarrow> g \<noteq> f \<and> bit (b (g div 64)) (g mod 64)"
proof (cases "g div 64 = f div 64")
  case True
  then have "g mod 64 = f mod 64 \<longleftrightarrow> g = f" using div_mod_64_inj by blast
  with True show ?thesis by (auto simp: bit_simps)
qed auto

lemma frame_used_cong: "pmm_bits s' = pmm_bits s \<Longrightarrow> frame_used s' = frame_used s"
  by (simp add: frame_used_def fun_eq_iff)

lemma free_set_cong: "pmm_bits s' = pmm_bits s \<Longrightarrow> free_set s' = free_set s"
  by (simp add: free_set_def frame_used_def)

lemma below_div_mod_64:
  assumes "(g::nat) < i * 64 + b" "b < 64"
  shows "g div 64 < i \<or> g div 64 = i \<and> g mod 64 < b"
proof -
  have "g div 64 * 64 + g mod 64 < i * 64 + b" using assms by simp
  then have "g div 64 \<le> i" using assms(2) by linarith
  then show ?thesis using \<open>g div 64 * 64 + g mod 64 < i * 64 + b\<close> by (cases "g div 64 = i") auto
qed

lemma unat_free_inc:
  assumes "unat (n::u64) = card (free_set s)"
  shows "unat (n + 1) = Suc (card (free_set s))"
proof -
  have "unat n \<le> 1048576" using card_free_set_le [of s] assms by (simp add: PMM_MAX_FRAMES_def)
  then show ?thesis using assms by (simp add: unat_word_ariths)
qed

lemma unat_dec: "unat (n::'a::len word) = Suc k \<Longrightarrow> unat (n - 1) = k"
  by (metis One_nat_def diff_Suc_Suc diff_zero measure_unat nat.simps(3) unat_eq_0 unat_minus_one)


section \<open>Effect of each operation on the free set\<close>

lemma ctzll_spec:
  assumes "w \<noteq> 0"
  shows "ctzll w < 64 \<and> bit w (ctzll w) \<and> (\<forall>k < ctzll w. \<not> bit w k)"
proof -
  have "scan (bit w) 0 64 \<noteq> None"
    using assms by (auto simp: scan_None_iff bit_eq_iff dest: bit_imp_le_length)
  then obtain n where "scan (bit w) 0 64 = Some n" by auto
  with scan_SomeD [OF this] show ?thesis by (simp add: ctzll_def)
qed

text \<open>The frame update of a successful allocation, by frame number.\<close>

definition take_frame :: "nat \<Rightarrow> mem64 \<Rightarrow> mem64" where
  "take_frame f s =
     s\<lparr>pmm_bits := (pmm_bits s)(f div 64 := pmm_bits s (f div 64) OR 2 ^ (f mod 64)),
       pmm_free_n := pmm_free_n s - 1,
       frame_ref := (frame_ref s)(f := 1),
       phys := (phys s)(of_nat f * 4096 := (\<lambda>_. 0))\<rparr>"

lemma scan_bits_None: "scan (\<lambda>i. NOT (pmm_bits s i) \<noteq> 0) 0 PMM_WORDS = None \<Longrightarrow> free_set s = {}"
  by (auto simp: scan_None_iff word_all_ones_iff free_set_def frame_used_def PMM_WORDS_def PMM_MAX_FRAMES_def)

lemma scan_bits_Some:
  assumes "scan (\<lambda>i. NOT (pmm_bits s i) \<noteq> 0) 0 PMM_WORDS = Some i"
  shows "i * 64 + ctzll (NOT (pmm_bits s i)) = Min (free_set s)"
    and "free_set s \<noteq> {}" and "ctzll (NOT (pmm_bits s i)) < 64"
proof -
  let ?b = "ctzll (NOT (pmm_bits s i))"
  let ?f = "i * 64 + ?b"
  from scan_SomeD [OF assms] have i: "i < PMM_WORDS" "NOT (pmm_bits s i) \<noteq> 0"
    and lo: "\<And>k. k < i \<Longrightarrow> NOT (pmm_bits s k) = 0" by auto
  from ctzll_spec [OF i(2)] have b: "?b < 64" "\<not> bit (pmm_bits s i) ?b"
    and bl: "\<And>k. k < ?b \<Longrightarrow> bit (pmm_bits s i) k" by (auto simp: bit_not_iff)
  show "?b < 64" by (rule b)
  have fd: "?f div 64 = i" "?f mod 64 = ?b" using b by auto
  have mem: "?f \<in> free_set s"
    using b i fd by (simp add: free_set_def frame_used_def PMM_WORDS_def PMM_MAX_FRAMES_def)
  have least: "?f \<le> g" if g: "g \<in> free_set s" for g
  proof (rule ccontr)
    assume "\<not> ?f \<le> g"
    then have "g div 64 < i \<or> g div 64 = i \<and> g mod 64 < ?b" using b(1) by (intro below_div_mod_64) auto
    then have "frame_used s g"
      using lo [of "g div 64"] bl by (auto simp: frame_used_def word_all_ones_iff)
    with g show False by (simp add: free_set_def)
  qed
  show "?f = Min (free_set s)" using mem least by (intro Min_eqI [symmetric]) auto
  show "free_set s \<noteq> {}" using mem by auto
qed

lemma pmm_alloc_inner_eq:
  "pmm_alloc_inner s =
     (if free_set s = {} then (0, s)
      else (of_nat (Min (free_set s)) * 4096, take_frame (Min (free_set s)) s))"
proof (cases "scan (\<lambda>i. NOT (pmm_bits s i) \<noteq> 0) 0 PMM_WORDS")
  case None
  then show ?thesis using scan_bits_None by (simp add: pmm_alloc_inner_def)
next
  case (Some i)
  let ?b = "ctzll (NOT (pmm_bits s i))"
  have "Min (free_set s) div 64 = i" "Min (free_set s) mod 64 = ?b"
    using scan_bits_Some(3) [OF Some] by (simp_all add: scan_bits_Some(1) [OF Some, symmetric])
  then show ?thesis
    using Some scan_bits_Some(1,2) [OF Some]
    by (simp add: pmm_alloc_inner_def take_frame_def PAGE4K_def Let_def del: of_nat_add of_nat_mult)
qed

lemma frame_used_take [simp]: "frame_used (take_frame f s) g \<longleftrightarrow> g = f \<or> frame_used s g"
  unfolding frame_used_def take_frame_def by (simp del: fun_upd_apply)

lemma free_set_take [simp]: "free_set (take_frame f s) = free_set s - {f}"
  by (auto simp: free_set_def)

lemma take_frame_free_n [simp]: "pmm_free_n (take_frame f s) = pmm_free_n s - 1"
  by (simp add: take_frame_def)

lemma bitmap_free_frame_used [simp]:
  "frame_used (bitmap_free_frame f s) g \<longleftrightarrow> g \<noteq> f \<and> frame_used s g"
proof (cases "frame_used s f")
  case True
  then show ?thesis by (simp add: bitmap_free_frame_def Let_def frame_used_def del: fun_upd_apply)
next
  case False
  then show ?thesis by (auto simp: bitmap_free_frame_def Let_def frame_used_def)
qed

lemma bitmap_free_frame_set [simp]:
  "f < PMM_MAX_FRAMES \<Longrightarrow> free_set (bitmap_free_frame f s) = insert f (free_set s)"
  by (auto simp: free_set_def)

lemma bitmap_free_frame_ref [simp]: "frame_ref (bitmap_free_frame f s) = frame_ref s"
  by (simp add: bitmap_free_frame_def Let_def)

lemma pmm_mark_used [simp]:
  "frame_used (pmm_mark f u s) g \<longleftrightarrow> (if g = f \<and> f < PMM_MAX_FRAMES then u else frame_used s g)"
proof (cases "f < PMM_MAX_FRAMES \<and> frame_used s f \<noteq> u")
  case True
  then show ?thesis 
    by (cases u) (simp_all add: pmm_mark_def Let_def frame_used_def del: fun_upd_apply)
next
  case False
  then show ?thesis by (cases u) (auto simp: pmm_mark_def Let_def frame_used_def)
qed

lemma free_set_mark:
  "free_set (pmm_mark f u s) =
     (if f < PMM_MAX_FRAMES then (if u then free_set s - {f} else insert f (free_set s)) else free_set s)"
  by (auto simp: free_set_def split: if_splits)

lemma frame_of_alloc [simp]: "f < PMM_MAX_FRAMES \<Longrightarrow> frame_of (of_nat f * 4096) = f"
proof -
  assume f: "f < PMM_MAX_FRAMES"
  then have "unat (of_nat f * 4096 :: u64) = f * 4096"
    by (simp add: unat_word_ariths unat_of_nat PMM_MAX_FRAMES_def)
  then show ?thesis unfolding frame_of_def unat_drop_bit_eq by (simp add: drop_bit_eq_div)
qed

lemma frame_addr_eq_0_iff: "f < PMM_MAX_FRAMES \<Longrightarrow> (of_nat f * 4096 :: u64) = 0 \<longleftrightarrow> f = 0"
  using frame_of_alloc [of f] by (auto simp: frame_of_def)

lemma Min_free_set: "free_set s \<noteq> {} \<Longrightarrow> Min (free_set s) \<in> free_set s"
  by simp

lemma pmm_inv_free_pos: "pmm_inv s \<Longrightarrow> f \<in> free_set s \<Longrightarrow> 0 < f"
  by (auto simp: pmm_inv_def free_set_def intro!: gr0I)

lemma pmm_inv_take:
  assumes "pmm_inv s" "f \<in> free_set s"
  shows "pmm_inv (take_frame f s)"
proof -
  have "unat (pmm_free_n s) = Suc (card (free_set s) - 1)"
    using assms card_gt_0_iff [of "free_set s"] by (auto simp: pmm_inv_def)
  then have "unat (pmm_free_n s - 1) = card (free_set s) - 1" by (rule unat_dec)
  then show ?thesis using assms by (auto simp: pmm_inv_def)
qed

lemma pmm_inv_alloc: "pmm_inv s \<Longrightarrow> pmm_inv (snd (pmm_alloc_inner s))"
  by (simp add: pmm_alloc_inner_eq pmm_inv_take)

lemma pmm_inv_bitmap_free:
  assumes "pmm_inv s" "f < PMM_MAX_FRAMES" "f \<noteq> 0"
  shows "pmm_inv (bitmap_free_frame f s)"
proof (cases "frame_used s f")
  case True
  then have "f \<notin> free_set s" by (simp add: free_set_def)
  moreover have "pmm_free_n (bitmap_free_frame f s) = pmm_free_n s + 1"
    using True by (simp add: bitmap_free_frame_def Let_def frame_used_def)
  moreover have "unat (pmm_free_n s + 1) = Suc (card (free_set s))"
    using assms by (intro unat_free_inc) (simp add: pmm_inv_def)
  ultimately show ?thesis using assms by (auto simp: pmm_inv_def)
next
  case False
  then have "bitmap_free_frame f s = s" by (simp add: bitmap_free_frame_def Let_def frame_used_def)
  with assms show ?thesis by simp
qed

lemma pmm_inv_cong:
  "pmm_bits s' = pmm_bits s \<Longrightarrow> pmm_free_n s' = pmm_free_n s \<Longrightarrow> pmm_inv s' = pmm_inv s"
  by (simp add: pmm_inv_def free_set_def frame_used_def)

lemma frame_ref_put_eq:
  assumes "f = frame_of pa" "f < PMM_MAX_FRAMES"
  shows "frame_ref_put_inner pa s =
     (let r = frame_ref s f - (if frame_ref s f > 0 then 1 else 0);
          s1 = s\<lparr>frame_ref := (frame_ref s)(f := r)\<rparr>
      in (r, if r = 0 then bitmap_free_frame f s1 else s1))"
  using assms by (auto simp: frame_ref_put_inner_def Let_def fun_upd_idem)

lemma pmm_inv_put:
  assumes "pmm_inv s" "frame_of pa \<noteq> 0"
  shows "pmm_inv (snd (frame_ref_put_inner pa s))"
proof (cases "frame_of pa < PMM_MAX_FRAMES")
  case True
  have "pmm_inv (s\<lparr>frame_ref := r\<rparr>)" for r using assms(1) by (subst pmm_inv_cong) auto
  then show ?thesis
    using True assms(2) by (auto simp: frame_ref_put_eq [OF refl True] Let_def intro: pmm_inv_bitmap_free)
next
  case False
  then show ?thesis using assms by (simp add: frame_ref_put_inner_def)
qed

lemma pmm_inv_free_raw:
  "pmm_inv s \<Longrightarrow> frame_of pa \<noteq> 0 \<Longrightarrow> pmm_inv (pmm_free_raw_inner pa s)"
  by (auto simp: pmm_free_raw_inner_def Let_def intro: pmm_inv_bitmap_free)

lemma pmm_inv_inc: "pmm_inv s \<Longrightarrow> pmm_inv (frame_ref_inc_inner pa s)"
  by (subst pmm_inv_cong [of _ s]) (auto simp: frame_ref_inc_inner_def Let_def)

lemma pmm_inv_mark:
  assumes "pmm_inv s" "f \<noteq> 0"
  shows "pmm_inv (pmm_mark f u s)"
proof (cases "f < PMM_MAX_FRAMES \<and> frame_used s f \<noteq> u")
  case True
  show ?thesis
  proof (cases u)
    case t: True
    with True have f: "f \<in> free_set s" by (simp add: free_set_def)
    have "pmm_bits (pmm_mark f u s) = pmm_bits (take_frame f s)"
      "pmm_free_n (pmm_mark f u s) = pmm_free_n (take_frame f s)"
      using True t by (simp_all add: pmm_mark_def take_frame_def frame_used_def Let_def)
    with pmm_inv_take [OF assms(1) f] show ?thesis by (blast dest: pmm_inv_cong)
  next
    case False
    have "pmm_bits (pmm_mark f u s) = pmm_bits (bitmap_free_frame f s)"
      "pmm_free_n (pmm_mark f u s) = pmm_free_n (bitmap_free_frame f s)"
      using True False by (simp_all add: pmm_mark_def bitmap_free_frame_def frame_used_def Let_def)
    with pmm_inv_bitmap_free [OF assms(1)] True assms(2) show ?thesis by (blast dest: pmm_inv_cong)
  qed
next
  case False
  then have "pmm_mark f u s = s" by (cases u) (auto simp: pmm_mark_def frame_used_def Let_def)
  with assms show ?thesis by simp
qed

section \<open>The allocator's contract\<close>

text \<open>
  What the paging and loader code relies on: an allocation takes one frame out of the available
  set and fails only when the set is empty.  \<open>alloc_many\<close> is the client pattern of the loader,
  the stack mapper and the self-test, which allocate several frames in a row.
\<close>

fun alloc_many :: "('s \<Rightarrow> u64 \<times> 's) \<Rightarrow> nat \<Rightarrow> 's \<Rightarrow> u64 list \<times> 's" where
  "alloc_many al 0 s = ([], s)"
| "alloc_many al (Suc n) s =
     (let (p, s1) = al s; (ps, s2) = alloc_many al n s1 in (p # ps, s2))"

locale frame_allocator =
  fixes alloc :: "'s \<Rightarrow> u64 \<times> 's"
    and avail :: "'s \<Rightarrow> nat set"
    and inv :: "'s \<Rightarrow> bool"
  assumes avail_bound: "inv s \<Longrightarrow> f \<in> avail s \<Longrightarrow> 0 < f \<and> f < PMM_MAX_FRAMES"
    and avail_finite: "finite (avail s)"
    and alloc_hit: "inv s \<Longrightarrow> avail s \<noteq> {} \<Longrightarrow>
          \<exists>f \<in> avail s. fst (alloc s) = of_nat f * 4096 \<and> avail (snd (alloc s)) = avail s - {f}"
    and alloc_empty: "inv s \<Longrightarrow> avail s = {} \<Longrightarrow> alloc s = (0, s)"
    and alloc_inv: "inv s \<Longrightarrow> inv (snd (alloc s))"
begin

lemma alloc_zero_iff: "inv s \<Longrightarrow> fst (alloc s) = 0 \<longleftrightarrow> avail s = {}"
  using alloc_hit [of s] avail_bound [of s] alloc_empty [of s]
  by (metis fst_conv frame_addr_eq_0_iff less_numeral_extra(3))

lemma alloc_many_distinct:
  assumes "inv s" "n \<le> card (avail s)" "alloc_many alloc n s = (ps, s')"
  shows "length ps = n \<and> distinct ps \<and> 0 \<notin> set ps \<and> (\<forall>p \<in> set ps. frame_of p \<in> avail s) \<and>
         card (avail s') = card (avail s) - n \<and> inv s'"
  using assms
proof (induction n arbitrary: s ps)
  case (Suc n)
  obtain p s1 where a: "alloc s = (p, s1)" by fastforce
  obtain qs where q: "alloc_many alloc n s1 = (qs, s')" "ps = p # qs"
    using Suc.prems(3) a by (auto split: prod.splits)
  have ne: "avail s \<noteq> {}" using Suc.prems(2) by auto
  then obtain f where f: "f \<in> avail s" "p = of_nat f * 4096" "avail s1 = avail s - {f}"
    using alloc_hit [OF Suc.prems(1) ne] a by auto
  have inv1: "inv s1" using alloc_inv [OF Suc.prems(1)] a by simp
  have "n \<le> card (avail s1)"
    using Suc.prems(2) f(1) avail_finite [of s] by (simp add: f(3))
  from Suc.IH [OF inv1 this q(1)] have ih: "length qs = n" "distinct qs" "0 \<notin> set qs"
    "\<forall>p \<in> set qs. frame_of p \<in> avail s - {f}" "card (avail s') = card (avail s) - 1 - n" "inv s'"
    using f(1) avail_finite [of s] by (simp_all add: f(3))
  have b: "0 < f" "f < PMM_MAX_FRAMES" using avail_bound [OF Suc.prems(1) f(1)] by auto
  then have fp: "frame_of p = f" "p \<noteq> 0" by (simp_all add: f(2) frame_addr_eq_0_iff)
  then have "p \<notin> set qs" using ih(4) by auto
  with ih fp f(1) show ?case by (auto simp: q(2))
qed simp

end

interpretation pmm: frame_allocator pmm_alloc_inner free_set pmm_inv
proof
  show "\<exists>f\<in>free_set s. fst (pmm_alloc_inner s) = word_of_nat f * 4096 \<and>
         free_set (snd (pmm_alloc_inner s)) = free_set s - {f}"
    if "pmm_inv s" "free_set s \<noteq> {}" for s
    using that(2) Min_free_set [OF that(2)]
    by (intro bexI [of _ "Min (free_set s)"]) (simp_all add: pmm_alloc_inner_eq)
qed (auto simp: pmm_alloc_inner_eq pmm_inv_take dest: pmm_inv_free_pos free_set_bound)

section \<open>Properties\<close>

text \<open>
  C3.  \<^verbatim>\<open>__pmm_alloc\<close> returns the lowest free frame and fails exactly when no frame is
  free: the returned page is non-null, zero-filled, has reference count one and leaves the free
  set; no other page, reference count or bitmap bit changes; and the free counter stays exact.
\<close>

theorem pmm_alloc_lowest_free:
  assumes "pmm_inv s" and "pmm_alloc_inner s = (pa, s')"
  shows "(free_set s = {} \<longrightarrow> pa = 0 \<and> s' = s) \<and>
         (free_set s \<noteq> {} \<longrightarrow>
            pa = of_nat (Min (free_set s)) * 4096 \<and> pa \<noteq> 0 \<and>
            free_set s' = free_set s - {frame_of pa} \<and>
            frame_ref s' (frame_of pa) = 1 \<and> (\<forall>k. phys s' pa k = 0) \<and>
            (\<forall>a k. a \<noteq> pa \<longrightarrow> phys s' a k = phys s a k) \<and>
            (\<forall>f. f \<noteq> frame_of pa \<longrightarrow> frame_ref s' f = frame_ref s f) \<and>
            unat (pmm_free_frames s') = unat (pmm_free_frames s) - 1 \<and> pmm_inv s')"
proof (cases "free_set s = {}")
  case True
  with assms(2) show ?thesis by (simp add: pmm_alloc_inner_eq)
next
  case False
  let ?f = "Min (free_set s)"
  have f1: "?f \<in> free_set s" using False by (rule Min_free_set)
  then have f: "?f \<in> free_set s" "?f < PMM_MAX_FRAMES" "0 < ?f"
    using assms(1) by (auto intro: free_set_bound pmm_inv_free_pos)
  have s': "pa = of_nat ?f * 4096" "s' = take_frame ?f s"
    using assms(2) False by (auto simp: pmm_alloc_inner_eq)
  have inv: "pmm_inv s'" using pmm_inv_take [OF assms(1) f(1)] by (simp add: s')
  have "unat (pmm_free_frames s') = unat (pmm_free_frames s) - 1"
    using assms(1) inv f(1) by (simp add: pmm_inv_def s' pmm_free_frames_def)
  with False f inv show ?thesis
    by (simp add: s' frame_addr_eq_0_iff) (auto simp: take_frame_def)
qed


text \<open>A data frame is released at its last reference and not before: putting a reference on a
  used frame with count \<open>r > 0\<close> leaves count \<open>r - 1\<close>, and the frame joins the free set exactly
  when \<open>r = 1\<close>.\<close>

theorem frame_ref_put_last:
  assumes "frame_of pa < PMM_MAX_FRAMES" and "frame_used s (frame_of pa)" and "frame_ref s (frame_of pa) > 0"
  shows "fst (frame_ref_put_inner pa s) = frame_ref s (frame_of pa) - 1 \<and>
         free_set (snd (frame_ref_put_inner pa s)) =
           (if frame_ref s (frame_of pa) = 1 then insert (frame_of pa) (free_set s) else free_set s)"
proof -
  have fs: "free_set (s\<lparr>frame_ref := r\<rparr>) = free_set s" for r by (rule free_set_cong) simp
  show ?thesis using assms by (auto simp: frame_ref_put_eq [OF refl assms(1)] Let_def fs)
qed

text \<open>Any \<open>n\<close> consecutive allocations that the free counter covers succeed and hand out \<open>n\<close>
  distinct, non-null frames that were free before.\<close>

theorem pmm_alloc_many_distinct:
  assumes "pmm_inv s" and "n \<le> unat (pmm_free_frames s)"
    and "alloc_many pmm_alloc_inner n s = (ps, s')"
  shows "length ps = n \<and> distinct ps \<and> 0 \<notin> set ps \<and> (\<forall>p \<in> set ps. frame_of p \<in> free_set s) \<and>
         unat (pmm_free_frames s') = unat (pmm_free_frames s) - n"
proof -
  have n: "n \<le> card (free_set s)" using assms(1,2) by (simp add: pmm_inv_def pmm_free_frames_def)
  from pmm.alloc_many_distinct [OF assms(1) n assms(3)] assms(1) show ?thesis
    by (simp add: pmm_inv_def pmm_free_frames_def)
qed

text \<open>Putting a reference on a reserved frame (bitmap bit set, reference count 0) is not a
  no-op: it clears the bitmap bit and the frame becomes allocatable.  Device frames mapped by
  \<^verbatim>\<open>fb_map_current\<close> are in this state when a task's address space is torn down.\<close>

theorem put_on_reserved_frees_it:
  assumes "frame_of pa < PMM_MAX_FRAMES" and "frame_used s (frame_of pa)" and "frame_ref s (frame_of pa) = 0"
  shows "free_set (snd (frame_ref_put_inner pa s)) = insert (frame_of pa) (free_set s)"
proof -
  have "free_set (s\<lparr>frame_ref := r\<rparr>) = free_set s" for r by (rule free_set_cong) simp
  then show ?thesis using assms by (simp add: frame_ref_put_eq [OF refl assms(1)] Let_def)
qed

section \<open>Witnesses\<close>

text \<open>A small machine: frames 512 to 515 are free, frame 260 is shared by two
  spaces, frame 300 is a device frame (used, no reference), every other frame has one owner.\<close>

definition sample_mem :: mem64 where
  "sample_mem = \<lparr>mem_locked = False, pmm_bits = (\<lambda>i. if i = 8 then NOT (mask 4) else NOT 0),
     frame_ref = (\<lambda>f. if f = 260 then 2 else if f = 300 then 0 else 1), pmm_total = 4, pmm_free_n = 4, mem_top = 0x1000000, nx_on = True,
     g_fb = 0, g_fbsize = 0, vmm_root = 0x100000, live_cr3 = 0x100000, phys = (\<lambda>_ _. 0)\<rparr>"

lemma sample_used: "frame_used sample_mem f \<longleftrightarrow> \<not> (512 \<le> f \<and> f < 516)"
proof -
  have "f div 64 = 8 \<and> f mod 64 < 4 \<longleftrightarrow> 512 \<le> f \<and> f < 516"
  proof
    assume "512 \<le> f \<and> f < 516"
    then have "f = 512 \<or> f = 513 \<or> f = 514 \<or> f = 515" by linarith
    then show "f div 64 = 8 \<and> f mod 64 < 4" by auto
  qed (use div_mult_mod_eq [of f 64] in linarith)
  then show ?thesis by (auto simp: frame_used_def sample_mem_def bit_simps)
qed

lemma sample_free: "free_set sample_mem = {512..<516}"
  by (auto simp: free_set_def sample_used PMM_MAX_FRAMES_def)

lemma sample_inv: "pmm_inv sample_mem"
  by (simp add: pmm_inv_def sample_free sample_used) (simp add: sample_mem_def)

lemma sample_Min: "Min (free_set sample_mem) = 512"
  unfolding sample_free by (rule Min_eqI) auto

lemma pmm_alloc_lowest_free_witness:
  "fst (pmm_alloc_inner sample_mem) = 0x200000 \<and> pmm_inv (snd (pmm_alloc_inner sample_mem))"
  using pmm_alloc_lowest_free [OF sample_inv, of "fst (pmm_alloc_inner sample_mem)" "snd (pmm_alloc_inner sample_mem)"]
  by (simp add: sample_Min) (simp add: sample_free)


lemma frame_ref_put_last_witness:
  "fst (frame_ref_put_inner 0x104000 sample_mem) = 1 \<and> free_set (snd (frame_ref_put_inner 0x104000 sample_mem)) = {512..<516}"
proof -
  have f: "frame_of 0x104000 = 260" by (simp add: frame_of_def drop_bit_eq_div)
  have r: "frame_ref sample_mem 260 = 2" by (simp add: sample_mem_def)
  show ?thesis using frame_ref_put_last [of "0x104000" sample_mem] unfolding f r
    by (simp add: sample_used sample_free PMM_MAX_FRAMES_def)
qed

lemma pmm_alloc_many_distinct_witness:
  "length (fst (alloc_many pmm_alloc_inner 3 sample_mem)) = 3 \<and> distinct (fst (alloc_many pmm_alloc_inner 3 sample_mem))"
  using pmm_alloc_many_distinct [OF sample_inv, of 3 "fst (alloc_many pmm_alloc_inner 3 sample_mem)" "snd (alloc_many pmm_alloc_inner 3 sample_mem)"]
  by (simp add: pmm_free_frames_def) (simp add: sample_mem_def)

lemma put_on_reserved_frees_it_witness:
  "free_set (snd (frame_ref_put_inner 0x12C000 sample_mem)) = insert 300 {512..<516}"
proof -
  have f: "frame_of 0x12C000 = 300" by (simp add: frame_of_def drop_bit_eq_div)
  have r: "frame_ref sample_mem 300 = 0" by (simp add: sample_mem_def)
  show ?thesis using put_on_reserved_frees_it [of "0x12C000" sample_mem] unfolding f r
    by (simp add: sample_used sample_free PMM_MAX_FRAMES_def)
qed

end
