(* ===== verification/Vmm.thy ===== *)
theory Vmm
  imports Pmm
begin

text \<open>
  Paging of \<^verbatim>\<open>src/k64/mem64.c\<close>: the four-level walker (map, unmap, translate, probe,
  user pointer check), address-space cloning with copy-on-write, teardown, and the copy-on-write
  fault resolver.  Loops over the 512 entries of a table are folds over \<open>[0..<512]\<close>; recursion
  over table levels is structural.  The TLB is not part of the state: \<^verbatim>\<open>invlpg\<close>, CR3
  reloads and shootdowns only appear where their order matters for the lock.
\<close>

section \<open>Entries and addresses\<close>

definition PTE_P :: u64 where "PTE_P = 1"
definition PTE_RW :: u64 where "PTE_RW = 2"
definition PTE_US :: u64 where "PTE_US = 4"
definition PTE_PWT :: u64 where "PTE_PWT = 8"
definition PTE_PCD :: u64 where "PTE_PCD = 16"
definition PTE_PS :: u64 where "PTE_PS = 0x80"
definition PTE_COW :: u64 where "PTE_COW = 0x200"
definition PTE_NX :: u64 where "PTE_NX = 0x8000000000000000"
definition PTE_ADDR :: u64 where "PTE_ADDR = 0x000FFFFFFFFFF000"

definition VMM_RW :: u64 where "VMM_RW = 1"
definition VMM_US :: u64 where "VMM_US = 2"
definition VMM_NX :: u64 where "VMM_NX = 4"
definition VMM_UC :: u64 where "VMM_UC = 8"

definition vmm_is_canonical :: "u64 \<Rightarrow> bool" where
  "vmm_is_canonical va =
     (let hi = drop_bit 48 va
      in if drop_bit 47 va AND 1 \<noteq> 0 then hi = 0xFFFF else hi = 0)"

text \<open>\<^verbatim>\<open>(va >> sh) & 511\<close>, the index into one table.\<close>

definition pidx :: "nat \<Rightarrow> u64 \<Rightarrow> nat" where
  "pidx sh va = unat (drop_bit sh va AND 511)"

definition set_entry :: "u64 \<Rightarrow> nat \<Rightarrow> u64 \<Rightarrow> mem64 \<Rightarrow> mem64" where
  "set_entry tab i e s = s\<lparr>phys := (phys s)(tab := (phys s tab)(i := e))\<rparr>"

section \<open>The walker\<close>

text \<open>\<^verbatim>\<open>next_tab\<close>: result 0 is the null pointer.\<close>

definition next_tab :: "u64 \<Rightarrow> nat \<Rightarrow> u64 \<Rightarrow> mem64 \<Rightarrow> u64 \<times> mem64" where
  "next_tab tab i ifl s =
     (let e = phys s tab i
      in if e AND PTE_P \<noteq> 0 then
           (if e AND PTE_PS \<noteq> 0 then (0, s)
            else
              let s1 = (if ifl AND PTE_US \<noteq> 0 \<and> e AND PTE_US = 0
                        then set_entry tab i (e OR PTE_US) s else s)
              in (phys s1 tab i AND PTE_ADDR, s1))
         else
           let (nf, s1) = pmm_alloc_inner s
           in if nf = 0 then (0, s1) else (nf, set_entry tab i (nf OR ifl) s1))"

definition leaf_entry :: "u64 \<Rightarrow> u64 \<Rightarrow> u64" where
  "leaf_entry pa flags =
     (let e = (pa AND PTE_ADDR) OR PTE_P;
          e = (if flags AND VMM_RW \<noteq> 0 then e OR PTE_RW else e);
          e = (if flags AND VMM_US \<noteq> 0 then e OR PTE_US else e);
          e = (if flags AND VMM_UC \<noteq> 0 then e OR (PTE_PWT OR PTE_PCD) else e)
      in (if flags AND VMM_NX \<noteq> 0 then e OR PTE_NX else e))"

definition vmm_map_page_inner :: "u64 \<Rightarrow> u64 \<Rightarrow> u64 \<Rightarrow> mem64 \<Rightarrow> int \<times> mem64" where
  "vmm_map_page_inner va pa flags s =
     (if \<not> vmm_is_canonical va \<or> va AND 0xFFF \<noteq> 0 \<or> pa AND 0xFFF \<noteq> 0 then (-1, s)
      else if flags AND VMM_NX \<noteq> 0 \<and> \<not> nx_on s then (-1, s)
      else
        let ifl = PTE_P OR PTE_RW OR (if flags AND VMM_US \<noteq> 0 then PTE_US else 0);
            (pdpt, s1) = next_tab (vmm_root s) (pidx 39 va) ifl s
        in if pdpt = 0 then (-1, s1)
           else
             let (pd, s2) = next_tab pdpt (pidx 30 va) ifl s1
             in if pd = 0 then (-1, s2)
                else
                  let (pt, s3) = next_tab pd (pidx 21 va) ifl s2
                  in if pt = 0 then (-1, s3)
                     else if phys s3 pt (pidx 12 va) AND PTE_P \<noteq> 0 then (-1, s3)
                     else (0, set_entry pt (pidx 12 va) (leaf_entry pa flags) s3))"

definition vmm_map_page :: "u64 \<Rightarrow> u64 \<Rightarrow> u64 \<Rightarrow> mem64 \<Rightarrow> (int \<times> mem64) option" where
  "vmm_map_page va pa flags s =
     (case mem_lock_acquire s of None \<Rightarrow> None
      | Some s1 \<Rightarrow> let (r, s2) = vmm_map_page_inner va pa flags s1 in Some (r, mem_lock_release s2))"

definition vmm_unmap_page_inner :: "u64 \<Rightarrow> mem64 \<Rightarrow> int \<times> mem64" where
  "vmm_unmap_page_inner va s =
     (if \<not> vmm_is_canonical va \<or> va AND 0xFFF \<noteq> 0 then (-1, s)
      else
        let e = phys s (vmm_root s) (pidx 39 va)
        in if e AND PTE_P = 0 \<or> e AND PTE_PS \<noteq> 0 then (-1, s)
           else
             let pdpt = e AND PTE_ADDR; e = phys s pdpt (pidx 30 va)
             in if e AND PTE_P = 0 \<or> e AND PTE_PS \<noteq> 0 then (-1, s)
                else
                  let pd = e AND PTE_ADDR; e = phys s pd (pidx 21 va)
                  in if e AND PTE_P = 0 \<or> e AND PTE_PS \<noteq> 0 then (-1, s)
                     else
                       let pt = e AND PTE_ADDR
                       in if phys s pt (pidx 12 va) AND PTE_P = 0 then (-1, s)
                          else (0, set_entry pt (pidx 12 va) 0 s))"

definition vmm_unmap_page :: "u64 \<Rightarrow> mem64 \<Rightarrow> (int \<times> mem64) option" where
  "vmm_unmap_page va s =
     (case mem_lock_acquire s of None \<Rightarrow> None
      | Some s1 \<Rightarrow> let (r, s2) = vmm_unmap_page_inner va s1 in Some (r, mem_lock_release s2))"

definition vmm_translate_inner :: "u64 \<Rightarrow> mem64 \<Rightarrow> u64" where
  "vmm_translate_inner va s =
     (if \<not> vmm_is_canonical va then 0
      else
        let root = live_cr3 s AND PTE_ADDR; e = phys s root (pidx 39 va)
        in if e AND PTE_P = 0 then 0
           else if e AND PTE_PS \<noteq> 0 then (e AND PTE_ADDR) + (va AND 0x7FFFFFFFFF)
           else
             let e = phys s (e AND PTE_ADDR) (pidx 30 va)
             in if e AND PTE_P = 0 then 0
                else if e AND PTE_PS \<noteq> 0 then (e AND PTE_ADDR) + (va AND 0x3FFFFFFF)
                else
                  let e = phys s (e AND PTE_ADDR) (pidx 21 va)
                  in if e AND PTE_P = 0 then 0
                     else if e AND PTE_PS \<noteq> 0 then (e AND PTE_ADDR) + (va AND 0x1FFFFF)
                     else
                       let e = phys s (e AND PTE_ADDR) (pidx 12 va)
                       in if e AND PTE_P = 0 then 0
                          else (e AND PTE_ADDR) + (va AND 0xFFF))"

definition vmm_translate :: "u64 \<Rightarrow> mem64 \<Rightarrow> (u64 \<times> mem64) option" where
  "vmm_translate va s =
     (case mem_lock_acquire s of None \<Rightarrow> None
      | Some s1 \<Rightarrow> Some (vmm_translate_inner va s1, mem_lock_release s1))"

text \<open>\<^verbatim>\<open>vmm_probe\<close>: \<open>None\<close> is the result -1, \<open>Some fl\<close> the result 0 with \<^verbatim>\<open>*flags = fl\<close>.\<close>

definition vmm_probe :: "u64 \<Rightarrow> mem64 \<Rightarrow> u64 option" where
  "vmm_probe va s =
     (let leaf = (\<lambda>e. Some ((e AND 7) OR (if drop_bit 63 e \<noteq> 0 then 8 else 0)))
      in if \<not> vmm_is_canonical va then None
         else
           let root = live_cr3 s AND PTE_ADDR; e = phys s root (pidx 39 va)
           in if e AND PTE_P = 0 then None
              else if e AND PTE_PS \<noteq> 0 then leaf e
              else
                let e = phys s (e AND PTE_ADDR) (pidx 30 va)
                in if e AND PTE_P = 0 then None
                   else if e AND PTE_PS \<noteq> 0 then leaf e
                   else
                     let e = phys s (e AND PTE_ADDR) (pidx 21 va)
                     in if e AND PTE_P = 0 then None
                        else if e AND PTE_PS \<noteq> 0 then leaf e
                        else
                          let e = phys s (e AND PTE_ADDR) (pidx 12 va)
                          in if e AND PTE_P = 0 then None else leaf e)"

text \<open>
  \<^verbatim>\<open>vmm_user_ok\<close>: the body of its loop for one page, the loop over the pages
  \<^verbatim>\<open>start, start + 4096, ...\<close> below \<^verbatim>\<open>end\<close> (both page aligned, so the count is
  exact), and the range check before it.
\<close>

definition user_page_ok :: "mem64 \<Rightarrow> u64 \<Rightarrow> bool" where
  "user_page_ok s p =
     (let want = PTE_P OR PTE_US; root = live_cr3 s AND PTE_ADDR; e = phys s root (pidx 39 p)
      in if e AND PTE_P = 0 then False
         else if e AND PTE_PS \<noteq> 0 then e AND want = want
         else
           let e = phys s (e AND PTE_ADDR) (pidx 30 p)
           in if e AND PTE_P = 0 then False
              else if e AND PTE_PS \<noteq> 0 then e AND want = want
              else
                let e = phys s (e AND PTE_ADDR) (pidx 21 p)
                in if e AND PTE_P = 0 then False
                   else if e AND PTE_PS \<noteq> 0 then e AND want = want
                   else
                     let e = phys s (e AND PTE_ADDR) (pidx 12 p)
                     in e AND want = want)"

fun user_pages_ok :: "mem64 \<Rightarrow> u64 \<Rightarrow> nat \<Rightarrow> bool" where
  "user_pages_ok s p 0 = True"
| "user_pages_ok s p (Suc n) = (user_page_ok s p \<and> user_pages_ok s (p + 4096) n)"

definition vmm_user_ok :: "u64 \<Rightarrow> u64 \<Rightarrow> mem64 \<Rightarrow> bool" where
  "vmm_user_ok va len s =
     (if len = 0 \<or> len > 0x100000 then False
      else if \<not> vmm_is_canonical va then False
      else
        let start = va AND NOT 0xFFF; en = (va + len + 0xFFF) AND NOT 0xFFF
        in if en < start \<or> \<not> vmm_is_canonical (en - 1) then False
           else user_pages_ok s start (unat (en - start) div 4096))"

section \<open>Cloning an address space\<close>

text \<open>\<^verbatim>\<open>count_clone\<close>: tables a clone allocates below \<open>tab\<close>.\<close>

primrec count_clone :: "nat \<Rightarrow> mem64 \<Rightarrow> u64 \<Rightarrow> nat" where
  "count_clone 0 s tab = 0"
| "count_clone (Suc l) s tab =
     sum_list (map (\<lambda>i. let e = phys s tab i in
                 if e AND PTE_P = 0 \<or> e AND PTE_PS \<noteq> 0 \<or> e AND PTE_US = 0 then 0
                 else Suc (count_clone l s (e AND PTE_ADDR))) [0..<512])"

text \<open>
  One iteration of the loop of \<^verbatim>\<open>clone_level\<close>.  \<open>rec\<close> is the recursive call for the
  next level; the accumulator is \<open>None\<close> once the loop has returned 0.
\<close>

definition cow_entry :: "u64 \<Rightarrow> u64" where
  "cow_entry e =
     (let pa = e AND PTE_ADDR;
          c = (pa OR PTE_P OR PTE_US OR PTE_COW) AND NOT PTE_RW
      in if e AND PTE_NX \<noteq> 0 then c OR PTE_NX else c)"

definition clone_entry ::
  "nat \<Rightarrow> (u64 \<Rightarrow> mem64 \<Rightarrow> u64 \<times> mem64) \<Rightarrow> bool \<Rightarrow> u64 \<Rightarrow> u64 \<Rightarrow> nat \<Rightarrow> bool \<times> mem64 \<Rightarrow> bool \<times> mem64" where
  "clone_entry level rec cow src nf i =
     (\<lambda>(ok, s).
        if \<not> ok then (ok, s)
        else
          let e = phys s src i
          in if e AND PTE_P = 0 then (True, s)
             else if level > 0 \<and> e AND PTE_PS \<noteq> 0 then
               (if e AND PTE_US \<noteq> 0 then (False, pmm_free_raw_inner nf s)
                else (True, set_entry nf i e s))
             else if level = 3 \<or> e AND PTE_US \<noteq> 0 then
               (if level = 0 then
                  let pa = e AND PTE_ADDR
                  in if e AND PTE_US \<noteq> 0 \<and> g_fbsize s \<noteq> 0 \<and> pa \<ge> g_fb s \<and> pa < g_fb s + g_fbsize s
                     then (True, set_entry nf i e s)
                     else if cow \<and> e AND PTE_US \<noteq> 0 \<and> e AND PTE_RW \<noteq> 0
                     then (True, frame_ref_inc_inner pa
                             (set_entry nf i (cow_entry e) (set_entry src i (cow_entry e) s)))
                     else (True, (if e AND PTE_US \<noteq> 0
                                  then frame_ref_inc_inner pa (set_entry nf i e s)
                                  else set_entry nf i e s))
                else
                  let (c, s1) = rec (e AND PTE_ADDR) s
                  in if c = 0 then (False, pmm_free_raw_inner nf s1)
                     else (True, set_entry nf i (c OR PTE_P OR PTE_RW OR PTE_US) s1))
             else (True, set_entry nf i e s))"

definition clone_table ::
  "nat \<Rightarrow> (u64 \<Rightarrow> mem64 \<Rightarrow> u64 \<times> mem64) \<Rightarrow> bool \<Rightarrow> u64 \<Rightarrow> mem64 \<Rightarrow> u64 \<times> mem64" where
  "clone_table level rec cow src s =
     (let (nf, s0) = pmm_alloc_inner s
      in if nf = 0 then (0, s0)
         else
           let (ok, s1) = fold (clone_entry level rec cow src nf) [0..<512] (True, s0)
           in if ok then (nf, s1) else (0, s1))"

primrec clone_level :: "nat \<Rightarrow> bool \<Rightarrow> u64 \<Rightarrow> mem64 \<Rightarrow> u64 \<times> mem64" where
  "clone_level 0 cow = clone_table 0 (\<lambda>_ s. (0, s)) cow"
| "clone_level (Suc l) cow = clone_table (Suc l) (clone_level l cow) cow"

definition clone_space_reserved :: "u64 \<Rightarrow> bool \<Rightarrow> mem64 \<Rightarrow> u64 \<times> mem64" where
  "clone_space_reserved src cow s =
     (let need = 1 + length (filter (\<lambda>i. phys s src i AND PTE_P \<noteq> 0) [0..<512]) + count_clone 3 s src
      in if unat (pmm_free_frames s) < need then (0, s) else clone_level 3 cow src s)"

definition vmm_clone_space :: "u64 \<Rightarrow> mem64 \<Rightarrow> (u64 \<times> mem64) option" where
  "vmm_clone_space src s =
     (case mem_lock_acquire s of None \<Rightarrow> None
      | Some s1 \<Rightarrow> let (r, s2) = clone_space_reserved src True s1 in Some (r, mem_lock_release s2))"

definition vmm_share_space :: "u64 \<Rightarrow> mem64 \<Rightarrow> (u64 \<times> mem64) option" where
  "vmm_share_space src s =
     (case mem_lock_acquire s of None \<Rightarrow> None
      | Some s1 \<Rightarrow> let (r, s2) = clone_space_reserved src False s1 in Some (r, mem_lock_release s2))"

section \<open>Teardown\<close>

definition TEAR_MAX_DATA :: nat where "TEAR_MAX_DATA = 256"
definition TEAR_MAX_TAB :: nat where "TEAR_MAX_TAB = 64"

record tear_list =
  tl_data :: "u64 list"
  tl_tabs :: "u64 list"

text \<open>\<^verbatim>\<open>tear_flush_free\<close> takes \<^verbatim>\<open>mem_lock\<close>: \<open>None\<close> when it is held.\<close>

definition tear_flush_free :: "tear_list \<Rightarrow> mem64 \<Rightarrow> (tear_list \<times> mem64) option" where
  "tear_flush_free L s =
     (if tl_data L = [] \<and> tl_tabs L = [] then Some (L, s)
      else case mem_lock_acquire s of
             None \<Rightarrow> None
           | Some s1 \<Rightarrow>
               let s2 = fold (\<lambda>pa t. snd (frame_ref_put_inner pa t)) (tl_data L) s1;
                   s3 = fold pmm_free_raw_inner (tl_tabs L) s2
               in Some (\<lparr>tl_data = [], tl_tabs = []\<rparr>, mem_lock_release s3))"

definition tear_record :: "u64 \<Rightarrow> bool \<Rightarrow> tear_list \<times> mem64 \<Rightarrow> (tear_list \<times> mem64) option" where
  "tear_record pa is_tab = (\<lambda>(L, s).
     if is_tab then
       (case (if length (tl_tabs L) \<ge> TEAR_MAX_TAB then tear_flush_free L s else Some (L, s)) of
          None \<Rightarrow> None
        | Some (L', s') \<Rightarrow> Some (L'\<lparr>tl_tabs := tl_tabs L' @ [pa]\<rparr>, s'))
     else
       (case (if length (tl_data L) \<ge> TEAR_MAX_DATA then tear_flush_free L s else Some (L, s)) of
          None \<Rightarrow> None
        | Some (L', s') \<Rightarrow> Some (L'\<lparr>tl_data := tl_data L' @ [pa]\<rparr>, s')))"

text \<open>
  One iteration of \<^verbatim>\<open>tear_collect\<close>; \<open>btab\<close> is the boot space's table at the same place,
  0 for a null pointer, and \<open>rec\<close> the recursive call.
\<close>

definition tear_entry ::
  "nat \<Rightarrow> (u64 \<Rightarrow> u64 \<Rightarrow> tear_list \<times> mem64 \<Rightarrow> (tear_list \<times> mem64) option) \<Rightarrow> u64 \<Rightarrow> u64 \<Rightarrow> nat \<Rightarrow>
   (tear_list \<times> mem64) option \<Rightarrow> (tear_list \<times> mem64) option" where
  "tear_entry level rec tab btab i acc =
     (case acc of None \<Rightarrow> None
      | Some (L, s) \<Rightarrow>
          let e = phys s tab i; b = (if btab \<noteq> 0 then phys s btab i else 0)
          in if e AND PTE_P = 0 then Some (L, s)
             else if btab \<noteq> 0 \<and> b AND PTE_P \<noteq> 0 \<and> ((b AND PTE_PS \<noteq> 0) = (e AND PTE_PS \<noteq> 0)) \<and>
                     b AND PTE_ADDR = e AND PTE_ADDR then Some (L, s)
             else if level = 0 then
               (case (if e AND PTE_US \<noteq> 0 then tear_record (e AND PTE_ADDR) False (L, s) else Some (L, s)) of
                  None \<Rightarrow> None
                | Some (L', s') \<Rightarrow> Some (L', set_entry tab i 0 s'))
             else if e AND PTE_PS \<noteq> 0 then Some (L, set_entry tab i 0 s)
             else
               let child = e AND PTE_ADDR;
                   bchild = (if b AND PTE_P \<noteq> 0 \<and> b AND PTE_PS = 0 then b AND PTE_ADDR else 0)
               in (case rec child bchild (L, s) of
                     None \<Rightarrow> None
                   | Some a \<Rightarrow>
                       (case tear_record child True a of
                          None \<Rightarrow> None
                        | Some (L', s') \<Rightarrow> Some (L', set_entry tab i 0 s'))))"

primrec tear_collect :: "nat \<Rightarrow> u64 \<Rightarrow> u64 \<Rightarrow> tear_list \<times> mem64 \<Rightarrow> (tear_list \<times> mem64) option" where
  "tear_collect 0 tab btab a =
     (if tab = btab then Some a else fold (tear_entry 0 (\<lambda>_ _ a. Some a) tab btab) [0..<512] (Some a))"
| "tear_collect (Suc l) tab btab a =
     (if tab = btab then Some a else fold (tear_entry (Suc l) (tear_collect l) tab btab) [0..<512] (Some a))"

text \<open>\<open>boot\<close> is the address of \<^verbatim>\<open>pml4_boot\<close>.\<close>

definition vmm_teardown_space :: "u64 \<Rightarrow> u64 \<Rightarrow> mem64 \<Rightarrow> mem64 option" where
  "vmm_teardown_space boot pml4 s =
     (if pml4 = 0 then Some s
      else case mem_lock_acquire s of
             None \<Rightarrow> None
           | Some s1 \<Rightarrow>
               (case tear_collect 3 pml4 boot (\<lparr>tl_data = [], tl_tabs = []\<rparr>, s1) of
                  None \<Rightarrow> None
                | Some a \<Rightarrow>
                    (case tear_record pml4 True a of
                       None \<Rightarrow> None
                     | Some (L, s2) \<Rightarrow>
                         (case tear_flush_free L (mem_lock_release s2) of
                            None \<Rightarrow> None
                          | Some (_, s3) \<Rightarrow> Some s3))))"

section \<open>Copy-on-write faults\<close>

text \<open>\<^verbatim>\<open>vmm_cow_resolve\<close>: 0 resolved, 1 spurious, -1 not ours.\<close>

definition vmm_cow_resolve :: "u64 \<Rightarrow> mem64 \<Rightarrow> (int \<times> mem64) option" where
  "vmm_cow_resolve va s0 =
     (case mem_lock_acquire s0 of None \<Rightarrow> None
      | Some s \<Rightarrow>
        let root = live_cr3 s AND PTE_ADDR; e = phys s root (pidx 39 va)
        in if e AND PTE_P = 0 \<or> e AND PTE_PS \<noteq> 0 then Some (-1, mem_lock_release s)
           else
             let e = phys s (e AND PTE_ADDR) (pidx 30 va)
             in if e AND PTE_P = 0 \<or> e AND PTE_PS \<noteq> 0 then Some (-1, mem_lock_release s)
                else
                  let e = phys s (e AND PTE_ADDR) (pidx 21 va)
                  in if e AND PTE_P = 0 \<or> e AND PTE_PS \<noteq> 0 then Some (-1, mem_lock_release s)
                     else
                       let pt = e AND PTE_ADDR; i = pidx 12 va; e = phys s pt i
                       in if e AND PTE_P = 0 \<or> e AND PTE_US = 0 then Some (-1, mem_lock_release s)
                          else if e AND PTE_COW = 0 then
                            (if e AND PTE_RW = 0 then Some (-1, mem_lock_release s)
                             else Some (1, mem_lock_release s))
                          else
                            let pa = e AND PTE_ADDR; fr = frame_of pa
                            in if fr < PMM_MAX_FRAMES \<and> frame_ref s fr = 1
                               then Some (0, mem_lock_release (set_entry pt i ((e OR PTE_RW) AND NOT PTE_COW) s))
                               else
                                 let (nf, s1) = pmm_alloc_inner s
                                 in if nf = 0 then Some (-1, mem_lock_release s1)
                                    else
                                      let s2 = s1\<lparr>phys := (phys s1)(nf := phys s1 pa)\<rparr>;
                                          s3 = set_entry pt i
                                                 (((nf OR PTE_P OR PTE_RW OR PTE_US) AND NOT PTE_COW) OR (e AND PTE_NX)) s2
                                      in (case frame_ref_put pa (mem_lock_release s3) of
                                            None \<Rightarrow> None
                                          | Some (_, s4) \<Rightarrow> Some (0, s4)))"

end
