(* ===== verification/Cons.thy ===== *)
theory Cons
  imports Win Vmm
begin

text \<open>
  The framebuffer console of \<^verbatim>\<open>src/k64/cons64.c\<close>: glyphs and shapes go to a backbuffer,
  \<^verbatim>\<open>cons_present\<close> copies the dirty rows to the display and composites windows and the mouse
  sprite onto them.  \<open>font c row\<close> is \<^verbatim>\<open>font8x16_data[c][row]\<close>.  Pixel indices are computed
  at the width the code uses: 32 bits in \<^verbatim>\<open>(py + row) * fb_stride + px + col\<close>, 64 bits where a
  row number is cast first.
\<close>

definition CONS_FG_DEF :: u32 where "CONS_FG_DEF = 0xBBBBBB"
definition CONS_BG_DEF :: u32 where "CONS_BG_DEF = 0"
definition CONS_BB_BYTES :: nat where "CONS_BB_BYTES = 4 * 1024 * 1024"
definition CONS_STRIP_BG :: u32 where "CONS_STRIP_BG = 0x80"
definition CONS_CURSOR_FG :: u32 where "CONS_CURSOR_FG = 0xFFFFFF"

section \<open>Drawing into the backbuffer\<close>

text \<open>The 16 by 8 loop nest of a character cell, stopping at the lower and right edge.\<close>

definition cell_put :: "u32 \<Rightarrow> u32 \<Rightarrow> (nat \<Rightarrow> nat \<Rightarrow> u32) \<Rightarrow> cons64 \<Rightarrow> cons64" where
  "cell_put px py v c =
     c\<lparr>cons_bb := fold (\<lambda>row. fold (\<lambda>col p.
           p(unat ((py + of_nat row) * fb_stride c + px + of_nat col) := v row col))
             (takeWhile (\<lambda>col. px + of_nat col < fb_w c) [0..<8]))
           (takeWhile (\<lambda>row. py + of_nat row < fb_h c) [0..<16]) (cons_bb c)\<rparr>"

definition cell_draw :: "(u8 \<Rightarrow> nat \<Rightarrow> u8) \<Rightarrow> u32 \<Rightarrow> u32 \<Rightarrow> u8 \<Rightarrow> u32 \<Rightarrow> u32 \<Rightarrow> cons64 \<Rightarrow> cons64" where
  "cell_draw font cx cy ch fg bg c =
     (let px = cx * 8; py = cy * 16
      in mark_dirty py (py + 16) (cell_put px py (glyph_px font ch fg bg) c))"

definition cursor_erase :: "cons64 \<Rightarrow> cons64" where
  "cursor_erase c =
     (if \<not> cur_shown c then c
      else
        let px = cur_dx c * 8; py = cur_dy c * 16
        in (mark_dirty py (py + 16) (cell_put px py (\<lambda>_ _. CONS_BG_DEF) c))\<lparr>cur_shown := False\<rparr>)"

definition cursor_draw :: "cons64 \<Rightarrow> cons64" where
  "cursor_draw c =
     (let px = cur_x c * 8; py = cur_y c * 16
      in (mark_dirty py (py + 16) (cell_put px py (\<lambda>_ _. fg_color c) c))
           \<lparr>cur_dx := cur_x c, cur_dy := cur_y c, cur_shown := True\<rparr>)"

text \<open>\<^verbatim>\<open>rep movsl\<close> and \<^verbatim>\<open>rep stosl\<close> on the backbuffer, by word index.\<close>

definition copy_u32 :: "nat \<Rightarrow> nat \<Rightarrow> nat \<Rightarrow> (nat \<Rightarrow> u32) \<Rightarrow> nat \<Rightarrow> u32" where
  "copy_u32 dst src n = fold (\<lambda>i p. p(dst + i := p (src + i))) [0..<n]"

definition fill_u32 :: "nat \<Rightarrow> u32 \<Rightarrow> nat \<Rightarrow> (nat \<Rightarrow> u32) \<Rightarrow> nat \<Rightarrow> u32" where
  "fill_u32 dst v n = fold (\<lambda>i p. p(dst + i := v)) [0..<n]"

definition scroll_up :: "cons64 \<Rightarrow> cons64" where
  "scroll_up c =
     (let text_h = nrows c * 16; st = unat (fb_stride c); w = unat (fb_w c);
          p = fold (\<lambda>y. copy_u32 (y * st) ((y + 16) * st) w) [0..<unat text_h - 16] (cons_bb c);
          p = fold (\<lambda>y. fill_u32 (y * st) CONS_BG_DEF w) [unat (text_h - 16)..<unat text_h] p
      in mark_dirty 0 text_h (c\<lparr>cons_bb := p\<rparr>))"

definition newline :: "cons64 \<Rightarrow> cons64" where
  "newline c =
     (let c = c\<lparr>cur_x := 0, cur_y := cur_y c + 1\<rparr>
      in if cur_y c \<ge> nrows c then scroll_up (c\<lparr>cur_y := nrows c - 1\<rparr>) else c)"

definition cons_set_fg :: "u32 \<Rightarrow> cons64 \<Rightarrow> cons64" where
  "cons_set_fg rgb c = c\<lparr>fg_color := rgb AND 0xFFFFFF\<rparr>"

definition cons_status_tick :: "u32 \<Rightarrow> cons64 \<Rightarrow> cons64" where
  "cons_status_tick t c = c\<lparr>status_want := t\<rparr>"

definition fill_rect :: "u32 \<Rightarrow> u32 \<Rightarrow> u32 \<Rightarrow> u32 \<Rightarrow> u32 \<Rightarrow> cons64 \<Rightarrow> cons64" where
  "fill_rect x y w h rgb c =
     (if x \<ge> fb_w c \<or> y \<ge> fb_h c then c
      else
        let x1 = (if x + w > fb_w c then fb_w c else x + w);
            y1 = (if y + h > fb_h c then fb_h c else y + h)
        in mark_dirty y y1 (c\<lparr>cons_bb := raster 0 (unat (fb_stride c)) [unat y..<unat y1] [unat x..<unat x1]
             (\<lambda>_ _. rgb) (cons_bb c)\<rparr>))"

definition status_redraw :: "(u8 \<Rightarrow> nat \<Rightarrow> u8) \<Rightarrow> cons64 \<Rightarrow> cons64" where
  "status_redraw font c =
     (let y0 = nrows c * 16;
          c = fill_rect 0 y0 (fb_w c) 16 CONS_STRIP_BG c;
          c = cell_draw font 0 (nrows c) (of_char (CHR ''G'')) 0xFFFFFF CONS_STRIP_BG c;
          c = cell_draw font 1 (nrows c) (of_char (CHR ''0'')) 0xFFFFFF CONS_STRIP_BG c;
          c = fill_rect 64 y0 64 16 0xFF0000 c;
          c = fill_rect 128 y0 64 16 0x00FF00 c;
          c = fill_rect 192 y0 64 16 0x0000FF c;
          prog = (status_want c mod 1000) * 384 div 1000
      in if prog \<noteq> 0 then fill_rect 288 y0 prog 16 0x00FF00 c else c)"

definition cons_pixel :: "u32 \<Rightarrow> u32 \<Rightarrow> u32 \<Rightarrow> cons64 \<Rightarrow> cons64" where
  "cons_pixel x y rgb c =
     (if \<not> live c then c
      else if x \<ge> fb_w c \<or> y \<ge> fb_h c then c
      else mark_dirty y (y + 1) (c\<lparr>cons_bb := (cons_bb c)(unat y * unat (fb_stride c) + unat x := rgb)\<rparr>))"

definition cons_fill :: "u32 \<Rightarrow> u32 \<Rightarrow> u32 \<Rightarrow> u32 \<Rightarrow> u32 \<Rightarrow> cons64 \<Rightarrow> cons64" where
  "cons_fill x y w h rgb c = (if \<not> live c then c else fill_rect x y w h rgb c)"

definition cons_blit :: "u32 \<Rightarrow> u32 \<Rightarrow> u32 \<Rightarrow> u32 \<Rightarrow> (nat \<Rightarrow> u32) option \<Rightarrow> cons64 \<Rightarrow> cons64" where
  "cons_blit x y w h px c =
     (case px of None \<Rightarrow> c
      | Some src \<Rightarrow>
          if \<not> live c then c
          else if x \<ge> fb_w c \<or> y \<ge> fb_h c then c
          else
            let x1 = (if x + w > fb_w c then fb_w c else x + w);
                y1 = (if y + h > fb_h c then fb_h c else y + h)
            in mark_dirty y y1 (c\<lparr>cons_bb := raster 0 (unat (fb_stride c)) [unat y..<unat y1] [unat x..<unat x1]
                 (\<lambda>yy xx. src ((yy - unat y) * unat w + (xx - unat x))) (cons_bb c)\<rparr>))"

definition cons_graphics :: "bool \<Rightarrow> cons64 \<Rightarrow> cons64" where
  "cons_graphics on c =
     (if on then c\<lparr>gfx_on := True\<rparr>
      else if \<not> gfx_on c then c
      else mark_dirty 0 (fb_h c) (c\<lparr>gfx_on := False\<rparr>))"

definition cursor_band :: "u32 \<Rightarrow> cons64 \<Rightarrow> cons64" where
  "cursor_band y c =
     (if y < fb_h c then
        let a = (if y > 16 then y - 16 else 0); b = y + 32; b = (if b > fb_h c then fb_h c else b)
        in mark_dirty a b c
      else c)"

definition cons_cursor_moved :: "u32 \<Rightarrow> u32 \<Rightarrow> u32 \<Rightarrow> u32 \<Rightarrow> cons64 \<Rightarrow> cons64" where
  "cons_cursor_moved ox oy nx ny c = cursor_band ny (cursor_band oy c)"

section \<open>Present\<close>

definition mouse_sprite :: "u16 list" where
  "mouse_sprite = [0x800, 0xC00, 0xE00, 0xF00, 0xF80, 0xFC0, 0xFE0, 0xFF0,
                   0xFF8, 0xFC0, 0xEC0, 0xC60, 0x060, 0x060, 0x040, 0x000]"

definition mouse_cursor_state :: "mouse64 \<Rightarrow> u32 \<times> u32 \<times> bool" where
  "mouse_cursor_state m = (mouse_x m, mouse_y m, mouse_live m)"

definition sprite_row :: "u32 \<Rightarrow> u32 \<Rightarrow> u32 \<Rightarrow> u32 \<Rightarrow> (nat \<Rightarrow> u32) \<Rightarrow> nat \<Rightarrow> u32" where
  "sprite_row w mx my y r =
     (if y \<ge> my \<and> y < my + 16 then
        fold (\<lambda>i r. if mouse_sprite ! unat (y - my) AND drop_bit i 0x800 \<noteq> 0 \<and> mx + of_nat i < w
                    then r(unat (mx + of_nat i) := CONS_CURSOR_FG) else r) [0..<12] r
      else r)"

definition present_row :: "winsys \<Rightarrow> u32 \<Rightarrow> u32 \<Rightarrow> cons64 \<Rightarrow> nat \<Rightarrow> nat \<Rightarrow> u32" where
  "present_row s mx my c y =
     sprite_row (fb_w c) mx my (of_nat y)
       (win_composite_scanline s (of_nat y) (fb_w c) (\<lambda>x. cons_bb c (y * unat (fb_stride c) + x)))"

definition cons_present :: "(u8 \<Rightarrow> nat \<Rightarrow> u8) \<Rightarrow> desk \<Rightarrow> desk" where
  "cons_present font d =
     (let c = con d
      in if \<not> live c \<or> gfx_on c then d
         else
           let c = (if status_want c \<noteq> status_drawn c
                    then (status_redraw font c)\<lparr>status_drawn := status_want c\<rparr> else c);
               (mx, my, mshow) = mouse_cursor_state (mou d);
               (mx, my) = (if mshow then (mx, my) else (0, fb_h c));
               y0 = dirty_y0 c; y1 = dirty_y1 c;
               c = c\<lparr>dirty_y0 := fb_h c, dirty_y1 := 0\<rparr>
           in if y0 \<ge> y1 \<or> y0 \<ge> fb_h c then d\<lparr>con := c\<rparr>
              else
                let y1 = (if y1 > fb_h c then fb_h c else y1)
                in d\<lparr>con := c\<lparr>fb_mem := raster 0 (unat (fb_stride c)) [unat y0..<unat y1] [0..<unat (fb_w c)]
                       (present_row (wsys d) mx my c) (fb_mem c)\<rparr>\<rparr>)"

section \<open>Text\<close>

definition upd_con :: "(cons64 \<Rightarrow> cons64) \<Rightarrow> desk \<Rightarrow> desk" where
  "upd_con f d = d\<lparr>con := f (con d)\<rparr>"

definition cons_clear :: "(u8 \<Rightarrow> nat \<Rightarrow> u8) \<Rightarrow> desk \<Rightarrow> desk" where
  "cons_clear font d =
     (if \<not> live (con d) then d
      else
        let c = con d;
            c = c\<lparr>cons_bb := fill_u32 0 CONS_BG_DEF (unat (fb_h c) * unat (fb_stride c)) (cons_bb c)\<rparr>;
            c = mark_dirty 0 (fb_h c) c;
            c = cursor_draw (c\<lparr>cur_shown := False, cur_x := 0, cur_y := 0\<rparr>)
        in cons_present font (d\<lparr>con := c\<rparr>))"

text \<open>One turn of the tab loop; \<^verbatim>\<open>next - cur_x\<close> is at most 8, so eight turns finish it.\<close>

definition tab_step :: "(u8 \<Rightarrow> nat \<Rightarrow> u8) \<Rightarrow> u32 \<Rightarrow> cons64 \<Rightarrow> cons64" where
  "tab_step font nxt c =
     (if cur_x c < nxt \<and> \<not> cur_x c \<ge> ncols c
      then (cell_draw font (cur_x c) (cur_y c) 32 (fg_color c) CONS_BG_DEF c)\<lparr>cur_x := cur_x c + 1\<rparr>
      else c)"

definition put_glyph :: "(u8 \<Rightarrow> nat \<Rightarrow> u8) \<Rightarrow> u8 \<Rightarrow> cons64 \<Rightarrow> cons64" where
  "put_glyph font ch c =
     (let c = (cell_draw font (cur_x c) (cur_y c) ch (fg_color c) CONS_BG_DEF c)\<lparr>cur_x := cur_x c + 1\<rparr>
      in if cur_x c \<ge> ncols c then newline c else c)"

definition cons_putc :: "(u8 \<Rightarrow> nat \<Rightarrow> u8) \<Rightarrow> u8 \<Rightarrow> desk \<Rightarrow> desk" where
  "cons_putc font ch d =
     (if \<not> live (con d) then d
      else if ch = 13 then upd_con (\<lambda>c. (cursor_erase c)\<lparr>cur_x := 0\<rparr>) d
      else if ch \<noteq> 10 \<and> ch \<noteq> 8 \<and> ch \<noteq> 9 \<and> ch < 32 then d
      else
        let c = cursor_erase (con d);
            c = (if ch = 10 then newline c
                 else if ch = 8 then
                   (if cur_x c > 0 then
                      let c = c\<lparr>cur_x := cur_x c - 1\<rparr>
                      in cell_draw font (cur_x c) (cur_y c) 32 (fg_color c) CONS_BG_DEF c
                    else if cur_y c > 0 then
                      let c = c\<lparr>cur_y := cur_y c - 1, cur_x := ncols c - 1\<rparr>
                      in cell_draw font (cur_x c) (cur_y c) 32 (fg_color c) CONS_BG_DEF c
                    else c)
                 else if ch = 9 then
                   let nxt = (cur_x c + 8) AND NOT 7;
                       c = (tab_step font nxt ^^ 8) c
                   in if cur_x c \<ge> ncols c then newline c else c
                 else put_glyph font ch c)
        in cons_present font (d\<lparr>con := cursor_draw c\<rparr>))"

text \<open>The body of the loop of \<^verbatim>\<open>cons_puts\<close>: its glyph loop does not mark rows dirty.\<close>

definition puts_char :: "(u8 \<Rightarrow> nat \<Rightarrow> u8) \<Rightarrow> u8 \<Rightarrow> cons64 \<Rightarrow> cons64" where
  "puts_char font ch c =
     (if ch = 10 then newline c
      else if ch = 13 then c\<lparr>cur_x := 0\<rparr>
      else if ch \<ge> 32 then
        let c = (cell_put (cur_x c * 8) (cur_y c * 16) (glyph_px font ch (fg_color c) CONS_BG_DEF) c)\<lparr>cur_x := cur_x c + 1\<rparr>
        in if cur_x c \<ge> ncols c then newline c else c
      else c)"

definition cons_puts :: "(u8 \<Rightarrow> nat \<Rightarrow> u8) \<Rightarrow> u8 list \<Rightarrow> desk \<Rightarrow> desk" where
  "cons_puts font cs d =
     (if \<not> live (con d) then d
      else cons_present font (d\<lparr>con := cursor_draw
             (fold (puts_char font) (takeWhile (\<lambda>ch. ch \<noteq> 0) cs) (cursor_erase (con d)))\<rparr>))"

definition cons_init :: "(u8 \<Rightarrow> nat \<Rightarrow> u8) \<Rightarrow> u64 \<Rightarrow> u32 \<Rightarrow> u32 \<Rightarrow> u32 \<Rightarrow> u32 \<Rightarrow> desk \<Rightarrow> bool \<times> desk" where
  "cons_init font addr pitch w h bpp d =
     (if addr = 0 \<or> bpp \<noteq> 32 \<or> w = 0 \<or> h = 0 \<or> w > 4096 \<or> h > 4096 then (False, d)
      else if pitch < w * 4 \<or> pitch > 16384 then (False, d)
      else if unat h * unat pitch > 64 * 1024 * 1024 then (False, d)
      else if unat h * unat pitch > CONS_BB_BYTES then (False, d)
      else if \<not> vmm_is_canonical addr then (False, d)
      else
        let c = (con d)\<lparr>fb_stride := pitch div 4, fb_w := w, fb_h := h, ncols := w div 8, nrows := h div 16\<rparr>
        in if ncols c < 1 \<or> nrows c < 2 then (False, d\<lparr>con := c\<rparr>)
           else
             let c = c\<lparr>nrows := nrows c - 1, fg_color := CONS_FG_DEF, live := True, status_drawn := 0xFFFFFFFF\<rparr>
             in (True, cons_clear font (d\<lparr>con := c\<rparr>)))"

end
