(* ===== verification/Fb.thy ===== *)
theory Fb
  imports Res Cons Vmm
begin

text \<open>
  Display ownership of \<^verbatim>\<open>src/k64/fb64.c\<close>: one task at a time maps the framebuffer at
  \<^verbatim>\<open>FB_USER_BASE\<close> and switches the console to graphics mode; unmapping, exit and exec give
  the screen back.  The state is the ownership record, the memory state and the desktop.  The mode
  switch happens under \<^verbatim>\<open>serial_lock\<close> after \<^verbatim>\<open>mem_lock\<close> was released.
\<close>

definition FB_USER_BASE :: u64 where "FB_USER_BASE = 0x4000000000"

text \<open>The owner and the geometry the boot loader reported.\<close>

record fbsys =
  fb_owner :: "task_id option"
  g_fb_addr :: u64
  g_fb_pitch :: u32
  g_fb_w :: u32
  g_fb_h :: u32
  g_fb_bpp :: u32

type_synonym scr = "fbsys \<times> mem64 \<times> desk"

definition fb_size :: "fbsys \<Rightarrow> u64" where
  "fb_size b = ucast (g_fb_h b) * ucast (g_fb_pitch b)"

definition fb_absent :: "fbsys \<Rightarrow> bool" where
  "fb_absent b \<longleftrightarrow> g_fb_addr b = 0 \<or> g_fb_w b = 0 \<or> g_fb_h b = 0"

record fbinfo =
  fi_addr :: u64
  fi_pitch :: u64
  fi_w :: u64
  fi_h :: u64
  fi_bpp :: u64
  fi_size :: u64
  fi_map_va :: u64

definition fb_info :: "(scr, fbinfo) opn" where
  "fb_info = (\<lambda>(b, m, d).
     if fb_absent b then (Err (-19), (b, m, d))
     else (Val \<lparr>fi_addr = g_fb_addr b, fi_pitch = ucast (g_fb_pitch b), fi_w = ucast (g_fb_w b), fi_h = ucast (g_fb_h b),
                fi_bpp = ucast (g_fb_bpp b), fi_size = fb_size b, fi_map_va = FB_USER_BASE\<rparr>, (b, m, d)))"

definition fb_va :: "nat \<Rightarrow> u64" where
  "fb_va i = FB_USER_BASE + of_nat i * 4096"

definition fb_unmap_one :: "nat \<Rightarrow> mem64 \<Rightarrow> mem64" where
  "fb_unmap_one i m = snd (vmm_unmap_page_inner (fb_va i) m)"

text \<open>The mapping loop from page \<open>i\<close> with \<open>n\<close> pages to go; a page that cannot be mapped undoes the
  pages before it, last first.\<close>

primrec fb_map_loop :: "u64 \<Rightarrow> u64 \<Rightarrow> nat \<Rightarrow> nat \<Rightarrow> mem64 \<Rightarrow> bool \<times> mem64" where
  "fb_map_loop fl pa 0 i m = (True, m)"
| "fb_map_loop fl pa (Suc n) i m =
     (let (r, m1) = vmm_map_page_inner (fb_va i) (pa + of_nat i * 4096) fl m
      in if r \<noteq> 0 then (False, fold fb_unmap_one (rev [0..<i]) m1)
         else fb_map_loop fl pa n (Suc i) m1)"

definition fb_npg :: "fbsys \<Rightarrow> nat" where
  "fb_npg b = unat ((fb_size b + 4095) div 4096)"

definition fb_flags :: "mem64 \<Rightarrow> u64" where
  "fb_flags m = VMM_RW OR VMM_US OR VMM_UC OR (if nx_on m then VMM_NX else 0)"

text \<open>The tables of the running task are the live ones; \<^verbatim>\<open>vmm_root\<close> is set to them and restored.\<close>

definition live_root :: "mem64 \<Rightarrow> u64" where
  "live_root m = live_cr3 m AND NOT 0xFFF"

definition fb_map_current :: "task_id option \<Rightarrow> (scr, u64) opn" where
  "fb_map_current self = (\<lambda>(b, m, d).
     case self of
       None \<Rightarrow> (Err (-22), (b, m, d))
     | Some t \<Rightarrow>
         if fb_absent b then (Err (-19), (b, m, d))
         else case mem_lock_acquire m of
                None \<Rightarrow> (Trap, (b, m, d))
              | Some m1 \<Rightarrow>
                  if fb_owner b \<noteq> None \<and> fb_owner b \<noteq> Some t then (Err (-16), (b, mem_lock_release m1, d))
                  else if fb_owner b = Some t then (Val FB_USER_BASE, (b, mem_lock_release m1, d))
                  else
                    let (ok, m2) = fb_map_loop (fb_flags m1) (g_fb_addr b AND NOT 0xFFF) (fb_npg b) 0 (m1\<lparr>vmm_root := live_root m1\<rparr>);
                        m3 = mem_lock_release (m2\<lparr>vmm_root := vmm_root m1\<rparr>)
                    in if \<not> ok then (Err (-12), (b, m3, d))
                       else (Val FB_USER_BASE, (b\<lparr>fb_owner := Some t\<rparr>, m3, d\<lparr>con := cons_graphics True (con d)\<rparr>)))"

text \<open>Text mode and its screen come back; the font is that of the console.\<close>

definition text_restore :: "(u8 \<Rightarrow> nat \<Rightarrow> u8) \<Rightarrow> desk \<Rightarrow> desk" where
  "text_restore font d = cons_present font (d\<lparr>con := cons_graphics False (con d)\<rparr>)"

definition fb_unmap_current :: "(u8 \<Rightarrow> nat \<Rightarrow> u8) \<Rightarrow> task_id option \<Rightarrow> (scr, unit) opn" where
  "fb_unmap_current font self = (\<lambda>(b, m, d).
     case self of
       None \<Rightarrow> (Err (-22), (b, m, d))
     | Some t \<Rightarrow>
         case mem_lock_acquire m of
           None \<Rightarrow> (Trap, (b, m, d))
         | Some m1 \<Rightarrow>
             if fb_owner b \<noteq> Some t then (Err (-22), (b, mem_lock_release m1, d))
             else
               let m2 = fold fb_unmap_one [0..<fb_npg b] (m1\<lparr>vmm_root := live_root m1\<rparr>);
                   m3 = mem_lock_release (m2\<lparr>vmm_root := vmm_root m1\<rparr>)
               in (Val (), (b\<lparr>fb_owner := None\<rparr>, m3, text_restore font d)))"

definition fb_owner_release :: "(u8 \<Rightarrow> nat \<Rightarrow> u8) \<Rightarrow> task_id option \<Rightarrow> (scr, unit) opn" where
  "fb_owner_release font t = (\<lambda>(b, m, d).
     case t of
       None \<Rightarrow> (Val (), (b, m, d))
     | Some t \<Rightarrow>
         case mem_lock_acquire m of
           None \<Rightarrow> (Trap, (b, m, d))
         | Some m1 \<Rightarrow>
             if fb_owner b = Some t then (Val (), (b\<lparr>fb_owner := None\<rparr>, mem_lock_release m1, text_restore font d))
             else (Val (), (b, mem_lock_release m1, d)))"

end
