(* ===== verification/Vmm_Walk.thy ===== *)
theory Vmm_Walk
  imports Vmm
begin

text \<open>
  Correctness of the paging operations of \<^verbatim>\<open>src/k64/mem64.c\<close>.  \<open>walk\<close> is the page-table
  walk of the processor down to a leaf; translation, the user pointer check and copy-on-write are
  related to it.  \<open>pt_tree\<close> is the invariant of an address space: the tables form a tree in used
  frames.  Mapping, unmapping and the copy-on-write resolver keep it and change the walk of exactly
  one page.
\<close>

section \<open>Bits of entries\<close>

lemma PTE_bits [mask_bits]:
  "bit PTE_P n \<longleftrightarrow> n = 0" "bit PTE_RW n \<longleftrightarrow> n = 1" "bit PTE_US n \<longleftrightarrow> n = 2"
  "bit PTE_PWT n \<longleftrightarrow> n = 3" "bit PTE_PCD n \<longleftrightarrow> n = 4" "bit PTE_PS n \<longleftrightarrow> n = 7"
  "bit PTE_COW n \<longleftrightarrow> n = 9" "bit PTE_NX n \<longleftrightarrow> n = 63"
proof -
  have c: "PTE_P = 2 ^ 0" "PTE_RW = 2 ^ 1" "PTE_US = 2 ^ 2" "PTE_PWT = 2 ^ 3" "PTE_PCD = 2 ^ 4"
    "PTE_PS = 2 ^ 7" "PTE_COW = 2 ^ 9" "PTE_NX = 2 ^ 63"
    by (simp_all add: PTE_P_def PTE_RW_def PTE_US_def PTE_PWT_def PTE_PCD_def PTE_PS_def PTE_COW_def PTE_NX_def)
  show "bit PTE_P n \<longleftrightarrow> n = 0" "bit PTE_RW n \<longleftrightarrow> n = 1" "bit PTE_US n \<longleftrightarrow> n = 2"
    "bit PTE_PWT n \<longleftrightarrow> n = 3" "bit PTE_PCD n \<longleftrightarrow> n = 4" "bit PTE_PS n \<longleftrightarrow> n = 7"
    "bit PTE_COW n \<longleftrightarrow> n = 9" "bit PTE_NX n \<longleftrightarrow> n = 63"
    unfolding c bit_exp_iff by auto
qed

lemma PTE_ADDR_bit [mask_bits]: "bit PTE_ADDR n \<longleftrightarrow> 12 \<le> n \<and> n < 52"
proof -
  have e: "PTE_ADDR = push_bit 12 (mask 40)" by (simp add: PTE_ADDR_def mask_eq_exp_minus_1 push_bit_eq_mult)
  show ?thesis unfolding e bit_push_bit_iff bit_mask_iff by auto
qed

lemma FFF_bit [mask_bits]: "bit (0xFFF :: u64) n \<longleftrightarrow> n < 12"
proof -
  have e: "(0xFFF :: u64) = mask 12" by (simp add: mask_eq_exp_minus_1)
  show ?thesis unfolding e bit_mask_iff by auto
qed

lemma and_one_bit_iff:
  assumes "\<And>n. bit c n \<longleftrightarrow> n = k" "k < LENGTH('a)"
  shows "(e::'a::len word) AND c = 0 \<longleftrightarrow> \<not> bit e k"
  using assms by (auto simp: word_and_eq_0_iff)

lemma PTE_tests [simp]:
  "e AND PTE_P = 0 \<longleftrightarrow> \<not> bit e 0" "e AND PTE_RW = 0 \<longleftrightarrow> \<not> bit e 1" "e AND PTE_US = 0 \<longleftrightarrow> \<not> bit e 2"
  "e AND PTE_PS = 0 \<longleftrightarrow> \<not> bit e 7" "e AND PTE_COW = 0 \<longleftrightarrow> \<not> bit e 9" "e AND PTE_NX = 0 \<longleftrightarrow> \<not> bit e 63"
  by (rule and_one_bit_iff; simp add: PTE_bits)+

lemma VMM_tests [simp]:
  "e AND VMM_RW = 0 \<longleftrightarrow> \<not> bit e 0" "e AND VMM_US = 0 \<longleftrightarrow> \<not> bit e 1"
  "e AND VMM_NX = 0 \<longleftrightarrow> \<not> bit e 2" "e AND VMM_UC = 0 \<longleftrightarrow> \<not> bit e 3"
proof -
  have c: "VMM_RW = 2 ^ 0" "VMM_US = 2 ^ 1" "VMM_NX = 2 ^ 2" "VMM_UC = 2 ^ 3"
    by (simp_all add: VMM_RW_def VMM_US_def VMM_NX_def VMM_UC_def)
  show "e AND VMM_RW = 0 \<longleftrightarrow> \<not> bit e 0" "e AND VMM_US = 0 \<longleftrightarrow> \<not> bit e 1"
    "e AND VMM_NX = 0 \<longleftrightarrow> \<not> bit e 2" "e AND VMM_UC = 0 \<longleftrightarrow> \<not> bit e 3"
    unfolding c by (simp_all only: word_and_single_bit)
qed

lemma page_aligned_iff: "pa AND 0xFFF = 0 \<longleftrightarrow> (\<forall>n < 12. \<not> bit (pa::u64) n)"
proof -
  have "n < 12 \<Longrightarrow> n < LENGTH(64)" for n :: nat by simp
  then show ?thesis unfolding word_and_eq_0_iff FFF_bit by blast
qed

lemma addr_of_leaf:
  "leaf_entry pa flags AND PTE_ADDR = pa AND PTE_ADDR"
  by (rule bit_word_eqI) (auto simp: leaf_entry_def Let_def bit_simps mask_bits)

lemma leaf_entry_bits:
  "bit (leaf_entry pa flags) 0" "bit (leaf_entry pa flags) 1 \<longleftrightarrow> bit flags 0"
  "bit (leaf_entry pa flags) 2 \<longleftrightarrow> bit flags 1" "bit (leaf_entry pa flags) 63 \<longleftrightarrow> bit flags 2"
  "\<not> bit (leaf_entry pa flags) 7" "\<not> bit (leaf_entry pa flags) 9"
  by (auto simp: leaf_entry_def Let_def bit_simps mask_bits)

lemma bit_nat_imp_le: "bit (f::nat) k \<Longrightarrow> 2 ^ k \<le> f"
  by (metis bit_iff_odd div_less even_zero linorder_not_le)

lemma frame_addr_bits:
  assumes "f < PMM_MAX_FRAMES" "bit (of_nat f * 4096 :: u64) n"
  shows "12 \<le> n \<and> n < 32"
proof -
  have e: "(of_nat f * 4096 :: u64) = push_bit 12 (of_nat f)" by (simp add: push_bit_eq_mult)
  have b: "12 \<le> n" "bit f (n - 12)" using assms(2) unfolding e by (auto simp: bit_simps)
  have "(2::nat) ^ (n - 12) < 2 ^ 20"
    using bit_nat_imp_le [OF b(2)] assms(1) by (simp add: PMM_MAX_FRAMES_def)
  then have "n - 12 < 20" by (rule power_less_imp_less_exp [rotated]) simp
  with b(1) show ?thesis by simp
qed

section \<open>The processor walk and the table tree\<close>

primrec walk :: "mem64 \<Rightarrow> nat \<Rightarrow> u64 \<Rightarrow> u64 \<Rightarrow> (nat \<times> u64) option" where
  "walk s 0 t va = (let e = phys s t (pidx 12 va) in if bit e 0 then Some (0, e) else None)"
| "walk s (Suc l) t va =
     (let e = phys s t (pidx (12 + 9 * Suc l) va)
      in if \<not> bit e 0 then None else if bit e 7 then Some (Suc l, e) else walk s l (e AND PTE_ADDR) va)"

lemmas walk3 = walk.simps [unfolded Let_def] numeral_3_eq_3 numeral_2_eq_2

lemma vmm_translate_walk:
  "vmm_translate_inner va s =
     (if vmm_is_canonical va
      then (case walk s 3 (live_cr3 s AND PTE_ADDR) va of
              None \<Rightarrow> 0 | Some (l, e) \<Rightarrow> (e AND PTE_ADDR) + (va AND mask (12 + 9 * l)))
      else 0)"
  by (simp add: vmm_translate_inner_def Let_def numeral_3_eq_3 mask_eq_exp_minus_1)

lemma user_page_ok_walk:
  "user_page_ok s p = (case walk s 3 (live_cr3 s AND PTE_ADDR) p of None \<Rightarrow> False | Some (l, e) \<Rightarrow> bit e 0 \<and> bit e 2)"
proof -
  have w: "e AND (PTE_P OR PTE_US) = PTE_P OR PTE_US \<longleftrightarrow> bit e 0 \<and> bit e 2" for e
    unfolding word_and_eq_self_iff by (auto simp: bit_simps mask_bits)
  show ?thesis by (simp add: user_page_ok_def Let_def numeral_3_eq_3 w)
qed

text \<open>The table reached from \<open>t\<close> by a path of indices; an address space is a tree of tables.\<close>

fun tab_at :: "mem64 \<Rightarrow> u64 \<Rightarrow> nat list \<Rightarrow> u64 option" where
  "tab_at s t [] = Some t"
| "tab_at s t (i # p) =
     (let e = phys s t i in if bit e 0 \<and> \<not> bit e 7 then tab_at s (e AND PTE_ADDR) p else None)"

definition pt_path :: "mem64 \<Rightarrow> u64 \<Rightarrow> nat list \<Rightarrow> u64 \<Rightarrow> bool" where
  "pt_path s root p t \<longleftrightarrow> length p \<le> 3 \<and> (\<forall>i \<in> set p. i < 512) \<and> tab_at s root p = Some t"

definition pt_tree :: "mem64 \<Rightarrow> u64 \<Rightarrow> bool" where
  "pt_tree s root \<longleftrightarrow>
     (\<forall>p t. pt_path s root p t \<longrightarrow>
        t \<noteq> 0 \<and> (\<exists>f < PMM_MAX_FRAMES. t = of_nat f * 4096 \<and> frame_used s f)) \<and>
     (\<forall>p q t. pt_path s root p t \<and> pt_path s root q t \<longrightarrow> p = q)"

lemma tab_at_append: "tab_at s t (p @ q) = (case tab_at s t p of None \<Rightarrow> None | Some u \<Rightarrow> tab_at s u q)"
  by (induction s t p rule: tab_at.induct) (simp_all add: Let_def)

lemma phys_set_entry [simp]:
  "phys (set_entry t i e s) u j = (if u = t \<and> j = i then e else phys s u j)"
  by (simp add: set_entry_def)

lemma set_entry_fields [simp]:
  "pmm_bits (set_entry t i e s) = pmm_bits s" "frame_ref (set_entry t i e s) = frame_ref s"
  "live_cr3 (set_entry t i e s) = live_cr3 s" "vmm_root (set_entry t i e s) = vmm_root s"
  "nx_on (set_entry t i e s) = nx_on s" "pmm_free_n (set_entry t i e s) = pmm_free_n s"
  "mem_locked (set_entry t i e s) = mem_locked s" "frame_used (set_entry t i e s) = frame_used s"
  "free_set (set_entry t i e s) = free_set s" "pmm_inv (set_entry t i e s) = pmm_inv s"
  "g_fb (set_entry t i e s) = g_fb s" "g_fbsize (set_entry t i e s) = g_fbsize s"
  by (simp_all add: set_entry_def frame_used_def free_set_def pmm_inv_def fun_eq_iff)

lemma pidx_bound [simp]: "pidx sh va < 512"
proof -
  have "unat (drop_bit sh va AND 511) \<le> unat (511 :: u64)"
    by (rule word_and_le1 [THEN word_le_nat_alt [THEN iffD1]])
  then show ?thesis by (simp add: pidx_def)
qed

lemma walk_zero: "(\<And>j. phys s t j = 0) \<Longrightarrow> walk s l t va = None"
  by (cases l) (simp_all add: Let_def)

text \<open>Walks only depend on the entries of the tables they can reach.\<close>

lemma walk_cong:
  assumes "\<And>p t j. pt_path s root p t \<Longrightarrow> j < 512 \<Longrightarrow> phys s' t j = phys s t j"
    and "pt_path s root q t" "length q + l = 3"
  shows "walk s' l t va = walk s l t va"
  using assms(2,3)
proof (induction l arbitrary: q t)
  case 0
  then show ?case using assms(1) [OF 0(1)] by (simp add: Let_def)
next
  case (Suc l)
  let ?e = "phys s t (pidx (12 + 9 * Suc l) va)"
  have e: "phys s' t (pidx (12 + 9 * Suc l) va) = ?e" using assms(1) [OF Suc.prems(1)] by simp
  show ?case
  proof (cases "bit ?e 0 \<and> \<not> bit ?e 7")
    case True
    then have "pt_path s root (q @ [pidx (12 + 9 * Suc l) va]) (?e AND PTE_ADDR)"
      using Suc.prems by (auto simp: pt_path_def tab_at_append Let_def)
    from Suc.IH [OF this] Suc.prems True e show ?thesis by (simp add: Let_def)
  next
    case False
    with e show ?thesis by (auto simp: Let_def)
  qed
qed

lemma pt_path_root [simp]: "pt_path s root [] root"
  by (simp add: pt_path_def)

lemma pt_path_snoc:
  "pt_path s root p t \<Longrightarrow> length p < 3 \<Longrightarrow> i < 512 \<Longrightarrow> bit (phys s t i) 0 \<Longrightarrow> \<not> bit (phys s t i) 7 \<Longrightarrow>
   pt_path s root (p @ [i]) (phys s t i AND PTE_ADDR)"
  by (auto simp: pt_path_def tab_at_append Let_def)

lemma pt_path_snocD:
  "pt_path s root (p @ [i]) u \<Longrightarrow>
   \<exists>t. pt_path s root p t \<and> length p < 3 \<and> i < 512 \<and> bit (phys s t i) 0 \<and> \<not> bit (phys s t i) 7 \<and> u = phys s t i AND PTE_ADDR"
  by (auto simp: pt_path_def tab_at_append Let_def split: option.splits if_splits)

section \<open>Hanging a table into the tree\<close>

definition inter_ok :: "u64 \<Rightarrow> bool" where
  "inter_ok f \<longleftrightarrow> bit f 0 \<and> \<not> bit f 7 \<and> (\<forall>n \<ge> 12. \<not> bit f n)"

lemma entry_or_inter:
  assumes "f < PMM_MAX_FRAMES" "inter_ok g"
  shows "(of_nat f * 4096 OR g) AND PTE_ADDR = of_nat f * 4096"
    and "bit (of_nat f * 4096 OR g) 0" and "\<not> bit (of_nat f * 4096 OR g) 7"
proof -
  show "(of_nat f * 4096 OR g) AND PTE_ADDR = of_nat f * 4096"
    using assms frame_addr_bits [OF assms(1)]
    by (intro bit_word_eqI) (fastforce simp: bit_simps mask_bits inter_ok_def)
qed (use assms frame_addr_bits [OF assms(1), of 7] in \<open>auto simp: bit_simps inter_ok_def\<close>)

lemma pt_tree_usedD:
  "pt_tree s root \<Longrightarrow> pt_path s root p t \<Longrightarrow> t \<noteq> 0 \<and> (\<exists>f < PMM_MAX_FRAMES. t = of_nat f * 4096 \<and> frame_used s f)"
  by (auto simp: pt_tree_def)

lemma pt_tree_inj: "pt_tree s root \<Longrightarrow> pt_path s root p t \<Longrightarrow> pt_path s root q t \<Longrightarrow> p = q"
  unfolding pt_tree_def by blast

lemma pt_tree_not_free:
  "pt_tree s root \<Longrightarrow> pt_path s root p t \<Longrightarrow> f \<in> free_set s \<Longrightarrow> t \<noteq> of_nat f * 4096"
  using pt_tree_usedD frame_of_alloc free_set_bound by (metis (mono_tags, lifting) free_set_def mem_Collect_eq)

text \<open>A new, zeroed table is hung into an absent entry.\<close>

definition hangs :: "mem64 \<Rightarrow> mem64 \<Rightarrow> u64 \<Rightarrow> nat list \<Rightarrow> u64 \<Rightarrow> nat \<Rightarrow> nat \<Rightarrow> u64 \<Rightarrow> bool" where
  "hangs s s' root p t i f g \<longleftrightarrow>
     pmm_inv s \<and> pt_tree s root \<and> pt_path s root p t \<and> length p < 3 \<and> i < 512 \<and> \<not> bit (phys s t i) 0 \<and>
     f \<in> free_set s \<and> inter_ok g \<and> s' = set_entry t i (of_nat f * 4096 OR g) (take_frame f s)"

lemma hang_phys:
  assumes "hangs s s' root p t i f g"
  shows "phys s' u j = (if u = t \<and> j = i then of_nat f * 4096 OR g
                        else if u = of_nat f * 4096 then 0 else phys s u j)"
    and "t \<noteq> of_nat f * 4096"
proof -
  show ne: "t \<noteq> of_nat f * 4096"
    using assms pt_tree_not_free [of s root p t f] by (auto simp: hangs_def)
  then show "phys s' u j = (if u = t \<and> j = i then of_nat f * 4096 OR g
                        else if u = of_nat f * 4096 then 0 else phys s u j)"
    using assms by (simp add: hangs_def take_frame_def)
qed

lemma hang_phys_old:
  "hangs s s' root p t i f g \<Longrightarrow> pt_path s root q u \<Longrightarrow> \<not> (u = t \<and> j = i) \<Longrightarrow> phys s' u j = phys s u j"
  using pt_tree_not_free [of s root q u f] by (auto simp: hang_phys(1) hangs_def take_frame_def)

lemma hang_entry:
  assumes "hangs s s' root p t i f g"
  shows "(of_nat f * 4096 OR g) AND PTE_ADDR = of_nat f * 4096"
    and "bit (of_nat f * 4096 OR g) 0" and "\<not> bit (of_nat f * 4096 OR g) 7"
  using assms entry_or_inter [OF free_set_bound] by (auto simp: hangs_def)

lemma hang_path_old:
  assumes h: "hangs s s' root p t i f g"
  shows "pt_path s root q u \<Longrightarrow> pt_path s' root q u"
proof (induction q arbitrary: u rule: rev_induct)
  case Nil
  then show ?case by (simp add: pt_path_def)
next
  case (snoc j q)
  from pt_path_snocD [OF snoc.prems] obtain w where
    w: "pt_path s root q w" "length q < 3" "j < 512" "bit (phys s w j) 0" "\<not> bit (phys s w j) 7"
       "u = phys s w j AND PTE_ADDR" by blast
  have "phys s' w j = phys s w j"
    by (rule hang_phys_old [OF h w(1)]) (use h w(4) in \<open>auto simp: hangs_def\<close>)
  with pt_path_snoc [OF snoc.IH [OF w(1)] w(2,3)] w show ?case by simp
qed

lemma hang_path_new:
  assumes h: "hangs s s' root p t i f g"
  shows "pt_path s' root (p @ [i]) (of_nat f * 4096)"
  using pt_path_snoc [OF hang_path_old [OF h], of p t i] h
  by (simp add: hang_phys(1) [OF h] hang_entry [OF h]) (simp add: hangs_def)

lemma hang_path_cases:
  assumes h: "hangs s s' root p t i f g"
  shows "pt_path s' root q u \<Longrightarrow> pt_path s root q u \<or> q = p @ [i] \<and> u = of_nat f * 4096"
proof (induction q arbitrary: u rule: rev_induct)
  case Nil
  then show ?case by (simp add: pt_path_def)
next
  case (snoc j q)
  from pt_path_snocD [OF snoc.prems] obtain w where
    w: "pt_path s' root q w" "length q < 3" "j < 512" "bit (phys s' w j) 0" "\<not> bit (phys s' w j) 7"
       "u = phys s' w j AND PTE_ADDR" by blast
  have "w \<noteq> of_nat f * 4096" using w(4) hang_phys(2) [OF h] by (auto simp: hang_phys(1) [OF h])
  with snoc.IH [OF w(1)] have old: "pt_path s root q w" by blast
  show ?case
  proof (cases "w = t \<and> j = i")
    case True
    with pt_tree_inj [of s root q w p] old h have "q = p" by (simp add: hangs_def)
    with True w show ?thesis by (simp add: hang_phys(1) [OF h] hang_entry [OF h])
  next
    case False
    with hang_phys_old [OF h old] pt_path_snoc [OF old w(2,3)] w show ?thesis by simp
  qed
qed

lemma hang_tree:
  assumes h: "hangs s s' root p t i f g"
  shows "pt_tree s' root"
proof -
  let ?nf = "of_nat f * 4096 :: u64"
  have f: "f \<in> free_set s" "f < PMM_MAX_FRAMES" "0 < f" and tree: "pt_tree s root"
    using h by (auto simp: hangs_def intro: free_set_bound pmm_inv_free_pos)
  have used: "frame_used s' k \<longleftrightarrow> k = f \<or> frame_used s k" for k using h by (auto simp: hangs_def)
  have "t' \<noteq> 0 \<and> (\<exists>k < PMM_MAX_FRAMES. t' = of_nat k * 4096 \<and> frame_used s' k)"
    if "pt_path s' root q t'" for q t'
    using hang_path_cases [OF h that]
  proof
    assume "pt_path s root q t'"
    from pt_tree_usedD [OF tree this] show ?thesis by (auto simp: used)
  qed (use f in \<open>auto simp: used frame_addr_eq_0_iff\<close>)
  moreover have "q = r" if "pt_path s' root q t'" "pt_path s' root r t'" for q r t'
    using hang_path_cases [OF h that(1)] hang_path_cases [OF h that(2)]
    by (auto dest: pt_tree_inj [OF tree] pt_tree_not_free [OF tree _ f(1)])
  ultimately show ?thesis unfolding pt_tree_def by blast
qed

lemma hang_walk:
  assumes h: "hangs s s' root p t i f g" and "pt_path s root q u" "length q + l = 3"
  shows "walk s' l u va = walk s l u va"
  using assms(2,3)
proof (induction l arbitrary: q u)
  case 0
  have "u \<noteq> t" using 0 h pt_tree_inj [of s root q u p] by (auto simp: hangs_def)
  then show ?case using hang_phys_old [OF h 0(1)] by (simp add: Let_def)
next
  case (Suc l)
  let ?j = "pidx (12 + 9 * Suc l) va"
  show ?case
  proof (cases "u = t \<and> ?j = i")
    case True
    have "walk s' l (of_nat f * 4096) va = None"
      using hang_phys(2) [OF h] by (intro walk_zero) (auto simp: hang_phys(1) [OF h])
    moreover have "\<not> bit (phys s t i) 0" using h by (simp add: hangs_def)
    ultimately show ?thesis using True by (simp add: Let_def hang_phys(1) [OF h] hang_entry [OF h])
  next
    case False
    then have e: "phys s' u ?j = phys s u ?j" using hang_phys_old [OF h Suc.prems(1)] by blast
    have "walk s' l (phys s u ?j AND PTE_ADDR) va = walk s l (phys s u ?j AND PTE_ADDR) va"
      if "bit (phys s u ?j) 0" "\<not> bit (phys s u ?j) 7"
      using Suc.IH [OF pt_path_snoc [OF Suc.prems(1) _ _ that]] Suc.prems(2) by simp
    with e show ?thesis by (simp add: Let_def)
  qed
qed

text \<open>Widening an entry to user access keeps the tree and every walk.\<close>

lemma widen_tab_at: "tab_at (set_entry t i (phys s t i OR PTE_US) s) u q = tab_at s u q"
proof (induction q arbitrary: u)
  case (Cons j q)
  have "(e OR PTE_US) AND PTE_ADDR = e AND PTE_ADDR" for e
    by (rule bit_word_eqI) (auto simp: bit_simps mask_bits)
  with Cons show ?case by (auto simp: Let_def bit_simps mask_bits)
qed simp

lemma widen_path [simp]: "pt_path (set_entry t i (phys s t i OR PTE_US) s) = pt_path s"
  by (simp add: fun_eq_iff pt_path_def widen_tab_at)

lemma widen_tree [simp]: "pt_tree (set_entry t i (phys s t i OR PTE_US) s) root = pt_tree s root"
  by (simp add: pt_tree_def)

lemma widen_walk:
  assumes tree: "pt_tree s root" "pt_path s root p t" "length p < 3" and np: "\<not> bit (phys s t i) 7"
    and "pt_path s root q u" "length q + l = 3"
  shows "walk (set_entry t i (phys s t i OR PTE_US) s) l u va = walk s l u va"
  using assms(5,6)
proof (induction l arbitrary: q u)
  case 0
  have "u \<noteq> t" using 0 tree pt_tree_inj [of s root q u p] by auto
  then show ?case by (simp add: Let_def)
next
  case (Suc l)
  have a: "(e OR PTE_US) AND PTE_ADDR = e AND PTE_ADDR" for e
    by (rule bit_word_eqI) (auto simp: bit_simps mask_bits)
  have "walk (set_entry t i (phys s t i OR PTE_US) s) l (phys s u j AND PTE_ADDR) va = walk s l (phys s u j AND PTE_ADDR) va"
    if "bit (phys s u j) 0" "\<not> bit (phys s u j) 7" "j < 512" for j
    using Suc.IH [OF pt_path_snoc [OF Suc.prems(1) _ that(3,1,2)]] Suc.prems(2) by simp
  with np show ?case by (auto simp: Let_def bit_simps mask_bits a)
qed

section \<open>What a table operation keeps\<close>

lemma take_frame_fields [simp]:
  "live_cr3 (take_frame f s) = live_cr3 s" "vmm_root (take_frame f s) = vmm_root s"
  "nx_on (take_frame f s) = nx_on s" "mem_locked (take_frame f s) = mem_locked s"
  "g_fb (take_frame f s) = g_fb s" "g_fbsize (take_frame f s) = g_fbsize s"
  by (simp_all add: take_frame_def)

text \<open>What a table operation keeps: the allocator's and the tree invariant, all translations, and
  the registers.\<close>

definition space_kept :: "u64 \<Rightarrow> mem64 \<Rightarrow> mem64 \<Rightarrow> bool" where
  "space_kept root s s' \<longleftrightarrow>
     pmm_inv s' \<and> pt_tree s' root \<and> (\<forall>va. walk s' 3 root va = walk s 3 root va) \<and>
     live_cr3 s' = live_cr3 s \<and> vmm_root s' = vmm_root s \<and> nx_on s' = nx_on s \<and> mem_locked s' = mem_locked s"

lemma space_kept_refl: "pmm_inv s \<Longrightarrow> pt_tree s root \<Longrightarrow> space_kept root s s"
  by (simp add: space_kept_def)

lemma space_kept_trans: "space_kept root s t \<Longrightarrow> space_kept root t u \<Longrightarrow> space_kept root s u"
  by (simp add: space_kept_def)

lemma next_tab_kept:
  assumes inv: "pmm_inv s" and tree: "pt_tree s root" and path: "pt_path s root p t"
    and len: "length p < 3" and i: "i < 512" and g: "inter_ok g" and nt: "next_tab t i g s = (u, s')"
  shows "space_kept root s s' \<and> (u \<noteq> 0 \<longrightarrow> pt_path s' root (p @ [i]) u)"
proof -
  let ?e = "phys s t i"
  consider (large) "bit ?e 0" "bit ?e 7" | (present) "bit ?e 0" "\<not> bit ?e 7" "\<not> (bit g 2 \<and> \<not> bit ?e 2)"
    | (widen) "bit ?e 0" "\<not> bit ?e 7" "bit g 2" "\<not> bit ?e 2"
    | (oom) "\<not> bit ?e 0" "free_set s = {}" | (fresh) "\<not> bit ?e 0" "free_set s \<noteq> {}" by blast
  then show ?thesis
  proof cases
    case large
    then show ?thesis using nt inv tree by (auto simp: next_tab_def space_kept_refl)
  next
    case present
    then have "u = ?e AND PTE_ADDR" "s' = s" using nt by (auto simp: next_tab_def Let_def split: if_splits)
    with present inv tree pt_path_snoc [OF path len i] show ?thesis by (simp add: space_kept_refl)
  next
    case widen
    then have s': "u = (?e OR PTE_US) AND PTE_ADDR" "s' = set_entry t i (?e OR PTE_US) s"
      using nt by (auto simp: next_tab_def Let_def split: if_splits)
    have a: "(?e OR PTE_US) AND PTE_ADDR = ?e AND PTE_ADDR"
      by (rule bit_word_eqI) (auto simp: bit_simps mask_bits)
    have "walk s' 3 root va = walk s 3 root va" for va
      unfolding s' using widen_walk [OF tree path len widen(2), of "[]" root] by simp
    moreover have "pt_path s' root (p @ [i]) u"
      using pt_path_snoc [OF path len i widen(1,2)] by (simp add: s' a)
    ultimately show ?thesis using inv tree by (simp add: space_kept_def s')
  next
    case oom
    then have "u = 0" "s' = s" using nt by (auto simp: next_tab_def pmm_alloc_inner_eq)
    with inv tree show ?thesis by (simp add: space_kept_refl)
  next
    case fresh
    let ?f = "Min (free_set s)"
    have f: "?f \<in> free_set s" "of_nat ?f * 4096 \<noteq> (0::u64)"
      using Min_free_set [OF fresh(2)] inv free_set_bound pmm_inv_free_pos frame_addr_eq_0_iff by auto
    then have s': "u = of_nat ?f * 4096" "s' = set_entry t i (of_nat ?f * 4096 OR g) (take_frame ?f s)"
      using nt fresh by (auto simp: next_tab_def pmm_alloc_inner_eq split: if_splits)
    have h: "hangs s s' root p t i ?f g"
      using inv tree path len i fresh f g s' by (simp add: hangs_def)
    show ?thesis
      using hang_tree [OF h] hang_path_new [OF h] hang_walk [OF h, of "[]" root 3] pmm_inv_take [OF inv f(1)]
      by (simp add: space_kept_def s')
  qed
qed

section \<open>Pages, paths and leaf writes\<close>

definition vpath :: "u64 \<Rightarrow> nat list" where
  "vpath va = [pidx 39 va, pidx 30 va, pidx 21 va]"

lemma pidx_eq_bit:
  assumes "pidx sh va = pidx sh va'" "sh \<le> n" "n < sh + 9"
  shows "bit va n = bit va' n"
proof -
  have e: "(511 :: u64) = mask 9" by (simp add: mask_eq_exp_minus_1)
  have "drop_bit sh va AND 511 = drop_bit sh va' AND 511"
    using assms(1) unfolding pidx_def by (metis word_unat_eq_iff)
  then have "bit (drop_bit sh va AND 511) (n - sh) = bit (drop_bit sh va' AND 511) (n - sh)" by simp
  moreover have "n - sh < 9" "sh + (n - sh) = n" using assms(2,3) by arith+
  ultimately show ?thesis unfolding e by (simp add: bit_simps)
qed

lemma bit_0xFFFF: "bit (0xFFFF :: u64) n \<longleftrightarrow> n < 16"
proof -
  have e: "(0xFFFF :: u64) = mask 16" by (simp add: mask_eq_exp_minus_1)
  show ?thesis unfolding e bit_mask_iff by auto
qed

lemma canonical_iff: "vmm_is_canonical va \<longleftrightarrow> (\<forall>n. 48 \<le> n \<and> n < 64 \<longrightarrow> bit va n = bit va 47)"
proof -
  have one: "drop_bit 47 va AND 1 \<noteq> 0 \<longleftrightarrow> bit va 47"
    using word_and_single_bit [of "drop_bit 47 va" 0] by (simp add: bit_drop_bit_eq)
  have hi: "drop_bit 48 va = 0xFFFF \<longleftrightarrow> (\<forall>n. 48 \<le> n \<and> n < 64 \<longrightarrow> bit va n)"
  proof
    assume "drop_bit 48 va = 0xFFFF"
    then have "bit (drop_bit 48 va) m = (m < 16)" for m by (simp only: bit_0xFFFF)
    then have "bit va (48 + m)" if "m < 16" for m using that by (simp add: bit_drop_bit_eq)
    then show "\<forall>n. 48 \<le> n \<and> n < 64 \<longrightarrow> bit va n"
    proof (intro allI impI)
      fix n :: nat assume b: "\<And>m. m < 16 \<Longrightarrow> bit va (48 + m)" and n: "48 \<le> n \<and> n < 64"
      have "n - 48 < 16" "48 + (n - 48) = n" using n by arith+
      with b [of "n - 48"] show "bit va n" by simp
    qed
  next
    assume a: "\<forall>n. 48 \<le> n \<and> n < 64 \<longrightarrow> bit va n"
    show "drop_bit 48 va = 0xFFFF"
    proof (rule bit_word_eqI)
      fix n :: nat assume "n < LENGTH(64)"
      have "bit va (48 + n) \<longleftrightarrow> n < 16"
        using a bit_imp_le_length [of va "48 + n"] by auto
      then show "bit (drop_bit 48 va) n = bit (0xFFFF :: u64) n" unfolding bit_0xFFFF by (simp add: bit_drop_bit_eq)
    qed
  qed
  have lo: "drop_bit 48 va = 0 \<longleftrightarrow> (\<forall>n. 48 \<le> n \<and> n < 64 \<longrightarrow> \<not> bit va n)"
  proof
    assume "drop_bit 48 va = 0"
    then have "\<not> bit (drop_bit 48 va) m" for m by simp
    then have "\<not> bit va (48 + m)" for m by (simp add: bit_drop_bit_eq)
    then show "\<forall>n. 48 \<le> n \<and> n < 64 \<longrightarrow> \<not> bit va n" by (metis le_add_diff_inverse)
  next
    assume a: "\<forall>n. 48 \<le> n \<and> n < 64 \<longrightarrow> \<not> bit va n"
    show "drop_bit 48 va = 0"
    proof (rule bit_word_eqI)
      fix n :: nat assume "n < LENGTH(64)"
      have "\<not> bit va (48 + n)" using a bit_imp_le_length [of va "48 + n"] by auto
      then show "bit (drop_bit 48 va) n = bit (0 :: u64) n" by (simp add: bit_drop_bit_eq)
    qed
  qed
  show ?thesis unfolding vmm_is_canonical_def Let_def using one hi lo by auto
qed

lemma drop12_bit: "drop_bit 12 (va::u64) = drop_bit 12 va' \<longleftrightarrow> (\<forall>n \<ge> 12. bit va n = bit va' n)"
proof
  assume "drop_bit 12 va = drop_bit 12 va'"
  then have "bit va (12 + m) = bit va' (12 + m)" for m by (metis bit_drop_bit_eq comp_apply)
  then show "\<forall>n \<ge> 12. bit va n = bit va' n" by (metis le_add_diff_inverse)
qed (auto intro!: bit_word_eqI simp: bit_drop_bit_eq)

lemma canonical_bits:
  assumes "vmm_is_canonical va" "vmm_is_canonical va'"
    and "\<And>n. 12 \<le> n \<Longrightarrow> n < 48 \<Longrightarrow> bit va n = bit va' n"
  shows "\<forall>n \<ge> 12. bit va n = bit va' n"
proof (intro allI impI)
  fix n :: nat assume n: "12 \<le> n"
  have "bit va 47 = bit va' 47" by (rule assms(3)) auto
  then have "bit va n = bit va' n" if "48 \<le> n" "n < 64"
    using assms(1,2) that unfolding canonical_iff by blast
  moreover have "\<not> bit va n" "\<not> bit va' n" if "64 \<le> n" using that by (auto dest: bit_imp_le_length)
  ultimately show "bit va n = bit va' n" using assms(3) [OF n] by linarith
qed

lemma same_page_iff:
  assumes "vmm_is_canonical va" "vmm_is_canonical va'"
  shows "vpath va = vpath va' \<and> pidx 12 va = pidx 12 va' \<longleftrightarrow> drop_bit 12 va = drop_bit 12 va'"
proof
  assume a: "vpath va = vpath va' \<and> pidx 12 va = pidx 12 va'"
  have "bit va n = bit va' n" if "12 \<le> n" "n < 48" for n
  proof -
    from a have p: "pidx 12 va = pidx 12 va'" "pidx 21 va = pidx 21 va'" "pidx 30 va = pidx 30 va'"
      "pidx 39 va = pidx 39 va'" by (auto simp: vpath_def)
    from that consider "n < 12 + 9" | "21 \<le> n" "n < 21 + 9" | "30 \<le> n" "n < 30 + 9" | "39 \<le> n" "n < 39 + 9"
      by linarith
    then show ?thesis
      by cases (use pidx_eq_bit [OF p(1)] pidx_eq_bit [OF p(2)] pidx_eq_bit [OF p(3)] pidx_eq_bit [OF p(4)] that in blast)+
  qed
  then have "\<forall>n \<ge> 12. bit va n = bit va' n"
    using canonical_bits [OF assms] by blast
  then show "drop_bit 12 va = drop_bit 12 va'" by (simp add: drop12_bit)
next
  assume "drop_bit 12 va = drop_bit 12 va'"
  then have "drop_bit m (drop_bit 12 va) = drop_bit m (drop_bit 12 va')" for m by simp
  then have "drop_bit (12 + m) va = drop_bit (12 + m) va'" for m by (simp add: drop_bit_drop_bit add.commute)
  from this [of 0] this [of 9] this [of 18] this [of 27]
  show "vpath va = vpath va' \<and> pidx 12 va = pidx 12 va'" by (simp add: vpath_def pidx_def)
qed

lemma canonical_page:
  "drop_bit 12 va = drop_bit 12 va' \<Longrightarrow> vmm_is_canonical va = vmm_is_canonical va'"
  unfolding drop12_bit canonical_iff by auto

lemma pt_path_vpath:
  assumes "pt_path s root (vpath va) t"
  shows "walk s 3 root va = walk s 0 t va"
proof -
  from assms obtain "bit (phys s root (pidx 39 va)) 0" "\<not> bit (phys s root (pidx 39 va)) 7"
    and r: "tab_at s (phys s root (pidx 39 va) AND PTE_ADDR) [pidx 30 va, pidx 21 va] = Some t"
    by (auto simp: pt_path_def vpath_def Let_def split: if_splits)
  with r show ?thesis by (simp add: numeral_3_eq_3 Let_def split: if_splits)
qed

text \<open>Writing a leaf slot.\<close>

lemma leaf_write_entry:
  assumes "pt_tree s root" "pt_path s root p t" "length p = 3" "pt_path s root q u" "length q < 3"
  shows "phys (set_entry t j e s) u k = phys s u k"
  using assms pt_tree_inj [of s root p t q] by auto

lemma leaf_write_path:
  assumes "pt_tree s root" "pt_path s root p t" "length p = 3"
  shows "pt_path (set_entry t j e s) root q u = pt_path s root q u"
proof (induction q arbitrary: u rule: rev_induct)
  case Nil
  then show ?case by (simp add: pt_path_def)
next
  case (snoc k q)
  note w = leaf_write_entry [OF assms, of q _ j e k]
  show ?case
  proof
    assume "pt_path (set_entry t j e s) root (q @ [k]) u"
    from pt_path_snocD [OF this] show "pt_path s root (q @ [k]) u"
      using w snoc.IH pt_path_snoc [of s root q _ k] by metis
  next
    assume "pt_path s root (q @ [k]) u"
    from pt_path_snocD [OF this] show "pt_path (set_entry t j e s) root (q @ [k]) u"
      using w snoc.IH pt_path_snoc [of "set_entry t j e s" root q _ k] by metis
  qed
qed

lemma leaf_write_tree:
  assumes "pt_tree s root" "pt_path s root p t" "length p = 3"
  shows "pt_tree (set_entry t j e s) root"
  using assms(1) unfolding pt_tree_def by (simp add: leaf_write_path [OF assms])

lemma leaf_write_walk_other:
  assumes "pt_tree s root" "pt_path s root p t" "length p = 3" "\<not> (vpath va = p \<and> pidx 12 va = j)"
    and "pt_path s root q u" "length q + l = 3" "q = take (length q) (vpath va)"
  shows "walk (set_entry t j e s) l u va = walk s l u va"
  using assms(5-7)
proof (induction l arbitrary: q u)
  case 0
  then have "q = vpath va" by (simp add: vpath_def)
  then have "\<not> (u = t \<and> pidx 12 va = j)" using assms(4) pt_tree_inj [OF assms(1) 0(1)] assms(2) by auto
  then show ?case by (auto simp: Let_def)
next
  case (Suc l)
  let ?j = "pidx (12 + 9 * Suc l) va"
  have e: "phys (set_entry t j e s) u ?j = phys s u ?j"
    using leaf_write_entry [OF assms(1-3) Suc.prems(1)] Suc.prems(2) by simp
  have "q @ [?j] = take (length (q @ [?j])) (vpath va)"
  proof -
    consider "l = 0" "length q = 2" | "l = 1" "length q = 1" | "l = 2" "length q = 0" using Suc.prems(2) by linarith
    then show ?thesis using Suc.prems(3) by cases (auto simp: vpath_def)
  qed
  then have "walk (set_entry t j e s) l (phys s u ?j AND PTE_ADDR) va = walk s l (phys s u ?j AND PTE_ADDR) va"
    if "bit (phys s u ?j) 0" "\<not> bit (phys s u ?j) 7"
    using Suc.IH [OF pt_path_snoc [OF Suc.prems(1) _ _ that]] Suc.prems(2) by (simp add: vpath_def)
  with e show ?case by (simp add: Let_def)
qed

lemma leaf_write_walk:
  assumes "pt_tree s root" "pt_path s root p t" "length p = 3"
  shows "walk (set_entry t j e s) 3 root va =
     (if vpath va = p \<and> pidx 12 va = j then (if bit e 0 then Some (0, e) else None) else walk s 3 root va)"
proof (cases "vpath va = p \<and> pidx 12 va = j")
  case True
  then have "pt_path (set_entry t j e s) root (vpath va) t" using assms by (simp add: leaf_write_path)
  with True show ?thesis by (simp add: pt_path_vpath Let_def)
next
  case False
  with leaf_write_walk_other [OF assms False, of "[]" root 3] show ?thesis by auto
qed

section \<open>Mapping\<close>

lemma inter_ok_map: "inter_ok (PTE_P OR PTE_RW OR (if b then PTE_US else 0))"
  by (auto simp: inter_ok_def bit_simps mask_bits)

lemma map_page_cases:
  assumes inv: "pmm_inv s" and tree: "pt_tree s (vmm_root s)" and m: "vmm_map_page_inner va pa flags s = (r, s')"
  shows "(r = -1 \<and> space_kept (vmm_root s) s s') \<or>
         (\<exists>s3 pt. r = 0 \<and> vmm_is_canonical va \<and> space_kept (vmm_root s) s s3 \<and> pt_path s3 (vmm_root s) (vpath va) pt \<and>
            \<not> bit (phys s3 pt (pidx 12 va)) 0 \<and> s' = set_entry pt (pidx 12 va) (leaf_entry pa flags) s3)"
proof -
  let ?root = "vmm_root s"
  let ?g = "PTE_P OR PTE_RW OR (if flags AND VMM_US \<noteq> 0 then PTE_US else 0)"
  have g: "inter_ok ?g" by (rule inter_ok_map)
  show ?thesis
  proof (cases "\<not> vmm_is_canonical va \<or> va AND 0xFFF \<noteq> 0 \<or> pa AND 0xFFF \<noteq> 0 \<or> (flags AND VMM_NX \<noteq> 0 \<and> \<not> nx_on s)")
    case True
    then have "r = -1" "s' = s" using m by (auto simp: vmm_map_page_inner_def split: if_splits)
    with inv tree show ?thesis by (simp add: space_kept_refl)
  next
    case False
    obtain t1 s1 where n1: "next_tab ?root (pidx 39 va) ?g s = (t1, s1)" by fastforce
    obtain t2 s2 where n2: "next_tab t1 (pidx 30 va) ?g s1 = (t2, s2)" by fastforce
    obtain t3 s3 where n3: "next_tab t2 (pidx 21 va) ?g s2 = (t3, s3)" by fastforce
    have k1: "space_kept ?root s s1" "t1 \<noteq> 0 \<Longrightarrow> pt_path s1 ?root [pidx 39 va] t1"
      using next_tab_kept [OF inv tree pt_path_root _ _ g n1] by auto
    have k2: "space_kept ?root s1 s2 \<and> (t2 \<noteq> 0 \<longrightarrow> pt_path s2 ?root [pidx 39 va, pidx 30 va] t2)" if "t1 \<noteq> 0"
      using next_tab_kept [OF _ _ k1(2) [OF that] _ _ g n2] k1(1) by (auto simp: space_kept_def)
    have k3: "space_kept ?root s2 s3 \<and> (t3 \<noteq> 0 \<longrightarrow> pt_path s3 ?root (vpath va) t3)" if "t1 \<noteq> 0" "t2 \<noteq> 0"
      using next_tab_kept [of s2 ?root "[pidx 39 va, pidx 30 va]" t2, OF _ _ _ _ _ g n3] k2 [OF that(1)] that(2)
      by (auto simp: space_kept_def vpath_def)
    show ?thesis
    proof (cases "t1 = 0 \<or> t2 = 0 \<or> t3 = 0 \<or> bit (phys s3 t3 (pidx 12 va)) 0")
      case True
      then have "r = -1 \<and> (t1 = 0 \<and> s' = s1 \<or> t1 \<noteq> 0 \<and> t2 = 0 \<and> s' = s2 \<or> t1 \<noteq> 0 \<and> t2 \<noteq> 0 \<and> s' = s3)"
        using m False n1 n2 n3 by (auto simp: vmm_map_page_inner_def Let_def split: if_splits)
      then show ?thesis using k1(1) k2 k3 space_kept_trans by metis
    next
      case t: False
      then have "r = 0" "s' = set_entry t3 (pidx 12 va) (leaf_entry pa flags) s3"
        using m False n1 n2 n3 by (auto simp: vmm_map_page_inner_def Let_def split: if_splits)
      moreover have "space_kept ?root s s3" using k1(1) k2 k3 t space_kept_trans by metis
      ultimately show ?thesis using t False k3 by auto
    qed
  qed
qed

lemma translate_kept: "space_kept (live_cr3 s AND PTE_ADDR) s s' \<Longrightarrow> vmm_translate_inner va s' = vmm_translate_inner va s"
  by (simp add: vmm_translate_walk space_kept_def)

lemma mask12: "va AND mask 12 = va AND (0xFFF :: u64)"
  by (simp add: mask_eq_exp_minus_1)

text \<open>C5.  A successful \<^verbatim>\<open>__vmm_map_page\<close> makes exactly one page translate to the
  requested frame: every address of the page of \<open>va\<close> translates to the same offset in the frame of
  \<open>pa\<close>, every other address translates as before, and the allocator's invariant and the tree of
  tables are kept.\<close>

theorem vmm_map_translate:
  assumes "pmm_inv s" and "pt_tree s (vmm_root s)" and "live_cr3 s AND PTE_ADDR = vmm_root s"
    and "vmm_map_page_inner va pa flags s = (0, s')"
  shows "(\<forall>va'. drop_bit 12 va' = drop_bit 12 va \<longrightarrow>
            vmm_translate_inner va' s' = (pa AND PTE_ADDR) + (va' AND 0xFFF)) \<and>
         (\<forall>va'. drop_bit 12 va' \<noteq> drop_bit 12 va \<longrightarrow> vmm_translate_inner va' s' = vmm_translate_inner va' s) \<and>
         pmm_inv s' \<and> pt_tree s' (vmm_root s')"
proof -
  let ?root = "vmm_root s"
  from map_page_cases [OF assms(1,2,4)] obtain s3 pt where
    c: "vmm_is_canonical va" and k: "space_kept ?root s s3" and p: "pt_path s3 ?root (vpath va) pt"
    and s': "s' = set_entry pt (pidx 12 va) (leaf_entry pa flags) s3" by auto
  have tree: "pt_tree s3 ?root" and regs: "vmm_root s3 = ?root" "live_cr3 s3 = live_cr3 s"
    using k by (auto simp: space_kept_def)
  have w: "walk s' 3 ?root va' = (if vpath va' = vpath va \<and> pidx 12 va' = pidx 12 va then Some (0, leaf_entry pa flags)
             else walk s 3 ?root va')" for va'
    using leaf_write_walk [OF tree p, of "pidx 12 va" "leaf_entry pa flags" va'] k
    by (simp add: s' vpath_def leaf_entry_bits space_kept_def)
  have "vmm_translate_inner va' s' = (pa AND PTE_ADDR) + (va' AND 0xFFF)" if "drop_bit 12 va' = drop_bit 12 va" for va'
  proof -
    have "vmm_is_canonical va'" using canonical_page [OF that] c by simp
    with that same_page_iff [of va' va] c show ?thesis
      by (simp add: vmm_translate_walk s' regs assms(3) w [unfolded s'] addr_of_leaf mask12)
  qed
  moreover have "vmm_translate_inner va' s' = vmm_translate_inner va' s" if "drop_bit 12 va' \<noteq> drop_bit 12 va" for va'
    using that same_page_iff [of va' va] c by (auto simp: vmm_translate_walk s' regs assms(3) w [unfolded s'])
  moreover have "pt_tree s' ?root" unfolding s' by (rule leaf_write_tree [OF tree p]) (simp add: vpath_def)
  moreover have "pmm_inv s'" "vmm_root s' = ?root" using k by (simp_all add: s' space_kept_def)
  ultimately show ?thesis by simp
qed

text \<open>A failing \<^verbatim>\<open>__vmm_map_page\<close> returns -1 and leaves every translation as it
  was, on every failure branch (non-canonical or unaligned addresses, NX without support, a large
  page in the way, out of frames, page already mapped).\<close>

theorem vmm_map_fail_keeps:
  assumes "pmm_inv s" and "pt_tree s (vmm_root s)" and "live_cr3 s AND PTE_ADDR = vmm_root s"
    and "vmm_map_page_inner va pa flags s = (r, s')" and "r \<noteq> 0"
  shows "r = -1 \<and> (\<forall>va'. vmm_translate_inner va' s' = vmm_translate_inner va' s) \<and> pmm_inv s' \<and> pt_tree s' (vmm_root s')"
proof -
  from map_page_cases [OF assms(1,2,4)] assms(5) have "r = -1" "space_kept (vmm_root s) s s'" by auto
  with assms(3) translate_kept [of s s'] show ?thesis by (simp add: space_kept_def)
qed

section \<open>Unmapping and the user pointer check\<close>

lemma unmap_page_cases:
  "vmm_unmap_page_inner va s =
     (case tab_at s (vmm_root s) (vpath va) of
        None \<Rightarrow> (-1, s)
      | Some pt \<Rightarrow>
          if vmm_is_canonical va \<and> va AND 0xFFF = 0 \<and> bit (phys s pt (pidx 12 va)) 0
          then (0, set_entry pt (pidx 12 va) 0 s) else (-1, s))"
  by (auto simp: vmm_unmap_page_inner_def vpath_def Let_def)

lemma pt_path_vpath_iff: "pt_path s root (vpath va) pt \<longleftrightarrow> tab_at s root (vpath va) = Some pt"
  by (auto simp: pt_path_def vpath_def)

text \<open>\<^verbatim>\<open>vmm_unmap_page\<close> either removes exactly the page of \<open>va\<close> (it translates to 0
  afterwards, everything else translates as before) or returns -1 and changes nothing.\<close>

theorem vmm_unmap_removes:
  assumes "pt_tree s (vmm_root s)" and "live_cr3 s AND PTE_ADDR = vmm_root s"
    and "vmm_unmap_page_inner va s = (r, s')"
  shows "(r = 0 \<longrightarrow> (\<forall>va'. vmm_translate_inner va' s' =
             (if drop_bit 12 va' = drop_bit 12 va then 0 else vmm_translate_inner va' s))) \<and>
         (r \<noteq> 0 \<longrightarrow> r = -1 \<and> s' = s) \<and> pt_tree s' (vmm_root s')"
proof (cases "r = 0")
  case True
  then obtain pt where p: "pt_path s (vmm_root s) (vpath va) pt" and c: "vmm_is_canonical va"
    and s': "s' = set_entry pt (pidx 12 va) 0 s"
    using assms(3) by (auto simp: unmap_page_cases pt_path_vpath_iff split: option.splits if_splits)
  have l: "length (vpath va) = 3" by (simp add: vpath_def)
  have w: "walk s' 3 (vmm_root s) va' = (if vpath va' = vpath va \<and> pidx 12 va' = pidx 12 va then None
             else walk s 3 (vmm_root s) va')" for va'
    using leaf_write_walk [OF assms(1) p l, of "pidx 12 va" 0 va'] by (simp add: s')
  have "vmm_translate_inner va' s' =
      (if drop_bit 12 va' = drop_bit 12 va then 0 else vmm_translate_inner va' s)" for va'
    using same_page_iff [of va' va] canonical_page [of va' va] c
    by (auto simp: vmm_translate_walk s' assms(2) w [unfolded s'])
  with True leaf_write_tree [OF assms(1) p l] show ?thesis by (simp add: s')
next
  case False
  with assms show ?thesis by (auto simp: unmap_page_cases split: option.splits if_splits)
qed

text \<open>Mapping a page and unmapping it again succeeds and restores the translation of
  every address.\<close>

theorem vmm_map_unmap_roundtrip:
  assumes "pmm_inv s" and "pt_tree s (vmm_root s)" and "live_cr3 s AND PTE_ADDR = vmm_root s"
    and "vmm_map_page_inner va pa flags s = (0, s1)"
  shows "\<exists>s2. vmm_unmap_page_inner va s1 = (0, s2) \<and>
              (\<forall>va'. vmm_translate_inner va' s2 = vmm_translate_inner va' s) \<and> pt_tree s2 (vmm_root s2)"
proof -
  let ?root = "vmm_root s"
  from map_page_cases [OF assms(1,2,4)] obtain s3 pt where
    c: "vmm_is_canonical va" and k: "space_kept ?root s s3" and p: "pt_path s3 ?root (vpath va) pt"
    and z: "\<not> bit (phys s3 pt (pidx 12 va)) 0"
    and s1: "s1 = set_entry pt (pidx 12 va) (leaf_entry pa flags) s3" by auto
  have al: "va AND 0xFFF = 0"
    using assms(4) by (auto simp: vmm_map_page_inner_def split: if_splits)
  have l: "length (vpath va) = 3" by (simp add: vpath_def)
  have tree: "pt_tree s3 ?root" and regs: "vmm_root s3 = ?root" "live_cr3 s3 = live_cr3 s"
    and ws: "walk s3 3 ?root va' = walk s 3 ?root va'" for va'
    using k by (auto simp: space_kept_def)
  have "pt_path s1 ?root (vpath va) pt" using p leaf_write_path [OF tree p l] by (simp add: s1)
  then have u: "vmm_unmap_page_inner va s1 = (0, set_entry pt (pidx 12 va) 0 s1)"
    using c al by (simp add: unmap_page_cases pt_path_vpath_iff s1 regs leaf_entry_bits)
  have s2: "set_entry pt (pidx 12 va) 0 s1 = set_entry pt (pidx 12 va) 0 s3"
    by (simp add: s1 set_entry_def)
  have zero: "walk s 3 ?root va' = None" if "vpath va' = vpath va" "pidx 12 va' = pidx 12 va" for va'
  proof -
    have "walk s3 3 ?root va' = walk s3 0 pt va'" using pt_path_vpath [of s3 ?root va' pt] p that by simp
    then show ?thesis using z that by (simp add: ws)
  qed
  have "walk (set_entry pt (pidx 12 va) 0 s3) 3 ?root va' = walk s 3 ?root va'" for va'
    using leaf_write_walk [OF tree p l, of "pidx 12 va" 0 va'] zero [of va'] by (simp add: ws)
  then show ?thesis unfolding u s2
    using leaf_write_tree [OF tree p l] by (simp add: vmm_translate_walk regs assms(3))
qed

lemma canonical_unat:
  "vmm_is_canonical va \<longleftrightarrow> unat va < 2 ^ 47 \<or> 2 ^ 64 - 2 ^ 47 \<le> unat va"
proof -
  let ?q = "unat va div 2 ^ 47"
  have one: "drop_bit 47 va AND 1 \<noteq> 0 \<longleftrightarrow> bit va 47"
    using word_and_single_bit [of "drop_bit 47 va" 0] by (simp add: bit_drop_bit_eq)
  have b: "bit va 47 \<longleftrightarrow> odd ?q" 
  proof -
    have "bit (unat va) 47 = bit va 47" by (simp add: bit_unsigned_iff)
    then show ?thesis by (simp add: bit_iff_odd)
  qed
  have q: "?q < 2 ^ 17" using unat_u64 [of va] by simp
  have h: "unat (drop_bit 48 va) = ?q div 2" 
  proof -
    have "unat (drop_bit 48 va) = unat va div (2 ^ 47 * 2)" by (simp only: unat_drop_bit_eq) (simp add: drop_bit_eq_div)
    then show ?thesis by (simp only: div_mult2_eq)
  qed
  have e: "drop_bit 48 va = 0xFFFF \<longleftrightarrow> ?q div 2 = 0xFFFF" "drop_bit 48 va = 0 \<longleftrightarrow> ?q div 2 = 0"
    unfolding word_unat_eq_iff h by simp_all
  have "vmm_is_canonical va \<longleftrightarrow> (if odd ?q then ?q div 2 = 0xFFFF else ?q div 2 = 0)"
    unfolding vmm_is_canonical_def Let_def one b e ..
  also have "\<dots> \<longleftrightarrow> ?q = 0 \<or> ?q = 0x1FFFF"
  proof -
    have "(if odd q then q div 2 = 0xFFFF else q div 2 = 0) \<longleftrightarrow> q = 0 \<or> q = 0x1FFFF" for q :: nat by presburger
    then show ?thesis .
  qed
  also have "\<dots> \<longleftrightarrow> unat va < 2 ^ 47 \<or> 2 ^ 64 - 2 ^ 47 \<le> unat va" using unat_u64 [of va] by auto
  finally show ?thesis .
qed

lemma page_base_unat: "unat ((a::u64) AND NOT 0xFFF) = 4096 * (unat a div 4096)"
proof -
  have "a AND NOT 0xFFF = push_bit 12 (drop_bit 12 a)"
  proof (rule bit_word_eqI)
    fix n :: nat assume "n < LENGTH(64)"
    show "bit (a AND NOT 0xFFF) n = bit (push_bit 12 (drop_bit 12 a)) n"
      unfolding bit_and_iff bit_not_iff FFF_bit bit_push_bit_iff bit_drop_bit_eq using \<open>n < LENGTH(64)\<close> by auto
  qed
  then have "unat (a AND NOT 0xFFF) = unat (push_bit 12 (drop_bit 12 a))" by simp
  also have "\<dots> = (4096 * (unat a div 4096)) mod 2 ^ 64"
    by (simp add: unat_word_ariths unat_drop_bit_eq drop_bit_eq_div push_bit_eq_mult mult.commute mod_mult_right_eq)
  also have "\<dots> = 4096 * (unat a div 4096)" using unat_u64 [of a] by (intro mod_less) (simp; linarith)
  finally show ?thesis .
qed

lemma drop12_unat: "drop_bit 12 a = drop_bit 12 (b::u64) \<longleftrightarrow> unat a div 4096 = unat b div 4096"
  by (simp add: word_unat_eq_iff unat_drop_bit_eq) (simp add: drop_bit_eq_div)

lemma walk_page: "drop_bit 12 va = drop_bit 12 va' \<Longrightarrow> walk s l t va = walk s l t va'"
proof (induction l arbitrary: t)
  case 0
  then show ?case by (simp add: pidx_def)
next
  case (Suc l)
  have "drop_bit (12 + 9 * Suc l) va = drop_bit (9 * Suc l) (drop_bit 12 va)"
    "drop_bit (12 + 9 * Suc l) va' = drop_bit (9 * Suc l) (drop_bit 12 va')"
    by (simp_all add: add.commute)
  with Suc show ?case by (simp add: pidx_def Let_def)
qed

lemma user_pages_ok_iff:
  "user_pages_ok s p n \<longleftrightarrow> (\<forall>i < n. user_page_ok s (p + of_nat i * 4096))"
proof (induction n arbitrary: p)
  case (Suc n)
  have "(\<forall>i < Suc n. user_page_ok s (p + of_nat i * 4096)) \<longleftrightarrow>
        user_page_ok s p \<and> (\<forall>i < n. user_page_ok s (p + 4096 + of_nat i * 4096))"
    by (simp add: less_Suc_eq_0_disj algebra_simps all_conj_distrib imp_conjL) (auto simp: algebra_simps)
  with Suc show ?case by simp
qed simp

lemma user_ok_bytes:
  assumes "vmm_user_ok va len s" and "k < len"
  shows "vmm_is_canonical (va + k) \<and>
         (\<exists>l e. walk s 3 (live_cr3 s AND PTE_ADDR) (va + k) = Some (l, e) \<and> bit e 0 \<and> bit e 2)"
proof -
  define a n where "a = unat va" and "n = unat len"
  define st en where "st = va AND NOT 0xFFF" and "en = (va + len + 0xFFF) AND NOT 0xFFF"
  have ok: "len \<noteq> 0" "\<not> len > 0x100000" "vmm_is_canonical va" "\<not> en < st" "vmm_is_canonical (en - 1)"
      "user_pages_ok s st (unat (en - st) div 4096)"
    using assms(1) by (auto simp: vmm_user_ok_def Let_def st_def en_def split: if_splits)
  have n: "0 < n" "n \<le> 0x100000"
    using ok(1,2) by (auto simp: n_def word_less_nat_alt unat_gt_0)
  have a: "a < 2 ^ 64" unfolding a_def by (rule unat_u64)
  have ust: "unat st = 4096 * (a div 4096)" unfolding st_def page_base_unat a_def ..
  have sum: "unat (va + len + 0xFFF) = (a + n + 4095) mod 2 ^ 64"
    by (simp add: unat_word_ariths a_def n_def mod_simps)
  have nowrap: "a + n + 4095 < 2 ^ 64"
  proof (rule ccontr)
    assume "\<not> a + n + 4095 < 2 ^ 64"
    then have "(a + n + 4095) mod 2 ^ 64 = a + n + 4095 - 2 ^ 64"
      using a n by (subst mod_if) simp
    then have "unat en \<le> n + 4095" using a unfolding en_def page_base_unat sum by simp
    moreover have "unat st > n + 4095" using \<open>\<not> a + n + 4095 < 2 ^ 64\<close> n unfolding ust by simp
    ultimately show False using ok(4) by (simp add: word_less_nat_alt)
  qed
  have uen: "unat en = 4096 * ((a + n + 4095) div 4096)"
    unfolding en_def page_base_unat sum using nowrap by simp
  have kn: "unat k < n" using assms(2) by (simp add: n_def word_less_nat_alt)
  have uk: "unat (va + k) = a + unat k"
    using kn nowrap by (simp add: unat_word_ariths a_def)
  have "unat (en - 1) = unat en - 1"
    using uen n by (intro unat_minus_one) auto
  then have "a < 2 ^ 47 \<or> 2 ^ 64 - 2 ^ 47 \<le> a" "unat en - 1 < 2 ^ 47 \<or> 2 ^ 64 - 2 ^ 47 \<le> unat en - 1"
    using ok(3,5) by (simp_all add: canonical_unat a_def)
  moreover have "a + n \<le> unat en" "unat en \<le> a + n + 4095" unfolding uen by linarith+
  ultimately have c: "vmm_is_canonical (va + k)"
    unfolding canonical_unat uk using kn n by auto
  define i where "i = (a + unat k) div 4096 - a div 4096"
  have i: "(a + unat k) div 4096 = a div 4096 + i" by (simp add: i_def div_le_mono)
  have cnt: "unat (en - st) div 4096 = (a + n + 4095) div 4096 - a div 4096"
  proof -
    have "st \<le> en" using ok(4) by simp
    then have "unat (en - st) = unat en - unat st" by (rule unat_sub)
    then show ?thesis unfolding uen ust by (simp flip: diff_mult_distrib2)
  qed
  have "(a + unat k) div 4096 < (a + n + 4095) div 4096" using kn by simp
  then have "i < unat (en - st) div 4096" unfolding cnt i_def by simp
  with ok(6) have "user_page_ok s (st + of_nat i * 4096)" by (simp add: user_pages_ok_iff)
  moreover have pg: "drop_bit 12 (st + of_nat i * 4096) = drop_bit 12 (va + k)"
  proof -
    have "st = of_nat (4096 * (a div 4096))" unfolding ust [symmetric] by simp
    then have "unat (st + of_nat i * 4096) = unat (of_nat (4096 * (a div 4096) + i * 4096) :: u64)" by simp
    also have "\<dots> = 4096 * (a div 4096 + i)"
    proof -
      have "4096 * (a div 4096) + i * 4096 = 4096 * ((a + unat k) div 4096)" unfolding i by simp
      also have "\<dots> < 2 ^ 64" using kn nowrap by simp
      finally have "4096 * (a div 4096) + i * 4096 < 2 ^ LENGTH(64)" by simp
      then have "unat (of_nat (4096 * (a div 4096) + i * 4096) :: u64) = 4096 * (a div 4096) + i * 4096"
        by (simp only: unat_of_nat take_bit_eq_mod mod_less)
      then show ?thesis by simp
    qed
    finally show ?thesis by (simp add: drop12_unat uk i)
  qed
  ultimately show ?thesis
    using c by (auto simp: user_page_ok_walk walk_page [OF pg] split: option.splits)
qed

text \<open>C6.  A range that \<^verbatim>\<open>vmm_user_ok\<close> accepts is safe byte by byte: each address of
  \<open>[va, va + len)\<close> is canonical and the walk of the live address space ends in a present leaf with
  the user bit, also when \<open>va + len\<close> would wrap around.\<close>

theorem vmm_user_ok_sound:
  assumes "vmm_user_ok va len s" and "k < len"
  shows "vmm_is_canonical (va + k) \<and>
         (\<exists>l e. walk s 3 (live_cr3 s AND PTE_ADDR) (va + k) = Some (l, e) \<and> bit e 0 \<and> bit e 2)"
  using assms by (rule user_ok_bytes)

section \<open>Copy-on-write and teardown\<close>

lemma mem_lock_release_fields [simp]:
  "phys (mem_lock_release s) = phys s" "frame_ref (mem_lock_release s) = frame_ref s"
  "pmm_bits (mem_lock_release s) = pmm_bits s" "pmm_free_n (mem_lock_release s) = pmm_free_n s"
  "live_cr3 (mem_lock_release s) = live_cr3 s" "vmm_root (mem_lock_release s) = vmm_root s"
  "\<not> mem_locked (mem_lock_release s)" "nx_on (mem_lock_release s) = nx_on s"
  by (simp_all add: mem_lock_release_def)

lemma mem_lock_acquire_fields:
  "mem_lock_acquire s = (if mem_locked s then None else Some (s\<lparr>mem_locked := True\<rparr>))"
  by (simp add: mem_lock_acquire_def)

lemma walk_phys_cong: "phys s' = phys s \<Longrightarrow> walk s' l t va = walk s l t va"
  by (induction l arbitrary: t) (simp_all add: Let_def)

lemma tab_at_phys_cong: "phys s' = phys s \<Longrightarrow> tab_at s' t p = tab_at s t p"
  by (induction p arbitrary: t) (simp_all add: Let_def)

lemma pt_path_phys_cong: "phys s' = phys s \<Longrightarrow> pt_path s' = pt_path s"
  by (intro ext) (simp add: pt_path_def tab_at_phys_cong [of s' s])

lemma pt_tree_cong: "phys s' = phys s \<Longrightarrow> (\<And>f. frame_used s f \<Longrightarrow> frame_used s' f) \<Longrightarrow> pt_tree s root \<Longrightarrow> pt_tree s' root"
  unfolding pt_tree_def by (auto simp: pt_path_phys_cong [of s' s]) blast+

text \<open>A page that holds no table can be rewritten without changing paths or walks.\<close>

lemma data_write_path:
  assumes "\<And>p t j. pt_path s root p t \<Longrightarrow> phys s' t j = phys s t j"
  shows "pt_path s' root q u = pt_path s root q u"
proof (induction q arbitrary: u rule: rev_induct)
  case Nil
  then show ?case by (simp add: pt_path_def)
next
  case (snoc k q)
  show ?case
  proof
    assume "pt_path s' root (q @ [k]) u"
    from pt_path_snocD [OF this] obtain t where "pt_path s' root q t" and r: "length q < 3" "k < 512"
      "bit (phys s' t k) 0" "\<not> bit (phys s' t k) 7" "u = phys s' t k AND PTE_ADDR" by blast
    then have p: "pt_path s root q t" using snoc.IH by simp
    from pt_path_snoc [OF p r(1,2)] assms [OF p, of k] r show "pt_path s root (q @ [k]) u" by simp
  next
    assume "pt_path s root (q @ [k]) u"
    from pt_path_snocD [OF this] obtain t where p: "pt_path s root q t" and r: "length q < 3" "k < 512"
      "bit (phys s t k) 0" "\<not> bit (phys s t k) 7" "u = phys s t k AND PTE_ADDR" by blast
    then have "pt_path s' root q t" using snoc.IH by simp
    from pt_path_snoc [OF this r(1,2)] assms [OF p, of k] r show "pt_path s' root (q @ [k]) u" by simp
  qed
qed

lemma data_write_tree:
  assumes "pt_tree s root" "\<And>p t j. pt_path s root p t \<Longrightarrow> phys s' t j = phys s t j"
    "\<And>f. frame_used s f \<Longrightarrow> frame_used s' f"
  shows "pt_tree s' root"
proof -
  have p: "pt_path s' root q u = pt_path s root q u" for q u by (rule data_write_path) (rule assms(2))
  show ?thesis using assms(1,3) unfolding pt_tree_def p by blast
qed

text \<open>The shape of a copy-on-write fault on a mapped leaf.\<close>

lemma walk_leaf_path:
  assumes "walk s 3 root va = Some (0, e)"
  obtains pt where "pt_path s root (vpath va) pt" "phys s pt (pidx 12 va) = e" "bit e 0"
proof -
  from assms obtain pt where "tab_at s root (vpath va) = Some pt" "phys s pt (pidx 12 va) = e" "bit e 0"
    by (auto simp: numeral_3_eq_3 vpath_def Let_def split: if_splits)
  then show ?thesis using that by (simp add: pt_path_vpath_iff)
qed

lemma walk_small_leaf: "walk s l t va = Some (0, e) \<Longrightarrow> bit e 0"
  by (induction l arbitrary: t) (auto simp: Let_def split: if_splits)

definition cow_copy_entry :: "u64 \<Rightarrow> u64 \<Rightarrow> u64" where
  "cow_copy_entry nf e = ((nf OR PTE_P OR PTE_RW OR PTE_US) AND NOT PTE_COW) OR (e AND PTE_NX)"

lemma cow_copy_entry_bits:
  assumes "f < PMM_MAX_FRAMES"
  shows "cow_copy_entry (of_nat f * 4096) e AND PTE_ADDR = of_nat f * 4096"
    and "bit (cow_copy_entry (of_nat f * 4096) e) 0" "bit (cow_copy_entry (of_nat f * 4096) e) 1"
    and "bit (cow_copy_entry (of_nat f * 4096) e) 2" "\<not> bit (cow_copy_entry (of_nat f * 4096) e) 9"
    and "bit (cow_copy_entry (of_nat f * 4096) e) 63 = bit e 63"
proof -
  show "cow_copy_entry (of_nat f * 4096) e AND PTE_ADDR = of_nat f * 4096"
    using frame_addr_bits [OF assms]
    by (intro bit_word_eqI) (fastforce simp: bit_simps mask_bits cow_copy_entry_def)
qed (use frame_addr_bits [OF assms, of 9] frame_addr_bits [OF assms, of 63] in
      \<open>auto simp: bit_simps mask_bits cow_copy_entry_def\<close>)

lemma cow_resolve_eq:
  assumes "\<not> mem_locked s" "pt_path s (live_cr3 s AND PTE_ADDR) (vpath va) pt"
    "phys s pt (pidx 12 va) = e" "bit e 0" "bit e 2" "bit e 9"
  shows "vmm_cow_resolve va s =
     (let pa = e AND PTE_ADDR; s1 = s\<lparr>mem_locked := True\<rparr>
      in if frame_of pa < PMM_MAX_FRAMES \<and> frame_ref s (frame_of pa) = 1
         then Some (0, mem_lock_release (set_entry pt (pidx 12 va) ((e OR PTE_RW) AND NOT PTE_COW) s1))
         else let (nf, s2) = pmm_alloc_inner s1
              in if nf = 0 then Some (-1, mem_lock_release s2)
                 else map_option (\<lambda>(_, s4). (0, s4)) (frame_ref_put pa (mem_lock_release
                        (set_entry pt (pidx 12 va) (cow_copy_entry nf e) (s2\<lparr>phys := (phys s2)(nf := phys s2 pa)\<rparr>)))))"
proof -
  let ?r = "live_cr3 s AND PTE_ADDR"
  from assms(2) have t: "bit (phys s ?r (pidx 39 va)) 0" "\<not> bit (phys s ?r (pidx 39 va)) 7"
    "bit (phys s (phys s ?r (pidx 39 va) AND PTE_ADDR) (pidx 30 va)) 0"
    "\<not> bit (phys s (phys s ?r (pidx 39 va) AND PTE_ADDR) (pidx 30 va)) 7"
    and p: "pt = phys s (phys s (phys s ?r (pidx 39 va) AND PTE_ADDR) (pidx 30 va) AND PTE_ADDR) (pidx 21 va) AND PTE_ADDR"
    "bit (phys s (phys s (phys s ?r (pidx 39 va) AND PTE_ADDR) (pidx 30 va) AND PTE_ADDR) (pidx 21 va)) 0"
    "\<not> bit (phys s (phys s (phys s ?r (pidx 39 va) AND PTE_ADDR) (pidx 30 va) AND PTE_ADDR) (pidx 21 va)) 7"
    by (auto simp: pt_path_def vpath_def Let_def split: if_splits)
  show ?thesis
    using assms(1,3-6) t p(2,3) unfolding p(1)
    by (simp add: vmm_cow_resolve_def mem_lock_acquire_def Let_def cow_copy_entry_def [symmetric] map_option_case split_beta
          split: option.splits)
qed

lemma fst_frame_ref_put_shared:
  assumes "f = frame_of pa" "f < PMM_MAX_FRAMES" "unat (frame_ref s f) > 1" "\<not> mem_locked s"
  shows "frame_ref_put pa s = Some (frame_ref s f - 1, s\<lparr>mem_locked := False, frame_ref := (frame_ref s)(f := frame_ref s f - 1)\<rparr>)"
proof -
  have p: "frame_ref s f > 0" using assms(3) by (simp add: word_less_nat_alt)
  have "frame_ref s f - 1 \<noteq> 0" using assms(3) by auto
  then show ?thesis
    using assms p by (simp add: frame_ref_put_def mem_lock_acquire_def frame_ref_put_eq mem_lock_release_def Let_def)
qed

text \<open>C32.  A copy-on-write fault on a shared page gives the faulting space a private copy: the
  page then maps the lowest free frame, writable, user, without the COW mark and with the old NX
  bit; the frame holds a copy of the old page; the old frame loses exactly one reference and the new
  one has one; all other pages walk as before; and the lock is free again.\<close>

theorem cow_resolve_copies:
  assumes "\<not> mem_locked s" and "pmm_inv s" and "root = live_cr3 s AND PTE_ADDR" and "pt_tree s root"
    and "walk s 3 root va = Some (0, e)" and "bit e 2" and "bit e 9"
    and "f = frame_of (e AND PTE_ADDR)" and "f < PMM_MAX_FRAMES" and "frame_used s f"
    and "unat (frame_ref s f) > 1" and "free_set s \<noteq> {}" and "g = Min (free_set s)"
  shows "\<exists>s' e'. vmm_cow_resolve va s = Some (0, s') \<and>
           walk s' 3 root va = Some (0, e') \<and> e' AND PTE_ADDR = of_nat g * 4096 \<and>
           bit e' 1 \<and> bit e' 2 \<and> \<not> bit e' 9 \<and> bit e' 63 = bit e 63 \<and>
           phys s' (of_nat g * 4096) = phys s (e AND PTE_ADDR) \<and>
           frame_ref s' f = frame_ref s f - 1 \<and> frame_ref s' g = 1 \<and>
           (\<forall>va'. vpath va' \<noteq> vpath va \<or> pidx 12 va' \<noteq> pidx 12 va \<longrightarrow> walk s' 3 root va' = walk s 3 root va') \<and>
           pmm_inv s' \<and> pt_tree s' root \<and> \<not> mem_locked s'"
proof -
  obtain pt where p: "pt_path s root (vpath va) pt" and e: "phys s pt (pidx 12 va) = e" "bit e 0"
    by (rule walk_leaf_path [OF assms(5)])
  let ?nf = "of_nat g * 4096 :: u64" and ?pa = "e AND PTE_ADDR" and ?e' = "cow_copy_entry (of_nat g * 4096) e"
  have g: "g \<in> free_set s" "g < PMM_MAX_FRAMES" "0 < g" "g \<noteq> f"
    using Min_free_set [OF assms(12)] assms(2,10,13) by (auto intro: free_set_bound pmm_inv_free_pos simp: free_set_def)
  have nf: "?nf \<noteq> 0" using g frame_addr_eq_0_iff by auto
  have pa: "?pa \<noteq> ?nf" using g(2,4) assms(8) by auto
  define s1 where "s1 = take_frame g (s\<lparr>mem_locked := True\<rparr>)"
  define s2 where "s2 = s1\<lparr>phys := (phys s1)(?nf := phys s1 ?pa)\<rparr>"
  define s3 where "s3 = set_entry pt (pidx 12 va) ?e' s2"
  define s4 where "s4 = s3\<lparr>mem_locked := False, frame_ref := (frame_ref s3)(f := frame_ref s3 f - 1)\<rparr>"
  have fsl: "free_set (s\<lparr>mem_locked := True\<rparr>) = free_set s" by (rule free_set_cong) simp
  have al: "pmm_alloc_inner (s\<lparr>mem_locked := True\<rparr>) = (?nf, s1)"
    using assms(12,13) by (simp add: pmm_alloc_inner_eq fsl s1_def)
  have ref: "frame_ref s3 f = frame_ref s f" using g(4) by (simp add: s3_def s2_def s1_def take_frame_def)
  have ref1: "frame_ref s f \<noteq> 1" using assms(11) by auto
  have "frame_ref_put ?pa (mem_lock_release s3) = Some (frame_ref s f - 1, s4)"
    using fst_frame_ref_put_shared [of f ?pa "mem_lock_release s3"] assms(8,9,11) ref
    by (simp add: s4_def mem_lock_release_def)
  then have res: "vmm_cow_resolve va s = Some (0, s4)"
    using cow_resolve_eq [OF assms(1) p [unfolded assms(3)] e(1,2) assms(6,7)] ref1 assms(8) al nf
    by (simp add: Let_def s2_def [symmetric] s3_def [symmetric])
  have t2: "phys s2 t j = phys s t j" if "pt_path s root q t" for q t j
    using pt_tree_not_free [OF assms(4) that g(1)] by (simp add: s2_def s1_def take_frame_def)
  have used2: "frame_used s2 k \<longleftrightarrow> k = g \<or> frame_used s k" for k
    using frame_used_take [of g s k] frame_used_cong [of s2 "take_frame g s"] by (simp add: s2_def s1_def take_frame_def)
  have tree2: "pt_tree s2 root" using data_write_tree [OF assms(4) t2] by (simp add: used2)
  have p2: "pt_path s2 root q u = pt_path s root q u" for q u by (rule data_write_path [OF t2])
  have w2: "walk s2 3 root va' = walk s 3 root va'" for va'
    using walk_cong [of s root s2 "[]" root 3] t2 by simp
  have pt2: "pt_path s2 root (vpath va) pt" using p p2 by simp
  have l: "length (vpath va) = 3" by (simp add: vpath_def)
  have w3: "walk s4 3 root va' = (if vpath va' = vpath va \<and> pidx 12 va' = pidx 12 va then Some (0, ?e')
       else walk s 3 root va')" for va'
    using leaf_write_walk [OF tree2 pt2 l, of "pidx 12 va" ?e' va'] walk_phys_cong [of s4 s3]
    by (simp add: s4_def s3_def w2 cow_copy_entry_bits [OF g(2)])
  have "pt \<noteq> ?nf" by (rule pt_tree_not_free [OF assms(4) p g(1)])
  then have ph: "phys s4 ?nf = phys s ?pa"
    using pa by (simp add: s4_def s3_def s2_def s1_def set_entry_def take_frame_def)
  have inv: "pmm_inv s4"
    using pmm_inv_take [of s g] assms(2) g(1) pmm_inv_cong [of s4 "take_frame g s"]
    by (simp add: s4_def s3_def s2_def s1_def take_frame_def set_entry_def)
  have tree: "pt_tree s4 root"
    by (rule pt_tree_cong [OF _ _ leaf_write_tree [OF tree2 pt2 l, of "pidx 12 va" ?e']])
       (simp_all add: s4_def s3_def frame_used_def)
  have refs: "frame_ref s4 f = frame_ref s f - 1" "frame_ref s4 g = 1" "\<not> mem_locked s4"
    using g(4) ref by (simp_all add: s4_def s3_def s2_def s1_def take_frame_def set_entry_def)
  show ?thesis
    using res w3 cow_copy_entry_bits [OF g(2), of e] ph refs inv tree
    by (intro exI [of _ s4] exI [of _ ?e']) simp
qed

lemma tear_fold_None: "fold (tear_entry l r tab btab) xs None = None"
  by (induction xs) (simp_all add: tear_entry_def)

lemma tear_leaf_fold_deadlock:
  assumes "mem_locked s" "distinct xs"
    "TEAR_MAX_DATA < length (tl_data L) + card {i \<in> set xs. bit (phys s tab i) 0 \<and> bit (phys s tab i) 2}"
    "length (tl_data L) \<le> TEAR_MAX_DATA"
  shows "fold (tear_entry 0 r tab 0) xs (Some (L, s)) = None"
  using assms
proof (induction xs arbitrary: L s)
  case (Cons i xs)
  let ?A = "\<lambda>s xs. {i \<in> set xs. bit (phys s tab i) 0 \<and> bit (phys s tab i) 2}"
  let ?e = "phys s tab i"
  show ?case
  proof (cases "bit ?e 0 \<and> bit ?e 2")
    case True
    have "?A s (i # xs) = insert i (?A s xs)" using True by auto
    then have c: "card (?A s (i # xs)) = Suc (card (?A s xs))" using Cons.prems(2) by simp
    show ?thesis
    proof (cases "length (tl_data L) = TEAR_MAX_DATA")
      case full: True
      then have "tl_data L \<noteq> []" by (auto simp: TEAR_MAX_DATA_def)
      with True full Cons.prems(1) have "tear_entry 0 r tab 0 i (Some (L, s)) = None"
        by (simp add: tear_entry_def tear_record_def tear_flush_free_def mem_lock_acquire_def Let_def)
      then show ?thesis by (simp add: tear_fold_None)
    next
      case False
      let ?L = "L\<lparr>tl_data := tl_data L @ [?e AND PTE_ADDR]\<rparr>" and ?s = "set_entry tab i 0 s"
      have "?A ?s xs = ?A s xs" using Cons.prems(2) by auto
      then have "fold (tear_entry 0 r tab 0) xs (Some (?L, ?s)) = None"
        using Cons.prems False c by (intro Cons.IH) auto
      moreover have "tear_entry 0 r tab 0 i (Some (L, s)) = Some (?L, ?s)"
        using True False Cons.prems(4) by (simp add: tear_entry_def tear_record_def Let_def)
      ultimately show ?thesis by simp
    qed
  next
    case False
    then have c: "?A s (i # xs) = ?A s xs" by auto
    define s' where "s' = (if bit ?e 0 then set_entry tab i 0 s else s)"
    then have s': "tear_entry 0 r tab 0 i (Some (L, s)) = Some (L, s')" "s' = s \<or> s' = set_entry tab i 0 s"
      using False by (simp_all add: tear_entry_def Let_def)
    then have "?A s' xs = ?A s xs" "mem_locked s'" using Cons.prems(1,2) by (auto split: if_splits)
    with Cons.IH [of s' L] Cons.prems c s'(1) show ?thesis by simp
  qed
qed simp


section \<open>Witnesses\<close>

text \<open>An address space in four tables (frames 256 to 259) with one copy-on-write page at
  0x5000, in frame 260.\<close>

definition sample_space :: mem64 where
  "sample_space = sample_mem\<lparr>phys := (\<lambda>t i.
     if t = 0x100000 \<and> i = 0 then 0x101007 else if t = 0x101000 \<and> i = 0 then 0x102007
     else if t = 0x102000 \<and> i = 0 then 0x103007 else if t = 0x103000 \<and> i = 5 then 0x104205
     else if t = 0x104000 then 7 else 0)\<rparr>"

lemma sample_phys: "phys sample_space t i =
    (if t = 0x100000 \<and> i = 0 then 0x101007 else if t = 0x101000 \<and> i = 0 then 0x102007
     else if t = 0x102000 \<and> i = 0 then 0x103007 else if t = 0x103000 \<and> i = 5 then 0x104205
     else if t = 0x104000 then 7 else 0)"
  by (simp add: sample_space_def)

lemma sample_addr:
  "0x101007 AND PTE_ADDR = 0x101000" "0x102007 AND PTE_ADDR = 0x102000" "0x103007 AND PTE_ADDR = 0x103000"
  "0x104205 AND PTE_ADDR = 0x104000" "0x100000 AND PTE_ADDR = 0x100000"
  by (simp_all add: PTE_ADDR_def)

lemma sample_space_fields:
  "vmm_root sample_space = 0x100000" "live_cr3 sample_space = 0x100000" "nx_on sample_space"
  "\<not> mem_locked sample_space" "pmm_inv sample_space" "free_set sample_space = {512..<516}"
  "frame_used sample_space = frame_used sample_mem" "frame_ref sample_space 260 = 2"
  using sample_inv sample_free pmm_inv_cong [of sample_space sample_mem] free_set_cong [of sample_space sample_mem]
    frame_used_cong [of sample_space sample_mem]
  by (simp_all add: sample_space_def) (simp_all add: sample_mem_def)

lemma sample_paths:
  assumes "pt_path sample_space 0x100000 p t"
  shows "(p, t) \<in> {([], 0x100000), ([0], 0x101000), ([0, 0], 0x102000), ([0, 0, 0], 0x103000)}"
proof -
  have "length p \<le> 3" using assms by (simp add: pt_path_def)
  then consider "p = []" | a where "p = [a]" | a b where "p = [a, b]" | a b c where "p = [a, b, c]"
    by (cases p rule: remdups_adj.cases; auto simp: numeral_3_eq_3 le_Suc_eq length_Suc_conv)
  then show ?thesis using assms
    by cases (auto simp: pt_path_def Let_def sample_phys sample_addr split: if_splits)
qed

lemma sample_tree: "pt_tree sample_space 0x100000"
proof -
  have u: "\<exists>f < PMM_MAX_FRAMES. of_nat k * 4096 = (of_nat f * 4096 :: u64) \<and> frame_used sample_space f" if "k < 512" for k
    using that by (intro exI [of _ k]) (simp add: sample_space_fields sample_used PMM_MAX_FRAMES_def)
  show ?thesis unfolding pt_tree_def
    using u [of 256] u [of 257] u [of 258] u [of 259] by (auto dest!: sample_paths)
qed

lemma sample_pidx: "pidx 12 0x6000 = 6" "pidx 21 0x6000 = 0" "pidx 30 0x6000 = 0" "pidx 39 0x6000 = 0"
   "pidx 12 0x5000 = 5" "pidx 21 0x5000 = 0" "pidx 30 0x5000 = 0" "pidx 39 0x5000 = 0"
  by (simp_all add: pidx_def drop_bit_eq_div)

lemma sample_canonical: "vmm_is_canonical 0x6000" "vmm_is_canonical 0x5000"
  by (simp_all add: vmm_is_canonical_def drop_bit_eq_div)

lemmas sample_facts = sample_phys sample_addr sample_space_fields sample_pidx sample_canonical

lemma sample_map: "fst (vmm_map_page_inner 0x6000 0x300000 3 sample_space) = 0"
  by (simp add: vmm_map_page_inner_def next_tab_def Let_def sample_facts)

lemma sample_map_busy: "fst (vmm_map_page_inner 0x5000 0x300000 3 sample_space) = -1"
  by (simp add: vmm_map_page_inner_def next_tab_def Let_def sample_facts)

lemma sample_unmap: "fst (vmm_unmap_page_inner 0x5000 sample_space) = 0"
  by (simp add: vmm_unmap_page_inner_def Let_def sample_facts)

theorem vmm_map_translate_witness:
  "vmm_translate_inner 0x6123 (snd (vmm_map_page_inner 0x6000 0x300000 3 sample_space)) = 0x300123"
proof -
  have "drop_bit 12 (0x6123 :: u64) = drop_bit 12 0x6000" "(0x300000 AND PTE_ADDR) + (0x6123 AND 0xFFF) = 0x300123"
    by (simp_all add: drop_bit_eq_div PTE_ADDR_def)
  with vmm_map_translate [of sample_space "0x6000" "0x300000" 3 "snd (vmm_map_page_inner 0x6000 0x300000 3 sample_space)"]
  show ?thesis using sample_map sample_tree by (auto simp: sample_facts prod_eq_iff)
qed

theorem vmm_map_fail_keeps_witness:
  "vmm_translate_inner 0x5000 (snd (vmm_map_page_inner 0x5000 0x300000 3 sample_space)) = vmm_translate_inner 0x5000 sample_space"
  using vmm_map_fail_keeps [of sample_space "0x5000" "0x300000" 3 "-1" "snd (vmm_map_page_inner 0x5000 0x300000 3 sample_space)"]
    sample_map_busy sample_tree by (simp add: sample_facts prod_eq_iff)

theorem vmm_unmap_removes_witness:
  "vmm_translate_inner 0x5000 (snd (vmm_unmap_page_inner 0x5000 sample_space)) = 0"
  using vmm_unmap_removes [of sample_space "0x5000" 0 "snd (vmm_unmap_page_inner 0x5000 sample_space)"]
    sample_unmap sample_tree by (simp add: sample_facts prod_eq_iff)

theorem vmm_map_unmap_roundtrip_witness:
  "fst (vmm_unmap_page_inner 0x6000 (snd (vmm_map_page_inner 0x6000 0x300000 3 sample_space))) = 0"
  using vmm_map_unmap_roundtrip [of sample_space "0x6000" "0x300000" 3 "snd (vmm_map_page_inner 0x6000 0x300000 3 sample_space)"]
    sample_map sample_tree by (auto simp: sample_facts prod_eq_iff)

theorem vmm_user_ok_sound_witness: "vmm_is_canonical (0x5008 + 3)"
proof -
  have s: "user_page_ok sample_space 0x5000"
    by (simp add: user_page_ok_walk numeral_3_eq_3 Let_def sample_facts)
  have "vmm_user_ok 0x5008 16 sample_space"
    using s by (simp add: vmm_user_ok_def Let_def vmm_is_canonical_def drop_bit_eq_div)
  from vmm_user_ok_sound [OF this, of 3] show ?thesis by simp
qed

theorem cow_resolve_copies_witness: "\<exists>s'. vmm_cow_resolve 0x5000 sample_space = Some (0, s')"
proof -
  have w: "walk sample_space 3 0x100000 0x5000 = Some (0, 0x104205)"
    by (simp add: numeral_3_eq_3 Let_def sample_facts)
  have f: "frame_of (0x104205 AND PTE_ADDR) = 260" by (simp add: sample_facts frame_of_def drop_bit_eq_div)
  from cow_resolve_copies [of sample_space "0x100000" "0x5000" "0x104205" 260 "Min (free_set sample_space)"]
    w f sample_tree show ?thesis by (simp add: sample_facts sample_used PMM_MAX_FRAMES_def) blast
qed


end
