(* ===== verification/Loader.thy ===== *)
theory Loader
  imports Vmm_Walk "HOL-Library.Monad_Syntax"
begin

text \<open>
  The program loader of \<^verbatim>\<open>src/k64/loader64.c\<close> and the data registry of
  \<^verbatim>\<open>src/k64/blob64.c\<close>.  An image is the list of its bytes.  Reading a byte outside the image
  and touching an unmapped page while copying are \<open>None\<close> (a fault); a load that returns -1 is
  \<open>Some (None, s)\<close>.
\<close>

definition MCT2_MAGIC :: u32 where "MCT2_MAGIC = 0x3243544D"
definition MCT2_HDR2_SIZE :: nat where "MCT2_HDR2_SIZE = 48"
definition ELF_BASE :: u64 where "ELF_BASE = 0x60000000"
definition LOAD_CAP :: u64 where "LOAD_CAP = 16 * 1024 * 1024"
definition NEXECREG :: nat where "NEXECREG = 24"
definition NBLOB :: nat where "NBLOB = 8"

section \<open>Registries\<close>

text \<open>A registry is the list of its first \<^verbatim>\<open>nreg\<close> entries, (name, data); \<open>None\<close> arguments are
  null pointers.  Empty data is a null or empty registration.\<close>

type_synonym registry = "(string \<times> u8 list) list"

definition reg_add :: "nat \<Rightarrow> string option \<Rightarrow> u8 list \<Rightarrow> registry \<Rightarrow> registry" where
  "reg_add limit name data reg =
     (case name of None \<Rightarrow> reg
      | Some n \<Rightarrow> if length reg \<ge> limit \<or> data = [] then reg else reg @ [(name15 n, data)])"

definition exec_register :: "string option \<Rightarrow> u8 list \<Rightarrow> registry \<Rightarrow> registry" where
  "exec_register = reg_add NEXECREG"

definition blob_register :: "string option \<Rightarrow> u8 list \<Rightarrow> registry \<Rightarrow> registry" where
  "blob_register = reg_add NBLOB"

text \<open>The comparison loop: equal up to and including the terminating NUL, within 16 bytes.\<close>

definition char_at :: "string \<Rightarrow> nat \<Rightarrow> char" where
  "char_at n j = (if j < length n then n ! j else CHR 0x00)"

fun name_eq :: "string \<Rightarrow> string \<Rightarrow> nat \<Rightarrow> nat \<Rightarrow> bool" where
  "name_eq a b j 0 = False"
| "name_eq a b j (Suc n) =
     (if char_at a j = char_at b j then (if char_at b j = CHR 0x00 then True else name_eq a b (Suc j) n) else False)"

definition exec_lookup :: "string \<Rightarrow> registry \<Rightarrow> u8 list option" where
  "exec_lookup name reg = map_option snd (find (\<lambda>(n, d). name_eq n name 0 16) reg)"

text \<open>\<^verbatim>\<open>blob_read\<close>: the result and the bytes copied to the destination.\<close>

definition blob_read :: "string \<Rightarrow> u64 \<Rightarrow> registry \<Rightarrow> int \<times> u8 list" where
  "blob_read name maxlen reg =
     (case exec_lookup name reg of
        None \<Rightarrow> (-2, [])
      | Some data \<Rightarrow>
          if maxlen = 0 then (int (length data), [])
          else let n = min (unat maxlen) (length data) in (int n, take n data))"

section \<open>Reading an image\<close>

definition rd8 :: "u8 list \<Rightarrow> nat \<Rightarrow> u8 option" where
  "rd8 img i = (if i < length img then Some (img ! i) else None)"

definition rd16 :: "u8 list \<Rightarrow> nat \<Rightarrow> u16 option" where
  "rd16 img i = do { a \<leftarrow> rd8 img i; b \<leftarrow> rd8 img (i + 1); Some (ucast a OR push_bit 8 (ucast b)) }"

definition rd32 :: "u8 list \<Rightarrow> nat \<Rightarrow> u32 option" where
  "rd32 img i = do {
     a \<leftarrow> rd8 img i; b \<leftarrow> rd8 img (i + 1); c \<leftarrow> rd8 img (i + 2); d \<leftarrow> rd8 img (i + 3);
     Some (ucast a OR push_bit 8 (ucast b) OR push_bit 16 (ucast c) OR push_bit 24 (ucast d)) }"

definition rd64 :: "u8 list \<Rightarrow> nat \<Rightarrow> u64 option" where
  "rd64 img i = do { lo \<leftarrow> rd32 img i; hi \<leftarrow> rd32 img (i + 4); Some (ucast lo OR push_bit 32 (ucast hi)) }"

definition is_elf64 :: "u8 list \<Rightarrow> bool" where
  "is_elf64 img \<longleftrightarrow> length img \<ge> 64 \<and> img ! 0 = 0x7F \<and> img ! 1 = of_char (CHR ''E'') \<and> img ! 2 = of_char (CHR ''L'') \<and>
     img ! 3 = of_char (CHR ''F'') \<and> img ! 4 = 2"

section \<open>Mapping and copying\<close>

text \<open>The loop of \<^verbatim>\<open>map_range_fl\<close>, \<open>n\<close> pages from \<open>va\<close>.\<close>

fun map_pages :: "nat \<Rightarrow> u64 \<Rightarrow> u64 \<Rightarrow> mem64 \<Rightarrow> bool \<times> mem64" where
  "map_pages 0 va flags s = (True, s)"
| "map_pages (Suc n) va flags s =
     (let (pa, s1) = pmm_alloc_inner s
      in if pa = 0 then (False, s1)
         else
           let (r, s2) = vmm_map_page_inner va pa flags s1
           in if r \<noteq> 0 then (False, snd (frame_ref_put_inner pa s2))
              else map_pages n (va + 4096) flags s2)"

definition map_range_fl :: "u64 \<Rightarrow> u64 \<Rightarrow> u64 \<Rightarrow> mem64 \<Rightarrow> bool \<times> mem64" where
  "map_range_fl va sz flags s =
     (if \<not> vmm_is_canonical va \<or> \<not> vmm_is_canonical (va + sz - 1) then (False, s)
      else if sz = 0 \<or> sz > LOAD_CAP then (False, s)
      else map_pages (unat ((sz + 4095) div 4096)) va flags s)"

text \<open>A byte store by the kernel through the live address space; eight bytes per memory word.\<close>

definition set_byte :: "nat \<Rightarrow> u8 \<Rightarrow> u64 \<Rightarrow> u64" where
  "set_byte k b w = (w AND NOT (push_bit (8 * k) 0xFF)) OR push_bit (8 * k) (ucast b)"

definition store_byte :: "u64 \<Rightarrow> u8 \<Rightarrow> mem64 \<Rightarrow> mem64 option" where
  "store_byte va b s =
     (case walk s 3 (live_cr3 s AND PTE_ADDR) va of
        None \<Rightarrow> None
      | Some (l, e) \<Rightarrow>
          let pa = (e AND PTE_ADDR) + (va AND mask (12 + 9 * l));
              fr = pa AND NOT 0xFFF; o' = unat (pa AND 0xFFF)
          in Some (set_entry fr (o' div 8) (set_byte (o' mod 8) b (phys s fr (o' div 8))) s))"

fun store_bytes :: "u64 \<Rightarrow> u8 list \<Rightarrow> mem64 \<Rightarrow> mem64 option" where
  "store_bytes va [] s = Some s"
| "store_bytes va (b # bs) s = do { s1 \<leftarrow> store_byte va b s; store_bytes (va + 1) bs s1 }"

section \<open>MCT2\<close>

definition cpu_load_cr3 :: "u64 \<Rightarrow> mem64 \<Rightarrow> mem64" where
  "cpu_load_cr3 r s = s\<lparr>live_cr3 := r\<rparr>"

type_synonym load_out = "(u64 \<times> u64 \<times> u64) option"

definition load_mct2 :: "u64 \<Rightarrow> u8 list \<Rightarrow> mem64 \<Rightarrow> (load_out \<times> mem64) option" where
  "load_mct2 target img s =
     (if length img < MCT2_HDR2_SIZE then Some (None, s)
      else do {
        ver \<leftarrow> rd32 img 4; magic \<leftarrow> rd32 img 0;
        if magic \<noteq> MCT2_MAGIC \<or> ver \<noteq> 2 then Some (None, s)
        else do {
          base \<leftarrow> rd64 img 8; entry_off \<leftarrow> rd64 img 16; code_size \<leftarrow> rd64 img 24;
          bss_size \<leftarrow> rd64 img 32; text_size \<leftarrow> rd64 img 40;
          let code_round = (code_size + 4095) AND NOT 4095;
              hsz = of_nat MCT2_HDR2_SIZE; len = of_nat (length img); tot = code_size + bss_size;
              dfl = VMM_RW OR VMM_US OR (if nx_on s then VMM_NX else 0);
              old = live_cr3 s AND NOT 0xFFF
          in if base \<ge> 0x80000000 then Some (None, s)
             else if \<not> vmm_is_canonical base \<or> entry_off \<ge> code_size + 4096 then Some (None, s)
             else if code_size > LOAD_CAP \<or> bss_size > LOAD_CAP then Some (None, s)
             else if text_size > code_round then Some (None, s)
             else if hsz + code_size > len \<or> hsz + code_size < hsz then Some (None, s)
             else if tot = 0 then Some (None, s)
             else
               let (ok1, s1) = (if text_size > 0 then map_range_fl base text_size VMM_US s else (True, s))
               in if \<not> ok1 then Some (None, s1)
                  else
                    let (ok2, s2) = (if text_size < tot then map_range_fl (base + text_size) (tot - text_size) dfl s1
                                     else (True, s1))
                    in if \<not> ok2 then Some (None, s2)
                       else do {
                         s3 \<leftarrow> store_bytes base (take (unat code_size) (drop MCT2_HDR2_SIZE img))
                                (if target \<noteq> old then cpu_load_cr3 target s2 else s2);
                         s4 \<leftarrow> store_bytes (base + code_size) (replicate (unat bss_size) 0) s3;
                         Some (Some (base + entry_off, base, base + tot),
                               if target \<noteq> old then cpu_load_cr3 old s4 else s4) }
        } })"

section \<open>ELF64\<close>

record aslr =
  aslr_state :: u64
  exec_seq :: u64

definition aslr_seed :: "u64 \<Rightarrow> aslr \<Rightarrow> aslr" where
  "aslr_seed v a = (if v \<noteq> 0 then a\<lparr>aslr_state := v\<rparr> else a)"

definition aslr_next :: "aslr \<Rightarrow> u64 \<times> aslr" where
  "aslr_next a =
     (let x = aslr_state a; x = x XOR push_bit 13 x; x = x XOR drop_bit 7 x; x = x XOR push_bit 17 x;
          v = (if x \<noteq> 0 then x else 0x9E3779B97F4A7C15)
      in (v, a\<lparr>aslr_state := v\<rparr>))"

definition elf_load_base :: "aslr \<Rightarrow> u64 \<times> aslr" where
  "elf_load_base a =
     (let (v, a1) = aslr_next a
      in (ELF_BASE + ((v + exec_seq a1) mod 256) * 0x200000, a1\<lparr>exec_seq := exec_seq a1 + 1\<rparr>))"

definition seg_flags :: "bool \<Rightarrow> u32 \<Rightarrow> u64" where
  "seg_flags nx pf =
     (let w = (pf AND 2 \<noteq> 0); x = (pf AND 1 \<noteq> 0);
          fl = VMM_US OR (if w then VMM_RW else 0)
      in if w \<or> \<not> x then (if nx then fl OR VMM_NX else fl) else fl)"

text \<open>Pass 1: validate and map each loadable segment.  The list holds the offsets of the program
  headers in the image; the accumulator is the mapped tot.\<close>

fun elf_map :: "u64 \<Rightarrow> u8 list \<Rightarrow> nat list \<Rightarrow> u64 \<Rightarrow> mem64 \<Rightarrow> (bool \<times> mem64) option" where
  "elf_map base img [] tot s = Some (True, s)"
| "elf_map base img (ph # phs) tot s = do {
     p_type \<leftarrow> rd32 img ph;
     if p_type \<noteq> 1 then elf_map base img phs tot s
     else do {
       pf \<leftarrow> rd32 img (ph + 4); offset \<leftarrow> rd64 img (ph + 8); vaddr \<leftarrow> rd64 img (ph + 16);
       filesz \<leftarrow> rd64 img (ph + 32); memsz \<leftarrow> rd64 img (ph + 40);
       if filesz > memsz \<or> memsz > LOAD_CAP then Some (False, s)
       else if vaddr + memsz < vaddr \<or> vaddr + memsz \<ge> 0x10000000 then Some (False, s)
       else if offset + filesz > of_nat (length img) \<or> offset + filesz < offset then Some (False, s)
       else
         let va = base + (vaddr AND NOT 0xFFF); skip = vaddr AND 0xFFF;
             (ok, s1) = map_range_fl va (skip + memsz) (seg_flags (nx_on s) pf) s;
             tot = tot + (skip + memsz)
         in if \<not> ok then Some (False, s1)
            else if tot > LOAD_CAP then Some (False, s1)
            else elf_map base img phs tot s1 } }"

text \<open>Pass 2: copy file bytes, zero the rest, track the end.\<close>

fun elf_copy :: "u64 \<Rightarrow> u8 list \<Rightarrow> nat list \<Rightarrow> u64 \<Rightarrow> mem64 \<Rightarrow> (u64 \<times> mem64) option" where
  "elf_copy base img [] en s = Some (en, s)"
| "elf_copy base img (ph # phs) en s = do {
     p_type \<leftarrow> rd32 img ph;
     if p_type \<noteq> 1 then elf_copy base img phs en s
     else do {
       offset \<leftarrow> rd64 img (ph + 8); vaddr \<leftarrow> rd64 img (ph + 16);
       filesz \<leftarrow> rd64 img (ph + 32); memsz \<leftarrow> rd64 img (ph + 40);
       s1 \<leftarrow> store_bytes (base + vaddr) (take (unat filesz) (drop (unat offset) img)) s;
       s2 \<leftarrow> store_bytes (base + vaddr + filesz) (replicate (unat memsz - unat filesz) 0) s1;
       let e = base + vaddr + memsz in elf_copy base img phs (if e > en then e else en) s2 } }"

definition load_elf64 :: "u64 \<Rightarrow> u8 list \<Rightarrow> aslr \<Rightarrow> mem64 \<Rightarrow> (load_out \<times> aslr \<times> mem64) option" where
  "load_elf64 target img a s =
     (if length img < 64 then Some (None, a, s)
      else do {
        tm \<leftarrow> rd32 img 16;
        if tm \<noteq> 0x003E0003 then Some (None, a, s)
        else do {
          e_entry \<leftarrow> rd64 img 24; e_phoff \<leftarrow> rd64 img 32; pes \<leftarrow> rd16 img 54; pn \<leftarrow> rd16 img 56;
          let e_phentsize = ucast pes :: u64; e_phnum = ucast pn :: u64; len = of_nat (length img) :: u64
          in if e_phentsize < 56 \<or> e_phnum > 16 then Some (None, a, s)
             else if e_phoff + e_phnum * e_phentsize > len then Some (None, a, s)
             else
               let (base, a1) = elf_load_base a
               in let phs = map (\<lambda>i. unat (e_phoff + of_nat i * e_phentsize)) [0..<unat e_phnum];
                      old = live_cr3 s AND NOT 0xFFF
                  in do {
                    (ok, s1) \<leftarrow> elf_map base img phs 0 s;
                    if \<not> ok then Some (None, a1, s1)
                    else do {
                      (en, s2) \<leftarrow> elf_copy base img phs base (if target \<noteq> old then cpu_load_cr3 target s1 else s1);
                      Some (Some (base + e_entry, base, en), a1, if target \<noteq> old then cpu_load_cr3 old s2 else s2) } }
        } })"

definition loader_map_image :: "u64 \<Rightarrow> u8 list \<Rightarrow> aslr \<Rightarrow> mem64 \<Rightarrow> (load_out \<times> aslr \<times> mem64) option" where
  "loader_map_image target img a s =
     (if length img < 64 then Some (None, a, s)
      else do {
        s1 \<leftarrow> mem_lock_acquire s;
        let saved = vmm_root s1; s2 = s1\<lparr>vmm_root := target\<rparr>
        in do {
          (r, a', s3) \<leftarrow> (if is_elf64 img then load_elf64 target img a s2
                           else map_option (\<lambda>(r, s3). (r, a, s3)) (load_mct2 target img s2));
          Some (r, a', mem_lock_release (s3\<lparr>vmm_root := saved\<rparr>)) } })"

end
