(* ===== verification/Serial.thy ===== *)
theory Serial
  imports Res Cons
begin

text \<open>
  The serial log of \<^verbatim>\<open>src/kernel64.c\<close>.  Every byte a locked routine writes goes to COM1 and to
  the framebuffer console; the state is the list of bytes sent on COM1, in order, and the desktop.
  The lock-free routines of the fatal dumps write to COM1 only.  Waiting for the transmitter is
  bounded and changes nothing; a routine that takes \<^verbatim>\<open>serial_lock\<close> is one atomic step.
\<close>

type_synonym ser = "u8 list \<times> desk"
type_synonym font = "u8 \<Rightarrow> nat \<Rightarrow> u8"

text \<open>A literal of the source, as its bytes.\<close>

definition lit :: "string \<Rightarrow> u8 list" where
  "lit s = map of_char s"

section \<open>Bytes\<close>

definition s_rawc :: "u8 \<Rightarrow> u8 list \<Rightarrow> u8 list" where
  "s_rawc c out = out @ [c]"

definition s_putc_locked :: "font \<Rightarrow> u8 \<Rightarrow> ser \<Rightarrow> ser" where
  "s_putc_locked font c = (\<lambda>(out, d). (s_rawc c out, cons_putc font c d))"

definition s_putc :: "font \<Rightarrow> u8 \<Rightarrow> ser \<Rightarrow> ser" where
  "s_putc = s_putc_locked"

text \<open>A line feed is sent after a carriage return.\<close>

definition s_putnl :: "font \<Rightarrow> u8 \<Rightarrow> ser \<Rightarrow> ser" where
  "s_putnl font c s = s_putc_locked font c (if c = 10 then s_putc_locked font 13 s else s)"

definition s_puts_locked :: "font \<Rightarrow> u8 list \<Rightarrow> ser \<Rightarrow> ser" where
  "s_puts_locked font str = fold (s_putnl font) (takeWhile (\<lambda>c. c \<noteq> 0) str)"

definition s_puts :: "font \<Rightarrow> u8 list \<Rightarrow> ser \<Rightarrow> ser" where
  "s_puts = s_puts_locked"

text \<open>\<open>None\<close> is the null pointer; the length is that of the list.\<close>

definition s_write :: "font \<Rightarrow> u8 list option \<Rightarrow> ser \<Rightarrow> ser" where
  "s_write font buf = (case buf of None \<Rightarrow> id | Some bs \<Rightarrow> fold (s_putnl font) bs)"

definition s_raws :: "u8 list \<Rightarrow> u8 list \<Rightarrow> u8 list" where
  "s_raws str = fold (\<lambda>c out. s_rawc c (if c = 10 then s_rawc 13 out else out)) (takeWhile (\<lambda>c. c \<noteq> 0) str)"

section \<open>Numbers\<close>

definition hex_digit :: "nat \<Rightarrow> 'a::len word \<Rightarrow> u8" where
  "hex_digit i v = (let d = ucast (drop_bit (i * 4) v AND 0xF) in if d < 10 then 48 + d else 65 + d - 10)"

text \<open>The index of a digit runs from the top down to 0.\<close>

definition emit_x64_locked :: "font \<Rightarrow> u64 \<Rightarrow> ser \<Rightarrow> ser" where
  "emit_x64_locked font v s =
     fold (\<lambda>i. s_putc_locked font (hex_digit i v)) (rev [0..<16]) (s_putc_locked font 120 (s_putc_locked font 48 s))"

definition s_hex64 :: "font \<Rightarrow> u64 \<Rightarrow> ser \<Rightarrow> ser" where
  "s_hex64 = emit_x64_locked"

definition s_hex32 :: "font \<Rightarrow> u32 \<Rightarrow> ser \<Rightarrow> ser" where
  "s_hex32 font v s =
     fold (\<lambda>i. s_putc_locked font (hex_digit i v)) (rev [0..<8]) (s_putc_locked font 120 (s_putc_locked font 48 s))"

definition s_rawx :: "u64 \<Rightarrow> u8 list \<Rightarrow> u8 list" where
  "s_rawx v out = fold (\<lambda>i. s_rawc (hex_digit i v)) (rev [0..<16]) (s_raws (lit ''0x'') out)"

text \<open>\<open>dec_buf n v\<close> fills a buffer of \<open>n\<close> bytes with the digits of \<open>v\<close>, lowest first.\<close>

fun dec_buf :: "nat \<Rightarrow> u64 \<Rightarrow> u8 list" where
  "dec_buf 0 v = []"
| "dec_buf (Suc n) v = (if v > 0 then (48 + ucast (v mod 10)) # dec_buf n (v div 10) else [])"

definition emit_u64_locked :: "font \<Rightarrow> u64 \<Rightarrow> ser \<Rightarrow> ser" where
  "emit_u64_locked font v =
     (if v = 0 then s_putc_locked font 48 else fold (s_putc_locked font) (rev (dec_buf 20 v)))"

definition s_dec64 :: "font \<Rightarrow> u64 \<Rightarrow> ser \<Rightarrow> ser" where
  "s_dec64 font v = (if v = 0 then s_putc font 48 else fold (s_putc_locked font) (rev (dec_buf 20 v)))"

definition s_dec64_locked :: "font \<Rightarrow> u64 \<Rightarrow> ser \<Rightarrow> ser" where
  "s_dec64_locked = emit_u64_locked"

definition s_rawu :: "u64 \<Rightarrow> u8 list \<Rightarrow> u8 list" where
  "s_rawu v = (if v = 0 then s_rawc 48 else fold s_rawc (rev (dec_buf 20 v)))"

text \<open>A boot milestone; \<open>tsc\<close> is the cycle counter and the difference wraps.\<close>

definition perf_mark :: "font \<Rightarrow> u64 \<Rightarrow> u8 list \<Rightarrow> u64 \<Rightarrow> ser \<Rightarrow> ser" where
  "perf_mark font tsc tag t0 s =
     s_puts_locked font [10] (s_dec64_locked font (tsc - t0) (s_puts_locked font (lit '' tsc='')
       (s_puts_locked font tag (s_puts_locked font (lit ''PERF '') s))))"

section \<open>Formats\<close>

text \<open>The variable arguments.  A directive that finds none or one of another type, and a format that
  ends in \<^verbatim>\<open>%\<close>, whose NUL the loop steps over, have no defined behaviour.\<close>

datatype parg = PStr "u8 list option" | PU64 u64 | PInt int

fun s_printf :: "font \<Rightarrow> u8 list \<Rightarrow> parg list \<Rightarrow> (ser, unit) opn" where
  "s_printf font [] as s = (Val (), s)"
| "s_printf font (c # cs) as s =
     (if c = 0 then (Val (), s)
      else if c \<noteq> 37 then s_printf font cs as (s_putnl font c s)
      else case cs of
             [] \<Rightarrow> (Trap, s_putc_locked font 63 s)
           | v # cs \<Rightarrow>
               if v = 115 then
                 (case as of PStr None # as \<Rightarrow> s_printf font cs as s
                  | PStr (Some str) # as \<Rightarrow> s_printf font cs as (s_puts_locked font str s)
                  | _ \<Rightarrow> (Trap, s))
               else if v = 117 then
                 (case as of PU64 n # as \<Rightarrow> s_printf font cs as (emit_u64_locked font n s) | _ \<Rightarrow> (Trap, s))
               else if v = 120 then
                 (case as of PU64 n # as \<Rightarrow> s_printf font cs as (emit_x64_locked font n s) | _ \<Rightarrow> (Trap, s))
               else if v = 99 then
                 (case as of PInt n # as \<Rightarrow> s_printf font cs as (s_putc_locked font (of_int n) s) | _ \<Rightarrow> (Trap, s))
               else if v = 37 then s_printf font cs as (s_putc_locked font 37 s)
               else if v = 0 then (Trap, s_putc_locked font 63 s)
               else s_printf font cs as (s_putc_locked font 63 s))"

section \<open>What is sent\<close>

text \<open>The bytes each routine sends, and what the screen sees of them: the console receives the same
  bytes in the same order.\<close>

definition crlf :: "u8 list \<Rightarrow> u8 list" where
  "crlf bs = concat (map (\<lambda>c. if c = 10 then [13, 10] else [c]) bs)"

definition sends :: "font \<Rightarrow> (ser \<Rightarrow> ser) \<Rightarrow> u8 list \<Rightarrow> bool" where
  "sends font f bs \<longleftrightarrow> (\<forall>out d. f (out, d) = (out @ bs, fold (cons_putc font) bs d))"

lemma sends_cong: "sends font f bs \<Longrightarrow> bs = bs' \<Longrightarrow> sends font f bs'"
  by simp

lemma sends_putc: "sends font (s_putc_locked font c) [c]"
  by (simp add: sends_def s_putc_locked_def s_rawc_def)

lemma sends_id: "sends font (\<lambda>s. s) []"
  by (simp add: sends_def)

lemma sends_comp: "sends font f as \<Longrightarrow> sends font g bs \<Longrightarrow> sends font (\<lambda>s. g (f s)) (as @ bs)"
  by (simp add: sends_def)

lemma sends_fold: "(\<And>x. x \<in> set xs \<Longrightarrow> sends font (f x) (g x)) \<Longrightarrow> sends font (fold f xs) (concat (map g xs))"
proof (induction xs)
  case (Cons x xs)
  then have "sends font (f x) (g x)" "sends font (fold f xs) (concat (map g xs))" by auto
  then show ?case by (simp add: sends_def)
qed (simp add: sends_def)

lemma sends_putnl: "sends font (s_putnl font c) (if c = 10 then [13, 10] else [c])"
  using sends_putc [of font 10] sends_putc [of font c] sends_putc [of font 13] by (simp add: s_putnl_def sends_def)

lemma sends_all: "sends font (fold (s_putc_locked font) bs) bs"
  using sends_fold [of bs font "s_putc_locked font" "\<lambda>c. [c]"] by (simp add: sends_putc)

lemma sends_lines: "sends font (fold (s_putnl font) bs) (crlf bs)"
  unfolding crlf_def by (rule sends_fold) (rule sends_putnl)

lemma sends_puts: "sends font (s_puts font str) (crlf (takeWhile (\<lambda>c. c \<noteq> 0) str))"
  "sends font (s_puts_locked font str) (crlf (takeWhile (\<lambda>c. c \<noteq> 0) str))"
  by (simp_all add: s_puts_def s_puts_locked_def sends_lines)

lemma sends_write: "sends font (s_write font (Some bs)) (crlf bs)"
  by (simp add: s_write_def sends_lines)

definition dec_text :: "u64 \<Rightarrow> u8 list" where
  "dec_text v = (if v = 0 then [48] else rev (dec_buf 20 v))"

definition hex_text :: "u64 \<Rightarrow> u8 list" where
  "hex_text v = [48, 120] @ map (\<lambda>i. hex_digit i v) (rev [0..<16])"

lemma sends_dec: "sends font (emit_u64_locked font v) (dec_text v)" "sends font (s_dec64 font v) (dec_text v)"
  using sends_putc sends_all by (simp_all add: emit_u64_locked_def s_dec64_def s_putc_def dec_text_def)

lemma sends_hex: "sends font (emit_x64_locked font v) (hex_text v)" "sends font (s_hex64 font v) (hex_text v)"
proof -
  have "sends font (\<lambda>s. s_putc_locked font 120 (s_putc_locked font 48 s)) [48, 120]"
    using sends_putc by (simp add: sends_def)
  moreover have "sends font (fold (\<lambda>i. s_putc_locked font (hex_digit i v)) (rev [0..<16])) (map (\<lambda>i. hex_digit i v) (rev [0..<16]))"
    using sends_fold [of "rev [0..<16]" font "\<lambda>i. s_putc_locked font (hex_digit i v)" "\<lambda>i. [hex_digit i v]"]
    by (simp add: sends_putc concat_map_singleton del: upt_rec_numeral)
  ultimately show "sends font (emit_x64_locked font v) (hex_text v)"
    using sends_comp by (fastforce simp: emit_x64_locked_def hex_text_def sends_def)
  then show "sends font (s_hex64 font v) (hex_text v)" by (simp add: s_hex64_def)
qed

section \<open>Numbers are readable\<close>

text \<open>A reader of decimal digits, highest first.\<close>

definition read_dec :: "u8 list \<Rightarrow> nat" where
  "read_dec = foldl (\<lambda>n c. 10 * n + (unat c - 48)) 0"

lemma read_dec_snoc: "read_dec (bs @ [c]) = 10 * read_dec bs + (unat c - 48)"
  by (simp add: read_dec_def)

lemma digit_byte:
  assumes "x < 10"
  shows "unat (48 + ucast (x::u64) :: u8) = 48 + unat x"
proof -
  have "unat x < 10" using assms by (simp add: word_less_nat_alt)
  moreover from this have "unat (ucast x :: u8) = unat x" by (simp add: unsigned_ucast_eq take_bit_nat_eq_self)
  ultimately show ?thesis by (simp add: unat_word_ariths)
qed

lemma mod10_less: "(v::u64) mod 10 < 10"
  by (simp add: word_less_nat_alt unat_mod)

lemma dec_buf_value: "unat v < 10 ^ n \<Longrightarrow> read_dec (rev (dec_buf n v)) = unat v"
proof (induction n arbitrary: v)
  case (Suc n)
  have d: "unat (v div 10) = unat v div 10" "unat (v mod 10) = unat v mod 10" by (simp_all add: unat_div unat_mod)
  then have "unat (v div 10) < 10 ^ n" using Suc.prems by (simp add: less_mult_imp_div_less)
  then have "read_dec (rev (dec_buf n (v div 10))) = unat v div 10" using Suc.IH d by simp
  then show ?case using digit_byte [OF mod10_less, of v] d by (simp add: read_dec_snoc word_gt_0 unat_eq_zero) (simp add: read_dec_def)
qed (simp add: read_dec_def)

lemma dec_buf_digits: "c \<in> set (dec_buf n v) \<Longrightarrow> 48 \<le> unat c \<and> unat c \<le> 57"
proof (induction n v rule: dec_buf.induct)
  case (2 n v)
  show ?case
  proof (cases "c \<in> set (dec_buf n (v div 10))")
    case True
    with 2 show ?thesis by (auto split: if_splits)
  next
    case False
    then have "c = 48 + ucast (v mod 10)" using 2(2) by (auto split: if_splits)
    then show ?thesis using digit_byte [OF mod10_less, of v] mod10_less [of v] by (simp add: word_less_nat_alt)
  qed
qed simp

lemma length_dec_buf: "length (dec_buf n v) \<le> n"
  by (induction n v rule: dec_buf.induct) auto

lemma dec_buf_top: "v > 0 \<Longrightarrow> unat v < 10 ^ n \<Longrightarrow> last (dec_buf n v) \<noteq> 48"
proof (induction n arbitrary: v)
  case (Suc n)
  have d: "unat (v div 10) = unat v div 10" by (simp add: unat_div)
  show ?case
  proof (cases "v div 10 > 0")
    case True
    moreover have "unat (v div 10) < 10 ^ n" using Suc.prems d by (simp add: less_mult_imp_div_less)
    moreover have "n \<noteq> 0" using calculation by (cases n) (auto simp: word_gt_0 unat_eq_zero)
    then have "dec_buf n (v div 10) \<noteq> []" using True by (cases n) auto
    ultimately show ?thesis using Suc by simp
  next
    case False
    then have z: "v div 10 = 0" by (simp add: word_gt_0)
    then have "unat v div 10 = 0" using d by simp
    then have "unat v < 10" by simp
    then have lt: "v < 10" by (simp add: word_less_nat_alt)
    then have "v mod 10 = v" by (metis mod_word_less)
    moreover have "unat (48 + ucast v :: u8) \<noteq> 48" using digit_byte [OF lt] Suc.prems(1) by (simp add: word_gt_0 unat_eq_zero)
    moreover have "dec_buf n 0 = []" by (cases n) simp_all
    ultimately show ?thesis using Suc.prems(1) z by auto
  qed
qed (simp add: word_gt_0 unat_eq_zero)

text \<open>Twenty bytes are enough for every 64-bit value.\<close>

lemma u64_20_digits: "unat (v::u64) < 10 ^ 20"
  using unat_u64 [of v] by simp

text \<open>A reader of hexadecimal digits.\<close>

definition hex_val :: "u8 \<Rightarrow> nat" where
  "hex_val c = (if unat c < 58 then unat c - 48 else unat c - 55)"

definition read_hex :: "u8 list \<Rightarrow> nat" where
  "read_hex = foldl (\<lambda>n c. 16 * n + hex_val c) 0"

lemma hex_digit_val: "hex_val (hex_digit i (v::u64)) = unat v div 16 ^ i mod 16"
proof -
  let ?d = "ucast (drop_bit (i * 4) v AND 0xF) :: u8"
  have m: "drop_bit (i * 4) v AND 0xF = take_bit 4 (drop_bit (i * 4) v)" by (simp add: take_bit_eq_mask mask_eq_exp_minus_1)
  have u: "unat (drop_bit (i * 4) v AND 0xF) = unat v div 16 ^ i mod 16"
  proof -
    have "unat (take_bit 4 (drop_bit (i * 4) v)) = take_bit 4 (drop_bit (i * 4) (unat v))"
      using unat_u64 [of v] by (simp add: unsigned_take_bit_eq unsigned_drop_bit_eq take_bit_nat_eq_self)
    also have "\<dots> = unat v div 2 ^ (4 * i) mod 2 ^ 4" by (simp add: take_bit_eq_mod drop_bit_eq_div mult.commute)
    also have "(2::nat) ^ (4 * i) = 16 ^ i" by (simp add: power_mult)
    finally show ?thesis using m by simp
  qed
  have lt: "unat v div 16 ^ i mod 16 < 16" by simp
  have d: "unat ?d = unat v div 16 ^ i mod 16" using lt u by (simp add: unsigned_ucast_eq take_bit_nat_eq_self)
  have c: "unat (48 + ?d) = 48 + unat ?d" "unat (65 + ?d - 10) = 55 + unat ?d"
  proof -
    have "unat ?d < 16" using d lt by simp
    then show "unat (48 + ?d) = 48 + unat ?d" by (simp add: unat_word_ariths)
    have "65 + ?d - 10 = 55 + ?d" by simp
    then show "unat (65 + ?d - 10) = 55 + unat ?d" using \<open>unat ?d < 16\<close> by (simp add: unat_word_ariths)
  qed
  show ?thesis
  proof (cases "?d < 10")
    case True
    then have "unat ?d < 10" by (simp add: word_less_nat_alt)
    with c d True show ?thesis by (simp add: hex_digit_def hex_val_def)
  next
    case False
    then have "\<not> unat ?d < 10" by (simp add: word_less_nat_alt)
    with c d False show ?thesis by (simp add: hex_digit_def hex_val_def)
  qed
qed

lemma read_hex_upt: "read_hex (map (\<lambda>i. hex_digit i (v::u64)) (rev [0..<n])) = unat v mod 16 ^ n"
proof -
  have "foldl (\<lambda>n c. 16 * n + hex_val c) a (map (\<lambda>i. hex_digit i v) (rev [0..<n])) = 16 ^ n * a + unat v mod 16 ^ n" for a
  proof (induction n arbitrary: a)
    case (Suc n)
    have "unat v mod 16 ^ Suc n = 16 ^ n * (unat v div 16 ^ n mod 16) + unat v mod 16 ^ n"
      using mod_mult2_eq [of "unat v" "16 ^ n" 16] by (simp only: power_Suc2)
    moreover have "foldl (\<lambda>n c. 16 * n + hex_val c) a (map (\<lambda>i. hex_digit i v) (rev [0..<Suc n])) =
        16 ^ n * (16 * a + unat v div 16 ^ n mod 16) + unat v mod 16 ^ n"
      by (simp add: Suc.IH hex_digit_val)
    ultimately show ?case by (simp add: algebra_simps)
  qed simp
  then show ?thesis by (simp add: read_hex_def)
qed

section \<open>Properties\<close>

text \<open>Every 64-bit number is printed so that it can be read back: in decimal at most twenty digits, without a
  leading zero unless the number is zero; in hexadecimal \<^verbatim>\<open>0x\<close> and exactly sixteen digits.  The
  serial line and the console receive the same bytes in the same order, and nothing sent before is changed.\<close>

theorem serial_numbers_roundtrip:
  "\<exists>ds hs. s_dec64 font v (out, d) = (out @ ds, fold (cons_putc font) ds d) \<and> read_dec ds = unat v \<and>
     0 < length ds \<and> length ds \<le> 20 \<and> list_all (\<lambda>c. 48 \<le> unat c \<and> unat c \<le> 57) ds \<and> (hd ds = 48 \<longleftrightarrow> v = 0) \<and>
     s_hex64 font v (out, d) = (out @ [48, 120] @ hs, fold (cons_putc font) ([48, 120] @ hs) d) \<and> read_hex hs = unat v \<and>
     length hs = 16"
proof (intro exI conjI)
  let ?ds = "dec_text v" and ?hs = "map (\<lambda>i. hex_digit i v) (rev [0..<16])"
  show "s_dec64 font v (out, d) = (out @ ?ds, fold (cons_putc font) ?ds d)" using sends_dec(2) by (simp add: sends_def)
  show "read_dec ?ds = unat v" using dec_buf_value [OF u64_20_digits, of v] by (simp add: dec_text_def read_dec_def)
  show "0 < length ?ds" by (auto simp: dec_text_def word_gt_0 numeral_eq_Suc)
  show "length ?ds \<le> 20" using length_dec_buf [of 20 v] by (simp add: dec_text_def)
  show "list_all (\<lambda>c. 48 \<le> unat c \<and> unat c \<le> 57) ?ds" using dec_buf_digits [of _ 20 v] by (auto simp: dec_text_def list_all_iff)
  show "hd ?ds = 48 \<longleftrightarrow> v = 0" using dec_buf_top [OF _ u64_20_digits, of v] by (auto simp: dec_text_def hd_rev word_gt_0)
  show "s_hex64 font v (out, d) = (out @ [48, 120] @ ?hs, fold (cons_putc font) ([48, 120] @ ?hs) d)"
    using sends_hex(2) [of font v] unfolding sends_def hex_text_def by blast
  show "read_hex ?hs = unat v" unfolding read_hex_upt using unat_u64 [of v] by simp
  show "length ?hs = 16" by simp
qed

end
