(* ===== verification/Smp.thy ===== *)
theory Smp
  imports Serial
begin

text \<open>
  Processors and inter-processor interrupts of \<^verbatim>\<open>src/k64/smp64.c\<close>.  The state is the static
  variables of that file; the interrupt controller is seen through what it does: a CPU's LAPIC id, and the
  CPUs an IPI is delivered to.  Delays, the calibration of the timer and the trampoline's code are not part of
  the state.
\<close>

definition NCPU_MAX :: nat where "NCPU_MAX = 4"
definition VEC_IPI_TEST :: u64 where "VEC_IPI_TEST = 96"
definition VEC_IPI_TLB :: u64 where "VEC_IPI_TLB = 97"
definition VEC_AP_TIMER :: u64 where "VEC_AP_TIMER = 80"
definition VEC_SPURIOUS :: u64 where "VEC_SPURIOUS = 255"

record smp64 =
  apic_ids :: "nat \<Rightarrow> u32"
  ap_ready :: "nat \<Rightarrow> bool"
  ncpus :: nat
  test_ack :: "nat \<Rightarrow> u64"
  tlb_ack :: "nat \<Rightarrow> u64"
  spur_count :: "nat \<Rightarrow> u64"
  pending_va :: "nat \<Rightarrow> u64"
  ap_timer_go :: "nat \<Rightarrow> bool"
  shoot_busy :: "nat \<Rightarrow> bool"

section \<open>Who am I\<close>

text \<open>\<open>lid\<close> is the LAPIC id of the executing CPU.\<close>

definition smp_cpu_index :: "u32 \<Rightarrow> smp64 \<Rightarrow> int" where
  "smp_cpu_index lid s = (case scan (\<lambda>i. apic_ids s i = lid) 0 (ncpus s) of None \<Rightarrow> -1 | Some i \<Rightarrow> int i)"

definition smp_in_shootdown :: "u32 \<Rightarrow> smp64 \<Rightarrow> bool" where
  "smp_in_shootdown lid s =
     (let me = smp_cpu_index lid s in if 0 \<le> me \<and> me < int NCPU_MAX then shoot_busy s (nat me) else False)"

text \<open>\<open>ap_stacks\<close> is the address of the array of four boot stacks of 16 KB.\<close>

definition smp_cpu_by_stack :: "u64 \<Rightarrow> u64 \<Rightarrow> nat" where
  "smp_cpu_by_stack ap_stacks rsp =
     (case scan (\<lambda>i. let lo = ap_stacks + of_nat i * 16384; hi = lo + 16384 in rsp \<ge> lo \<and> rsp < hi) 1 NCPU_MAX of
        None \<Rightarrow> 0 | Some i \<Rightarrow> i)"

section \<open>Acknowledgements\<close>

definition smp_ack_test :: "u32 \<Rightarrow> smp64 \<Rightarrow> smp64" where
  "smp_ack_test lid s =
     (let i = smp_cpu_index lid s
      in if 0 \<le> i then s\<lparr>test_ack := (test_ack s)(nat i := test_ack s (nat i) + 1)\<rparr> else s)"

text \<open>The translations the CPU drops: all of them, or those of one page.\<close>

datatype flush = Flush_all | Flush_page u64

definition smp_ack_tlb :: "u32 \<Rightarrow> smp64 \<Rightarrow> flush option \<times> smp64" where
  "smp_ack_tlb lid s =
     (let i = smp_cpu_index lid s
      in if 0 \<le> i then
           (Some (if pending_va s (nat i) = - 1 then Flush_all else Flush_page (pending_va s (nat i))),
            s\<lparr>tlb_ack := (tlb_ack s)(nat i := tlb_ack s (nat i) + 1)\<rparr>)
         else (None, s))"

definition smp_ack_spurious :: "u32 \<Rightarrow> smp64 \<Rightarrow> smp64" where
  "smp_ack_spurious lid s =
     (let i = smp_cpu_index lid s
      in if 0 \<le> i then s\<lparr>spur_count := (spur_count s)(nat i := spur_count s (nat i) + 1)\<rparr> else s)"

section \<open>Bring-up\<close>

text \<open>What an application processor does to the shared variables when it comes up with LAPIC id \<open>lid\<close>.\<close>

definition ap_main :: "nat \<Rightarrow> u32 \<Rightarrow> smp64 \<Rightarrow> smp64" where
  "ap_main i lid s =
     (if i = 0 \<or> i \<ge> NCPU_MAX then s
      else s\<lparr>apic_ids := (apic_ids s)(i := lid), ap_ready := (ap_ready s)(i := True)\<rparr>)"

text \<open>One turn of the bring-up loop; \<open>up ap\<close> is the id of the processor that answers the start-up IPIs for
  \<open>ap\<close> in time, if one does.\<close>

definition start_ap :: "font \<Rightarrow> (nat \<Rightarrow> u32 option) \<Rightarrow> nat \<Rightarrow> smp64 \<times> ser \<Rightarrow> smp64 \<times> ser" where
  "start_ap ft up ap = (\<lambda>(s, o').
     let s = (case up ap of None \<Rightarrow> s | Some lid \<Rightarrow> ap_main ap lid s)
     in if ap_ready s ap then
          (s\<lparr>ncpus := ap + 1\<rparr>,
           snd (s_printf ft (lit ''[K64] M6 AP%u awake (LAPIC %u)\<newline>'') [PU64 (of_nat ap), PU64 (ucast (apic_ids s ap))] o'))
        else (s, snd (s_printf ft (lit ''[K64] M6 AP%u timeout (not started)\<newline>'') [PU64 (of_nat ap)] o')))"

text \<open>\<open>lid\<close> is the id of the boot processor, \<open>tlen\<close> the size of the trampoline.\<close>

definition smp_init :: "font \<Rightarrow> u32 \<Rightarrow> u64 \<Rightarrow> (nat \<Rightarrow> u32 option) \<Rightarrow> smp64 \<times> ser \<Rightarrow> smp64 \<times> ser" where
  "smp_init ft lid tlen up = (\<lambda>(s, o').
     let s = s\<lparr>apic_ids := (apic_ids s)(0 := lid), ap_ready := (ap_ready s)(0 := True), ncpus := 1\<rparr>
     in if tlen = 0 \<or> tlen > 2048 then (s, s_puts ft (lit ''[K64] M6 no trampoline image, SMP disabled\<newline>'') o')
        else
          let (s, o') = fold (start_ap ft up) [1..<NCPU_MAX] (s, o')
          in (s, s_puts ft [10] (s_dec64 ft (of_nat (ncpus s)) (s_puts ft (lit ''[K64] M6 ncpus='') o'))))"

text \<open>The CPUs that get the test IPI are those of the ids returned.\<close>

definition smp_wake_aps :: "smp64 \<Rightarrow> u32 list \<times> smp64" where
  "smp_wake_aps s =
     (map (apic_ids s) [1..<ncpus s], s\<lparr>ap_timer_go := (\<lambda>i. if 1 \<le> i \<and> i < ncpus s then True else ap_timer_go s i)\<rparr>)"

end
