(* ===== verification/Kbd.thy ===== *)
theory Kbd
  imports Ring
begin

text \<open>
  The PS/2 keyboard of \<^verbatim>\<open>src/k64/kbd64.c\<close>: translation of set-1 scancodes with shift and
  caps lock, and the ring of 256 characters between the interrupt handler and
  \<^verbatim>\<open>SYS_GETCHAR\<close>.  \<^verbatim>\<open>kbd_init\<close> only drains the controller and changes no state here.
\<close>

record kbd64 =
  kbd_buf :: "nat \<Rightarrow> u8"
  kbd_head :: u8
  kbd_tail :: u8
  kbd_shift :: bool
  kbd_caps :: bool

text \<open>The two layout tables; entries past the end of the initialiser are 0.\<close>

definition kbd_map :: "u8 list" where
  "kbd_map = [0, 27] @ map of_char ''1234567890-='' @ [8, 9] @ map of_char ''qwertyuiop[]'' @ [10, 0] @
     map of_char ''asdfghjkl;'' @ [39, 96, 0, 92] @ map of_char ''zxcvbnm,./'' @ [0, 42, 0, 32, 0]"

definition kbd_map_shift :: "u8 list" where
  "kbd_map_shift = [0, 27] @ map of_char ''!@#$%^&*()_+'' @ [8, 9] @ map of_char ''QWERTYUIOP{}'' @ [10, 0] @
     map of_char ''ASDFGHJKL:'' @ [34, 126, 0, 124] @ map of_char ''ZXCVBNM<>?'' @ [0, 42, 0, 32, 0]"

definition tab_get :: "u8 list \<Rightarrow> u8 \<Rightarrow> u8" where
  "tab_get t sc = (if unat sc < length t then t ! unat sc else 0)"

definition is_letter :: "u8 \<Rightarrow> bool" where
  "is_letter c \<longleftrightarrow> (97 \<le> c \<and> c \<le> 122) \<or> (65 \<le> c \<and> c \<le> 90)"

definition kbd_translate :: "u8 \<Rightarrow> kbd64 \<Rightarrow> int \<times> kbd64" where
  "kbd_translate sc k =
     (if sc = 0x2A \<or> sc = 0x36 then (-1, k\<lparr>kbd_shift := True\<rparr>)
      else if sc = 0xAA \<or> sc = 0xB6 then (-1, k\<lparr>kbd_shift := False\<rparr>)
      else if sc = 0x3A then (-1, k\<lparr>kbd_caps := \<not> kbd_caps k\<rparr>)
      else if sc AND 0x80 \<noteq> 0 then (-1, k)
      else if sc \<ge> 128 then (-1, k)
      else
        let c = (if kbd_shift k then tab_get kbd_map_shift sc else tab_get kbd_map sc);
            c = (if kbd_caps k \<and> is_letter c then c XOR 0x20 else c)
        in if c = 0 then (-1, k) else (uint c, k))"

definition kbd_push_raw :: "u8 \<Rightarrow> kbd64 \<Rightarrow> kbd64" where
  "kbd_push_raw c k =
     (let h = kbd_head k; n = h + 1
      in if n = kbd_tail k then k
         else k\<lparr>kbd_buf := (kbd_buf k)(unat h := c), kbd_head := n\<rparr>)"

text \<open>\<^verbatim>\<open>kbd_try_get\<close>: \<open>None\<close> is the result -1.\<close>

definition kbd_try_get :: "kbd64 \<Rightarrow> (u8 \<times> kbd64) option" where
  "kbd_try_get k =
     (let t = kbd_tail k
      in if t = kbd_head k then None
         else Some (kbd_buf k (unat t), k\<lparr>kbd_tail := t + 1\<rparr>))"

section \<open>The ring is a bounded queue\<close>

definition kbd_items :: "kbd64 \<Rightarrow> u8 list" where
  "kbd_items k = ring_items 256 (kbd_buf k) (unat (kbd_head k)) (unat (kbd_tail k))"

lemma u8_next: "unat ((x::u8) + 1) = Suc (unat x) mod 256"
  by (simp add: unat_word_ariths)

lemma u8_bound: "unat (x::u8) < 256"
  using unsigned_less [of x] by simp

lemma u8_eq_iff: "(x::u8) = y \<longleftrightarrow> unat x = unat y"
  by (rule word_unat_eq_iff)

interpretation kbdq: bounded_queue kbd_push_raw kbd_try_get kbd_items "\<lambda>_. True" 255
proof
  fix q :: kbd64 and x :: u8
  have full: "kbd_head q + 1 = kbd_tail q \<longleftrightarrow> length (kbd_items q) = 255"
    using ring_full_iff [OF u8_bound [of "kbd_head q"] u8_bound [of "kbd_tail q"]]
    by (simp add: u8_eq_iff u8_next kbd_items_def)
  have b: "length (kbd_items q) \<le> 255" using ring_items_bound [of 256] by (simp add: kbd_items_def)
  show "kbd_items (kbd_push_raw x q) = (if length (kbd_items q) < 255 then kbd_items q @ [x] else kbd_items q)"
    using ring_push [OF u8_bound [of "kbd_head q"] u8_bound [of "kbd_tail q"], of "kbd_buf q" x] full b
    by (auto simp: kbd_push_raw_def Let_def kbd_items_def u8_next u8_eq_iff)
  show "length (kbd_items q) \<le> 255" by (rule b)
  show "kbd_try_get q = None" if "kbd_items q = []"
    using that ring_empty_iff [OF u8_bound [of "kbd_head q"] u8_bound [of "kbd_tail q"]]
    by (simp add: kbd_try_get_def Let_def kbd_items_def u8_eq_iff flip: length_0_conv)
  show "\<exists>q'. kbd_try_get q = Some (x, q') \<and> kbd_items q' = xs \<and> True" if "kbd_items q = x # xs" for xs
  proof -
    have "length (kbd_items q) \<noteq> 0" using that by simp
    then have "kbd_head q \<noteq> kbd_tail q"
      using ring_empty_iff [OF u8_bound [of "kbd_head q"] u8_bound [of "kbd_tail q"]]
      by (auto simp: kbd_items_def)
    with ring_pop [OF u8_bound [of "kbd_head q"] u8_bound [of "kbd_tail q"], of "kbd_buf q"] that show ?thesis
      by (auto simp: kbd_try_get_def Let_def kbd_items_def u8_next u8_eq_iff)
  qed
qed simp_all

section \<open>Properties\<close>

text \<open>The keyboard ring is a first-in first-out queue of 255 characters: whatever has been
  buffered is read back in order, each character once; a character pushed into a full ring is
  dropped and changes nothing; and an empty ring reads as -1.\<close>

theorem kbd_ring_fifo:
  assumes "drain kbd_try_get n (fold kbd_push_raw cs k) = (xs, k')" and "length (kbd_items k) + length cs \<le> 255"
  shows "xs = take n (kbd_items k @ cs) \<and> kbd_items k' = drop n (kbd_items k @ cs)"
  using kbdq.push_all_items [of k cs] kbdq.drain_items [OF _ assms(1)] assms(2) by simp

lemma letters_shift_table:
  assumes "n < 59" "97 \<le> kbd_map ! n" "kbd_map ! n \<le> 122"
  shows "kbd_map_shift ! n = kbd_map ! n - 32 \<and> n \<noteq> 0x2A \<and> n \<noteq> 0x36 \<and> n \<noteq> 0x3A"
proof -
  have "list_all (\<lambda>n. 97 \<le> kbd_map ! n \<and> kbd_map ! n \<le> 122 \<longrightarrow>
           kbd_map_shift ! n = kbd_map ! n - 32 \<and> n \<noteq> 0x2A \<and> n \<noteq> 0x36 \<and> n \<noteq> 0x3A) [0..<59]"
    by code_simp
  with assms show ?thesis by (simp add: list_all_iff)
qed

lemma length_kbd_map: "length kbd_map = 59" "length kbd_map_shift = 59"
  by (simp_all add: kbd_map_def kbd_map_shift_def)

lemma letter_xor:
  assumes "97 \<le> (c::u8)" "c \<le> 122"
  shows "c XOR 0x20 = c - 32" "(c - 32) XOR 0x20 = c" "65 \<le> c - 32" "c - 32 \<le> 90"
proof -
  have "list_all (\<lambda>n. let c = word_of_nat n :: u8 in c XOR 0x20 = c - 32 \<and> (c - 32) XOR 0x20 = c \<and> 65 \<le> c - 32 \<and> c - 32 \<le> 90) [97..<123]"
    by code_simp
  moreover have "unat c \<in> set [97..<123]" using assms unfolding word_le_nat_alt set_upt atLeastLessThan_iff by simp
  ultimately have "let c = word_of_nat (unat c) :: u8 in c XOR 0x20 = c - 32 \<and> (c - 32) XOR 0x20 = c \<and> 65 \<le> c - 32 \<and> c - 32 \<le> 90"
    unfolding list_all_iff by (rule bspec)
  then show "c XOR 0x20 = c - 32" "(c - 32) XOR 0x20 = c" "65 \<le> c - 32" "c - 32 \<le> 90"
    by (simp_all add: Let_def)
qed

text \<open>On a letter key the driver yields the upper-case letter exactly when one of shift and
  caps lock is active, and the lower-case letter otherwise; the modifier state is unchanged.\<close>

theorem kbd_letter_case:
  assumes "97 \<le> tab_get kbd_map sc" and "tab_get kbd_map sc \<le> 122"
  shows "kbd_translate sc k =
     (uint (if kbd_shift k \<noteq> kbd_caps k then tab_get kbd_map sc - 32 else tab_get kbd_map sc), k)"
proof -
  let ?c = "tab_get kbd_map sc"
  have n: "unat sc < 59" using assms(1) by (auto simp: tab_get_def length_kbd_map split: if_splits)
  then have c: "?c = kbd_map ! unat sc" "tab_get kbd_map_shift sc = kbd_map_shift ! unat sc"
    by (simp_all add: tab_get_def length_kbd_map)
  have t: "tab_get kbd_map_shift sc = ?c - 32" and keys: "unat sc \<noteq> 0x2A" "unat sc \<noteq> 0x36" "unat sc \<noteq> 0x3A"
    using letters_shift_table [OF n] assms unfolding c by auto
  have s: "sc \<noteq> 0x2A" "sc \<noteq> 0x36" "sc \<noteq> 0x3A" using keys by auto
  have "sc \<noteq> 0xAA" "sc \<noteq> 0xB6" "\<not> sc \<ge> 128" using n by (auto simp: word_le_nat_alt)
  moreover have "sc AND 0x80 = 0"
  proof -
    have "\<not> bit sc 7"
    proof
      assume "bit sc 7"
      then have "bit (unat sc) 7" by (simp add: bit_unsigned_iff)
      then have "2 ^ 7 \<le> unat sc" by (metis bit_iff_odd div_less even_zero linorder_not_le)
      with n show False by simp
    qed
    then show ?thesis using word_and_single_bit [of sc 7] by simp
  qed
  moreover have "?c \<noteq> 0" "?c - 32 \<noteq> 0" using assms letter_xor(3) [OF assms] by auto
  moreover have "is_letter ?c" "is_letter (?c - 32)" using assms letter_xor(3,4) [OF assms] by (auto simp: is_letter_def)
  ultimately show ?thesis using s letter_xor(1,2) [OF assms] by (auto simp: kbd_translate_def Let_def t)
qed

section \<open>Witnesses\<close>

definition kbd_reset :: kbd64 where
  "kbd_reset = \<lparr>kbd_buf = (\<lambda>_. 0), kbd_head = 254, kbd_tail = 254, kbd_shift = False, kbd_caps = False\<rparr>"

lemma kbd_ring_fifo_witness:
  "fst (drain kbd_try_get 3 (fold kbd_push_raw [65, 66, 67] kbd_reset)) = [65, 66, 67]"
proof -
  have "kbd_items kbd_reset = []" by (simp add: kbd_items_def kbd_reset_def ring_items_def ring_len_def)
  with kbd_ring_fifo [of 3 "[65, 66, 67]" kbd_reset "fst (drain kbd_try_get 3 (fold kbd_push_raw [65, 66, 67] kbd_reset))"
      "snd (drain kbd_try_get 3 (fold kbd_push_raw [65, 66, 67] kbd_reset))"]
  show ?thesis by simp
qed

lemma kbd_letter_case_witness: "kbd_translate 0x1E kbd_reset = (97, kbd_reset)"
proof -
  have "tab_get kbd_map 0x1E = 97" by code_simp
  with kbd_letter_case [of "0x1E" kbd_reset] show ?thesis by (simp add: kbd_reset_def)
qed

end
