(* ===== verification/Task.thy ===== *)
theory Task
  imports Fd Fb Win Loader Smp Kbd
begin

text \<open>
  Tasks and the scheduler of \<^verbatim>\<open>src/k64/task64.c\<close>, over the state of the whole kernel.

  An operation runs on a CPU, \<open>me\<close>, whose registers are fields of the state: \<open>cr3_of\<close>,
  the FPU \<open>fpu_of\<close> and the kernel stack pointer of its TSS \<open>rsp0_of\<close>.  Kernel stacks are the map
  \<open>kmem\<close> from the address of an eight-byte word to its contents; \<open>r\<close> is the address of the frame an
  interrupt pushed, in which register \<open>n\<close> is the word at \<open>r + 8 * n\<close>.  A task is named by a slot of
  the table or as the idle task of a CPU.

  A section under \<^verbatim>\<open>sched_lock\<close> is one atomic step; where the code releases the lock in
  the middle of an operation, the part before is a definition of its own.
  Messages go to the serial log \<open>tx\<close> and, through it, to the console.
  The \<^verbatim>\<open>trace_cr3\<close> log is left out, and
  \<^verbatim>\<open>vmm_publish\<close> only flushes translation caches the model does not have.
\<close>

section \<open>State\<close>

datatype tstate = T_FREE | T_READY | T_RUNNING | T_ZOMBIE | T_BLOCKED | T_NEW

datatype tref = Slot nat | Idle nat

text \<open>The 512-byte FPU image, by eight-byte words.\<close>

type_synonym fximg = "nat \<Rightarrow> u64"

record task64 =
  trsp :: u64
  kstack_top :: u64
  user_base :: u64
  tcr3 :: u64
  tid :: int
  tstate :: tstate
  parent :: int
  waiting_for :: int
  wakeup_tick :: u64
  exit_code :: int
  last_cpu :: int
  heap_base :: u64
  heap_brk :: u64
  tname :: string
  fx :: fximg

text \<open>What linking and booting fix: the addresses of the kernel's arrays, the effect of the CPU's
  \<^verbatim>\<open>fninit\<close> on an FPU state, the console font and a boot option.\<close>

record layout =
  kstacks :: u64
  idle_stacks :: u64
  stack_top64 :: u64
  pml4_boot :: u64
  idle_main :: u64
  fninit :: "fximg \<Rightarrow> fximg"
  font :: "u8 \<Rightarrow> nat \<Rightarrow> u8"
  flag_spawn_clone :: bool
  ap_stacks :: u64

record k64 =
  tasks :: "nat \<Rightarrow> task64"
  idle_tasks :: "nat \<Rightarrow> task64"
  cur_cpu :: "nat \<Rightarrow> tref option"
  ticks :: u64
  kmem :: "u64 \<Rightarrow> u64"
  cr3_of :: "nat \<Rightarrow> u64"
  fpu_of :: "nat \<Rightarrow> fximg"
  rsp0_of :: "nat \<Rightarrow> u64"
  mm :: mem64
  dsk :: desk
  fbs :: fbsys
  fsys :: fdsys
  execs :: registry
  rnd :: aslr
  tx :: "u8 list"
  kbd :: kbd64
  blobs :: registry
  smp :: smp64

definition KSTACK_SIZE :: u64 where "KSTACK_SIZE = 16384"
definition USTACK_BASE :: u64 where "USTACK_BASE = 0x50000000"
definition USTACK_SLOT :: u64 where "USTACK_SLOT = 0x5000"
definition USTACK_SIZE :: u64 where "USTACK_SIZE = 0x4000"
definition DEMO_THREAD_EXIT_OFF :: u64 where "DEMO_THREAD_EXIT_OFF = 0x40"
definition DEMO_START_ARGS_OFF :: u64 where "DEMO_START_ARGS_OFF = 0x80"
definition BRK_MAX_SPAN :: u64 where "BRK_MAX_SPAN = 64 * 1024 * 1024"

definition task_of :: "tref \<Rightarrow> k64 \<Rightarrow> task64" where
  "task_of t k = (case t of Slot i \<Rightarrow> tasks k i | Idle i \<Rightarrow> idle_tasks k i)"

definition upd_task :: "tref \<Rightarrow> (task64 \<Rightarrow> task64) \<Rightarrow> k64 \<Rightarrow> k64" where
  "upd_task t f k =
     (case t of
        Slot i \<Rightarrow> k\<lparr>tasks := (tasks k)(i := f (tasks k i))\<rparr>
      | Idle i \<Rightarrow> k\<lparr>idle_tasks := (idle_tasks k)(i := f (idle_tasks k i))\<rparr>)"

text \<open>The number by which windows, files and the screen know a task.\<close>

definition tno :: "tref \<Rightarrow> task_id" where
  "tno t = (case t of Slot i \<Rightarrow> i | Idle i \<Rightarrow> 100 + i)"

section \<open>Parts of the state\<close>

text \<open>Memory operations see the page tables of the executing CPU; one that does not return traps.\<close>

definition on_mem :: "nat \<Rightarrow> (mem64 \<Rightarrow> ('a \<times> mem64) option) \<Rightarrow> (k64, 'a) opn" where
  "on_mem me f k =
     (case f ((mm k)\<lparr>live_cr3 := cr3_of k me\<rparr>) of
        None \<Rightarrow> (Trap, k)
      | Some (a, m) \<Rightarrow> (Val a, k\<lparr>mm := m, cr3_of := (cr3_of k)(me := live_cr3 m)\<rparr>))"

definition locked :: "(mem64 \<Rightarrow> 'a \<times> mem64) \<Rightarrow> mem64 \<Rightarrow> ('a \<times> mem64) option" where
  "locked f m =
     (case mem_lock_acquire m of None \<Rightarrow> None
      | Some m1 \<Rightarrow> let (a, m2) = f m1 in Some (a, mem_lock_release m2))"

definition with_root :: "u64 \<Rightarrow> (mem64 \<Rightarrow> 'a \<times> mem64) \<Rightarrow> mem64 \<Rightarrow> 'a \<times> mem64" where
  "with_root root f m = (let (a, m') = f (m\<lparr>vmm_root := root\<rparr>) in (a, m'\<lparr>vmm_root := vmm_root m\<rparr>))"

definition on_files :: "(fdsys \<Rightarrow> fdsys) \<Rightarrow> (k64, unit) opn" where
  "on_files f = modify (\<lambda>k. k\<lparr>fsys := f (fsys k)\<rparr>)"

definition on_screen :: "nat \<Rightarrow> (scr, 'a) opn \<Rightarrow> (k64, 'a) opn" where
  "on_screen me f k =
     (case f (fbs k, (mm k)\<lparr>live_cr3 := cr3_of k me\<rparr>, dsk k) of
        (r, (b, m, d)) \<Rightarrow> (r, k\<lparr>fbs := b, mm := m, cr3_of := (cr3_of k)(me := live_cr3 m), dsk := d\<rparr>))"

definition on_serial :: "(ser, 'a) opn \<Rightarrow> (k64, 'a) opn" where
  "on_serial f k = (case f (tx k, dsk k) of (r, (t, d)) \<Rightarrow> (r, k\<lparr>tx := t, dsk := d\<rparr>))"

definition say :: "(ser \<Rightarrow> ser) \<Rightarrow> k64 \<Rightarrow> k64" where
  "say f k = (case f (tx k, dsk k) of (t, d) \<Rightarrow> k\<lparr>tx := t, dsk := d\<rparr>)"

definition teardown :: "layout \<Rightarrow> nat \<Rightarrow> u64 \<Rightarrow> (k64, unit) opn" where
  "teardown L me root = on_mem me (\<lambda>m. map_option (Pair ()) (vmm_teardown_space (pml4_boot L) root m))"

definition live_ok :: "nat \<Rightarrow> u64 \<Rightarrow> u64 \<Rightarrow> k64 \<Rightarrow> bool" where
  "live_ok me va len k = vmm_user_ok va len ((mm k)\<lparr>live_cr3 := cr3_of k me\<rparr>)"

text \<open>Kernel accesses to user memory go through the live tables.  \<^verbatim>\<open>CR0.WP\<close> is clear, so a
  store does not look at the permissions of the page; an absent page is fatal.\<close>

definition load_byte :: "u64 \<Rightarrow> mem64 \<Rightarrow> u8 option" where
  "load_byte va m =
     (case walk m 3 (live_cr3 m AND PTE_ADDR) va of
        None \<Rightarrow> None
      | Some (l, e) \<Rightarrow>
          let pa = (e AND PTE_ADDR) + (va AND mask (12 + 9 * l)); i = unat (pa AND 0xFFF)
          in Some (ucast (drop_bit (8 * (i mod 8)) (phys m (pa AND NOT 0xFFF) (i div 8)))))"

definition bytes_of :: "nat \<Rightarrow> u64 \<Rightarrow> u8 list" where
  "bytes_of n w = map (\<lambda>k. ucast (drop_bit (8 * k) w)) [0..<n]"

definition store_user :: "nat \<Rightarrow> u64 \<Rightarrow> u8 list \<Rightarrow> (k64, unit) opn" where
  "store_user me va bs = on_mem me (\<lambda>m. map_option (Pair ()) (store_bytes va bs m))"

definition cr3_swap :: "nat \<Rightarrow> u64 \<Rightarrow> (k64, u64) opn" where
  "cr3_swap me new k = (Val (cr3_of k me AND NOT 0xFFF), if new \<noteq> cr3_of k me AND NOT 0xFFF then k\<lparr>cr3_of := (cr3_of k)(me := new)\<rparr> else k)"

section \<open>Frames and registers\<close>

primrec put_words :: "u64 \<Rightarrow> u64 list \<Rightarrow> (u64 \<Rightarrow> u64) \<Rightarrow> u64 \<Rightarrow> u64" where
  "put_words a [] m = m"
| "put_words a (w # ws) m = put_words (a + 8) ws (m(a := w))"

definition reg_at :: "u64 \<Rightarrow> nat \<Rightarrow> u64" where
  "reg_at r n = r + of_nat n * 8"

abbreviation "R_RAX \<equiv> (14 :: nat)"
abbreviation "R_RIP \<equiv> (17 :: nat)"

definition set_reg :: "u64 \<Rightarrow> nat \<Rightarrow> u64 \<Rightarrow> (k64, unit) opn" where
  "set_reg r n v = modify (\<lambda>k. k\<lparr>kmem := (kmem k)(reg_at r n := v)\<rparr>)"

text \<open>\<^verbatim>\<open>r->rax = v; return (u64)r;\<close>\<close>

definition rax_ret :: "u64 \<Rightarrow> u64 \<Rightarrow> (k64, u64) opn" where
  "rax_ret r v = seq (set_reg r R_RAX v) (\<lambda>_. ret r)"

text \<open>The frame that is popped when the task first runs.\<close>

definition build_frame :: "tref \<Rightarrow> u64 \<Rightarrow> u64 \<Rightarrow> u64 \<Rightarrow> u64 \<Rightarrow> k64 \<Rightarrow> k64" where
  "build_frame t rip cs rsp ss k =
     (let sp = kstack_top (task_of t k) - 22 * 8
      in upd_task t (\<lambda>u. u\<lparr>trsp := sp\<rparr>)
           (k\<lparr>kmem := put_words sp (replicate 17 0 @ [rip, cs, 0x202, rsp, ss]) (kmem k)\<rparr>))"

section \<open>Slots\<close>

definition fx_init :: "layout \<Rightarrow> nat \<Rightarrow> tref \<Rightarrow> k64 \<Rightarrow> k64" where
  "fx_init L me t k =
     (let i = fninit L (fpu_of k me)
      in upd_task t (\<lambda>u. u\<lparr>fx := i\<rparr>) (k\<lparr>fpu_of := (fpu_of k)(me := i)\<rparr>))"

definition empty_fds :: "nat \<Rightarrow> fdsys \<Rightarrow> fdsys" where
  "empty_fds i f = f\<lparr>fd_tab := (fd_tab f)(i := \<lambda>n. if n < FD_MAX_TASK then -1 else fd_tab f i n)\<rparr>"

definition alloc_slot :: "layout \<Rightarrow> nat \<Rightarrow> string \<Rightarrow> (k64, nat option) opn" where
  "alloc_slot L me name k =
     (case scan (\<lambda>i. tstate (tasks k i) = T_FREE) 1 NTASK of
        None \<Rightarrow> (Val None, k)
      | Some i \<Rightarrow>
          (Val (Some i),
           fx_init L me (Slot i)
             (k\<lparr>tasks := (tasks k)(i := (tasks k i)\<lparr>tid := int i, tstate := T_NEW, trsp := 0, user_base := 0, tcr3 := 0,
                  kstack_top := kstacks L + of_nat (Suc i) * KSTACK_SIZE, parent := -1, waiting_for := -2, wakeup_tick := 0,
                  exit_code := 0, last_cpu := -1, heap_base := 0, heap_brk := 0, tname := name15 name\<rparr>),
                fsys := empty_fds i (fsys k)\<rparr>)))"

definition set_slot :: "nat \<Rightarrow> (task64 \<Rightarrow> task64) \<Rightarrow> (k64, unit) opn" where
  "set_slot i f = modify (upd_task (Slot i) f)"

definition task_publish :: "nat \<Rightarrow> (k64, unit) opn" where
  "task_publish i = set_slot i (\<lambda>u. if tstate u = T_NEW then u\<lparr>tstate := T_READY\<rparr> else u)"

definition task_unreserve :: "nat \<Rightarrow> (k64, unit) opn" where
  "task_unreserve i = set_slot i (\<lambda>u. if tstate u = T_NEW then u\<lparr>tstate := T_FREE\<rparr> else u)"

definition ustack_top :: "nat \<Rightarrow> u64" where
  "ustack_top i = USTACK_BASE + of_nat i * USTACK_SLOT + USTACK_SLOT"

text \<open>Four pages; the loop is the loader's.\<close>

definition map_ustack_locked :: "nat \<Rightarrow> mem64 \<Rightarrow> bool \<times> mem64" where
  "map_ustack_locked i m = map_pages 4 (ustack_top i - USTACK_SIZE) (VMM_RW OR VMM_US) m"

definition boot_task :: "nat \<Rightarrow> task64 \<Rightarrow> task64" where
  "boot_task i u = u\<lparr>tid := int i, tstate := T_FREE, trsp := 0, kstack_top := 0, user_base := 0, tcr3 := 0, parent := -1,
     waiting_for := -2, wakeup_tick := 0, exit_code := 0, last_cpu := -1, heap_base := 0, heap_brk := 0, tname := []\<rparr>"

definition idle_setup :: "layout \<Rightarrow> nat \<Rightarrow> nat \<Rightarrow> k64 \<Rightarrow> k64" where
  "idle_setup L me i k =
     (let top = idle_stacks L + of_nat (Suc i) * 4096
      in build_frame (Idle i) (idle_main L) 0x08 top 0x10
           (fx_init L me (Idle i)
             (upd_task (Idle i) (\<lambda>u. u\<lparr>tid := 100 + int i, tstate := T_READY, trsp := 0, kstack_top := top, user_base := 0,
                tcr3 := pml4_boot L, parent := -1, waiting_for := -2, wakeup_tick := 0, exit_code := 0, last_cpu := int i,
                tname := ''cpu-idle''\<rparr>) k)))"

definition task64_init :: "layout \<Rightarrow> nat \<Rightarrow> k64 \<Rightarrow> k64" where
  "task64_init L me k =
     (let k1 = k\<lparr>tasks := (\<lambda>i. if i < NTASK then boot_task i (tasks k i) else tasks k i),
                 fsys := fold empty_fds [0..<NTASK] (fsys k), cur_cpu := (\<lambda>_. None)\<rparr>;
          k2 = upd_task (Slot 0) (\<lambda>u. u\<lparr>tstate := T_RUNNING, kstack_top := stack_top64 L, tcr3 := pml4_boot L, parent := -1,
                 last_cpu := 0, tname := ''idle''\<rparr>) k1;
          k3 = fx_init L me (Slot 0) k2
      in fold (idle_setup L me) [0..<NCPU_MAX] (k3\<lparr>cur_cpu := (cur_cpu k3)(0 := Some (Slot 0))\<rparr>))"

section \<open>New images\<close>

text \<open>\<open>on_err m h\<close> runs \<open>h\<close> after \<open>m\<close> failed and reports the failure of \<open>m\<close>.\<close>

definition on_err :: "(k64, 'a) opn \<Rightarrow> (k64, unit) opn \<Rightarrow> (k64, 'a) opn" where
  "on_err m h k =
     (case m k of
        (Err e, k') \<Rightarrow> (case h k' of (Val _, k'') \<Rightarrow> (Err e, k'') | (Err _, k'') \<Rightarrow> (Err e, k'') | (Trap, k'') \<Rightarrow> (Trap, k''))
      | r \<Rightarrow> r)"

definition load_image :: "nat \<Rightarrow> u64 \<Rightarrow> u8 list \<Rightarrow> (k64, load_out) opn" where
  "load_image me target img k =
     (case loader_map_image target img (rnd k) ((mm k)\<lparr>live_cr3 := cr3_of k me\<rparr>) of
        None \<Rightarrow> (Trap, k)
      | Some (out, a, m) \<Rightarrow> (Val out, k\<lparr>rnd := a, mm := m, cr3_of := (cr3_of k)(me := live_cr3 m)\<rparr>))"

definition map_ustack :: "nat \<Rightarrow> u64 \<Rightarrow> nat \<Rightarrow> (k64, bool) opn" where
  "map_ustack me target i = on_mem me (locked (with_root target (map_ustack_locked i)))"

text \<open>Image and user stack of slot \<open>i\<close> in the fresh space \<open>target\<close>, which is dropped on failure:
  ENOEXEC for the image, ENOMEM for the stack.\<close>

definition wire_image :: "layout \<Rightarrow> nat \<Rightarrow> u64 \<Rightarrow> nat \<Rightarrow> u8 list \<Rightarrow> (k64, u64 \<times> u64 \<times> u64) opn" where
  "wire_image L me target i img =
     seq (load_image me target img) (\<lambda>out.
     case out of
       None \<Rightarrow> seq (teardown L me target) (\<lambda>_. fail (-8))
     | Some im \<Rightarrow>
         seq (map_ustack me target i) (\<lambda>ok.
         if ok then ret im else seq (teardown L me target) (\<lambda>_. fail (-12))))"

definition page_up :: "u64 \<Rightarrow> u64" where
  "page_up v = (v + 4095) AND NOT 4095"

definition clone_of :: "nat \<Rightarrow> u64 \<Rightarrow> (k64, u64) opn" where
  "clone_of me src = on_mem me (vmm_clone_space src)"

definition set_image :: "u64 \<Rightarrow> u64 \<Rightarrow> task64 \<Rightarrow> task64" where
  "set_image base img_end u = u\<lparr>user_base := base, heap_base := page_up img_end, heap_brk := page_up img_end\<rparr>"

definition task64_spawn_image :: "layout \<Rightarrow> nat \<Rightarrow> string \<Rightarrow> (k64, nat) opn" where
  "task64_spawn_image L me kname =
     seq (gets (\<lambda>k. exec_lookup kname (execs k))) (\<lambda>img.
     case img of
       None \<Rightarrow> fail (-1)
     | Some img \<Rightarrow>
         seq (alloc_slot L me kname) (\<lambda>t.
         case t of
           None \<Rightarrow> fail (-1)
         | Some i \<Rightarrow>
             seq (gets (\<lambda>k. cr3_of k me AND NOT 0xFFF)) (\<lambda>src.
             seq (clone_of me src) (\<lambda>child.
             if child = 0 then seq (task_unreserve i) (\<lambda>_. fail (-1))
             else
               seq (set_slot i (\<lambda>u. u\<lparr>tcr3 := child, parent := 0\<rparr>)) (\<lambda>_.
               seq (err_to (-1) (on_err (wire_image L me child i img) (task_unreserve i))) (\<lambda>(entry, base, img_end).
               seq (set_slot i (set_image base img_end)) (\<lambda>_.
               seq (modify (build_frame (Slot i) entry 0x1B (ustack_top i) 0x23)) (\<lambda>_.
               seq (task_publish i) (\<lambda>_. ret i)))))))))"

text \<open>The argument strings are stored from the top of the stack down; each occupies its bytes up to
  the NUL, at most 128, and one more.\<close>

fun push_args :: "u64 \<Rightarrow> u8 list list \<Rightarrow> mem64 \<Rightarrow> (u64 \<times> u64 list \<times> mem64) option" where
  "push_args p [] m = Some (p, [], m)"
| "push_args p (a # as) m =
     (let sl = min 128 (length (cbytes a)); q = p - (of_nat sl + 1)
      in case store_bytes q (take (sl + 1) (a @ [0])) m of
           None \<Rightarrow> None
         | Some m1 \<Rightarrow>
             (case push_args q as m1 of None \<Rightarrow> None | Some (p', vas, m2) \<Rightarrow> Some (p', q # vas, m2)))"

text \<open>Then \<^verbatim>\<open>argc\<close>, the address of the array and the array, the stack pointer being a
  multiple of 16.\<close>

definition argv_block :: "u64 \<Rightarrow> u8 list list \<Rightarrow> mem64 \<Rightarrow> (u64 \<times> mem64) option" where
  "argv_block stk args m =
     (case push_args stk args m of
        None \<Rightarrow> None
      | Some (p, vas, m1) \<Rightarrow>
          let p = (p - (of_nat (length args + 1) * 8 + 16)) AND NOT 15
          in map_option (Pair p)
               (store_bytes p (concat (map (bytes_of 8) ([of_nat (length args), p + 16] @ vas @ [0]))) m1))"

definition task64_spawn_args :: "layout \<Rightarrow> nat \<Rightarrow> string \<Rightarrow> u8 list list \<Rightarrow> (k64, nat) opn" where
  "task64_spawn_args L me kname args =
     (if length args > 16 then fail (-22)
      else
        seq (gets (\<lambda>k. exec_lookup kname (execs k))) (\<lambda>img.
        case img of
          None \<Rightarrow> fail (-2)
        | Some img \<Rightarrow>
            seq (alloc_slot L me kname) (\<lambda>t.
            case t of
              None \<Rightarrow> fail (-12)
            | Some i \<Rightarrow>
                seq (gets (\<lambda>k. if flag_spawn_clone L then cr3_of k me AND NOT 0xFFF else pml4_boot L)) (\<lambda>src.
                seq (clone_of me src) (\<lambda>child.
                if child = 0 then seq (task_unreserve i) (\<lambda>_. fail (-12))
                else
                  seq (gets (\<lambda>k. case cur_cpu k me of None \<Rightarrow> 0 | Some t \<Rightarrow> tid (task_of t k))) (\<lambda>pid.
                  seq (set_slot i (\<lambda>u. u\<lparr>tcr3 := child, parent := pid\<rparr>)) (\<lambda>_.
                  seq (on_err (wire_image L me child i img) (task_unreserve i)) (\<lambda>(entry, base, img_end).
                  seq (cr3_swap me child) (\<lambda>old.
                  seq (on_mem me (argv_block (ustack_top i) args)) (\<lambda>p.
                  seq (cr3_swap me old) (\<lambda>_.
                  seq (set_slot i (set_image base img_end)) (\<lambda>_.
                  seq (modify (build_frame (Slot i) (base + DEMO_START_ARGS_OFF) 0x1B p 0x23)) (\<lambda>_.
                  seq (task_publish i) (\<lambda>_. ret i))))))))))))))"

record ps_entry =
  ps_id :: int
  ps_state :: tstate
  ps_parent :: int
  ps_cpu :: int
  ps_name :: string

definition task64_ps :: "bool \<Rightarrow> int \<Rightarrow> (k64, ps_entry list) opn" where
  "task64_ps out mx =
     (if \<not> out \<or> mx \<le> 0 \<or> mx > 64 then fail (-22)
      else gets (\<lambda>k. map (\<lambda>u. \<lparr>ps_id = tid u, ps_state = tstate u, ps_parent = parent u, ps_cpu = last_cpu u, ps_name = tname u\<rparr>)
             (take (nat mx) (filter (\<lambda>u. tstate u \<noteq> T_FREE \<and> tstate u \<noteq> T_NEW) (map (tasks k) [0..<NTASK])))))"

text \<open>The name of an exec is copied from user memory byte by byte, 16 bytes at most; \<open>Some None\<close> when
  no NUL was found.\<close>

fun read_name :: "nat \<Rightarrow> u64 \<Rightarrow> mem64 \<Rightarrow> string option option" where
  "read_name 0 va m = Some None"
| "read_name (Suc n) va m =
     (case load_byte va m of
        None \<Rightarrow> None
      | Some b \<Rightarrow> if b = 0 then Some (Some [])
                  else map_option (map_option (\<lambda>s. char_of (unat b) # s)) (read_name n (va + 1) m))"

definition user_name :: "nat \<Rightarrow> u64 \<Rightarrow> (k64, string option) opn" where
  "user_name me va = on_mem me (\<lambda>m. map_option (\<lambda>s. (s, m)) (read_name 16 va m))"

definition release_screen :: "layout \<Rightarrow> nat \<Rightarrow> tref \<Rightarrow> (k64, unit) opn" where
  "release_screen L me t =
     seq (on_screen me (fb_owner_release (font L) (Some (tno t)))) (\<lambda>_.
     modify (\<lambda>k. k\<lparr>dsk := win_owner_release (Some (tno t)) (dsk k)\<rparr>))"

text \<open>The committed exec: all registers of the frame are set.\<close>

definition exec_commit :: "layout \<Rightarrow> nat \<Rightarrow> tref \<Rightarrow> u64 \<Rightarrow> string \<Rightarrow> u64 \<times> u64 \<times> u64 \<Rightarrow> u64 \<Rightarrow> (k64, u64) opn" where
  "exec_commit L me self fresh kname im r =
     (case im of (entry, base, img_end) \<Rightarrow>
      seq (gets (\<lambda>k. tcr3 (task_of self k))) (\<lambda>old.
      seq (modify (\<lambda>k. upd_task self (\<lambda>u. u\<lparr>tcr3 := fresh\<rparr>) (k\<lparr>cr3_of := (cr3_of k)(me := fresh)\<rparr>))) (\<lambda>_.
      seq (teardown L me old) (\<lambda>_.
      seq (release_screen L me self) (\<lambda>_.
      seq (modify (\<lambda>k. fx_init L me self (upd_task self (\<lambda>u. (set_image base img_end u)\<lparr>tname := name15 kname\<rparr>) k))) (\<lambda>_.
      seq (modify (\<lambda>k. k\<lparr>kmem := put_words (reg_at r R_RIP) [entry, 0x1B, 0x202, ustack_top (tno self), 0x23]
                                      (put_words r (replicate 15 0) (kmem k))\<rparr>)) (\<lambda>_.
      ret r)))))))"

definition task64_exec :: "layout \<Rightarrow> nat \<Rightarrow> u64 \<Rightarrow> u64 \<Rightarrow> (k64, u64) opn" where
  "task64_exec L me uname r =
     seq (gets (\<lambda>k. cur_cpu k me)) (\<lambda>c.
     seq (gets (\<lambda>k. c \<noteq> None \<and> tid (task_of (the c) k) \<noteq> 0)) (\<lambda>some.
     if \<not> some then rax_ret r (-1)
     else
       seq (gets (live_ok me uname 1)) (\<lambda>ok.
       if \<not> ok then rax_ret r (-14)
       else
         seq (user_name me uname) (\<lambda>kname.
         case kname of
           None \<Rightarrow> rax_ret r (-22)
         | Some kname \<Rightarrow>
             seq (gets (\<lambda>k. exec_lookup kname (execs k))) (\<lambda>img.
             case img of
               None \<Rightarrow> rax_ret r (-2)
             | Some img \<Rightarrow>
                 seq (clone_of me (pml4_boot L)) (\<lambda>fresh.
                 if fresh = 0 then rax_ret r (-12)
                 else (\<lambda>k. case wire_image L me fresh (tno (the c)) img k of
                             (Err e, k') \<Rightarrow> rax_ret r (of_int e) k'
                           | (Trap, k') \<Rightarrow> (Trap, k')
                           | (Val im, k') \<Rightarrow> exec_commit L me (the c) fresh kname im r k')))))))"

section \<open>Threads and forks\<close>

definition task64_clone :: "layout \<Rightarrow> nat \<Rightarrow> u64 \<Rightarrow> (k64, nat) opn" where
  "task64_clone L me func =
     seq (gets (live_ok me func 1)) (\<lambda>ok.
     seq (gets (\<lambda>k. cur_cpu k me)) (\<lambda>c.
     case c of
       None \<Rightarrow> fail (-1)
     | Some self \<Rightarrow>
         if \<not> ok then fail (-1)
         else
           seq (alloc_slot L me ''clone'') (\<lambda>t.
           case t of
             None \<Rightarrow> fail (-1)
           | Some i \<Rightarrow>
               seq (gets (task_of self)) (\<lambda>me'.
               seq (on_mem me (vmm_share_space (tcr3 me'))) (\<lambda>child.
               if child = 0 then seq (task_unreserve i) (\<lambda>_. fail (-1))
               else
                 seq (set_slot i (\<lambda>u. u\<lparr>tcr3 := child, parent := tid me'\<rparr>)) (\<lambda>_.
                 seq (map_ustack me child i) (\<lambda>ok.
                 if \<not> ok then seq (teardown L me child) (\<lambda>_. seq (task_unreserve i) (\<lambda>_. fail (-1)))
                 else
                   seq (set_slot i (\<lambda>u. u\<lparr>user_base := user_base me', heap_base := heap_base me', heap_brk := heap_brk me'\<rparr>)) (\<lambda>_.
                   seq (on_files (fd_inherit (Some i) (Some (tno self)))) (\<lambda>_.
                   seq (cr3_swap me child) (\<lambda>old.
                   seq (store_user me (ustack_top i - 8) (bytes_of 8 (user_base me' + DEMO_THREAD_EXIT_OFF))) (\<lambda>_.
                   seq (cr3_swap me old) (\<lambda>_.
                   seq (modify (build_frame (Slot i) func 0x1B (ustack_top i - 8) 0x23)) (\<lambda>_.
                   seq (task_publish i) (\<lambda>_. ret i))))))))))))))"

text \<open>The 16 KB of kernel stack are copied by words.\<close>

definition copy_words :: "u64 \<Rightarrow> u64 \<Rightarrow> nat \<Rightarrow> (u64 \<Rightarrow> u64) \<Rightarrow> u64 \<Rightarrow> u64" where
  "copy_words d s n m = put_words d (map (\<lambda>i. m (s + of_nat i * 8)) [0..<n]) m"

definition fork_stack :: "nat \<Rightarrow> tref \<Rightarrow> nat \<Rightarrow> u64 \<Rightarrow> k64 \<Rightarrow> k64" where
  "fork_stack me self i r k =
     (let s = kstack_top (task_of self k); d = kstack_top (tasks k i); sp = d - (s - r);
          m = copy_words (d - KSTACK_SIZE) (s - KSTACK_SIZE) 2048 (kmem k)
      in upd_task (Slot i) (\<lambda>u. u\<lparr>trsp := sp, fx := fpu_of k me\<rparr>)
           (upd_task self (\<lambda>u. u\<lparr>fx := fpu_of k me\<rparr>) (k\<lparr>kmem := m(reg_at sp R_RAX := 0)\<rparr>)))"

definition task64_fork :: "layout \<Rightarrow> nat \<Rightarrow> u64 \<Rightarrow> (k64, nat) opn" where
  "task64_fork L me r =
     seq (gets (\<lambda>k. cur_cpu k me)) (\<lambda>c.
     case c of
       None \<Rightarrow> fail (-1)
     | Some self \<Rightarrow>
         seq (gets (task_of self)) (\<lambda>p.
         seq (alloc_slot L me (tname p)) (\<lambda>t.
         case t of
           None \<Rightarrow> fail (-12)
         | Some i \<Rightarrow>
             seq (clone_of me (tcr3 p)) (\<lambda>child.
             if child = 0 then seq (task_unreserve i) (\<lambda>_. fail (-12))
             else
               seq (set_slot i (\<lambda>u. u\<lparr>tcr3 := child, parent := tid p, user_base := user_base p, heap_base := heap_base p,
                                      heap_brk := heap_brk p\<rparr>)) (\<lambda>_.
               seq (on_files (fd_inherit (Some i) (Some (tno self)))) (\<lambda>_.
               seq (modify (fork_stack me self i r)) (\<lambda>_.
               seq (task_publish i) (\<lambda>_. ret i))))))))"

section \<open>Scheduling\<close>

text \<open>The task this CPU really runs: the entry of \<^verbatim>\<open>cur_cpu\<close> is only a hint.\<close>

definition ours :: "nat \<Rightarrow> k64 \<Rightarrow> tref option" where
  "ours me k =
     (case cur_cpu k me of
        None \<Rightarrow> None
      | Some p \<Rightarrow> if tstate (task_of p k) = T_RUNNING \<and> last_cpu (task_of p k) = int me then Some p else None)"

text \<open>Round robin from the slot after \<open>start\<close>.\<close>

definition pick_next :: "int \<Rightarrow> (nat \<Rightarrow> task64) \<Rightarrow> nat option" where
  "pick_next start ts =
     find (\<lambda>j. tstate (ts j) = T_READY) (map (\<lambda>i. nat ((start + int i) mod int NTASK)) [1..<Suc NTASK])"

definition demote :: "u64 \<Rightarrow> tref option \<Rightarrow> k64 \<Rightarrow> k64" where
  "demote r p k = (case p of None \<Rightarrow> k | Some t \<Rightarrow> upd_task t (\<lambda>u. u\<lparr>trsp := r, tstate := T_READY\<rparr>) k)"

definition choose_next :: "nat \<Rightarrow> tref option \<Rightarrow> k64 \<Rightarrow> tref" where
  "choose_next me p k =
     (case pick_next (case p of None \<Rightarrow> 0 | Some t \<Rightarrow> tid (task_of t k)) (tasks k) of
        Some j \<Rightarrow> Slot j
      | None \<Rightarrow> (case p of None \<Rightarrow> Idle me | Some t \<Rightarrow> if tstate (task_of t k) = T_READY then t else Idle me))"

text \<open>The section under the lock: demote, choose, promote, and save the FPU of the demoted task.\<close>

definition sched_pick :: "nat \<Rightarrow> u64 \<Rightarrow> k64 \<Rightarrow> tref \<times> k64" where
  "sched_pick me r k =
     (let p = ours me k;
          k1 = demote r p k;
          next = choose_next me p k1;
          k2 = upd_task next (\<lambda>u. u\<lparr>tstate := T_RUNNING, last_cpu := int me\<rparr>) k1;
          k3 = k2\<lparr>cur_cpu := (cur_cpu k2)(me := Some next)\<rparr>
      in (next,
          case p of
            None \<Rightarrow> k3
          | Some t \<Rightarrow> if tstate (task_of t k3) = T_READY \<or> tstate (task_of t k3) = T_BLOCKED
                      then upd_task t (\<lambda>u. u\<lparr>fx := fpu_of k3 me\<rparr>) k3 else k3))"

text \<open>The switch, after the lock was released.\<close>

definition sched_switch :: "nat \<Rightarrow> tref \<Rightarrow> k64 \<Rightarrow> k64" where
  "sched_switch me next k =
     (let u = task_of next k
      in k\<lparr>fpu_of := (fpu_of k)(me := fx u), rsp0_of := (rsp0_of k)(me := kstack_top u),
           cr3_of := (if tcr3 u \<noteq> cr3_of k me AND NOT 0xFFF then (cr3_of k)(me := tcr3 u) else cr3_of k)\<rparr>)"

text \<open>\<open>shoot\<close> tells whether this CPU waits for a TLB shootdown; then it keeps its task.\<close>

definition task64_schedule :: "nat \<Rightarrow> bool \<Rightarrow> u64 \<Rightarrow> (k64, u64) opn" where
  "task64_schedule me shoot r k =
     (if shoot then
        (Val r, case ours me k of None \<Rightarrow> k | Some t \<Rightarrow> upd_task t (\<lambda>u. u\<lparr>trsp := r\<rparr>) k)
      else
        let (next, k1) = sched_pick me r k
        in if Some next = ours me k then (Val r, k1)
           else (Val (trsp (task_of next k1)), sched_switch me next k1))"

section \<open>Exit and wait\<close>

definition orphan :: "int \<Rightarrow> (nat \<Rightarrow> task64) \<Rightarrow> nat \<Rightarrow> task64" where
  "orphan pid ts = (\<lambda>i. if 1 \<le> i \<and> i < NTASK \<and> parent (ts i) = pid \<and> tstate (ts i) \<noteq> T_FREE then (ts i)\<lparr>parent := 0\<rparr> else ts i)"

text \<open>The first critical section of exit; the result tells whether nobody will wait for the task.\<close>

definition exit_section :: "tref \<Rightarrow> int \<Rightarrow> (k64, bool) opn" where
  "exit_section self status k =
     (let k1 = upd_task self (\<lambda>u. u\<lparr>exit_code := status, tstate := T_ZOMBIE\<rparr>) k;
          pid = tid (task_of self k1);
          k2 = k1\<lparr>tasks := orphan pid (tasks k1)\<rparr>;
          pp = parent (task_of self k2)
      in if 0 \<le> pp \<and> pp < int NTASK then
           let p = tasks k2 (nat pp);
               wake = (tstate p = T_BLOCKED \<and> (waiting_for p = pid \<or> waiting_for p = -1));
               p' = (if wake then p\<lparr>tstate := T_READY\<rparr> else p)
           in (Val (tstate p' = T_FREE \<or> tid p' = 0), k2\<lparr>tasks := (tasks k2)(nat pp := p')\<rparr>)
         else (Val True, k2))"

text \<open>A task nobody waits for moves to the boot tables and frees its space and its slot.\<close>

definition exit_reap :: "layout \<Rightarrow> nat \<Rightarrow> tref \<Rightarrow> (k64, unit) opn" where
  "exit_reap L me self =
     seq (modify (\<lambda>k. k\<lparr>cr3_of := (cr3_of k)(me := pml4_boot L)\<rparr>)) (\<lambda>_.
     seq (gets (\<lambda>k. tcr3 (task_of self k))) (\<lambda>root.
     seq (teardown L me root) (\<lambda>_.
     modify (upd_task self (\<lambda>u. u\<lparr>tcr3 := 0, tstate := T_FREE\<rparr>)))))"

definition task64_exit :: "layout \<Rightarrow> nat \<Rightarrow> int \<Rightarrow> (k64, unit) opn" where
  "task64_exit L me status =
     seq (gets (\<lambda>k. cur_cpu k me)) (\<lambda>c.
     case c of
       None \<Rightarrow> trap
     | Some self \<Rightarrow>
         seq (release_screen L me self) (\<lambda>_.
         seq (on_files (fd_close_all (Some (tno self)))) (\<lambda>_.
         seq (gets (task_of self)) (\<lambda>u.
         seq (on_serial (s_printf (font L) (lit ''[K64] task %u (%s) exited status=%u\<newline>'')
                [PU64 (of_int (tid u)), PStr (Some (lit (tname u))), PU64 (of_int status)])) (\<lambda>_.
         seq (exit_section self status) (\<lambda>reap_now.
         if reap_now then exit_reap L me self else ret ()))))))"

datatype wait_out = W_Reap nat int u64 | W_Echild | W_Nohang | W_Block

definition wait_match :: "int \<Rightarrow> int \<Rightarrow> (nat \<Rightarrow> task64) \<Rightarrow> nat \<Rightarrow> bool" where
  "wait_match me_id pid ts i \<longleftrightarrow> parent (ts i) = me_id \<and> tstate (ts i) \<noteq> T_FREE \<and> (pid = -1 \<or> tid (ts i) = pid)"

text \<open>The critical section of waitpid: claim a zombie, or block.\<close>

definition wait_section :: "tref \<Rightarrow> int \<Rightarrow> bool \<Rightarrow> u64 \<Rightarrow> (k64, wait_out) opn" where
  "wait_section self pid wnohang r k =
     (let ts = tasks k; kids = filter (wait_match (tid (task_of self k)) pid ts) [1..<NTASK]
      in case find (\<lambda>i. tstate (ts i) = T_ZOMBIE) kids of
           Some z \<Rightarrow>
             (Val (W_Reap z (exit_code (ts z)) (tcr3 (ts z))), upd_task (Slot z) (\<lambda>u. u\<lparr>tcr3 := 0, tstate := T_FREE\<rparr>) k)
         | None \<Rightarrow>
             if kids = [] then (Val W_Echild, k)
             else if wnohang then (Val W_Nohang, k)
             else (Val W_Block, upd_task self (\<lambda>u. u\<lparr>trsp := r, waiting_for := pid, wakeup_tick := 0, tstate := T_BLOCKED\<rparr>) k))"

text \<open>A blocking call backs up the two bytes of its \<^verbatim>\<open>int $0x80\<close>, to run again on wakeup.\<close>

definition rewind :: "u64 \<Rightarrow> (k64, unit) opn" where
  "rewind r = modify (\<lambda>k. k\<lparr>kmem := (kmem k)(reg_at r R_RIP := kmem k (reg_at r R_RIP) - 2)\<rparr>)"

definition task64_waitpid :: "layout \<Rightarrow> nat \<Rightarrow> bool \<Rightarrow> int \<Rightarrow> u64 \<Rightarrow> bool \<Rightarrow> u64 \<Rightarrow> (k64, u64) opn" where
  "task64_waitpid L me shoot pid status_ptr wnohang r =
     seq (gets (\<lambda>k. cur_cpu k me)) (\<lambda>c.
     case c of
       None \<Rightarrow> rax_ret r (-10)
     | Some self \<Rightarrow>
         seq (gets (live_ok me status_ptr 4)) (\<lambda>ok.
         if status_ptr \<noteq> 0 \<and> \<not> ok then rax_ret r (-14)
         else
           seq (wait_section self pid wnohang r) (\<lambda>w.
           case w of
             W_Reap z status zcr3 \<Rightarrow>
               seq (if status_ptr \<noteq> 0 then store_user me status_ptr (bytes_of 4 (of_int status)) else ret ()) (\<lambda>_.
               seq (teardown L me zcr3) (\<lambda>_. rax_ret r (of_nat z)))
           | W_Echild \<Rightarrow> rax_ret r (-10)
           | W_Nohang \<Rightarrow> rax_ret r 0
           | W_Block \<Rightarrow> seq (rewind r) (\<lambda>_. task64_schedule me shoot r))))"

section \<open>The heap\<close>

text \<open>One batch of a shrink: of the \<open>n\<close> pages from \<open>va\<close>, those present are unmapped until \<open>sl\<close> frames are
  collected; the result gives the frames and how many pages are left.\<close>

fun shrink_scan :: "nat \<Rightarrow> u64 \<Rightarrow> nat \<Rightarrow> mem64 \<Rightarrow> u64 list \<times> nat \<times> mem64" where
  "shrink_scan 0 va sl m = ([], 0, m)"
| "shrink_scan (Suc n) va 0 m = ([], Suc n, m)"
| "shrink_scan (Suc n) va (Suc sl) m =
     (let pa = vmm_translate_inner va m
      in if pa = 0 then shrink_scan n (va + 4096) (Suc sl) m
         else
           let (r, m1) = vmm_unmap_page_inner va m
           in if r \<noteq> 0 then shrink_scan n (va + 4096) (Suc sl) m1
              else let (ps, left, m2) = shrink_scan n (va + 4096) sl m1 in (pa # ps, left, m2))"

lemma shrink_scan_le: "shrink_scan n va sl m = (ps, left, m') \<Longrightarrow> left \<le> n"
  by (induction n va sl m arbitrary: ps left m' rule: shrink_scan.induct)
    (auto simp: Let_def split: if_splits prod.splits, fastforce+)

lemma shrink_scan_less: "shrink_scan (Suc n) va (Suc sl) m = (ps, left, m') \<Longrightarrow> left < Suc n"
  by (auto simp: Let_def less_Suc_eq_le split: if_splits prod.splits dest: shrink_scan_le)

definition put_frames :: "u64 list \<Rightarrow> mem64 \<Rightarrow> mem64" where
  "put_frames = fold (\<lambda>pa m. snd (frame_ref_put_inner pa m))"

function shrink_mem :: "nat \<Rightarrow> u64 \<Rightarrow> mem64 \<Rightarrow> mem64 option" where
  "shrink_mem n va m =
     (if n = 0 then Some m
      else case mem_lock_acquire m of
             None \<Rightarrow> None
           | Some m1 \<Rightarrow>
               (case shrink_scan n va 64 (m1\<lparr>vmm_root := live_root m1\<rparr>) of
                  (ps, left, m2) \<Rightarrow>
                    let m3 = mem_lock_release (m2\<lparr>vmm_root := vmm_root m1\<rparr>)
                    in case (if ps = [] then Some m3 else map_option (\<lambda>m. mem_lock_release (put_frames ps m)) (mem_lock_acquire m3)) of
                         None \<Rightarrow> None
                       | Some m4 \<Rightarrow> shrink_mem left (va + of_nat (n - left) * 4096) m4))"
  by pat_completeness auto
termination
proof (relation "measure (\<lambda>(n, va, m). n)", simp)
  fix n :: nat and va m m1 ps y left m2 m3 m4
  assume "n \<noteq> 0" and y: "(ps, y) = shrink_scan n va 64 (m1\<lparr>vmm_root := live_root m1\<rparr>)" "(left, m2) = y"
  then obtain n' where n: "n = Suc n'" by (cases n) auto
  have "shrink_scan (Suc n') va (Suc 63) (m1\<lparr>vmm_root := live_root m1\<rparr>) = (ps, left, m2)" using y n by simp
  from shrink_scan_less [OF this] show "((left, va + of_nat (n - left) * 4096, m4), n, va, m) \<in> measure (\<lambda>(n, va, m). n)"
    by (simp add: n)
qed

declare shrink_mem.simps [simp del]

definition brk_shrink :: "nat \<Rightarrow> tref \<Rightarrow> u64 \<Rightarrow> (k64, unit) opn" where
  "brk_shrink me t nw =
     seq (gets (task_of t)) (\<lambda>u.
     let va = page_up nw
     in if va \<ge> heap_brk u \<or> heap_base u = 0 then ret ()
        else on_mem me (\<lambda>m. map_option (Pair ()) (shrink_mem ((unat (heap_brk u) - unat va + 4095) div 4096) va m)))"

definition task64_brk :: "nat \<Rightarrow> u64 \<Rightarrow> u64 \<Rightarrow> (k64, u64) opn" where
  "task64_brk me nw r =
     seq (gets (\<lambda>k. cur_cpu k me)) (\<lambda>c.
     case c of
       None \<Rightarrow> rax_ret r 0
     | Some self \<Rightarrow>
         seq (gets (task_of self)) (\<lambda>u.
         let ob = heap_brk u; base = heap_base u
         in if nw = 0 \<or> base = 0 \<or> nw < base \<or> nw > base + BRK_MAX_SPAN then rax_ret r ob
            else
              seq (if nw > ob then modify (upd_task self (\<lambda>u. u\<lparr>heap_brk := nw\<rparr>))
                   else if nw < ob then seq (brk_shrink me self nw) (\<lambda>_. modify (upd_task self (\<lambda>u. u\<lparr>heap_brk := nw\<rparr>)))
                   else ret ()) (\<lambda>_.
              seq (gets (\<lambda>k. heap_brk (task_of self k))) (\<lambda>b. rax_ret r b))))"

text \<open>The mapping of a fresh frame at a heap page: \<open>None\<close> when memory ran out.\<close>

definition demand_map :: "u64 \<Rightarrow> mem64 \<Rightarrow> (u64 \<times> int) option \<times> mem64" where
  "demand_map page m =
     (let (pa, m1) = pmm_alloc_inner m
      in if pa = 0 then (None, m1)
         else let (rc, m2) = vmm_map_page_inner page pa (VMM_RW OR VMM_US OR (if nx_on m then VMM_NX else 0)) m1
              in (Some (pa, rc), m2))"

definition task64_demand :: "nat \<Rightarrow> u64 \<Rightarrow> (k64, int) opn" where
  "task64_demand me va =
     seq (gets (\<lambda>k. cur_cpu k me)) (\<lambda>c.
     case c of
       None \<Rightarrow> ret (-1)
     | Some self \<Rightarrow>
         seq (gets (task_of self)) (\<lambda>u.
         let page = va AND NOT 0xFFF; top' = page_up (heap_brk u)
         in if heap_base u = 0 then ret (-1)
            else if page < heap_base u \<or> page \<ge> top' \<or> top' \<le> heap_base u then ret (-1)
            else
              seq (on_mem me (locked (\<lambda>m. with_root (live_root m) (demand_map page) m))) (\<lambda>x.
              case x of
                None \<Rightarrow> ret (-1)
              | Some (pa, rc) \<Rightarrow>
                  if rc \<noteq> 0 then seq (on_mem me (\<lambda>m. map_option (Pair ()) (pmm_free pa m))) (\<lambda>_. ret 1)
                  else ret 0)))"

definition task64_kill_fault :: "layout \<Rightarrow> nat \<Rightarrow> bool \<Rightarrow> u64 \<Rightarrow> string \<Rightarrow> (k64, u64) opn" where
  "task64_kill_fault L me shoot r kind =
     seq (gets (\<lambda>k. case cur_cpu k me of None \<Rightarrow> -1 | Some t \<Rightarrow> tid (task_of t k))) (\<lambda>pid.
     seq (gets (\<lambda>k. kmem k (reg_at r R_RIP))) (\<lambda>rip.
     seq (on_serial (s_printf (font L) (lit ''[K64] %s pid=%u rip=%x\<newline>'') [PStr (Some (lit kind)), PU64 (of_int pid), PU64 rip])) (\<lambda>_.
     seq (task64_exit L me 139) (\<lambda>_. task64_schedule me shoot r))))"

section \<open>Time\<close>

text \<open>The critical section of sleep: \<open>True\<close> when the deadline has passed.\<close>

definition sleep_section :: "tref \<Rightarrow> u64 \<Rightarrow> u64 \<Rightarrow> (k64, bool) opn" where
  "sleep_section self delta r k =
     (let u = task_of self k; w = (if wakeup_tick u = 0 then ticks k + delta else wakeup_tick u)
      in if sint (ticks k - w) \<ge> 0 then (Val True, upd_task self (\<lambda>u. u\<lparr>wakeup_tick := 0\<rparr>) k)
         else (Val False, upd_task self (\<lambda>u. u\<lparr>wakeup_tick := w, trsp := r, tstate := T_BLOCKED\<rparr>) k))"

definition task64_sleep :: "nat \<Rightarrow> bool \<Rightarrow> u64 \<Rightarrow> u64 \<Rightarrow> (k64, u64) opn" where
  "task64_sleep me shoot delta r =
     seq (gets (\<lambda>k. cur_cpu k me)) (\<lambda>c.
     case c of
       None \<Rightarrow> rax_ret r 0
     | Some self \<Rightarrow>
         if delta = 0 then rax_ret r 0
         else seq (sleep_section self delta r) (\<lambda>over.
              if over then rax_ret r 0 else seq (rewind r) (\<lambda>_. task64_schedule me shoot r)))"

definition wake_sleepers :: "u64 \<Rightarrow> (nat \<Rightarrow> task64) \<Rightarrow> nat \<Rightarrow> task64" where
  "wake_sleepers now ts = (\<lambda>i.
     if 1 \<le> i \<and> i < NTASK \<and> tstate (ts i) = T_BLOCKED \<and> wakeup_tick (ts i) \<noteq> 0 \<and> sint (now - wakeup_tick (ts i)) \<ge> 0
     then (ts i)\<lparr>tstate := T_READY\<rparr> else ts i)"

definition tick_message :: "font \<Rightarrow> u64 \<Rightarrow> ser \<Rightarrow> ser" where
  "tick_message ft now s =
     (case s_puts ft [10] (s_dec64 ft now (s_puts ft (lit ''[K64] tick '') s)) of
        (t, d) \<Rightarrow> (t, d\<lparr>con := cons_status_tick (ucast now) (con d)\<rparr>))"

text \<open>Counting, the message of every hundredth tick, and the section that wakes sleepers.\<close>

definition tick_section :: "layout \<Rightarrow> k64 \<Rightarrow> k64" where
  "tick_section L k =
     (let now = ticks k + 1; k1 = k\<lparr>ticks := now\<rparr>;
          k2 = (if now mod 100 = 0 then say (tick_message (font L) now) k1 else k1)
      in k2\<lparr>tasks := wake_sleepers now (tasks k2)\<rparr>)"

definition task64_on_tick :: "layout \<Rightarrow> nat \<Rightarrow> bool \<Rightarrow> u64 \<Rightarrow> (k64, u64) opn" where
  "task64_on_tick L me shoot r = seq (modify (tick_section L)) (\<lambda>_. task64_schedule me shoot r)"

definition task64_ap_tick :: "nat \<Rightarrow> bool \<Rightarrow> u64 \<Rightarrow> (k64, u64) opn" where
  "task64_ap_tick = task64_schedule"

end
