(* ===== verification/Frames.thy ===== *)
theory Frames
  imports Task
begin

text \<open>
  Frame accounting across the whole memory layer: whatever a memory operation does to page tables and data,
  the counter of free frames stays the number of clear bits of the bitmap, and the lock is as it was.
\<close>

definition pmm_exact :: "mem64 \<Rightarrow> bool" where
  "pmm_exact s \<longleftrightarrow> unat (pmm_free_n s) = card (free_set s)"

text \<open>An operation on the memory state is calm when it keeps the accounting and the lock.\<close>

definition calm :: "mem64 \<Rightarrow> mem64 \<Rightarrow> bool" where
  "calm m m' \<longleftrightarrow> (pmm_exact m \<longrightarrow> pmm_exact m') \<and> mem_locked m' = mem_locked m"

lemma calm_refl [simp, intro]: "calm m m"
  by (simp add: calm_def)

lemma calm_trans: "calm a b \<Longrightarrow> calm b c \<Longrightarrow> calm a c"
  by (auto simp: calm_def)

lemma pmm_exact_cong: "pmm_bits s' = pmm_bits s \<Longrightarrow> pmm_free_n s' = pmm_free_n s \<Longrightarrow> pmm_exact s' = pmm_exact s"
  by (simp add: pmm_exact_def free_set_def frame_used_def)

lemma calm_same: "pmm_bits m' = pmm_bits m \<Longrightarrow> pmm_free_n m' = pmm_free_n m \<Longrightarrow> mem_locked m' = mem_locked m \<Longrightarrow> calm m m'"
  using pmm_exact_cong [of m' m] by (simp add: calm_def)

named_theorems calmed \<open>calm operations\<close>

lemma calm_fields [calmed]:
  "calm m (m\<lparr>phys := p\<rparr>)" "calm m (m\<lparr>frame_ref := f\<rparr>)" "calm m (m\<lparr>vmm_root := v\<rparr>)" "calm m (m\<lparr>live_cr3 := c\<rparr>)" "calm m (set_entry t i e m)"
  by (simp_all add: calm_same set_entry_def)

lemma calm_alloc [calmed]: "calm s (snd (pmm_alloc_inner s))"
proof (cases "free_set s = {}")
  case False
  have "pmm_exact s \<Longrightarrow> pmm_exact (take_frame f s)" if "f \<in> free_set s" for f
  proof -
    assume e: "pmm_exact s"
    have "unat (pmm_free_n s) = Suc (card (free_set s) - 1)"
      using that e card_gt_0_iff [of "free_set s"] by (auto simp: pmm_exact_def)
    then have "unat (pmm_free_n s - 1) = card (free_set s) - 1" by (rule unat_dec)
    then show ?thesis using that e by (auto simp: pmm_exact_def)
  qed
  then show ?thesis using False by (simp add: calm_def pmm_alloc_inner_eq take_frame_def)
qed (simp add: pmm_alloc_inner_eq)

lemma calm_bitmap_free:
  assumes "f < PMM_MAX_FRAMES"
  shows "calm s (bitmap_free_frame f s)"
proof (cases "frame_used s f")
  case True
  then have "f \<notin> free_set s" by (simp add: free_set_def)
  moreover have n: "pmm_free_n (bitmap_free_frame f s) = pmm_free_n s + 1" "mem_locked (bitmap_free_frame f s) = mem_locked s"
    using True by (simp_all add: bitmap_free_frame_def Let_def frame_used_def)
  moreover have "pmm_exact s \<Longrightarrow> unat (pmm_free_n s + 1) = Suc (card (free_set s))"
    by (intro unat_free_inc) (simp add: pmm_exact_def)
  ultimately show ?thesis using assms by (auto simp: calm_def pmm_exact_def)
next
  case False
  then have "bitmap_free_frame f s = s" by (simp add: bitmap_free_frame_def Let_def frame_used_def)
  then show ?thesis by simp
qed

lemma calm_put [calmed]: "calm s (snd (frame_ref_put_inner pa s))"
proof (cases "frame_of pa < PMM_MAX_FRAMES")
  case True
  then show ?thesis
    by (auto simp: frame_ref_put_eq [OF refl True] Let_def intro: calm_bitmap_free calm_fields calm_trans)
qed (simp add: frame_ref_put_inner_def)

lemma calm_raw [calmed]: "calm s (pmm_free_raw_inner pa s)"
  by (auto simp: pmm_free_raw_inner_def Let_def intro: calm_bitmap_free)

lemma calm_inc [calmed]: "calm s (frame_ref_inc_inner pa s)"
  by (auto simp: frame_ref_inc_inner_def Let_def intro: calm_fields)

lemma calm_fold: "(\<And>x a. calm a (f x a)) \<Longrightarrow> calm m (fold f xs m)"
  by (induction xs arbitrary: m) (auto intro: calm_trans)

section \<open>The walker\<close>

lemma calm_next_tab [calmed]: "calm s (snd (next_tab t i ifl s))"
proof -
  have "calm s (set_entry t i e (snd (pmm_alloc_inner s)))" for e by (rule calm_trans [OF calm_alloc]) (rule calmed)
  then show ?thesis using calm_alloc [of s] by (auto simp: next_tab_def Let_def calm_fields split: prod.splits)
qed

lemma calm_map [calmed]: "calm s (snd (vmm_map_page_inner va pa fl s))"
proof -
  define ifl where "ifl = PTE_P OR PTE_RW OR (if fl AND VMM_US \<noteq> 0 then PTE_US else 0)"
  obtain p1 s1 where 1: "next_tab (vmm_root s) (pidx 39 va) ifl s = (p1, s1)" by fastforce
  obtain p2 s2 where 2: "next_tab p1 (pidx 30 va) ifl s1 = (p2, s2)" by fastforce
  obtain p3 s3 where 3: "next_tab p2 (pidx 21 va) ifl s2 = (p3, s3)" by fastforce
  have c1: "calm s s1" using calm_next_tab [of s] 1 by (metis snd_conv)
  have c2: "calm s s2" using calm_trans [OF c1] calm_next_tab [of s1] 2 by (metis snd_conv)
  have c3: "calm s s3" using calm_trans [OF c2] calm_next_tab [of s2] 3 by (metis snd_conv)
  have c4: "calm s (set_entry t i e s3)" for t i e using calm_trans [OF c3] calm_fields by blast
  show ?thesis
    unfolding vmm_map_page_inner_def Let_def ifl_def [symmetric] 1 2 3 prod.case using c1 c2 c3 c4 by simp
qed

lemma calm_unmap [calmed]: "calm s (snd (vmm_unmap_page_inner va s))"
  unfolding vmm_unmap_page_inner_def Let_def by (auto intro: calm_fields)

lemma calm_map_eq: "vmm_map_page_inner va pa fl s = (r, s') \<Longrightarrow> calm s s'"
  using calm_map [of s va pa fl] by simp

lemma calm_unmap_eq: "vmm_unmap_page_inner va s = (r, s') \<Longrightarrow> calm s s'"
  using calm_unmap [of s va] by simp

lemma calm_alloc_eq: "pmm_alloc_inner s = (r, s') \<Longrightarrow> calm s s'"
  using calm_alloc [of s] by simp

section \<open>Clone and teardown\<close>

lemma calm_clone_entry:
  assumes "\<And>a s. calm s (snd (rec a s))"
  shows "calm s (snd (clone_entry l rec cow src nf i (ok, s)))"
proof -
  have r: "rec a s = (c, s') \<Longrightarrow> calm s s'" for a s c s' using assms [of s a] by simp
  show ?thesis
    unfolding clone_entry_def Let_def
    by (auto split: prod.splits dest!: r intro: calm_trans [OF _ calm_raw] calm_trans [OF _ calm_fields(5)] calm_trans [OF _ calm_inc]
        calm_raw calm_fields calm_inc)
qed

lemma calm_clone_table:
  assumes "\<And>a s. calm s (snd (rec a s))"
  shows "calm s (snd (clone_table l rec cow src s))"
proof -
  have f: "calm s (snd (fold (clone_entry l rec cow src nf) xs (ok, s)))" for nf xs ok s
  proof (induction xs arbitrary: ok s)
    case (Cons x xs)
    obtain ok' s' where e: "clone_entry l rec cow src nf x (ok, s) = (ok', s')" by fastforce
    then have "calm s s'" using calm_clone_entry [where rec = rec and s = s and l = l and cow = cow and src = src and nf = nf and i = x and ok = ok, OF assms] by simp
    then show ?case using Cons [of s' ok'] e by (simp add: calm_trans)
  qed simp
  then have f': "fold (clone_entry l rec cow src nf) xs (ok, s) = (ok', s') \<Longrightarrow> calm s s'" for nf xs ok s ok' s'
    by (metis snd_conv)
  show ?thesis unfolding clone_table_def Let_def by (auto split: prod.splits dest!: calm_alloc_eq f' intro: calm_trans)
qed

lemma calm_clone_level: "calm s (snd (clone_level l cow src s))"
  by (induction l arbitrary: src s) (simp_all add: calm_clone_table)

lemma calm_clone_space [calmed]: "calm s (snd (clone_space_reserved src cow s))"
  by (simp add: clone_space_reserved_def Let_def calm_clone_level)

text \<open>Teardown runs with the lock held; a flush that returns found it free.\<close>

lemma calm_flush:
  assumes "tear_flush_free L s = Some (L', s')"
  shows "calm s s'"
proof (cases "tl_data L = [] \<and> tl_tabs L = []")
  case False
  then have l: "\<not> mem_locked s" and s': "s' = mem_lock_release (fold pmm_free_raw_inner (tl_tabs L)
      (fold (\<lambda>pa t. snd (frame_ref_put_inner pa t)) (tl_data L) (s\<lparr>mem_locked := True\<rparr>)))"
    using assms by (auto simp: tear_flush_free_def mem_lock_acquire_def Let_def split: if_splits)
  have "calm (s\<lparr>mem_locked := True\<rparr>) (fold pmm_free_raw_inner (tl_tabs L)
      (fold (\<lambda>pa t. snd (frame_ref_put_inner pa t)) (tl_data L) (s\<lparr>mem_locked := True\<rparr>)))"
    by (intro calm_trans [OF calm_fold calm_fold] calmed)
  then show ?thesis
    using l pmm_exact_cong [of "s\<lparr>mem_locked := True\<rparr>" s]
    by (simp add: s' calm_def mem_lock_release_def) (metis mem64.select_convs(2,5) mem64.surjective mem64.update_convs(1) pmm_exact_cong)
qed (use assms in \<open>auto simp: tear_flush_free_def\<close>)

lemma calm_record: "tear_record pa t (L, s) = Some (L', s') \<Longrightarrow> calm s s'"
  by (auto simp: tear_record_def split: if_splits option.splits dest: calm_flush)

lemma calm_entry:
  assumes rec: "\<And>a b L s L' s'. rec a b (L, s) = Some (L', s') \<Longrightarrow> calm s s'"
    and e: "tear_entry l rec tab btab i (Some (L, s)) = Some (L', s')"
  shows "calm s s'"
proof -
  have put: "calm a b \<Longrightarrow> calm a (set_entry t i e b)" for a b t i e using calm_trans calm_fields by blast
  show ?thesis
    using e unfolding tear_entry_def Let_def
    by (auto split: if_splits option.splits simp: calm_fields dest!: calm_record rec intro: put calm_trans)
qed

lemma calm_collect_fold:
  assumes "\<And>a b L s L' s'. rec a b (L, s) = Some (L', s') \<Longrightarrow> calm s s'"
    and "fold (tear_entry l rec tab btab) xs (Some (L, s)) = Some (L', s')"
  shows "calm s s'"
  using assms(2)
proof (induction xs arbitrary: L s)
  case (Cons x xs)
  have none: "fold (tear_entry l rec tab btab) xs None = None" by (induction xs) (simp_all add: tear_entry_def)
  obtain L1 s1 where e: "tear_entry l rec tab btab x (Some (L, s)) = Some (L1, s1)"
    using Cons.prems none by (cases "tear_entry l rec tab btab x (Some (L, s))") auto
  have "calm s s1" by (rule calm_entry [where rec = rec, OF _ e]) (rule assms(1))
  then show ?case using Cons e by (auto intro: calm_trans)
qed simp

lemma calm_collect: "tear_collect l tab btab (L, s) = Some (L', s') \<Longrightarrow> calm s s'"
proof (induction l arbitrary: tab btab L s L' s')
  case 0
  then show ?case using calm_collect_fold [of "\<lambda>_ _ a. Some a" 0 tab btab "[0..<512]" L s L' s'] by (auto split: if_splits)
next
  case (Suc l)
  show ?case
    using Suc.prems calm_collect_fold [of "tear_collect l" "Suc l" tab btab "[0..<512]" L s L' s', OF Suc.IH] by (auto split: if_splits)
qed

section \<open>Operations that take the lock\<close>

definition mem_inv :: "mem64 \<Rightarrow> bool" where
  "mem_inv m \<longleftrightarrow> pmm_exact m \<and> \<not> mem_locked m"

lemma calm_inv: "calm m m' \<Longrightarrow> mem_inv m \<Longrightarrow> mem_inv m'"
  by (simp add: calm_def mem_inv_def)

text \<open>A step that takes the lock, does something calm and releases it is calm.\<close>

lemma calm_section:
  assumes "mem_lock_acquire m = Some m1" "calm m1 m2"
  shows "calm m (mem_lock_release m2)"
proof -
  have "m1 = m\<lparr>mem_locked := True\<rparr>" "\<not> mem_locked m" using assms(1) by (auto simp: mem_lock_acquire_def split: if_splits)
  moreover have "pmm_exact (m\<lparr>mem_locked := True\<rparr>) = pmm_exact m" "pmm_exact (mem_lock_release m2) = pmm_exact m2"
    using pmm_exact_cong [of "m\<lparr>mem_locked := True\<rparr>" m] pmm_exact_cong [of "mem_lock_release m2" m2] by (simp_all add: mem_lock_release_def)
  ultimately show ?thesis using assms(2) by (auto simp: calm_def mem_lock_release_def)
qed

definition calms :: "(mem64 \<Rightarrow> ('a \<times> mem64) option) \<Rightarrow> bool" where
  "calms f \<longleftrightarrow> (\<forall>m a m'. f m = Some (a, m') \<longrightarrow> calm m m')"

lemma calms_locked:
  assumes "\<And>m. calm m (snd (f m))"
  shows "calms (locked f)"
  unfolding calms_def locked_def
  by (auto split: option.splits prod.splits) (metis assms calm_section snd_conv)

lemma calms_clone [calmed]: "calms (vmm_clone_space src)" "calms (vmm_share_space src)"
  unfolding calms_def vmm_clone_space_def vmm_share_space_def
  by (auto split: option.splits prod.splits) (metis calm_clone_space calm_section snd_conv)+

lemma calms_teardown [calmed]: "calms (\<lambda>m. map_option (Pair ()) (vmm_teardown_space boot root m))"
  unfolding calms_def
proof (intro allI impI)
  fix m a m' assume "map_option (Pair ()) (vmm_teardown_space boot root m) = Some (a, m')"
  then have t: "vmm_teardown_space boot root m = Some m'" by auto
  show "calm m m'"
  proof (cases "root = 0")
    case True
    then show ?thesis using t by (simp add: vmm_teardown_space_def)
  next
    case False
    then obtain m1 L1 m2 L2 m3 L3 where s: "mem_lock_acquire m = Some m1"
      "tear_collect 3 root boot (\<lparr>tl_data = [], tl_tabs = []\<rparr>, m1) = Some (L1, m2)"
      "tear_record root True (L1, m2) = Some (L2, m3)" "tear_flush_free L2 (mem_lock_release m3) = Some (L3, m')"
      using t by (auto simp: vmm_teardown_space_def split: option.splits prod.splits)
    have "calm m1 m3" using calm_collect [OF s(2)] calm_record [OF s(3)] by (rule calm_trans)
    then have "calm m (mem_lock_release m3)" by (rule calm_section [OF s(1)])
    then show ?thesis using calm_flush [OF s(4)] by (rule calm_trans)
  qed
qed

lemma calm_frame_put: "frame_ref_put pa s = Some (r, s') \<Longrightarrow> calm s s'"
  by (auto simp: frame_ref_put_def split: option.splits prod.splits) (metis calm_put calm_section snd_conv)

lemma calms_cow [calmed]: "calms (vmm_cow_resolve va)"
  unfolding calms_def
proof (intro allI impI)
  fix m a m' assume c: "vmm_cow_resolve va m = Some (a, m')"
  then obtain m1 where m1: "mem_lock_acquire m = Some m1" by (auto simp: vmm_cow_resolve_def split: option.splits)
  note sec = calm_section [OF m1]
  have copy: "calm m1 s1 \<Longrightarrow> calm m (mem_lock_release (set_entry t i e (s1\<lparr>phys := p\<rparr>)))" for s1 t i e p
    by (intro sec calm_trans [OF calm_trans [OF _ calm_fields(1)] calm_fields(5)])
  show "calm m m'"
    using c unfolding vmm_cow_resolve_def m1 option.case Let_def
    by (auto split: if_splits prod.splits option.splits dest!: calm_frame_put calm_alloc_eq
        intro: sec calm_fields calm_trans [OF copy])
qed

lemma calm_store: "store_bytes va bs s = Some s' \<Longrightarrow> calm s s'"
proof (induction va bs s rule: store_bytes.induct)
  case (2 va b bs s)
  from "2.prems" obtain s1 where s1: "store_byte va b s = Some s1" "store_bytes (va + 1) bs s1 = Some s'"
    by (auto split: bind_splits)
  then have "calm s s1" by (auto simp: store_byte_def Let_def calm_fields split: option.splits)
  then show ?case using "2.IH" s1 by (auto intro: calm_trans)
qed simp

lemma calms_store [calmed]: "calms (\<lambda>m. map_option (Pair ()) (store_bytes va bs m))"
  by (auto simp: calms_def dest: calm_store)

lemma calm_args: "push_args p as m = Some (q, vas, m') \<Longrightarrow> calm m m'"
  by (induction p as m arbitrary: q vas m' rule: push_args.induct)
    (auto simp: Let_def split: option.splits prod.splits dest!: calm_store intro: calm_trans)

lemma calms_argv [calmed]: "calms (argv_block stk args)"
  unfolding calms_def argv_block_def
  by (auto simp: Let_def split: option.splits prod.splits dest!: calm_store calm_args intro: calm_trans)

lemma calms_read [calmed]: "calms (\<lambda>m. map_option (\<lambda>s. (s, m)) (f m))"
  by (auto simp: calms_def)

lemma calm_with_root: "(\<And>m. calm m (snd (f m))) \<Longrightarrow> calm m (snd (with_root root f m))"
  unfolding with_root_def Let_def
  by (auto split: prod.splits) (metis calm_fields(3) calm_trans snd_conv)


section \<open>Mapping loops\<close>

lemma calm_map_pages [calmed]: "calm s (snd (map_pages n va fl s))"
proof (induction n va fl s rule: map_pages.induct)
  case (2 n va fl s)
  obtain pa s1 where 1: "pmm_alloc_inner s = (pa, s1)" by fastforce
  obtain r s2 where r: "vmm_map_page_inner va pa fl s1 = (r, s2)" by fastforce
  have c: "calm s s1" "calm s s2" using calm_alloc_eq [OF 1] calm_trans [OF calm_alloc_eq [OF 1] calm_map_eq [OF r]] by auto
  show ?case
  proof (cases "pa = 0")
    case True
    then show ?thesis using 1 c by simp
  next
    case False
    have "calm s (snd (frame_ref_put_inner pa s2))" using calm_trans [OF c(2) calm_put] .
    moreover have "r = 0 \<Longrightarrow> calm s (snd (map_pages n (va + 4096) fl s2))"
      using calm_trans [OF c(2)] "2.IH" [OF 1 [symmetric]] False r by fastforce
    ultimately show ?thesis using False 1 r by (simp add: Let_def)
  qed
qed simp

lemma calm_range [calmed]: "calm s (snd (map_range_fl va sz fl s))"
  by (simp add: map_range_fl_def calm_map_pages)

lemma calm_range_eq: "map_range_fl va sz fl s = (ok, s') \<Longrightarrow> calm s s'"
  using calm_range [of s va sz fl] by simp

lemma calm_elf_map: "elf_map base img phs tot s = Some (ok, s') \<Longrightarrow> calm s s'"
proof (induction phs arbitrary: tot s)
  case (Cons ph phs)
  then show ?case by (auto simp: Let_def split: bind_splits if_splits prod.splits dest!: calm_range_eq Cons.IH intro: calm_trans)
qed simp

lemma calm_elf_copy: "elf_copy base img phs en s = Some (e, s') \<Longrightarrow> calm s s'"
proof (induction phs arbitrary: en s)
  case (Cons ph phs)
  then show ?case by (auto simp: Let_def split: bind_splits if_splits prod.splits dest!: calm_store Cons.IH intro: calm_trans)
qed simp

lemma calm_cr3: "calm a b \<Longrightarrow> calm a (cpu_load_cr3 c b)"
  using calm_trans calm_fields(4) by (fastforce simp: cpu_load_cr3_def)

lemma calm_cr3_of: "calm (cpu_load_cr3 c a) b \<Longrightarrow> calm a b"
  using calm_trans calm_fields(4) by (fastforce simp: cpu_load_cr3_def)

lemma calm_mct2: "load_mct2 target img s = Some (out, s') \<Longrightarrow> calm s s'"
  unfolding load_mct2_def Let_def
  by (auto split: bind_splits if_splits prod.splits dest!: calm_range_eq calm_store calm_cr3_of intro: calm_trans calm_cr3)

lemma calm_elf: "load_elf64 target img a s = Some (out, a', s') \<Longrightarrow> calm s s'"
  unfolding load_elf64_def Let_def
  by (auto split: bind_splits if_splits prod.splits dest!: calm_elf_map calm_elf_copy calm_cr3_of intro: calm_trans calm_cr3)

lemma calm_load:
  assumes "loader_map_image target img a m = Some (out, a', m')"
  shows "calm m m'"
proof (cases "length img < 64")
  case False
  then obtain m1 m3 where m1: "mem_lock_acquire m = Some m1" "m' = mem_lock_release (m3\<lparr>vmm_root := vmm_root m1\<rparr>)"
    and c: "calm (m1\<lparr>vmm_root := target\<rparr>) m3"
    using assms by (auto simp: loader_map_image_def Let_def split: bind_splits if_splits dest: calm_elf calm_mct2)
  then have "calm m1 (m3\<lparr>vmm_root := vmm_root m1\<rparr>)" using calm_trans calm_fields(3) by blast
  then show ?thesis using calm_section [OF m1(1)] m1(2) by simp
qed (use assms in \<open>simp add: loader_map_image_def\<close>)


section \<open>Screen and heap\<close>

lemma calm_fb_loop [calmed]: "calm m (snd (fb_map_loop fl pa n i m))"
proof (induction n arbitrary: i m)
  case (Suc n)
  obtain r m1 where r: "vmm_map_page_inner (fb_va i) (pa + of_nat i * 4096) fl m = (r, m1)" by fastforce
  have u: "calm a (fold fb_unmap_one xs a)" for a xs by (rule calm_fold) (simp add: fb_unmap_one_def calm_unmap)
  have "calm m (fold fb_unmap_one (rev [0..<i]) m1)" "calm m (snd (fb_map_loop fl pa n (Suc i) m1))"
    using calm_trans [OF calm_map_eq [OF r]] u Suc by blast+
  then show ?case using r by (simp add: Let_def)
qed simp

lemma calm_fb_map: "fb_map_current self (b, m, d) = (r, (b', m', d')) \<Longrightarrow> calm m m'"
proof -
  have "fb_map_loop fl pa n i (m1\<lparr>vmm_root := v\<rparr>) = (ok, m2) \<Longrightarrow> calm m1 (m2\<lparr>vmm_root := vmm_root m1\<rparr>)" for fl pa n i m1 v ok m2
    using calm_trans [OF calm_trans [OF calm_fields(3) calm_fb_loop] calm_fields(3)] by (metis snd_conv)
  then show "fb_map_current self (b, m, d) = (r, (b', m', d')) \<Longrightarrow> ?thesis"
    by (auto simp: fb_map_current_def Let_def split: option.splits if_splits prod.splits intro: calm_section)
qed

lemma calm_fb_unmap: "fb_unmap_current ft self (b, m, d) = (r, (b', m', d')) \<Longrightarrow> calm m m'"
proof -
  have "calm m1 ((fold fb_unmap_one xs (m1\<lparr>vmm_root := v\<rparr>))\<lparr>vmm_root := w\<rparr>)" for m1 xs v w
    by (rule calm_trans [OF calm_trans [OF calm_fields(3) calm_fold] calm_fields(3)]) (simp add: fb_unmap_one_def calm_unmap)
  then show "fb_unmap_current ft self (b, m, d) = (r, (b', m', d')) \<Longrightarrow> ?thesis"
    by (auto simp: fb_unmap_current_def Let_def split: option.splits if_splits intro: calm_section)
qed

lemma calm_fb_release: "fb_owner_release ft t (b, m, d) = (r, (b', m', d')) \<Longrightarrow> calm m m'"
  by (auto simp: fb_owner_release_def split: option.splits if_splits intro: calm_section)

lemma calm_demand [calmed]: "calm m (snd (demand_map page m))"
proof -
  obtain pa m1 where 1: "pmm_alloc_inner m = (pa, m1)" by fastforce
  have "calm m (snd (vmm_map_page_inner page pa fl m1))" for fl by (rule calm_trans [OF calm_alloc_eq [OF 1] calm_map])
  then show ?thesis using calm_alloc_eq [OF 1] 1 by (simp add: demand_map_def split: prod.splits) (metis snd_conv)
qed

lemma calm_scan: "shrink_scan n va sl m = (ps, left, m') \<Longrightarrow> calm m m'"
  by (induction n va sl m arbitrary: ps left m' rule: shrink_scan.induct)
    (auto simp: Let_def split: if_splits prod.splits dest!: calm_unmap_eq intro: calm_trans)

lemma calm_shrink: "shrink_mem n va m = Some m' \<Longrightarrow> calm m m'"
proof (induction n arbitrary: va m rule: less_induct)
  case (less n)
  show ?case
  proof (cases "n = 0")
    case False
    obtain m1 where m1: "mem_lock_acquire m = Some m1"
      using less.prems False by (auto simp: shrink_mem.simps [of n] split: option.splits)
    obtain ps left m2 where sc: "shrink_scan n va 64 (m1\<lparr>vmm_root := live_root m1\<rparr>) = (ps, left, m2)" by (metis prod_cases3)
    define m3 where "m3 = mem_lock_release (m2\<lparr>vmm_root := vmm_root m1\<rparr>)"
    define x where "x = (if ps = [] then Some m3 else map_option (\<lambda>m. mem_lock_release (put_frames ps m)) (mem_lock_acquire m3))"
    have "shrink_mem n va m = (case x of None \<Rightarrow> None | Some m4 \<Rightarrow> shrink_mem left (va + of_nat (n - left) * 4096) m4)"
      unfolding shrink_mem.simps [of n] m1 option.case sc prod.case Let_def m3_def [symmetric] x_def [symmetric] using False by simp
    then obtain m4 where m4: "x = Some m4" and rest: "shrink_mem left (va + of_nat (n - left) * 4096) m4 = Some m'"
      using less.prems by (auto split: option.splits)
    have "calm m1 (m2\<lparr>vmm_root := vmm_root m1\<rparr>)" using calm_trans [OF calm_trans [OF calm_fields(3) calm_scan [OF sc]] calm_fields(3)] .
    then have c3: "calm m m3" unfolding m3_def by (rule calm_section [OF m1])
    have "calm m5 (put_frames ps m5)" for m5 unfolding put_frames_def by (rule calm_fold) (rule calmed)
    then have c4: "calm m3 m4" using m4 by (auto simp: x_def split: if_splits intro: calm_section)
    have "left < n" using shrink_scan_less [of "n - 1" va 63] sc False by simp
    from less.IH [OF this rest] have "calm m4 m'" .
    with c3 c4 show ?thesis by (blast intro: calm_trans)
  qed (use less.prems in \<open>simp add: shrink_mem.simps\<close>)
qed

lemma calms_rest [calmed]:
  "calms (\<lambda>m. map_option (Pair ()) (shrink_mem n va m))" "calms (\<lambda>m. map_option (Pair ()) (pmm_free pa m))"
  "calms (locked (with_root target (map_ustack_locked i)))" "calms (locked (\<lambda>m. with_root (live_root m) (demand_map page) m))"
proof -
  show "calms (\<lambda>m. map_option (Pair ()) (shrink_mem n va m))" by (auto simp: calms_def dest: calm_shrink)
  show "calms (\<lambda>m. map_option (Pair ()) (pmm_free pa m))"
    by (auto simp: calms_def pmm_free_def split: if_splits option.splits intro: calm_section calm_put)
  show "calms (locked (with_root target (map_ustack_locked i)))"
    by (intro calms_locked calm_with_root) (simp add: map_ustack_locked_def calm_map_pages)
  show "calms (locked (\<lambda>m. with_root (live_root m) (demand_map page) m))"
    by (intro calms_locked calm_with_root calm_demand)
qed

end
