(* ===== verification/Sched.thy ===== *)
theory Sched
  imports Task
begin

text \<open>
  The scheduler: which CPU runs which task, the choice of the next task, and the invariant every
  operation of the task layer keeps.
\<close>

section \<open>Updating one task\<close>

lemma task_of_upd [simp]: "task_of t (upd_task u f k) = (if t = u then f (task_of t k) else task_of t k)"
  by (auto simp: task_of_def upd_task_def split: tref.splits)

lemma tasks_upd [simp]: "tasks (upd_task t f k) = (case t of Slot i \<Rightarrow> (tasks k)(i := f (tasks k i)) | Idle _ \<Rightarrow> tasks k)"
  by (simp add: upd_task_def split: tref.splits)

lemma upd_task_fields [simp]:
  "cur_cpu (upd_task t f k) = cur_cpu k" "ticks (upd_task t f k) = ticks k" "kmem (upd_task t f k) = kmem k"
  "cr3_of (upd_task t f k) = cr3_of k" "fpu_of (upd_task t f k) = fpu_of k" "rsp0_of (upd_task t f k) = rsp0_of k"
  "mm (upd_task t f k) = mm k" "dsk (upd_task t f k) = dsk k" "fbs (upd_task t f k) = fbs k" "fsys (upd_task t f k) = fsys k"
  "execs (upd_task t f k) = execs k" "rnd (upd_task t f k) = rnd k" "tx (upd_task t f k) = tx k" "kbd (upd_task t f k) = kbd k"
  "blobs (upd_task t f k) = blobs k" "smp (upd_task t f k) = smp k" "idle_tasks (upd_task t f k) = (case t of Idle i \<Rightarrow> (idle_tasks k)(i := f (idle_tasks k i)) | Slot _ \<Rightarrow> idle_tasks k)"
  by (simp_all add: upd_task_def split: tref.splits)

lemma task_of_other [simp]:
  "task_of t (k\<lparr>cur_cpu := a\<rparr>) = task_of t k" "task_of t (k\<lparr>kmem := b\<rparr>) = task_of t k" "task_of t (k\<lparr>fpu_of := c\<rparr>) = task_of t k"
  "task_of t (k\<lparr>ticks := d\<rparr>) = task_of t k" "task_of t (k\<lparr>cr3_of := e\<rparr>) = task_of t k" "task_of t (k\<lparr>rsp0_of := g\<rparr>) = task_of t k"
  "task_of t (k\<lparr>mm := h\<rparr>) = task_of t k" "task_of t (k\<lparr>dsk := i\<rparr>) = task_of t k" "task_of t (k\<lparr>fsys := j\<rparr>) = task_of t k"
  by (simp_all add: task_of_def split: tref.splits)

lemma task_of_Slot [simp]: "task_of (Slot i) k = tasks k i"
  by (simp add: task_of_def)

lemma say_fields [simp]:
  "tasks (say f k) = tasks k" "idle_tasks (say f k) = idle_tasks k" "cur_cpu (say f k) = cur_cpu k" "ticks (say f k) = ticks k"
  "kmem (say f k) = kmem k" "cr3_of (say f k) = cr3_of k" "fpu_of (say f k) = fpu_of k" "rsp0_of (say f k) = rsp0_of k"
  "mm (say f k) = mm k" "fbs (say f k) = fbs k" "fsys (say f k) = fsys k" "execs (say f k) = execs k" "rnd (say f k) = rnd k"
  "kbd (say f k) = kbd k" "blobs (say f k) = blobs k" "smp (say f k) = smp k" "task_of t (say f k) = task_of t k"
  by (simp_all add: say_def task_of_def split: prod.splits tref.splits)

section \<open>Who runs where\<close>

text \<open>Slots know their number, and every running task is the current task of the CPU it names.\<close>

definition valid :: "tref \<Rightarrow> bool" where
  "valid t \<longleftrightarrow> (case t of Slot i \<Rightarrow> i < NTASK | Idle c \<Rightarrow> c < NCPU_MAX)"

definition named :: "k64 \<Rightarrow> bool" where
  "named k \<longleftrightarrow> (\<forall>i < NTASK. tid (tasks k i) = int i) \<and> (\<forall>c < NCPU_MAX. tid (idle_tasks k c) = 100 + int c)"

definition placed :: "k64 \<Rightarrow> bool" where
  "placed k \<longleftrightarrow> (\<forall>t. valid t \<longrightarrow> tstate (task_of t k) = T_RUNNING \<longrightarrow> (\<exists>c. last_cpu (task_of t k) = int c \<and> cur_cpu k c = Some t)) \<and>
     (\<forall>c t. cur_cpu k c = Some t \<longrightarrow> (case t of Slot i \<Rightarrow> i < NTASK | Idle d \<Rightarrow> d = c))"

lemma ours_iff: "ours c k = Some t \<longleftrightarrow> cur_cpu k c = Some t \<and> tstate (task_of t k) = T_RUNNING \<and> last_cpu (task_of t k) = int c"
  by (auto simp: ours_def split: option.splits if_splits)

lemma placed_ours: "placed k \<Longrightarrow> valid t \<Longrightarrow> tstate (task_of t k) = T_RUNNING \<Longrightarrow> \<exists>!c. ours c k = Some t"
  unfolding placed_def ours_iff by (metis of_nat_eq_iff)

lemma pick_next_Some:
  assumes "pick_next s ts = Some j"
  shows "tstate (ts j) = T_READY" "j < NTASK"
proof -
  have "tstate (ts j) = T_READY" "j \<in> set (map (\<lambda>i. nat ((s + int i) mod int NTASK)) [1..<Suc NTASK])"
    using assms unfolding pick_next_def find_Some_iff in_set_conv_nth by metis+
  then show "tstate (ts j) = T_READY" "j < NTASK" by (auto simp: NTASK_def nat_less_iff)
qed

text \<open>The distance from slot \<open>s\<close> to slot \<open>j\<close> in the direction of the scan, 1 to 32.\<close>

definition ahead :: "int \<Rightarrow> nat \<Rightarrow> nat" where
  "ahead s j = nat ((int j - s - 1) mod int NTASK) + 1"

lemma ahead_range: "1 \<le> ahead s j \<and> ahead s j \<le> NTASK"
proof -
  have "(int j - s - 1) mod int NTASK < int NTASK" by (simp add: NTASK_def)
  then have "nat ((int j - s - 1) mod int NTASK) < NTASK" by (simp add: NTASK_def nat_less_iff)
  then show ?thesis by (simp add: ahead_def)
qed

lemma ahead_at: "j < NTASK \<Longrightarrow> nat ((s + int (ahead s j)) mod int NTASK) = j"
proof -
  assume j: "j < NTASK"
  have n: "0 \<le> (int j - s - 1) mod int NTASK" by (simp add: NTASK_def)
  have "(s + int (ahead s j)) mod int NTASK = (s + 1 + (int j - s - 1) mod int NTASK) mod int NTASK"
    using n by (simp add: ahead_def algebra_simps)
  also have "\<dots> = int j mod int NTASK" by (simp add: mod_simps)
  finally show ?thesis using j by simp
qed

lemma ahead_idx: "1 \<le> i \<Longrightarrow> i \<le> NTASK \<Longrightarrow> ahead s (nat ((s + int i) mod int NTASK)) = i"
proof -
  assume i: "1 \<le> i" "i \<le> NTASK"
  have "(int (nat ((s + int i) mod int NTASK)) - s - 1) mod int NTASK = ((s + int i) mod int NTASK - (s + 1)) mod int NTASK"
    by (simp add: NTASK_def algebra_simps)
  also have "\<dots> = (int i - 1) mod int NTASK" by (simp add: mod_simps)
  also have "\<dots> = int i - 1" using i by simp
  finally show ?thesis using i by (simp add: ahead_def)
qed

text \<open>The scan finds the ready slot that is nearest ahead.\<close>

lemma pick_next_iff:
  "pick_next s ts = Some j \<longleftrightarrow> j < NTASK \<and> tstate (ts j) = T_READY \<and>
     (\<forall>i < NTASK. tstate (ts i) = T_READY \<longrightarrow> ahead s j \<le> ahead s i)" (is "?L = ?R")
proof -
  let ?f = "\<lambda>i. nat ((s + int i) mod int NTASK)"
  have idx: "map ?f [1..<Suc NTASK] ! i = ?f (Suc i)" if "i < NTASK" for i using that by (simp del: upt_Suc)
  have len: "length (map ?f [1..<Suc NTASK]) = NTASK" by simp
  show ?thesis
  proof
    assume ?L
    then obtain n where n: "n < NTASK" "tstate (ts j) = T_READY" "j = ?f (Suc n)" and first: "\<forall>i < n. tstate (ts (?f (Suc i))) \<noteq> T_READY"
      unfolding pick_next_def find_Some_iff len using idx by auto
    have aj: "ahead s j = Suc n" using ahead_idx [of "Suc n" s] n by simp
    have "ahead s j \<le> ahead s i" if i: "i < NTASK" "tstate (ts i) = T_READY" for i
    proof (rule ccontr)
      assume "\<not> ahead s j \<le> ahead s i"
      then have "ahead s i - 1 < n" "Suc (ahead s i - 1) = ahead s i" using aj ahead_range [of s i] by auto
      with first have "tstate (ts (?f (ahead s i))) \<noteq> T_READY" by metis
      with i ahead_at [OF i(1)] show False by simp
    qed
    with \<open>?L\<close> show ?R using pick_next_Some by blast
  next
    assume R: ?R
    let ?n = "ahead s j - 1"
    have n: "?n < NTASK" "Suc ?n = ahead s j" using ahead_range [of s j] by auto
    have "tstate (ts (?f (Suc i))) \<noteq> T_READY" if "i < ?n" for i
    proof
      assume "tstate (ts (?f (Suc i))) = T_READY"
      moreover have "?f (Suc i) < NTASK" by (simp add: NTASK_def nat_less_iff)
      ultimately have "ahead s j \<le> ahead s (?f (Suc i))" using R by blast
      then show False using ahead_idx [of "Suc i" s] that n by simp
    qed
    then show ?L unfolding pick_next_def find_Some_iff len
      using n idx R ahead_at [of j s] by (intro exI [of _ ?n]) auto
  qed
qed

lemma pick_next_None: "pick_next s ts = None \<longleftrightarrow> (\<forall>i < NTASK. tstate (ts i) \<noteq> T_READY)"
proof
  assume n: "pick_next s ts = None"
  show "\<forall>i < NTASK. tstate (ts i) \<noteq> T_READY"
  proof (intro allI impI notI)
    fix i assume i: "i < NTASK" "tstate (ts i) = T_READY"
    have "i \<in> set (map (\<lambda>i. nat ((s + int i) mod int NTASK)) [1..<Suc NTASK])"
      using ahead_at [OF i(1), of s] ahead_range [of s i] by (auto simp: image_iff simp del: upt_Suc intro!: bexI [of _ "ahead s i"])
    with n i(2) show False unfolding pick_next_def find_None_iff by blast
  qed
next
  assume "\<forall>i < NTASK. tstate (ts i) \<noteq> T_READY"
  then show "pick_next s ts = None" using pick_next_Some by (metis not_Some_eq)
qed

section \<open>One scheduling decision\<close>

definition start_of :: "tref option \<Rightarrow> k64 \<Rightarrow> int" where
  "start_of p k = (case p of None \<Rightarrow> 0 | Some t \<Rightarrow> tid (task_of t k))"

text \<open>A slot the scheduler may give the CPU to: ready, or the one being preempted.\<close>

definition eligible :: "tref option \<Rightarrow> k64 \<Rightarrow> nat \<Rightarrow> bool" where
  "eligible p k i \<longleftrightarrow> i < NTASK \<and> (tstate (tasks k i) = T_READY \<or> p = Some (Slot i))"

definition chosen :: "nat \<Rightarrow> tref option \<Rightarrow> k64 \<Rightarrow> tref \<Rightarrow> bool" where
  "chosen me p k next \<longleftrightarrow>
     (case next of
        Slot j \<Rightarrow> eligible p k j \<and> (\<forall>i. eligible p k i \<longrightarrow> ahead (start_of p k) j \<le> ahead (start_of p k) i)
      | Idle c \<Rightarrow> c = me \<and> (\<forall>i. \<not> eligible p k i))"

lemma ours_cases:
  assumes "placed k" "ours me k = Some t"
  obtains i where "t = Slot i" "i < NTASK" | "t = Idle me"
  using assms unfolding placed_def ours_iff by (cases t) force+

lemma tasks_demote: "tstate (tasks (demote r p k) i) = T_READY \<longleftrightarrow> tstate (tasks k i) = T_READY \<or> p = Some (Slot i)"
  by (auto simp: demote_def split: option.splits tref.splits)

lemma tid_demote: "tid (task_of t (demote r p k)) = tid (task_of t k)"
  by (simp add: demote_def split: option.splits)

lemma choose_next_chosen:
  assumes "placed k" "ours me k = p"
  shows "chosen me p k (choose_next me p (demote r p k))"
proof -
  let ?k = "demote r p k"
  have st: "(case p of None \<Rightarrow> 0 | Some t \<Rightarrow> tid (task_of t ?k)) = start_of p k"
    by (simp add: start_of_def tid_demote split: option.splits)
  have el: "eligible p k i \<longleftrightarrow> i < NTASK \<and> tstate (tasks ?k i) = T_READY" for i by (simp add: eligible_def tasks_demote)
  show ?thesis
  proof (cases "pick_next (start_of p k) (tasks ?k)")
    case (Some j)
    then show ?thesis using pick_next_iff [of "start_of p k" "tasks ?k" j] by (simp add: choose_next_def st chosen_def el)
  next
    case None
    then have no: "\<not> eligible p k i" for i using el pick_next_None by blast
    have "p = None \<or> p = Some (Idle me)"
      using assms no unfolding eligible_def by (cases p) (auto elim: ours_cases)
    moreover have "choose_next me p ?k = Idle me" using None calculation
      by (auto simp: choose_next_def st split: option.splits)
    ultimately show ?thesis using no by (simp add: chosen_def)
  qed
qed

text \<open>The task that loses the CPU: its frame, its FPU state and the state ready are recorded.\<close>

definition preempted :: "u64 \<Rightarrow> fximg \<Rightarrow> task64 \<Rightarrow> task64" where
  "preempted r f u = u\<lparr>trsp := r, tstate := T_READY, fx := f\<rparr>"

lemma sched_pick_eq:
  assumes p: "placed k" "ours me k = p" and pick: "sched_pick me r k = (next, k')"
  shows "chosen me p k next" "cur_cpu k' = (cur_cpu k)(me := Some next)"
    "p \<noteq> Some next \<Longrightarrow> task_of next k' = (task_of next k)\<lparr>tstate := T_RUNNING, last_cpu := int me\<rparr>"
    "p = Some next \<Longrightarrow> task_of next k' = (task_of next k)\<lparr>trsp := r\<rparr>"
    "t \<noteq> next \<Longrightarrow> task_of t k' = (if p = Some t then preempted r (fpu_of k me) (task_of t k) else task_of t k)"
    "fpu_of k' = fpu_of k" "cr3_of k' = cr3_of k" "rsp0_of k' = rsp0_of k" "kmem k' = kmem k"
proof -
  have next': "next = choose_next me p (demote r p k)" using pick p(2) by (auto simp: sched_pick_def Let_def)
  show "chosen me p k next" unfolding next' by (rule choose_next_chosen [OF p])
  show "cur_cpu k' = (cur_cpu k)(me := Some next)" "fpu_of k' = fpu_of k" "cr3_of k' = cr3_of k" "rsp0_of k' = rsp0_of k" "kmem k' = kmem k"
    using pick p(2) by (auto simp: sched_pick_def Let_def demote_def split: option.splits)
  show "p \<noteq> Some next \<Longrightarrow> task_of next k' = (task_of next k)\<lparr>tstate := T_RUNNING, last_cpu := int me\<rparr>"
    using pick p(2) by (auto simp: sched_pick_def Let_def demote_def split: option.splits)
  show "p = Some next \<Longrightarrow> task_of next k' = (task_of next k)\<lparr>trsp := r\<rparr>"
    using pick p(2) by (auto simp: sched_pick_def Let_def demote_def ours_iff split: option.splits)
  show "t \<noteq> next \<Longrightarrow> task_of t k' = (if p = Some t then preempted r (fpu_of k me) (task_of t k) else task_of t k)"
    using pick p(2) by (auto simp: sched_pick_def Let_def demote_def preempted_def split: option.splits)
qed

lemma switch_fields [simp]:
  "task_of t (sched_switch me n k) = task_of t k" "cur_cpu (sched_switch me n k) = cur_cpu k" "kmem (sched_switch me n k) = kmem k"
  "fpu_of (sched_switch me n k) = (fpu_of k)(me := fx (task_of n k))"
  by (auto simp: sched_switch_def Let_def task_of_def split: tref.splits)

section \<open>The scheduling invariant\<close>

definition sched_inv :: "k64 \<Rightarrow> bool" where
  "sched_inv k \<longleftrightarrow> named k \<and> placed k"

lemma named_iff: "named k \<longleftrightarrow> (\<forall>i < NTASK. tid (task_of (Slot i) k) = int i) \<and> (\<forall>c < NCPU_MAX. tid (task_of (Idle c) k) = 100 + int c)"
  by (simp add: named_def task_of_def)

text \<open>A change of the tasks that starts none keeps the invariant.\<close>

lemma sched_inv_quiet:
  assumes "sched_inv k" "cur_cpu k' = cur_cpu k"
    and "\<And>t. tid (task_of t k') = tid (task_of t k)"
    and "\<And>t. tstate (task_of t k') = T_RUNNING \<Longrightarrow> tstate (task_of t k) = T_RUNNING \<and> last_cpu (task_of t k') = last_cpu (task_of t k)"
  shows "sched_inv k'"
  using assms unfolding sched_inv_def named_iff placed_def by metis

text \<open>Updates of a task that neither start nor rename it.\<close>

definition quiet :: "(task64 \<Rightarrow> task64) \<Rightarrow> bool" where
  "quiet f \<longleftrightarrow> (\<forall>u. tid (f u) = tid u \<and> (tstate (f u) = T_RUNNING \<longrightarrow> tstate u = T_RUNNING \<and> last_cpu (f u) = last_cpu u))"

lemma quiet_upd: "sched_inv k \<Longrightarrow> quiet f \<Longrightarrow> sched_inv (upd_task t f k)"
  by (rule sched_inv_quiet [of k]) (auto simp: quiet_def)

lemma schedule_inv:
  assumes inv: "sched_inv k"
  shows "sched_inv (snd (task64_schedule me shoot r k))"
proof (cases shoot)
  case True
  then show ?thesis
    using inv by (auto simp: task64_schedule_def quiet_def split: option.splits intro!: quiet_upd)
next
  case False
  have pl: "placed k" and nm: "named k" using inv by (simp_all add: sched_inv_def)
  obtain next' k1 where pick: "sched_pick me r k = (next', k1)" by fastforce
  note sp = sched_pick_eq [OF pl refl pick]
  have k': "snd (task64_schedule me shoot r k) = (if Some next' = ours me k then k1 else sched_switch me next' k1)"
    using False by (simp add: task64_schedule_def pick)
  have tid: "tid (task_of t k1) = tid (task_of t k)" for t
    using sp(3,4) sp(5) [of t] by (cases "t = next'"; cases "ours me k = Some next'") (auto simp: preempted_def)
  have "named k1" using nm unfolding named_iff tid .
  moreover have "placed k1"
    unfolding placed_def
  proof (intro conjI allI impI)
    fix t assume v: "valid t" and t: "tstate (task_of t k1) = T_RUNNING"
    show "\<exists>c. last_cpu (task_of t k1) = int c \<and> cur_cpu k1 c = Some t"
    proof (cases "t = next'")
      case True
      then have "last_cpu (task_of t k1) = int me"
        using sp(3,4) by (cases "ours me k = Some next'") (auto simp: ours_iff)
      then show ?thesis using True sp(2) by auto
    next
      case False
      then have t': "task_of t k1 = task_of t k" "ours me k \<noteq> Some t"
        using t sp(5) [of t] by (auto simp: preempted_def split: if_splits)
      then obtain c where c: "last_cpu (task_of t k) = int c" "cur_cpu k c = Some t" using pl t v unfolding placed_def by metis
      then have "c \<noteq> me" using t t' by (auto simp: ours_iff)
      then show ?thesis using c t' sp(2) by auto
    qed
  next
    fix c t assume c: "cur_cpu k1 c = Some t"
    show "case t of Slot i \<Rightarrow> i < NTASK | Idle d \<Rightarrow> d = c"
    proof (cases "c = me")
      case True
      then have "t = next'" using c sp(2) by simp
      then show ?thesis using sp(1) True by (auto simp: chosen_def eligible_def split: tref.splits)
    next
      case False
      then have "cur_cpu k c = Some t" using c sp(2) by simp
      then show ?thesis using pl unfolding placed_def by blast
    qed
  qed
  ultimately have i1: "sched_inv k1" by (simp add: sched_inv_def)
  then have "sched_inv (sched_switch me next' k1)" by (rule sched_inv_quiet) simp_all
  with i1 show ?thesis unfolding k' by simp
qed

section \<open>Every operation keeps it\<close>

definition keeps_inv :: "(k64, 'a) opn \<Rightarrow> bool" where
  "keeps_inv m \<longleftrightarrow> (\<forall>k. sched_inv k \<longrightarrow> sched_inv (snd (m k)))"

named_theorems kept \<open>operations that keep the scheduling invariant\<close>

lemma kept_basic [kept]: "keeps_inv (ret a)" "keeps_inv (fail e)" "keeps_inv trap" "keeps_inv (gets f)"
  by (simp_all add: keeps_inv_def)

lemma kept_seq [kept]: "keeps_inv m \<Longrightarrow> (\<And>a. keeps_inv (f a)) \<Longrightarrow> keeps_inv (seq m f)"
  unfolding keeps_inv_def seq_def by (auto split: prod.splits res.splits)

lemma kept_err_to [kept]: "keeps_inv m \<Longrightarrow> keeps_inv (err_to e m)"
  unfolding keeps_inv_def err_to_def by (auto split: prod.splits res.splits)

lemma kept_on_err [kept]: "keeps_inv m \<Longrightarrow> keeps_inv h \<Longrightarrow> keeps_inv (on_err m h)"
  unfolding keeps_inv_def on_err_def by (auto split: prod.splits res.splits)

lemma kept_if [kept]: "(b \<Longrightarrow> keeps_inv m) \<Longrightarrow> (\<not> b \<Longrightarrow> keeps_inv n) \<Longrightarrow> keeps_inv (if b then m else n)"
  by simp

lemma kept_option [kept]: "keeps_inv m \<Longrightarrow> (\<And>a. keeps_inv (f a)) \<Longrightarrow> keeps_inv (case x of None \<Rightarrow> m | Some a \<Rightarrow> f a)"
  by (cases x) simp_all

lemma kept_pair [kept]: "(\<And>a b. keeps_inv (f a b)) \<Longrightarrow> keeps_inv (case p of (a, b) \<Rightarrow> f a b)"
  by (cases p) simp

lemma kept_Let [kept]: "(\<And>a. keeps_inv (f a)) \<Longrightarrow> keeps_inv (let x = a in f x)"
  by simp

lemma kept_other:
  assumes "\<And>k. tasks (snd (m k)) = tasks k \<and> idle_tasks (snd (m k)) = idle_tasks k \<and> cur_cpu (snd (m k)) = cur_cpu k"
  shows "keeps_inv m"
proof -
  have "task_of t (snd (m k)) = task_of t k" for t k using assms by (simp add: task_of_def split: tref.splits)
  then show ?thesis unfolding keeps_inv_def using assms by (auto intro: sched_inv_quiet)
qed

lemma kept_parts [kept]: "keeps_inv (on_mem me f)" "keeps_inv (on_screen me g)" "keeps_inv (on_files h)" "keeps_inv (load_image me ta img)"
  "keeps_inv (set_reg r n v)" "keeps_inv (rewind r)" "keeps_inv (cr3_swap me c)" "keeps_inv (on_serial p)" "keeps_inv (modify (say q))"
  by (rule kept_other; auto simp: on_mem_def on_screen_def on_files_def on_serial_def load_image_def set_reg_def rewind_def cr3_swap_def
      split: option.splits prod.splits)+

lemma kept_upd [kept]: "quiet f \<Longrightarrow> keeps_inv (modify (upd_task t f))" "quiet f \<Longrightarrow> keeps_inv (set_slot i f)"
  by (simp_all add: keeps_inv_def set_slot_def quiet_upd)

lemma quiet_image [simp]: "quiet (set_image b e)"
  by (simp add: quiet_def set_image_def)

lemma kept_publish [kept]: "keeps_inv (task_publish i)" "keeps_inv (task_unreserve i)"
  unfolding task_publish_def task_unreserve_def by (auto intro!: kept_upd simp: quiet_def)

lemma inv_fields [simp]: "sched_inv (k\<lparr>kmem := b\<rparr>) = sched_inv k" "sched_inv (k\<lparr>fpu_of := c\<rparr>) = sched_inv k"
  "sched_inv (k\<lparr>cr3_of := e\<rparr>) = sched_inv k" "sched_inv (k\<lparr>fsys := g\<rparr>) = sched_inv k" "sched_inv (k\<lparr>dsk := d\<rparr>) = sched_inv k"
  "sched_inv (k\<lparr>ticks := h\<rparr>) = sched_inv k"
  by (simp_all add: sched_inv_def named_def placed_def)

lemma fx_init_inv: "sched_inv k \<Longrightarrow> sched_inv (fx_init L me t k)"
  by (simp add: fx_init_def Let_def quiet_upd quiet_def)

lemma kept_frame [kept]: "keeps_inv (modify (build_frame t rip cs rsp ss))"
  by (simp add: keeps_inv_def build_frame_def Let_def quiet_upd quiet_def)

lemma kept_alloc [kept]: "keeps_inv (alloc_slot L me name)"
proof -
  have "sched_inv (k\<lparr>tasks := (tasks k)(i := u), fsys := g\<rparr>)" if "sched_inv k" "i < NTASK" "tid u = int i" "tstate u = T_NEW" for k i u g
  proof (rule sched_inv_quiet [OF that(1)])
    fix t
    have "tid (tasks k i) = int i" using that(1,2) by (simp add: sched_inv_def named_def)
    then show "tid (task_of t (k\<lparr>tasks := (tasks k)(i := u), fsys := g\<rparr>)) = tid (task_of t k)"
      using that(3) by (simp add: task_of_def split: tref.splits)
    assume "tstate (task_of t (k\<lparr>tasks := (tasks k)(i := u), fsys := g\<rparr>)) = T_RUNNING"
    then show "tstate (task_of t k) = T_RUNNING \<and> last_cpu (task_of t (k\<lparr>tasks := (tasks k)(i := u), fsys := g\<rparr>)) = last_cpu (task_of t k)"
      using that(4) by (auto simp: task_of_def split: tref.splits if_splits)
  qed simp
  then show ?thesis
    unfolding keeps_inv_def alloc_slot_def by (auto split: option.splits dest!: scan_SomeD intro!: fx_init_inv)
qed

lemma kept_ops [kept]: "keeps_inv (task64_schedule me shoot r)" "keeps_inv (teardown L me c)" "keeps_inv (store_user me va bs)"
  "keeps_inv (rax_ret r v)" "keeps_inv (clone_of me c)" "keeps_inv (map_ustack me c i)" "keeps_inv (user_name me va)"
  unfolding teardown_def store_user_def rax_ret_def clone_of_def map_ustack_def user_name_def
  by (simp_all add: keeps_inv_def schedule_inv) (simp_all add: keeps_inv_def [symmetric] kept)

lemma kept_wire [kept]: "keeps_inv (wire_image L me c i img)"
  unfolding wire_image_def by (intro kept)

lemma kept_screen [kept]: "keeps_inv (release_screen L me t)"
  unfolding release_screen_def by (intro kept kept_other [of "modify _"]) simp

lemma kept_exit_section [kept]: "keeps_inv (exit_section t status)"
  unfolding keeps_inv_def
proof (intro allI impI)
  fix k assume k: "sched_inv k"
  let ?k1 = "upd_task t (\<lambda>u. u\<lparr>exit_code := status, tstate := T_ZOMBIE\<rparr>) k"
  have k1: "sched_inv ?k1" using k by (rule quiet_upd) (simp add: quiet_def)
  have k2: "sched_inv (?k1\<lparr>tasks := orphan pid (tasks ?k1)\<rparr>)" for pid
    by (rule sched_inv_quiet [OF k1]) (auto simp: task_of_def orphan_def split: tref.splits if_splits)
  have wake: "sched_inv (k\<lparr>tasks := (tasks k)(n := (tasks k n)\<lparr>tstate := T_READY\<rparr>)\<rparr>)" if "sched_inv k" for k n
    using quiet_upd [OF that, of "\<lambda>u. u\<lparr>tstate := T_READY\<rparr>" "Slot n"] by (simp add: quiet_def upd_task_def)
  have same: "k\<lparr>tasks := (tasks k)(n := tasks k n)\<rparr> = k" for k n by simp
  show "sched_inv (snd (exit_section t status k))"
    unfolding exit_section_def Let_def using wake [OF k2] k2 by (simp split: if_split)
qed

lemma kept_wait_section [kept]: "keeps_inv (wait_section t pid w r)"
  unfolding keeps_inv_def wait_section_def Let_def by (auto split: option.splits intro!: quiet_upd simp: quiet_def)

lemma kept_sleep_section [kept]: "keeps_inv (sleep_section t delta r)"
  unfolding keeps_inv_def sleep_section_def Let_def by (auto intro!: quiet_upd simp: quiet_def)

lemma kept_tick [kept]: "keeps_inv (modify (tick_section L))"
proof -
  have "sched_inv (k\<lparr>tasks := wake_sleepers now (tasks k)\<rparr>)" if "sched_inv k" for k now
    by (rule sched_inv_quiet [OF that]) (auto simp: task_of_def wake_sleepers_def split: tref.splits if_splits)
  moreover have "sched_inv (say f k)" if "sched_inv k" for f k by (rule sched_inv_quiet [OF that]) simp_all
  ultimately show ?thesis unfolding keeps_inv_def tick_section_def Let_def by simp
qed

lemma quiet_sets [simp]:
  "quiet (\<lambda>u. u\<lparr>tcr3 := c, parent := p\<rparr>)" "quiet (\<lambda>u. u\<lparr>tcr3 := c, tstate := T_FREE\<rparr>)" "quiet (\<lambda>u. u\<lparr>heap_brk := b\<rparr>)"
  "quiet (\<lambda>u. u\<lparr>user_base := a, heap_base := h, heap_brk := b\<rparr>)"
  "quiet (\<lambda>u. u\<lparr>tcr3 := c, parent := p, user_base := a, heap_base := h, heap_brk := b\<rparr>)"
  by (simp_all add: quiet_def)

lemma kept_exec_commit [kept]: "keeps_inv (exec_commit L me t c n im r)"
proof -
  have "keeps_inv (modify (\<lambda>k. upd_task t (\<lambda>u. u\<lparr>tcr3 := c\<rparr>) (k\<lparr>cr3_of := (cr3_of k)(me := c)\<rparr>)))"
    "keeps_inv (modify (\<lambda>k. fx_init L me t (upd_task t (\<lambda>u. (set_image b e u)\<lparr>tname := x\<rparr>) k)))"
    "keeps_inv (modify (\<lambda>k. k\<lparr>kmem := f k\<rparr>))" for b e x f
    by (simp_all add: keeps_inv_def quiet_upd quiet_def set_image_def fx_init_inv)
  then show ?thesis unfolding exec_commit_def by (intro kept)
qed

lemma kept_fork_stack [kept]: "keeps_inv (modify (fork_stack me t i r))"
  by (simp add: keeps_inv_def fork_stack_def Let_def quiet_upd quiet_def)

lemma kept_exit_reap [kept]: "keeps_inv (exit_reap L me t)"
  unfolding exit_reap_def by (intro kept kept_other [of "modify (\<lambda>k. k\<lparr>cr3_of := _ k\<rparr>)"]) simp_all

lemma kept_calls:
  "keeps_inv (task64_spawn_image L me name)" "keeps_inv (task64_spawn_args L me name args)" "keeps_inv (task64_clone L me func)"
  "keeps_inv (task64_fork L me r)" "keeps_inv (task64_exit L me status)" "keeps_inv (task64_sleep me shoot delta r)"
  "keeps_inv (task64_on_tick L me shoot r)" "keeps_inv (task64_brk me nw r)" "keeps_inv (task64_demand me va)"
  unfolding task64_spawn_image_def task64_spawn_args_def task64_clone_def task64_fork_def task64_exit_def task64_sleep_def
    task64_on_tick_def task64_brk_def brk_shrink_def task64_demand_def
  by (intro kept quiet_sets quiet_image)+

lemma kept_wait [kept]:
  "(\<And>z s c. keeps_inv (a z s c)) \<Longrightarrow> keeps_inv b \<Longrightarrow> keeps_inv c \<Longrightarrow> keeps_inv d \<Longrightarrow>
   keeps_inv (case w of W_Reap z s x \<Rightarrow> a z s x | W_Echild \<Rightarrow> b | W_Nohang \<Rightarrow> c | W_Block \<Rightarrow> d)"
  by (cases w) simp_all

lemma kept_handled [kept]:
  assumes "keeps_inv m" "\<And>e. keeps_inv (h e)" "\<And>a. keeps_inv (f a)"
  shows "keeps_inv (\<lambda>k. case m k of (Err e, k') \<Rightarrow> h e k' | (Trap, k') \<Rightarrow> (Trap, k') | (Val a, k') \<Rightarrow> f a k')"
  using assms unfolding keeps_inv_def by (auto split: prod.splits res.splits)

lemma kept_wait_exec:
  "keeps_inv (task64_waitpid L me shoot pid sp w r)" "keeps_inv (task64_exec L me name r)" "keeps_inv (task64_kill_fault L me shoot r kind)"
  unfolding task64_waitpid_def task64_exec_def task64_kill_fault_def by (intro kept kept_calls)+

text \<open>The state after boot satisfies it.\<close>

lemma idle_setup_slots: "tasks (idle_setup L me i k) = tasks k" "cur_cpu (idle_setup L me i k) = cur_cpu k"
  "c \<noteq> i \<Longrightarrow> idle_tasks (idle_setup L me i k) c = idle_tasks k c"
  "tid (idle_tasks (idle_setup L me i k) i) = 100 + int i" "tstate (idle_tasks (idle_setup L me i k) i) = T_READY"
  by (auto simp: idle_setup_def build_frame_def fx_init_def Let_def upd_task_def task_of_def)

lemma idle_setups:
  "tasks (fold (idle_setup L me) cs k) = tasks k \<and> cur_cpu (fold (idle_setup L me) cs k) = cur_cpu k \<and>
   (\<forall>c \<in> set cs. tid (idle_tasks (fold (idle_setup L me) cs k) c) = 100 + int c \<and> tstate (idle_tasks (fold (idle_setup L me) cs k) c) = T_READY)"
proof (induction cs rule: rev_induct)
  case (snoc c cs)
  show ?case
  proof (intro conjI ballI)
    fix d assume d: "d \<in> set (cs @ [c])"
    show "tid (idle_tasks (fold (idle_setup L me) (cs @ [c]) k) d) = 100 + int d"
      "tstate (idle_tasks (fold (idle_setup L me) (cs @ [c]) k) d) = T_READY"
      using d snoc by (cases "d = c"; simp add: idle_setup_slots)+
  qed (use snoc in \<open>simp_all add: idle_setup_slots\<close>)
qed simp

lemma task64_init_inv: "sched_inv (task64_init L me k)"
proof -
  let ?k = "task64_init L me k"
  obtain k3 where k3: "?k = fold (idle_setup L me) [0..<NCPU_MAX] k3"
    "\<forall>i < NTASK. tid (tasks k3 i) = int i \<and> (tstate (tasks k3 i) = T_RUNNING \<longrightarrow> i = 0 \<and> last_cpu (tasks k3 i) = 0)"
    "cur_cpu k3 = (\<lambda>_. None)(0 := Some (Slot 0))"
    by (auto simp: task64_init_def Let_def fx_init_def boot_task_def)
  note i = idle_setups [of L me "[0..<NCPU_MAX]" k3, folded k3(1)]
  show ?thesis
    unfolding sched_inv_def named_def placed_def
    using i k3(2,3) by (auto simp: valid_def task_of_def NTASK_def split: tref.splits if_splits)
qed


section \<open>Round robin\<close>

text \<open>C8.  A scheduling decision gives the CPU to the ready slot nearest ahead of the preempted one, and to
  the idle task only when no slot is ready; the preempted task keeps its frame and FPU state and
  becomes ready, the chosen one gets its own, and no other task changes.\<close>

theorem schedule_round_robin:
  assumes "placed k" and "ours me k = p" and "task64_schedule me False r k = (res, k')"
  shows "\<exists>next. chosen me p k next \<and> cur_cpu k' = (cur_cpu k)(me := Some next) \<and>
    tstate (task_of next k') = T_RUNNING \<and> last_cpu (task_of next k') = int me \<and>
    (\<forall>t. t \<noteq> next \<longrightarrow> task_of t k' = (if p = Some t then preempted r (fpu_of k me) (task_of t k) else task_of t k)) \<and>
    (if p = Some next then res = Val r \<and> fpu_of k' = fpu_of k
     else res = Val (trsp (task_of next k)) \<and> fpu_of k' = (fpu_of k)(me := fx (task_of next k)) \<and> rsp0_of k' me = kstack_top (task_of next k))"
proof -
  obtain next' k1 where pick: "sched_pick me r k = (next', k1)" by fastforce
  note sp = sched_pick_eq [OF assms(1,2) pick]
  have k': "(res, k') = (if p = Some next' then (Val r, k1) else (Val (trsp (task_of next' k1)), sched_switch me next' k1))"
    using assms(2,3) by (auto simp: task64_schedule_def pick)
  show ?thesis
  proof (cases "p = Some next'")
    case True
    then have "ours me k = Some next'" using assms(2) by simp
    then show ?thesis using True k' sp by (intro exI [of _ next']) (auto simp: ours_iff)
  next
    case False
    then show ?thesis using k' sp by (intro exI [of _ next']) (auto simp: sched_switch_def Let_def)
  qed
qed

lemma schedule_step:
  assumes "placed k" "ours me k = p" "k' = snd (task64_schedule me False r k)"
  obtains nx where "chosen me p k nx" "ours me k' = Some nx"
    "\<And>t. t \<noteq> nx \<Longrightarrow> p \<noteq> Some t \<Longrightarrow> task_of t k' = task_of t k"
proof -
  obtain next' k1 where pick: "sched_pick me r k = (next', k1)" by fastforce
  note sp = sched_pick_eq [OF assms(1,2) pick]
  have k': "task_of t k' = task_of t k1 \<and> cur_cpu k' = cur_cpu k1" for t
    using assms(2,3) by (auto simp: task64_schedule_def pick)
  have "ours me k' = Some next'"
    using sp(2,3,4) assms(2) k' by (cases "p = Some next'") (auto simp: ours_iff)
  then show ?thesis using that [of next'] sp(1,5) k' by auto
qed

lemma ahead_sub:
  assumes "i < NTASK" "j < NTASK" "ahead s i < ahead s j"
  shows "ahead (int i) j = ahead s j - ahead s i"
proof -
  have a: "int i = (s + int (ahead s i)) mod int NTASK" "int j = (s + int (ahead s j)) mod int NTASK"
    using ahead_at [OF assms(1), of s] ahead_at [OF assms(2), of s] by (simp_all add: NTASK_def nat_eq_iff)
  have "(int j - int i - 1) mod int NTASK = ((s + int (ahead s j)) mod int NTASK - ((s + int (ahead s i)) mod int NTASK + 1)) mod int NTASK"
    using a by (simp add: algebra_simps)
  also have "\<dots> = ((s + int (ahead s j)) - (s + int (ahead s i) + 1)) mod int NTASK"
    by (rule mod_diff_cong) (simp_all add: mod_simps)
  also have "\<dots> = (int (ahead s j) - int (ahead s i) - 1) mod int NTASK" by (simp add: algebra_simps)
  also have "\<dots> = int (ahead s j) - int (ahead s i) - 1"
    using assms(3) ahead_range [of s j] ahead_range [of s i] by (intro mod_pos_pos_trivial) auto
  finally have e: "(int j - int i - 1) mod int NTASK = int (ahead s j) - int (ahead s i) - 1" .
  show ?thesis unfolding ahead_def [of "int i"] e using assms(3) by linarith
qed

text \<open>One CPU scheduling again and again, with the frames \<open>rs\<close>.\<close>

primrec run_sched :: "nat \<Rightarrow> (nat \<Rightarrow> u64) \<Rightarrow> nat \<Rightarrow> k64 \<Rightarrow> k64" where
  "run_sched me rs 0 k = k"
| "run_sched me rs (Suc n) k = run_sched me (\<lambda>i. rs (Suc i)) n (snd (task64_schedule me False (rs 0) k))"

lemma starvation_free:
  assumes "sched_inv k" "me < NCPU_MAX" "j < NTASK" "tstate (tasks k j) = T_READY" "ahead (start_of (ours me k) k) j \<le> m"
  shows "\<exists>n. 0 < n \<and> n \<le> m \<and> ours me (run_sched me rs n k) = Some (Slot j)"
  using assms
proof (induction m arbitrary: k rs)
  case 0
  then show ?case using ahead_range [of "start_of (ours me k) k" j] by simp
next
  case (Suc m)
  let ?k = "snd (task64_schedule me False (rs 0) k)" and ?s = "start_of (ours me k) k"
  have inv: "sched_inv ?k" by (rule schedule_inv [OF Suc.prems(1)])
  have pl: "placed k" using Suc.prems(1) by (simp add: sched_inv_def)
  obtain next' where c: "chosen me (ours me k) k next'" and o: "ours me ?k = Some next'"
    and same: "\<And>t. t \<noteq> next' \<Longrightarrow> ours me k \<noteq> Some t \<Longrightarrow> task_of t ?k = task_of t k"
    by (rule schedule_step [OF pl refl refl]) blast
  have ej: "eligible (ours me k) k j" using Suc.prems(3,4) by (simp add: eligible_def)
  then obtain i where i: "next' = Slot i" "i < NTASK" "ahead ?s i \<le> ahead ?s j"
    using c by (cases next') (auto simp: chosen_def eligible_def)
  show ?case
  proof (cases "i = j")
    case True
    then show ?thesis using o i by (intro exI [of _ 1]) simp
  next
    case False
    have lt: "ahead ?s i < ahead ?s j"
      using i(3) ahead_at [OF i(2), of ?s] ahead_at [OF Suc.prems(3), of ?s] False by (metis order_le_imp_less_or_eq)
    have nj: "ours me k \<noteq> Some (Slot j)" using Suc.prems(4) by (auto simp: ours_iff)
    then have ready: "tstate (tasks ?k j) = T_READY" using same [of "Slot j"] i(1) False Suc.prems(4) by simp
    have "tid (tasks ?k i) = int i" using inv i(2) by (simp add: sched_inv_def named_def)
    then have "start_of (ours me ?k) ?k = int i" using o i(1) by (simp add: start_of_def)
    then have "ahead (start_of (ours me ?k) ?k) j = ahead (int i) j" by simp
    then have "ahead (start_of (ours me ?k) ?k) j \<le> m"
      using ahead_sub [OF i(2) Suc.prems(3) lt] Suc.prems(5) ahead_range [of ?s i] by linarith
    from Suc.IH [OF inv Suc.prems(2,3) ready this, of "\<lambda>i. rs (Suc i)"] obtain n where
      "0 < n" "n \<le> m" "ours me (run_sched me (\<lambda>i. rs (Suc i)) n ?k) = Some (Slot j)" by blast
    then show ?thesis by (intro exI [of _ "Suc n"]) simp
  qed
qed


end
