(* ===== verification/Sched_Block.thy ===== *)
theory Sched_Block
  imports Sched
begin

text \<open>
  Tasks that block: sleeping, waking, and the meeting of exit and wait.
\<close>

section \<open>Blocking\<close>

lemma sint_ge_0: "0 \<le> sint (x::u64) \<longleftrightarrow> unat x < 2 ^ 63"
proof -
  have b: "bit (unat x) 63 \<longleftrightarrow> bit x 63" by (simp add: bit_unsigned_iff)
  have "bit (unat x) 63 \<longleftrightarrow> odd (unat x div 2 ^ 63)" by (simp add: bit_iff_odd)
  also have "\<dots> \<longleftrightarrow> \<not> unat x < 2 ^ 63"
  proof -
    have "unat x div 2 ^ 63 < 2" using unat_u64 [of x] by (simp add: less_mult_imp_div_less)
    then have "unat x div 2 ^ 63 = 0 \<or> unat x div 2 ^ 63 = 1" by linarith
    moreover have "unat x div 2 ^ 63 = 0 \<longleftrightarrow> unat x < 2 ^ 63" by (simp add: div_eq_0_iff)
    ultimately show ?thesis by auto
  qed
  finally show ?thesis using b bit_last_iff [of x] by (simp add: not_less) linarith
qed

text \<open>A CPU whose task has blocked or died switches without saving any FPU state.\<close>

lemma schedule_without_task:
  assumes pl: "placed k" and o: "ours me k = None" and s: "task64_schedule me False r k = (res, k')"
  obtains nx where "chosen me None k nx" "cur_cpu k' me = Some nx" "res = Val (trsp (task_of nx k))"
    "fpu_of k' me = fx (task_of nx k)" "\<And>t. fx (task_of t k') = fx (task_of t k)" "\<And>t. t \<noteq> nx \<Longrightarrow> task_of t k' = task_of t k"
    "\<And>c. c \<noteq> me \<Longrightarrow> cur_cpu k' c = cur_cpu k c" "kmem k' = kmem k"
proof -
  obtain nx k1 where pick: "sched_pick me r k = (nx, k1)" by fastforce
  note sp = sched_pick_eq [OF pl o pick]
  have k': "res = Val (trsp (task_of nx k1))" "k' = sched_switch me nx k1"
    using s o by (simp_all add: task64_schedule_def pick)
  have "fx (task_of t k1) = fx (task_of t k)" for t using sp(3,5) by (cases "t = nx") auto
  then show ?thesis using that [of nx] sp k' by auto
qed

lemma blocked_not_ours: "tstate (task_of t k) = T_BLOCKED \<Longrightarrow> cur_cpu k me = Some t \<Longrightarrow> ours me k = None"
  by (simp add: ours_def)

lemma sleep_blocks:
  assumes "sleep_section t delta r k = (Val False, k1)"
  shows "tstate (task_of t k1) = T_BLOCKED" "cur_cpu k1 = cur_cpu k" "fx (task_of u k1) = fx (task_of u k)" "kmem k1 = kmem k"
    "u \<noteq> t \<Longrightarrow> task_of u k1 = task_of u k" "trsp (task_of t k1) = r" "fpu_of k1 = fpu_of k" "ticks k1 = ticks k"
    "wakeup_tick (task_of t k1) = (if wakeup_tick (task_of t k) = 0 then ticks k + delta else wakeup_tick (task_of t k))"
  using assms by (auto simp: sleep_section_def Let_def split: if_splits)

text \<open>A task that blocks in \<^verbatim>\<open>sleep\<close> loses its FPU state: no image of any task changes, while the
  FPU is loaded with the image of the next task.\<close>

theorem sleep_loses_fpu:
  assumes "sched_inv k" and "cur_cpu k me = Some (Slot i)" and "delta \<noteq> 0" and "fst (sleep_section (Slot i) delta r k) = Val False"
    and "task64_sleep me False delta r k = (res, k')"
  shows "(\<forall>u. fx (task_of u k') = fx (task_of u k)) \<and>
    (\<exists>nx. nx \<noteq> Slot i \<and> cur_cpu k' me = Some nx \<and> fpu_of k' me = fx (task_of nx k))"
proof -
  obtain k1 where s: "sleep_section (Slot i) delta r k = (Val False, k1)" using assms(4) by (cases "sleep_section (Slot i) delta r k") auto
  note b = sleep_blocks [OF s]
  let ?k2 = "k1\<lparr>kmem := (kmem k1)(reg_at r R_RIP := kmem k1 (reg_at r R_RIP) - 2)\<rparr>"
  have "sched_inv k1" using kept_sleep_section [of "Slot i" delta r] assms(1) s unfolding keeps_inv_def by (metis snd_conv)
  then have pl: "placed ?k2" by (simp add: sched_inv_def placed_def)
  have o: "ours me ?k2 = None" using blocked_not_ours [of "Slot i" ?k2 me] b(1,2) assms(2) by simp
  have "task64_schedule me False r ?k2 = (res, k')"
    using assms(2,3,5) s by (simp add: task64_sleep_def rewind_def)
  then obtain nx where n: "chosen me None ?k2 nx" "cur_cpu k' me = Some nx" "fpu_of k' me = fx (task_of nx ?k2)"
    "\<And>t. fx (task_of t k') = fx (task_of t ?k2)"
    by (rule schedule_without_task [OF pl o]) blast
  have "nx \<noteq> Slot i" using n(1) b(1) by (auto simp: chosen_def eligible_def)
  then show ?thesis using n b(3) by auto
qed

text \<open>C40.  \<^verbatim>\<open>sleep\<close> marks its task blocked and releases the lock before the CPU has left the task's
  stack.  If the boot CPU's timer tick falls in between, it resumes the task from the frame whose
  instruction pointer was not yet rewound, while the sleeping CPU still runs on the same stack.\<close>

theorem sleep_wake_race:
  assumes inv: "sched_inv k" and o1: "ours 1 k = Some (Slot i)" and i: "1 \<le> i" "i < NTASK"
    and w: "wakeup_tick (tasks k i) = 0" "ticks k + 1 \<noteq> 0"
    and o0: "ours 0 k = Some (Idle 0)" and others: "\<And>j. j \<noteq> i \<Longrightarrow> tstate (tasks k j) \<notin> {T_READY, T_BLOCKED}"
  shows "\<exists>k1 k2. sleep_section (Slot i) 1 r k = (Val False, k1) \<and> task64_on_tick L 0 False r0 k1 = (Val r, k2) \<and>
    cur_cpu k2 0 = Some (Slot i) \<and> cur_cpu k2 1 = Some (Slot i) \<and> kmem k2 (reg_at r R_RIP) = kmem k (reg_at r R_RIP)"
proof -
  have "\<not> 0 \<le> sint (ticks k - (ticks k + 1))" by simp
  then obtain k1 where s: "sleep_section (Slot i) 1 r k = (Val False, k1)" using w by (simp add: sleep_section_def Let_def)
  note b = sleep_blocks [OF s]
  have inv1: "sched_inv k1" using kept_sleep_section [of "Slot i" 1 r] inv s unfolding keeps_inv_def by (metis snd_conv)
  let ?k = "tick_section L k1"
  have inv2: "sched_inv ?k" using kept_tick inv1 by (simp add: keeps_inv_def)
  have tk: "tasks ?k = wake_sleepers (ticks k + 1) (tasks k1)" "cur_cpu ?k = cur_cpu k1" "kmem ?k = kmem k1" "idle_tasks ?k = idle_tasks k1"
    by (simp_all add: tick_section_def Let_def b(8))
  have ready: "tstate (tasks ?k i) = T_READY" "trsp (tasks ?k i) = r"
    using b(1,6,9) i w by (simp_all add: tk wake_sleepers_def)
  have other: "tstate (tasks ?k j) \<noteq> T_READY" if "j \<noteq> i" for j
    using others [OF that] b(5) [of "Slot j"] that by (auto simp: tk wake_sleepers_def)
  have idle: "ours 0 ?k = Some (Idle 0)"
    using o0 b(2) b(5) [of "Idle 0"] by (simp add: ours_iff tk task_of_def)
  obtain nx k2 where pick: "sched_pick 0 r0 ?k = (nx, k2)" by fastforce
  note sp = sched_pick_eq [OF _ idle pick]
  have nx: "nx = Slot i"
    using sp(1) inv2 ready other i by (cases nx) (auto simp: sched_inv_def chosen_def eligible_def)
  have "task64_on_tick L 0 False r0 k1 = (Val (trsp (task_of nx k2)), sched_switch 0 nx k2)"
    using idle nx by (simp add: task64_on_tick_def task64_schedule_def pick)
  moreover have "trsp (task_of nx k2) = r" using sp(3) inv2 nx ready by (simp add: sched_inv_def)
  moreover have "cur_cpu k2 = (cur_cpu ?k)(0 := Some (Slot i))" "kmem k2 = kmem ?k" using sp(2,9) inv2 nx by (simp_all add: sched_inv_def)
  moreover have "cur_cpu k 1 = Some (Slot i)" using o1 by (simp add: ours_iff)
  ultimately show ?thesis using s tk b(2,4) by auto
qed

lemma unat_neg: "(x::u64) \<noteq> 0 \<Longrightarrow> unat (- x) = 2 ^ 64 - unat x"
proof -
  assume "x \<noteq> 0"
  then have x: "0 < unat x" by (simp add: unat_gt_0)
  have "unat (- x + x) = (unat (- x) + unat x) mod 2 ^ 64" by (simp only: unat_word_ariths) simp
  then have m: "(unat (- x) + unat x) mod 2 ^ 64 = 0" by simp
  have "unat (- x) + unat x < 2 * 2 ^ 64" using unat_u64 [of x] unat_u64 [of "- x"] by linarith
  then have "(unat (- x) + unat x) div 2 ^ 64 < 2" by (simp add: less_mult_imp_div_less)
  moreover have "(unat (- x) + unat x) div 2 ^ 64 \<noteq> 0" using m x by (auto simp: div_eq_0_iff)
  ultimately have "(unat (- x) + unat x) div 2 ^ 64 = 1" by linarith
  with m have "unat (- x) + unat x = 2 ^ 64" by (metis add.right_neutral div_mult_mod_eq mult_1)
  then show ?thesis by simp
qed

text \<open>The tick that wakes a sleeper.\<close>

lemma deadline_iff:
  assumes "n \<le> unat (delta::u64)" "unat delta < 2 ^ 63"
  shows "0 \<le> sint (t + of_nat n - (t + delta)) \<longleftrightarrow> n = unat delta"
proof (cases "n = unat delta")
  case False
  then have lt: "n < unat delta" using assms(1) by simp
  have "t + of_nat n - (t + delta) = - (of_nat (unat delta - n) :: u64)"
    using lt by (simp add: of_nat_diff)
  moreover have "unat (- (of_nat (unat delta - n) :: u64)) = 2 ^ 64 - (unat delta - n)"
  proof -
    have "unat (of_nat (unat delta - n) :: u64) = unat delta - n" using assms(2) by (simp add: unat_of_nat)
    moreover have "(of_nat (unat delta - n) :: u64) \<noteq> 0"
    proof
      assume "(of_nat (unat delta - n) :: u64) = 0"
      then have "unat delta - n = 0" using calculation by simp
      then show False using lt by simp
    qed
    ultimately show ?thesis by (simp add: unat_neg)
  qed
  ultimately show ?thesis unfolding sint_ge_0 using False assms(2) by simp
qed (simp add: sint_ge_0)

lemma tick_tasks: "tasks (tick_section L k) = wake_sleepers (ticks k + 1) (tasks k)" "ticks (tick_section L k) = ticks k + 1"
  by (simp_all add: tick_section_def Let_def)


section \<open>Exit meets wait\<close>

lemma find_unique:
  assumes "x \<in> set xs" "P x" "\<And>y. y \<in> set xs \<Longrightarrow> P y \<Longrightarrow> y = x"
  shows "find P xs = Some x"
proof (cases "find P xs")
  case None
  then show ?thesis using assms(1,2) by (auto simp: find_None_iff)
next
  case (Some y)
  then have "P y" "y \<in> set xs" by (auto simp: find_Some_iff)
  then show ?thesis using Some assms(3) by simp
qed


end
