(* ===== verification/Loader_Proofs.thy ===== *)
theory Loader_Proofs
  imports Loader
begin

text \<open>
  Properties of the program loader and the registries: a registered program is found again and no
  other entry is disturbed, image fields are read in little-endian order, the ELF base stays in its
  512 MB slide window, ranges are mapped as fresh pages with exactly the requested permissions, and the ELF
  segment loader never installs a page that is both writable and executable.
\<close>

section \<open>Registry\<close>

lemma name_eq_drop:
  assumes "CHR 0x00 \<notin> set a" "CHR 0x00 \<notin> set b" "j \<le> length a" "j \<le> length b"
  shows "name_eq a b j n \<longleftrightarrow> drop j a = drop j b \<and> length b - j < n"
  using assms
proof (induction n arbitrary: j)
  case (Suc n)
  show ?case
  proof (cases "j < length b")
    case False
    then have j: "j = length b" using Suc.prems(4) by simp
    have "char_at a j = CHR 0x00 \<longleftrightarrow> length a \<le> j"
      using Suc.prems(1) by (metis char_at_def linorder_not_less nth_mem)
    then show ?thesis using j by (auto simp: char_at_def)
  next
    case True
    then have nz: "char_at b j \<noteq> CHR 0x00" "char_at b j = b ! j" using True Suc.prems(2) by (metis char_at_def nth_mem)+
    show ?thesis
    proof (cases "j < length a")
      case False
      then show ?thesis using nz True by (simp add: char_at_def)
    next
      case ja: True
      then have "drop j a = drop j b \<longleftrightarrow> a ! j = b ! j \<and> drop (Suc j) a = drop (Suc j) b"
        using True Cons_nth_drop_Suc [OF ja] Cons_nth_drop_Suc [OF True] by (metis list.inject)
      with Suc.IH [of "Suc j"] Suc.prems ja True nz show ?thesis by (auto simp: char_at_def)
    qed
  qed
qed simp

definition reg_ok :: "registry \<Rightarrow> bool" where
  "reg_ok reg \<longleftrightarrow> (\<forall>(n, d) \<in> set reg. CHR 0x00 \<notin> set n \<and> length n \<le> 15 \<and> d \<noteq> [])"

lemma reg_ok_register: "reg_ok reg \<Longrightarrow> reg_ok (reg_add m name data reg)"
  using name15_no_nul length_name15 by (auto simp: reg_ok_def reg_add_def split: option.splits)

lemma exec_lookup_map_of:
  assumes "reg_ok reg" "CHR 0x00 \<notin> set name"
  shows "exec_lookup name reg = map_of reg name"
  using assms(1)
proof (induction reg)
  case (Cons e reg)
  obtain n d where e: "e = (n, d)" by fastforce
  have "name_eq n name 0 16 \<longleftrightarrow> n = name"
    using name_eq_drop [of n name 0 16] Cons.prems assms(2) by (auto simp: reg_ok_def e)
  with Cons show ?case by (auto simp: exec_lookup_def reg_ok_def e)
qed (simp add: exec_lookup_def)

lemma name15_id: "CHR 0x00 \<notin> set n \<Longrightarrow> length n \<le> 15 \<Longrightarrow> name15 n = n"
proof -
  assume a: "CHR 0x00 \<notin> set n" "length n \<le> 15"
  have "takeWhile (\<lambda>c. c \<noteq> CHR 0x00) n = n" unfolding takeWhile_eq_all_conv using a(1) by metis
  then show ?thesis using a(2) unfolding name15_def cstr_def by (simp only: take_all)
qed

text \<open>A program registered under a new name of at most fifteen characters is found under that
  name with its data, every other name is looked up as before, and the registry stays well formed.\<close>

theorem registry_roundtrip:
  assumes "reg_ok reg" and "length reg < NEXECREG" and "data \<noteq> []" and "CHR 0x00 \<notin> set name" and "length name \<le> 15"
    and "exec_lookup name reg = None" and "CHR 0x00 \<notin> set other" and "other \<noteq> name"
  shows "exec_lookup name (exec_register (Some name) data reg) = Some data \<and>
         exec_lookup other (exec_register (Some name) data reg) = exec_lookup other reg \<and>
         reg_ok (exec_register (Some name) data reg)"
proof -
  have r: "exec_register (Some name) data reg = reg @ [(name, data)]"
    using assms(2,3) by (simp add: exec_register_def reg_add_def name15_id [OF assms(4,5)])
  have ok: "reg_ok (exec_register (Some name) data reg)"
    unfolding exec_register_def by (rule reg_ok_register [OF assms(1)])
  have "map_of reg name = None" using assms(6) exec_lookup_map_of [OF assms(1,4)] by simp
  moreover have "map_of [(name, data)] other = None" using assms(8) by simp
  ultimately show ?thesis
    using ok exec_lookup_map_of [OF ok assms(4)] exec_lookup_map_of [OF ok assms(7)] exec_lookup_map_of [OF assms(1,7)]
    by (simp add: r map_add_def split: option.splits)
qed

text \<open>A blob read returns -2 exactly when the name is unknown, the size when asked with a zero
  limit, and otherwise copies a prefix of the data that fits in the limit and returns its length.\<close>

theorem blob_read_bounded:
  assumes "blob_read name maxlen reg = (r, bs)"
  shows "(r = -2 \<and> exec_lookup name reg = None \<and> bs = []) \<or>
         (\<exists>data. exec_lookup name reg = Some data \<and>
            (maxlen = 0 \<longrightarrow> r = int (length data) \<and> bs = []) \<and>
            (maxlen \<noteq> 0 \<longrightarrow> r = int (length bs) \<and> length bs \<le> unat maxlen \<and> bs = take (unat maxlen) data))"
  using assms by (auto simp: blob_read_def Let_def min_def split: option.splits if_splits)

section \<open>Little-endian fields\<close>

definition le32 :: "u32 \<Rightarrow> u8 list" where
  "le32 w = map (\<lambda>k. ucast (drop_bit (8 * k) w)) [0..<4]"

lemma byte_bit: "bit (ucast (ucast (drop_bit (8 * k) (w::u32)) :: u8) :: u32) m \<longleftrightarrow> m < 8 \<and> bit w (8 * k + m)"
  by (auto simp: bit_simps dest: bit_imp_le_length)

lemma rd32_le32:
  assumes "i + 4 \<le> length img" "take 4 (drop i img) = le32 w"
  shows "rd32 img i = Some w"
proof -
  let ?b = "\<lambda>k. ucast (ucast (drop_bit (8 * k) w) :: u8) :: u32"
  have n: "img ! (i + k) = ucast (drop_bit (8 * k) w)" if "k < 4" for k
  proof -
    have "take 4 (drop i img) ! k = img ! (i + k)" using that assms(1) by simp
    then show ?thesis using that by (simp add: assms(2) le32_def)
  qed
  have "?b 0 OR push_bit 8 (?b 1) OR push_bit 16 (?b 2) OR push_bit 24 (?b 3) = w"
  proof (rule bit_word_eqI)
    fix m :: nat assume "m < LENGTH(32)"
    then have m: "m < 8 \<or> 8 \<le> m \<and> m < 16 \<or> 16 \<le> m \<and> m < 24 \<or> 24 \<le> m \<and> m < 32" by auto
    show "bit (?b 0 OR push_bit 8 (?b 1) OR push_bit 16 (?b 2) OR push_bit 24 (?b 3)) m = bit w m"
      unfolding bit_or_iff bit_push_bit_iff byte_bit using m by (elim disjE conjE) (simp; arith)+
  qed
  then show ?thesis using assms(1) n [of 0] n [of 1] n [of 2] n [of 3] by (simp add: rd32_def rd8_def)
qed

text \<open>The image readers decode little-endian fields: what was written as one or two 32-bit
  words is read back.\<close>

theorem rd_fields_roundtrip:
  assumes "i + 8 \<le> length img" and "take 4 (drop i img) = le32 lo" and "take 4 (drop (i + 4) img) = le32 hi"
  shows "rd32 img i = Some lo \<and> rd64 img i = Some (ucast lo OR push_bit 32 (ucast hi))"
  using rd32_le32 [of i img lo] rd32_le32 [of "i + 4" img hi] assms by (simp add: rd64_def)

section \<open>ASLR\<close>

text \<open>Every ELF load base lies between 0x60000000 and 0x80000000 and is a multiple of two
  megabytes; each load advances the sequence number.\<close>

theorem elf_base_range:
  assumes "elf_load_base a = (base, a')"
  shows "ELF_BASE \<le> base \<and> base < 0x80000000 \<and> base mod 0x200000 = 0 \<and> exec_seq a' = exec_seq a + 1"
proof -
  obtain v where b: "base = ELF_BASE + (v mod 256) * 0x200000" and q: "exec_seq a' = exec_seq a + 1"
    using assms by (auto simp: elf_load_base_def aslr_next_def Let_def)
  have m: "unat (v mod 256) < 256" by (simp add: unat_mod)
  have u: "unat base = 0x60000000 + unat (v mod 256) * 0x200000"
    using m by (simp add: b ELF_BASE_def unat_word_ariths)
  have "unat (base mod 0x200000) = unat base mod 0x200000" by (simp add: unat_mod)
  also have "\<dots> = (768 * 0x200000 + unat (v mod 256) * 0x200000) mod 0x200000" unfolding u by simp
  also have "\<dots> = 0" by (metis add_mult_distrib mod_mult_self2_is_0)
  finally have "base mod 0x200000 = 0" by (simp only: unat_eq_zero)
  moreover have "ELF_BASE \<le> base" "base < 0x80000000"
    using m unfolding word_le_nat_alt word_less_nat_alt u by (simp_all add: ELF_BASE_def)
  ultimately show ?thesis using q by simp
qed

text \<open>The sequence number does not make consecutive bases differ: from generator state 3 two
  loads in a row get the same base.\<close>

theorem elf_base_repeats:
  "let a = \<lparr>aslr_state = 3, exec_seq = 0\<rparr>; (b1, a1) = elf_load_base a; (b2, a2) = elf_load_base a1 in b1 = b2"
  by code_simp

section \<open>Mapping ranges\<close>

definition page_key :: "u64 \<Rightarrow> nat list \<times> nat" where
  "page_key va = (vpath va, pidx 12 va)"

definition space_ok :: "u64 \<Rightarrow> mem64 \<Rightarrow> bool" where
  "space_ok root s \<longleftrightarrow> pmm_inv s \<and> pt_tree s root \<and> vmm_root s = root"

lemma alloc_space_ok:
  assumes ok: "space_ok root s" and al: "pmm_alloc_inner s = (pa, s1)" and pa: "pa \<noteq> 0"
  shows "space_ok root s1 \<and> (\<forall>va. walk s1 3 root va = walk s 3 root va) \<and> nx_on s1 = nx_on s \<and>
         frame_of pa \<in> free_set s \<and> pa = of_nat (frame_of pa) * 4096"
proof -
  let ?f = "Min (free_set s)"
  have ne: "free_set s \<noteq> {}" using al pa by (auto simp: pmm_alloc_inner_eq)
  then have e: "pa = of_nat ?f * 4096" "s1 = take_frame ?f s" using al by (auto simp: pmm_alloc_inner_eq)
  have f: "?f \<in> free_set s" "?f < PMM_MAX_FRAMES" using Min_free_set [OF ne] free_set_bound by auto
  have inv: "pmm_inv s" "pt_tree s root" "vmm_root s = root" using ok by (auto simp: space_ok_def)
  have ph: "phys s1 t j = phys s t j" if "pt_path s root q t" for q t j
    using pt_tree_not_free [OF inv(2) that f(1)] by (simp add: e(2) take_frame_def)
  have "pt_tree s1 root" using data_write_tree [OF inv(2) ph] by (simp add: e(2))
  moreover have "walk s1 3 root va = walk s 3 root va" for va
    using walk_cong [of s root s1 "[]" root 3 va] ph by simp
  moreover have "pmm_inv s1" using pmm_inv_take [OF inv(1) f(1)] by (simp add: e(2))
  ultimately show ?thesis using f inv(3) by (simp add: space_ok_def e)
qed

lemma map_page_walk:
  assumes ok: "space_ok root s" and m: "vmm_map_page_inner va pa flags s = (0, s')"
  shows "space_ok root s' \<and> walk s 3 root va = None \<and> nx_on s' = nx_on s \<and>
         (\<forall>va'. walk s' 3 root va' = (if page_key va' = page_key va then Some (0, leaf_entry pa flags) else walk s 3 root va'))"
proof -
  have inv: "pmm_inv s" "pt_tree s root" "vmm_root s = root" using ok by (auto simp: space_ok_def)
  from map_page_cases [OF inv(1) _ m] inv obtain s3 pt where
    k: "space_kept root s s3" and p: "pt_path s3 root (vpath va) pt" and z: "\<not> bit (phys s3 pt (pidx 12 va)) 0"
    and s': "s' = set_entry pt (pidx 12 va) (leaf_entry pa flags) s3" by auto
  have l: "length (vpath va) = 3" by (simp add: vpath_def)
  have tree: "pt_tree s3 root" and w: "walk s3 3 root va' = walk s 3 root va'" for va'
    using k by (auto simp: space_kept_def)
  have "walk s3 3 root va = None" using z by (simp add: pt_path_vpath [OF p])
  moreover have "walk s' 3 root va' = (if page_key va' = page_key va then Some (0, leaf_entry pa flags) else walk s 3 root va')" for va'
    using leaf_write_walk [OF tree p l, of "pidx 12 va" "leaf_entry pa flags" va'] w
    by (simp add: s' page_key_def leaf_entry_bits)
  moreover have "space_ok root s'" using k leaf_write_tree [OF tree p l] inv(3) by (simp add: space_ok_def space_kept_def s')
  ultimately show ?thesis using w k by (simp add: space_kept_def s')
qed

text \<open>\<open>maps_new root n va flags s s'\<close>: exactly the \<open>n\<close> pages from \<open>va\<close>, all absent before, became
  present with the given permissions; everything else walks as before.\<close>

definition maps_new :: "u64 \<Rightarrow> nat \<Rightarrow> u64 \<Rightarrow> u64 \<Rightarrow> mem64 \<Rightarrow> mem64 \<Rightarrow> bool" where
  "maps_new root n va flags s s' \<longleftrightarrow>
     (\<forall>va'. (walk s 3 root va' \<noteq> None \<longrightarrow> walk s' 3 root va' = walk s 3 root va') \<and>
            (walk s 3 root va' = None \<longrightarrow>
               (if \<exists>i < n. page_key va' = page_key (va + of_nat i * 4096)
                then (\<exists>e. walk s' 3 root va' = Some (0, e) \<and> bit e 0 \<and> bit e 1 = bit flags 0 \<and> bit e 2 = bit flags 1 \<and> bit e 63 = bit flags 2)
                else walk s' 3 root va' = None))) \<and>
     (\<forall>i < n. walk s 3 root (va + of_nat i * 4096) = None)"

lemma page_key_walk: "page_key a = page_key b \<Longrightarrow> pt_tree s root \<Longrightarrow> walk s 3 root a = walk s 3 root b"
  by (simp add: page_key_def vpath_def numeral_3_eq_3 Let_def)

lemma map_pages_spec:
  "space_ok root s \<Longrightarrow> map_pages n va flags s = (True, s') \<Longrightarrow>
   space_ok root s' \<and> nx_on s' = nx_on s \<and> maps_new root n va flags s s'"
proof (induction n arbitrary: va s)
  case 0
  then show ?case by (simp add: maps_new_def)
next
  case (Suc n)
  obtain pa s1 where al: "pmm_alloc_inner s = (pa, s1)" by fastforce
  obtain r s2 where m: "vmm_map_page_inner va pa flags s1 = (r, s2)" by fastforce
  have pa: "pa \<noteq> 0" and r: "r = 0" and rest: "map_pages n (va + 4096) flags s2 = (True, s')"
    using Suc.prems(2) al m by (auto split: if_splits)
  note a = alloc_space_ok [OF Suc.prems(1) al pa]
  have ok1: "space_ok root s1" and w1: "walk s1 3 root va' = walk s 3 root va'" for va' using a by auto
  note mp = map_page_walk [OF ok1 m [unfolded r]]
  have w2: "walk s2 3 root va' = (if page_key va' = page_key va then Some (0, leaf_entry pa flags) else walk s 3 root va')" for va'
    using mp w1 by simp
  from Suc.IH [OF _ rest] mp have i: "space_ok root s'" "nx_on s' = nx_on s" "maps_new root n (va + 4096) flags s2 s'"
    using a by auto
  have pk: "page_key (va + 4096 + of_nat i * 4096) = page_key (va + of_nat (Suc i) * 4096)" for i by (simp add: algebra_simps)
  have split: "(\<exists>i < Suc n. page_key va' = page_key (va + of_nat i * 4096)) \<longleftrightarrow>
     page_key va' = page_key va \<or> (\<exists>i < n. page_key va' = page_key (va + 4096 + of_nat i * 4096))" for va'
    unfolding pk by (auto simp: less_Suc_eq_0_disj)
  have tree: "pt_tree s root" using Suc.prems(1) by (simp add: space_ok_def)
  have none: "walk s 3 root va' = None" if "page_key va' = page_key va" for va'
    using page_key_walk [OF that tree] mp w1 by simp
  have "maps_new root (Suc n) va flags s s'"
    unfolding maps_new_def
  proof (intro conjI allI impI)
    fix va' assume "walk s 3 root va' \<noteq> None"
    then have "walk s2 3 root va' = walk s 3 root va'" using none w2 by metis
    then show "walk s' 3 root va' = walk s 3 root va'" using i(3) \<open>walk s 3 root va' \<noteq> None\<close> by (simp add: maps_new_def)
  next
    fix va' assume n0: "walk s 3 root va' = None"
    show "if \<exists>i < Suc n. page_key va' = page_key (va + of_nat i * 4096)
       then \<exists>e. walk s' 3 root va' = Some (0, e) \<and> bit e 0 \<and> bit e 1 = bit flags 0 \<and> bit e 2 = bit flags 1 \<and> bit e 63 = bit flags 2
       else walk s' 3 root va' = None"
    proof (cases "page_key va' = page_key va")
      case True
      then have "walk s' 3 root va' = Some (0, leaf_entry pa flags)" using i(3) w2 [of va'] by (simp add: maps_new_def)
      with True show ?thesis unfolding split using leaf_entry_bits [of pa flags] by simp
    next
      case False
      then have "walk s2 3 root va' = None" using n0 w2 by simp
      with i(3) have "if \<exists>i < n. page_key va' = page_key (va + 4096 + of_nat i * 4096)
         then \<exists>e. walk s' 3 root va' = Some (0, e) \<and> bit e 0 \<and> bit e 1 = bit flags 0 \<and> bit e 2 = bit flags 1 \<and> bit e 63 = bit flags 2
         else walk s' 3 root va' = None" unfolding maps_new_def by blast
      with False show ?thesis unfolding split by simp
    qed
  next
    fix j assume j: "j < Suc n"
    show "walk s 3 root (va + of_nat j * 4096) = None"
    proof (cases j)
      case 0
      then show ?thesis using mp w1 by simp
    next
      case (Suc k)
      then have "walk s2 3 root (va + 4096 + of_nat k * 4096) = None" using j i(3) unfolding maps_new_def by blast
      then show ?thesis using w2 [of "va + of_nat j * 4096"] Suc by (auto simp: algebra_simps split: if_splits)
    qed
  qed
  with i show ?case by simp
qed

text \<open>A range is mapped only onto pages that were absent: afterwards each of its pages is present
  with exactly the requested writable, user and no-execute bits, and pages present before are untouched.\<close>

theorem map_range_maps:
  assumes "pmm_inv s" and "pt_tree s (vmm_root s)" and "map_range_fl va sz flags s = (True, s')"
  shows "sz \<noteq> 0 \<and> sz \<le> LOAD_CAP \<and> pmm_inv s' \<and> pt_tree s' (vmm_root s) \<and>
     (\<forall>va'. walk s 3 (vmm_root s) va' \<noteq> None \<longrightarrow> walk s' 3 (vmm_root s) va' = walk s 3 (vmm_root s) va') \<and>
     (\<forall>i < unat ((sz + 4095) div 4096). walk s 3 (vmm_root s) (va + of_nat i * 4096) = None \<and>
        (\<exists>e. walk s' 3 (vmm_root s) (va + of_nat i * 4096) = Some (0, e) \<and>
             bit e 1 = bit flags 0 \<and> bit e 2 = bit flags 1 \<and> bit e 63 = bit flags 2))"
proof -
  have ok: "space_ok (vmm_root s) s" using assms(1,2) by (simp add: space_ok_def)
  have m: "map_pages (unat ((sz + 4095) div 4096)) va flags s = (True, s')" and sz: "sz \<noteq> 0" "\<not> sz > LOAD_CAP"
    using assms(3) by (auto simp: map_range_fl_def split: if_splits)
  note sp = map_pages_spec [OF ok m]
  have i: "walk s 3 (vmm_root s) (va + of_nat i * 4096) = None \<and>
        (\<exists>e. walk s' 3 (vmm_root s) (va + of_nat i * 4096) = Some (0, e) \<and>
             bit e 1 = bit flags 0 \<and> bit e 2 = bit flags 1 \<and> bit e 63 = bit flags 2)"
    if "i < unat ((sz + 4095) div 4096)" for i
  proof -
    have "walk s 3 (vmm_root s) (va + of_nat i * 4096) = None" using sp that unfolding maps_new_def by blast
    moreover have k: "\<exists>k < unat ((sz + 4095) div 4096). page_key (va + of_nat i * 4096) = page_key (va + of_nat k * 4096)" using that by blast
    moreover from this have "if \<exists>k < unat ((sz + 4095) div 4096). page_key (va + of_nat i * 4096) = page_key (va + of_nat k * 4096)
       then (\<exists>e. walk s' 3 (vmm_root s) (va + of_nat i * 4096) = Some (0, e) \<and> bit e 0 \<and> bit e 1 = bit flags 0 \<and> bit e 2 = bit flags 1 \<and> bit e 63 = bit flags 2)
       else walk s' 3 (vmm_root s) (va + of_nat i * 4096) = None"
      using sp calculation(1) unfolding maps_new_def by blast
    ultimately show ?thesis unfolding if_P [OF k] by blast
  qed
  with sp sz show ?thesis by (auto simp: space_ok_def maps_new_def)
qed

text \<open>No page is both writable and executable.\<close>

definition wx_grow :: "u64 \<Rightarrow> mem64 \<Rightarrow> mem64 \<Rightarrow> bool" where
  "wx_grow root s s' \<longleftrightarrow>
     (\<forall>va l e. walk s' 3 root va = Some (l, e) \<longrightarrow> walk s 3 root va = Some (l, e) \<or> (bit e 2 \<and> (bit e 1 \<longrightarrow> bit e 63)))"

lemma wx_grow_refl: "wx_grow root s s"
  by (simp add: wx_grow_def)

lemma wx_grow_trans: "wx_grow root s s' \<Longrightarrow> wx_grow root s' s'' \<Longrightarrow> wx_grow root s s''"
  unfolding wx_grow_def by blast

lemma maps_new_wx:
  assumes "maps_new root n va flags s s'" "bit flags 1" "bit flags 0 \<longrightarrow> bit flags 2"
  shows "wx_grow root s s'"
  unfolding wx_grow_def
proof (intro allI impI)
  fix va' l e assume w: "walk s' 3 root va' = Some (l, e)"
  show "walk s 3 root va' = Some (l, e) \<or> (bit e 2 \<and> (bit e 1 \<longrightarrow> bit e 63))"
  proof (cases "walk s 3 root va'")
    case None
    with assms(1) w have "\<exists>e'. walk s' 3 root va' = Some (0, e') \<and> bit e' 0 \<and> bit e' 1 = bit flags 0 \<and> bit e' 2 = bit flags 1 \<and> bit e' 63 = bit flags 2"
      unfolding maps_new_def by (metis option.distinct(1))
    with w assms(2,3) show ?thesis by auto
  next
    case (Some z)
    with assms(1) w show ?thesis unfolding maps_new_def by (metis option.distinct(1))
  qed
qed

lemma seg_flags_wx: "bit (seg_flags True pf) 1" "bit (seg_flags True pf) 0 \<longrightarrow> bit (seg_flags True pf) 2"
proof -
  have c: "VMM_RW = 2 ^ 0" "VMM_US = 2 ^ 1" "VMM_NX = 2 ^ 2" by (simp_all add: VMM_RW_def VMM_US_def VMM_NX_def)
  show "bit (seg_flags True pf) 1" "bit (seg_flags True pf) 0 \<longrightarrow> bit (seg_flags True pf) 2"
    unfolding seg_flags_def Let_def c by (simp_all add: bit_simps)
qed

lemma map_range_wx:
  assumes "space_ok root s" "map_range_fl va sz flags s = (True, s')" "bit flags 1" "bit flags 0 \<longrightarrow> bit flags 2"
  shows "space_ok root s' \<and> nx_on s' = nx_on s \<and> wx_grow root s s'"
proof -
  have "map_pages (unat ((sz + 4095) div 4096)) va flags s = (True, s')"
    using assms(2) by (auto simp: map_range_fl_def split: if_splits)
  from map_pages_spec [OF assms(1) this] maps_new_wx assms(3,4) show ?thesis by blast
qed

lemma elf_map_wx_aux:
  "space_ok root s \<Longrightarrow> nx_on s \<Longrightarrow> elf_map base img phs tot s = Some (True, s') \<Longrightarrow> space_ok root s' \<and> wx_grow root s s'"
proof (induction phs arbitrary: tot s)
  case Nil
  then show ?case by (simp add: wx_grow_refl)
next
  case (Cons ph phs)
  show ?case
  proof (cases "rd32 img ph = Some 1")
    case False
    with Cons show ?thesis by (auto split: bind_splits if_splits)
  next
    case True
    from Cons.prems(3) True have "\<exists>va sz pf s1. map_range_fl va sz (seg_flags (nx_on s) pf) s = (True, s1) \<and>
        (\<exists>t. elf_map base img phs t s1 = Some (True, s'))"
      by (simp add: Let_def split: bind_splits if_splits prod.splits) blast
    then obtain va sz pf s1 where m: "map_range_fl va sz (seg_flags (nx_on s) pf) s = (True, s1)"
      and r: "\<exists>t. elf_map base img phs t s1 = Some (True, s')" by blast
    have "space_ok root s1 \<and> nx_on s1 = nx_on s \<and> wx_grow root s s1"
      using map_range_wx [OF Cons.prems(1) m] seg_flags_wx Cons.prems(2) by simp
    with r Cons.IH Cons.prems(2) wx_grow_trans show ?thesis by blast
  qed
qed

text \<open>C31.  With no-execute enabled, every page the ELF loader adds to a space is a user page, and it is
  no-execute whenever it is writable.\<close>

theorem elf_map_wx:
  assumes "pmm_inv s" and "pt_tree s (vmm_root s)" and "nx_on s" and "elf_map base img phs tot s = Some (True, s')"
    and "walk s' 3 (vmm_root s) va = Some (l, e)"
  shows "walk s 3 (vmm_root s) va = Some (l, e) \<or> (bit e 2 \<and> (bit e 1 \<longrightarrow> bit e 63))"
  using elf_map_wx_aux [of "vmm_root s" s base img phs tot s'] assms unfolding wx_grow_def space_ok_def by blast

section \<open>Witnesses\<close>

lemma registry_roundtrip_witness:
  "exec_lookup ''sh'' (exec_register (Some ''sh'') [1, 2] [(''ls'', [3])]) = Some [1, 2]"
  using registry_roundtrip [of "[(''ls'', [3])]" "[1, 2]" "''sh''" "''ls''"]
  by (simp add: reg_ok_def NEXECREG_def exec_lookup_def char_at_def eval_nat_numeral)

lemma blob_read_bounded_witness: "snd (blob_read ''a'' 2 [(''a'', [7, 8, 9])]) = [7, 8]"
proof -
  have l: "exec_lookup ''a'' [(''a'', [7, 8, 9])] = Some [7, 8, 9]"
    by (simp add: exec_lookup_def char_at_def eval_nat_numeral)
  show ?thesis
    using blob_read_bounded [of "''a''" 2 "[(''a'', [7, 8, 9])]" "fst (blob_read ''a'' 2 [(''a'', [7, 8, 9])])"
        "snd (blob_read ''a'' 2 [(''a'', [7, 8, 9])])"]
    by (simp add: l)
qed

lemma rd_fields_roundtrip_witness: "rd64 (le32 5 @ le32 6) 0 = Some 0x600000005"
  using rd_fields_roundtrip [of 0 "le32 5 @ le32 6" 5 6] by (simp add: le32_def push_bit_eq_mult)

lemma elf_base_range_witness: "fst (elf_load_base \<lparr>aslr_state = 3, exec_seq = 0\<rparr>) < 0x80000000"
  using elf_base_range [of "\<lparr>aslr_state = 3, exec_seq = 0\<rparr>" "fst (elf_load_base \<lparr>aslr_state = 3, exec_seq = 0\<rparr>)"
      "snd (elf_load_base \<lparr>aslr_state = 3, exec_seq = 0\<rparr>)"] by simp

lemma sample_alloc: "pmm_alloc_inner sample_space = (0x200000, take_frame 512 sample_space)"
proof -
  have "Min {512..<516 :: nat} = 512" by (intro Min_eqI) auto
  then show ?thesis by (simp add: pmm_alloc_inner_eq sample_space_fields)
qed

lemma sample_map_pages:
  assumes "flags = 3 \<or> flags = 7"
  shows "fst (map_pages 1 0x6000 flags sample_space)"
proof -
  have "fst (vmm_map_page_inner 0x6000 0x200000 flags (take_frame 512 sample_space)) = 0"
    using assms by (auto simp: vmm_map_page_inner_def next_tab_def Let_def sample_facts take_frame_def)
  then obtain s' where "vmm_map_page_inner 0x6000 0x200000 flags (take_frame 512 sample_space) = (0, s')"
    by (cases "vmm_map_page_inner 0x6000 0x200000 flags (take_frame 512 sample_space)") auto
  then show ?thesis by (simp add: sample_alloc)
qed

lemma sample_range:
  assumes "flags = 3 \<or> flags = 7" "sz = 4096 \<or> sz = 16"
  shows "fst (map_range_fl 0x6000 sz flags sample_space)"
proof -
  have c: "vmm_is_canonical 0x6FFF" "vmm_is_canonical 0x600F" by (simp_all add: vmm_is_canonical_def drop_bit_eq_div)
  show ?thesis
    using sample_map_pages [OF assms(1)] assms(2) by (auto simp: map_range_fl_def sample_canonical c LOAD_CAP_def)
qed

lemma map_range_maps_witness:
  "\<exists>e. walk (snd (map_range_fl 0x6000 4096 3 sample_space)) 3 0x100000 0x6000 = Some (0, e) \<and> bit e 1 \<and> bit e 2"
proof -
  have "bit (3::u64) 0" "bit (3::u64) 1" by simp_all
  then show ?thesis
    using map_range_maps [of sample_space "0x6000" 4096 3 "snd (map_range_fl 0x6000 4096 3 sample_space)"]
      sample_range [of 3 4096] sample_tree by (auto simp: sample_space_fields prod_eq_iff)
qed

text \<open>One loadable segment, readable and writable, sixteen bytes at 0x6000.\<close>

definition sample_ph :: "u8 list" where
  "sample_ph = [1,0,0,0, 6,0,0,0, 0,0,0,0,0,0,0,0, 0,0x60,0,0,0,0,0,0, 0,0,0,0,0,0,0,0, 0,0,0,0,0,0,0,0, 16,0,0,0,0,0,0,0]"

lemma sample_elf_map: "\<exists>s'. elf_map 0 sample_ph [0] 0 sample_space = Some (True, s')"
proof -
  have f: "rd32 sample_ph 0 = Some 1" "rd32 sample_ph 4 = Some 6" "rd64 sample_ph 8 = Some 0" "rd64 sample_ph 16 = Some 0x6000"
    "rd64 sample_ph 32 = Some 0" "rd64 sample_ph 40 = Some 16"
    by (simp_all add: sample_ph_def rd64_def rd32_def rd8_def push_bit_eq_mult)
  have "seg_flags True 6 = 7" by (simp add: seg_flags_def Let_def VMM_US_def VMM_RW_def VMM_NX_def)
  moreover have "length sample_ph = 48" by (simp add: sample_ph_def)
  moreover obtain s' where "map_range_fl 0x6000 16 7 sample_space = (True, s')"
    using sample_range [of 7 16] by (cases "map_range_fl 0x6000 16 7 sample_space") auto
  ultimately show ?thesis by (simp add: f LOAD_CAP_def Let_def sample_space_fields)
qed

lemma elf_map_wx_witness:
  "\<exists>s'. elf_map 0 sample_ph [0] 0 sample_space = Some (True, s') \<and>
    (\<forall>va l e. walk s' 3 0x100000 va = Some (l, e) \<longrightarrow> walk sample_space 3 0x100000 va \<noteq> Some (l, e) \<longrightarrow> bit e 1 \<longrightarrow> bit e 63)"
proof -
  obtain s' where s': "elf_map 0 sample_ph [0] 0 sample_space = Some (True, s')" using sample_elf_map by blast
  with elf_map_wx [of sample_space 0 sample_ph "[0]" 0 s'] sample_tree show ?thesis
    by (auto simp: sample_space_fields)
qed

end
