(* ===== verification/Win_Proofs.thy ===== *)
theory Win_Proofs
  imports Win
begin

text \<open>
  Correctness of the window slots of \<^verbatim>\<open>src/k64/win64.c\<close>: the pool invariant (free list
  sorted, blocks and windows pairwise disjoint), exactness and isolation of drawing, the event rings
  as bounded queues, agreement of composition and hit testing, and the invariant of every reachable
  desktop state.
\<close>

section \<open>The pool invariant\<close>

text \<open>
  \<open>free_ok B k fl\<close>: the blocks of the free list are non-empty, word aligned, sorted, disjoint, at or
  above \<open>k\<close> and below \<open>B\<close>.  \<open>cover fl\<close> is the set of bytes they hold.
\<close>

fun free_ok :: "nat \<Rightarrow> nat \<Rightarrow> (u32 \<times> u32) list \<Rightarrow> bool" where
  "free_ok B k [] = True"
| "free_ok B k ((o', z) # fl) =
     (k \<le> unat o' \<and> 0 < unat z \<and> 4 dvd unat o' \<and> 4 dvd unat z \<and> unat o' + unat z \<le> B \<and>
      free_ok B (unat o' + unat z) fl)"

fun cover :: "(u32 \<times> u32) list \<Rightarrow> nat set" where
  "cover [] = {}"
| "cover ((o', z) # fl) = {unat o'..<unat o' + unat z} \<union> cover fl"

lemma free_ok_mono: "free_ok B k fl \<Longrightarrow> k' \<le> k \<Longrightarrow> B \<le> B' \<Longrightarrow> free_ok B' k' fl"
  by (induction B k fl arbitrary: k' rule: free_ok.induct) auto

lemma cover_bounds: "free_ok B k fl \<Longrightarrow> x \<in> cover fl \<Longrightarrow> k \<le> x \<and> x < B"
  by (induction B k fl rule: free_ok.induct) force+

lemma unat_add_u32: "unat x + unat (y::u32) < 2 ^ 32 \<Longrightarrow> unat (x + y) = unat x + unat y"
  by (simp add: unat_word_ariths)

lemma take_block_spec:
  assumes "free_ok B k fl" "B < 2 ^ 32" "take_block r fl = Some (o', fl')" "0 < unat r" "4 dvd unat r"
  shows "free_ok B k fl' \<and> cover fl = {unat o'..<unat o' + unat r} \<union> cover fl' \<and>
         {unat o'..<unat o' + unat r} \<inter> cover fl' = {} \<and> 4 dvd unat o' \<and> unat o' + unat r \<le> B"
  using assms
proof (induction B k fl arbitrary: fl' rule: free_ok.induct)
  case (2 B k p z fl)
  show ?case
  proof (cases "z \<ge> r")
    case True
    then have o': "o' = p" and f: "fl' = (if z = r then fl else (p + r, z - r) # fl)" using "2.prems" by auto
    have le: "unat r \<le> unat z" using True by (simp add: word_le_nat_alt)
    have b: "unat p + unat z \<le> B" "free_ok B (unat p + unat z) fl" using "2.prems"(1) by auto
    have u: "unat (p + r) = unat p + unat r" "unat (z - r) = unat z - unat r"
      using le b(1) "2.prems"(2) True by (simp_all add: unat_add_u32 unat_sub)
    have lt: "z \<noteq> r \<Longrightarrow> unat r < unat z" using le by (metis le_neq_implies_less word_unat_eq_iff)
    have c: "x \<in> cover fl \<Longrightarrow> unat p + unat z \<le> x" for x using cover_bounds [OF b(2)] by blast
    show ?thesis
    proof (cases "z = r")
      case True
      then show ?thesis using "2.prems"(1) o' f c
        by (auto intro: free_ok_mono [of B "unat p + unat z" fl k B] dest!: c)
    next
      case False
      with "2.prems"(1,5) o' f u lt le c show ?thesis by (auto dest!: c simp: dvd_diff_nat)
    qed
  next
    case False
    then obtain fl1 where t: "take_block r fl = Some (o', fl1)" and f: "fl' = (p, z) # fl1"
      using "2.prems"(3) by auto
    from "2.prems" have b: "free_ok B (unat p + unat z) fl" by simp
    from "2.IH" [OF b "2.prems"(2) t "2.prems"(4,5)] "2.prems"(1) f show ?thesis
      using cover_bounds [OF b] by auto (metis (no_types, lifting) less_le_not_le)+
  qed
qed simp

lemma merge_free_spec:
  "free_ok B k fl \<Longrightarrow> B < 2 ^ 32 \<Longrightarrow> free_ok B k (merge_free fl) \<and> cover (merge_free fl) = cover fl"
proof (induction fl arbitrary: k rule: merge_free.induct)
  case (1 a b fl)
  obtain p z q y where [simp]: "a = (p, z)" "b = (q, y)" by fastforce
  show ?case
  proof (cases "p + z = q")
    case True
    have u: "unat q = unat p + unat z" using True "1.prems" by (auto simp: unat_add_u32)
    have v: "unat (z + y) = unat z + unat y" using u "1.prems" by (intro unat_add_u32) auto
    have "free_ok B k ((p, z + y) # fl)" using "1.prems" by (simp add: v u add.assoc)
    moreover have "cover ((p, z + y) # fl) = cover ((p, z) # (q, y) # fl)"
      unfolding cover.simps v u by (simp add: ivl_disj_un_two(3) add.assoc flip: Un_assoc)
    ultimately show ?thesis using "1.IH"(1) [of k] True "1.prems"(2) by simp
  next
    case False
    then show ?thesis using "1.IH"(2) [of "unat p + unat z"] "1.prems" by auto
  qed
qed simp_all

lemma sift_last_Nil [simp]: "sift_last [] e = [e]"
  by (simp add: sift_last_def)

lemma sift_last_skip: "\<not> fst e < fst a \<Longrightarrow> sift_last (a # fl) e = a # sift_last fl e"
proof -
  let ?P = "\<lambda>f. fst e < fst f"
  assume "\<not> fst e < fst a"
  then have n: "length (takeWhile ?P (rev (a # fl))) = length (takeWhile ?P (rev fl))"
    by (auto simp: takeWhile_append takeWhile_eq_all_conv [THEN iffD2])
  have "length (takeWhile ?P (rev fl)) \<le> length fl" using length_takeWhile_le [of ?P "rev fl"] by simp
  then show "sift_last (a # fl) e = a # sift_last fl e"
    unfolding sift_last_def n by (simp add: Suc_diff_le Let_def)
qed

lemma sift_last_front: "(\<And>f. f \<in> set fl \<Longrightarrow> fst e < fst f) \<Longrightarrow> sift_last fl e = e # fl"
proof -
  assume a: "\<And>f. f \<in> set fl \<Longrightarrow> fst e < fst f"
  then have "takeWhile (\<lambda>f. fst e < fst f) (rev fl) = rev fl" by simp
  then show ?thesis unfolding sift_last_def Let_def by (simp only:) simp
qed

lemma free_ok_above: "free_ok B k fl \<Longrightarrow> f \<in> set fl \<Longrightarrow> k \<le> unat (fst f)"
  by (induction B k fl rule: free_ok.induct) auto

lemma sift_last_spec:
  assumes "free_ok B k fl" "k \<le> unat o'" "0 < unat z" "4 dvd unat o'" "4 dvd unat z" "unat o' + unat z \<le> B"
    "{unat o'..<unat o' + unat z} \<inter> cover fl = {}"
  shows "free_ok B k (sift_last fl (o', z)) \<and> cover (sift_last fl (o', z)) = {unat o'..<unat o' + unat z} \<union> cover fl"
  using assms
proof (induction fl arbitrary: k)
  case (Cons a fl)
  obtain p y where a [simp]: "a = (p, y)" by fastforce
  have ok: "k \<le> unat p" "0 < unat y" "free_ok B (unat p + unat y) fl" using Cons.prems(1) by auto
  have disj: "\<not> (unat o' \<le> x \<and> x < unat o' + unat z \<and> unat p \<le> x \<and> x < unat p + unat y)" for x
    using Cons.prems(7) by auto
  show ?case
  proof (cases "o' < p")
    case True
    then have lt: "unat o' < unat p" by (simp add: word_less_nat_alt)
    then have "fst (o', z) < fst f" if "f \<in> set (a # fl)" for f
      using that free_ok_above [OF ok(3), of f] lt by (auto simp: word_less_nat_alt)
    then have "sift_last (a # fl) (o', z) = (o', z) # a # fl" by (rule sift_last_front)
    moreover have "unat o' + unat z \<le> unat p" using disj [of "unat p"] lt ok by linarith
    ultimately show ?thesis using Cons.prems by auto
  next
    case False
    then have le: "unat p \<le> unat o'" by (simp add: word_less_nat_alt)
    then have "unat p + unat y \<le> unat o'" using disj [of "unat o'"] Cons.prems(3) by linarith
    with Cons.IH [OF ok(3)] Cons.prems show ?thesis
      using False by (auto simp: sift_last_skip)
  qed
qed simp

definition win_region :: "win \<Rightarrow> nat set" where
  "win_region w = {unat (off w)..<unat (off w) + unat (ww w) * unat (wh w) * 4}"

definition slot_ok :: "nat \<Rightarrow> win \<Rightarrow> bool" where
  "slot_ok B w \<longleftrightarrow> 0 < unat (ww w) \<and> unat (ww w) \<le> 1024 \<and> 0 < unat (wh w) \<and> unat (wh w) \<le> 1024 \<and>
     4 dvd unat (off w) \<and> unat (off w) + unat (ww w) * unat (wh w) * 4 \<le> B"

definition pool_inv :: "winsys \<Rightarrow> bool" where
  "pool_inv s \<longleftrightarrow>
     unat (pool_bump s) \<le> WIN_POOL_BYTES \<and> 4 dvd unat (pool_bump s) \<and>
     free_ok (unat (pool_bump s)) 0 (freev s) \<and>
     (\<forall>i < WIN_MAX. used (wins s i) \<longrightarrow>
        slot_ok (unat (pool_bump s)) (wins s i) \<and> win_region (wins s i) \<inter> cover (freev s) = {}) \<and>
     (\<forall>i < WIN_MAX. \<forall>j < WIN_MAX. i \<noteq> j \<longrightarrow> used (wins s i) \<longrightarrow> used (wins s j) \<longrightarrow>
        win_region (wins s i) \<inter> win_region (wins s j) = {})"

lemma win_bytes:
  assumes "unat (w::u32) \<le> 1024" "unat (h::u32) \<le> 1024"
  shows "unat (w * h * 4) = unat w * unat h * 4" "unat w * unat h * 4 \<le> 4194304"
proof -
  have "unat w * unat h \<le> 1024 * 1024" using assms by (rule mult_le_mono)
  then show "unat w * unat h * 4 \<le> 4194304" by linarith
  then show "unat (w * h * 4) = unat w * unat h * 4" by (simp add: unat_word_ariths mod_mult_left_eq)
qed

text \<open>An allocation carves a block out of what no window and no free block holds.\<close>

lemma pool_alloc_spec:
  assumes inv: "pool_inv s" and al: "pool_alloc r s = Some (o', s')" and r: "0 < unat r" "4 dvd unat r"
  shows "pool_inv s' \<and> wins s' = wins s \<and> win_pool s' = win_pool s \<and> unat (pool_bump s) \<le> unat (pool_bump s') \<and>
         4 dvd unat o' \<and> unat o' + unat r \<le> unat (pool_bump s') \<and> {unat o'..<unat o' + unat r} \<inter> cover (freev s') = {} \<and>
         (\<forall>i < WIN_MAX. used (wins s i) \<longrightarrow> win_region (wins s i) \<inter> {unat o'..<unat o' + unat r} = {})"
proof (cases "take_block r (freev s)")
  case (Some a)
  then obtain fl where a: "take_block r (freev s) = Some (o', fl)" and s': "s' = s\<lparr>freev := fl\<rparr>"
    using al by (auto simp: pool_alloc_def split: prod.splits)
  have fo: "free_ok (unat (pool_bump s)) 0 (freev s)" and B: "unat (pool_bump s) < 2 ^ 32"
    using inv by (auto simp: pool_inv_def WIN_POOL_BYTES_def)
  note t = take_block_spec [OF fo B a r]
  have c: "win_region (wins s i) \<inter> ({unat o'..<unat o' + unat r} \<union> cover fl) = {}"
    if "i < WIN_MAX" "used (wins s i)" for i
    using inv t that unfolding pool_inv_def by metis
  show ?thesis using inv t c unfolding s' pool_inv_def by (auto simp: Int_Un_distrib)
next
  case None
  let ?B = "unat (pool_bump s)"
  have B: "?B \<le> WIN_POOL_BYTES" using inv by (simp add: pool_inv_def)
  have rb: "unat r < 2 ^ 32" using unsigned_less [of r] by simp
  have u: "unat (pool_bump s + ucast r) = ?B + unat r"
    using B rb by (simp add: unat_word_ariths WIN_POOL_BYTES_def unsigned_ucast_eq take_bit_nat_eq_self)
  have s': "o' = ucast (pool_bump s)" "s' = s\<lparr>pool_bump := pool_bump s + ucast r\<rparr>"
    and le: "?B + unat r \<le> WIN_POOL_BYTES"
    using al None u by (auto simp: pool_alloc_def word_less_nat_alt WIN_POOL_BYTES_def split: if_splits)
  have o': "unat o' = ?B" using B by (simp add: s' WIN_POOL_BYTES_def unsigned_ucast_eq take_bit_nat_eq_self)
  have fo: "free_ok ?B 0 (freev s)" using inv by (simp add: pool_inv_def)
  have d1: "{?B..<?B + unat r} \<inter> cover (freev s) = {}"
    using cover_bounds [OF fo] by fastforce
  have d2: "win_region (wins s i) \<inter> {?B..<?B + unat r} = {}" if "i < WIN_MAX" "used (wins s i)" for i
    using that inv by (fastforce simp: pool_inv_def slot_ok_def win_region_def)
  have "slot_ok (?B + unat r) (wins s i)" if "i < WIN_MAX" "used (wins s i)" for i
    using that inv by (auto simp: pool_inv_def slot_ok_def)
  then have "pool_inv s'"
    using inv le r free_ok_mono [OF fo, of 0 "?B + unat r"] by (simp add: pool_inv_def s' u)
  with d1 d2 show ?thesis
    using inv by (simp add: s' u o' [unfolded s'] pool_inv_def)
qed

lemma pool_free_spec:
  assumes fo: "free_ok B 0 (freev s)" and B: "B < 2 ^ 32" and b: "0 < unat z" "4 dvd unat o'" "4 dvd unat z" "unat o' + unat z \<le> B"
    and d: "{unat o'..<unat o' + unat z} \<inter> cover (freev s) = {}"
  shows "free_ok B 0 (freev (pool_free o' z s)) \<and>
         cover (freev (pool_free o' z s)) \<subseteq> {unat o'..<unat o' + unat z} \<union> cover (freev s) \<and>
         (length (freev s) \<le> WIN_MAX \<longrightarrow> cover (freev (pool_free o' z s)) = {unat o'..<unat o' + unat z} \<union> cover (freev s))"
  using sift_last_spec [OF fo _ b d] merge_free_spec [OF _ B, of 0 "sift_last (freev s) (o', z)"] fo
  by (auto simp: pool_free_def)

lemma pool_free_fields [simp]:
  "wins (pool_free o' z s) = wins s" "win_pool (pool_free o' z s) = win_pool s"
  "pool_bump (pool_free o' z s) = pool_bump s"
  "win_focus (pool_free o' z s) = win_focus s" "win_hover (pool_free o' z s) = win_hover s"
  by (simp_all add: pool_free_def)

lemma kill_win_fields [simp]:
  "wins (kill_win i s) = (wins s)(i := (wins s i)\<lparr>used := False, owner := None\<rparr>)"
  "win_pool (kill_win i s) = win_pool s" "pool_bump (kill_win i s) = pool_bump s"
  "freev (kill_win i s) = freev (pool_free (off (wins s i)) (ww (wins s i) * wh (wins s i) * 4) s)"
  by (simp_all add: kill_win_def win_focus_drop_locked_def set_win_def Let_def)

lemma pool_inv_kill:
  assumes inv: "pool_inv s" and i: "i < WIN_MAX" "used (wins s i)"
  shows "pool_inv (kill_win i s)"
proof -
  let ?w = "wins s i" and ?B = "unat (pool_bump s)"
  have ok: "slot_ok ?B ?w" and dj: "win_region ?w \<inter> cover (freev s) = {}" and fo: "free_ok ?B 0 (freev s)"
    and B: "?B < 2 ^ 32"
    using inv i by (auto simp: pool_inv_def WIN_POOL_BYTES_def)
  have n: "unat (ww ?w * wh ?w * 4) = unat (ww ?w) * unat (wh ?w) * 4"
    using ok by (intro win_bytes) (auto simp: slot_ok_def)
  have dj': "{unat (off ?w)..<unat (off ?w) + unat (ww ?w * wh ?w * 4)} \<inter> cover (freev s) = {}"
    using dj by (simp add: win_region_def n)
  have "free_ok ?B 0 (freev (kill_win i s)) \<and> cover (freev (kill_win i s)) \<subseteq> win_region ?w \<union> cover (freev s)"
    using pool_free_spec [OF fo B _ _ _ _ dj'] ok by (simp add: slot_ok_def n win_region_def)
  then have fo': "free_ok ?B 0 (freev (kill_win i s))"
    and cv: "cover (freev (kill_win i s)) \<subseteq> win_region ?w \<union> cover (freev s)" by blast+
  have other: "win_region (wins s j) \<inter> cover (freev (kill_win i s)) = {}" if "j < WIN_MAX" "used (wins s j)" "j \<noteq> i" for j
  proof -
    have "win_region (wins s j) \<inter> (win_region ?w \<union> cover (freev s)) = {}"
      using inv that i by (simp add: pool_inv_def Int_Un_distrib)
    with cv show ?thesis by blast
  qed
  show ?thesis
    unfolding pool_inv_def using inv fo' other by (simp add: pool_inv_def del: kill_win_fields(4))
qed

text \<open>Only these fields matter for the invariant.\<close>

lemma pool_inv_cong:
  assumes "\<And>i. used (wins s' i) = used (wins s i)" "\<And>i. off (wins s' i) = off (wins s i)"
    "\<And>i. ww (wins s' i) = ww (wins s i)" "\<And>i. wh (wins s' i) = wh (wins s i)"
    "freev s' = freev s" "pool_bump s' = pool_bump s"
  shows "pool_inv s' = pool_inv s"
  using assms by (simp add: pool_inv_def slot_ok_def win_region_def)

lemma win_ev_push_geom [simp]:
  "used (win_ev_push e w) = used w" "off (win_ev_push e w) = off w" "ww (win_ev_push e w) = ww w"
  "wh (win_ev_push e w) = wh w" "owner (win_ev_push e w) = owner w" "wx (win_ev_push e w) = wx w" "wy (win_ev_push e w) = wy w"
  by (simp_all add: win_ev_push_def Let_def)

lemma set_win_fields [simp]:
  "wins (set_win i f s) = (wins s)(i := f (wins s i))" "win_pool (set_win i f s) = win_pool s"
  "freev (set_win i f s) = freev s" "pool_bump (set_win i f s) = pool_bump s"
  "win_focus (set_win i f s) = win_focus s" "win_hover (set_win i f s) = win_hover s"
  "win_last_btn (set_win i f s) = win_last_btn s"
  by (simp_all add: set_win_def)

lemma win_get_SomeD:
  "win_get wid self need s = Some i \<Longrightarrow>
   i < WIN_MAX \<and> wid = int i \<and> used (wins s i) \<and> (need \<longrightarrow> owner (wins s i) = self)"
  by (auto simp: win_get_def split: if_splits)

lemma pool_inv_create: "pool_inv (wsys d) \<Longrightarrow> pool_inv (wsys (snd (win_create self w h ttl d)))"
proof -
  assume inv: "pool_inv (wsys d)"
  let ?s = "wsys d" and ?sz = "ucast w * ucast h * 4 :: u64"
  show ?thesis
  proof (cases "fst (win_create self w h ttl d) < 0")
    case True
    then have "snd (win_create self w h ttl d) = d"
      by (auto simp: win_create_def Let_def split: option.splits)
    with inv show ?thesis by simp
  next
    case False
    then obtain i o' s1 where wh: "w \<noteq> 0" "h \<noteq> 0" "\<not> w > WIN_MAX_DIM" "\<not> h > WIN_MAX_DIM"
      and i: "scan (\<lambda>i. \<not> used (wins ?s i)) 0 WIN_MAX = Some i"
      and al: "pool_alloc (ucast ?sz) ?s = Some (o', s1)"
      and s': "wsys (snd (win_create self w h ttl d)) = set_win i (\<lambda>s. s\<lparr>used := True,
                         wx := of_nat (64 + i * 32), wy := of_nat (64 + i * 24), ww := w, wh := h, off := o',
                         owner := self, title := name15 ttl\<rparr>) s1"
      by (auto simp: win_create_def Let_def split: option.splits if_splits)
    have dim: "0 < unat w" "unat w \<le> 1024" "0 < unat h" "unat h \<le> 1024"
      using wh by (auto simp: WIN_MAX_DIM_def word_less_nat_alt unat_gt_0)
    have sz: "unat (ucast ?sz :: u32) = unat w * unat h * 4"
    proof -
      have "unat ?sz = (unat w * unat h * 4) mod 2 ^ 64"
        by (simp add: unat_word_ariths unsigned_ucast_eq take_bit_eq_mod mod_simps)
      then have "unat ?sz = unat w * unat h * 4" using win_bytes(2) [OF dim(2,4)] by simp
      then show ?thesis using win_bytes(2) [OF dim(2,4)] by (simp add: unsigned_ucast_eq take_bit_eq_mod)
    qed
    have r: "0 < unat (ucast ?sz :: u32)" "4 dvd unat (ucast ?sz :: u32)" using dim by (simp_all add: sz)
    have i': "i < WIN_MAX" "\<not> used (wins ?s i)" using scan_SomeD [OF i] by auto
    note a = pool_alloc_spec [OF inv al r]
    let ?R = "{unat o'..<unat o' + unat w * unat h * 4}"
    have inv1: "pool_inv s1" and w1: "wins s1 = wins ?s" using a by auto
    have dj: "win_region (wins ?s j) \<inter> ?R = {}" if "j < WIN_MAX" "used (wins ?s j)" for j
      using a that by (simp add: sz)
    have ok: "4 dvd unat o'" "unat o' + unat w * unat h * 4 \<le> unat (pool_bump s1)" "?R \<inter> cover (freev s1) = {}"
      using a by (auto simp: sz)
    show ?thesis unfolding s'
      using inv1 i' dj ok dim unfolding pool_inv_def
      by (auto simp: w1 slot_ok_def win_region_def Int_commute)
  qed
qed

lemma win_fill_geom:
  "wins (wsys (snd (win_fill self wid x y w h rgb d))) = wins (wsys d) \<and>
   freev (wsys (snd (win_fill self wid x y w h rgb d))) = freev (wsys d) \<and>
   pool_bump (wsys (snd (win_fill self wid x y w h rgb d))) = pool_bump (wsys d)"
  by (simp add: win_fill_def Let_def split: option.split)

lemma win_blit_geom:
  "wins (wsys (snd (win_blit self wid x y w h us d))) = wins (wsys d) \<and>
   freev (wsys (snd (win_blit self wid x y w h us d))) = freev (wsys d) \<and>
   pool_bump (wsys (snd (win_blit self wid x y w h us d))) = pool_bump (wsys d)"
  by (simp add: win_blit_def Let_def split: option.split)

lemma win_text_geom:
  "wins (wsys (snd (win_text font self wid x y us fg bg d))) = wins (wsys d) \<and>
   freev (wsys (snd (win_text font self wid x y us fg bg d))) = freev (wsys d) \<and>
   pool_bump (wsys (snd (win_text font self wid x y us fg bg d))) = pool_bump (wsys d)"
  by (simp add: win_text_def Let_def split: option.split)

lemma pool_inv_draw:
  assumes "pool_inv (wsys d)"
  shows "pool_inv (wsys (snd (win_fill self wid x y w h rgb d)))"
    "pool_inv (wsys (snd (win_blit self wid x y w h us d)))"
    "pool_inv (wsys (snd (win_text font self wid x y cs fg bg d)))"
  using assms
  by (subst pool_inv_cong [of _ "wsys d"], simp_all add: win_fill_geom win_blit_geom win_text_geom)+

text \<open>A change of slots that leaves geometry alone.\<close>

definition same_geom :: "winsys \<Rightarrow> winsys \<Rightarrow> bool" where
  "same_geom s s' \<longleftrightarrow>
     (\<forall>i. used (wins s' i) = used (wins s i) \<and> off (wins s' i) = off (wins s i) \<and> ww (wins s' i) = ww (wins s i) \<and>
          wh (wins s' i) = wh (wins s i) \<and> owner (wins s' i) = owner (wins s i)) \<and>
     freev s' = freev s \<and> pool_bump s' = pool_bump s \<and> win_pool s' = win_pool s"

lemma same_geom_refl [simp]: "same_geom s s"
  by (simp add: same_geom_def)

lemma same_geom_inv: "same_geom s s' \<Longrightarrow> pool_inv s' = pool_inv s"
  by (rule pool_inv_cong) (simp_all add: same_geom_def)

lemma same_geom_push [simp]: "same_geom s (set_win i (win_ev_push e) t) = same_geom s t"
  unfolding same_geom_def by (simp add: set_win_def) metis

lemma same_geom_upd [simp]:
  "same_geom s (t\<lparr>win_focus := f\<rparr>) = same_geom s t" "same_geom s (t\<lparr>win_hover := f\<rparr>) = same_geom s t"
  "same_geom s (t\<lparr>win_last_btn := b\<rparr>) = same_geom s t"
  by (simp_all add: same_geom_def)

lemma same_geom_route:
  "same_geom s (snd (win_route_key c s))" "same_geom s (win_route_mouse x y b s)" "same_geom s (snd (win_focus_set wid s))"
  by (simp_all add: win_route_key_def win_route_mouse_def win_focus_set_def Let_def)

lemma ev_pop_geom: "ev_pop w = Some (e, w') \<Longrightarrow> used w' = used w \<and> off w' = off w \<and> ww w' = ww w \<and> wh w' = wh w \<and> owner w' = owner w"
  by (auto simp: ev_pop_def split: if_splits)

lemma drain_geom:
  "drain ev_pop n w = (es, w') \<Longrightarrow> used w' = used w \<and> off w' = off w \<and> ww w' = ww w \<and> wh w' = wh w \<and> owner w' = owner w"
  by (induction n arbitrary: w es) (auto split: option.splits prod.splits dest: ev_pop_geom)

lemma same_geom_getevent: "same_geom s (snd (win_getevent self wid mx s))"
proof -
  obtain es w where "drain ev_pop (nat mx) (wins s (nat wid)) = (es, w)" by fastforce
  with drain_geom [OF this] show ?thesis by (simp add: win_getevent_def same_geom_def)
qed

lemma same_geom_setpos: "same_geom (wsys d) (wsys (snd (win_setpos self wid x y d)))"
  by (simp add: win_setpos_def Let_def same_geom_def split: option.split)

lemma pool_inv_release_slot: "pool_inv (wsys d) \<Longrightarrow> i < WIN_MAX \<Longrightarrow> pool_inv (wsys (release_slot t i d))"
  by (simp add: release_slot_def Let_def pool_inv_kill)

lemma pool_inv_release: "pool_inv (wsys d) \<Longrightarrow> pool_inv (wsys (win_owner_release t d))"
proof -
  have "pool_inv (wsys (fold (release_slot t) xs d))" if "pool_inv (wsys d)" "\<forall>i \<in> set xs. i < WIN_MAX" for t xs
    using that by (induction xs arbitrary: d) (simp_all add: pool_inv_release_slot)
  then show "pool_inv (wsys d) \<Longrightarrow> ?thesis" by (simp add: win_owner_release_def split: option.split)
qed

lemma pool_inv_close: "pool_inv (wsys d) \<Longrightarrow> pool_inv (wsys (snd (win_close self wid d)))"
  by (auto simp: win_close_def Let_def split: option.split dest!: win_get_SomeD intro: pool_inv_kill)

text \<open>Raising permutes the slots.\<close>

definition raise_src :: "nat \<Rightarrow> nat \<Rightarrow> nat \<Rightarrow> nat" where
  "raise_src i tp k = (if k = tp then i else if i \<le> k \<and> k < tp then k + 1 else k)"

lemma slide_fold: "fold (\<lambda>i w. w(i := w (i + 1))) [i..<i + n] w = (\<lambda>k. if i \<le> k \<and> k < i + n then w (k + 1) else (w k :: 'a))"
  by (induction n) (auto simp: fun_eq_iff)

lemma win_top_spec:
  assumes "i < WIN_MAX" "used (wins s i)"
  obtains t where "win_top s = int t" "i \<le> t" "t < WIN_MAX" "used (wins s t)" "\<And>k. t < k \<Longrightarrow> k < WIN_MAX \<Longrightarrow> \<not> used (wins s k)"
proof -
  let ?A = "{k. k < WIN_MAX \<and> used (wins s k)}"
  have f: "find P (rev [0..<n]) = (if {k. k < n \<and> P k} = {} then None else Some (Max {k. k < n \<and> P k}))" for P n
  proof (induction n)
    case (Suc n)
    show ?case
    proof (cases "P n")
      case True
      then have "Max {k. k < Suc n \<and> P k} = n" by (intro Max_eqI) auto
      with True show ?thesis by auto
    next
      case False
      then have "{k. k < Suc n \<and> P k} = {k. k < n \<and> P k}" using less_Suc_eq by auto
      with False Suc show ?thesis by simp
    qed
  qed simp
  have i: "i \<in> ?A" using assms by simp
  then have "win_top s = int (Max ?A)" by (auto simp: win_top_def f)
  moreover have "Max ?A \<in> ?A" by (rule Max_in) (use i in auto)
  moreover have "k \<le> Max ?A" if "k \<in> ?A" for k using that by (intro Max_ge) auto
  ultimately show ?thesis using that [of "Max ?A"] i by (metis (mono_tags, lifting) leD mem_Collect_eq)
qed

lemma win_raise_eq:
  assumes "i < WIN_MAX" "used (wins (wsys d) i)" "win_top (wsys d) = int t" "i \<le> t"
  shows "fst (win_raise (int i) d) = 0 \<and>
     wins (wsys (snd (win_raise (int i) d))) = (\<lambda>k. wins (wsys d) (raise_src i t k)) \<and>
     freev (wsys (snd (win_raise (int i) d))) = freev (wsys d) \<and> pool_bump (wsys (snd (win_raise (int i) d))) = pool_bump (wsys d) \<and>
     win_pool (wsys (snd (win_raise (int i) d))) = win_pool (wsys d) \<and>
     win_focus (wsys (snd (win_raise (int i) d))) = raise_index (int i) (int t) (win_focus (wsys d)) \<and>
     win_hover (wsys (snd (win_raise (int i) d))) = raise_index (int i) (int t) (win_hover (wsys d))"
proof (cases "i = t")
  case True
  have "raise_index (int t) (int t) f = f" for f by (simp add: raise_index_def)
  with True assms show ?thesis by (auto simp: win_raise_def Let_def raise_src_def fun_eq_iff)
next
  case False
  have "(\<lambda>k. if i \<le> k \<and> k < t then w (k + 1) else w k)(t := w i) = (\<lambda>k. w (raise_src i t k))" for w :: "nat \<Rightarrow> win"
    by (auto simp: raise_src_def fun_eq_iff)
  with False assms slide_fold [of i "t - i" "wins (wsys d)"] show ?thesis
    by (simp add: win_raise_def Let_def)
qed

lemma raise_src_inj: "i \<le> t \<Longrightarrow> raise_src i t j = raise_src i t k \<Longrightarrow> j = k"
  by (auto simp: raise_src_def split: if_splits)

lemma raise_src_bound: "i \<le> t \<Longrightarrow> t < n \<Longrightarrow> k < n \<Longrightarrow> raise_src i t k < n"
  by (auto simp: raise_src_def)

lemma pool_inv_raise: "pool_inv (wsys d) \<Longrightarrow> pool_inv (wsys (snd (win_raise wid d)))"
proof -
  assume inv: "pool_inv (wsys d)"
  show ?thesis
  proof (cases "0 \<le> wid \<and> wid < int WIN_MAX \<and> used (wins (wsys d) (nat wid))")
    case True
    define i where "i = nat wid"
    have w: "wid = int i" "i < WIN_MAX" "used (wins (wsys d) i)" using True by (auto simp: i_def)
    obtain t where t: "win_top (wsys d) = int t" "i \<le> t" "t < WIN_MAX" by (rule win_top_spec [OF w(2,3)])
    note e = win_raise_eq [OF w(2,3) t(1,2)]
    have "raise_src i t j \<noteq> raise_src i t k" if "j \<noteq> k" for j k using raise_src_inj [OF t(2)] that by blast
    with inv raise_src_bound [OF t(2,3)] show ?thesis unfolding w(1) pool_inv_def by (simp add: e)
  next
    case False
    then have "snd (win_raise wid d) = d" by (auto simp: win_raise_def Let_def)
    with inv show ?thesis by simp
  qed
qed

definition win_pixel :: "winsys \<Rightarrow> nat \<Rightarrow> nat \<Rightarrow> nat \<Rightarrow> u32" where
  "win_pixel s i px py = win_pool s (unat (off (wins s i)) div 4 + py * unat (ww (wins s i)) + px)"

lemma pixel_in_region:
  assumes "slot_ok B w" "px < unat (ww w)" "py < unat (wh w)"
  shows "4 * (unat (off w) div 4 + py * unat (ww w) + px) \<in> win_region w"
proof -
  have "(py + 1) * unat (ww w) \<le> unat (wh w) * unat (ww w)" using assms(3) by (intro mult_right_mono) auto
  then have "py * unat (ww w) + px < unat (wh w) * unat (ww w)" using assms(2) by simp
  moreover have "4 * (unat (off w) div 4) = unat (off w)" using assms(1) by (simp add: slot_ok_def)
  ultimately show ?thesis by (simp add: win_region_def algebra_simps)
qed

lemma pixel_distinct:
  assumes inv: "pool_inv s" and i: "i < WIN_MAX" "used (wins s i)" and j: "j < WIN_MAX" "used (wins s j)"
    and p: "px < unat (ww (wins s i))" "py < unat (wh (wins s i))"
    and q: "qx < unat (ww (wins s j))" "qy < unat (wh (wins s j))"
    and e: "unat (off (wins s i)) div 4 + py * unat (ww (wins s i)) + px =
            unat (off (wins s j)) div 4 + qy * unat (ww (wins s j)) + qx"
  shows "i = j \<and> px = qx \<and> py = qy"
proof -
  have ok: "slot_ok (unat (pool_bump s)) (wins s i)" "slot_ok (unat (pool_bump s)) (wins s j)"
    using inv i j by (auto simp: pool_inv_def)
  have "i = j"
  proof (rule ccontr)
    assume "i \<noteq> j"
    then have "win_region (wins s i) \<inter> win_region (wins s j) = {}" using inv i j by (simp add: pool_inv_def)
    with pixel_in_region [OF ok(1) p] pixel_in_region [OF ok(2) q] e show False by auto
  qed
  then show ?thesis using raster_addr_inj [of px "unat (ww (wins s i))" qx _ py qy] p q e by auto
qed

text \<open>Shared by fill and blit: a clipped raster into slot \<open>i\<close>.\<close>

lemma raster_slot_pixel:
  assumes inv: "pool_inv s" and i: "i < WIN_MAX" "used (wins s i)" and j: "j < WIN_MAX" "used (wins s j)"
    and q: "qx < unat (ww (wins s j))" "qy < unat (wh (wins s j))"
    and c: "x1 \<le> unat (ww (wins s i))" "y1 \<le> unat (wh (wins s i))"
    and s': "wins s' = wins s" "win_pool s' = raster (unat (off (wins s i)) div 4) (unat (ww (wins s i))) [y0..<y1] [x0..<x1] px (win_pool s)"
  shows "win_pixel s' j qx qy =
     (if j = i \<and> x0 \<le> qx \<and> qx < x1 \<and> y0 \<le> qy \<and> qy < y1 then px qy qx else win_pixel s j qx qy)"
proof (cases "j = i \<and> x0 \<le> qx \<and> qx < x1 \<and> y0 \<le> qy \<and> qy < y1")
  case True
  then have "raster (unat (off (wins s i)) div 4) (unat (ww (wins s i))) [y0..<y1] [x0..<x1] px (win_pool s)
       (unat (off (wins s i)) div 4 + qy * unat (ww (wins s i)) + qx) = px qy qx"
    using c by (intro raster_at) auto
  with True show ?thesis by (simp add: win_pixel_def s')
next
  case False
  have "raster (unat (off (wins s i)) div 4) (unat (ww (wins s i))) [y0..<y1] [x0..<x1] px (win_pool s)
       (unat (off (wins s j)) div 4 + qy * unat (ww (wins s j)) + qx) =
       win_pool s (unat (off (wins s j)) div 4 + qy * unat (ww (wins s j)) + qx)"
  proof (rule raster_other, rule notI)
    fix y x assume y: "y \<in> set [y0..<y1]" and x: "x \<in> set [x0..<x1]"
      and e: "unat (off (wins s j)) div 4 + qy * unat (ww (wins s j)) + qx = unat (off (wins s i)) div 4 + y * unat (ww (wins s i)) + x"
    have "x < unat (ww (wins s i))" "y < unat (wh (wins s i))" using x y c by auto
    from pixel_distinct [OF inv j i q this e] x y False show False by auto
  qed
  with False show ?thesis by (auto simp: win_pixel_def s')
qed

lemma clip_le: "unat (if a > (b::u32) then b else a) \<le> unat b"
  by (simp add: word_less_nat_alt)

text \<open>\<^verbatim>\<open>win_fill\<close> writes exactly the requested rectangle, clipped to the window, and no
  pixel of any other window: for every live window and every pixel of it, the new value is the fill
  colour inside the rectangle of the target and the old value everywhere else.  A rectangle whose
  right or lower edge wraps around 32 bits draws nothing.\<close>

theorem win_fill_exact:
  assumes "pool_inv (wsys d)" and "win_fill self wid x y w h rgb d = (0, d')"
    and "j < WIN_MAX" and "used (wins (wsys d) j)" and "qx < unat (ww (wins (wsys d) j))" and "qy < unat (wh (wins (wsys d) j))"
  shows "win_pixel (wsys d') j qx qy =
     (if int j = wid \<and> unat x \<le> qx \<and> qx < unat (x + w) \<and> unat y \<le> qy \<and> qy < unat (y + h)
      then rgb else win_pixel (wsys d) j qx qy)"
proof -
  let ?s = "wsys d"
  from assms(2) obtain i where g: "win_get wid self True ?s = Some i"
    by (auto simp: win_fill_def split: if_splits option.splits)
  note i = win_get_SomeD [OF g]
  let ?w = "wins ?s i"
  let ?x1 = "if x + w > ww ?w then ww ?w else x + w" and ?y1 = "if y + h > wh ?w then wh ?w else y + h"
  have s': "wins (wsys d') = wins ?s"
    "win_pool (wsys d') = raster (unat (off ?w) div 4) (unat (ww ?w)) [unat y..<unat ?y1] [unat x..<unat ?x1] (\<lambda>_ _. rgb) (win_pool ?s)"
    using assms(2) g by (auto simp: win_fill_def Let_def split: if_splits)
  have "j = i \<Longrightarrow> (qx < unat ?x1) = (qx < unat (x + w)) \<and> (qy < unat ?y1) = (qy < unat (y + h))"
    using assms(5,6) by (auto simp: word_less_nat_alt)
  then show ?thesis
    using raster_slot_pixel [OF assms(1) _ _ assms(3-6) clip_le clip_le s'] i by auto
qed

text \<open>\<^verbatim>\<open>win_blit\<close> copies exactly the clipped rectangle of the caller's image into the
  target window and changes no pixel of any other window.\<close>

theorem win_blit_exact:
  assumes "pool_inv (wsys d)" and "win_blit self wid x y w h (Some src) d = (0, d')"
    and "j < WIN_MAX" and "used (wins (wsys d) j)" and "qx < unat (ww (wins (wsys d) j))" and "qy < unat (wh (wins (wsys d) j))"
  shows "win_pixel (wsys d') j qx qy =
     (if int j = wid \<and> unat x \<le> qx \<and> qx < unat (x + w) \<and> unat y \<le> qy \<and> qy < unat (y + h)
      then src ((qy - unat y) * unat w + (qx - unat x)) else win_pixel (wsys d) j qx qy)"
proof -
  let ?s = "wsys d"
  from assms(2) obtain i where g: "win_get wid self True ?s = Some i"
    by (auto simp: win_blit_def split: option.splits)
  note i = win_get_SomeD [OF g]
  let ?w = "wins ?s i"
  let ?x1 = "if x + w > ww ?w then ww ?w else x + w" and ?y1 = "if y + h > wh ?w then wh ?w else y + h"
  have s': "wins (wsys d') = wins ?s"
    "win_pool (wsys d') = raster (unat (off ?w) div 4) (unat (ww ?w)) [unat y..<unat ?y1] [unat x..<unat ?x1]
       (\<lambda>yy xx. src ((yy - unat y) * unat w + (xx - unat x))) (win_pool ?s)"
    using assms(2) g by (auto simp: win_blit_def Let_def split: option.splits)
  have "j = i \<Longrightarrow> (qx < unat ?x1) = (qx < unat (x + w)) \<and> (qy < unat ?y1) = (qy < unat (y + h))"
    using assms(5,6) by (auto simp: word_less_nat_alt)
  then show ?thesis
    using raster_slot_pixel [OF assms(1) _ _ assms(3-6) clip_le clip_le s'] i by auto
qed

text \<open>Text: inside the slot as long as the column arithmetic does not wrap.\<close>

lemma fold_fold_other:
  assumes "\<And>r c. r \<in> set rs \<Longrightarrow> c \<in> set cs \<Longrightarrow> k \<noteq> f r c"
  shows "fold (\<lambda>r. fold (\<lambda>c p. p(f r c := v r c)) cs) rs p k = p k"
  using assms
proof (induction rs arbitrary: p)
  case (Cons r rs)
  have "fold (\<lambda>c p. p(f r c := v r c)) cs p k = p k" by (rule row_other) (simp add: Cons.prems)
  with Cons show ?case by (simp del: fun_upd_apply)
qed simp

lemma text_glyph_other:
  assumes "unat px + 8 \<le> unat (ww w)"
    and "\<And>x y. x < unat (ww w) \<Longrightarrow> y < unat (wh w) \<Longrightarrow> k \<noteq> unat (off w) div 4 + y * unat (ww w) + x"
  shows "text_glyph font w px y c fg bg pool k = pool k"
  unfolding text_glyph_def
proof (rule fold_fold_other)
  fix row col assume r: "row \<in> set (takeWhile (\<lambda>row. y + of_nat row < wh w) [0..<16])" and c: "col \<in> set [0..<8]"
  have "unat (y + of_nat row) < unat (wh w)" using set_takeWhileD [OF r] by (simp add: word_less_nat_alt)
  moreover have "unat (px + of_nat col) < unat (ww w)"
  proof -
    have cn: "col < 8" using c by simp
    have "unat (ww w) < 2 ^ 32" using unsigned_less [of "ww w"] by simp
    with assms(1) cn have "unat px + col < 2 ^ 32" by linarith
    moreover have "unat (of_nat col :: u32) = col" using cn by (simp add: unat_of_nat)
    ultimately have "unat (px + of_nat col) = unat px + col" using unat_add_u32 [of px "of_nat col"] by simp
    with assms(1) cn show ?thesis by linarith
  qed
  ultimately show "k \<noteq> unat (off w) div 4 + unat (y + of_nat row) * unat (ww w) + unat (px + of_nat col)"
    by (intro assms(2))
qed

lemma text_run_other:
  assumes "unat px + 8 * length cs < 2 ^ 32"
    and "\<And>x y. x < unat (ww w) \<Longrightarrow> y < unat (wh w) \<Longrightarrow> k \<noteq> unat (off w) div 4 + y * unat (ww w) + x"
  shows "text_run font w px y cs fg bg pool k = pool k"
  using assms(1)
proof (induction cs arbitrary: px pool)
  case (Cons c cs)
  have u: "unat (px + 8) = unat px + 8" using Cons.prems by (simp add: unat_word_ariths)
  show ?case
  proof (cases "px + 8 > ww w")
    case False
    then have "unat px + 8 \<le> unat (ww w)" using u by (simp add: word_less_nat_alt)
    with text_glyph_other [OF this assms(2)] Cons u False show ?thesis by simp
  qed simp
qed simp

text \<open>\<^verbatim>\<open>win_text\<close> changes no word of the pool outside the target window, as long as the
  last column position stays below \<^term>\<open>2 ^ 32 :: nat\<close>.\<close>

theorem win_text_inside:
  assumes "pool_inv (wsys d)" and "win_text font self wid x y us fg bg d = (r, d')"
    and "unat x + 8 * length us < 2 ^ 32"
    and "\<And>i. i < WIN_MAX \<Longrightarrow> int i = wid \<Longrightarrow> used (wins (wsys d) i) \<Longrightarrow> 4 * k \<notin> win_region (wins (wsys d) i)"
  shows "win_pool (wsys d') k = win_pool (wsys d) k"
proof (cases "win_get wid self True (wsys d)")
  case None
  with assms(2) show ?thesis by (auto simp: win_text_def split: if_splits)
next
  case (Some i)
  note i = win_get_SomeD [OF Some]
  let ?w = "wins (wsys d) i"
  have ok: "slot_ok (unat (pool_bump (wsys d))) ?w" using assms(1) i by (auto simp: pool_inv_def)
  have k: "k \<noteq> unat (off ?w) div 4 + y * unat (ww ?w) + x" if "x < unat (ww ?w)" "y < unat (wh ?w)" for x y
    using pixel_in_region [OF ok that] assms(4) [of i] i by auto
  show ?thesis
    using assms(2) Some text_run_other [OF assms(3) k, of font y "fg AND 0xFFFFFF" "bg AND 0xFFFFFF" "win_pool (wsys d)"]
    by (auto simp: win_text_def Let_def split: if_splits)
qed

lemma text_glyph_wrapped:
  assumes "y < wh w" "0 < unat (ww w)" "unat (wh w) \<le> 1024"
  shows "text_glyph font w (- 8) y c fg bg pool (unat (off w) div 4 + unat y * unat (ww w) + unat (- 8 :: u32)) =
         glyph_px font c fg bg 0 0"
proof -
  let ?f = "\<lambda>row col. unat (off w) div 4 + unat (y + of_nat row) * unat (ww w) + unat (- 8 + of_nat col :: u32)"
  let ?P = "\<lambda>row. y + of_nat row < wh w" and ?v = "glyph_px font c fg bg"
  have tw: "takeWhile ?P [0..<16] = 0 # takeWhile ?P [1..<16]" using assms(1) by (simp add: upt_conv_Cons)
  have uc: "unat (- 8 + of_nat col :: u32) = 4294967288 + col" if "col < 8" for col
    using that unat_add_u32 [of "- 8" "of_nat col"] by (simp add: unat_of_nat)
  have inj: "inj_on (?f 0) (set [0..<8])"
  proof (rule inj_onI)
    fix a b assume "a \<in> set [0..<8]" "b \<in> set [0..<8]" and e: "?f 0 a = ?f 0 b"
    then have "a < 8" "b < 8" by simp_all
    then show "a = b" using e unfolding uc [OF \<open>a < 8\<close>] uc [OF \<open>b < 8\<close>] by linarith
  qed
  let ?p = "fold (\<lambda>col p. p(?f 0 col := ?v 0 col)) [0..<8] pool"
  have p: "?p (?f 0 0) = ?v 0 0" by (rule row_at [OF inj]) simp
  have "fold (\<lambda>row. fold (\<lambda>col p. p(?f row col := ?v row col)) [0..<8]) (takeWhile ?P [1..<16]) ?p (?f 0 0) = ?p (?f 0 0)"
  proof (rule fold_fold_other)
    fix row col assume r: "row \<in> set (takeWhile ?P [1..<16])" and cl: "col \<in> set [0..<8]"
    have rb: "1 \<le> row" "row < 16" "y + of_nat row < wh w" using set_takeWhileD [OF r] by auto
    have ur: "unat (of_nat row :: u32) = row" using rb(2) by (simp add: unat_of_nat)
    have "unat (- 8 :: u32) \<le> unat (- 8 + of_nat col :: u32)"
      using cl uc [of col] by simp
    moreover have "unat y < unat (y + of_nat row)"
    proof -
      have "unat y + row < 2 ^ 32" using assms(1,3) rb(2) by (simp add: word_less_nat_alt)
      then have "unat (y + of_nat row) = unat y + row" using unat_add_u32 [of y "of_nat row"] ur by simp
      with rb(1) show ?thesis by simp
    qed
    moreover from this have "unat y * unat (ww w) < unat (y + of_nat row) * unat (ww w)" using assms(2) by simp
    ultimately have "?f 0 0 < ?f row col" by (simp add: add_less_le_mono)
    then show "?f 0 0 \<noteq> ?f row col" by (rule less_imp_neq)
  qed
  with p show ?thesis unfolding text_glyph_def tw by (simp del: fun_upd_apply)
qed

text \<open>The clip test of \<^verbatim>\<open>win_text\<close>, \<^verbatim>\<open>px + 8 > s->w\<close>, wraps: at column
  0xFFFFFFF8 it passes, and the glyph is written past the end of the pool array.\<close>

theorem win_text_overrun:
  assumes "pool_inv (wsys d)" and "i < WIN_MAX" and "used (wins (wsys d) i)" and "owner (wins (wsys d) i) = Some t"
    and "y < wh (wins (wsys d) i)" and "win_text font (Some t) (int i) (- 8) y [c] fg bg d = (r, d')"
  shows "r = 0 \<and> (\<exists>k \<ge> WIN_POOL_BYTES div 4. win_pool (wsys d') k = glyph_px font c (fg AND 0xFFFFFF) (bg AND 0xFFFFFF) 0 0)"
proof -
  let ?w = "wins (wsys d) i"
  have ok: "slot_ok (unat (pool_bump (wsys d))) ?w" using assms(1-3) by (auto simp: pool_inv_def)
  have g: "win_get (int i) (Some t) True (wsys d) = Some i" using assms(2-4) by (simp add: win_get_def)
  have r: "r = 0" "win_pool (wsys d') = text_glyph font ?w (- 8) y c (fg AND 0xFFFFFF) (bg AND 0xFFFFFF) (win_pool (wsys d))"
    using assms(6) g by (auto simp: win_text_def Let_def)
  have "win_pool (wsys d') (unat (off ?w) div 4 + unat y * unat (ww ?w) + unat (- 8 :: u32)) =
        glyph_px font c (fg AND 0xFFFFFF) (bg AND 0xFFFFFF) 0 0"
    unfolding r(2) using ok assms(5) by (intro text_glyph_wrapped) (auto simp: slot_ok_def)
  moreover have "WIN_POOL_BYTES div 4 \<le> unat (- 8 :: u32)" by (simp add: WIN_POOL_BYTES_def)
  ultimately show ?thesis using r(1) by (meson trans_le_add2)
qed

section \<open>Event rings\<close>

definition ring_ok :: "win \<Rightarrow> bool" where
  "ring_ok w \<longleftrightarrow> unat (ev_head w) < WIN_EV_N \<and> unat (ev_tail w) < WIN_EV_N"

definition ev_items :: "win \<Rightarrow> winev list" where
  "ev_items w = ring_items WIN_EV_N (ev w) (unat (ev_head w)) (unat (ev_tail w))"

lemma u8_next_64: "unat (((x::u8) + 1) AND 63) = Suc (unat x) mod WIN_EV_N"
proof -
  have e: "(63 :: u8) = mask 6" by (simp add: mask_eq_exp_minus_1)
  have "unat ((x + 1) AND 63) = unat (x + 1) mod 64"
    unfolding e take_bit_eq_mask [symmetric] unsigned_take_bit_eq by (simp add: take_bit_eq_mod)
  also have "unat (x + 1) = Suc (unat x) mod 256" by (simp add: unat_word_ariths)
  finally show ?thesis by (simp add: WIN_EV_N_def mod_mod_cancel)
qed

lemma u8_idx_eq: "(x::u8) = y \<longleftrightarrow> unat x = unat y"
  by (rule word_unat_eq_iff)

interpretation winq: bounded_queue win_ev_push ev_pop ev_items "\<lambda>w. used w \<and> ring_ok w" 63
proof
  fix q :: win and x :: winev and xs :: "winev list"
  assume "used q \<and> ring_ok q"
  then have u: "used q" and b: "unat (ev_head q) < WIN_EV_N" "unat (ev_tail q) < WIN_EV_N" by (auto simp: ring_ok_def)
  have full: "(ev_head q + 1) AND 63 = ev_tail q \<longleftrightarrow> length (ev_items q) = 63"
    using ring_full_iff [OF b] by (simp add: u8_idx_eq u8_next_64 ev_items_def) (simp add: WIN_EV_N_def)
  show l: "length (ev_items q) \<le> 63" using ring_items_bound [of WIN_EV_N] by (simp add: ev_items_def WIN_EV_N_def)
  have n: "unat ((y + 1 :: u8) AND 63) < WIN_EV_N" for y by (simp add: u8_next_64 WIN_EV_N_def)
  show "used (win_ev_push x q) \<and> ring_ok (win_ev_push x q)"
    using u b n by (simp add: win_ev_push_def Let_def ring_ok_def)
  show "ev_items (win_ev_push x q) = (if length (ev_items q) < 63 then ev_items q @ [x] else ev_items q)"
    using ring_push [OF b, of "ev q" x] full l u
    by (auto simp: win_ev_push_def Let_def ev_items_def u8_next_64 u8_idx_eq)
  show "ev_pop q = None" if "ev_items q = []"
  proof -
    have "length (ev_items q) = 0" using that by simp
    then show ?thesis using ring_empty_iff [OF b] by (simp add: ev_pop_def ev_items_def u8_idx_eq)
  qed
  show "\<exists>q'. ev_pop q = Some (x, q') \<and> ev_items q' = xs \<and> used q' \<and> ring_ok q'" if "ev_items q = x # xs"
  proof -
    have "length (ev_items q) \<noteq> 0" using that by simp
    then have ne: "ev_head q \<noteq> ev_tail q" using ring_empty_iff [OF b] by (auto simp: ev_items_def)
    with ring_pop [OF b, of "ev q"] that u b n show ?thesis
      by (auto simp: ev_pop_def ev_items_def u8_next_64 u8_idx_eq ring_ok_def)
  qed
qed

section \<open>What is shown is what is hit\<close>

lemma find_app: "find P (xs @ ys) = (case find P xs of None \<Rightarrow> find P ys | Some b \<Rightarrow> Some b)"
  by (induction xs) auto

lemma fold_last_wins:
  assumes "\<And>i d. F i d x = (if P i then v i else d x)"
  shows "fold F xs d x = (case find P (rev xs) of None \<Rightarrow> d x | Some i \<Rightarrow> v i)"
  by (induction xs arbitrary: d) (auto simp: find_app assms split: option.splits)

lemma composite_slot_at:
  assumes "x < fbw"
  shows "composite_slot s y fbw i drow (unat x) =
     (if win_contains x y (wins s i) then win_pixel s i (unat (x - wx (wins s i))) (unat (y - wy (wins s i))) else drow (unat x))"
proof -
  let ?w = "wins s i"
  let ?src = "unat (off ?w) div 4 + unat (y - wy ?w) * unat (ww ?w)"
  have fo: "fold (\<lambda>x r. r(x := v x)) [a..<b] drow k = (if a \<le> k \<and> k < b then v k else drow k)" for a b k v
    using row_other [of "[a..<b]" k "\<lambda>x. x" v drow] row_at [of "\<lambda>x. x" "[a..<b]" k v drow] by auto
  consider "\<not> used ?w" | "used ?w" "y < wy ?w \<or> y \<ge> wy ?w + wh ?w" | "used ?w" "\<not> (y < wy ?w \<or> y \<ge> wy ?w + wh ?w)" "wx ?w \<ge> fbw"
    | (draw) "used ?w" "\<not> (y < wy ?w \<or> y \<ge> wy ?w + wh ?w)" "\<not> wx ?w \<ge> fbw" by blast
  then show ?thesis
  proof cases
    case draw
    let ?x1 = "if wx ?w + ww ?w > fbw then fbw else wx ?w + ww ?w"
    have "composite_slot s y fbw i drow (unat x) =
      (if unat (wx ?w) \<le> unat x \<and> unat x < unat ?x1 then win_pool s (?src + (unat x - unat (wx ?w))) else drow (unat x))"
      using draw by (simp add: composite_slot_def Let_def fo)
    moreover have "unat (wx ?w) \<le> unat x \<and> unat x < unat ?x1 \<longleftrightarrow> wx ?w \<le> x \<and> x < wx ?w + ww ?w"
      using assms by (auto simp: word_le_nat_alt word_less_nat_alt)
    moreover have "wx ?w \<le> x \<Longrightarrow> unat x - unat (wx ?w) = unat (x - wx ?w)" by (simp add: unat_sub)
    ultimately show ?thesis using draw by (auto simp: win_contains_def win_pixel_def)
  qed (use assms in \<open>auto simp: composite_slot_def win_contains_def Let_def\<close>)
qed

text \<open>C28.  The display and the hit test agree: the composited pixel at \<open>(x, y)\<close> is the pixel of
  the window \<^verbatim>\<open>win_hit\<close> reports there, and the background pixel when it reports none.\<close>

theorem composite_shows_hit:
  assumes "x < fbw"
  shows "win_composite_scanline s y fbw drow (unat x) =
     (if win_hit x y s = -1 then drow (unat x)
      else let i = nat (win_hit x y s) in win_pixel s i (unat (x - wx (wins s i))) (unat (y - wy (wins s i))))"
  unfolding win_composite_scanline_def win_hit_def
  by (subst fold_last_wins [where F = "composite_slot s y fbw" and x = "unat x", OF composite_slot_at [OF assms]])
     (simp split: option.split)

text \<open>\<^verbatim>\<open>win_raise\<close> moves the window to the topmost used slot: every point it contains
  now hits it, nothing lies above it, and the keyboard focus stays with the same window.\<close>

theorem win_raise_top:
  assumes "i < WIN_MAX" and "used (wins (wsys d) i)" and "win_raise (int i) d = (r, d')"
  shows "r = 0 \<and> (\<exists>t < WIN_MAX. i \<le> t \<and> wins (wsys d') t = wins (wsys d) i \<and> (\<forall>k. t < k \<and> k < WIN_MAX \<longrightarrow> \<not> used (wins (wsys d') k))) \<and>
         (\<forall>f. win_focus (wsys d) = int f \<longrightarrow> wins (wsys d') (nat (win_focus (wsys d'))) = wins (wsys d) f) \<and>
         (\<forall>x y. win_contains x y (wins (wsys d) i) \<longrightarrow> wins (wsys d') (nat (win_hit x y (wsys d'))) = wins (wsys d) i)"
proof -
  obtain t where t: "win_top (wsys d) = int t" "i \<le> t" "t < WIN_MAX" "\<And>k. t < k \<Longrightarrow> k < WIN_MAX \<Longrightarrow> \<not> used (wins (wsys d) k)"
    by (rule win_top_spec [OF assms(1,2)]) blast
  have e: "r = 0" "wins (wsys d') = (\<lambda>k. wins (wsys d) (raise_src i t k))"
    "win_focus (wsys d') = raise_index (int i) (int t) (win_focus (wsys d))"
    using win_raise_eq [OF assms(1,2) t(1,2)] assms(3) by simp_all
  have above: "\<not> used (wins (wsys d') k)" if "t < k" "k < WIN_MAX" for k
    using t(4) [OF that] that by (simp add: e raise_src_def)
  have tt: "wins (wsys d') t = wins (wsys d) i" by (simp add: e raise_src_def)
  have foc: "wins (wsys d') (nat (raise_index (int i) (int t) (int f))) = wins (wsys d) f" for f
    using t(2) by (auto simp: e raise_src_def raise_index_def nat_diff_distrib)
  have hit: "win_hit x y (wsys d') = int t" if "win_contains x y (wins (wsys d) i)" for x y
  proof -
    let ?P = "\<lambda>k. win_contains x y (wins (wsys d') k)"
    have "[0..<WIN_MAX] = [0..<t] @ t # [Suc t..<WIN_MAX]" using t(3) by (metis le_add_same_cancel1 less_imp_le upt_add_eq_append upt_conv_Cons zero_le le_add_diff_inverse)
    moreover have "find ?P (rev [Suc t..<WIN_MAX]) = None"
      using above by (auto simp: find_None_iff win_contains_def)
    ultimately have "find ?P (rev [0..<WIN_MAX]) = Some t" using that by (simp add: find_app tt)
    then show ?thesis by (simp add: win_hit_def)
  qed
  show ?thesis using e(1,3) t above tt foc hit by auto
qed

section \<open>Reachable desktops\<close>

definition slot_ref_ok :: "winsys \<Rightarrow> int \<Rightarrow> bool" where
  "slot_ref_ok s f \<longleftrightarrow> f = -1 \<or> (0 \<le> f \<and> f < int WIN_MAX \<and> used (wins s (nat f)))"

definition win_inv :: "winsys \<Rightarrow> bool" where
  "win_inv s \<longleftrightarrow> pool_inv s \<and> slot_ref_ok s (win_focus s) \<and> slot_ref_ok s (win_hover s) \<and> (\<forall>i. ring_ok (wins s i))"

definition zero_win :: win where
  "zero_win = \<lparr>used = False, wx = 0, wy = 0, ww = 0, wh = 0, off = 0, owner = None, title = [],
     ev = (\<lambda>_. mk_ev WEV_KEY 0 0 0), ev_head = 0, ev_tail = 0\<rparr>"

definition boot_winsys :: winsys where
  "boot_winsys = \<lparr>wins = (\<lambda>_. zero_win), win_pool = (\<lambda>_. 0), pool_bump = 0, freev = [],
     win_focus = -1, win_hover = -1, win_last_btn = 0\<rparr>"

inductive win_step :: "desk \<Rightarrow> desk \<Rightarrow> bool" where
  create: "win_step d (snd (win_create self w h ttl d))"
| close: "win_step d (snd (win_close self wid d))"
| fill: "win_step d (snd (win_fill self wid x y w h rgb d))"
| put_text: "win_step d (snd (win_text font self wid x y us fg bg d))"
| blit: "win_step d (snd (win_blit self wid x y w h px d))"
| setpos: "win_step d (snd (win_setpos self wid x y d))"
| release: "win_step d (win_owner_release t d)"
| raise: "win_step d (snd (win_raise wid d))"
| key: "win_step d (d\<lparr>wsys := snd (win_route_key c (wsys d))\<rparr>)"
| mouse: "win_step d (d\<lparr>wsys := win_route_mouse x y btn (wsys d)\<rparr>)"
| focus: "win_step d (d\<lparr>wsys := snd (win_focus_set wid (wsys d))\<rparr>)"
| getevent: "win_step d (d\<lparr>wsys := snd (win_getevent self wid mx (wsys d))\<rparr>)"

inductive win_reach :: "desk \<Rightarrow> bool" where
  boot: "wsys d = boot_winsys \<Longrightarrow> win_reach d"
| step: "win_reach d \<Longrightarrow> win_step d d' \<Longrightarrow> win_reach d'"

lemma win_inv_boot: "win_inv boot_winsys"
  by (simp add: win_inv_def pool_inv_def boot_winsys_def slot_ref_ok_def ring_ok_def zero_win_def WIN_EV_N_def)

lemma ring_ok_push [simp]: "ring_ok w \<Longrightarrow> ring_ok (win_ev_push e w)"
  by (simp add: ring_ok_def win_ev_push_def Let_def u8_next_64 WIN_EV_N_def)

lemma ring_ok_drain: "ring_ok w \<Longrightarrow> drain ev_pop n w = (es, w') \<Longrightarrow> ring_ok w'"
proof (induction n arbitrary: w es)
  case (Suc n)
  have "ring_ok w1" if "ev_pop w = Some (e, w1)" for e w1
    using that Suc.prems(1) by (auto simp: ev_pop_def ring_ok_def u8_next_64 WIN_EV_N_def split: if_splits)
  with Suc show ?case by (auto split: option.splits prod.splits)
qed simp

lemma win_hit_ref: "slot_ref_ok s (win_hit x y s)"
proof -
  have "i < WIN_MAX \<and> used (wins s i)" if "find (\<lambda>i. win_contains x y (wins s i)) (rev [0..<WIN_MAX]) = Some i" for i
  proof -
    from that obtain k where "k < length (rev [0..<WIN_MAX])" "i = rev [0..<WIN_MAX] ! k" "win_contains x y (wins s i)"
      by (auto simp: find_Some_iff)
    then have "i \<in> set (rev [0..<WIN_MAX])" using nth_mem by metis
    with \<open>win_contains x y (wins s i)\<close> show ?thesis by (simp add: win_contains_def)
  qed
  then show ?thesis by (auto simp: win_hit_def slot_ref_ok_def split: option.splits)
qed

lemma slot_ref_cong: "(\<And>i. used (wins s' i) = used (wins s i)) \<Longrightarrow> slot_ref_ok s' f = slot_ref_ok s f"
  by (simp add: slot_ref_ok_def)

lemma slot_ref_push [simp]: "slot_ref_ok (set_win i (win_ev_push e) s) f = slot_ref_ok s f"
  by (rule slot_ref_cong) simp

lemma slot_ref_upd [simp]:
  "slot_ref_ok (s\<lparr>win_focus := g\<rparr>) f = slot_ref_ok s f" "slot_ref_ok (s\<lparr>win_hover := g\<rparr>) f = slot_ref_ok s f"
  "slot_ref_ok (s\<lparr>win_last_btn := b\<rparr>) f = slot_ref_ok s f"
  by (simp_all add: slot_ref_ok_def)

lemma win_inv_route_key: "win_inv s \<Longrightarrow> win_inv (snd (win_route_key c s))"
  using same_geom_inv [OF same_geom_route(1)] by (simp add: win_inv_def win_route_key_def)

lemma win_inv_focus_set: "win_inv s \<Longrightarrow> win_inv (snd (win_focus_set wid s))"
  using same_geom_inv [OF same_geom_route(3)]
  by (simp add: win_inv_def win_focus_set_def Let_def) (auto simp: slot_ref_ok_def)

lemma win_inv_route_mouse: "win_inv s \<Longrightarrow> win_inv (win_route_mouse x y b s)"
  using same_geom_inv [OF same_geom_route(2)] win_hit_ref [of s x y]
  by (simp add: win_inv_def win_route_mouse_def Let_def)

lemma win_inv_getevent: "win_inv s \<Longrightarrow> win_inv (snd (win_getevent self wid mx s))"
proof -
  assume inv: "win_inv s"
  obtain es w where dr: "drain ev_pop (nat mx) (wins s (nat wid)) = (es, w)" by fastforce
  have u: "used w = used (wins s (nat wid))" using drain_geom [OF dr] by simp
  have "ring_ok w" using ring_ok_drain [OF _ dr] inv by (simp add: win_inv_def)
  then show ?thesis using inv same_geom_inv [OF same_geom_getevent [of s self wid mx]] dr u
    by (auto simp: win_inv_def win_getevent_def slot_ref_ok_def)
qed

lemma win_inv_draw:
  "win_inv (wsys d) \<Longrightarrow> win_inv (wsys (snd (win_fill self wid x y w h rgb d)))"
  "win_inv (wsys d) \<Longrightarrow> win_inv (wsys (snd (win_blit self wid x y w h us d)))"
  "win_inv (wsys d) \<Longrightarrow> win_inv (wsys (snd (win_text font self wid x y cs fg bg d)))"
proof -
  assume inv: "win_inv (wsys d)"
  have f: "win_focus (wsys (snd (win_fill self wid x y w h rgb d))) = win_focus (wsys d)"
    "win_hover (wsys (snd (win_fill self wid x y w h rgb d))) = win_hover (wsys d)"
    "win_focus (wsys (snd (win_blit self wid x y w h us d))) = win_focus (wsys d)"
    "win_hover (wsys (snd (win_blit self wid x y w h us d))) = win_hover (wsys d)"
    "win_focus (wsys (snd (win_text font self wid x y cs fg bg d))) = win_focus (wsys d)"
    "win_hover (wsys (snd (win_text font self wid x y cs fg bg d))) = win_hover (wsys d)"
    by (simp_all add: win_fill_def win_blit_def win_text_def Let_def split: option.split)
  show "win_inv (wsys (snd (win_fill self wid x y w h rgb d)))"
    "win_inv (wsys (snd (win_blit self wid x y w h us d)))"
    "win_inv (wsys (snd (win_text font self wid x y cs fg bg d)))"
    using inv by (auto simp: win_inv_def pool_inv_draw f win_fill_geom win_blit_geom win_text_geom slot_ref_ok_def)
qed

lemma win_inv_setpos: "win_inv (wsys d) \<Longrightarrow> win_inv (wsys (snd (win_setpos self wid x y d)))"
proof -
  assume inv: "win_inv (wsys d)"
  have "ring_ok (wins (wsys (snd (win_setpos self wid x y d))) i) = ring_ok (wins (wsys d) i)" for i
    by (simp add: win_setpos_def Let_def ring_ok_def split: option.split)
  moreover have "win_focus (wsys (snd (win_setpos self wid x y d))) = win_focus (wsys d)"
    "win_hover (wsys (snd (win_setpos self wid x y d))) = win_hover (wsys d)"
    by (simp_all add: win_setpos_def Let_def split: option.split)
  moreover note g = same_geom_setpos [of d self wid x y]
  ultimately show ?thesis using inv same_geom_inv [OF g] g by (auto simp: win_inv_def slot_ref_ok_def same_geom_def)
qed

lemma win_inv_kill:
  assumes inv: "win_inv s" and i: "i < WIN_MAX" "used (wins s i)"
  shows "win_inv (kill_win i s)"
proof -
  have f: "win_focus (kill_win i s) = (if win_focus s = int i then -1 else win_focus s)"
    "win_hover (kill_win i s) = (if win_hover s = int i then -1 else win_hover s)"
    by (simp_all add: kill_win_def win_focus_drop_locked_def Let_def)
  show ?thesis using inv pool_inv_kill [OF _ i] by (auto simp: win_inv_def slot_ref_ok_def f ring_ok_def)
qed

lemma win_inv_close: "win_inv (wsys d) \<Longrightarrow> win_inv (wsys (snd (win_close self wid d)))"
  by (auto simp: win_close_def Let_def split: option.split dest!: win_get_SomeD intro: win_inv_kill)

lemma win_inv_release: "win_inv (wsys d) \<Longrightarrow> win_inv (wsys (win_owner_release t d))"
proof -
  have "win_inv (wsys (fold (release_slot t) xs d))" if "win_inv (wsys d)" "\<forall>i \<in> set xs. i < WIN_MAX" for t xs
    using that by (induction xs arbitrary: d) (simp_all add: release_slot_def Let_def win_inv_kill)
  then show "win_inv (wsys d) \<Longrightarrow> ?thesis" by (simp add: win_owner_release_def split: option.split)
qed

lemma win_inv_create: "win_inv (wsys d) \<Longrightarrow> win_inv (wsys (snd (win_create self w h ttl d)))"
proof -
  assume inv: "win_inv (wsys d)"
  have a: "wins s1 = wins s \<and> win_focus s1 = win_focus s \<and> win_hover s1 = win_hover s"
    if "pool_alloc n s = Some (p, s1)" for n s p s1
    using that by (auto simp: pool_alloc_def split: option.splits if_splits)
  show ?thesis
    using inv pool_inv_create [of d self w h ttl]
    by (auto simp: win_inv_def win_create_def Let_def slot_ref_ok_def ring_ok_def split: option.splits dest!: a)
qed

lemma win_inv_raise: "win_inv (wsys d) \<Longrightarrow> win_inv (wsys (snd (win_raise wid d)))"
proof -
  assume inv: "win_inv (wsys d)"
  show ?thesis
  proof (cases "0 \<le> wid \<and> wid < int WIN_MAX \<and> used (wins (wsys d) (nat wid))")
    case True
    define i where "i = nat wid"
    have w: "wid = int i" "i < WIN_MAX" "used (wins (wsys d) i)" using True by (auto simp: i_def)
    obtain t where t: "win_top (wsys d) = int t" "i \<le> t" "t < WIN_MAX" by (rule win_top_spec [OF w(2,3)]) blast
    note e = win_raise_eq [OF w(2,3) t(1,2)]
    have "slot_ref_ok (wsys (snd (win_raise (int i) d))) (raise_index (int i) (int t) f)" if "slot_ref_ok (wsys d) f" for f
      using that t w by (auto simp: slot_ref_ok_def e raise_index_def raise_src_def nat_diff_distrib)
    with inv pool_inv_raise [of d wid] show ?thesis unfolding w(1) by (simp add: win_inv_def e)
  next
    case False
    then have "snd (win_raise wid d) = d" by (auto simp: win_raise_def Let_def)
    with inv show ?thesis by simp
  qed
qed

lemmas win_inv_ops = win_inv_create win_inv_close win_inv_draw win_inv_setpos win_inv_release win_inv_raise
  win_inv_route_key win_inv_route_mouse win_inv_focus_set win_inv_getevent

lemma win_inv_step: "win_step d d' \<Longrightarrow> win_inv (wsys d) \<Longrightarrow> win_inv (wsys d')"
  by (induction rule: win_step.induct) (simp_all add: win_inv_ops)

text \<open>C27.  In every desktop state reachable from boot by any sequence of window operations, by
  any tasks and input events, the pool invariant holds (live windows and free blocks are disjoint and
  inside the pool), focus and hover name a live window or none, and every event ring index is in range.\<close>

theorem win_reach_inv: "win_reach d \<Longrightarrow> win_inv (wsys d)"
  by (induction rule: win_reach.induct) (auto simp: win_inv_boot dest: win_inv_step)

text \<open>\<^verbatim>\<open>win_getevent\<close> hands the owner the oldest events of its window in order, removes
  exactly those, and touches no other window.\<close>

theorem win_getevent_fifo:
  assumes "win_inv s" and "win_getevent self wid mx s = (Inr es, s')"
  shows "es = take (nat mx) (ev_items (wins s (nat wid))) \<and>
         ev_items (wins s' (nat wid)) = drop (nat mx) (ev_items (wins s (nat wid))) \<and>
         owner (wins s (nat wid)) = self \<and> (\<forall>j. j \<noteq> nat wid \<longrightarrow> wins s' j = wins s j)"
proof -
  obtain w where dr: "drain ev_pop (nat mx) (wins s (nat wid)) = (es, w)" and u: "used (wins s (nat wid))" "owner (wins s (nat wid)) = self"
    and s': "s' = set_win (nat wid) (\<lambda>_. w) s"
    using assms(2) by (auto simp: win_getevent_def split: if_splits prod.splits)
  from winq.drain_items [OF _ dr] assms(1) u show ?thesis by (simp add: win_inv_def s')
qed

text \<open>\<^verbatim>\<open>win_owner_release\<close> closes every window of the exiting task and leaves every
  other slot as it was.\<close>

theorem win_owner_release_all:
  assumes "win_owner_release (Some t) d = d'" and "i < WIN_MAX"
  shows "\<not> (used (wins (wsys d') i) \<and> owner (wins (wsys d') i) = Some t) \<and>
         (owner (wins (wsys d) i) \<noteq> Some t \<or> \<not> used (wins (wsys d) i) \<longrightarrow> wins (wsys d') i = wins (wsys d) i)"
proof -
  have r: "wins (wsys (release_slot t j d)) i =
     (if i = j \<and> used (wins (wsys d) i) \<and> owner (wins (wsys d) i) = Some t
      then (wins (wsys d) i)\<lparr>used := False, owner := None\<rparr> else wins (wsys d) i)" for j d
    by (simp add: release_slot_def Let_def)
  have "wins (wsys (fold (release_slot t) xs d)) i =
     (if i \<in> set xs \<and> used (wins (wsys d) i) \<and> owner (wins (wsys d) i) = Some t
      then (wins (wsys d) i)\<lparr>used := False, owner := None\<rparr> else wins (wsys d) i)" for xs
    by (induction xs arbitrary: d) (auto simp: r)
  with assms show ?thesis by (auto simp: win_owner_release_def split: if_splits)
qed

section \<open>Witnesses\<close>

text \<open>One 16 by 16 window owned by task 3, over a dead console.\<close>

definition zero_cons :: cons64 where
  "zero_cons = \<lparr>fb_mem = (\<lambda>_. 0), cons_bb = (\<lambda>_. 0), fb_stride = 0, fb_w = 0, fb_h = 0, ncols = 0, nrows = 0,
     cur_x = 0, cur_y = 0, fg_color = 0xBBBBBB, live = False, dirty_y0 = 0, dirty_y1 = 0, cur_dx = 0, cur_dy = 0,
     cur_shown = False, status_want = 0, status_drawn = 0, gfx_on = False\<rparr>"

definition zero_mouse :: mouse64 where
  "zero_mouse = \<lparr>mouse_x = 512, mouse_y = 384, mouse_btn = 0, mouse_seq = 0, mouse_live = False,
     mouse_max_x = 1023, mouse_max_y = 767, pkt = (\<lambda>_. 0), pkt_i = 0\<rparr>"

definition boot_desk :: desk where
  "boot_desk = \<lparr>con = zero_cons, wsys = boot_winsys, mou = zero_mouse\<rparr>"

definition sample_desk :: desk where
  "sample_desk = boot_desk\<lparr>wsys := boot_winsys\<lparr>wins := (\<lambda>i. if i = 0 then zero_win\<lparr>used := True, ww := 16, wh := 16,
     wx := 64, wy := 64, owner := Some 3, ev := (\<lambda>_. mk_ev WEV_KEY 65 0 0), ev_head := 2\<rparr> else zero_win), pool_bump := 1024\<rparr>\<rparr>"

lemma sample_wins:
  "wins (wsys sample_desk) i = (if i = 0 then zero_win\<lparr>used := True, ww := 16, wh := 16,
     wx := 64, wy := 64, owner := Some 3, ev := (\<lambda>_. mk_ev WEV_KEY 65 0 0), ev_head := 2\<rparr> else zero_win)"
  by (simp add: sample_desk_def)

lemma sample_win_inv: "win_inv (wsys sample_desk)"
  by (auto simp: win_inv_def pool_inv_def sample_wins slot_ok_def slot_ref_ok_def ring_ok_def WIN_EV_N_def zero_win_def split: if_splits)
     (simp_all add: sample_desk_def boot_winsys_def WIN_POOL_BYTES_def)

lemma sample_pool_inv: "pool_inv (wsys sample_desk)"
  using sample_win_inv by (simp add: win_inv_def)

lemma sample_get: "win_get 0 (Some 3) True (wsys sample_desk) = Some 0"
  by (simp add: win_get_def sample_wins WIN_MAX_def)

lemma win_reach_inv_witness: "win_inv (wsys (snd (win_create (Some 3) 16 16 ''term'' boot_desk)))"
  using win_reach_inv [OF win_reach.step [OF win_reach.boot [of boot_desk] win_step.create]]
  by (simp add: boot_desk_def)

lemma win_fill_exact_witness:
  "win_pixel (wsys (snd (win_fill (Some 3) 0 1 1 4 4 0xFF0000 sample_desk))) 0 2 2 = 0xFF0000"
proof -
  have "win_fill (Some 3) 0 1 1 4 4 0xFF0000 sample_desk = (0, snd (win_fill (Some 3) 0 1 1 4 4 0xFF0000 sample_desk))"
    by (simp add: win_fill_def sample_get Let_def)
  from win_fill_exact [OF sample_pool_inv this, of 0 2 2] show ?thesis
    by (simp add: sample_wins WIN_MAX_def)
qed

lemma win_blit_exact_witness:
  "win_pixel (wsys (snd (win_blit (Some 3) 0 1 1 4 4 (Some of_nat) sample_desk))) 0 2 2 = 5"
proof -
  have "win_blit (Some 3) 0 1 1 4 4 (Some of_nat) sample_desk = (0, snd (win_blit (Some 3) 0 1 1 4 4 (Some of_nat) sample_desk))"
    by (simp add: win_blit_def sample_get Let_def)
  from win_blit_exact [OF sample_pool_inv this, of 0 2 2] show ?thesis
    by (simp add: sample_wins WIN_MAX_def)
qed

lemma win_text_inside_witness:
  "win_pool (wsys (snd (win_text (\<lambda>_ _. 0) (Some 3) 0 0 0 [65] 1 2 sample_desk))) 5000 = 0"
  using win_text_inside [of sample_desk "\<lambda>_ _. 0" "Some 3" 0 0 0 "[65]" 1 2
      "fst (win_text (\<lambda>_ _. 0) (Some 3) 0 0 0 [65] 1 2 sample_desk)"
      "snd (win_text (\<lambda>_ _. 0) (Some 3) 0 0 0 [65] 1 2 sample_desk)" 5000] sample_pool_inv
  by (simp add: sample_wins win_region_def zero_win_def) (simp add: sample_desk_def boot_winsys_def)

lemma win_text_overrun_witness:
  "fst (win_text (\<lambda>_ _. 0) (Some 3) (int 0) (- 8) 0 [65] 1 2 sample_desk) = 0"
  using win_text_overrun [of sample_desk 0 3 0 "\<lambda>_ _. 0" 65 1 2
      "fst (win_text (\<lambda>_ _. 0) (Some 3) (int 0) (- 8) 0 [65] 1 2 sample_desk)"
      "snd (win_text (\<lambda>_ _. 0) (Some 3) (int 0) (- 8) 0 [65] 1 2 sample_desk)"] sample_pool_inv
  by (simp add: sample_wins WIN_MAX_def)

lemma composite_shows_hit_witness:
  "win_composite_scanline (wsys sample_desk) 70 640 (\<lambda>_. 7) (unat (10 :: u32)) = 7"
proof -
  have "win_hit 10 70 (wsys sample_desk) = -1" by code_simp
  with composite_shows_hit [of 10 640 "wsys sample_desk" 70 "\<lambda>_. 7"] show ?thesis by simp
qed

lemma win_raise_top_witness: "fst (win_raise (int 0) sample_desk) = 0"
  using win_raise_top [of 0 sample_desk "fst (win_raise (int 0) sample_desk)" "snd (win_raise (int 0) sample_desk)"]
  by (simp add: sample_wins WIN_MAX_def)

lemma win_getevent_fifo_witness:
  "fst (win_getevent (Some 3) 0 4 (wsys sample_desk)) = Inr [mk_ev WEV_KEY 65 0 0, mk_ev WEV_KEY 65 0 0]"
proof -
  obtain es w where dr: "drain ev_pop (nat 4) (wins (wsys sample_desk) (nat 0)) = (es, w)" by fastforce
  have e: "win_getevent (Some 3) 0 4 (wsys sample_desk) = (Inr es, set_win (nat 0) (\<lambda>_. w) (wsys sample_desk))"
    unfolding win_getevent_def dr by (simp add: sample_wins WIN_MAX_def)
  have "ev_items (wins (wsys sample_desk) 0) = [mk_ev WEV_KEY 65 0 0, mk_ev WEV_KEY 65 0 0]"
    by (simp add: ev_items_def sample_wins ring_items_def ring_len_def WIN_EV_N_def zero_win_def upt_rec)
  with win_getevent_fifo [OF sample_win_inv e] e show ?thesis by simp
qed

lemma win_owner_release_all_witness: "\<not> used (wins (wsys (win_owner_release (Some 3) sample_desk)) 5)"
  using win_owner_release_all [of 3 sample_desk "win_owner_release (Some 3) sample_desk" 5]
  by (simp add: WIN_MAX_def sample_wins zero_win_def)

end
