(* ===== verification/Cons_Proofs.thy ===== *)
theory Cons_Proofs
  imports Cons Win_Proofs
begin

text \<open>
  Correctness of the framebuffer console of \<^verbatim>\<open>src/k64/cons64.c\<close>: the cursor never leaves the
  text grid, nothing is written outside the backbuffer or the display, scrolling shifts the text area
  and leaves the status strip alone, and presenting flushes exactly the dirty rows.
\<close>

text \<open>Geometry of a live console, and the cursor inside the text grid.\<close>

definition grid_ok :: "cons64 \<Rightarrow> bool" where
  "grid_ok c \<longleftrightarrow> 1 \<le> unat (ncols c) \<and> unat (ncols c) * 8 \<le> unat (fb_w c) \<and> 1 \<le> unat (nrows c) \<and>
     (unat (nrows c) + 1) * 16 \<le> unat (fb_h c) \<and> unat (fb_w c) \<le> unat (fb_stride c) \<and> unat (fb_w c) \<le> 4096 \<and>
     unat (fb_h c) \<le> 4096 \<and> unat (fb_h c) * unat (fb_stride c) \<le> CONS_BB_BYTES div 4"

definition cursor_ok :: "cons64 \<Rightarrow> bool" where
  "cursor_ok c \<longleftrightarrow> cur_x c < ncols c \<and> cur_y c < nrows c \<and> (cur_shown c \<longrightarrow> cur_dx c < ncols c \<and> cur_dy c < nrows c)"

definition cons_inv :: "cons64 \<Rightarrow> bool" where
  "cons_inv c \<longleftrightarrow> (live c \<longrightarrow> grid_ok c \<and> cursor_ok c)"

text \<open>\<open>draws_in a b c c'\<close>: the step changes the backbuffer only at visible pixels of rows \<open>a\<close> to \<open>b\<close>, and
  neither the geometry nor the display.\<close>

definition same_mode :: "cons64 \<Rightarrow> cons64 \<Rightarrow> bool" where
  "same_mode c c' \<longleftrightarrow> fb_stride c' = fb_stride c \<and> fb_w c' = fb_w c \<and> fb_h c' = fb_h c \<and> ncols c' = ncols c \<and>
     nrows c' = nrows c \<and> live c' = live c \<and> gfx_on c' = gfx_on c \<and> fb_mem c' = fb_mem c \<and>
     status_want c' = status_want c \<and> status_drawn c' = status_drawn c"

definition draws_in :: "nat \<Rightarrow> nat \<Rightarrow> cons64 \<Rightarrow> cons64 \<Rightarrow> bool" where
  "draws_in a b c c' \<longleftrightarrow> same_mode c c' \<and>
     (\<forall>k. cons_bb c' k \<noteq> cons_bb c k \<longrightarrow>
        (\<exists>y x. a \<le> y \<and> y < b \<and> y < unat (fb_h c) \<and> x < unat (fb_w c) \<and> k = y * unat (fb_stride c) + x))"

lemma same_mode_refl [simp]: "same_mode c c"
  by (simp add: same_mode_def)

lemma same_mode_grid: "same_mode c c' \<Longrightarrow> grid_ok c' = grid_ok c"
  by (simp add: same_mode_def grid_ok_def)

lemma draws_in_refl [simp]: "draws_in a b c c"
  by (simp add: draws_in_def)

lemma draws_in_trans:
  assumes "draws_in a b c c'" "draws_in a b c' c''"
  shows "draws_in a b c c''"
proof -
  have m: "same_mode c c''" and g: "fb_h c' = fb_h c" "fb_w c' = fb_w c" "fb_stride c' = fb_stride c"
    using assms by (auto simp: draws_in_def same_mode_def)
  have "\<exists>y x. a \<le> y \<and> y < b \<and> y < unat (fb_h c) \<and> x < unat (fb_w c) \<and> k = y * unat (fb_stride c) + x"
    if "cons_bb c'' k \<noteq> cons_bb c k" for k
  proof (cases "cons_bb c' k = cons_bb c k")
    case True
    with that assms(2) show ?thesis unfolding draws_in_def g by metis
  next
    case False
    with assms(1) show ?thesis unfolding draws_in_def by blast
  qed
  with m show ?thesis by (simp add: draws_in_def)
qed

lemma draws_in_mono: "draws_in a b c c' \<Longrightarrow> a' \<le> a \<Longrightarrow> b \<le> b' \<Longrightarrow> draws_in a' b' c c'"
  unfolding draws_in_def by (meson le_trans less_le_trans)

text \<open>Updates of the other fields do not draw.\<close>

lemma draws_in_upd [simp]:
  "draws_in a b c (c'\<lparr>cur_x := u\<rparr>) = draws_in a b c c'" "draws_in a b c (c'\<lparr>cur_y := u\<rparr>) = draws_in a b c c'"
  "draws_in a b c (c'\<lparr>cur_shown := s\<rparr>) = draws_in a b c c'"
  "draws_in a b c (c'\<lparr>cur_dx := u\<rparr>) = draws_in a b c c'" "draws_in a b c (c'\<lparr>cur_dy := u\<rparr>) = draws_in a b c c'"
  "draws_in a b c (mark_dirty u v c') = draws_in a b c c'"
  by (simp_all add: draws_in_def same_mode_def)

lemma draws_in_eq:
  "draws_in a b c c' \<Longrightarrow> fb_stride c' = fb_stride c" "draws_in a b c c' \<Longrightarrow> fb_w c' = fb_w c"
  "draws_in a b c c' \<Longrightarrow> fb_h c' = fb_h c" "draws_in a b c c' \<Longrightarrow> ncols c' = ncols c"
  "draws_in a b c c' \<Longrightarrow> nrows c' = nrows c" "draws_in a b c c' \<Longrightarrow> live c' = live c"
  "draws_in a b c c' \<Longrightarrow> grid_ok c' = grid_ok c"
  by (auto simp: draws_in_def same_mode_def grid_ok_def)

section \<open>Cells\<close>

lemma cell_put_fields [simp]:
  "cur_x (cell_put px py v c) = cur_x c" "cur_y (cell_put px py v c) = cur_y c"
  "cur_dx (cell_put px py v c) = cur_dx c" "cur_dy (cell_put px py v c) = cur_dy c"
  "cur_shown (cell_put px py v c) = cur_shown c" "fg_color (cell_put px py v c) = fg_color c"
  "ncols (cell_put px py v c) = ncols c" "nrows (cell_put px py v c) = nrows c"
  "fb_h (cell_put px py v c) = fb_h c" "fb_w (cell_put px py v c) = fb_w c" "fb_stride (cell_put px py v c) = fb_stride c"
  "live (cell_put px py v c) = live c"
  by (simp_all add: cell_put_def)

lemma cell_index:
  fixes r :: u32
  assumes g: "grid_ok c" and "r < fb_h c" "px + of_nat col < fb_w c"
  shows "unat (r * fb_stride c + px + of_nat col) = unat r * unat (fb_stride c) + unat (px + of_nat col)"
proof -
  have r: "unat r < unat (fb_h c)" and x: "unat (px + of_nat col) < unat (fb_stride c)"
    using assms by (auto simp: word_less_nat_alt grid_ok_def)
  have "(unat r + 1) * unat (fb_stride c) \<le> unat (fb_h c) * unat (fb_stride c)" using r by (intro mult_right_mono) auto
  also have "\<dots> \<le> 1048576" using g by (simp add: grid_ok_def CONS_BB_BYTES_def)
  finally have b: "unat r * unat (fb_stride c) + unat (px + of_nat col) < 1048576" using x by simp
  then have "unat (r * fb_stride c) = unat r * unat (fb_stride c)" by (simp add: unat_word_ariths)
  with b have "unat (r * fb_stride c + (px + of_nat col)) = unat r * unat (fb_stride c) + unat (px + of_nat col)"
    by (subst unat_add_u32) simp_all
  then show ?thesis by (simp add: add.assoc)
qed

lemma cell_draws:
  assumes g: "grid_ok c" and py: "unat py + 16 \<le> 2 ^ 32"
  shows "draws_in (unat py) (unat py + 16) c (cell_put px py v c)"
proof -
  let ?f = "\<lambda>row col. unat ((py + of_nat row) * fb_stride c + px + of_nat col)"
  have "\<exists>y x. unat py \<le> y \<and> y < unat py + 16 \<and> y < unat (fb_h c) \<and> x < unat (fb_w c) \<and> k = y * unat (fb_stride c) + x"
    if "cons_bb (cell_put px py v c) k \<noteq> cons_bb c k" for k
  proof -
    have "\<exists>row \<in> set (takeWhile (\<lambda>row. py + of_nat row < fb_h c) [0..<16]).
          \<exists>col \<in> set (takeWhile (\<lambda>col. px + of_nat col < fb_w c) [0..<8]). k = ?f row col"
    proof (rule ccontr)
      assume "\<not> ?thesis"
      then have "cons_bb (cell_put px py v c) k = cons_bb c k"
        unfolding cell_put_def by (simp del: fun_upd_apply) (rule fold_fold_other, blast)
      with that show False by simp
    qed
    then obtain row col where "row \<in> set (takeWhile (\<lambda>row. py + of_nat row < fb_h c) [0..<16])"
      "col \<in> set (takeWhile (\<lambda>col. px + of_nat col < fb_w c) [0..<8])" and k: "k = ?f row col" by blast
    then have rc: "row < 16" "py + of_nat row < fb_h c" "px + of_nat col < fb_w c" "k = ?f row col"
      using k by (auto dest!: set_takeWhileD)
    have "unat (of_nat row :: u32) = row" using rc(1) by (simp add: unat_of_nat)
    then have "unat (py + of_nat row) = unat py + row" using rc(1) py by (subst unat_add_u32) simp_all
    moreover have "unat (py + of_nat row) < unat (fb_h c)" "unat (px + of_nat col) < unat (fb_w c)"
      using rc(2,3) by (simp_all add: word_less_nat_alt)
    ultimately show ?thesis
      using rc(1) unfolding rc(4) cell_index [OF g rc(2,3)]
      by (intro exI [of _ "unat py + row"] exI [of _ "unat (px + of_nat col)"]) simp
  qed
  then show ?thesis by (simp add: draws_in_def same_mode_def) (simp add: cell_put_def)
qed

lemma cell_row_bound:
  assumes "grid_ok c" "cy < nrows c"
  shows "unat (cy * 16) = unat cy * 16" "unat cy * 16 + 16 \<le> unat (nrows c) * 16" "unat cy * 16 + 16 \<le> 2 ^ 32"
proof -
  have r: "unat cy < unat (nrows c)" "unat (nrows c) * 16 \<le> 4096"
    using assms by (auto simp: grid_ok_def word_less_nat_alt)
  then show "unat cy * 16 + 16 \<le> unat (nrows c) * 16" by linarith
  with r show "unat cy * 16 + 16 \<le> 2 ^ 32" by simp
  with r show "unat (cy * 16) = unat cy * 16" by (simp add: unat_word_ariths)
qed

abbreviation "in_text c \<equiv> draws_in 0 (unat (nrows c) * 16) c"

lemma cell_in_text:
  assumes "grid_ok c" "cy < nrows c"
  shows "in_text c (cell_put px (cy * 16) v c)"
  using cell_draws [OF assms(1), of "cy * 16" px v] cell_row_bound [OF assms]
  by (auto elim: draws_in_mono)

lemma cursor_erase_in_text: "grid_ok c \<Longrightarrow> cursor_ok c \<Longrightarrow> in_text c (cursor_erase c)"
  by (auto simp: cursor_erase_def Let_def cursor_ok_def intro: cell_in_text)

lemma cursor_draw_in_text: "grid_ok c \<Longrightarrow> cursor_ok c \<Longrightarrow> in_text c (cursor_draw c)"
  by (auto simp: cursor_draw_def Let_def cursor_ok_def intro: cell_in_text)

lemma cell_draw_in_text: "grid_ok c \<Longrightarrow> cy < nrows c \<Longrightarrow> in_text c (cell_draw font cx cy ch fg bg c)"
  by (auto simp: cell_draw_def Let_def intro: cell_in_text)

lemma cursor_ok_draws: "draws_in a b c c' \<Longrightarrow> cur_x c' = cur_x c \<Longrightarrow> cur_y c' = cur_y c \<Longrightarrow> \<not> cur_shown c' \<Longrightarrow> cursor_ok c \<Longrightarrow> cursor_ok c'"
  by (auto simp: cursor_ok_def draws_in_eq)

section \<open>Scrolling\<close>

lemma copy_u32_at:
  "dst + n \<le> src \<Longrightarrow> copy_u32 dst src n p k = (if dst \<le> k \<and> k < dst + n then p (k - dst + src) else p k)"
  unfolding copy_u32_def by (induction n arbitrary: k) (auto simp: add.commute)

lemma fill_rows_raster:
  "fold (\<lambda>y. fill_u32 (y * st) v w) ys = raster 0 st ys [0..<w] (\<lambda>_ _. v)"
  by (simp add: raster_def fill_u32_def)

lemma scroll_copy_at:
  assumes "w \<le> st"
  shows "fold (\<lambda>y. copy_u32 (y * st) ((y + 16) * st) w) [0..<m] p k =
     (if \<exists>y x. y < m \<and> x < w \<and> k = y * st + x then p (k + 16 * st) else p k)"
proof (induction m arbitrary: k)
  case (Suc m)
  let ?P = "fold (\<lambda>y. copy_u32 (y * st) ((y + 16) * st) w) [0..<m] p"
  have d: "m * st + w \<le> (m + 16) * st" using assms unfolding add_mult_distrib by linarith
  show ?case
  proof (cases "m * st \<le> k \<and> k < m * st + w")
    case True
    then obtain x0 where x0: "x0 < w" "k = m * st + x0" by (metis le_Suc_ex nat_add_left_cancel_less)
    have no: "\<not> (\<exists>y x. y < m \<and> x < w \<and> k + 16 * st = y * st + x)"
    proof
      assume "\<exists>y x. y < m \<and> x < w \<and> k + 16 * st = y * st + x"
      then obtain y x where "y < m" "x < w" "0 + (m + 16) * st + x0 = 0 + y * st + x" using x0 by (auto simp: algebra_simps)
      with raster_addr_inj [of x0 st x 0 "m + 16" y] x0 assms show False by auto
    qed
    have yes: "\<exists>y x. y < Suc m \<and> x < w \<and> k = y * st + x" using x0 by blast
    have "k - m * st + (m + 16) * st = k + 16 * st" using x0 by (simp add: algebra_simps)
    then have "fold (\<lambda>y. copy_u32 (y * st) ((y + 16) * st) w) [0..<Suc m] p k = ?P (k + 16 * st)"
      using True copy_u32_at [OF d, of ?P k] by simp
    also have "\<dots> = p (k + 16 * st)" unfolding Suc.IH [of "k + 16 * st"] if_not_P [OF no] ..
    finally show ?thesis unfolding if_P [OF yes] .
  next
    case False
    then have e: "(\<exists>y x. y < Suc m \<and> x < w \<and> k = y * st + x) \<longleftrightarrow> (\<exists>y x. y < m \<and> x < w \<and> k = y * st + x)"
      by (metis le_add1 less_SucI less_antisym nat_add_left_cancel_less)
    have "fold (\<lambda>y. copy_u32 (y * st) ((y + 16) * st) w) [0..<Suc m] p k = ?P k"
      using copy_u32_at [OF d, of ?P k] unfolding if_not_P [OF False] by simp
    then show ?thesis unfolding e Suc.IH [of k] .
  qed
qed simp

lemma grid_text_h:
  assumes "grid_ok c"
  shows "unat (nrows c * 16) = unat (nrows c) * 16" "unat (nrows c * 16 - 16) = unat (nrows c) * 16 - 16"
    "16 \<le> unat (nrows c) * 16" "unat (nrows c) * 16 \<le> unat (fb_h c)"
proof -
  have r: "1 \<le> unat (nrows c)" "unat (nrows c) * 16 \<le> 4096" "unat (nrows c) * 16 \<le> unat (fb_h c)"
    using assms by (auto simp: grid_ok_def)
  then show e: "unat (nrows c * 16) = unat (nrows c) * 16" by (simp add: unat_word_ariths)
  show "16 \<le> unat (nrows c) * 16" "unat (nrows c) * 16 \<le> unat (fb_h c)" using r by linarith+
  then have "(16::u32) \<le> nrows c * 16" by (simp add: word_le_nat_alt e)
  then show "unat (nrows c * 16 - 16) = unat (nrows c) * 16 - 16" by (simp add: unat_sub e)
qed

text \<open>The picture after a scroll, by row and column.\<close>

lemma scroll_up_at:
  assumes g: "grid_ok c" and x: "x < unat (fb_w c)"
  shows "cons_bb (scroll_up c) (y * unat (fb_stride c) + x) =
     (if y < unat (nrows c) * 16 - 16 then cons_bb c ((y + 16) * unat (fb_stride c) + x)
      else if y < unat (nrows c) * 16 then CONS_BG_DEF else cons_bb c (y * unat (fb_stride c) + x))"
proof -
  let ?st = "unat (fb_stride c)" and ?w = "unat (fb_w c)" and ?T = "unat (nrows c) * 16"
  have w: "?w \<le> ?st" using g by (simp add: grid_ok_def)
  let ?q = "fold (\<lambda>y. copy_u32 (y * ?st) ((y + 16) * ?st) ?w) [0..<?T - 16] (cons_bb c)"
  have bb: "cons_bb (scroll_up c) = raster 0 ?st [?T - 16..<?T] [0..<?w] (\<lambda>_ _. CONS_BG_DEF) ?q"
    unfolding scroll_up_def Let_def fill_rows_raster by (simp add: grid_text_h [OF g])
  have inj: "y' = y \<and> x' = x" if "x' < ?w" "y * ?st + x = y' * ?st + x'" for y' x'
    using raster_addr_inj [of x ?st x' 0 y y'] that x w by auto
  show ?thesis
  proof (cases "?T - 16 \<le> y \<and> y < ?T")
    case True
    then have "cons_bb (scroll_up c) (0 + y * ?st + x) = CONS_BG_DEF"
      unfolding bb using x w by (intro raster_at) auto
    with True show ?thesis by simp
  next
    case False
    then have "cons_bb (scroll_up c) (y * ?st + x) = ?q (y * ?st + x)"
      unfolding bb by (intro raster_other) (auto dest!: inj)
    also have "\<dots> = (if y < ?T - 16 then cons_bb c (y * ?st + x + 16 * ?st) else cons_bb c (y * ?st + x))"
    proof (cases "y < ?T - 16")
      case True
      then have "\<exists>y' x'. y' < ?T - 16 \<and> x' < ?w \<and> y * ?st + x = y' * ?st + x'" using x by blast
      with True show ?thesis unfolding scroll_copy_at [OF w] by simp
    next
      case False
      then have no: "\<not> (\<exists>y' x'. y' < ?T - 16 \<and> x' < ?w \<and> y * ?st + x = y' * ?st + x')" by (auto dest!: inj)
      show ?thesis unfolding scroll_copy_at [OF w] if_not_P [OF no] if_not_P [OF False] ..
    qed
    finally show ?thesis using False by (auto simp: algebra_simps)
  qed
qed

lemma scroll_up_in_text:
  assumes g: "grid_ok c"
  shows "in_text c (scroll_up c)"
proof -
  let ?st = "unat (fb_stride c)" and ?w = "unat (fb_w c)" and ?T = "unat (nrows c) * 16"
  have w: "?w \<le> ?st" and T: "?T \<le> unat (fb_h c)" using g grid_text_h [OF g] by (auto simp: grid_ok_def)
  let ?q = "fold (\<lambda>y. copy_u32 (y * ?st) ((y + 16) * ?st) ?w) [0..<?T - 16] (cons_bb c)"
  have bb: "cons_bb (scroll_up c) = raster 0 ?st [?T - 16..<?T] [0..<?w] (\<lambda>_ _. CONS_BG_DEF) ?q"
    unfolding scroll_up_def Let_def fill_rows_raster by (simp add: grid_text_h [OF g])
  have "cons_bb (scroll_up c) k = cons_bb c k" if "\<And>y x. y < ?T \<Longrightarrow> x < ?w \<Longrightarrow> k \<noteq> y * ?st + x" for k
  proof -
    have "cons_bb (scroll_up c) k = ?q k" unfolding bb by (rule raster_other) (use that in auto)
    also have "\<dots> = cons_bb c k" unfolding scroll_copy_at [OF w] using that by (metis less_imp_diff_less less_le_trans diff_le_self)
    finally show ?thesis .
  qed
  then have "\<exists>y x. y < ?T \<and> x < ?w \<and> k = y * ?st + x" if "cons_bb (scroll_up c) k \<noteq> cons_bb c k" for k using that by blast
  moreover have "same_mode c (scroll_up c)" by (simp add: scroll_up_def Let_def same_mode_def)
  ultimately show ?thesis using T unfolding draws_in_def by (meson le0 less_le_trans)
qed

lemma scroll_up_fields [simp]:
  "cur_x (scroll_up c) = cur_x c" "cur_y (scroll_up c) = cur_y c" "cur_shown (scroll_up c) = cur_shown c"
  "cur_dx (scroll_up c) = cur_dx c" "cur_dy (scroll_up c) = cur_dy c"
  "ncols (scroll_up c) = ncols c" "nrows (scroll_up c) = nrows c"
  by (simp_all add: scroll_up_def Let_def)

text \<open>Between erasing and redrawing the cursor block: the writing position may only be past the last column.\<close>

definition pen_ok :: "cons64 \<Rightarrow> bool" where
  "pen_ok c \<longleftrightarrow> cur_x c < ncols c \<and> cur_y c < nrows c \<and> \<not> cur_shown c"

lemma newline_ok:
  assumes g: "grid_ok c" and "cur_y c < nrows c" "\<not> cur_shown c"
  shows "in_text c (newline c) \<and> pen_ok (newline c)"
proof -
  let ?c1 = "c\<lparr>cur_x := 0, cur_y := cur_y c + 1\<rparr>" and ?c2 = "c\<lparr>cur_x := 0, cur_y := nrows c - 1\<rparr>"
  have n: "1 \<le> unat (ncols c)" "1 \<le> unat (nrows c)" using g by (auto simp: grid_ok_def)
  have pos: "0 < ncols c" "nrows c - 1 < nrows c"
    using n by (auto simp: word_less_nat_alt unat_minus_one) (metis One_nat_def less_numeral_extra(1) not_one_le_zero unat_0 unat_minus_one diff_less less_le_trans)
  have g2: "grid_ok ?c2" using g by (simp add: grid_ok_def)
  have d2: "draws_in 0 (unat (nrows c) * 16) ?c2 (scroll_up ?c2)" using scroll_up_in_text [OF g2] by simp
  have "draws_in 0 (unat (nrows c) * 16) c ?c2" by simp
  from draws_in_trans [OF this d2] have "in_text c (scroll_up ?c2)" .
  then show ?thesis using assms(2,3) pos by (auto simp: newline_def Let_def pen_ok_def not_le)
qed

section \<open>Text operations\<close>

lemma cell_draw_fields [simp]:
  "cur_x (cell_draw font cx cy ch fg bg c) = cur_x c" "cur_y (cell_draw font cx cy ch fg bg c) = cur_y c"
  "cur_shown (cell_draw font cx cy ch fg bg c) = cur_shown c"
  "ncols (cell_draw font cx cy ch fg bg c) = ncols c" "nrows (cell_draw font cx cy ch fg bg c) = nrows c"
  by (simp_all add: cell_draw_def Let_def)

text \<open>A pen step keeps the pen in the grid and draws only in the text area.\<close>

definition pen_step :: "cons64 \<Rightarrow> cons64 \<Rightarrow> bool" where
  "pen_step c c' \<longleftrightarrow> (grid_ok c \<and> pen_ok c \<longrightarrow> in_text c c' \<and> grid_ok c' \<and> pen_ok c')"

lemma pen_step_refl: "pen_step c c"
  by (simp add: pen_step_def)

lemma pen_step_trans: "pen_step c c' \<Longrightarrow> pen_step c' c'' \<Longrightarrow> pen_step c c''"
  unfolding pen_step_def using draws_in_trans draws_in_eq(5) by metis

lemma in_text_grid: "grid_ok c \<Longrightarrow> in_text c c' \<Longrightarrow> grid_ok c'"
  by (simp add: draws_in_eq)

lemma pen_newline: "pen_step c (newline c)"
  using newline_ok [of c] in_text_grid by (auto simp: pen_step_def pen_ok_def)

text \<open>Draw at the pen, advance, and wrap at the last column.\<close>

lemma pen_advance:
  assumes d: "in_text c c1" and "cur_x c1 = cur_x c" "cur_y c1 = cur_y c" "cur_shown c1 = cur_shown c"
    and g: "grid_ok c" and p: "cur_y c < nrows c" "\<not> cur_shown c"
  shows "in_text c (let c2 = c1\<lparr>cur_x := cur_x c1 + 1\<rparr> in if cur_x c2 \<ge> ncols c2 then newline c2 else c2) \<and>
         pen_ok (let c2 = c1\<lparr>cur_x := cur_x c1 + 1\<rparr> in if cur_x c2 \<ge> ncols c2 then newline c2 else c2)"
proof -
  let ?c2 = "c1\<lparr>cur_x := cur_x c1 + 1\<rparr>"
  have d2: "in_text c ?c2" using d by simp
  have e: "ncols ?c2 = ncols c" "nrows ?c2 = nrows c" "grid_ok ?c2" using draws_in_eq [OF d2] g by simp_all
  have y: "cur_y ?c2 < nrows ?c2" "\<not> cur_shown ?c2" using assms(3,4) p e by simp_all
  note n = newline_ok [OF e(3) y]
  have "in_text c (newline ?c2)" using draws_in_trans [OF d2] n e(2) by simp
  with d2 n y e show ?thesis by (auto simp: Let_def pen_ok_def not_le)
qed

lemma pen_put_glyph: "pen_step c (put_glyph font ch c)"
proof -
  have "in_text c (put_glyph font ch c) \<and> pen_ok (put_glyph font ch c)" if "grid_ok c" "pen_ok c"
    using pen_advance [of c "cell_draw font (cur_x c) (cur_y c) ch (fg_color c) CONS_BG_DEF c"] that
    by (simp add: put_glyph_def pen_ok_def cell_draw_in_text)
  then show ?thesis using in_text_grid by (auto simp: pen_step_def)
qed

lemma pen_puts_char: "pen_step c (puts_char font ch c)"
proof -
  let ?g = "\<lambda>c. cell_put (cur_x c * 8) (cur_y c * 16) (glyph_px font ch (fg_color c) CONS_BG_DEF) c"
  have p: "pen_step c (let c = (?g c)\<lparr>cur_x := cur_x c + 1\<rparr> in if cur_x c \<ge> ncols c then newline c else c)"
    using pen_advance [of c "?g c"] in_text_grid by (auto simp: pen_step_def pen_ok_def Let_def cell_in_text)
  have "pen_step c (c\<lparr>cur_x := 0\<rparr>)"
    by (auto simp: pen_step_def pen_ok_def grid_ok_def word_less_nat_alt)
  with p show ?thesis by (auto simp: puts_char_def pen_newline pen_step_refl simp del: Let_def)
qed

lemma pen_puts: "pen_step c (fold (puts_char font) cs c)"
  by (induction cs arbitrary: c) (auto intro: pen_step_refl pen_step_trans [OF pen_puts_char])

lemma tab_steps:
  "grid_ok c \<Longrightarrow> cur_y c < nrows c \<Longrightarrow> \<not> cur_shown c \<Longrightarrow>
   in_text c ((tab_step font nxt ^^ n) c) \<and> cur_y ((tab_step font nxt ^^ n) c) = cur_y c \<and> \<not> cur_shown ((tab_step font nxt ^^ n) c)"
proof (induction n)
  case (Suc n)
  let ?c = "(tab_step font nxt ^^ n) c"
  have i: "in_text c ?c" "cur_y ?c = cur_y c" "\<not> cur_shown ?c" using Suc by auto
  have e: "grid_ok ?c" "nrows ?c = nrows c" using draws_in_eq [OF i(1)] Suc.prems by auto
  have "in_text ?c (tab_step font nxt ?c)" using cell_draw_in_text [OF e(1)] i(2) e(2) Suc.prems(2) by (simp add: tab_step_def)
  then have "in_text c (tab_step font nxt ?c)" using draws_in_trans [OF i(1)] e(2) by simp
  moreover have "cur_y (tab_step font nxt ?c) = cur_y c" "\<not> cur_shown (tab_step font nxt ?c)"
    using i by (simp_all add: tab_step_def)
  ultimately show ?case by simp
qed simp

lemma pen_tab:
  "pen_step c (let c' = (tab_step font nxt ^^ 8) c in if cur_x c' \<ge> ncols c' then newline c' else c')"
proof -
  let ?c = "(tab_step font nxt ^^ 8) c"
  have "in_text c (if cur_x ?c \<ge> ncols ?c then newline ?c else ?c) \<and> pen_ok (if cur_x ?c \<ge> ncols ?c then newline ?c else ?c)"
    if g: "grid_ok c" and p: "pen_ok c"
  proof -
    have t: "in_text c ?c" "cur_y ?c = cur_y c" "\<not> cur_shown ?c" using tab_steps [OF g, where font = font and nxt = nxt and n = 8] p by (auto simp: pen_ok_def)
    have e: "grid_ok ?c" "nrows ?c = nrows c" using draws_in_eq [OF t(1)] g by auto
    have y: "cur_y ?c < nrows ?c" using p t(2) e(2) by (simp add: pen_ok_def)
    note n = newline_ok [OF e(1) y t(3)]
    have "in_text c (newline ?c)" using draws_in_trans [OF t(1)] n e(2) by simp
    with n t y show ?thesis by (auto simp: pen_ok_def not_le)
  qed
  then show ?thesis using in_text_grid by (auto simp: pen_step_def Let_def)
qed

lemma unat_pred_less: "0 < (x::u32) \<Longrightarrow> unat (x - 1) < unat x"
proof -
  assume "0 < x"
  then have n: "x \<noteq> 0" "0 < unat x" by (auto simp: word_less_nat_alt)
  then show ?thesis using unat_minus_one [OF n(1)] by simp
qed

lemma pen_back_col:
  assumes "cur_x c > 0"
  shows "pen_step c (cell_draw font (cur_x c - 1) (cur_y c) ch fg bg (c\<lparr>cur_x := cur_x c - 1\<rparr>))"
proof -
  let ?c = "c\<lparr>cur_x := cur_x c - 1\<rparr>"
  have "unat (cur_x c - 1) < unat (cur_x c)" using assms by (rule unat_pred_less)
  then have "pen_ok c \<Longrightarrow> pen_ok ?c" by (auto simp: pen_ok_def word_less_nat_alt)
  moreover have "grid_ok ?c = grid_ok c" by (simp add: grid_ok_def)
  moreover have "grid_ok c \<Longrightarrow> pen_ok c \<Longrightarrow> draws_in 0 (unat (nrows c) * 16) ?c (cell_draw font (cur_x c - 1) (cur_y c) ch fg bg ?c)"
    using cell_draw_in_text [of ?c "cur_y c"] by (simp add: pen_ok_def grid_ok_def)
  ultimately show ?thesis
    using draws_in_trans [of 0 "unat (nrows c) * 16" c ?c] in_text_grid
    by (auto simp: pen_step_def pen_ok_def)
qed

lemma pen_back_row:
  assumes "cur_y c > 0"
  shows "pen_step c (cell_draw font (ncols c - 1) (cur_y c - 1) ch fg bg (c\<lparr>cur_y := cur_y c - 1, cur_x := ncols c - 1\<rparr>))"
proof -
  let ?c = "c\<lparr>cur_y := cur_y c - 1, cur_x := ncols c - 1\<rparr>"
  have "unat (cur_y c - 1) < unat (cur_y c)" using assms by (rule unat_pred_less)
  moreover have "grid_ok c \<Longrightarrow> unat (ncols c - 1) < unat (ncols c)"
  proof -
    assume "grid_ok c"
    then have "ncols c \<noteq> 0" by (auto simp: grid_ok_def)
    then show ?thesis using \<open>grid_ok c\<close> by (simp add: unat_minus_one grid_ok_def)
  qed
  ultimately have "grid_ok c \<Longrightarrow> pen_ok c \<Longrightarrow> pen_ok ?c" by (auto simp: pen_ok_def word_less_nat_alt)
  moreover have "grid_ok ?c = grid_ok c" by (simp add: grid_ok_def)
  moreover have "grid_ok c \<Longrightarrow> pen_ok ?c \<Longrightarrow> draws_in 0 (unat (nrows c) * 16) ?c (cell_draw font (ncols c - 1) (cur_y c - 1) ch fg bg ?c)"
    using cell_draw_in_text [of ?c "cur_y c - 1"] by (simp add: pen_ok_def grid_ok_def)
  ultimately show ?thesis
    using draws_in_trans [of 0 "unat (nrows c) * 16" c ?c] in_text_grid
    by (auto simp: pen_step_def pen_ok_def)
qed

lemmas pen_steps = pen_newline pen_put_glyph pen_tab [unfolded Let_def] pen_back_col pen_back_row pen_step_refl

lemma erase_pen:
  assumes "grid_ok c" "cursor_ok c"
  shows "in_text c (cursor_erase c) \<and> grid_ok (cursor_erase c) \<and> pen_ok (cursor_erase c)"
proof -
  note d = cursor_erase_in_text [OF assms]
  have "cur_x (cursor_erase c) = cur_x c" "cur_y (cursor_erase c) = cur_y c" "\<not> cur_shown (cursor_erase c)"
    by (simp_all add: cursor_erase_def Let_def)
  with d assms draws_in_eq [OF d] show ?thesis by (simp add: pen_ok_def cursor_ok_def)
qed

lemma draw_cursor:
  assumes "grid_ok c" "pen_ok c"
  shows "in_text c (cursor_draw c) \<and> grid_ok (cursor_draw c) \<and> cursor_ok (cursor_draw c)"
proof -
  have "cursor_ok c" using assms(2) by (simp add: pen_ok_def cursor_ok_def)
  note d = cursor_draw_in_text [OF assms(1) this]
  have "cur_x (cursor_draw c) = cur_x c" "cur_y (cursor_draw c) = cur_y c"
    "cur_dx (cursor_draw c) = cur_x c" "cur_dy (cursor_draw c) = cur_y c"
    by (simp_all add: cursor_draw_def Let_def)
  with d assms draws_in_eq [OF d] show ?thesis by (simp add: pen_ok_def cursor_ok_def)
qed

text \<open>Erase, a pen step, redraw: what \<^verbatim>\<open>cons_putc\<close> and \<^verbatim>\<open>cons_puts\<close> do before presenting.\<close>

lemma erase_step_draw:
  assumes g: "grid_ok c" "cursor_ok c" and s: "pen_step (cursor_erase c) c1"
  shows "in_text c (cursor_draw c1) \<and> grid_ok (cursor_draw c1) \<and> cursor_ok (cursor_draw c1)"
proof -
  have e: "in_text c (cursor_erase c)" "grid_ok (cursor_erase c)" "pen_ok (cursor_erase c)" using erase_pen [OF g] by auto
  then have c1: "in_text (cursor_erase c) c1" "grid_ok c1" "pen_ok c1" using s by (auto simp: pen_step_def)
  have n: "nrows (cursor_erase c) = nrows c" "nrows c1 = nrows c" using draws_in_eq(5) [OF e(1)] draws_in_eq(5) [OF c1(1)] by auto
  note dr = draw_cursor [OF c1(2,3)]
  have "in_text c c1" using draws_in_trans [OF e(1)] c1(1) n by simp
  then have "in_text c (cursor_draw c1)" using draws_in_trans dr n by metis
  with dr show ?thesis by simp
qed

section \<open>Presenting\<close>

lemma visible_index:
  assumes "grid_ok c" "y < unat (fb_h c)" "x < unat (fb_w c)"
  shows "y * unat (fb_stride c) + x < CONS_BB_BYTES div 4"
proof -
  have "(y + 1) * unat (fb_stride c) \<le> unat (fb_h c) * unat (fb_stride c)" using assms(2) by (intro mult_right_mono) auto
  also have "\<dots> \<le> CONS_BB_BYTES div 4" using assms(1) by (simp add: grid_ok_def)
  finally show ?thesis using assms(1,3) by (simp add: grid_ok_def)
qed

lemma draws_in_bounds:
  assumes "draws_in a b c c'" "grid_ok c" "CONS_BB_BYTES div 4 \<le> k"
  shows "cons_bb c' k = cons_bb c k"
  using assms visible_index [OF assms(2)] unfolding draws_in_def by (metis linorder_not_less)

definition same_cursor :: "cons64 \<Rightarrow> cons64 \<Rightarrow> bool" where
  "same_cursor c c' \<longleftrightarrow> cur_x c' = cur_x c \<and> cur_y c' = cur_y c \<and> cur_dx c' = cur_dx c \<and> cur_dy c' = cur_dy c \<and> cur_shown c' = cur_shown c"

lemma same_cursor_prims [simp]:
  "same_cursor c (fill_rect x y w h rgb c)" "same_cursor c (cell_draw font cx cy ch fg bg c)" "same_cursor c (cons_pixel x y rgb c)"
  "same_cursor c (cons_blit x y w h px c)"
  by (simp_all add: same_cursor_def fill_rect_def cell_draw_def cons_pixel_def cons_blit_def Let_def split: option.split)

lemma same_cursor_trans: "same_cursor c c' \<Longrightarrow> same_cursor c' c'' \<Longrightarrow> same_cursor c c''"
  by (simp add: same_cursor_def)

lemma cursor_ok_same: "same_cursor c c' \<Longrightarrow> same_mode c c' \<Longrightarrow> cursor_ok c' = cursor_ok c"
  by (simp add: same_cursor_def same_mode_def cursor_ok_def)

lemma clip_u32_le: "unat (if a > (b::u32) then b else a) \<le> unat b"
  by (simp add: word_less_nat_alt)

lemma raster_draws:
  assumes "grid_ok c" "y1 \<le> unat (fb_h c)" "x1 \<le> unat (fb_w c)"
  shows "draws_in y0 y1 c (c\<lparr>cons_bb := raster 0 (unat (fb_stride c)) [y0..<y1] [x0..<x1] px (cons_bb c)\<rparr>)"
proof -
  have "raster 0 (unat (fb_stride c)) [y0..<y1] [x0..<x1] px (cons_bb c) k = cons_bb c k"
    if "\<not> (\<exists>y x. y0 \<le> y \<and> y < y1 \<and> y < unat (fb_h c) \<and> x < unat (fb_w c) \<and> k = y * unat (fb_stride c) + x)" for k
    by (rule raster_other) (use that assms in auto)
  then have "\<forall>k. raster 0 (unat (fb_stride c)) [y0..<y1] [x0..<x1] px (cons_bb c) k \<noteq> cons_bb c k \<longrightarrow>
    (\<exists>y x. y0 \<le> y \<and> y < y1 \<and> y < unat (fb_h c) \<and> x < unat (fb_w c) \<and> k = y * unat (fb_stride c) + x)" by blast
  then show ?thesis by (simp add: draws_in_def same_mode_def)
qed

lemma fill_rect_draws: "grid_ok c \<Longrightarrow> draws_in (unat y) (unat (fb_h c)) c (fill_rect x y w h rgb c)"
proof -
  assume g: "grid_ok c"
  let ?x1 = "if x + w > fb_w c then fb_w c else x + w" and ?y1 = "if y + h > fb_h c then fb_h c else y + h"
  have "draws_in (unat y) (unat (fb_h c)) c (c\<lparr>cons_bb := raster 0 (unat (fb_stride c)) [unat y..<unat ?y1] [unat x..<unat ?x1]
             (\<lambda>_ _. rgb) (cons_bb c)\<rparr>)"
    using raster_draws [OF g clip_u32_le clip_u32_le] by (rule draws_in_mono) (simp_all add: clip_u32_le)
  then show ?thesis by (simp add: fill_rect_def Let_def)
qed

lemma strip_cell_draws:
  assumes g: "grid_ok c"
  shows "draws_in (unat (nrows c * 16)) (unat (fb_h c)) c (cell_draw font cx (nrows c) ch fg bg c)"
proof -
  have T: "unat (nrows c * 16) + 16 \<le> unat (fb_h c)" "unat (fb_h c) \<le> 4096"
    using grid_text_h [OF g] g by (auto simp: grid_ok_def)
  then have "unat (nrows c * 16) + 16 \<le> 2 ^ 32" by simp
  from cell_draws [OF g this] show ?thesis
    by (auto simp: cell_draw_def Let_def intro: draws_in_mono T)
qed

lemma status_redraw_draws:
  assumes g: "grid_ok c"
  shows "draws_in (unat (nrows c * 16)) (unat (fb_h c)) c (status_redraw font c) \<and> same_cursor c (status_redraw font c)"
proof -
  let ?y = "nrows c * 16" and ?h = "unat (fb_h c)"
  define ok where "ok \<equiv> \<lambda>c'. draws_in (unat ?y) ?h c c' \<and> same_cursor c c'"
  have eq: "grid_ok c'" "nrows c' = nrows c" "fb_h c' = fb_h c" if "ok c'" for c'
    using that g by (auto simp: ok_def draws_in_eq)
  have fr: "ok (fill_rect x ?y w h rgb c')" if "ok c'" for c' x w h rgb
  proof -
    have "draws_in (unat ?y) ?h c' (fill_rect x ?y w h rgb c')"
      using fill_rect_draws [OF eq(1) [OF that], of ?y x w h rgb] eq(3) [OF that] by simp
    from draws_in_trans [OF _ this] same_cursor_trans [OF _ same_cursor_prims(1)] that show ?thesis
      unfolding ok_def by blast
  qed
  have cd: "ok (cell_draw font cx (nrows c) ch fg bg c')" if "ok c'" for c' cx ch fg bg
  proof -
    have "draws_in (unat ?y) ?h c' (cell_draw font cx (nrows c) ch fg bg c')"
      using strip_cell_draws [OF eq(1) [OF that], of font cx ch fg bg] eq(2,3) [OF that] by simp
    from draws_in_trans [OF _ this] same_cursor_trans [OF _ same_cursor_prims(2)] that show ?thesis
      unfolding ok_def by blast
  qed
  have "ok c" by (simp add: ok_def same_cursor_def)
  define c1 where "c1 = fill_rect 0 ?y (fb_w c) 16 CONS_STRIP_BG c"
  define c2 where "c2 = cell_draw font 0 (nrows c1) (of_char (CHR ''G'')) 0xFFFFFF CONS_STRIP_BG c1"
  define c3 where "c3 = cell_draw font 1 (nrows c2) (of_char (CHR ''0'')) 0xFFFFFF CONS_STRIP_BG c2"
  define c6 where "c6 = fill_rect 192 ?y 64 16 0x0000FF (fill_rect 128 ?y 64 16 0x00FF00 (fill_rect 64 ?y 64 16 0xFF0000 c3))"
  have 1: "ok c1" unfolding c1_def by (rule fr [OF \<open>ok c\<close>])
  have 2: "ok c2" unfolding c2_def eq(2) [OF 1] by (rule cd [OF 1])
  have 3: "ok c3" unfolding c3_def eq(2) [OF 2] by (rule cd [OF 2])
  have 6: "ok c6" unfolding c6_def by (intro fr 3)
  have "status_redraw font c = (if (status_want c6 mod 1000) * 384 div 1000 \<noteq> 0
      then fill_rect 288 ?y ((status_want c6 mod 1000) * 384 div 1000) 16 0x00FF00 c6 else c6)"
    unfolding status_redraw_def Let_def c6_def c3_def c2_def c1_def ..
  then have "ok (status_redraw font c)" using fr [OF 6] 6 by simp
  then show ?thesis by (simp add: ok_def)
qed

text \<open>The state \<^verbatim>\<open>cons_present\<close> copies from: after a pending strip redraw.\<close>

definition strip_fresh :: "(u8 \<Rightarrow> nat \<Rightarrow> u8) \<Rightarrow> cons64 \<Rightarrow> cons64" where
  "strip_fresh font c =
     (if status_want c \<noteq> status_drawn c then (status_redraw font c)\<lparr>status_drawn := status_want c\<rparr> else c)"

definition sprite_pos :: "desk \<Rightarrow> u32 \<times> u32" where
  "sprite_pos d = (if mouse_live (mou d) then (mouse_x (mou d), mouse_y (mou d)) else (0, fb_h (con d)))"

lemma strip_fresh_keeps:
  assumes "grid_ok c"
  shows "grid_ok (strip_fresh font c) \<and> same_cursor c (strip_fresh font c) \<and> fb_mem (strip_fresh font c) = fb_mem c \<and>
     fb_h (strip_fresh font c) = fb_h c \<and> fb_w (strip_fresh font c) = fb_w c \<and> fb_stride (strip_fresh font c) = fb_stride c \<and>
     ncols (strip_fresh font c) = ncols c \<and> nrows (strip_fresh font c) = nrows c \<and> live (strip_fresh font c) = live c \<and>
     (\<forall>k \<ge> CONS_BB_BYTES div 4. cons_bb (strip_fresh font c) k = cons_bb c k)"
proof -
  have r: "draws_in (unat (nrows c * 16)) (unat (fb_h c)) c (status_redraw font c)" "same_cursor c (status_redraw font c)"
    using status_redraw_draws [OF assms] by auto
  have "grid_ok (status_redraw font c)" using draws_in_eq(7) [OF r(1)] assms by simp
  then have "grid_ok ((status_redraw font c)\<lparr>status_drawn := u\<rparr>)" for u by (simp add: grid_ok_def)
  with r assms draws_in_bounds [OF r(1) assms] show ?thesis
    by (auto simp: strip_fresh_def same_cursor_def draws_in_def same_mode_def)
qed

lemma cons_present_eq:
  assumes "live (con d)" "\<not> gfx_on (con d)" "grid_ok (con d)"
  shows "cons_present font d =
     (let c = strip_fresh font (con d); y0 = dirty_y0 c;
          y1 = (if dirty_y1 c > fb_h c then fb_h c else dirty_y1 c); (mx, my) = sprite_pos d
      in d\<lparr>con := c\<lparr>dirty_y0 := fb_h c, dirty_y1 := 0,
            fb_mem := (if y0 \<ge> dirty_y1 c \<or> y0 \<ge> fb_h c then fb_mem c
              else raster 0 (unat (fb_stride c)) [unat y0..<unat y1] [0..<unat (fb_w c)]
                     (present_row (wsys d) mx my (c\<lparr>dirty_y0 := fb_h c, dirty_y1 := 0\<rparr>)) (fb_mem c))\<rparr>\<rparr>)"
proof -
  have "fb_h (strip_fresh font (con d)) = fb_h (con d)" using strip_fresh_keeps [OF assms(3)] by simp
  then show ?thesis
    using assms(1,2) unfolding cons_present_def Let_def strip_fresh_def [symmetric] mouse_cursor_state_def
    by (auto simp: sprite_pos_def split: prod.splits)
qed

text \<open>What every console operation keeps.\<close>

definition cons_safe :: "desk \<Rightarrow> desk \<Rightarrow> bool" where
  "cons_safe d d' \<longleftrightarrow> cons_inv (con d') \<and> wsys d' = wsys d \<and> mou d' = mou d \<and>
     (\<forall>k \<ge> CONS_BB_BYTES div 4. cons_bb (con d') k = cons_bb (con d) k \<and> fb_mem (con d') k = fb_mem (con d) k)"

lemma cons_safe_refl: "cons_inv (con d) \<Longrightarrow> cons_safe d d"
  by (simp add: cons_safe_def)

lemma cons_safe_trans: "cons_safe d d' \<Longrightarrow> cons_safe d' d'' \<Longrightarrow> cons_safe d d''"
  by (simp add: cons_safe_def)

lemma cons_safe_draw:
  assumes "draws_in a b (con d) c" "cons_inv (con d)" "live (con d) \<Longrightarrow> cursor_ok c" "live (con d)"
  shows "cons_safe d (d\<lparr>con := c\<rparr>)"
  using assms draws_in_bounds [OF assms(1)] draws_in_eq [OF assms(1)]
  by (auto simp: cons_safe_def cons_inv_def draws_in_def same_mode_def)

lemma cons_present_safe:
  assumes "cons_inv (con d)"
  shows "cons_safe d (cons_present font d)"
proof (cases "live (con d) \<and> \<not> gfx_on (con d)")
  case True
  then have g: "grid_ok (con d)" "cursor_ok (con d)" using assms by (auto simp: cons_inv_def)
  let ?c = "strip_fresh font (con d)"
  note k = strip_fresh_keeps [OF g(1), of font]
  obtain mx my where sp: "sprite_pos d = (mx, my)" by fastforce
  have "grid_ok (?c\<lparr>dirty_y0 := a, dirty_y1 := b, fb_mem := m\<rparr>) = grid_ok ?c" for a b m by (simp add: grid_ok_def)
  then have gc: "grid_ok (?c\<lparr>dirty_y0 := a, dirty_y1 := b, fb_mem := m\<rparr>)" for a b m using k by simp
  have cc: "cursor_ok (?c\<lparr>dirty_y0 := a, dirty_y1 := b, fb_mem := m\<rparr>)" for a b m
    using k g(2) by (simp add: cursor_ok_def same_cursor_def)
  have "raster 0 (unat (fb_stride ?c)) [a..<unat (if dirty_y1 ?c > fb_h ?c then fb_h ?c else dirty_y1 ?c)] [0..<unat (fb_w ?c)] px m j = m j"
    if "CONS_BB_BYTES div 4 \<le> j" for a px m j
  proof (rule raster_other)
    fix y x assume "y \<in> set [a..<unat (if dirty_y1 ?c > fb_h ?c then fb_h ?c else dirty_y1 ?c)]" "x \<in> set [0..<unat (fb_w ?c)]"
    then have "y < unat (fb_h ?c)" "x < unat (fb_w ?c)" using clip_u32_le [of "fb_h ?c" "dirty_y1 ?c"] by auto
    with visible_index [of ?c y x] k that show "j \<noteq> 0 + y * unat (fb_stride ?c) + x" by auto
  qed
  with True k gc cc show ?thesis
    by (auto simp: cons_present_eq [OF _ _ g(1)] Let_def sp cons_safe_def cons_inv_def)
next
  case False
  then have "cons_present font d = d" by (auto simp: cons_present_def Let_def)
  with assms show ?thesis by (simp add: cons_safe_refl)
qed

section \<open>Every operation\<close>

lemma text_op_safe:
  assumes inv: "cons_inv (con d)" and l: "live (con d)" and s: "pen_step (cursor_erase (con d)) c1"
  shows "cons_safe d (cons_present font (d\<lparr>con := cursor_draw c1\<rparr>))"
proof -
  have g: "grid_ok (con d)" "cursor_ok (con d)" using inv l by (auto simp: cons_inv_def)
  note e = erase_step_draw [OF g s]
  have a: "cons_safe d (d\<lparr>con := cursor_draw c1\<rparr>)"
    by (rule cons_safe_draw) (use e inv l in auto)
  then have "cons_inv (con (d\<lparr>con := cursor_draw c1\<rparr>))" by (simp add: cons_safe_def)
  from cons_safe_trans [OF a cons_present_safe [OF this]] show ?thesis .
qed

definition putc_pen :: "(u8 \<Rightarrow> nat \<Rightarrow> u8) \<Rightarrow> u8 \<Rightarrow> cons64 \<Rightarrow> cons64" where
  "putc_pen font ch c =
     (if ch = 10 then newline c
      else if ch = 8 then
        (if cur_x c > 0 then cell_draw font (cur_x c - 1) (cur_y c) 32 (fg_color c) CONS_BG_DEF (c\<lparr>cur_x := cur_x c - 1\<rparr>)
         else if cur_y c > 0 then cell_draw font (ncols c - 1) (cur_y c - 1) 32 (fg_color c) CONS_BG_DEF
                (c\<lparr>cur_y := cur_y c - 1, cur_x := ncols c - 1\<rparr>)
         else c)
      else if ch = 9 then
        let c' = (tab_step font ((cur_x c + 8) AND NOT 7) ^^ 8) c in if cur_x c' \<ge> ncols c' then newline c' else c'
      else put_glyph font ch c)"

lemma cons_putc_eq:
  "cons_putc font ch d =
     (if \<not> live (con d) then d
      else if ch = 13 then d\<lparr>con := (cursor_erase (con d))\<lparr>cur_x := 0\<rparr>\<rparr>
      else if ch \<noteq> 10 \<and> ch \<noteq> 8 \<and> ch \<noteq> 9 \<and> ch < 32 then d
      else cons_present font (d\<lparr>con := cursor_draw (putc_pen font ch (cursor_erase (con d)))\<rparr>))"
  by (simp add: cons_putc_def putc_pen_def Let_def upd_con_def)

lemma pen_putc: "pen_step c (putc_pen font ch c)"
  by (simp add: putc_pen_def pen_steps Let_def)

lemma cons_putc_safe:
  assumes inv: "cons_inv (con d)"
  shows "cons_safe d (cons_putc font ch d)"
proof (cases "live (con d)")
  case True
  then have g: "grid_ok (con d)" "cursor_ok (con d)" using inv by (auto simp: cons_inv_def)
  have cr: "cons_safe d (d\<lparr>con := (cursor_erase (con d))\<lparr>cur_x := 0\<rparr>\<rparr>)"
  proof (rule cons_safe_draw)
    show "draws_in 0 (unat (nrows (con d)) * 16) (con d) ((cursor_erase (con d))\<lparr>cur_x := 0\<rparr>)"
      using erase_pen [OF g] by simp
    show "cursor_ok ((cursor_erase (con d))\<lparr>cur_x := 0\<rparr>)"
      using erase_pen [OF g] by (auto simp: cursor_ok_def pen_ok_def word_less_nat_alt)
  qed (use inv True in auto)
  show ?thesis
    using cr text_op_safe [OF inv True pen_putc, of font] cons_safe_refl [OF inv] True
    by (simp add: cons_putc_eq)
next
  case False
  then show ?thesis using inv by (simp add: cons_putc_def cons_safe_refl)
qed

lemma cons_puts_safe: "cons_inv (con d) \<Longrightarrow> cons_safe d (cons_puts font cs d)"
  using text_op_safe [OF _ _ pen_puts] by (auto simp: cons_puts_def cons_safe_refl)

lemma clear_draws:
  assumes g: "grid_ok c"
  shows "CONS_BB_BYTES div 4 \<le> k \<Longrightarrow> fill_u32 0 v (unat (fb_h c) * unat (fb_stride c)) p k = p k"
  unfolding fill_u32_def using g by (intro row_other) (auto simp: grid_ok_def)

lemma cons_present_live:
  assumes g: "grid_ok (con d)"
  shows "live (con (cons_present font d)) = live (con d)"
proof (cases "live (con d) \<and> \<not> gfx_on (con d)")
  case True
  then have l: "live (con d)" "\<not> gfx_on (con d)" by auto
  show ?thesis unfolding cons_present_eq [OF l g] Let_def using strip_fresh_keeps [OF g, of font]
    by (simp split: prod.split)
next
  case False
  then have "cons_present font d = d" by (auto simp: cons_present_def Let_def)
  then show ?thesis by simp
qed

lemma cons_clear_safe:
  assumes l: "live (con d)" and g: "grid_ok (con d)"
  shows "cons_safe d (cons_clear font d) \<and> live (con (cons_clear font d)) = live (con d)"
proof -
  let ?c = "con d"
  let ?c1 = "(mark_dirty 0 (fb_h ?c) (?c\<lparr>cons_bb := fill_u32 0 CONS_BG_DEF (unat (fb_h ?c) * unat (fb_stride ?c)) (cons_bb ?c)\<rparr>))
     \<lparr>cur_shown := False, cur_x := 0, cur_y := 0\<rparr>"
  have g1: "grid_ok ?c1" using g by (simp add: grid_ok_def)
  have p1: "pen_ok ?c1" using g by (auto simp: pen_ok_def grid_ok_def word_less_nat_alt)
  note e = draw_cursor [OF g1 p1]
  have cd: "draws_in 0 (unat (nrows ?c1) * 16) ?c1 (cursor_draw ?c1)" "cursor_ok (cursor_draw ?c1)" "grid_ok (cursor_draw ?c1)"
    using e by auto
  have "cons_bb (cursor_draw ?c1) k = cons_bb ?c k" if "CONS_BB_BYTES div 4 \<le> k" for k
    using draws_in_bounds [OF cd(1) g1 that] clear_draws [OF g that] by simp
  moreover have "fb_mem (cursor_draw ?c1) = fb_mem ?c" using cd(1) by (simp add: draws_in_def same_mode_def)
  ultimately have a: "cons_safe d (d\<lparr>con := cursor_draw ?c1\<rparr>)" using cd by (simp add: cons_safe_def cons_inv_def)
  then have "cons_inv (con (d\<lparr>con := cursor_draw ?c1\<rparr>))" by (simp add: cons_safe_def)
  note b = cons_present_safe [OF this, of font]
  have "live (con (cons_present font (d\<lparr>con := cursor_draw ?c1\<rparr>))) = live (cursor_draw ?c1)"
    using cd(3) cons_present_live [of "d\<lparr>con := cursor_draw ?c1\<rparr>" font] by simp
  moreover have "live (cursor_draw ?c1) = live ?c" using draws_in_eq(6) [OF cd(1)] by simp
  moreover have "cons_clear font d = cons_present font (d\<lparr>con := cursor_draw ?c1\<rparr>)" using l by (simp add: cons_clear_def Let_def)
  ultimately show ?thesis using cons_safe_trans [OF a b] by simp
qed

lemma cons_clear_safe': "cons_inv (con d) \<Longrightarrow> cons_safe d (cons_clear font d)"
  using cons_clear_safe [of d font] by (cases "live (con d)") (auto simp: cons_inv_def cons_clear_def cons_safe_refl)

lemma con_draw_safe:
  assumes "cons_inv (con d)" "live (con d) \<Longrightarrow> draws_in a b (con d) (f (con d)) \<and> same_cursor (con d) (f (con d))"
    and "\<not> live (con d) \<Longrightarrow> f (con d) = con d"
  shows "cons_safe d (upd_con f d)"
proof (cases "live (con d)")
  case True
  then have "cursor_ok (f (con d))"
    using assms cursor_ok_same [of "con d" "f (con d)"] by (auto simp: cons_inv_def draws_in_def)
  with True assms show ?thesis unfolding upd_con_def by (intro cons_safe_draw) auto
next
  case False
  with assms show ?thesis by (simp add: upd_con_def cons_safe_refl)
qed

lemma cons_shapes_safe:
  assumes "cons_inv (con d)"
  shows "cons_safe d (upd_con (cons_pixel x y rgb) d)" "cons_safe d (upd_con (cons_fill x y w h rgb) d)"
    "cons_safe d (upd_con (cons_blit x y w h px) d)"
proof -
  have g: "live (con d) \<Longrightarrow> grid_ok (con d)" using assms by (simp add: cons_inv_def)
  have pix: "draws_in 0 (unat (fb_h c)) c (cons_pixel x y rgb c)" for c
    by (auto simp: cons_pixel_def draws_in_def same_mode_def word_le_nat_alt not_le)
  show "cons_safe d (upd_con (cons_pixel x y rgb) d)"
    by (rule con_draw_safe [OF assms, where a = 0 and b = "unat (fb_h (con d))"]) (simp add: pix, simp add: cons_pixel_def)
  show "cons_safe d (upd_con (cons_fill x y w h rgb) d)"
    by (rule con_draw_safe [OF assms, where a = "unat y" and b = "unat (fb_h (con d))"])
       (simp_all add: cons_fill_def fill_rect_draws g)
  have bl: "draws_in (unat y) (unat (fb_h c)) c (cons_blit x y w h px c)" if g: "grid_ok c" for c
  proof (cases px)
    case (Some src)
    let ?x1 = "if x + w > fb_w c then fb_w c else x + w" and ?y1 = "if y + h > fb_h c then fb_h c else y + h"
    have "draws_in (unat y) (unat (fb_h c)) c (c\<lparr>cons_bb := raster 0 (unat (fb_stride c)) [unat y..<unat ?y1] [unat x..<unat ?x1]
               (\<lambda>yy xx. src ((yy - unat y) * unat w + (xx - unat x))) (cons_bb c)\<rparr>)"
      using raster_draws [OF g clip_u32_le clip_u32_le] by (rule draws_in_mono) (simp_all add: clip_u32_le)
    then show ?thesis by (simp add: cons_blit_def Let_def Some)
  qed (simp add: cons_blit_def)
  show "cons_safe d (upd_con (cons_blit x y w h px) d)"
    by (rule con_draw_safe [OF assms, where a = "unat y" and b = "unat (fb_h (con d))"])
       (simp add: bl g, simp add: cons_blit_def split: option.split)
qed

lemma cons_flags_safe:
  assumes "cons_inv (con d)"
  shows "cons_safe d (upd_con (cons_set_fg rgb) d)" "cons_safe d (upd_con (cons_status_tick t) d)"
    "cons_safe d (upd_con (cons_graphics on) d)" "cons_safe d (upd_con (cons_cursor_moved ox oy nx ny) d)"
    "cons_safe d (upd_con (cons_mark_dirty a b) d)"
  using assms
  by (auto simp: cons_safe_def upd_con_def cons_inv_def grid_ok_def cursor_ok_def cons_set_fg_def cons_status_tick_def
      cons_graphics_def cons_cursor_moved_def cursor_band_def cons_mark_dirty_def Let_def)

text \<open>C29.  Every console operation keeps the console invariant (valid geometry, cursor inside the
  text grid), leaves the windows and the mouse alone, and writes neither the 4 MB backbuffer nor the
  display outside its bounds; for every character, string, rectangle and image, clipped or not.\<close>

theorem cons_ops_safe:
  assumes "cons_inv (con d)"
    and "d' \<in> {cons_putc font ch d, cons_puts font cs d, cons_clear font d, cons_present font d,
               upd_con (cons_pixel x y rgb) d, upd_con (cons_fill x y w h rgb) d, upd_con (cons_blit x y w h px) d,
               upd_con (cons_set_fg rgb) d, upd_con (cons_status_tick t) d, upd_con (cons_graphics on) d,
               upd_con (cons_cursor_moved ox oy nx ny) d, upd_con (cons_mark_dirty a b) d}"
  shows "cons_inv (con d') \<and> wsys d' = wsys d \<and> mou d' = mou d \<and>
         (\<forall>k \<ge> CONS_BB_BYTES div 4. cons_bb (con d') k = cons_bb (con d) k \<and> fb_mem (con d') k = fb_mem (con d) k)"
proof -
  have "cons_safe d d'"
    using assms by (auto intro: cons_putc_safe cons_puts_safe cons_clear_safe' cons_present_safe cons_shapes_safe cons_flags_safe)
  then show ?thesis by (simp add: cons_safe_def)
qed

text \<open>When \<^verbatim>\<open>cons_init\<close> accepts a mode the console is live with a valid geometry (the
  mode fits the backbuffer, at least one column and one text row), whatever state it starts from.\<close>

theorem cons_init_ok:
  assumes "cons_init font addr pitch w h bpp d = (True, d')"
  shows "live (con d') \<and> cons_inv (con d') \<and> wsys d' = wsys d \<and> mou d' = mou d \<and>
     (\<forall>k \<ge> CONS_BB_BYTES div 4. cons_bb (con d') k = cons_bb (con d) k \<and> fb_mem (con d') k = fb_mem (con d) k)"
proof -
  let ?c0 = "(con d)\<lparr>fb_stride := pitch div 4, fb_w := w, fb_h := h, ncols := w div 8, nrows := h div 16\<rparr>"
  let ?c = "?c0\<lparr>nrows := nrows ?c0 - 1, fg_color := CONS_FG_DEF, live := True, status_drawn := 0xFFFFFFFF\<rparr>"
  have d': "d' = cons_clear font (d\<lparr>con := ?c\<rparr>)"
    and ck: "\<not> w > 4096" "\<not> h > 4096" "\<not> pitch < w * 4" "\<not> unat h * unat pitch > CONS_BB_BYTES"
      "\<not> w div 8 < 1" "\<not> h div 16 < 2"
    using assms by (auto simp: cons_init_def Let_def split: if_splits)
  have u: "unat w \<le> 4096" "unat h \<le> 4096" using ck(1,2) by (simp_all add: word_less_nat_alt)
  have p: "unat w * 4 \<le> unat pitch" using ck(3) u(1) by (simp add: word_less_nat_alt unat_word_ariths)
  have n: "1 \<le> unat w div 8" "2 \<le> unat h div 16" using ck(5,6) by (simp_all add: word_less_nat_alt unat_div)
  have nr: "unat (h div 16 - 1) = unat h div 16 - 1"
  proof -
    have "h div 16 \<noteq> 0" using n(2) by (auto simp: word_unat_eq_iff unat_div)
    then show ?thesis by (simp add: unat_minus_one unat_div)
  qed
  have st: "unat h * (unat pitch div 4) \<le> CONS_BB_BYTES div 4"
  proof -
    have "4 * (unat h * (unat pitch div 4)) \<le> unat h * unat pitch" by simp
    also have "\<dots> \<le> CONS_BB_BYTES" using ck(4) by simp
    finally show ?thesis by (simp add: CONS_BB_BYTES_def)
  qed
  have g: "grid_ok ?c" using u p n nr st by (auto simp: grid_ok_def unat_div)
  then have g': "grid_ok (con (d\<lparr>con := ?c\<rparr>))" and l: "live (con (d\<lparr>con := ?c\<rparr>))" by simp_all
  from cons_clear_safe [OF l g', of font] show ?thesis unfolding d' by (simp add: cons_safe_def)
qed

text \<open>Scrolling moves every text row up by one cell height, blanks the last text row, and
  leaves the status strip and everything below the text area as it was.\<close>

theorem scroll_up_shifts:
  assumes "grid_ok c" and "x < unat (fb_w c)"
  shows "cons_bb (scroll_up c) (y * unat (fb_stride c) + x) =
     (if y < unat (nrows c) * 16 - 16 then cons_bb c ((y + 16) * unat (fb_stride c) + x)
      else if y < unat (nrows c) * 16 then CONS_BG_DEF else cons_bb c (y * unat (fb_stride c) + x))"
  by (rule scroll_up_at [OF assms])


text \<open>Printing text never touches the status strip: as long as no strip redraw is pending,
  \<^verbatim>\<open>cons_putc\<close> and \<^verbatim>\<open>cons_puts\<close> change no pixel at or below the last text row.\<close>

theorem text_keeps_strip:
  assumes "cons_inv (con d)" and "status_want (con d) = status_drawn (con d)" and "d' = cons_putc font ch d \<or> d' = cons_puts font cs d"
    and "unat (nrows (con d)) * 16 \<le> y" and "x < unat (fb_w (con d))"
  shows "cons_bb (con d') (y * unat (fb_stride (con d)) + x) = cons_bb (con d) (y * unat (fb_stride (con d)) + x)"
proof -
  have pr: "cons_bb (con (cons_present font e)) = cons_bb (con e)" if "status_want (con e) = status_drawn (con e)" for e
    using that by (simp add: cons_present_def Let_def split: prod.splits)
  have keep: "cons_bb c (y * unat (fb_stride (con d)) + x) = cons_bb (con d) (y * unat (fb_stride (con d)) + x)"
    if "in_text (con d) c" "grid_ok (con d)" for c
  proof (rule ccontr)
    assume "\<not> ?thesis"
    with that(1) obtain y' x' where a: "y' < unat (nrows (con d)) * 16" "x' < unat (fb_w (con d))"
      "y * unat (fb_stride (con d)) + x = y' * unat (fb_stride (con d)) + x'" unfolding draws_in_def by blast
    have "unat (fb_w (con d)) \<le> unat (fb_stride (con d))" using that(2) by (simp add: grid_ok_def)
    with raster_addr_inj [of x "unat (fb_stride (con d))" x' 0 y y'] a assms(4,5) show False by auto
  qed
  have op: "cons_bb (con (cons_present font (d\<lparr>con := cursor_draw c1\<rparr>))) (y * unat (fb_stride (con d)) + x) =
      cons_bb (con d) (y * unat (fb_stride (con d)) + x)"
    if "live (con d)" "pen_step (cursor_erase (con d)) c1" for c1
  proof -
    have g: "grid_ok (con d)" "cursor_ok (con d)" using assms(1) that(1) by (auto simp: cons_inv_def)
    have e: "in_text (con d) (cursor_draw c1)" using erase_step_draw [OF g that(2)] by simp
    then have "status_want (cursor_draw c1) = status_drawn (cursor_draw c1)"
      using assms(2) by (simp add: draws_in_def same_mode_def)
    with pr [of "d\<lparr>con := cursor_draw c1\<rparr>"] keep [OF e g(1)] show ?thesis by simp
  qed
  have cr: "cons_bb ((cursor_erase (con d))\<lparr>cur_x := 0\<rparr>) (y * unat (fb_stride (con d)) + x) =
      cons_bb (con d) (y * unat (fb_stride (con d)) + x)" if "live (con d)"
    using keep [of "cursor_erase (con d)"] erase_pen [of "con d"] assms(1) that by (simp add: cons_inv_def)
  show ?thesis
  proof (cases "live (con d)")
    case True
    with assms(3) op [OF True pen_putc] op [OF True pen_puts] cr show ?thesis
      by (auto simp: cons_putc_eq cons_puts_def)
  next
    case False
    with assms(3) show ?thesis by (auto simp: cons_putc_def cons_puts_def)
  qed
qed

section \<open>Witnesses\<close>

text \<open>A 64 by 48 display: eight columns, two text rows and the strip.\<close>

definition sample_cons :: cons64 where
  "sample_cons = zero_cons\<lparr>fb_stride := 64, fb_w := 64, fb_h := 48, ncols := 8, nrows := 2, live := True\<rparr>"

definition cons_desk :: desk where
  "cons_desk = boot_desk\<lparr>con := sample_cons\<rparr>"

lemma sample_cons_inv: "cons_inv (con cons_desk)" "grid_ok sample_cons"
  by (simp_all add: cons_desk_def sample_cons_def zero_cons_def cons_inv_def grid_ok_def cursor_ok_def CONS_BB_BYTES_def)

lemma cons_ops_safe_witness: "cons_inv (con (cons_putc (\<lambda>_ _. 0) 65 cons_desk))"
  using cons_ops_safe [OF sample_cons_inv(1), of "cons_putc (\<lambda>_ _. 0) 65 cons_desk" "\<lambda>_ _. 0" 65] by simp

lemma cons_init_ok_witness: "cons_inv (con (snd (cons_init (\<lambda>_ _. 0) 0xE0000000 256 64 48 32 boot_desk)))"
proof -
  have "fst (cons_init (\<lambda>_ _. 0) 0xE0000000 256 64 48 32 boot_desk)"
    by (simp add: cons_init_def vmm_is_canonical_def drop_bit_eq_div Let_def CONS_BB_BYTES_def)
  then show ?thesis
    using cons_init_ok [of "\<lambda>_ _. 0" "0xE0000000" 256 64 48 32 boot_desk
      "snd (cons_init (\<lambda>_ _. 0) 0xE0000000 256 64 48 32 boot_desk)"] by (simp add: prod_eq_iff)
qed

lemma scroll_up_shifts_witness: "cons_bb (scroll_up sample_cons) (20 * unat (fb_stride sample_cons) + 5) = CONS_BG_DEF"
  using scroll_up_shifts [OF sample_cons_inv(2), of 5 20] by (simp add: sample_cons_def)


lemma text_keeps_strip_witness: "cons_bb (con (cons_putc (\<lambda>_ _. 0) 65 cons_desk)) (40 * 64 + 3) = 0"
  using text_keeps_strip [OF sample_cons_inv(1), of "cons_putc (\<lambda>_ _. 0) 65 cons_desk" "\<lambda>_ _. 0" 65 "[]" 40 3]
  by (simp add: cons_desk_def sample_cons_def zero_cons_def)

end
