(* ===== verification/Fb_Proofs.thy ===== *)
theory Fb_Proofs
  imports Fb Loader_Proofs Cons_Proofs
begin

text \<open>
  Mapping the screen into a task is all or nothing, and giving it back undoes it.
\<close>

section \<open>Mapping with rollback\<close>

lemma map_page_failed:
  assumes ok: "space_ok root s" and m: "vmm_map_page_inner va pa flags s = (r, s')" "r \<noteq> 0"
  shows "space_ok root s' \<and> (\<forall>va'. walk s' 3 root va' = walk s 3 root va')"
proof -
  have "space_kept (vmm_root s) s s'" using map_page_cases [of s va pa flags r s'] ok m by (auto simp: space_ok_def)
  then show ?thesis using ok by (auto simp: space_ok_def space_kept_def)
qed

lemma unmap_page_walk:
  assumes ok: "space_ok root s" and w: "walk s 3 root va = Some (0, e)" and c: "vmm_is_canonical va" "va AND 0xFFF = 0"
  shows "\<exists>s'. vmm_unmap_page_inner va s = (0, s') \<and> space_ok root s' \<and>
    (\<forall>va'. walk s' 3 root va' = (if page_key va' = page_key va then None else walk s 3 root va'))"
proof -
  obtain pt where p: "pt_path s root (vpath va) pt" "phys s pt (pidx 12 va) = e" "bit e 0" by (rule walk_leaf_path [OF w])
  have l: "length (vpath va) = 3" by (simp add: vpath_def)
  have inv: "pmm_inv s" "pt_tree s root" "vmm_root s = root" using ok by (auto simp: space_ok_def)
  have "vmm_unmap_page_inner va s = (0, set_entry pt (pidx 12 va) 0 s)"
    using p c inv(3) by (simp add: unmap_page_cases pt_path_vpath_iff)
  moreover have "space_ok root (set_entry pt (pidx 12 va) 0 s)"
    using inv leaf_write_tree [OF inv(2) p(1) l] by (simp add: space_ok_def)
  moreover have "walk (set_entry pt (pidx 12 va) 0 s) 3 root va' = (if page_key va' = page_key va then None else walk s 3 root va')" for va'
    using leaf_write_walk [OF inv(2) p(1) l, of "pidx 12 va" 0 va'] by (simp add: page_key_def)
  ultimately show ?thesis by blast
qed

lemma map_page_live:
  assumes "space_ok root s" "vmm_map_page_inner va pa flags s = (r, s')"
  shows "live_root s' = live_root s"
  using map_page_cases [of s va pa flags r s'] assms by (auto simp: space_ok_def space_kept_def live_root_def)

lemma unmap_page_live: "live_root (snd (vmm_unmap_page_inner va s)) = live_root s"
  by (simp add: unmap_page_cases live_root_def split: option.splits)

lemma map_page_args: "vmm_map_page_inner va pa flags s = (0, s') \<Longrightarrow> vmm_is_canonical va \<and> va AND 0xFFF = 0"
  by (auto simp: vmm_map_page_inner_def split: if_splits)

text \<open>\<open>fb_part root W fl pa S m\<close>: the framebuffer pages \<open>S\<close> are mapped in \<open>m\<close>, and apart
  from them the space walks like \<open>W\<close>, in which they were absent.\<close>

definition fb_part :: "u64 \<Rightarrow> (u64 \<Rightarrow> (nat \<times> u64) option) \<Rightarrow> u64 \<Rightarrow> u64 \<Rightarrow> nat set \<Rightarrow> mem64 \<Rightarrow> bool" where
  "fb_part root W fl pa S m \<longleftrightarrow> space_ok root m \<and> live_root m = root \<and> inj_on (\<lambda>k. page_key (fb_va k)) S \<and>
     (\<forall>k \<in> S. vmm_is_canonical (fb_va k) \<and> fb_va k AND 0xFFF = 0 \<and>
        (\<forall>va. page_key va = page_key (fb_va k) \<longrightarrow> W va = None \<and> walk m 3 root va = Some (0, leaf_entry (pa + of_nat k * 4096) fl))) \<and>
     (\<forall>va. (\<forall>k \<in> S. page_key va \<noteq> page_key (fb_va k)) \<longrightarrow> walk m 3 root va = W va)"

lemma fb_partD:
  assumes "fb_part root W fl pa S m"
  shows "space_ok root m" "pt_tree m root" "live_root m = root"
    "k \<in> S \<Longrightarrow> vmm_is_canonical (fb_va k) \<and> fb_va k AND 0xFFF = 0"
    "k \<in> S \<Longrightarrow> page_key va = page_key (fb_va k) \<Longrightarrow> W va = None \<and> walk m 3 root va = Some (0, leaf_entry (pa + of_nat k * 4096) fl)"
    "(\<And>k. k \<in> S \<Longrightarrow> page_key va \<noteq> page_key (fb_va k)) \<Longrightarrow> walk m 3 root va = W va"
  using assms unfolding fb_part_def space_ok_def by blast+

lemma fb_part_empty: "space_ok root m \<Longrightarrow> live_root m = root \<Longrightarrow> fb_part root (walk m 3 root) fl pa {} m"
  by (simp add: fb_part_def)

lemma fb_part_map:
  assumes p: "fb_part root W fl pa S m" and i: "i \<notin> S"
    and m: "vmm_map_page_inner (fb_va i) (pa + of_nat i * 4096) fl m = (0, m')"
  shows "fb_part root W fl pa (insert i S) m'"
proof -
  note mp = map_page_walk [OF fb_partD(1) [OF p] m]
  have w: "walk m' 3 root va = (if page_key va = page_key (fb_va i) then Some (0, leaf_entry (pa + of_nat i * 4096) fl) else walk m 3 root va)" for va
    using mp by blast
  have none: "walk m 3 root va = None" if "page_key va = page_key (fb_va i)" for va
    using page_key_walk [OF that fb_partD(2) [OF p]] mp by simp
  have new: "page_key (fb_va k) \<noteq> page_key (fb_va i)" if "k \<in> S" for k
    using fb_partD(5) [OF p that refl] none [of "fb_va k"] by auto
  have Wi: "W va = None" if "page_key va = page_key (fb_va i)" for va
    using fb_partD(6) [OF p, of va] none [OF that] new that by metis
  have "inj_on (\<lambda>k. page_key (fb_va k)) (insert i S)"
    using p new i unfolding fb_part_def inj_on_def by (metis insert_iff)
  moreover have "walk m' 3 root va = Some (0, leaf_entry (pa + of_nat k * 4096) fl)" if "k \<in> S" "page_key va = page_key (fb_va k)" for k va
    using w [of va] that new [of k] fb_partD(5) [OF p that] by simp
  ultimately show ?thesis
    unfolding fb_part_def using mp map_page_args [OF m] map_page_live [OF fb_partD(1) [OF p] m] w Wi fb_partD(3,4,5,6) [OF p] by simp
qed

lemma fb_part_unmap:
  assumes p: "fb_part root W fl pa S m" and i: "i \<in> S"
  shows "fb_part root W fl pa (S - {i}) (fb_unmap_one i m)"
proof -
  have c: "vmm_is_canonical (fb_va i)" "fb_va i AND 0xFFF = 0" using fb_partD(4) [OF p i] by auto
  have wi: "walk m 3 root (fb_va i) = Some (0, leaf_entry (pa + of_nat i * 4096) fl)" using fb_partD(5) [OF p i refl] by simp
  obtain m' where u: "vmm_unmap_page_inner (fb_va i) m = (0, m')" and ok': "space_ok root m'"
    and w: "\<And>va. walk m' 3 root va = (if page_key va = page_key (fb_va i) then None else walk m 3 root va)"
    using unmap_page_walk [OF fb_partD(1) [OF p] wi c] by blast
  have new: "page_key (fb_va k) \<noteq> page_key (fb_va i)" if "k \<in> S" "k \<noteq> i" for k
    using p that i unfolding fb_part_def inj_on_def by metis
  have "walk m' 3 root va = Some (0, leaf_entry (pa + of_nat k * 4096) fl)" if "k \<in> S - {i}" "page_key va = page_key (fb_va k)" for k va
    using w [of va] that new [of k] fb_partD(5) [OF p, of k va] by simp
  moreover have "walk m' 3 root va = W va" if "\<forall>k \<in> S - {i}. page_key va \<noteq> page_key (fb_va k)" for va
    using w [of va] fb_partD(5) [OF p i, of va] fb_partD(6) [OF p, of va] that by auto
  moreover have "inj_on (\<lambda>k. page_key (fb_va k)) (S - {i})" using p by (auto simp: fb_part_def inj_on_diff)
  ultimately have "fb_part root W fl pa (S - {i}) m'"
    unfolding fb_part_def using ok' fb_partD(3,4,5) [OF p] unmap_page_live [of "fb_va i" m] by (auto simp: u)
  then show ?thesis by (simp add: fb_unmap_one_def u)
qed

lemma fb_part_undo:
  "fb_part root W fl pa (set ks) m \<Longrightarrow> distinct ks \<Longrightarrow> fb_part root W fl pa {} (fold fb_unmap_one ks m)"
  using fb_part_unmap by (induction ks arbitrary: m) fastforce+

lemma fb_map_loop_part:
  assumes "fb_part root W fl pa {..<i} m" "fb_map_loop fl pa n i m = (ok, m')"
  shows "fb_part root W fl pa (if ok then {..<i + n} else {}) m'"
  using assms
proof (induction n arbitrary: i m)
  case (Suc n)
  obtain r m1 where m1: "vmm_map_page_inner (fb_va i) (pa + of_nat i * 4096) fl m = (r, m1)" by fastforce
  show ?case
  proof (cases "r = 0")
    case True
    have "fb_part root W fl pa {..<Suc i} m1"
      using fb_part_map [OF Suc.prems(1) _ m1 [unfolded True]] by (simp add: lessThan_Suc)
    from Suc.IH [OF this] show ?thesis using Suc.prems(2) m1 True by (simp split: if_splits)
  next
    case False
    note f = map_page_failed [OF fb_partD(1) [OF Suc.prems(1)] m1 False] map_page_live [OF fb_partD(1) [OF Suc.prems(1)] m1]
    then have "fb_part root W fl pa (set (rev [0..<i])) m1"
      using Suc.prems(1) unfolding fb_part_def by (simp add: atLeast0LessThan)
    then show ?thesis using fb_part_undo [of root W fl pa "rev [0..<i]" m1] Suc.prems(2) m1 False by simp
  qed
qed simp

lemma space_ok_root: "pmm_inv m \<Longrightarrow> pt_tree m root \<Longrightarrow> space_ok root (m\<lparr>mem_locked := l, vmm_root := root\<rparr>)"
  unfolding space_ok_def pmm_inv_def pt_tree_def pt_path_def tab_at_phys_cong [of "m\<lparr>mem_locked := l, vmm_root := root\<rparr>" m, simplified]
  by (simp add: free_set_def frame_used_def)

lemma walk_regs [simp]:
  "walk (m\<lparr>vmm_root := r\<rparr>) l t va = walk m l t va" "walk (mem_lock_release m) l t va = walk m l t va"
  "walk (m\<lparr>mem_locked := x\<rparr>) l t va = walk m l t va"
  by (rule walk_phys_cong, simp add: mem_lock_release_def)+

text \<open>The call on a free screen: the loop decides.\<close>

lemma fb_map_current_run:
  assumes "\<not> mem_locked m" "\<not> fb_absent b" "fb_owner b = None"
    "fb_map_loop (fb_flags m) (g_fb_addr b AND NOT 0xFFF) (fb_npg b) 0 (m\<lparr>mem_locked := True, vmm_root := live_root m\<rparr>) = (ok, m2)"
  shows "fb_map_current (Some t) (b, m, d) =
    (if ok then (Val FB_USER_BASE, (b\<lparr>fb_owner := Some t\<rparr>, mem_lock_release (m2\<lparr>vmm_root := vmm_root m\<rparr>), d\<lparr>con := cons_graphics True (con d)\<rparr>))
     else (Err (-12), (b, mem_lock_release (m2\<lparr>vmm_root := vmm_root m\<rparr>), d)))"
  using assms by (simp add: fb_map_current_def mem_lock_acquire_def fb_flags_def live_root_def)

lemma fb_map_loop_live:
  assumes "pmm_inv m" "pt_tree m (live_root m)"
    "fb_map_loop fl pa n 0 (m\<lparr>mem_locked := True, vmm_root := live_root m\<rparr>) = (ok, m2)"
  shows "fb_part (live_root m) (walk m 3 (live_root m)) fl pa (if ok then {..<n} else {}) m2"
proof -
  let ?m = "m\<lparr>mem_locked := True, vmm_root := live_root m\<rparr>"
  have "fb_part (live_root m) (walk ?m 3 (live_root m)) fl pa {..<0} ?m"
    using fb_part_empty [OF space_ok_root [OF assms(1,2)]] by (simp add: live_root_def)
  moreover have "walk ?m 3 (live_root m) = walk m 3 (live_root m)" by (rule ext) simp
  ultimately have "fb_part (live_root m) (walk m 3 (live_root m)) fl pa {..<0} ?m" by simp
  from fb_map_loop_part [OF this assms(3)] show ?thesis by (cases ok) simp_all
qed

text \<open>C37.  Mapping the framebuffer is all or nothing: either every page of it appears in the caller's
  space, uncached, at the fixed address, pages that were present are untouched, the caller owns the
  screen and the console is in graphics mode; or no page of the space has changed and neither have
  owner and console.\<close>

theorem fb_map_all_or_nothing:
  assumes "pmm_inv m" and "pt_tree m (live_root m)" and "\<not> mem_locked m" and "\<not> fb_absent b" and "fb_owner b = None"
  shows "\<exists>r b' m' d'. fb_map_current (Some t) (b, m, d) = (r, (b', m', d')) \<and> \<not> mem_locked m' \<and> vmm_root m' = vmm_root m \<and>
    (r = Val FB_USER_BASE \<and> b' = b\<lparr>fb_owner := Some t\<rparr> \<and> gfx_on (con d') \<and>
       (\<forall>k < fb_npg b. walk m 3 (live_root m) (fb_va k) = None \<and>
          walk m' 3 (live_root m) (fb_va k) = Some (0, leaf_entry ((g_fb_addr b AND NOT 0xFFF) + of_nat k * 4096) (fb_flags m))) \<and>
       (\<forall>va. walk m 3 (live_root m) va \<noteq> None \<longrightarrow> walk m' 3 (live_root m) va = walk m 3 (live_root m) va) \<or>
     r = Err (-12) \<and> b' = b \<and> d' = d \<and> (\<forall>va. walk m' 3 (live_root m) va = walk m 3 (live_root m) va))"
proof -
  let ?root = "live_root m" and ?pa = "g_fb_addr b AND NOT 0xFFF" and ?fl = "fb_flags m"
  obtain ok m2 where l: "fb_map_loop ?fl ?pa (fb_npg b) 0 (m\<lparr>mem_locked := True, vmm_root := ?root\<rparr>) = (ok, m2)" by fastforce
  note p = fb_map_loop_live [OF assms(1,2) l]
  note run = fb_map_current_run [OF assms(3-5) l, of t d]
  show ?thesis
  proof (cases ok)
    case True
    have "walk m2 3 ?root va = walk m 3 ?root va" if "walk m 3 ?root va \<noteq> None" for va
      using fb_partD(5) [OF p, where va = va] fb_partD(6) [OF p, of va] that by metis
    with fb_partD(5) [OF p _ refl] run True show ?thesis
      by (simp add: mem_lock_release_def cons_graphics_def)
  next
    case False
    with fb_partD(6) [OF p] run show ?thesis by (simp add: mem_lock_release_def)
  qed
qed

text \<open>A task that maps the screen and gives it back leaves its address space, the owner and
  \<^verbatim>\<open>vmm_root\<close> as they were, and the console is in text mode.\<close>

theorem fb_map_unmap_restores:
  assumes "pmm_inv m" and "pt_tree m (live_root m)" and "\<not> mem_locked m" and "\<not> fb_absent b" and "fb_owner b = None"
    and "fb_map_current (Some t) (b, m, d) = (Val FB_USER_BASE, (b1, m1, da))"
  shows "\<exists>m2 db. fb_unmap_current font (Some t) (b1, m1, da) = (Val (), (b, m2, db)) \<and>
    (\<forall>va. walk m2 3 (live_root m) va = walk m 3 (live_root m) va) \<and> vmm_root m2 = vmm_root m \<and> db = text_restore font da"
proof -
  let ?root = "live_root m" and ?pa = "g_fb_addr b AND NOT 0xFFF" and ?fl = "fb_flags m"
  obtain ok ma where l: "fb_map_loop ?fl ?pa (fb_npg b) 0 (m\<lparr>mem_locked := True, vmm_root := ?root\<rparr>) = (ok, ma)" by fastforce
  have ok and m1: "m1 = mem_lock_release (ma\<lparr>vmm_root := vmm_root m\<rparr>)" and b1: "b1 = b\<lparr>fb_owner := Some t\<rparr>"
    using fb_map_current_run [OF assms(3-5) l, of t d] assms(6) by (auto split: if_splits)
  then have p: "fb_part ?root (walk m 3 ?root) ?fl ?pa {..<fb_npg b} ma" using fb_map_loop_live [OF assms(1,2) l] by simp
  let ?m = "m1\<lparr>mem_locked := True, vmm_root := live_root m1\<rparr>"
  have lr: "live_root m1 = ?root" using fb_partD(3) [OF p] by (simp add: m1 live_root_def mem_lock_release_def)
  have inv: "pmm_inv m1" "pt_tree m1 ?root"
    using fb_partD(1) [OF p] space_ok_root [of ma ?root False] unfolding space_ok_def m1 mem_lock_release_def
    by (auto simp: pmm_inv_def free_set_def frame_used_def pt_tree_def pt_path_def
      tab_at_phys_cong [of "ma\<lparr>vmm_root := vmm_root m, mem_locked := False\<rparr>" ma, simplified])
  have w1: "walk ?m 3 ?root va = walk ma 3 ?root va" for va by (rule walk_phys_cong) (simp add: m1 mem_lock_release_def)
  have "space_ok ?root ?m" using space_ok_root [OF inv] by (simp add: lr)
  then have "fb_part ?root (walk m 3 ?root) ?fl ?pa (set [0..<fb_npg b]) ?m"
    using p w1 lr unfolding fb_part_def by (simp add: atLeast0LessThan live_root_def)
  from fb_part_undo [OF this]
  have u: "fb_part ?root (walk m 3 ?root) ?fl ?pa {} (fold fb_unmap_one [0..<fb_npg b] ?m)" by simp
  have n: "fb_npg b1 = fb_npg b" by (simp add: b1 fb_npg_def fb_size_def)
  have "fb_unmap_current font (Some t) (b1, m1, da) =
    (Val (), (b, mem_lock_release ((fold fb_unmap_one [0..<fb_npg b] ?m)\<lparr>vmm_root := vmm_root m\<rparr>), text_restore font da))"
    using assms(5) n by (simp add: fb_unmap_current_def mem_lock_acquire_def m1 b1 mem_lock_release_def live_root_def)
  with fb_partD(6) [OF u] show ?thesis by (simp add: mem_lock_release_def)
qed

section \<open>An example\<close>

definition sample_fb :: fbsys where
  "sample_fb = \<lparr>fb_owner = None, g_fb_addr = 0xE0000000, g_fb_pitch = 256, g_fb_w = 64, g_fb_h = 16, g_fb_bpp = 32\<rparr>"

lemma sample_fb_geo: "\<not> fb_absent sample_fb" "fb_owner sample_fb = None" "fb_npg sample_fb = 1" "live_root sample_space = 0x100000"
  by (simp_all add: sample_fb_def fb_absent_def fb_npg_def fb_size_def live_root_def sample_space_fields)

lemma fb_pidx: "pidx 12 FB_USER_BASE = 0" "pidx 21 FB_USER_BASE = 0" "pidx 30 FB_USER_BASE = 256" "pidx 39 FB_USER_BASE = 0"
  "vmm_is_canonical FB_USER_BASE" "FB_USER_BASE AND 0xFFF = 0"
  by (simp_all add: FB_USER_BASE_def pidx_def vmm_is_canonical_def drop_bit_eq_div)

lemma Min_interval: "a < b \<Longrightarrow> Min {a..<b::nat} = a"
  by (rule Min_eqI) auto

lemma alloc_interval:
  assumes "free_set s = {a..<b}" "a < b"
  shows "pmm_alloc_inner s = (of_nat a * 4096, take_frame a s)" "free_set (take_frame a s) = {Suc a..<b}"
proof -
  have "{a..<b} \<noteq> {}" using assms(2) by simp
  then show "pmm_alloc_inner s = (of_nat a * 4096, take_frame a s)"
    unfolding pmm_alloc_inner_eq assms(1) Min_interval [OF assms(2)] by (simp only: if_False)
  show "free_set (take_frame a s) = {Suc a..<b}" unfolding free_set_take assms(1) by auto
qed

lemma next_tab_fresh:
  assumes "phys s tab i = 0" "free_set s = {a..<b}" "a < b" "of_nat a * 4096 \<noteq> (0 :: u64)"
  shows "next_tab tab i ifl s = (of_nat a * 4096, set_entry tab i (of_nat a * 4096 OR ifl) (take_frame a s))"
  unfolding next_tab_def Let_def assms(1) alloc_interval(1) [OF assms(2,3)] using assms(4) by simp

lemma sample_fb_map:
  "\<exists>m'. vmm_map_page_inner FB_USER_BASE 0xE0000000 15 (sample_space\<lparr>mem_locked := True, vmm_root := 0x100000\<rparr>) = (0, m')"
proof -
  let ?s = "sample_space\<lparr>mem_locked := True, vmm_root := 0x100000\<rparr>"
  let ?ifl = "PTE_P OR PTE_RW OR PTE_US"
  have f: "free_set ?s = {512..<516}" using sample_space_fields free_set_cong [of ?s sample_space] by simp
  have n1: "next_tab 0x100000 0 ?ifl ?s = (0x101000, ?s)" by (simp add: next_tab_def Let_def sample_facts)
  define s1 where "s1 = set_entry 0x101000 256 (0x200000 OR ?ifl) (take_frame 512 ?s)"
  have n2: "next_tab 0x101000 256 ?ifl ?s = (0x200000, s1)"
    using next_tab_fresh [OF _ f, of "0x101000" 256 ?ifl] by (simp add: sample_facts s1_def)
  have f1: "free_set s1 = {513..<516}"
    using alloc_interval(2) [OF f] free_set_cong [of s1 "take_frame 512 ?s"] by (simp add: s1_def)
  define s2 where "s2 = set_entry 0x200000 0 (0x201000 OR ?ifl) (take_frame 513 s1)"
  have z1: "phys s1 0x200000 0 = 0" by (simp add: s1_def take_frame_def)
  have n3: "next_tab 0x200000 0 ?ifl s1 = (0x201000, s2)"
    using next_tab_fresh [OF z1 f1, of ?ifl] by (simp add: s2_def)
  have z2: "phys s2 0x201000 0 = 0" by (simp add: s2_def take_frame_def)
  have "vmm_map_page_inner FB_USER_BASE 0xE0000000 15 ?s = (0, set_entry 0x201000 0 (leaf_entry 0xE0000000 15) s2)"
    unfolding vmm_map_page_inner_def fb_pidx Let_def using n1 n2 n3 z2 sample_space_fields(3) fb_pidx(5,6)
    by (simp add: VMM_US_def VMM_NX_def)
  then show ?thesis by blast
qed

lemma sample_fb_flags: "fb_flags sample_space = 15"
  by (simp add: fb_flags_def sample_space_fields VMM_RW_def VMM_US_def VMM_UC_def VMM_NX_def)

lemma sample_fb_mapped: "\<exists>b m d. fb_map_current (Some 3) (sample_fb, sample_space, cons_desk) = (Val FB_USER_BASE, (b, m, d))"
proof -
  obtain m' where "fb_map_loop 15 0xE0000000 1 0 (sample_space\<lparr>mem_locked := True, vmm_root := 0x100000\<rparr>) = (True, m')"
    using sample_fb_map by (auto simp: fb_va_def)
  then show ?thesis
    using fb_map_current_run [OF sample_space_fields(4) sample_fb_geo(1,2), of True m' 3 cons_desk] sample_fb_flags sample_fb_geo
    by (simp add: sample_fb_def)
qed

lemmas sample_fb_ok = sample_space_fields(5) sample_tree [folded sample_fb_geo(4)] sample_space_fields(4) sample_fb_geo(1,2)

lemma fb_map_all_or_nothing_witness:
  "\<exists>b m d. fb_map_current (Some 3) (sample_fb, sample_space, cons_desk) = (Val FB_USER_BASE, (b, m, d)) \<and> fb_owner b = Some 3 \<and>
     walk m 3 0x100000 FB_USER_BASE = Some (0, leaf_entry 0xE0000000 15)"
proof -
  obtain b m d where "fb_map_current (Some 3) (sample_fb, sample_space, cons_desk) = (Val FB_USER_BASE, (b, m, d))"
    using sample_fb_mapped by blast
  then show ?thesis
    using fb_map_all_or_nothing [OF sample_fb_ok, of 3 cons_desk] sample_fb_geo(3,4) sample_fb_flags
    by (auto simp: fb_va_def) (simp_all add: sample_fb_def)
qed

lemma fb_map_unmap_restores_witness:
  "\<exists>b m d m2 db. fb_map_current (Some 3) (sample_fb, sample_space, cons_desk) = (Val FB_USER_BASE, (b, m, d)) \<and>
     fb_unmap_current (\<lambda>_ _. 0) (Some 3) (b, m, d) = (Val (), (sample_fb, m2, db)) \<and> walk m2 3 0x100000 0x5000 = walk sample_space 3 0x100000 0x5000"
proof -
  obtain b m d where r: "fb_map_current (Some 3) (sample_fb, sample_space, cons_desk) = (Val FB_USER_BASE, (b, m, d))"
    using sample_fb_mapped by blast
  from fb_map_unmap_restores [OF sample_fb_ok r, of "\<lambda>_ _. 0"] r sample_fb_geo(4) show ?thesis by auto
qed

end
