(* ===== verification/Fork.thy ===== *)
theory Fork
  imports Sched_Block Fb_Proofs
begin

text \<open>
  What a fork copies, and how page faults fill the heap.
\<close>

section \<open>Fork\<close>

lemma of_nat_u64_inj: "(of_nat a :: u64) = of_nat b \<Longrightarrow> a < 2 ^ 64 \<Longrightarrow> b < 2 ^ 64 \<Longrightarrow> a = b"
proof -
  assume e: "(of_nat a :: u64) = of_nat b" and l: "a < 2 ^ 64" "b < 2 ^ 64"
  have "unat (of_nat c :: u64) = c" if "c < 2 ^ 64" for c
    using that by (simp add: unsigned_of_nat take_bit_nat_eq_self)
  with e l show ?thesis by metis
qed

lemma put_words_other: "(\<And>j. j < length ws \<Longrightarrow> x \<noteq> a + of_nat (j * 8)) \<Longrightarrow> put_words a ws m x = m x"
proof (induction ws arbitrary: a m)
  case (Cons w ws)
  have "x \<noteq> a" using Cons.prems [of 0] by simp
  moreover have "x \<noteq> a + 8 + of_nat (j * 8)" if "j < length ws" for j using Cons.prems [of "Suc j"] that by (simp add: add.assoc)
  ultimately show ?case using Cons.IH by simp
qed simp

lemma put_words_at: "j < length ws \<Longrightarrow> length ws \<le> 4096 \<Longrightarrow> put_words a ws m (a + of_nat (j * 8)) = ws ! j"
proof (induction ws arbitrary: a m j)
  case (Cons w ws)
  show ?case
  proof (cases j)
    case 0
    have "put_words (a + 8) ws (m(a := w)) a = (m(a := w)) a"
    proof (rule put_words_other)
      fix j assume "j < length ws"
      then have "Suc j * 8 < 2 ^ 64" "Suc j * 8 \<noteq> 0" using Cons.prems(2) by simp_all
      then have "(of_nat (Suc j * 8) :: u64) \<noteq> of_nat 0" using of_nat_u64_inj [of "Suc j * 8" 0] by auto
      then show "a \<noteq> a + 8 + of_nat (j * 8)" by (simp add: add.assoc)
    qed
    then show ?thesis using 0 by simp
  next
    case (Suc i)
    have "a + of_nat (j * 8) = a + 8 + of_nat (i * 8)" using Suc by (simp add: algebra_simps)
    moreover have "put_words (a + 8) ws (m(a := w)) (a + 8 + of_nat (i * 8)) = ws ! i"
      using Cons.prems Suc by (intro Cons.IH) simp_all
    ultimately show ?thesis unfolding put_words.simps using Suc by (simp only: nth_Cons_Suc)
  qed
qed simp

lemma on_mem_keeps:
  assumes "on_mem me f k = (Val a, k')"
  shows "tasks k' = tasks k" "idle_tasks k' = idle_tasks k" "cur_cpu k' = cur_cpu k" "kmem k' = kmem k" "fpu_of k' = fpu_of k" "fsys k' = fsys k"
  using assms by (auto simp: on_mem_def split: option.splits)

lemma alloc_slot_SomeD:
  assumes "alloc_slot L me name k = (Val (Some i), k')"
  shows "1 \<le> i" "i < NTASK" "tstate (tasks k i) = T_FREE" "kmem k' = kmem k" "fpu_of k' = (fpu_of k)(me := fninit L (fpu_of k me))"
    "tstate (tasks k' i) = T_NEW" "kstack_top (tasks k' i) = kstacks L + of_nat (Suc i) * KSTACK_SIZE" "tid (tasks k' i) = int i"
    "j \<noteq> i \<Longrightarrow> tasks k' j = tasks k j" "idle_tasks k' = idle_tasks k" "cur_cpu k' = cur_cpu k"
    "fx (tasks k' i) = fninit L (fpu_of k me)" "fsys k' = empty_fds i (fsys k)"
proof -
  have sc: "scan (\<lambda>i. tstate (tasks k i) = T_FREE) 1 NTASK = Some i"
    using assms by (simp add: alloc_slot_def split: option.splits)
  show "1 \<le> i" "i < NTASK" "tstate (tasks k i) = T_FREE" using scan_SomeD [OF sc] by simp_all
  have k': "k' = fx_init L me (Slot i)
             (k\<lparr>tasks := (tasks k)(i := (tasks k i)\<lparr>tid := int i, tstate := T_NEW, trsp := 0, user_base := 0, tcr3 := 0,
                  kstack_top := kstacks L + of_nat (Suc i) * KSTACK_SIZE, parent := -1, waiting_for := -2, wakeup_tick := 0,
                  exit_code := 0, last_cpu := -1, heap_base := 0, heap_brk := 0, tname := name15 name\<rparr>),
                fsys := empty_fds i (fsys k)\<rparr>)"
    using assms unfolding alloc_slot_def sc option.case prod.inject by (elim conjE) (rule sym)
  show "kmem k' = kmem k" "fpu_of k' = (fpu_of k)(me := fninit L (fpu_of k me))" "idle_tasks k' = idle_tasks k" "cur_cpu k' = cur_cpu k"
    "tstate (tasks k' i) = T_NEW" "kstack_top (tasks k' i) = kstacks L + of_nat (Suc i) * KSTACK_SIZE" "tid (tasks k' i) = int i"
    "j \<noteq> i \<Longrightarrow> tasks k' j = tasks k j"
    "fx (tasks k' i) = fninit L (fpu_of k me)" "fsys k' = empty_fds i (fsys k)"
    by (simp_all add: k' fx_init_def Let_def upd_task_def)
qed

text \<open>What a successful fork leaves behind.\<close>

lemma fork_run:
  assumes f: "task64_fork L me r k = (Val i, k')" and c: "cur_cpu k me = Some (Slot p)" and p: "tstate (tasks k p) \<noteq> T_FREE"
  obtains k4 where "k' = upd_task (Slot i) (\<lambda>u. if tstate u = T_NEW then u\<lparr>tstate := T_READY\<rparr> else u) (fork_stack me (Slot p) i r k4)"
    "i \<noteq> p" "1 \<le> i" "i < NTASK" "kmem k4 = kmem k" "fpu_of k4 me = fninit L (fpu_of k me)" "tasks k4 p = tasks k p"
    "kstack_top (tasks k4 i) = kstacks L + of_nat (Suc i) * KSTACK_SIZE" "tstate (tasks k4 i) = T_NEW" "parent (tasks k4 i) = tid (tasks k p)"
    "fsys k4 = fd_inherit (Some i) (Some p) (empty_fds i (fsys k))"
proof -
  let ?u = "task_of (Slot p) k"
  let ?f = "\<lambda>child u. u\<lparr>tcr3 := child, parent := tid ?u, user_base := user_base ?u, heap_base := heap_base ?u, heap_brk := heap_brk ?u\<rparr>"
  let ?tail = "\<lambda>i. seq (on_files (fd_inherit (Some i) (Some (tno (Slot p))))) (\<lambda>_.
      seq (modify (fork_stack me (Slot p) i r)) (\<lambda>_. seq (task_publish i) (\<lambda>_. ret i)))"
  let ?body = "\<lambda>i. seq (clone_of me (tcr3 ?u)) (\<lambda>child.
      if child = 0 then seq (task_unreserve i) (\<lambda>_. fail (-12)) else seq (set_slot i (?f child)) (\<lambda>_. ?tail i))"
  have "seq (alloc_slot L me (tname ?u)) (\<lambda>t. case t of None \<Rightarrow> fail (-12) | Some i \<Rightarrow> ?body i) k = (Val i, k')"
    using f unfolding task64_fork_def seq_simps c option.case .
  then obtain t k1 where a: "alloc_slot L me (tname ?u) k = (Val t, k1)"
    and rest: "(case t of None \<Rightarrow> fail (-12) | Some i \<Rightarrow> ?body i) k1 = (Val i, k')" by (rule seq_ValE)
  obtain j where t: "t = Some j" using rest by (cases t) auto
  note al = alloc_slot_SomeD [OF a [unfolded t]]
  from rest have "?body j k1 = (Val i, k')" unfolding t option.case .
  then obtain child k2 where cl: "clone_of me (tcr3 ?u) k1 = (Val child, k2)"
    and rest2: "(if child = 0 then seq (task_unreserve j) (\<lambda>_. fail (-12)) else seq (set_slot j (?f child)) (\<lambda>_. ?tail j)) k2 = (Val i, k')"
    by (rule seq_ValE)
  note om = on_mem_keeps [OF cl [unfolded clone_of_def]]
  let ?k4 = "(upd_task (Slot j) (?f child) k2)\<lparr>fsys := fd_inherit (Some j) (Some p) (fsys k2)\<rparr>"
  have ch: "child \<noteq> 0" using rest2 by (auto simp: task_unreserve_def set_slot_def)
  have fin: "k' = upd_task (Slot j) (\<lambda>u. if tstate u = T_NEW then u\<lparr>tstate := T_READY\<rparr> else u) (fork_stack me (Slot p) j r ?k4)" "i = j"
    using rest2 ch by (auto simp: set_slot_def on_files_def task_publish_def tno_def)
  have jp: "j \<noteq> p" using al(3) p by auto
  show ?thesis
    by (rule that [of ?k4]) (use fin jp al om in \<open>simp_all add: upd_task_def\<close>)
qed

lemma copy_words_at:
  assumes "n \<le> 4096" "j < n"
  shows "copy_words d s n m (d + of_nat (j * 8)) = m (s + of_nat (j * 8))"
  unfolding copy_words_def using put_words_at [of j "map (\<lambda>i. m (s + of_nat i * 8)) [0..<n]" d m] assms by simp

text \<open>The frame at \<open>r\<close>, \<open>q\<close> words below the top of the parent's stack, is found at the same distance
  from the top of the child's.\<close>

lemma fork_frame:
  assumes "kstack_top (task_of self k) = r + of_nat (q * 8)" "22 \<le> q" "q \<le> 2048" "n < 22"
  shows "copy_words (d - KSTACK_SIZE) (kstack_top (task_of self k) - KSTACK_SIZE) 2048 m (reg_at (d - of_nat (q * 8)) n) = m (reg_at r n)"
proof -
  let ?j = "2048 - q + n"
  have j: "?j < 2048" "(of_nat (?j * 8) :: u64) = KSTACK_SIZE - of_nat (q * 8) + of_nat (n * 8)"
    using assms(2-4) by (simp_all add: KSTACK_SIZE_def of_nat_diff algebra_simps)
  have "reg_at (d - of_nat (q * 8)) n = d - KSTACK_SIZE + of_nat (?j * 8)" unfolding j(2) by (simp add: reg_at_def algebra_simps)
  moreover have "reg_at r n = kstack_top (task_of self k) - KSTACK_SIZE + of_nat (?j * 8)"
    unfolding j(2) assms(1) by (simp add: reg_at_def algebra_simps)
  ultimately show ?thesis using copy_words_at [of 2048 ?j] j(1) by simp
qed

lemma reg_at_inj: "reg_at r a = reg_at r b \<Longrightarrow> a < 22 \<Longrightarrow> b < 22 \<Longrightarrow> a = b"
  using of_nat_u64_inj [of "a * 8" "b * 8"] by (simp add: reg_at_def)

text \<open>C19.  A successful fork leaves a ready child in a slot of its own, with the parent's id and the parent's open files,
  whose frame holds the parent's registers but for a zero in the register of the result.  Both tasks
  go on with the FPU as \<^verbatim>\<open>fninit\<close> leaves it: reserving the slot resets the FPU the parent was using.\<close>

theorem fork_child_frame:
  assumes "task64_fork L me r k = (Val i, k')" and "cur_cpu k me = Some (Slot p)" and "tstate (tasks k p) \<noteq> T_FREE"
    and "kstack_top (tasks k p) = r + of_nat (q * 8)" and "22 \<le> q" and "q \<le> 2048"
  shows "i \<noteq> p \<and> 1 \<le> i \<and> i < NTASK \<and> tstate (tasks k' i) = T_READY \<and> parent (tasks k' i) = tid (tasks k p) \<and>
    fsys k' = fd_inherit (Some i) (Some p) (empty_fds i (fsys k)) \<and>
    (\<forall>n < 22. kmem k' (reg_at (trsp (tasks k' i)) n) = (if n = R_RAX then 0 else kmem k (reg_at r n))) \<and>
    fx (tasks k' i) = fninit L (fpu_of k me) \<and> fpu_of k' me = fninit L (fpu_of k me)"
proof -
  obtain k4 where f: "k' = upd_task (Slot i) (\<lambda>u. if tstate u = T_NEW then u\<lparr>tstate := T_READY\<rparr> else u) (fork_stack me (Slot p) i r k4)"
    and i: "i \<noteq> p" "1 \<le> i" "i < NTASK" and km: "kmem k4 = kmem k" "fpu_of k4 me = fninit L (fpu_of k me)" "tasks k4 p = tasks k p"
    and c: "tstate (tasks k4 i) = T_NEW" "parent (tasks k4 i) = tid (tasks k p)" "fsys k4 = fd_inherit (Some i) (Some p) (empty_fds i (fsys k))"
    by (rule fork_run [OF assms(1-3)]) blast
  let ?d = "kstack_top (tasks k4 i)"
  have s: "kstack_top (task_of (Slot p) k4) = r + of_nat (q * 8)" using km(3) assms(4) by simp
  have sp: "trsp (tasks k' i) = ?d - of_nat (q * 8)"
    unfolding f using i(1) c(1) km(3) assms(4) by (simp add: fork_stack_def Let_def)
  have m: "kmem k' = (copy_words (?d - KSTACK_SIZE) (kstack_top (task_of (Slot p) k4) - KSTACK_SIZE) 2048 (kmem k))
      (reg_at (?d - of_nat (q * 8)) R_RAX := 0)"
    unfolding f fork_stack_def Let_def using km(1) s by simp
  have "kmem k' (reg_at (trsp (tasks k' i)) n) = (if n = R_RAX then 0 else kmem k (reg_at r n))" if n: "n < 22" for n
    unfolding m sp using fork_frame [OF s assms(5,6) n] reg_at_inj [of _ n R_RAX] n by auto
  moreover have "tstate (tasks k' i) = T_READY" "parent (tasks k' i) = tid (tasks k p)" "fx (tasks k' i) = fninit L (fpu_of k me)"
    "fpu_of k' me = fninit L (fpu_of k me)" "fsys k' = fd_inherit (Some i) (Some p) (empty_fds i (fsys k))"
    unfolding f fork_stack_def Let_def using i(1) c km(2) by simp_all
  ultimately show ?thesis using i by blast
qed

section \<open>Demand paging\<close>

text \<open>A used frame that is no table of the space.\<close>

definition data_frame :: "u64 \<Rightarrow> nat \<Rightarrow> mem64 \<Rightarrow> bool" where
  "data_frame root f s \<longleftrightarrow> f < PMM_MAX_FRAMES \<and> frame_used s f \<and> (\<forall>q. \<not> pt_path s root q (of_nat f * 4096))"

lemma data_frame_free: "data_frame root f s \<Longrightarrow> g \<in> free_set s \<Longrightarrow> (of_nat f * 4096 :: u64) \<noteq> of_nat g * 4096"
  unfolding data_frame_def free_set_def by (metis (mono_tags, lifting) frame_of_alloc mem_Collect_eq)

lemma next_tab_data:
  assumes inv: "pmm_inv s" and tree: "pt_tree s root" and path: "pt_path s root p t"
    and len: "length p < 3" and i: "i < 512" and g: "inter_ok g" and nt: "next_tab t i g s = (u, s')" and d: "data_frame root f s"
  shows "data_frame root f s' \<and> phys s' (of_nat f * 4096) = phys s (of_nat f * 4096)"
proof -
  let ?e = "phys s t i" and ?x = "of_nat f * 4096 :: u64"
  have xt: "?x \<noteq> t" using d path by (auto simp: data_frame_def)
  consider (same) "s' = s" | (widen) "s' = set_entry t i (?e OR PTE_US) s" | (fresh) "\<not> bit ?e 0" "free_set s \<noteq> {}"
    using nt by (auto simp: next_tab_def Let_def pmm_alloc_inner_eq split: if_splits)
  then show ?thesis
  proof cases
    case widen
    then show ?thesis using d xt by (simp add: data_frame_def fun_eq_iff)
  next
    case fresh
    let ?g = "Min (free_set s)"
    have f: "?g \<in> free_set s" "of_nat ?g * 4096 \<noteq> (0::u64)"
      using Min_free_set [OF fresh(2)] inv free_set_bound pmm_inv_free_pos frame_addr_eq_0_iff by auto
    then have s': "s' = set_entry t i (of_nat ?g * 4096 OR g) (take_frame ?g s)"
      using nt fresh by (auto simp: next_tab_def pmm_alloc_inner_eq split: if_splits)
    have h: "hangs s s' root p t i ?g g"
      using inv tree path len i fresh f g s' by (simp add: hangs_def)
    have "phys s' ?x = phys s ?x" using hang_phys(1) [OF h] xt data_frame_free [OF d f(1)] by (auto simp: fun_eq_iff)
    moreover have "\<not> pt_path s' root q ?x" for q using hang_path_cases [OF h] data_frame_free [OF d f(1)] d by (auto simp: data_frame_def)
    ultimately show ?thesis using d by (simp add: data_frame_def s')
  qed (use d in simp)
qed

text \<open>Mapping a page writes only tables.\<close>

lemma map_page_data:
  assumes ok: "space_ok root s" and m: "vmm_map_page_inner va pa flags s = (0, s')" and d: "data_frame root f s"
  shows "phys s' (of_nat f * 4096) = phys s (of_nat f * 4096)"
proof -
  let ?g = "PTE_P OR PTE_RW OR (if flags AND VMM_US \<noteq> 0 then PTE_US else 0)"
  have g: "inter_ok ?g" by (rule inter_ok_map)
  have inv: "pmm_inv s" and tree: "pt_tree s root" and r: "vmm_root s = root" using ok by (auto simp: space_ok_def)
  obtain t1 s1 where n1: "next_tab root (pidx 39 va) ?g s = (t1, s1)" by fastforce
  obtain t2 s2 where n2: "next_tab t1 (pidx 30 va) ?g s1 = (t2, s2)" by fastforce
  obtain t3 s3 where n3: "next_tab t2 (pidx 21 va) ?g s2 = (t3, s3)" by fastforce
  have t: "t1 \<noteq> 0" "t2 \<noteq> 0" "t3 \<noteq> 0" "s' = set_entry t3 (pidx 12 va) (leaf_entry pa flags) s3"
    using m n1 n2 n3 r by (auto simp: vmm_map_page_inner_def Let_def split: if_splits)
  have k1: "space_kept root s s1" "pt_path s1 root [pidx 39 va] t1"
    using next_tab_kept [OF inv tree pt_path_root _ _ g n1] t by auto
  then have i1: "pmm_inv s1" "pt_tree s1 root" by (simp_all add: space_kept_def)
  have k2: "space_kept root s1 s2" "pt_path s2 root [pidx 39 va, pidx 30 va] t2"
    using next_tab_kept [OF i1 k1(2) _ _ g n2] t by auto
  then have i2: "pmm_inv s2" "pt_tree s2 root" by (simp_all add: space_kept_def)
  have k3: "pt_path s3 root (vpath va) t3"
    using next_tab_kept [OF i2 k2(2) _ _ g n3] t by (auto simp: vpath_def)
  have d1: "data_frame root f s1 \<and> phys s1 (of_nat f * 4096) = phys s (of_nat f * 4096)"
    using next_tab_data [OF inv tree pt_path_root _ _ g n1 d] by simp
  have d2: "data_frame root f s2 \<and> phys s2 (of_nat f * 4096) = phys s1 (of_nat f * 4096)"
    using next_tab_data [OF i1 k1(2) _ _ g n2] d1 by simp
  have d3: "data_frame root f s3 \<and> phys s3 (of_nat f * 4096) = phys s2 (of_nat f * 4096)"
    using next_tab_data [OF i2 k2(2) _ _ g n3] d2 by simp
  have "of_nat f * 4096 \<noteq> t3" using d3 k3 by (auto simp: data_frame_def)
  then show ?thesis using d1 d2 d3 by (simp add: t(4) fun_eq_iff)
qed

lemma demand_map_ok:
  assumes ok: "space_ok root s" and m: "demand_map page s = (Some (pa, 0), s')"
  shows "frame_of pa \<in> free_set s \<and> space_ok root s' \<and> walk s 3 root page = None \<and> phys s' pa = (\<lambda>_. 0) \<and>
    (\<forall>va. walk s' 3 root va = (if page_key va = page_key page
       then Some (0, leaf_entry pa (VMM_RW OR VMM_US OR (if nx_on s then VMM_NX else 0))) else walk s 3 root va))"
proof -
  obtain p s1 where a: "pmm_alloc_inner s = (p, s1)" by fastforce
  then have p: "p = pa" "pa \<noteq> 0" and mp: "vmm_map_page_inner page pa (VMM_RW OR VMM_US OR (if nx_on s then VMM_NX else 0)) s1 = (0, s')"
    using m by (auto simp: demand_map_def Let_def split: if_splits prod.splits)
  note al = alloc_space_ok [OF ok a [unfolded p(1)] p(2)]
  then have ok1: "space_ok root s1" and f: "frame_of pa \<in> free_set s" "pa = of_nat (frame_of pa) * 4096" by blast+
  have ne: "free_set s \<noteq> {}" using f by blast
  have s1: "s1 = take_frame (frame_of pa) s" using a p ne frame_of_alloc [OF free_set_bound [OF Min_free_set [OF ne]]] by (auto simp: pmm_alloc_inner_eq)
  have "\<not> pt_path s root q (of_nat (frame_of pa) * 4096)" for q
    using ok pt_tree_not_free [OF _ _ f(1)] by (auto simp: space_ok_def)
  moreover have "pt_path s1 root q t \<Longrightarrow> pt_path s root q t" for q t
    using data_write_path [of s root s1] ok pt_tree_not_free [OF _ _ f(1)] by (auto simp: space_ok_def s1 take_frame_def)
  ultimately have "data_frame root (frame_of pa) s1"
    using f(1) by (auto simp: data_frame_def s1 free_set_bound)
  from map_page_data [OF ok1 mp this] have "phys s' pa = (\<lambda>_. 0)" using f(2) by (simp add: s1 take_frame_def)
  then show ?thesis using map_page_walk [OF ok1 mp] al by auto
qed

text \<open>The call inside its heap: one mapping attempt under the memory lock.\<close>

lemma demand_run:
  assumes c: "cur_cpu k me = Some t" and l: "\<not> mem_locked (mm k)" and h: "heap_base (task_of t k) \<noteq> 0"
    and i: "heap_base (task_of t k) \<le> va AND NOT 0xFFF" "va AND NOT 0xFFF < page_up (heap_brk (task_of t k))"
    and d: "demand_map (va AND NOT 0xFFF) ((mm k)\<lparr>live_cr3 := cr3_of k me, mem_locked := True, vmm_root := cr3_of k me AND NOT 0xFFF\<rparr>) = (Some (pa, 0), m)"
  shows "fst (task64_demand me va k) = Val 0" "mm (snd (task64_demand me va k)) = mem_lock_release (m\<lparr>vmm_root := vmm_root (mm k)\<rparr>)"
proof -
  let ?k = "k\<lparr>mm := mem_lock_release (m\<lparr>vmm_root := vmm_root (mm k)\<rparr>),
       cr3_of := (cr3_of k)(me := live_cr3 (mem_lock_release (m\<lparr>vmm_root := vmm_root (mm k)\<rparr>)))\<rparr>"
  have o: "on_mem me (locked (\<lambda>m. with_root (live_root m) (demand_map (va AND NOT 0xFFF)) m)) k = (Val (Some (pa, 0)), ?k)"
    using d l by (simp add: on_mem_def locked_def with_root_def mem_lock_acquire_def live_root_def)
  have "task64_demand me va k = (Val 0, ?k)"
    using c h i o by (simp add: task64_demand_def Let_def not_less not_le)
  then show "fst (task64_demand me va k) = Val 0" "mm (snd (task64_demand me va k)) = mem_lock_release (m\<lparr>vmm_root := vmm_root (mm k)\<rparr>)"
    by simp_all
qed

lemma demand_0_run:
  assumes c: "cur_cpu k me = Some t" and l: "\<not> mem_locked (mm k)" and z: "task64_demand me va k = (Val 0, k')"
  obtains pa m where "demand_map (va AND NOT 0xFFF) ((mm k)\<lparr>live_cr3 := cr3_of k me, mem_locked := True, vmm_root := cr3_of k me AND NOT 0xFFF\<rparr>) = (Some (pa, 0), m)"
    "heap_base (task_of t k) \<le> va AND NOT 0xFFF" "va AND NOT 0xFFF < page_up (heap_brk (task_of t k))" "mm k' = mem_lock_release (m\<lparr>vmm_root := vmm_root (mm k)\<rparr>)"
proof -
  let ?u = "task_of t k" and ?page = "va AND NOT 0xFFF"
  let ?tail = "\<lambda>x. case x of None \<Rightarrow> ret (-1 :: int)
      | Some (pa, rc) \<Rightarrow> if rc \<noteq> 0 then seq (on_mem me (\<lambda>m. map_option (Pair ()) (pmm_free pa m))) (\<lambda>_. ret 1) else ret 0"
  have i: "heap_base ?u \<noteq> 0" "heap_base ?u \<le> ?page" "?page < page_up (heap_brk ?u)"
    and q: "seq (on_mem me (locked (\<lambda>m. with_root (live_root m) (demand_map ?page) m))) ?tail k = (Val 0, k')"
    using z c by (auto simp: task64_demand_def Let_def not_less not_le split: if_splits)
  obtain x m where d: "demand_map ?page ((mm k)\<lparr>live_cr3 := cr3_of k me, mem_locked := True, vmm_root := cr3_of k me AND NOT 0xFFF\<rparr>) = (x, m)"
    by fastforce
  let ?k = "k\<lparr>mm := mem_lock_release (m\<lparr>vmm_root := vmm_root (mm k)\<rparr>),
       cr3_of := (cr3_of k)(me := live_cr3 (mem_lock_release (m\<lparr>vmm_root := vmm_root (mm k)\<rparr>)))\<rparr>"
  have "on_mem me (locked (\<lambda>m. with_root (live_root m) (demand_map ?page) m)) k = (Val x, ?k)"
    using d l by (simp add: on_mem_def locked_def with_root_def mem_lock_acquire_def live_root_def)
  then have t: "?tail x ?k = (Val 0, k')" using q by simp
  then obtain pa where x: "x = Some (pa, 0)" by (auto split: option.splits prod.splits if_splits elim!: seq_ValE)
  have "k' = ?k" using t by (simp add: x)
  then show ?thesis using that [OF d [unfolded x] i(2,3)] by simp
qed

text \<open>C22.  A page fault is resolved by demand paging exactly inside the heap of the running task, where no
  page was mapped: the page then maps a zeroed frame that was free, writable, for the user and, with
  NX, not executable; every other page of the space is as before.  Outside the heap nothing changes.\<close>

theorem demand_heap_page:
  assumes "cur_cpu k me = Some t" and "\<not> mem_locked (mm k)" and "pmm_inv (mm k)" and "pt_tree (mm k) root" and "root = cr3_of k me AND NOT 0xFFF"
    and "task64_demand me va k = (Val rc, k')" and "page = va AND NOT 0xFFF"
  shows "(rc = 0 \<longrightarrow> heap_base (task_of t k) \<le> page \<and> page < page_up (heap_brk (task_of t k)) \<and> walk (mm k) 3 root page = None \<and>
      (\<exists>pa. frame_of pa \<in> free_set (mm k) \<and> phys (mm k') pa = (\<lambda>_. 0) \<and>
        (\<forall>va'. walk (mm k') 3 root va' = (if page_key va' = page_key page
           then Some (0, leaf_entry pa (VMM_RW OR VMM_US OR (if nx_on (mm k) then VMM_NX else 0))) else walk (mm k) 3 root va')))) \<and>
    (heap_base (task_of t k) = 0 \<or> page < heap_base (task_of t k) \<or> page_up (heap_brk (task_of t k)) \<le> page \<longrightarrow> rc = -1 \<and> k' = k)"
proof -
  let ?m = "(mm k)\<lparr>live_cr3 := cr3_of k me, mem_locked := True, vmm_root := root\<rparr>"
  have "pmm_inv ((mm k)\<lparr>live_cr3 := cr3_of k me\<rparr>)" "pt_tree ((mm k)\<lparr>live_cr3 := cr3_of k me\<rparr>) root"
    using assms(3,4) pmm_inv_cong [of "(mm k)\<lparr>live_cr3 := cr3_of k me\<rparr>" "mm k"] pt_tree_cong [of "(mm k)\<lparr>live_cr3 := cr3_of k me\<rparr>" "mm k"]
    by (simp_all add: frame_used_def)
  then have ok: "space_ok root ?m" by (rule space_ok_root)
  have w: "walk ?m 3 root = walk (mm k) 3 root" "free_set ?m = free_set (mm k)" "nx_on ?m = nx_on (mm k)"
    by (rule ext, rule walk_phys_cong) (simp_all add: free_set_def frame_used_def)
  have "heap_base (task_of t k) \<le> page \<and> page < page_up (heap_brk (task_of t k)) \<and> walk (mm k) 3 root page = None \<and>
      (\<exists>pa. frame_of pa \<in> free_set (mm k) \<and> phys (mm k') pa = (\<lambda>_. 0) \<and>
        (\<forall>va'. walk (mm k') 3 root va' = (if page_key va' = page_key page
           then Some (0, leaf_entry pa (VMM_RW OR VMM_US OR (if nx_on (mm k) then VMM_NX else 0))) else walk (mm k) 3 root va')))" if rc: "rc = 0"
  proof -
    obtain pa m where d: "demand_map page ?m = (Some (pa, 0), m)" and i: "heap_base (task_of t k) \<le> page" "page < page_up (heap_brk (task_of t k))"
      and m: "mm k' = mem_lock_release (m\<lparr>vmm_root := vmm_root (mm k)\<rparr>)"
      by (rule demand_0_run [OF assms(1,2) assms(6) [unfolded rc]]) (use assms(5,7) in auto)
    note r = demand_map_ok [OF ok d, unfolded w]
    have "phys (mm k') = phys m" by (simp add: m mem_lock_release_def)
    then show ?thesis using r i by (intro conjI exI [of _ pa]) (auto simp: m)
  qed
  moreover have "rc = -1 \<and> k' = k"
    if "heap_base (task_of t k) = 0 \<or> page < heap_base (task_of t k) \<or> page_up (heap_brk (task_of t k)) \<le> page"
    using assms(1,6,7) that by (auto simp: task64_demand_def Let_def split: if_splits)
  ultimately show ?thesis by blast
qed

end
