(* ===== verification/Ext_Disk.thy ===== *)
theory Ext_Disk
  imports Ext_Write
begin

text \<open>
  The volume as a function from block numbers to contents.  Block transfers are single commands, so
  on a working device every operation is a pure computation on that function; the readers, the inode
  writer and the directory insertion are characterised by it.
\<close>

section \<open>Blocks as the unit of transfer\<close>

definition vol_ok :: "vol \<Rightarrow> bool" where
  "vol_ok v \<longleftrightarrow> ex_block_size v \<in> {1024, 2048, 4096} \<and> unat (ex_blocks v) * (bsz v div 512) \<le> 2 ^ 32"

definition nsec :: "vol \<Rightarrow> nat" where
  "nsec v = bsz v div 512"

text \<open>Command after command succeeds on the volume's drive.\<close>

definition io_ok :: "vol \<Rightarrow> exst \<Rightarrow> bool" where
  "io_ok v s \<longleftrightarrow> drive_ok s (ex_drive v) \<and> (\<forall>k. fault s k = None)"

lemma vol_sizes:
  assumes "vol_ok v"
  shows "nsec v \<in> {2, 4, 8}" "bsz v = 512 * nsec v" "bsz v \<in> {1024, 2048, 4096}" "per v = 128 * nsec v"
    "ex_block_size v = of_nat (bsz v)"
  using assms by (auto simp: vol_ok_def nsec_def bsz_def per_def)

lemma nsec_dvd: "vol_ok v \<Longrightarrow> nsec v dvd 2 ^ 32" "vol_ok v \<Longrightarrow> nsec v dvd 128" "vol_ok v \<Longrightarrow> 0 < nsec v"
  using vol_sizes(1) [of v] by auto

lemma unat_u32: "unat (x::u32) < 2 ^ 32"
  using unsigned_less [of x] by simp

lemma unat_and127: "unat (x AND 127 :: u32) = unat x mod 128"
proof -
  have "x AND 127 = take_bit 7 x" by (simp add: take_bit_eq_mask mask_eq_exp_minus_1)
  then show ?thesis by (simp add: take_bit_eq_mod unat_mod)
qed

lemma unat_ucast_u64 [simp]: "unat (ucast (b::u32) :: u64) = unat b"
proof -
  have "unat b < 2 ^ 64" using unat_u32 [of b] by simp
  then show ?thesis by (simp add: unsigned_ucast_eq take_bit_nat_eq_self)
qed

lemma blk_lba_eq:
  assumes "vol_ok v"
  shows "blk_lba v b = b * of_nat (nsec v)"
proof -
  note b = unat_u32 [of b]
  have "unat b * bsz v \<le> unat b * 4096" using vol_sizes(3) [OF assms] by (intro mult_le_mono2) auto
  also have "\<dots> < 2 ^ 64" using b by simp
  finally have "unat ((ucast b * ucast (ex_block_size v) :: u64) div 512) = unat b * bsz v div 512"
    by (simp add: unat_div unat_word_ariths take_bit_nat_eq_self bsz_def)
  also have "\<dots> = unat b * nsec v" by (simp add: vol_sizes(2) [OF assms] mult.left_commute)
  finally have "ucast ((ucast b * ucast (ex_block_size v) :: u64) div 512) = (of_nat (unat b * nsec v) :: u32)"
    by (metis of_nat_unat)
  then show ?thesis unfolding blk_lba_def by simp
qed

lemma nsec_dvd_mul:
  assumes "vol_ok v"
  shows "nsec v dvd unat (x * of_nat (nsec v) :: u32)"
proof -
  have "unat (x * of_nat (nsec v) :: u32) = unat x * nsec v mod 2 ^ 32"
    using vol_sizes(1) [OF assms] by (auto simp: unat_word_ariths)
  then show ?thesis using nsec_dvd(1) [OF assms] by (simp add: dvd_mod_iff)
qed

lemma dvd_step:
  assumes "(d::nat) dvd a" "d dvd n" "a < n"
  shows "a + d \<le> n"
proof -
  obtain p q where "a = d * p" "n = d * q" using assms(1,2) by (auto elim!: dvdE)
  moreover then have "Suc p \<le> q" using assms(3) by simp
  ultimately show ?thesis using mult_le_mono2 [of "Suc p" q d] by simp
qed

lemma lba_inj:
  assumes "vol_ok v" "a < ex_blocks v" "b < ex_blocks v" "blk_lba v a = blk_lba v b"
  shows "a = b"
proof -
  have m: "unat (x * of_nat (nsec v)) = unat x * nsec v" if "x < ex_blocks v" for x :: u32
  proof -
    have "unat x * nsec v < unat (ex_blocks v) * nsec v"
      using that nsec_dvd(3) [OF assms(1)] by (simp add: word_less_nat_alt)
    also have "\<dots> \<le> 2 ^ 32" using assms(1) by (simp add: vol_ok_def nsec_def)
    finally show ?thesis using vol_sizes(1) [OF assms(1)] by (auto simp: unat_word_ariths)
  qed
  have "unat a * nsec v = unat b * nsec v"
    using assms(4) m [OF assms(2)] m [OF assms(3)] unfolding blk_lba_eq [OF assms(1)] by metis
  then have "unat a = unat b" using nsec_dvd(3) [OF assms(1)] by simp
  then show ?thesis by (rule unsigned_word_eqI)
qed

text \<open>A block never crosses a 128-sector boundary, so each transfer is one command.\<close>

lemma chunk_whole:
  assumes "vol_ok v"
  shows "chunk (blk_lba v b) (nsec v) 0 = nsec v" "batch_limit (blk_lba v b) (nsec v) = nsec v"
proof -
  let ?l = "unat (blk_lba v b AND 127)"
  have "?l = unat (blk_lba v b) mod 128" by (rule unat_and127)
  then have "nsec v dvd ?l"
    using nsec_dvd_mul [OF assms, of b] nsec_dvd(2) [OF assms] by (simp add: blk_lba_eq [OF assms] dvd_mod_iff)
  moreover have "?l < 128" by (rule and127)
  ultimately have "?l + nsec v \<le> 128"
    using dvd_step [of "nsec v" ?l 128] nsec_dvd(2) [OF assms] by blast
  then show "chunk (blk_lba v b) (nsec v) 0 = nsec v" "batch_limit (blk_lba v b) (nsec v) = nsec v"
    using vol_sizes(1) [OF assms] by (auto simp: chunk_def batch_limit_def)
qed

text \<open>The content of a block, and the states a block read and a block write leave.\<close>

definition blk :: "vol \<Rightarrow> exst \<Rightarrow> u32 \<Rightarrow> buf" where
  "blk v s b = (\<lambda>j. if j < bsz v then sec s (ex_drive v) (blk_lba v b + of_nat (j div 512)) (j mod 512) else 0)"

text \<open>A buffer whose first block was overwritten.\<close>

definition over :: "vol \<Rightarrow> buf \<Rightarrow> buf \<Rightarrow> buf" where
  "over v f g = (\<lambda>j. if j < bsz v then f j else g j)"

lemma over_app [simp]: "j < bsz v \<Longrightarrow> over v f g j = f j"
  by (simp add: over_def)

definition load :: "vol \<Rightarrow> u32 \<Rightarrow> bufid \<Rightarrow> exst \<Rightarrow> exst" where
  "load v b dst s = s\<lparr>ncmd := Suc (ncmd s), bufs := (bufs s)(dst := over v (blk v s b) (bufs s dst))\<rparr>"

definition store :: "vol \<Rightarrow> u32 \<Rightarrow> bufid \<Rightarrow> exst \<Rightarrow> exst" where
  "store v b src s = s\<lparr>ncmd := Suc (ncmd s),
     sec := (\<lambda>d l. if d = ex_drive v \<and> unat (l - blk_lba v b) < nsec v
                    then (\<lambda>i. bufs s src (unat (l - blk_lba v b) * 512 + i)) else sec s d l)\<rparr>"

lemma ahci64_read_run:
  assumes "io_ok v s" "0 < n"
  shows "ahci64_read (ex_drive v) lba n s =
    (Val (batch_limit lba n, \<lambda>j. sec s (ex_drive v) (lba + of_nat (j div 512)) (j mod 512)), s\<lparr>ncmd := Suc (ncmd s)\<rparr>)"
  using assms by (simp add: ahci64_read_def io_ok_def)

lemma ex_block_run:
  assumes "vol_ok v" "io_ok v s"
  shows "ex_block v b dst s = (Val (), load v b dst s)"
proof -
  note p = nsec_dvd(3) [OF assms(1)] nsec_def [of v, symmetric] vol_sizes(2) [OF assms(1), folded mult.commute [of _ 512], symmetric]
  have e: "rd_loop d l (nsec v) (nsec v) dst = ret ()" for d l by (simp add: rd_loop.simps)
  let ?f = "\<lambda>j. if j < bsz v then sec s (ex_drive v) (blk_lba v b + of_nat (j div 512)) (j mod 512) else bufs s dst j"
  have f: "?f = over v (blk v s b) (bufs s dst)" by (auto simp: blk_def over_def)
  have "rd_loop (ex_drive v) (blk_lba v b) (nsec v) 0 dst s = (Val (), s\<lparr>ncmd := Suc (ncmd s), bufs := (bufs s)(dst := ?f)\<rparr>)"
    using p(1) by (subst rd_loop.simps) (simp add: e err_to_def seq_def ahci64_read_run [OF assms(2)] chunk_whole [OF assms(1)] p(3) cong: if_cong)
  then show ?thesis unfolding ex_block_def p(2) load_def f .
qed

lemma ex_write_block_run:
  assumes "vol_ok v" "io_ok v s"
  shows "ex_write_block v b src s = (Val (), store v b src s)"
proof -
  have p: "0 < nsec v" "bsz v div 512 = nsec v"
    using nsec_dvd(3) [OF assms(1)] by (simp_all add: nsec_def)
  have e: "wr_loop d l (nsec v) (nsec v) f = ret ()" for d l f by (simp add: wr_loop.simps)
  show ?thesis
    using assms(2) p chunk_whole [OF assms(1), of b] unfolding ex_write_block_def p(2)
    by (subst wr_loop.simps) (simp add: e err_to_def ahci64_write_def io_ok_def seq_def store_def)
qed

lemma lba_offset:
  assumes "vol_ok v" "j < nsec v"
  shows "unat (blk_lba v b' + of_nat j - blk_lba v b) < nsec v \<longleftrightarrow> blk_lba v b' = blk_lba v b"
    "blk_lba v b' = blk_lba v b \<Longrightarrow> unat (blk_lba v b' + of_nat j - blk_lba v b) = j"
proof -
  define x where "x = (b' - b) * of_nat (nsec v)"
  have x: "blk_lba v b' - blk_lba v b = x" by (simp add: blk_lba_eq [OF assms(1)] x_def algebra_simps)
  have e: "blk_lba v b' + of_nat j - blk_lba v b = x + of_nat j" unfolding x [symmetric] by simp
  have d: "nsec v dvd unat x" unfolding x_def by (rule nsec_dvd_mul [OF assms(1)])
  have "unat x + nsec v \<le> 2 ^ 32" using dvd_step [OF d nsec_dvd(1) [OF assms(1)]] unat_u32 [of x] by blast
  then have u: "unat (x + of_nat j) = unat x + j"
    using assms(2) by (simp add: unat_word_ariths unat_of_nat)
  have z: "x = 0 \<longleftrightarrow> blk_lba v b' = blk_lba v b" unfolding x [symmetric] by auto
  have "x \<noteq> 0 \<Longrightarrow> nsec v \<le> unat x" using d by (metis dvd_imp_le neq0_conv unat_eq_zero)
  then show "unat (blk_lba v b' + of_nat j - blk_lba v b) < nsec v \<longleftrightarrow> blk_lba v b' = blk_lba v b"
    unfolding e u z [symmetric] using assms(2) by (cases "x = 0") auto
  assume "blk_lba v b' = blk_lba v b"
  then have "x = 0" using z by simp
  then show "unat (blk_lba v b' + of_nat j - blk_lba v b) = j" unfolding e u by simp
qed

definition cut :: "vol \<Rightarrow> buf \<Rightarrow> buf" where
  "cut v f = (\<lambda>j. if j < bsz v then f j else 0)"

lemma cut_app [simp]: "j < bsz v \<Longrightarrow> cut v f j = f j"
  by (simp add: cut_def)

definition put_blk :: "vol \<Rightarrow> u32 \<Rightarrow> buf \<Rightarrow> (u32 \<Rightarrow> buf) \<Rightarrow> u32 \<Rightarrow> buf" where
  "put_blk v b f D = (\<lambda>b'. if blk_lba v b' = blk_lba v b then cut v f else D b')"

lemma blk_store [simp]:
  assumes "vol_ok v"
  shows "blk v (store v b src s) = put_blk v b (bufs s src) (blk v s)"
proof (intro ext)
  fix b' j
  show "blk v (store v b src s) b' j = put_blk v b (bufs s src) (blk v s) b' j"
  proof (cases "j < bsz v")
    case True
    then have "j div 512 < nsec v" using vol_sizes(2) [OF assms] less_mult_imp_div_less [of j "nsec v" 512] by linarith
    note l = lba_offset [OF assms this, of b' b]
    show ?thesis
    proof (cases "blk_lba v b' = blk_lba v b")
      case eq: True
      have "unat (blk_lba v b' + of_nat (j div 512) - blk_lba v b) = j div 512" by (rule l(2) [OF eq])
      then show ?thesis using True eq \<open>j div 512 < nsec v\<close> by (simp add: blk_def store_def put_blk_def)
    next
      case False
      then have "\<not> unat (blk_lba v b' + of_nat (j div 512) - blk_lba v b) < nsec v" using l(1) by blast
      then show ?thesis using True False by (simp add: blk_def store_def put_blk_def)
    qed
  qed (simp add: blk_def put_blk_def cut_def)
qed

lemma load_fields [simp]:
  "blk v (load v' b dst s) = blk v s" "sec (load v' b dst s) = sec s" "io_ok v (load v' b dst s) = io_ok v s"
  "geo (load v' b dst s) = geo s" "ex_held (load v' b dst s) = ex_held s" "ex_vol_mounted (load v' b dst s) = ex_vol_mounted s"
  "bufs (load v b dst s) = (bufs s)(dst := over v (blk v s b) (bufs s dst))"
  by (simp_all add: load_def blk_def io_ok_def fun_eq_iff)

lemma store_fields [simp]:
  "io_ok v (store v' b src s) = io_ok v s" "geo (store v' b src s) = geo s" "ex_held (store v' b src s) = ex_held s"
  "ex_vol_mounted (store v' b src s) = ex_vol_mounted s" "bufs (store v' b src s) = bufs s"
  by (simp_all add: store_def io_ok_def)

definition set_buf :: "bufid \<Rightarrow> buf \<Rightarrow> exst \<Rightarrow> exst" where
  "set_buf i f s = s\<lparr>bufs := (bufs s)(i := f)\<rparr>"

lemma upd_buf_run [simp]: "upd_buf i f s = (Val (), set_buf i (f (bufs s i)) s)"
  by (simp add: upd_buf_def set_buf_def)

lemma get_buf_run [simp]: "get_buf i s = (Val (bufs s i), s)"
  by (simp add: get_buf_def)

lemma set_buf_fields [simp]:
  "blk v (set_buf i f s) = blk v s" "sec (set_buf i f s) = sec s" "io_ok v (set_buf i f s) = io_ok v s"
  "geo (set_buf i f s) = geo s" "ex_held (set_buf i f s) = ex_held s" "ex_vol_mounted (set_buf i f s) = ex_vol_mounted s"
  "bufs (set_buf i f s) = (bufs s)(i := f)"
  by (simp_all add: set_buf_def blk_def io_ok_def fun_eq_iff)

section \<open>What a volume holds\<close>

text \<open>The volume as a function from block numbers to contents, read without side effects.\<close>

type_synonym disk = "u32 \<Rightarrow> buf"

definition ino_grp :: "vol \<Rightarrow> u32 \<Rightarrow> u32" where
  "ino_grp v ino = (ino - 1) div ex_ipg v"

definition slot_itab :: "vol \<Rightarrow> disk \<Rightarrow> u32 \<Rightarrow> u32" where
  "slot_itab v D ino = ex_rd32 (D (ex_gd_block v (ino_grp v ino))) (gd_off v (ino_grp v ino) + 8)"

definition slot_blk :: "vol \<Rightarrow> disk \<Rightarrow> u32 \<Rightarrow> u32" where
  "slot_blk v D ino = slot_itab v D ino + ((ino - 1) mod ex_ipg v * ex_inode_size v) div ex_block_size v"

definition slot_off :: "vol \<Rightarrow> u32 \<Rightarrow> nat" where
  "slot_off v ino = unat (((ino - 1) mod ex_ipg v * ex_inode_size v) mod ex_block_size v)"

definition slot_ok :: "vol \<Rightarrow> disk \<Rightarrow> u32 \<Rightarrow> bool" where
  "slot_ok v D ino \<longleftrightarrow> ino \<noteq> 0 \<and> ino \<le> ex_inodes v \<and> ex_ipg v \<noteq> 0 \<and> slot_itab v D ino \<noteq> 0 \<and> slot_off v ino + 128 \<le> bsz v \<and>
     slot_blk v D ino < ex_blocks v"

definition inode_at :: "vol \<Rightarrow> disk \<Rightarrow> u32 \<Rightarrow> ex_inode_t" where
  "inode_at v D ino = inode_decode (D (slot_blk v D ino)) (slot_off v ino)"

definition ind_at :: "vol \<Rightarrow> disk \<Rightarrow> u32 \<Rightarrow> nat \<Rightarrow> u32" where
  "ind_at v D b k = (if b = 0 \<or> k \<ge> per v then 0 else ex_rd32 (D b) (k * 4))"

definition bmap_at :: "vol \<Rightarrow> disk \<Rightarrow> ex_inode_t \<Rightarrow> nat \<Rightarrow> u32" where
  "bmap_at v D i lb =
     (if lb < EX_DIRECT then iblock i lb
      else if lb - EX_DIRECT < per v then ind_at v D (iblock i 12) (lb - EX_DIRECT)
      else let k = lb - EX_DIRECT - per v
           in if k < per v * per v then ind_at v D (ind_at v D (iblock i 13) (k div per v)) (k mod per v) else 0)"

definition max_lb :: "vol \<Rightarrow> nat" where
  "max_lb v = EX_DIRECT + per v + per v * per v"

text \<open>Byte \<open>p\<close> of a file; holes read as zero.\<close>

definition file_byte :: "vol \<Rightarrow> disk \<Rightarrow> ex_inode_t \<Rightarrow> nat \<Rightarrow> u8" where
  "file_byte v D i p =
     (let b = bmap_at v D i (p div bsz v) in if b = 0 then 0 else D b (p mod bsz v))"

section \<open>The readers compute it\<close>

text \<open>A step that only reads: the volume and the flags stay, and so do the buffers outside \<open>B\<close>.\<close>

definition reads :: "bufid set \<Rightarrow> exst \<Rightarrow> exst \<Rightarrow> bool" where
  "reads B s s' \<longleftrightarrow> sec s' = sec s \<and> fault s' = fault s \<and> drive_ok s' = drive_ok s \<and> geo s' = geo s \<and>
     ex_held s' = ex_held s \<and> ex_vol_mounted s' = ex_vol_mounted s \<and> (\<forall>x. x \<notin> B \<longrightarrow> bufs s' x = bufs s x)"

lemma reads_refl [simp, intro]: "reads B s s"
  by (simp add: reads_def)

lemma reads_trans: "reads B s s1 \<Longrightarrow> reads C s1 s2 \<Longrightarrow> B \<union> C \<subseteq> E \<Longrightarrow> reads E s s2"
  unfolding reads_def by (metis UnCI subset_iff)

lemma reads_mono: "reads B s s' \<Longrightarrow> B \<subseteq> C \<Longrightarrow> reads C s s'"
  by (auto simp: reads_def)

lemma reads_load [simp, intro]: "dst \<in> B \<Longrightarrow> reads B s (load v b dst s)"
  by (auto simp: reads_def load_def)

lemma reads_blk: "reads B s s' \<Longrightarrow> blk v s' = blk v s"
  by (simp add: reads_def blk_def fun_eq_iff)

lemma reads_io: "reads B s s' \<Longrightarrow> io_ok v s' = io_ok v s"
  by (simp add: reads_def io_ok_def)

lemma reads_buf: "reads B s s' \<Longrightarrow> x \<notin> B \<Longrightarrow> bufs s' x = bufs s x"
  by (simp add: reads_def)

lemma rd32_cong: "(\<And>j. off \<le> j \<Longrightarrow> j < off + 4 \<Longrightarrow> f j = g j) \<Longrightarrow> ex_rd32 f off = ex_rd32 g off"
  by (simp add: ex_rd32_def)

lemma rd16_cong: "(\<And>j. off \<le> j \<Longrightarrow> j < off + 2 \<Longrightarrow> f j = g j) \<Longrightarrow> ex_rd16 f off = ex_rd16 g off"
  by (simp add: ex_rd16_def)

lemma inode_decode_cong:
  assumes "\<And>j. io \<le> j \<Longrightarrow> j < io + 100 \<Longrightarrow> f j = g j"
  shows "inode_decode f io = inode_decode g io"
proof -
  have "ex_rd32 f (io + 40 + i * 4) = ex_rd32 g (io + 40 + i * 4)" if "i < 15" for i
    using that assms by (intro rd32_cong) auto
  then show ?thesis
    using rd16_cong [of io f g] rd32_cong [of "io + 4" f g] rd32_cong [of "io + 28" f g] assms
    by (simp add: inode_decode_def fun_eq_iff)
qed

lemma gd_geometry:
  assumes "vol_ok v"
  shows "gd_bytes v g div ex_block_size v = ex_gd_block v g" "unat (gd_bytes v g mod ex_block_size v) = gd_off v g"
    "gd_off v g + 32 \<le> bsz v"
proof -
  let ?B = "ex_block_size v"
  have z: "unat ?B = bsz v" "bsz v dvd 2 ^ 32" "32 dvd bsz v" "0 < bsz v" using vol_sizes(3) [OF assms] by (auto simp: bsz_def)
  show "gd_bytes v g div ?B = ex_gd_block v g" by (simp add: ex_gd_block_def)
  have m: "unat (x mod ?B) = unat x mod bsz v" for x :: u32 by (simp add: unat_mod z(1))
  have w: "unat (x * ?B + y) mod bsz v = unat y mod bsz v" for x y :: u32
  proof -
    have "unat (x * ?B + y) = (unat x * bsz v + unat y) mod 2 ^ 32"
      by (simp add: unat_word_ariths z(1) mod_simps)
    then show ?thesis using z(2) by (simp add: mod_mod_cancel)
  qed
  show "unat (gd_bytes v g mod ?B) = gd_off v g" unfolding gd_bytes_def gd_off_def m w ..
  have "32 dvd unat (g * 32 :: u32)"
  proof -
    have "unat (g * 32 :: u32) = unat g * 32 mod 2 ^ 32" by (simp add: unat_word_ariths)
    then show ?thesis by (simp add: dvd_mod_iff)
  qed
  then have "32 dvd gd_off v g" unfolding gd_off_def m using z(3) by (simp add: dvd_mod_iff)
  moreover have "gd_off v g < bsz v" unfolding gd_off_def m using z(4) by simp
  ultimately show "gd_off v g + 32 \<le> bsz v" using dvd_step z(3) by blast
qed

lemma inode_slot_run:
  assumes "vol_ok v" "io_ok v s" "slot_ok v (blk v s) ino"
  shows "inode_slot v ino s =
    (Val (slot_blk v (blk v s) ino, slot_off v ino),
     load v (slot_blk v (blk v s) ino) B_META (load v (ex_gd_block v (ino_grp v ino)) B_META s))"
proof -
  let ?g = "ino_grp v ino"
  have it: "ex_rd32 (over v (blk v s (ex_gd_block v ?g)) (bufs s B_META)) (gd_off v ?g + 8) = slot_itab v (blk v s) ino"
    unfolding slot_itab_def using gd_geometry(3) [OF assms(1), of ?g] by (intro rd32_cong) simp
  show ?thesis
    using assms(3) unfolding inode_slot_def Let_def ino_grp_def [symmetric] gd_geometry(1,2) [OF assms(1)]
    by (simp add: seq_def err_to_def ex_block_run [OF assms(1)] assms(2) it slot_blk_def [symmetric] slot_off_def [symmetric] slot_ok_def)
qed

lemma ex_inode_run:
  assumes "vol_ok v" "io_ok v s" "slot_ok v (blk v s) ino"
  shows "\<exists>s'. ex_inode v ino s = (Val (inode_at v (blk v s) ino), s') \<and> reads {B_META} s s'"
proof -
  have g: "\<not> (ino = 0 \<or> ino > ex_inodes v)" "\<not> (ex_ipg v = 0 \<or> ex_block_size v = 0)"
    using assms(1,3) by (auto simp: slot_ok_def vol_ok_def)
  have "inode_decode (over v (blk v s b) x) (slot_off v ino) = inode_decode (blk v s b) (slot_off v ino)" for b x
    using assms(3) by (intro inode_decode_cong) (auto simp: slot_ok_def)
  then show ?thesis
    unfolding ex_inode_def if_not_P [OF g(1)] if_not_P [OF g(2)]
    by (simp add: seq_def inode_slot_run [OF assms] inode_at_def) (auto simp: reads_def load_def)
qed

lemma ex_ind_run:
  assumes "vol_ok v" "io_ok v s"
  shows "\<exists>s'. ex_ind v b k s = (Val (ind_at v (blk v s) b k), s') \<and> reads {B_IND} s s'"
proof (cases "b = 0 \<or> per v \<le> k")
  case False
  have "k * 4 + 4 \<le> bsz v" using False vol_sizes(2,4) [OF assms(1)] by simp
  then have "ex_rd32 (over v (blk v s b) x) (k * 4) = ex_rd32 (blk v s b) (k * 4)" for x
    by (intro rd32_cong) simp
  then show ?thesis
    using False by (simp add: ex_ind_def ind_at_def seq_def attempt_def ex_block_run [OF assms])
qed (auto simp: ex_ind_def ind_at_def)

lemma ex_bmap_run:
  assumes "vol_ok v" "io_ok v s"
  shows "\<exists>s'. ex_bmap v i lb s = (Val (bmap_at v (blk v s) i lb, lb \<ge> max_lb v), s') \<and> reads {B_IND} s s'"
proof -
  consider (d) "lb < EX_DIRECT" | (s) "\<not> lb < EX_DIRECT" "lb - EX_DIRECT < per v"
    | (dd) "\<not> lb < EX_DIRECT" "\<not> lb - EX_DIRECT < per v" "lb - EX_DIRECT - per v < per v * per v"
    | (t) "\<not> lb < EX_DIRECT" "\<not> lb - EX_DIRECT < per v" "\<not> lb - EX_DIRECT - per v < per v * per v" by blast
  then show ?thesis
  proof cases
    case d
    then show ?thesis by (auto simp: ex_bmap_def bmap_at_def max_lb_def)
  next
    case s
    obtain s1 where "ex_ind v (iblock i 12) (lb - EX_DIRECT) s = (Val (ind_at v (blk v s) (iblock i 12) (lb - EX_DIRECT)), s1)"
      "reads {B_IND} s s1" using ex_ind_run [OF assms] by blast
    then show ?thesis using s by (auto simp: ex_bmap_def bmap_at_def max_lb_def Let_def)
  next
    case dd
    let ?k = "lb - EX_DIRECT - per v"
    obtain s1 where 1: "ex_ind v (iblock i 13) (?k div per v) s = (Val (ind_at v (blk v s) (iblock i 13) (?k div per v)), s1)"
      "reads {B_IND} s s1" using ex_ind_run [OF assms] by blast
    obtain s2 where 2: "ex_ind v (ind_at v (blk v s) (iblock i 13) (?k div per v)) (?k mod per v) s1 =
      (Val (ind_at v (blk v s) (ind_at v (blk v s) (iblock i 13) (?k div per v)) (?k mod per v)), s2)" "reads {B_IND} s1 s2"
      using ex_ind_run [OF assms(1), of s1] reads_io [OF 1(2)] reads_blk [OF 1(2)] assms(2) by metis
    have "reads {B_IND} s s2" by (rule reads_trans [OF 1(2) 2(2)]) simp
    then show ?thesis using dd 1 2 by (auto simp: ex_bmap_def bmap_at_def max_lb_def Let_def)
  next
    case t
    then show ?thesis by (auto simp: ex_bmap_def bmap_at_def max_lb_def Let_def)
  qed
qed

lemma chunk_bytes:
  assumes "0 < B" "p mod B + k \<le> B" "j < k"
  shows "(p + j) div B = p div (B::nat)" "(p + j) mod B = p mod B + j"
proof -
  have p: "p = B * (p div B) + p mod B" by simp
  have l: "p mod B + j < B" using assms by simp
  have e: "p + j = B * (p div B) + (p mod B + j)" using p by linarith
  have g: "(B * q + r) div B = q" "(B * q + r) mod B = r" if "r < B" for q r using that by simp_all
  show "(p + j) div B = p div B" "(p + j) mod B = p mod B + j"
    using g [OF l, of "p div B"] unfolding e [symmetric] .
qed

lemma file_chunk:
  assumes "0 < bsz v" "pos mod bsz v + k \<le> bsz v"
  shows "map (file_byte v D i) [pos..<pos + k] =
    (if bmap_at v D i (pos div bsz v) = 0 then replicate k 0
     else map (D (bmap_at v D i (pos div bsz v))) [pos mod bsz v..<pos mod bsz v + k])"
proof (rule nth_equalityI)
  fix j assume "j < length (map (file_byte v D i) [pos..<pos + k])"
  then have j: "j < k" by simp
  have "file_byte v D i (pos + j) = (if bmap_at v D i (pos div bsz v) = 0 then 0 else D (bmap_at v D i (pos div bsz v)) (pos mod bsz v + j))"
    unfolding file_byte_def chunk_bytes [OF assms j] by (simp add: Let_def)
  then show "map (file_byte v D i) [pos..<pos + k] ! j = (if bmap_at v D i (pos div bsz v) = 0 then replicate k 0
     else map (D (bmap_at v D i (pos div bsz v))) [pos mod bsz v..<pos mod bsz v + k]) ! j" using j by simp
qed simp

lemma data_loop_run:
  assumes "vol_ok v" "io_ok v s" "unat off + len \<le> bsz v * max_lb v"
    "acc = map (file_byte v (blk v s) i) [unat off..<unat off + length acc]" "length acc \<le> len"
  shows "\<exists>s'. data_loop v i off len acc u s = (Val (map (file_byte v (blk v s) i) [unat off..<unat off + len], u), s') \<and>
    reads {B_IND, B_DATA} s s'"
  using assms
proof (induction "len - length acc" arbitrary: acc s rule: less_induct)
  case less
  let ?D = "blk v s" and ?B = "bsz v"
  let ?pos = "unat off + length acc"
  let ?inb = "?pos mod ?B"
  let ?tk = "min (?B - ?inb) (len - length acc)"
  have B: "0 < ?B" using vol_sizes(3) [OF less.prems(1)] by auto
  show ?case
  proof (cases "length acc < len")
    case False
    then have "length acc = len" using less.prems(5) by simp
    then show ?thesis using less.prems(4) False by (subst data_loop.simps) auto
  next
    case True
    have lb: "\<not> max_lb v \<le> ?pos div ?B"
      using True less.prems(3) B by (simp add: not_le less_mult_imp_div_less mult.commute)
    obtain s1 where m: "ex_bmap v i (?pos div ?B) s = (Val (bmap_at v ?D i (?pos div ?B), False), s1)" and r1: "reads {B_IND} s s1"
      using ex_bmap_run [OF less.prems(1,2), of i "?pos div ?B"] lb by auto
    let ?pb = "bmap_at v ?D i (?pos div ?B)"
    have tk: "?inb + ?tk \<le> ?B" using mod_less_divisor [OF B, of ?pos] by linarith
    note ch = file_chunk [OF B tk, of ?D i]
    have acc: "acc @ map (file_byte v ?D i) [?pos..<?pos + ?tk] = map (file_byte v ?D i) [unat off..<unat off + (length acc + ?tk)]"
    proof -
      have "[unat off..<unat off + (length acc + k)] = [unat off..<?pos] @ [?pos..<?pos + k]" for k
        using upt_add_eq_append [of "unat off" ?pos k] by (simp add: add.assoc)
      then show ?thesis using less.prems(4) by (metis map_append)
    qed
    have len: "length acc + ?tk \<le> len" using True by simp
    have "0 < ?tk" using True mod_less_divisor [OF B, of ?pos] by linarith
    then have dec: "len - (length acc + ?tk) < len - length acc" using True by (rule loop_less [rotated])
    let ?acc = "acc @ map (file_byte v ?D i) [?pos..<?pos + ?tk]"
    have "\<exists>t. data_loop v i off len acc u s = data_loop v i off len ?acc u t \<and> reads {B_IND, B_DATA} s t"
    proof (cases "?pb = 0")
      case True
      have "data_loop v i off len acc u s = data_loop v i off len (acc @ replicate ?tk 0) u s1"
        using \<open>length acc < len\<close> B m True by (subst data_loop.simps) (simp add: Let_def)
      moreover have "reads {B_IND, B_DATA} s s1" by (rule reads_mono [OF r1]) simp
      ultimately show ?thesis unfolding ch if_P [OF True] by blast
    next
      case False
      let ?s2 = "load v ?pb B_DATA s1"
      let ?b = "bufs ?s2 B_DATA"
      have io1: "io_ok v s1" using less.prems(2) by (simp add: reads_io [OF r1])
      have e: "map (?D ?pb) [?inb..<?inb + ?tk] = map ?b [?inb..<?inb + ?tk]"
        using tk by (intro map_cong) (auto simp: reads_blk [OF r1])
      have "data_loop v i off len acc u s = data_loop v i off len (acc @ map ?b [?inb..<?inb + ?tk]) u ?s2"
        using \<open>length acc < len\<close> B m False
        by (subst data_loop.simps) (simp add: Let_def seq_def attempt_def ex_block_run [OF less.prems(1) io1])
      moreover have "reads {B_IND, B_DATA} s ?s2" by (rule reads_trans [OF r1, of "{B_DATA}"]) auto
      ultimately show ?thesis unfolding ch if_not_P [OF False] e by blast
    qed
    then obtain t where st: "data_loop v i off len acc u s = data_loop v i off len ?acc u t" and rt: "reads {B_IND, B_DATA} s t" by blast
    have l: "length ?acc = length acc + ?tk" by simp
    have a: "?acc = map (file_byte v (blk v t) i) [unat off..<unat off + length ?acc]"
      unfolding l reads_blk [OF rt] by (rule acc)
    have "len - length ?acc < len - length acc" "length ?acc \<le> len" "io_ok v t"
      unfolding l using dec len less.prems(2) by (simp_all add: reads_io [OF rt])
    from less.hyps [OF this(1) less.prems(1) this(3) less.prems(3) a this(2)] obtain s' where
      s': "data_loop v i off len ?acc u t = (Val (map (file_byte v (blk v t) i) [unat off..<unat off + len], u), s')"
      "reads {B_IND, B_DATA} t s'" by blast
    have "reads {B_IND, B_DATA} s s'" by (rule reads_trans [OF rt s'(2)]) simp
    with st s'(1) show ?thesis unfolding reads_blk [OF rt] by (intro exI [of _ s']) (simp only: simp_thms)
  qed
qed

lemma ex_data_read_run:
  assumes "vol_ok v" and "io_ok v s" and "unat (isize i) \<le> bsz v * max_lb v"
    and "n = min (unat len) (unat (isize i) - unat off)"
  shows "\<exists>s'. ex_data_read v i off len s = (Val (map (file_byte v (blk v s) i) [unat off..<unat off + n], False), s') \<and> reads {B_IND, B_DATA} s s'"
proof (cases "off \<ge> ucast (isize i)")
  case True
  then have "unat (isize i) \<le> unat off" by (simp add: word_le_nat_alt)
  then have "n = 0" using assms(4) by simp
  then show ?thesis using True by (simp add: ex_data_read_def)
next
  case False
  then have "unat off < unat (isize i)" by (simp add: word_le_nat_alt)
  then have "unat off + n \<le> bsz v * max_lb v" using assms(3,4) by linarith
  from data_loop_run [OF assms(1,2) this, of "[]" i False] False assms(4) show ?thesis
    by (auto simp: ex_data_read_def reads_def)
qed

text \<open>C13.  On a working device a read returns exactly the bytes of the file from the offset on, as many
  as asked for and as the size allows; holes read as zero, and direct, single- and double-indirect blocks
  are followed.  The volume is not changed.\<close>

theorem ex_data_read_contents:
  assumes "vol_ok v" and "io_ok v s" and "unat (isize i) \<le> bsz v * max_lb v"
    and "n = min (unat len) (unat (isize i) - unat off)"
  shows "\<exists>s'. ex_data_read v i off len s = (Val (map (file_byte v (blk v s) i) [unat off..<unat off + n], False), s') \<and> sec s' = sec s"
  using ex_data_read_run [OF assms] by (auto simp: reads_def)

section \<open>Fields\<close>

lemma byte32: "bit (ucast (ucast (drop_bit k (w::u32)) :: u8) :: u32) m \<longleftrightarrow> m < 8 \<and> bit w (k + m)"
  by (auto simp: bit_simps dest: bit_imp_le_length)

lemma rd32_wr32 [simp]: "ex_rd32 (wr32 off w b) off = w"
proof (rule bit_word_eqI)
  fix m :: nat assume "m < LENGTH(32)"
  then have m: "m < 8 \<or> 8 \<le> m \<and> m < 16 \<or> 16 \<le> m \<and> m < 24 \<or> 24 \<le> m \<and> m < 32" by auto
  have e: "ex_rd32 (wr32 off w b) off =
    ucast (ucast (drop_bit 0 w) :: u8) OR push_bit 8 (ucast (ucast (drop_bit 8 w) :: u8)) OR
    push_bit 16 (ucast (ucast (drop_bit 16 w) :: u8)) OR push_bit 24 (ucast (ucast (drop_bit 24 w) :: u8))"
    by (simp add: ex_rd32_def wr32_def)
  show "bit (ex_rd32 (wr32 off w b) off) m = bit w m"
    unfolding e bit_or_iff bit_push_bit_iff byte32 using m by (elim disjE conjE) (simp; arith)+
qed

lemma rd16_wr16 [simp]: "ex_rd16 (wr16 off w b) off = ucast w"
proof (rule bit_word_eqI)
  fix m :: nat assume "m < LENGTH(16)"
  then have m: "m < 8 \<or> 8 \<le> m \<and> m < 16" by auto
  have e: "ex_rd16 (wr16 off w b) off = ucast (ucast (drop_bit 0 w) :: u8) OR push_bit 8 (ucast (ucast (drop_bit 8 w) :: u8))"
    by (simp add: ex_rd16_def wr16_def)
  have g: "bit (ucast (ucast (drop_bit k w) :: u8) :: u16) m \<longleftrightarrow> m < 8 \<and> bit w (k + m)" for k m
    by (auto simp: bit_simps dest: bit_imp_le_length)
  show "bit (ex_rd16 (wr16 off w b) off) m = bit (ucast w :: u16) m"
    unfolding e bit_or_iff bit_push_bit_iff g using m by (elim disjE conjE) (simp add: bit_simps; arith)+
qed

lemma wr32_out: "j < off \<or> off + 4 \<le> j \<Longrightarrow> wr32 off w b j = b j"
  by (auto simp: wr32_def)

lemma wr16_out: "j < off \<or> off + 2 \<le> j \<Longrightarrow> wr16 off w b j = b j"
  by (auto simp: wr16_def)

lemma rd32_disjoint:
  "o' + 4 \<le> off \<or> off + 4 \<le> o' \<Longrightarrow> ex_rd32 (wr32 off w b) o' = ex_rd32 b o'"
  "o' + 4 \<le> off \<or> off + 2 \<le> o' \<Longrightarrow> ex_rd32 (wr16 off w b) o' = ex_rd32 b o'"
  by (rule rd32_cong, auto intro!: wr32_out wr16_out)+

lemma rd16_disjoint:
  "o' + 2 \<le> off \<or> off + 4 \<le> o' \<Longrightarrow> ex_rd16 (wr32 off w b) o' = ex_rd16 b o'"
  "o' + 2 \<le> off \<or> off + 2 \<le> o' \<Longrightarrow> ex_rd16 (wr16 off w b) o' = ex_rd16 b o'"
  by (rule rd16_cong, auto intro!: wr32_out wr16_out)+

section \<open>Inode slots\<close>

definition ptrs :: "nat \<Rightarrow> (nat \<Rightarrow> u32) \<Rightarrow> nat \<Rightarrow> buf \<Rightarrow> buf" where
  "ptrs a f n b = fold (\<lambda>k. wr32 (a + k * 4) (f k)) [0..<n] b"

lemma ptrs_Suc: "ptrs a f (Suc n) b = wr32 (a + n * 4) (f n) (ptrs a f n b)"
  by (simp add: ptrs_def)

lemma ptrs_0 [simp]: "ptrs a f 0 b = b"
  by (simp add: ptrs_def)

lemma ptrs_out: "j < a \<or> a + n * 4 \<le> j \<Longrightarrow> ptrs a f n b j = b j"
  by (induction n) (auto simp: ptrs_Suc wr32_out)

lemma rd_ptrs: "k < n \<Longrightarrow> ex_rd32 (ptrs a f n b) (a + k * 4) = f k"
proof (induction n)
  case (Suc n)
  then show ?case by (cases "k = n") (simp_all add: ptrs_Suc rd32_disjoint)
qed simp

lemma inode_encode_ptrs: "inode_encode io i b =
  ptrs (io + 40) (iblock i) 15 (wr32 (io + 28) (iblocks i) (wr32 (io + 4) (isize i) (wr16 io (ucast (imode i)) b)))"
  by (simp add: inode_encode_def ptrs_def)

lemma inode_encode_out: "j < io \<or> io + 100 \<le> j \<Longrightarrow> inode_encode io i b j = b j"
  unfolding inode_encode_ptrs by (subst ptrs_out; auto simp: wr32_out wr16_out)+

lemma ucast_u16_u32 [simp]: "ucast (ucast (x::u16) :: u32) = x"
  by (rule bit_word_eqI) (auto simp: bit_simps)

definition inode_wf :: "ex_inode_t \<Rightarrow> bool" where
  "inode_wf i \<longleftrightarrow> (\<forall>k \<ge> 15. iblock i k = 0)"

lemma inode_decode_encode:
  assumes "inode_wf i"
  shows "inode_decode (inode_encode io i b) io = i"
proof -
  let ?h = "wr32 (io + 28) (iblocks i) (wr32 (io + 4) (isize i) (wr16 io (ucast (imode i)) b))"
  have p: "ptrs (io + 40) (iblock i) 15 ?h j = ?h j" if "j < io + 40" for j using that by (intro ptrs_out) simp
  have "ex_rd16 (inode_encode io i b) io = ex_rd16 ?h io" "ex_rd32 (inode_encode io i b) (io + 4) = ex_rd32 ?h (io + 4)"
    "ex_rd32 (inode_encode io i b) (io + 28) = ex_rd32 ?h (io + 28)"
    unfolding inode_encode_ptrs by ((rule rd32_cong rd16_cong, rule p, simp)+)
  moreover have "ex_rd16 ?h io = imode i" "ex_rd32 ?h (io + 4) = isize i" "ex_rd32 ?h (io + 28) = iblocks i"
    by (simp_all add: rd32_disjoint rd16_disjoint)
  moreover have "ex_rd32 (inode_encode io i b) (io + 40 + k * 4) = iblock i k" if "k < 15" for k
    unfolding inode_encode_ptrs by (rule rd_ptrs [OF that])
  moreover have "iblock (inode_decode (inode_encode io i b) io) = iblock i"
    using calculation(7) assms by (auto simp: inode_decode_def inode_wf_def fun_eq_iff)
  ultimately show ?thesis by (simp add: inode_decode_def)
qed

lemma ex_write_inode_run:
  assumes "vol_ok v" "io_ok v s" "slot_ok v (blk v s) ino"
  shows "\<exists>s'. ex_write_inode v ino i s = (Val (), s') \<and> io_ok v s' \<and>
    blk v s' = put_blk v (slot_blk v (blk v s) ino)
       (inode_encode (slot_off v ino) i (blk v s (slot_blk v (blk v s) ino))) (blk v s) \<and>
    (\<forall>x. x \<noteq> B_META \<longrightarrow> bufs s' x = bufs s x) \<and> geo s' = geo s \<and> ex_held s' = ex_held s \<and> ex_vol_mounted s' = ex_vol_mounted s"
proof -
  let ?b = "slot_blk v (blk v s) ino" and ?io = "slot_off v ino"
  have g: "\<not> (ino = 0 \<or> ino > ex_inodes v)" "\<not> (ex_ipg v = 0 \<or> ex_block_size v = 0)"
    using assms(1,3) by (auto simp: slot_ok_def vol_ok_def)
  have "cut v (inode_encode ?io i (over v (blk v s ?b) x)) = cut v (inode_encode ?io i (blk v s ?b))" for x
  proof
    fix j
    have "inode_encode ?io i (over v f x) j = inode_encode ?io i f j" if "j < bsz v" for f
    proof -
      have w: "wr32 o1 w1 p1 j = wr32 o1 w1 p2 j" if "p1 j = p2 j" for o1 w1 and p1 p2 :: buf using that by (simp add: wr32_def)
      have w': "wr16 o1 w1 p1 j = wr16 o1 w1 p2 j" if "p1 j = p2 j" for o1 w1 and p1 p2 :: buf using that by (simp add: wr16_def)
      have pt: "ptrs a g n p1 j = ptrs a g n p2 j" if "p1 j = p2 j" for a g n and p1 p2 :: buf
        using that by (induction n) (auto simp: ptrs_Suc intro: w)
      show ?thesis unfolding inode_encode_ptrs by (intro pt w w') (simp add: that)
    qed
    then show "cut v (inode_encode ?io i (over v (blk v s ?b) x)) j = cut v (inode_encode ?io i (blk v s ?b)) j"
      by (simp add: cut_def)
  qed
  then have c: "put_blk v ?b (inode_encode ?io i (over v (blk v s ?b) x)) = put_blk v ?b (inode_encode ?io i (blk v s ?b))" for x
    by (simp add: put_blk_def fun_eq_iff)
  show ?thesis
    unfolding ex_write_inode_def if_not_P [OF g(1)] if_not_P [OF g(2)]
    by (simp add: seq_def inode_slot_run [OF assms] err_to_def ex_write_block_run [OF assms(1)] assms(1,2) c)
qed

text \<open>The table of a group does not contain the descriptor that points to it.\<close>

definition slot_sep :: "vol \<Rightarrow> disk \<Rightarrow> u32 \<Rightarrow> bool" where
  "slot_sep v D ino \<longleftrightarrow> blk_lba v (ex_gd_block v (ino_grp v ino)) \<noteq> blk_lba v (slot_blk v D ino)"

lemma slot_put:
  assumes "ino_grp v ino' = ino_grp v ino" "slot_sep v D ino"
  shows "slot_itab v (put_blk v (slot_blk v D ino) f D) ino' = slot_itab v D ino'"
    "slot_blk v (put_blk v (slot_blk v D ino) f D) ino' = slot_blk v D ino'"
  using assms by (simp_all add: slot_itab_def slot_blk_def put_blk_def slot_sep_def)

text \<open>Two inodes of a group never share bytes of the table.\<close>

definition isz_ok :: "vol \<Rightarrow> bool" where
  "isz_ok v \<longleftrightarrow> ex_inode_size v \<in> {128, 256, 512, 1024} \<and> unat (ex_ipg v) * unat (ex_inode_size v) < 2 ^ 32"

lemma slots_disjoint:
  assumes "vol_ok v" "isz_ok v" "ino_grp v ino' = ino_grp v ino" "ino' \<noteq> ino" "ino \<noteq> 0" "ino' \<noteq> 0" "ex_ipg v \<noteq> 0"
    "slot_blk v D ino' = slot_blk v D ino"
  shows "slot_off v ino + 128 \<le> slot_off v ino' \<or> slot_off v ino' + 128 \<le> slot_off v ino"
proof -
  let ?z = "unat (ex_inode_size v)" and ?B = "bsz v"
  define k k' where "k = unat ((ino - 1) mod ex_ipg v)" and "k' = unat ((ino' - 1) mod ex_ipg v)"
  have z: "?z \<in> {128, 256, 512, 1024}" using assms(2) by (auto simp: isz_ok_def)
  have B: "unat (ex_block_size v) = ?B" "?B \<in> {1024, 2048, 4096}" using vol_sizes(3) [OF assms(1)] by (simp_all add: bsz_def)
  have lt: "k < unat (ex_ipg v)" "k' < unat (ex_ipg v)" using assms(7) by (simp_all add: k_def k'_def unat_mod unat_gt_0)
  have ov: "k * ?z < 2 ^ 32" "k' * ?z < 2 ^ 32"
    using lt assms(2) mult_le_mono1 [of k "unat (ex_ipg v)" ?z] mult_le_mono1 [of k' "unat (ex_ipg v)" ?z]
    unfolding isz_ok_def by linarith+
  have m: "unat ((ino - 1) mod ex_ipg v * ex_inode_size v) = k * ?z" "unat ((ino' - 1) mod ex_ipg v * ex_inode_size v) = k' * ?z"
    using ov by (simp_all add: unat_word_ariths k_def k'_def)
  have off: "slot_off v ino = k * ?z mod ?B" "slot_off v ino' = k' * ?z mod ?B"
    unfolding slot_off_def unat_mod m B(1) by simp_all
  have "slot_itab v D ino' = slot_itab v D ino" using assms(3) by (simp add: slot_itab_def)
  then have "(ino' - 1) mod ex_ipg v * ex_inode_size v div ex_block_size v = (ino - 1) mod ex_ipg v * ex_inode_size v div ex_block_size v"
    using assms(8) by (simp add: slot_blk_def)
  then have q: "k' * ?z div ?B = k * ?z div ?B" by (metis B(1) m unat_div)
  have "k \<noteq> k'"
  proof
    assume "k = k'"
    then have "(ino - 1) mod ex_ipg v = (ino' - 1) mod ex_ipg v" unfolding k_def k'_def by (rule unsigned_word_eqI)
    with assms(3) have "ino - 1 = ino' - 1" unfolding ino_grp_def by (metis word_mod_div_equality)
    with assms(4) show False by simp
  qed
  then have "k * ?z + ?z \<le> k' * ?z \<or> k' * ?z + ?z \<le> k * ?z"
    using mult_le_mono1 [of "Suc k" k' ?z] mult_le_mono1 [of "Suc k'" k ?z] by (auto simp: nat_neq_iff)
  then have "k * ?z + 128 \<le> k' * ?z \<or> k' * ?z + 128 \<le> k * ?z" using z by auto
  moreover have "k * ?z = ?B * (k * ?z div ?B) + k * ?z mod ?B" "k' * ?z = ?B * (k * ?z div ?B) + k' * ?z mod ?B"
    using q by (metis mult_div_mod_eq)+
  ultimately show ?thesis unfolding off by linarith
qed

text \<open>C17.  An inode written back is read again unchanged, and every other inode of the group reads as
  before.\<close>

theorem inode_write_read:
  assumes "vol_ok v" and "isz_ok v" and "io_ok v s" and "slot_ok v (blk v s) ino" and "slot_sep v (blk v s) ino" and "inode_wf i"
    and "slot_ok v (blk v s) ino'" and "ino_grp v ino' = ino_grp v ino" and "ino' \<noteq> ino"
  shows "\<exists>s' s''. ex_write_inode v ino i s = (Val (), s') \<and> ex_inode v ino s' = (Val i, s'') \<and>
    fst (ex_inode v ino' s') = fst (ex_inode v ino' s)"
proof -
  let ?D = "blk v s" and ?b = "slot_blk v (blk v s) ino"
  let ?f = "inode_encode (slot_off v ino) i (?D ?b)"
  let ?E = "put_blk v ?b ?f ?D"
  obtain s' where w: "ex_write_inode v ino i s = (Val (), s')" and io: "io_ok v s'" and D: "blk v s' = ?E"
    using ex_write_inode_run [OF assms(1,3,4)] by blast
  note p = slot_put [OF _ assms(5), where f = ?f]
  have ok: "slot_ok v ?E ino" "slot_ok v ?E ino'"
    using assms(4,7) p(1) [of ino] p(1) [of ino'] p(2) [of ino] p(2) [of ino'] assms(8) by (simp_all add: slot_ok_def)
  have b: "slot_off v ino + 128 \<le> bsz v" "slot_off v ino' + 128 \<le> bsz v" using assms(4,7) by (simp_all add: slot_ok_def)
  have "inode_at v ?E ino = inode_decode (cut v ?f) (slot_off v ino)" using p(2) [of ino] by (simp add: inode_at_def put_blk_def)
  also have "\<dots> = inode_decode ?f (slot_off v ino)" using b by (intro inode_decode_cong) simp
  also have "\<dots> = i" by (rule inode_decode_encode [OF assms(6)])
  finally have 1: "inode_at v ?E ino = i" .
  have 2: "inode_at v ?E ino' = inode_at v ?D ino'"
  proof (cases "blk_lba v (slot_blk v ?D ino') = blk_lba v ?b")
    case False
    then show ?thesis using p(2) [of ino'] assms(8) by (simp add: inode_at_def put_blk_def)
  next
    case True
    have same: "slot_blk v ?D ino' = slot_blk v ?D ino"
      using lba_inj [OF assms(1) _ _ True] assms(4,7) by (simp add: slot_ok_def)
    have d: "slot_off v ino + 128 \<le> slot_off v ino' \<or> slot_off v ino' + 128 \<le> slot_off v ino"
      using slots_disjoint [OF assms(1,2,8,9) _ _ _ same] assms(4,7) by (simp add: slot_ok_def)
    show ?thesis
      using p(2) [of ino'] assms(8) True same b d unfolding inode_at_def put_blk_def
      by (auto intro!: inode_decode_cong inode_encode_out)
  qed
  obtain s'' where "ex_inode v ino s' = (Val (inode_at v ?E ino), s'')"
    using ex_inode_run [OF assms(1) io] ok(1) unfolding D by blast
  moreover have "fst (ex_inode v ino' s') = Val (inode_at v ?E ino')"
    using ex_inode_run [OF assms(1) io] ok(2) unfolding D by force
  moreover have "fst (ex_inode v ino' s) = Val (inode_at v ?D ino')"
    using ex_inode_run [OF assms(1,3,7)] by force
  ultimately show ?thesis using w 1 2 by auto
qed

section \<open>Unreadable indirect blocks\<close>

lemma ex_block_fault:
  assumes "vol_ok v" "drive_ok s (ex_drive v)" "fault s (ncmd s) = Some m"
  shows "ex_block v b dst s = (Err EX_EIO, s\<lparr>ncmd := Suc (ncmd s)\<rparr>)"
  using assms nsec_dvd(3) [OF assms(1)] chunk_whole(1) [OF assms(1), of b] unfolding ex_block_def nsec_def [symmetric]
  by (subst rd_loop.simps) (simp add: seq_def err_to_def ahci64_read_def)

text \<open>When an indirect block cannot be read, a read of file bytes behind it does not fail: it
  returns zeros.\<close>

theorem indirect_error_reads_zeros:
  assumes "vol_ok v" and "drive_ok s (ex_drive v)" and "fault s (ncmd s) = Some m" and "iblock i 12 \<noteq> 0"
    and "EX_DIRECT \<le> unat off div bsz v" and "unat off div bsz v < EX_DIRECT + per v"
    and "unat off + unat len \<le> unat (isize i)" and "0 < unat len" and "unat off mod bsz v + unat len \<le> bsz v"
  shows "fst (ex_data_read v i off len s) = Val (replicate (unat len) 0, False)"
proof -
  let ?lb = "unat off div bsz v"
  have B: "0 < bsz v" using vol_sizes(3) [OF assms(1)] by auto
  have "ex_ind v (iblock i 12) (?lb - EX_DIRECT) s = (Val 0, s\<lparr>ncmd := Suc (ncmd s)\<rparr>)"
    using assms(4-6) by (simp add: ex_ind_def attempt_def seq_def ex_block_fault [OF assms(1-3)])
  then have m: "ex_bmap v i ?lb s = (Val (0, False), s\<lparr>ncmd := Suc (ncmd s)\<rparr>)"
    using assms(5,6) by (simp add: ex_bmap_def Let_def less_diff_conv2)
  have d: "data_loop v i off (unat len) (replicate (unat len) 0) False t = (Val (replicate (unat len) 0, False), t)" for t
    by (subst data_loop.simps) simp
  have "min (bsz v - unat off mod bsz v) (unat len) = unat len" using assms(9) by simp
  then have l: "data_loop v i off (unat len) [] False s = (Val (replicate (unat len) 0, False), s\<lparr>ncmd := Suc (ncmd s)\<rparr>)"
    using assms(8) B m d by (subst data_loop.simps) (simp add: Let_def)
  have "\<not> off \<ge> ucast (isize i)" "min (unat len) (unat (isize i) - unat off) = unat len"
    using assms(7,8) by (simp_all add: word_le_nat_alt)
  then show ?thesis by (simp add: ex_data_read_def l)
qed

section \<open>Directory blocks\<close>

text \<open>A record and a chain of records; both depend only on the bytes they span.\<close>

definition rec_ok :: "buf \<Rightarrow> nat \<Rightarrow> bool" where
  "rec_ok b r \<longleftrightarrow> 8 \<le> dent_rlen b r \<and> (dent_ino b r \<noteq> 0 \<longrightarrow> 8 + dent_nlen b r \<le> dent_rlen b r)"

primrec recs :: "buf \<Rightarrow> nat \<Rightarrow> nat list \<Rightarrow> nat \<Rightarrow> bool" where
  "recs b off [] e \<longleftrightarrow> off = e"
| "recs b off (r # rs) e \<longleftrightarrow> r = off \<and> rec_ok b r \<and> r + dent_rlen b r \<le> e \<and> recs b (r + dent_rlen b r) rs e"

definition dir_wf :: "nat \<Rightarrow> buf \<Rightarrow> bool" where
  "dir_wf bs b \<longleftrightarrow> recs b 0 (dir_offs bs b 0) bs"

lemma recs_offs: "recs b off rs bs \<Longrightarrow> dir_offs bs b off = rs"
proof (induction rs arbitrary: off)
  case Nil
  then show ?case by (simp add: dir_offs.simps)
next
  case (Cons r rs)
  then show ?case by (subst dir_offs.simps) (auto simp: rec_ok_def)
qed

lemma recs_le: "recs b off rs e \<Longrightarrow> off \<le> e"
  by (cases rs) auto

lemma recs_append: "recs b off (rs @ r # rs') e \<longleftrightarrow>
  recs b off rs r \<and> rec_ok b r \<and> r + dent_rlen b r \<le> e \<and> recs b (r + dent_rlen b r) rs' e"
proof (induction rs arbitrary: off)
  case (Cons a rs)
  then show ?case using recs_le by (auto, meson recs_le le_trans le_add1)
qed auto

lemma recs_mem: "recs b off rs e \<Longrightarrow> r \<in> set rs \<Longrightarrow> off \<le> r \<and> rec_ok b r \<and> r + dent_rlen b r \<le> e"
proof (induction rs arbitrary: off)
  case (Cons a rs)
  then show ?case by (cases "r = a") (auto, meson le_add1 le_trans)
qed simp

definition same_bytes :: "nat \<Rightarrow> nat \<Rightarrow> buf \<Rightarrow> buf \<Rightarrow> bool" where
  "same_bytes a e b b' \<longleftrightarrow> (\<forall>j. a \<le> j \<and> j < e \<longrightarrow> b' j = b j)"

lemma rec_cong:
  assumes "rec_ok b r" "same_bytes r (r + dent_rlen b r) b b'"
  shows "dent_rlen b' r = dent_rlen b r" "dent_ino b' r = dent_ino b r" "dent_nlen b' r = dent_nlen b r" "rec_ok b' r"
    "dent_match bs b' nm r = dent_match bs b nm r"
proof -
  have s: "b' j = b j" if "r \<le> j" "j < r + dent_rlen b r" for j using assms(2) that by (simp add: same_bytes_def)
  have l: "8 \<le> dent_rlen b r" using assms(1) by (simp add: rec_ok_def)
  show rl: "dent_rlen b' r = dent_rlen b r" using l by (auto simp: dent_rlen_def intro!: arg_cong [of _ _ unat] rd16_cong s)
  show i: "dent_ino b' r = dent_ino b r" using l by (auto simp: dent_ino_def intro!: rd32_cong s)
  show n: "dent_nlen b' r = dent_nlen b r" using l s [of "r + 6"] by (simp add: dent_nlen_def)
  show "rec_ok b' r" using assms(1) by (simp add: rec_ok_def rl i n)
  have "dent_name b' r = dent_name b r" if "dent_ino b r \<noteq> 0"
    using that assms(1) unfolding dent_name_def n by (auto simp: rec_ok_def intro!: s)
  then show "dent_match bs b' nm r = dent_match bs b nm r" by (auto simp: dent_match_def dent_live_def i n)
qed

lemma recs_cong: "recs b off rs e \<Longrightarrow> same_bytes off e b b' \<Longrightarrow> recs b' off rs e"
proof (induction rs arbitrary: off)
  case (Cons r rs)
  then have "same_bytes r (r + dent_rlen b r) b b'" "same_bytes (r + dent_rlen b r) e b b'" by (auto simp: same_bytes_def)
  with Cons rec_cong [of b r b'] show ?case by auto
qed simp

lemma find_cong': "(\<And>x. x \<in> set xs \<Longrightarrow> P x = Q x) \<Longrightarrow> find P xs = find Q xs"
  by (induction xs) auto

lemma find_append: "find P (xs @ ys) = (case find P xs of None \<Rightarrow> find P ys | Some x \<Rightarrow> Some x)"
  by (induction xs) auto

text \<open>What \<^verbatim>\<open>dir_find\<close> makes of a stretch of records.\<close>

definition chain_find :: "nat \<Rightarrow> buf \<Rightarrow> u8 list \<Rightarrow> nat list \<Rightarrow> u32 option" where
  "chain_find bs b nm rs = map_option (dent_ino b) (find (dent_match bs b nm) rs)"

lemma chain_find_simps:
  "chain_find bs b nm [] = None"
  "chain_find bs b nm (r # rs) = (if dent_match bs b nm r then Some (dent_ino b r) else chain_find bs b nm rs)"
  "chain_find bs b nm (xs @ ys) = (case chain_find bs b nm xs of None \<Rightarrow> chain_find bs b nm ys | Some i \<Rightarrow> Some i)"
  by (simp_all add: chain_find_def find_append split: option.splits)

lemma chain_find_cong:
  assumes "recs b off rs e" "same_bytes off e b b'"
  shows "chain_find bs b' nm rs = chain_find bs b nm rs"
proof -
  have "same_bytes r (r + dent_rlen b r) b b' \<and> rec_ok b r" if "r \<in> set rs" for r
    using recs_mem [OF assms(1) that] assms(2) by (auto simp: same_bytes_def)
  then have c: "dent_match bs b' nm r = dent_match bs b nm r" "dent_ino b' r = dent_ino b r" if "r \<in> set rs" for r
    using that rec_cong(2,5) by blast+
  then have "find (dent_match bs b' nm) rs = find (dent_match bs b nm) rs" by (intro find_cong')
  moreover have "find P rs = Some r \<Longrightarrow> r \<in> set rs" for P r by (auto simp: find_Some_iff)
  ultimately show ?thesis using c(2) by (cases "find (dent_match bs b nm) rs") (auto simp: chain_find_def)
qed

lemma dir_find_chain: "recs b 0 rs bs \<Longrightarrow> dir_find bs b nm = chain_find bs b nm rs"
  by (simp add: dir_find_def chain_find_def recs_offs)

section \<open>Inserting a name\<close>

lemma put_dent_out:
  "j < off \<or> off + 8 + length nm \<le> j \<or> j = off + 4 \<or> j = off + 5 \<Longrightarrow> put_dent off ino nm isd b j = b j"
  by (auto simp: put_dent_def wr_bytes_def wr32_def)

lemma put_dent_fields:
  assumes "length nm < 256"
  shows "dent_ino (put_dent off ino nm isd b) off = ino" "dent_nlen (put_dent off ino nm isd b) off = length nm"
    "dent_name (put_dent off ino nm isd b) off = nm" "dent_rlen (put_dent off ino nm isd b) off = dent_rlen b off"
proof -
  have "put_dent off ino nm isd b j = wr32 off ino b j" if "off \<le> j" "j < off + 4" for j
    using that by (simp add: put_dent_def wr_bytes_def)
  then show "dent_ino (put_dent off ino nm isd b) off = ino"
    unfolding dent_ino_def by (metis rd32_cong rd32_wr32)
  show n: "dent_nlen (put_dent off ino nm isd b) off = length nm"
    using assms by (simp add: dent_nlen_def put_dent_def wr_bytes_def unat_of_nat)
  show "dent_name (put_dent off ino nm isd b) off = nm"
    unfolding dent_name_def n by (rule nth_equalityI) (simp_all add: put_dent_def wr_bytes_def)
  show "dent_rlen (put_dent off ino nm isd b) off = dent_rlen b off"
    unfolding dent_rlen_def by (rule arg_cong [of _ _ unat], rule rd16_cong, rule put_dent_out) auto
qed

lemma round4: "n \<le> round4 n" "round4 n < n + 4"
  unfolding round4_def by presburger+

definition name_ok :: "u8 list \<Rightarrow> bool" where
  "name_ok nm \<longleftrightarrow> nm \<noteq> [] \<and> length nm \<le> 63 \<and> 0 \<notin> set nm"

lemma cbytes_id: "0 \<notin> set nm \<Longrightarrow> cbytes nm = nm"
  unfolding cbytes_def takeWhile_eq_all_conv by auto

lemma put_dent_match:
  assumes "name_ok nm" "ino \<noteq> 0" "off + 8 + length nm \<le> bs"
  shows "dent_match bs (put_dent off ino nm isd b) x off \<longleftrightarrow> x = nm"
  using assms put_dent_fields [of nm off ino isd b] cbytes_id [of nm] by (auto simp: dent_match_def dent_live_def name_ok_def)

text \<open>Replacing the record \<open>r\<close> of a chain by the records \<open>new\<close>, which fill the same bytes.\<close>

lemma chain_replace:
  assumes "recs b 0 (rs @ r # rs') bs" and "\<And>j. j < r \<or> r + dent_rlen b r \<le> j \<Longrightarrow> b' j = b j"
    and "recs b' r new (r + dent_rlen b r)"
  shows "recs b' 0 (rs @ new @ rs') bs"
    "dir_find bs b' x = chain_find bs b' x (rs @ new @ rs')"
    "chain_find bs b' x rs = chain_find bs b x rs" "chain_find bs b' x rs' = chain_find bs b x rs'"
    "dir_find bs b x = chain_find bs b x (rs @ r # rs')"
proof -
  have p: "recs b 0 rs r" "recs b (r + dent_rlen b r) rs' bs" "r + dent_rlen b r \<le> bs"
    using assms(1) by (simp_all add: recs_append)
  have s: "same_bytes 0 r b b'" "same_bytes (r + dent_rlen b r) bs b b'" using assms(2) by (auto simp: same_bytes_def)
  have join: "recs c a (xs @ ys) e" if "recs c a xs m" "recs c m ys e" "m \<le> e" for c a xs ys m e
    using that by (induction xs arbitrary: a) auto
  have "recs b' r (new @ rs') bs"
    by (rule join [OF assms(3)]) (use recs_cong [OF p(2) s(2)] p(3) in auto)
  moreover have "r \<le> bs" using p(3) by simp
  ultimately show c: "recs b' 0 (rs @ new @ rs') bs" using join [OF recs_cong [OF p(1) s(1)]] by blast
  then show "dir_find bs b' x = chain_find bs b' x (rs @ new @ rs')" by (rule dir_find_chain)
  show "chain_find bs b' x rs = chain_find bs b x rs" by (rule chain_find_cong [OF p(1) s(1)])
  show "chain_find bs b' x rs' = chain_find bs b x rs'" by (rule chain_find_cong [OF p(2) s(2)])
  show "dir_find bs b x = chain_find bs b x (rs @ r # rs')" by (rule dir_find_chain [OF assms(1)])
qed

lemma place_hole:
  assumes "recs b 0 (rs @ r # rs') bs" "dent_ino b r = 0" "dent_need nm \<le> dent_rlen b r" "name_ok nm" "ino \<noteq> 0"
    "dir_find bs b nm = None" "b' = put_dent r ino nm isd b"
  shows "dir_wf bs b' \<and> dir_find bs b' nm = Some ino \<and> (\<forall>x. x \<noteq> nm \<longrightarrow> dir_find bs b' x = dir_find bs b x)"
proof -
  have len: "length nm < 256" "8 + length nm \<le> dent_rlen b r"
    using assms(3,4) round4(1) [of "8 + length nm"] by (auto simp: name_ok_def dent_need_def)
  note f = put_dent_fields [OF len(1), of r ino isd b, folded assms(7)]
  have rr: "rec_ok b r" "r + dent_rlen b r \<le> bs" using assms(1) by (simp_all add: recs_append)
  have out: "b' j = b j" if "j < r \<or> r + dent_rlen b r \<le> j" for j
    using that len(2) unfolding assms(7) by (intro put_dent_out) auto
  have new: "recs b' r [r] (r + dent_rlen b r)" using len(2) rr by (simp add: rec_ok_def f)
  have m: "dent_match bs b' x r \<longleftrightarrow> x = nm" for x
    unfolding assms(7) using rr len(2) by (intro put_dent_match [OF assms(4,5)]) simp
  have nm: "\<not> dent_match bs b x r" for x using assms(2) by (simp add: dent_match_def dent_live_def)
  note c = chain_replace [OF assms(1) out new]
  have n: "chain_find bs b nm rs = None" using assms(6) c(5) [of nm] by (auto simp: chain_find_simps split: option.splits)
  have "dir_wf bs b'" using c(1) recs_offs [OF c(1)] by (simp add: dir_wf_def)
  then show ?thesis using c(2-5) n m nm f(1) by (simp add: chain_find_simps split: option.splits)
qed

lemma place_slack:
  assumes "recs b 0 (rs @ r # rs') bs" "dent_ino b r \<noteq> 0" "u = dent_used b r" "u < dent_rlen b r"
    "dent_need nm \<le> dent_rlen b r - u" "name_ok nm" "ino \<noteq> 0" "dir_find bs b nm = None"
    "b' = put_dent (r + u) ino nm isd (wr16 (r + u + 4) (of_nat (dent_rlen b r - u)) (wr16 (r + 4) (of_nat u) b))"
  shows "dir_wf bs b' \<and> dir_find bs b' nm = Some ino \<and> (\<forall>x. x \<noteq> nm \<longrightarrow> dir_find bs b' x = dir_find bs b x)"
proof -
  let ?l = "dent_rlen b r"
  let ?b1 = "wr16 (r + 4) (of_nat u) b"
  let ?b2 = "wr16 (r + u + 4) (of_nat (?l - u)) ?b1"
  have rr: "rec_ok b r" "r + ?l \<le> bs" using assms(1) by (simp_all add: recs_append)
  have l16: "?l < 65536" using unsigned_less [of "ex_rd16 b (r + 4)"] by (simp add: dent_rlen_def)
  have u: "8 + dent_nlen b r \<le> u" using round4(1) [of "8 + dent_nlen b r"] by (simp add: assms(3) dent_used_def)
  have len: "length nm < 256" "u + (8 + length nm) \<le> ?l"
    using assms(4-6) round4(1) [of "8 + length nm"] by (auto simp: name_ok_def dent_need_def)
  note f = put_dent_fields [OF len(1), of "r + u" ino isd ?b2, folded assms(9)]
  have o2: "b' j = ?b1 j" if "j < r + u \<or> r + ?l \<le> j" for j
  proof -
    have "b' j = ?b2 j" unfolding assms(9) using that len(2) by (intro put_dent_out) auto
    also have "\<dots> = ?b1 j" using that len(2) by (intro wr16_out) auto
    finally show ?thesis .
  qed
  have out: "b' j = b j" if "j < r \<or> r + ?l \<le> j" for j
    using that o2 [of j] wr16_out [of j "r + 4" "of_nat u" b] len(2) u by auto
  have r16: "unat (ucast (of_nat n :: u32) :: u16) = n" if "n < 65536" for n
    using that by (simp add: unsigned_ucast_eq unat_of_nat take_bit_nat_eq_self)
  have rl': "dent_rlen b' (r + u) = ?l - u"
    using f(4) r16 [of "?l - u"] l16 by (simp add: dent_rlen_def [of ?b2] del: of_nat_diff)
  have rl: "dent_rlen b' r = u"
  proof -
    have "ex_rd16 b' (r + 4) = ex_rd16 ?b1 (r + 4)" by (rule rd16_cong, rule o2) (use u in auto)
    then show ?thesis using r16 [of u] l16 assms(4) by (simp add: dent_rlen_def)
  qed
  have s1: "b' j = b j" if "r \<le> j" "j < r + u" "j \<noteq> r + 4" "j \<noteq> r + 5" for j
    using o2 [of j] that by (simp add: wr16_def)
  have i: "dent_ino b' r = dent_ino b r" unfolding dent_ino_def by (rule rd32_cong, rule s1) (use u in auto)
  have n: "dent_nlen b' r = dent_nlen b r" unfolding dent_nlen_def using s1 [of "r + 6"] u by simp
  have na: "dent_name b' r = dent_name b r" unfolding dent_name_def n using s1 u by auto
  have "8 \<le> ?l - u" "8 + length nm \<le> ?l - u" using len(2) by linarith+
  then have new: "recs b' r [r, r + u] (r + ?l)" using len(2) u assms(4) by (simp add: rec_ok_def f(1-3) rl rl' i n)
  have m: "dent_match bs b' x (r + u) \<longleftrightarrow> x = nm" for x
    unfolding assms(9) using rr len(2) by (intro put_dent_match [OF assms(6,7)]) simp
  have mr: "dent_match bs b' x r = dent_match bs b x r" for x by (simp add: dent_match_def dent_live_def i n na)
  note c = chain_replace [OF assms(1) out new]
  have none: "chain_find bs b nm rs = None" "\<not> dent_match bs b nm r"
    using assms(8) c(5) [of nm] by (auto simp: chain_find_simps split: option.splits if_splits)
  have "dir_wf bs b'" using c(1) recs_offs [OF c(1)] by (simp add: dir_wf_def)
  then show ?thesis using c(2-5) none m mr f(1) i by (simp add: chain_find_simps split: option.splits)
qed

text \<open>C16.  Inserting a new name into a well-formed directory block keeps it well formed; afterwards the
  name is found with its inode and every other name is looked up as before.\<close>

theorem dir_place_find:
  assumes "dir_wf bs b" and "name_ok nm" and "ino \<noteq> 0" and "dir_find bs b nm = None" and "dir_place bs ino nm isd b = Some b'"
  shows "dir_wf bs b' \<and> dir_find bs b' nm = Some ino \<and> (\<forall>x. x \<noteq> nm \<longrightarrow> dir_find bs b' x = dir_find bs b x)"
proof -
  obtain r where r: "find (dent_fits b (dent_need nm)) (dir_offs bs b 0) = Some r"
    using assms(5) by (auto simp: dir_place_def split: option.splits)
  then have "r \<in> set (dir_offs bs b 0)" and fit: "dent_fits b (dent_need nm) r" by (auto simp: find_Some_iff)
  then obtain rs rs' where "dir_offs bs b 0 = rs @ r # rs'" by (meson split_list)
  then have c: "recs b 0 (rs @ r # rs') bs" using assms(1) by (simp add: dir_wf_def)
  show ?thesis
  proof (cases "dent_ino b r = 0")
    case True
    show ?thesis
      by (rule place_hole [OF c True _ assms(2-4)]) (use fit True r assms(5) in \<open>auto simp: dent_fits_def dir_place_def\<close>)
  next
    case False
    show ?thesis
      by (rule place_slack [OF c False refl _ _ assms(2-4)])
         (use fit False r assms(5) in \<open>auto simp: dent_fits_def dir_place_def Let_def\<close>)
  qed
qed

end
