(* ===== verification/Ext_Alloc.thy ===== *)
theory Ext_Alloc
  imports Ext_Disk
begin

text \<open>
  Block allocation on the volume: the loops stop at the first free data block, metadata is never
  handed out, and the bytes an allocation changes are known exactly.  The last section is a small
  concrete volume.
\<close>

section \<open>Loops that stop at the first hit\<close>

lemma each_run:
  assumes "P s" and "\<And>x t. x \<in> set xs \<Longrightarrow> P t \<Longrightarrow> \<not> hit x \<Longrightarrow> \<exists>t'. f x t = (Val None, t') \<and> P t'"
    and "\<And>x t. x \<in> set xs \<Longrightarrow> P t \<Longrightarrow> hit x \<Longrightarrow> \<exists>r t'. f x t = (Val (Some r), t')"
  shows "case find hit xs of None \<Rightarrow> \<exists>t. P t \<and> each f xs s = (Val None, t) | Some x \<Rightarrow> \<exists>t. P t \<and> each f xs s = f x t"
  using assms
proof (induction xs arbitrary: s)
  case (Cons x xs)
  show ?case
  proof (cases "hit x")
    case True
    with Cons.prems(1,3) obtain r t' where "f x s = (Val (Some r), t')" by (meson list.set_intros(1))
    then show ?thesis using True Cons.prems(1) by (auto simp: seq_def)
  next
    case False
    with Cons.prems(1,2) obtain t where t: "f x s = (Val None, t)" "P t" by (meson list.set_intros(1))
    have "case find hit xs of None \<Rightarrow> \<exists>u. P u \<and> each f xs t = (Val None, u) | Some y \<Rightarrow> \<exists>u. P u \<and> each f xs t = f y u"
      using Cons.prems(2,3) by (intro Cons.IH [OF t(2)]) auto
    then show ?thesis using False t by (simp split: option.splits)
  qed
qed simp

section \<open>Metadata blocks\<close>

definition bbm_of :: "vol \<Rightarrow> disk \<Rightarrow> u32 \<Rightarrow> u32" where
  "bbm_of v D g = ex_rd32 (D (ex_gd_block v g)) (gd_off v g)"

definition meta_group :: "vol \<Rightarrow> disk \<Rightarrow> u32 \<Rightarrow> u32 \<Rightarrow> bool" where
  "meta_group v D b g \<longleftrightarrow> b = ex_gd_block v g \<or>
     (let t = D (ex_gd_block v g); off = gd_off v g; bbm = ex_rd32 t off; ibm = ex_rd32 t (off + 4); itab = ex_rd32 t (off + 8);
          ipgb = (ex_ipg v * ex_inode_size v + ex_block_size v - 1) div ex_block_size v
      in b = bbm \<or> b = ibm \<or> (bbm \<noteq> 0 \<and> b > g * ex_bpg v \<and> b < bbm) \<or> (itab \<noteq> 0 \<and> b \<ge> itab \<and> b < itab + ipgb))"

definition meta_at :: "vol \<Rightarrow> disk \<Rightarrow> u32 \<Rightarrow> bool" where
  "meta_at v D b \<longleftrightarrow> b = 0 \<or> b < ex_first_block v \<or> (b \<ge> 1024 div ex_block_size v \<and> b \<le> 2047 div ex_block_size v) \<or>
     (\<exists>g \<in> set (groups (ex_blocks v) (ex_bpg v)). meta_group v D b g)"

lemma is_meta_group_run:
  assumes "vol_ok v" "io_ok v s"
  shows "\<exists>s'. is_meta_group v b g s = (Val (if meta_group v (blk v s) b g then Some () else None), s') \<and> reads {B_META2} s s'"
proof (cases "b = ex_gd_block v g")
  case False
  let ?o = "over v (blk v s (ex_gd_block v g)) (bufs s B_META2)"
  have c: "ex_rd32 ?o (gd_off v g + k) = ex_rd32 (blk v s (ex_gd_block v g)) (gd_off v g + k)" if "k \<le> 28" for k
    using gd_geometry(3) [OF assms(1), of g] that by (intro rd32_cong) simp
  have c0: "ex_rd32 ?o (gd_off v g) = ex_rd32 (blk v s (ex_gd_block v g)) (gd_off v g)" using c [of 0] by simp
  show ?thesis
    using False c [of 4] c [of 8] c0
    by (simp add: is_meta_group_def meta_group_def attempt_def seq_def ex_block_run [OF assms] Let_def)
qed (auto simp: is_meta_group_def meta_group_def)

lemma ex_is_meta_run:
  assumes "vol_ok v" "io_ok v s" "ex_bpg v \<noteq> 0"
  shows "\<exists>s'. ex_is_meta v b s = (Val (meta_at v (blk v s) b), s') \<and> reads {B_META2} s s'"
proof -
  let ?gs = "groups (ex_blocks v) (ex_bpg v)"
  let ?P = "\<lambda>t. reads {B_META2} s t"
  have z: "ex_block_size v \<noteq> 0" using assms(1) by (auto simp: vol_ok_def)
  have st: "\<exists>t'. is_meta_group v b g t = (Val (if meta_group v (blk v s) b g then Some () else None), t') \<and> ?P t'"
    if P: "?P t" for g t
  proof -
    have "io_ok v t" using assms(2) by (simp add: reads_io [OF P])
    from is_meta_group_run [OF assms(1) this, of b g] obtain t' where
      t': "is_meta_group v b g t = (Val (if meta_group v (blk v s) b g then Some () else None), t')" "reads {B_META2} t t'"
      by (auto simp: reads_blk [OF P])
    have "?P t'" by (rule reads_trans [OF P t'(2)]) simp
    with t'(1) show ?thesis by blast
  qed
  let ?h = "meta_group v (blk v s) b"
  have r: "case find ?h ?gs of None \<Rightarrow> \<exists>t. ?P t \<and> each (is_meta_group v b) ?gs s = (Val None, t)
        | Some g \<Rightarrow> \<exists>t. ?P t \<and> each (is_meta_group v b) ?gs s = is_meta_group v b g t"
  proof (rule each_run)
    show "?P s" by simp
    show "\<exists>t'. is_meta_group v b g t = (Val None, t') \<and> ?P t'" if "?P t" "\<not> ?h g" for g t
      using st [OF that(1), of g] unfolding if_not_P [OF that(2)] .
    show "\<exists>r t'. is_meta_group v b g t = (Val (Some r), t')" if "?P t" "?h g" for g t
      using st [OF that(1), of g] unfolding if_P [OF that(2)] by blast
  qed
  have e: "\<exists>t. each (is_meta_group v b) ?gs s = (Val (if \<exists>g \<in> set ?gs. ?h g then Some () else None), t) \<and> ?P t"
  proof (cases "find ?h ?gs")
    case None
    then have n: "\<not> (\<exists>g \<in> set ?gs. ?h g)" by (simp add: find_None_iff)
    show ?thesis using r None unfolding if_not_P [OF n] by auto
  next
    case (Some g)
    then have g: "\<exists>g \<in> set ?gs. ?h g" "?h g" by (auto simp: find_Some_iff)
    from r Some obtain t where t: "?P t" "each (is_meta_group v b) ?gs s = is_meta_group v b g t" by auto
    show ?thesis using st [OF t(1), of g] unfolding if_P [OF g(1)] if_P [OF g(2)] t(2) .
  qed
  show ?thesis
    using e assms(3) z by (auto simp: ex_is_meta_def meta_at_def seq_def)
qed

lemma meta_group_cong:
  assumes "\<And>j. gd_off v g \<le> j \<Longrightarrow> j < gd_off v g + 12 \<Longrightarrow> E (ex_gd_block v g) j = D (ex_gd_block v g) j"
  shows "meta_group v E b g = meta_group v D b g" "bbm_of v E g = bbm_of v D g"
proof -
  have "ex_rd32 (E (ex_gd_block v g)) (gd_off v g + k) = ex_rd32 (D (ex_gd_block v g)) (gd_off v g + k)" if "k \<le> 8" for k
    using that assms by (intro rd32_cong) auto
  from this [of 0] this [of 4] this [of 8] show "meta_group v E b g = meta_group v D b g" "bbm_of v E g = bbm_of v D g"
    by (simp_all add: meta_group_def bbm_of_def Let_def)
qed

section \<open>Steps that write\<close>

definition keeps :: "bufid set \<Rightarrow> exst \<Rightarrow> exst \<Rightarrow> bool" where
  "keeps B s s' \<longleftrightarrow> fault s' = fault s \<and> drive_ok s' = drive_ok s \<and> geo s' = geo s \<and>
     ex_held s' = ex_held s \<and> ex_vol_mounted s' = ex_vol_mounted s \<and> (\<forall>x. x \<notin> B \<longrightarrow> bufs s' x = bufs s x)"

lemma keeps_refl [simp, intro]: "keeps B s s"
  by (simp add: keeps_def)

lemma keeps_trans: "keeps B s s1 \<Longrightarrow> keeps C s1 s2 \<Longrightarrow> B \<union> C \<subseteq> E \<Longrightarrow> keeps E s s2"
  unfolding keeps_def by (metis UnCI subset_iff)

lemma reads_keeps: "reads B s s' \<Longrightarrow> keeps B s s'"
  by (simp add: reads_def keeps_def)

lemma keeps_load [simp, intro]: "dst \<in> B \<Longrightarrow> keeps B s (load v b dst s)"
  by (auto simp: keeps_def load_def)

lemma keeps_store [simp, intro]: "keeps B s (store v b src s)"
  by (simp add: keeps_def store_def)

lemma keeps_set_buf [simp, intro]: "i \<in> B \<Longrightarrow> keeps B s (set_buf i f s)"
  by (auto simp: keeps_def set_buf_def)

lemma keeps_io: "keeps B s s' \<Longrightarrow> io_ok v s' = io_ok v s"
  by (simp add: keeps_def io_ok_def)

lemma keeps_buf: "keeps B s s' \<Longrightarrow> x \<notin> B \<Longrightarrow> bufs s' x = bufs s x"
  by (simp add: keeps_def)

section \<open>Superblock\<close>

lemma batch_sb [simp]: "batch_limit 2 2 = 2"
  by (simp add: batch_limit_def)

definition sb_load :: "vol \<Rightarrow> exst \<Rightarrow> exst" where
  "sb_load v s = s\<lparr>ncmd := Suc (ncmd s), bufs := (bufs s)(B_META :=
     \<lambda>j. if j < 1024 then sec s (ex_drive v) (2 + of_nat (j div 512)) (j mod 512) else bufs s B_META j)\<rparr>"

definition sb_store :: "vol \<Rightarrow> exst \<Rightarrow> exst" where
  "sb_store v s = s\<lparr>ncmd := Suc (ncmd s),
     sec := (\<lambda>d l. if d = ex_drive v \<and> unat (l - 2) < 2 then (\<lambda>i. bufs s B_META (unat (l - 2) * 512 + i)) else sec s d l)\<rparr>"

lemma ex_read_sb_run: "io_ok v s \<Longrightarrow> ex_read_sb (ex_drive v) s = (Val (), sb_load v s)"
  by (simp add: ex_read_sb_def err_to_def seq_def ahci64_read_run set_buf_def sb_load_def cong: if_cong)

lemma ex_write_sb_run: "io_ok v s \<Longrightarrow> ex_write_sb v s = (Val (), sb_store v s)"
  by (simp add: ex_write_sb_def err_to_def seq_def ahci64_write_def io_ok_def sb_store_def)

lemma sb_fields [simp]: "keeps {B_META} s (sb_load v s)" "keeps {} s (sb_store v s)" "sec (sb_load v s) = sec s"
  "io_ok v' (sb_load v s) = io_ok v' s" "io_ok v' (sb_store v s) = io_ok v' s" "blk v' (sb_load v s) = blk v' s"
  by (simp_all add: keeps_def sb_load_def sb_store_def io_ok_def blk_def fun_eq_iff)

text \<open>The four bytes at offset \<open>so\<close> of the superblock, as bytes of a block.\<close>

definition sb_cell :: "vol \<Rightarrow> nat \<Rightarrow> u32 \<Rightarrow> nat \<Rightarrow> bool" where
  "sb_cell v so b j \<longleftrightarrow> j < bsz v \<and> blk_lba v b + of_nat (j div 512) = 2 \<and> so \<le> j mod 512 \<and> j mod 512 < so + 4"

lemma unat_less_2: "unat (x::u32) < 2 \<longleftrightarrow> x = 0 \<or> x = 1"
proof
  assume "unat x < 2"
  then have "unat x = unat (0::u32) \<or> unat x = unat (1::u32)" by auto
  then show "x = 0 \<or> x = 1" using unsigned_word_eqI [of x 0] unsigned_word_eqI [of x 1] by blast
qed auto

lemma sb_update_diff:
  assumes "so + 4 \<le> 512" "blk v (sb_store v (set_buf B_META (wr32 so w (bufs (sb_load v s) B_META)) (sb_load v s))) b j \<noteq> blk v s b j"
  shows "sb_cell v so b j"
proof -
  let ?l = "blk_lba v b + of_nat (j div 512)"
  have j: "j < bsz v" using assms(2) by (auto simp: blk_def split: if_splits)
  have u: "unat (?l - 2) < 2" using assms(2) j by (auto simp: blk_def sb_store_def split: if_splits)
  then consider "?l = 2" | "?l = 3" unfolding unat_less_2 diff_eq_eq by auto
  then show ?thesis
  proof cases
    case 1
    have "wr32 so w (bufs (sb_load v s) B_META) (j mod 512) \<noteq> sec s (ex_drive v) 2 (j mod 512)"
      using assms(2) j 1 by (simp add: blk_def sb_store_def)
    moreover have "bufs (sb_load v s) B_META (j mod 512) = sec s (ex_drive v) 2 (j mod 512)" by (simp add: sb_load_def less_trans [of "j mod 512" 512 1024])
    ultimately have "so \<le> j mod 512 \<and> j mod 512 < so + 4" using wr32_out [of "j mod 512" so w] by (metis not_le)
    then show ?thesis using j 1 by (simp add: sb_cell_def)
  next
    case 2
    have m: "j mod 512 < 512" by simp
    have "wr32 so w (bufs (sb_load v s) B_META) (512 + j mod 512) \<noteq> sec s (ex_drive v) 3 (j mod 512)"
      using assms(2) j 2 by (simp add: blk_def sb_store_def)
    moreover have "bufs (sb_load v s) B_META (512 + j mod 512) = sec s (ex_drive v) 3 (j mod 512)"
    proof -
      have "(512 + j mod 512) div 512 = 1" using m by (simp add: div_add_self1)
      then show ?thesis using m by (simp add: sb_load_def)
    qed
    moreover have "wr32 so w (bufs (sb_load v s) B_META) (512 + j mod 512) = bufs (sb_load v s) B_META (512 + j mod 512)"
      using assms(1) by (intro wr32_out) simp
    ultimately show ?thesis by simp
  qed
qed

text \<open>The bytes a counter update may change.\<close>

definition count_cell :: "vol \<Rightarrow> u32 \<Rightarrow> nat \<Rightarrow> nat \<Rightarrow> u32 \<Rightarrow> nat \<Rightarrow> bool" where
  "count_cell v g so go b j \<longleftrightarrow> sb_cell v so b j \<or>
     (blk_lba v b = blk_lba v (ex_gd_block v g) \<and> gd_off v g + go \<le> j \<and> j < gd_off v g + go + 2)"

lemma upd_counts_run:
  assumes "vol_ok v" "io_ok v s" "so + 4 \<le> 512"
  shows "\<exists>s'. upd_counts v g so go f s = (Val (), s') \<and> keeps {B_META} s s' \<and>
    (\<forall>b j. blk v s' b j \<noteq> blk v s b j \<longrightarrow> count_cell v g so go b j)"
proof -
  let ?G = "ex_gd_block v g" and ?p = "gd_off v g + go"
  let ?w = "f (ex_rd32 (bufs (sb_load v s) B_META) so)"
  define s1 where "s1 = sb_store v (set_buf B_META (wr32 so ?w (bufs (sb_load v s) B_META)) (sb_load v s))"
  let ?b2 = "bufs (load v ?G B_META s1) B_META"
  let ?h = "wr16 ?p (f (ex_rd32 ?b2 ?p AND 0xFFFF)) ?b2"
  define s2 where "s2 = store v ?G B_META (set_buf B_META ?h (load v ?G B_META s1))"
  have io1: "io_ok v s1" using assms(2) by (simp add: s1_def)
  have r: "upd_counts v g so go f s = (Val (), s2)"
    using assms(2) io1 unfolding upd_counts_def
    by (simp add: seq_def ex_read_sb_run ex_write_sb_run ex_block_run [OF assms(1)] ex_write_block_run [OF assms(1)] s1_def s2_def)
  have k1: "keeps {B_META} s s1" unfolding s1_def
    by (rule keeps_trans [OF sb_fields(1) keeps_trans [OF keeps_set_buf sb_fields(2)]]) auto
  have k: "keeps {B_META} s s2"
    unfolding s2_def by (rule keeps_trans [OF k1 keeps_trans [OF keeps_load keeps_trans [OF keeps_set_buf keeps_store]]]) auto
  have "count_cell v g so go b j" if "blk v s2 b j \<noteq> blk v s b j" for b j
  proof (cases "blk v s1 b j = blk v s b j")
    case False
    then show ?thesis using sb_update_diff [OF assms(3)] unfolding s1_def count_cell_def by blast
  next
    case True
    then have d: "put_blk v ?G ?h (blk v s1) b j \<noteq> blk v s1 b j" using that assms(1) by (simp add: s2_def)
    then have l: "blk_lba v b = blk_lba v ?G" and c: "cut v ?h j \<noteq> blk v s1 b j" by (auto simp: put_blk_def split: if_splits)
    have jb: "j < bsz v" using c by (auto simp: cut_def blk_def split: if_splits)
    have "blk v s1 b = blk v s1 ?G" using l by (simp add: blk_def fun_eq_iff)
    then have "?b2 j = blk v s1 b j" using jb by simp
    then have "?h j \<noteq> ?b2 j" using c jb by simp
    then have "?p \<le> j \<and> j < ?p + 2" using wr16_out [of j ?p] by (metis not_le)
    then show ?thesis using l by (simp add: count_cell_def)
  qed
  with r k show ?thesis by blast
qed

section \<open>Allocating a block\<close>

definition sbb :: "vol \<Rightarrow> u32" where
  "sbb v = 1024 div ex_block_size v"

definition cand_blk :: "vol \<Rightarrow> u32 \<Rightarrow> nat \<Rightarrow> u32" where
  "cand_blk v g k = g * ex_bpg v + of_nat k + 1"

text \<open>Bit \<open>k\<close> of group \<open>g\<close> stands for an existing data block that is free.\<close>

definition cand :: "vol \<Rightarrow> disk \<Rightarrow> u32 \<Rightarrow> nat \<Rightarrow> bool" where
  "cand v D g k \<longleftrightarrow> cand_blk v g k < ex_blocks v \<and> \<not> meta_at v D (cand_blk v g k) \<and> \<not> bm_get (D (bbm_of v D g)) k"

abbreviation grps :: "vol \<Rightarrow> u32 list" where
  "grps v \<equiv> groups (ex_blocks v) (ex_bpg v)"

definition groups_ok :: "vol \<Rightarrow> disk \<Rightarrow> bool" where
  "groups_ok v D \<longleftrightarrow> ex_bpg v \<noteq> 0 \<and> unat (ex_bpg v) \<le> 8 * bsz v \<and>
     (\<forall>g \<in> set (grps v). ex_gd_block v g < ex_blocks v \<and> ex_gd_block v g \<noteq> sbb v \<and>
        bbm_of v D g \<noteq> 0 \<and> bbm_of v D g < ex_blocks v \<and> bbm_of v D g \<noteq> sbb v \<and>
        (\<forall>g' \<in> set (grps v). bbm_of v D g \<noteq> ex_gd_block v g' \<and> (g' \<noteq> g \<longrightarrow> bbm_of v D g' \<noteq> bbm_of v D g)))"

text \<open>What taking it changes on the volume.\<close>

definition alloc_post :: "vol \<Rightarrow> disk \<Rightarrow> disk \<Rightarrow> u32 \<Rightarrow> nat \<Rightarrow> bool" where
  "alloc_post v D E g k \<longleftrightarrow>
     (\<forall>j. E (cand_blk v g k) j = 0) \<and>
     (\<forall>k'. k' div 8 < bsz v \<longrightarrow> bm_get (E (bbm_of v D g)) k' = (k' = k \<or> bm_get (D (bbm_of v D g)) k')) \<and>
     (\<forall>b j. b < ex_blocks v \<longrightarrow> b \<noteq> cand_blk v g k \<longrightarrow> E b j \<noteq> D b j \<longrightarrow>
        b = sbb v \<or> (b = bbm_of v D g \<and> j = k div 8) \<or>
        (b = ex_gd_block v g \<and> gd_off v g + 12 \<le> j \<and> j < gd_off v g + 14))"

lemma sb_cell_blk:
  assumes "vol_ok v" "b < ex_blocks v" "sb_cell v so b j"
  shows "b = sbb v"
proof -
  have n: "nsec v \<in> {2, 4, 8}" "bsz v = 512 * nsec v" by (rule vol_sizes [OF assms(1)])+
  have jb: "j div 512 < nsec v" using assms(3) n(2) less_mult_imp_div_less [of j "nsec v" 512] by (simp add: sb_cell_def mult.commute)
  have "unat b * nsec v + nsec v \<le> unat (ex_blocks v) * nsec v"
    using assms(2) mult_le_mono1 [of "Suc (unat b)" "unat (ex_blocks v)" "nsec v"] by (simp add: word_less_nat_alt)
  also have "\<dots> \<le> 2 ^ 32" using assms(1) by (simp add: vol_ok_def nsec_def)
  finally have le: "unat b * nsec v + j div 512 < 2 ^ 32" "unat b * nsec v < 2 ^ 32" using jb by linarith+
  have "blk_lba v b = of_nat (unat b * nsec v)" by (simp add: blk_lba_eq [OF assms(1)])
  then have "blk_lba v b + of_nat (j div 512) = of_nat (unat b * nsec v + j div 512)" by simp
  then have "of_nat (unat b * nsec v + j div 512) = (of_nat 2 :: u32)" using assms(3) by (simp add: sb_cell_def del: of_nat_add of_nat_mult)
  then have "unat (of_nat (unat b * nsec v + j div 512) :: u32) = unat (of_nat 2 :: u32)" by (rule arg_cong)
  then have e: "unat b * nsec v + j div 512 = 2" unfolding unat_of_nat using le(1) by simp
  have "unat b = 2 div nsec v" using jb by (simp flip: e)
  then have "unat b = unat (sbb v)" using assms(1) n(1) unfolding sbb_def vol_ok_def nsec_def bsz_def by (auto simp: unat_div)
  then show ?thesis by (rule unsigned_word_eqI)
qed

lemma bm_get_set: "bm_get (bm_set k b) k' \<longleftrightarrow> k' = k \<or> bm_get b k'"
proof -
  have "k' = k \<longleftrightarrow> k' div 8 = k div 8 \<and> k' mod 8 = k mod 8" by (metis mult_div_mod_eq)
  moreover have "k mod 8 < 8" by simp
  ultimately show ?thesis by (auto simp: bm_get_def bm_set_def bit_simps)
qed

lemma bm_get_cong: "f (k div 8) = g (k div 8) \<Longrightarrow> bm_get f k = bm_get g k"
  by (simp add: bm_get_def)

lemma meta_members:
  assumes "g \<in> set (grps v)"
  shows "meta_at v D (ex_gd_block v g)" "meta_at v D (bbm_of v D g)" "meta_at v D (sbb v)"
proof -
  show "meta_at v D (ex_gd_block v g)" "meta_at v D (bbm_of v D g)"
    using assms by (auto simp: meta_at_def meta_group_def bbm_of_def Let_def)
  have "(1024::u32) \<le> 2047" by simp
  then have "1024 div ex_block_size v \<le> 2047 div ex_block_size v"
    unfolding word_le_nat_alt unat_div by (intro div_le_mono) simp
  then show "meta_at v D (sbb v)" by (simp add: meta_at_def sbb_def)
qed

lemma alloc_commit_run:
  assumes "vol_ok v" "io_ok v s" "groups_ok v (blk v s)" "g \<in> set (grps v)" "cand v (blk v s) g k" "k div 8 < bsz v"
    "\<And>j. j < bsz v \<Longrightarrow> bufs s B_META j = blk v s (bbm_of v (blk v s) g) j"
  shows "\<exists>s'. alloc_commit v g (bbm_of v (blk v s) g) k (cand_blk v g k) s = (Val (cand_blk v g k), s') \<and>
    keeps {B_META, B_DATA} s s' \<and> alloc_post v (blk v s) (blk v s') g k"
proof -
  let ?D = "blk v s" and ?ab = "cand_blk v g k"
  let ?m = "bbm_of v ?D g" and ?G = "ex_gd_block v g"
  define t2 where "t2 = store v ?m B_META (set_buf B_META (bm_set k (bufs s B_META)) s)"
  have D2: "blk v t2 = put_blk v ?m (bm_set k (bufs s B_META)) ?D" unfolding t2_def by (simp add: assms(1))
  have k2: "keeps {B_META} s t2" unfolding t2_def by (rule keeps_trans [OF keeps_set_buf keeps_store]) auto
  have io2: "io_ok v t2" using assms(2) by (simp add: keeps_io [OF k2])
  obtain t3 where t3: "upd_counts v g 12 12 dec0 t2 = (Val (), t3)" "keeps {B_META} t2 t3"
    and d3: "\<And>b j. blk v t3 b j \<noteq> blk v t2 b j \<Longrightarrow> count_cell v g 12 12 b j"
    using upd_counts_run [OF assms(1) io2, of 12 g 12 dec0] by auto
  have io3: "io_ok v t3" using io2 by (simp add: keeps_io [OF t3(2)])
  define t5 where "t5 = store v ?ab B_DATA (set_buf B_DATA (ex_memzero (bsz v) (bufs t3 B_DATA)) t3)"
  have r: "alloc_commit v g ?m k ?ab s = (Val ?ab, t5)"
  proof -
    have 1: "ex_write_block v ?m B_META (set_buf B_META (bm_set k (bufs s B_META)) s) = (Val (), t2)"
      unfolding t2_def by (rule ex_write_block_run [OF assms(1)]) (simp add: assms(2))
    have 2: "ex_write_block v ?ab B_DATA (set_buf B_DATA (ex_memzero (bsz v) (bufs t3 B_DATA)) t3) = (Val (), t5)"
      unfolding t5_def by (rule ex_write_block_run [OF assms(1)]) (simp add: io3)
    show ?thesis unfolding alloc_commit_def by (simp add: seq_def 1 2 t3(1))
  qed
  have kp: "keeps {B_META, B_DATA} s t5" 
  proof -
    have "keeps {B_DATA} t3 t5" by (simp add: keeps_def t5_def set_buf_def store_def)
    from keeps_trans [OF k2 keeps_trans [OF t3(2) this subset_refl], of "{B_META, B_DATA}"] show ?thesis by simp
  qed
  have "cut v (ex_memzero (bsz v) f) = (\<lambda>_. 0)" for f by (auto simp: cut_def ex_memzero_def)
  then have D5: "blk v t5 = put_blk v ?ab (\<lambda>_. 0) (blk v t3)" unfolding t5_def
    by (simp add: assms(1) put_blk_def fun_eq_iff) (simp add: cut_def)
  have ab: "?ab < ex_blocks v" "\<not> meta_at v ?D ?ab" using assms(5) by (simp_all add: cand_def)
  have ne: "?ab \<noteq> ?m" "?ab \<noteq> ?G" "?ab \<noteq> sbb v" using meta_members [OF assms(4), of ?D] ab(2) by metis+
  have gm: "?m < ex_blocks v" "?G < ex_blocks v" "?m \<noteq> sbb v" "?m \<noteq> ?G"
    using assms(3,4) unfolding groups_ok_def by blast+
  have inj: "blk_lba v a = blk_lba v b \<longleftrightarrow> a = b" if "a < ex_blocks v" "b < ex_blocks v" for a b
    using lba_inj [OF assms(1) that] by auto
  have cc: "b = sbb v \<or> (b = ?G \<and> gd_off v g + 12 \<le> j \<and> j < gd_off v g + 14)" if "count_cell v g 12 12 b j" "b < ex_blocks v" for b j
    using that sb_cell_blk [OF assms(1) that(2)] inj [OF that(2) gm(2)] by (auto simp: count_cell_def)
  have m5: "blk v t5 ?m j = cut v (bm_set k (bufs s B_META)) j" for j
  proof -
    have "blk v t3 ?m j = blk v t2 ?m j" using d3 [of ?m j] cc [of ?m j] gm by blast
    then show ?thesis using inj [OF gm(1) ab(1)] ne(1) by (simp add: D5 D2 put_blk_def)
  qed
  have bits: "bm_get (blk v t5 ?m) k' = (k' = k \<or> bm_get (?D ?m) k')" if "k' div 8 < bsz v" for k'
    using bm_get_cong [of "blk v t5 ?m" k' "bm_set k (bufs s B_META)"] bm_get_cong [of "bufs s B_META" k' "?D ?m"] that assms(7)
    by (simp add: m5 bm_get_set)
  have chg: "b = sbb v \<or> (b = ?m \<and> j = k div 8) \<or> (b = ?G \<and> gd_off v g + 12 \<le> j \<and> j < gd_off v g + 14)"
    if b: "b < ex_blocks v" "b \<noteq> ?ab" "blk v t5 b j \<noteq> ?D b j" for b j
  proof (cases "blk v t3 b j = blk v t2 b j")
    case False
    then show ?thesis using d3 cc b(1) by blast
  next
    case True
    then have "blk v t2 b j \<noteq> ?D b j" using b inj [OF b(1) ab(1)] by (simp add: D5 put_blk_def)
    then have bm: "b = ?m" "cut v (bm_set k (bufs s B_META)) j \<noteq> ?D ?m j"
      using inj [OF b(1) gm(1)] by (auto simp: D2 put_blk_def split: if_splits)
    then have "j < bsz v" by (auto simp: cut_def blk_def split: if_splits)
    with bm(2) assms(7) have "bm_set k (bufs s B_META) j \<noteq> bufs s B_META j" by simp
    then have "j = k div 8" by (auto simp: bm_set_def split: if_splits)
    with bm(1) show ?thesis by blast
  qed
  have "blk v t5 ?ab j = 0" for j by (simp add: D5 put_blk_def cut_def)
  with bits chg have "alloc_post v ?D (blk v t5) g k" unfolding alloc_post_def by blast
  with r kp show ?thesis by blast
qed

lemma groups_mem:
  assumes "g \<in> set (groups n p)"
  shows "unat g < unat (ngroups n p)" "unat g < 32"
proof -
  obtain i where i: "i < unat (ngroups n p)" "g = of_nat i" using assms by (auto simp: groups_def)
  have "unat (ngroups n p) \<le> 32" by (simp add: ngroups_def min_def word_le_nat_alt)
  then have "unat g = i" using i by (simp add: unat_of_nat)
  then show "unat g < unat (ngroups n p)" "unat g < 32" using i \<open>unat (ngroups n p) \<le> 32\<close> by auto
qed

lemma vol_blocks:
  assumes "vol_ok v"
  shows "unat (ex_blocks v) \<le> 2 ^ 31"
proof -
  have "unat (ex_blocks v) * 2 \<le> unat (ex_blocks v) * nsec v" using vol_sizes(1) [OF assms] by (intro mult_le_mono2) auto
  also have "\<dots> \<le> 2 ^ 32" using assms by (simp add: vol_ok_def nsec_def)
  finally show ?thesis by simp
qed

lemma cand_blk_eq:
  assumes "vol_ok v" "groups_ok v D" "g \<in> set (grps v)" "k < unat (ex_bpg v)"
  shows "unat (cand_blk v g k) = unat g * unat (ex_bpg v) + k + 1"
proof -
  let ?p = "unat (ex_bpg v)" and ?B = "unat (ex_blocks v)"
  have p: "0 < ?p" "?p \<le> 32768" using assms(2) vol_sizes(3) [OF assms(1)] by (auto simp: groups_ok_def unat_gt_0)
  note B = vol_blocks [OF assms(1)]
  have "unat (ex_blocks v + ex_bpg v - 1) = ?B + ?p - 1"
  proof -
    have "unat (ex_blocks v + ex_bpg v) = ?B + ?p" using p B by (simp add: unat_word_ariths)
    moreover then have "ex_blocks v + ex_bpg v \<noteq> 0" using p by (metis add_is_0 less_numeral_extra(3) unat_0)
    ultimately show ?thesis by (simp add: unat_minus_one)
  qed
  then have "unat (ngroups (ex_blocks v) (ex_bpg v)) \<le> (?B + ?p - 1) div ?p"
    by (simp add: ngroups_def min_def word_le_nat_alt unat_div)
  then have "unat g + 1 \<le> (?B + ?p - 1) div ?p" using groups_mem(1) [OF assms(3)] by linarith
  then have "(unat g + 1) * ?p \<le> ?B + ?p - 1" 
    using mult_le_mono1 [of "unat g + 1" "(?B + ?p - 1) div ?p" ?p] div_times_less_eq_dividend [of "?B + ?p - 1" ?p] by linarith
  then have le: "unat g * ?p + ?p \<le> ?B + ?p - 1" by simp
  then have "unat g * ?p + k + 1 \<le> ?B + ?p" using assms(4) p(1) by linarith
  also have "\<dots> \<le> 2 ^ 31 + 32768" using B p(2) by linarith
  also have "\<dots> < (2 ^ 32 :: nat)" by simp
  finally have lt: "unat g * ?p + k + 1 < 2 ^ 32" .
  have "cand_blk v g k = of_nat (unat g * ?p + k + 1)" by (simp add: cand_blk_def)
  then show ?thesis using lt by (simp add: unat_of_nat del: of_nat_add of_nat_mult of_nat_Suc)
qed

lemma alloc_bit_run:
  assumes "vol_ok v" "io_ok v s" "groups_ok v (blk v s)" "g \<in> set (grps v)" "k < unat (ex_bpg v)"
    "\<forall>j < bsz v. bufs s B_META j = blk v s (bbm_of v (blk v s) g) j" "reads {B_META2} s t"
  shows "ex_blocks v \<le> cand_blk v g k \<Longrightarrow> alloc_bit v g (bbm_of v (blk v s) g) k t = (Val (Some None), t)"
    "cand_blk v g k < ex_blocks v \<Longrightarrow> \<not> cand v (blk v s) g k \<Longrightarrow>
       \<exists>t'. alloc_bit v g (bbm_of v (blk v s) g) k t = (Val None, t') \<and> reads {B_META2} s t'"
    "cand v (blk v s) g k \<Longrightarrow> \<exists>s'. alloc_bit v g (bbm_of v (blk v s) g) k t = (Val (Some (Some (cand_blk v g k))), s') \<and>
       keeps {B_META, B_META2, B_DATA} s s' \<and> alloc_post v (blk v s) (blk v s') g k"
proof -
  let ?D = "blk v s" and ?m = "bbm_of v (blk v s) g"
  show "ex_blocks v \<le> cand_blk v g k \<Longrightarrow> alloc_bit v g ?m k t = (Val (Some None), t)"
    by (simp add: alloc_bit_def cand_blk_def Let_def)
  have k8: "k div 8 < bsz v" using assms(3,5) by (auto simp: groups_ok_def)
  then have kb: "\<not> k div 8 \<ge> EX_MAX_BLOCK" using vol_sizes(3) [OF assms(1)] by (auto simp: EX_MAX_BLOCK_def)
  have io: "io_ok v t" "blk v t = ?D" using assms(2) by (simp_all add: reads_io [OF assms(7)] reads_blk [OF assms(7)])
  obtain t1 where t1: "ex_is_meta v (cand_blk v g k) t = (Val (meta_at v ?D (cand_blk v g k)), t1)" "reads {B_META2} t t1"
    using ex_is_meta_run [OF assms(1) io(1), of "cand_blk v g k"] assms(3) unfolding io(2) groups_ok_def by blast
  have r1: "reads {B_META2} s t1" by (rule reads_trans [OF assms(7) t1(2)]) simp
  have D1: "blk v t1 = ?D" "io_ok v t1" using assms(2) by (simp_all add: reads_blk [OF r1] reads_io [OF r1])
  have b1: "bufs t1 B_META j = ?D ?m j" if "j < bsz v" for j using assms(6) that reads_buf [OF r1, of B_META] by simp
  have bg: "bm_get (bufs t1 B_META) k = bm_get (?D ?m) k" by (rule bm_get_cong) (rule b1 [OF k8])
  have step: "alloc_bit v g ?m k t = (if meta_at v ?D (cand_blk v g k) \<or> bm_get (?D ?m) k then (Val None, t1)
      else seq (alloc_commit v g ?m k (cand_blk v g k)) (\<lambda>ab. ret (Some (Some ab))) t1)" if "cand_blk v g k < ex_blocks v"
    using that t1(1) kb unfolding alloc_bit_def cand_blk_def [symmetric] Let_def by (simp add: bg not_le)
  show "\<exists>t'. alloc_bit v g ?m k t = (Val None, t') \<and> reads {B_META2} s t'" if "cand_blk v g k < ex_blocks v" "\<not> cand v ?D g k"
    using step [OF that(1)] that r1 by (auto simp: cand_def)
  assume c: "cand v ?D g k"
  from alloc_commit_run [OF assms(1) D1(2), of g k] obtain s' where
    s': "alloc_commit v g ?m k (cand_blk v g k) t1 = (Val (cand_blk v g k), s')" "keeps {B_META, B_DATA} t1 s'"
      "alloc_post v ?D (blk v s') g k"
    using assms(3,4) c k8 b1 unfolding D1(1) by blast
  have "keeps {B_META, B_META2, B_DATA} s s'" by (rule keeps_trans [OF reads_keeps [OF r1] s'(2)]) simp
  then show "\<exists>s'. alloc_bit v g ?m k t = (Val (Some (Some (cand_blk v g k))), s') \<and>
       keeps {B_META, B_META2, B_DATA} s s' \<and> alloc_post v ?D (blk v s') g k"
    using step c s' by (auto simp: cand_def)
qed

definition first_cand :: "vol \<Rightarrow> disk \<Rightarrow> u32 \<Rightarrow> nat \<Rightarrow> bool" where
  "first_cand v D g k \<longleftrightarrow> k < unat (ex_bpg v) \<and> cand v D g k \<and> (\<forall>k' < k. \<not> cand v D g k')"

lemma alloc_group_run:
  assumes "vol_ok v" "io_ok v s" "groups_ok v (blk v s)" "g \<in> set (grps v)"
  shows "\<not> (\<exists>k < unat (ex_bpg v). cand v (blk v s) g k) \<Longrightarrow>
      \<exists>s'. alloc_group v g s = (Val None, s') \<and> reads {B_META, B_META2} s s'"
    "\<exists>k < unat (ex_bpg v). cand v (blk v s) g k \<Longrightarrow>
      \<exists>k s'. first_cand v (blk v s) g k \<and> alloc_group v g s = (Val (Some (cand_blk v g k)), s') \<and>
        keeps {B_META, B_META2, B_DATA} s s' \<and> alloc_post v (blk v s) (blk v s') g k"
proof -
  let ?D = "blk v s" and ?m = "bbm_of v (blk v s) g" and ?G = "ex_gd_block v g" and ?p = "unat (ex_bpg v)"
  define s0 where "s0 = load v ?m B_META (load v ?G B_META s)"
  have r0: "reads {B_META} s s0" unfolding s0_def by (rule reads_trans [OF reads_load reads_load]) auto
  have D0: "blk v s0 = ?D" "io_ok v s0" using assms(2) by (simp_all add: reads_blk [OF r0] reads_io [OF r0])
  have b0: "\<forall>j < bsz v. bufs s0 B_META j = blk v s0 (bbm_of v (blk v s0) g) j" by (simp add: s0_def)
  have m: "ex_rd32 (over v (?D ?G) x) (gd_off v g) = ?m" for x
    unfolding bbm_of_def using gd_geometry(3) [OF assms(1), of g] by (intro rd32_cong) simp
  have m0: "?m \<noteq> 0" using assms(3,4) unfolding groups_ok_def by blast
  let ?hit = "\<lambda>k. ex_blocks v \<le> cand_blk v g k \<or> cand v ?D g k"
  let ?P = "reads {B_META2} s0"
  note ab = alloc_bit_run [OF assms(1) D0(2) assms(3) [folded D0(1)] assms(4) _ b0, unfolded D0(1)]
  have e: "case find ?hit [0..<?p] of None \<Rightarrow> \<exists>t. ?P t \<and> each (alloc_bit v g ?m) [0..<?p] s0 = (Val None, t)
     | Some k \<Rightarrow> \<exists>t. ?P t \<and> each (alloc_bit v g ?m) [0..<?p] s0 = alloc_bit v g ?m k t"
  proof (rule each_run)
    fix k t assume k: "k \<in> set [0..<?p]" and t: "?P t"
    show "\<exists>t'. alloc_bit v g ?m k t = (Val None, t') \<and> ?P t'" if "\<not> ?hit k" using ab(2) [OF _ t] k that by (simp add: not_le)
    show "\<exists>r t'. alloc_bit v g ?m k t = (Val (Some r), t')" if "?hit k" using ab(1,3) [OF _ t, of k] k that by auto
  qed simp
  have run: "alloc_group v g s = seq (each (alloc_bit v g ?m) [0..<?p]) (\<lambda>r. ret (case r of Some (Some ab) \<Rightarrow> Some ab | _ \<Rightarrow> None)) s0"
    unfolding alloc_group_def s0_def by (simp add: seq_def ex_block_run [OF assms(1)] assms(2) Let_def m m0 cong: if_cong)
  have mono: "ex_blocks v \<le> cand_blk v g k'" if "ex_blocks v \<le> cand_blk v g k" "k \<le> k'" "k' < ?p" for k k'
    using that cand_blk_eq [OF assms(1,3,4), of k] cand_blk_eq [OF assms(1,3,4), of k'] by (simp add: word_le_nat_alt)
  have rr: "reads {B_META, B_META2} s t" if "?P t" for t by (rule reads_trans [OF r0 that]) auto
  {
    assume n: "\<not> (\<exists>k < ?p. cand v ?D g k)"
    show "\<exists>s'. alloc_group v g s = (Val None, s') \<and> reads {B_META, B_META2} s s'"
    proof (cases "find ?hit [0..<?p]")
      case None
      then show ?thesis using e run rr by (auto simp: seq_def)
    next
      case (Some k)
      then have k: "k < ?p" "?hit k" by (auto simp: find_Some_iff)
      with Some e obtain t where t: "?P t" "each (alloc_bit v g ?m) [0..<?p] s0 = alloc_bit v g ?m k t" by auto
      then show ?thesis using ab(1) [OF k(1) t(1)] n k run rr [OF t(1)] by (auto simp: seq_def)
    qed
  next
    assume "\<exists>k < ?p. cand v ?D g k"
    then obtain k0 where k0: "k0 < ?p" "cand v ?D g k0" by blast
    then obtain k where Some: "find ?hit [0..<?p] = Some k" by (cases "find ?hit [0..<?p]") (auto simp: find_None_iff)
    then have k: "k < ?p" "?hit k" and first: "\<And>k'. k' < k \<Longrightarrow> \<not> ?hit k'" by (auto simp: find_Some_iff)
    with Some e obtain t where t: "?P t" "each (alloc_bit v g ?m) [0..<?p] s0 = alloc_bit v g ?m k t" by auto
    have "k \<le> k0" using first [of k0] k0 by (meson not_le)
    then have "\<not> ex_blocks v \<le> cand_blk v g k" using mono [of k k0] k0 by (auto simp: cand_def)
    then have c: "cand v ?D g k" using k(2) by blast
    from ab(3) [OF k(1) t(1) c] obtain s' where s': "alloc_bit v g ?m k t = (Val (Some (Some (cand_blk v g k))), s')"
      "keeps {B_META, B_META2, B_DATA} s0 s'" "alloc_post v ?D (blk v s') g k" by blast
    have "keeps {B_META, B_META2, B_DATA} s s'" by (rule keeps_trans [OF reads_keeps [OF r0] s'(2)]) auto
    then show "\<exists>k s'. first_cand v ?D g k \<and> alloc_group v g s = (Val (Some (cand_blk v g k)), s') \<and>
        keeps {B_META, B_META2, B_DATA} s s' \<and> alloc_post v ?D (blk v s') g k"
      using c k first s' run t(2) by (intro exI [of _ k] exI [of _ s']) (auto simp: first_cand_def seq_def)
  }
qed

text \<open>C15.  On a working device allocation returns the lowest-numbered free data block, or EFBIG with
  the volume unchanged exactly when there is none.  The block was free and is no metadata; afterwards its
  bitmap bit is set and no other, its content is zero, and outside the superblock, the bitmap byte and the
  free count of its group no other block has changed.\<close>

theorem ex_alloc_block_ok:
  assumes "vol_ok v" and "io_ok v s" and "groups_ok v (blk v s)"
  shows "case ex_alloc_block v s of
      (Val b, s') \<Rightarrow> (\<exists>g \<in> set (grps v). \<exists>k < unat (ex_bpg v). b = cand_blk v g k \<and> cand v (blk v s) g k \<and>
          alloc_post v (blk v s) (blk v s') g k) \<and>
        (\<forall>g \<in> set (grps v). \<forall>k < unat (ex_bpg v). cand v (blk v s) g k \<longrightarrow> b \<le> cand_blk v g k)
    | (Err e, s') \<Rightarrow> e = EX_EFBIG \<and> sec s' = sec s \<and> (\<forall>g \<in> set (grps v). \<forall>k < unat (ex_bpg v). \<not> cand v (blk v s) g k)
    | (Trap, s') \<Rightarrow> False"
proof -
  let ?D = "blk v s" and ?p = "unat (ex_bpg v)"
  let ?hit = "\<lambda>g. \<exists>k < ?p. cand v ?D g k"
  let ?P = "reads {B_META, B_META2} s"
  have p0: "ex_bpg v \<noteq> 0" using assms(3) by (simp add: groups_ok_def)
  have t: "io_ok v t" "blk v t = ?D" if "?P t" for t using that assms(2) reads_io [OF that] reads_blk [OF that] by simp_all
  note gr = alloc_group_run [OF assms(1)]
  have e: "case find ?hit (grps v) of None \<Rightarrow> \<exists>t. ?P t \<and> each (alloc_group v) (grps v) s = (Val None, t)
     | Some g \<Rightarrow> \<exists>t. ?P t \<and> each (alloc_group v) (grps v) s = alloc_group v g t"
  proof (rule each_run)
    fix g u assume g: "g \<in> set (grps v)" and u: "?P u"
    show "\<exists>t'. alloc_group v g u = (Val None, t') \<and> ?P t'" if h: "\<not> ?hit g"
    proof -
      obtain t' where t': "alloc_group v g u = (Val None, t')" "reads {B_META, B_META2} u t'"
        using gr(1) [OF t(1) [OF u], of g] assms(3) g h unfolding t(2) [OF u] by blast
      have "?P t'" by (rule reads_trans [OF u t'(2)]) simp
      with t'(1) show ?thesis by blast
    qed
    show "\<exists>r t'. alloc_group v g u = (Val (Some r), t')" if "?hit g"
      using gr(2) [OF t(1) [OF u], of g] assms(3) g that unfolding t(2) [OF u] by blast
  qed simp
  show ?thesis
  proof (cases "find ?hit (grps v)")
    case None
    then have n: "\<forall>g \<in> set (grps v). \<forall>k < ?p. \<not> cand v ?D g k" by (auto simp: find_None_iff)
    from None e obtain u where "?P u" "each (alloc_group v) (grps v) s = (Val None, u)" by auto
    then show ?thesis using n p0 by (auto simp: ex_alloc_block_def seq_def reads_def)
  next
    case (Some g)
    then obtain i where i: "i < length (grps v)" "grps v ! i = g" "\<And>j. j < i \<Longrightarrow> \<not> ?hit (grps v ! j)" and g: "?hit g"
      by (auto simp: find_Some_iff)
    have gm: "g \<in> set (grps v)" using i(1,2) by auto
    from Some e obtain u where u: "?P u" "each (alloc_group v) (grps v) s = alloc_group v g u" by auto
    from gr(2) [OF t(1) [OF u(1)], of g] assms(3) gm g obtain k s' where
      k: "first_cand v ?D g k" "alloc_group v g u = (Val (Some (cand_blk v g k)), s')" "alloc_post v ?D (blk v s') g k"
      unfolding t(2) [OF u(1)] by blast
    have kp: "k < ?p" "cand v ?D g k" using k(1) by (auto simp: first_cand_def)
    have low: "cand_blk v g k \<le> cand_blk v g' k'" if c: "g' \<in> set (grps v)" "k' < ?p" "cand v ?D g' k'" for g' k'
    proof -
      have ix: "unat (grps v ! j) = j" if "j < length (grps v)" for j
      proof -
        have "grps v ! j = of_nat j" "j < unat (ngroups (ex_blocks v) (ex_bpg v))" using that by (simp_all add: groups_def)
        moreover have "unat (ngroups (ex_blocks v) (ex_bpg v)) \<le> 32" by (simp add: ngroups_def min_def word_le_nat_alt)
        ultimately show ?thesis by (simp add: unat_of_nat)
      qed
      obtain j where j: "j < length (grps v)" "grps v ! j = g'" using c(1) by (auto simp: in_set_conv_nth)
      have "i \<le> j" using i(3) [of j] c j by (metis not_le)
      note cb = cand_blk_eq [OF assms(1,3)]
      show ?thesis
      proof (cases "i = j")
        case True
        then have "g' = g" using i j by simp
        moreover then have "k \<le> k'" using k(1) c(3) by (metis first_cand_def not_le)
        ultimately show ?thesis using cb [OF gm kp(1)] cb [OF gm, of k'] c(2) by (simp add: word_le_nat_alt)
      next
        case False
        then have "Suc i \<le> j" using \<open>i \<le> j\<close> by simp
        then have "Suc i * ?p \<le> j * ?p" by (rule mult_le_mono1)
        then show ?thesis using cb [OF gm kp(1)] cb [OF c(1,2)] kp(1) ix [OF i(1)] ix [OF j(1)] i(2) j(2)
          by (simp add: word_le_nat_alt)
      qed
    qed
    have "ex_alloc_block v s = (Val (cand_blk v g k), s')" using p0 u(2) k(2) by (simp add: ex_alloc_block_def seq_def)
    then show ?thesis using gm kp k(3) low by auto
  qed
qed

section \<open>A small volume\<close>

text \<open>One group of sixteen 1024-byte blocks: descriptors in block 2, block bitmap 3, inode bitmap 4,
  inode table 5, data from block 6 on.  Inode 3 is a file of 20000 bytes with an indirect table in
  block 7.\<close>

definition sample_vol :: vol where
  "sample_vol = \<lparr>ex_drive = 0, ex_block_size = 1024, ex_inodes = 8, ex_blocks = 16, ex_first_block = 1, ex_bpg = 16,
     ex_ipg = 8, ex_inode_size = 128\<rparr>"

definition sample_ex :: exst where
  "sample_ex = \<lparr>sec = (\<lambda>d l i. if l = 4 \<and> i = 0 then 3 else if l = 4 \<and> i = 4 then 4 else if l = 4 \<and> i = 8 then 5
       else if l = 6 \<and> i = 0 then 0x1F else if l = 14 \<and> i = 0 then 8 else if l = 16 then 9 else 0),
     drive_ok = (\<lambda>d. d = 0), fault = (\<lambda>_. None), ncmd = 0, bufs = (\<lambda>_ _. 0), ex_held = False, ex_vol_mounted = True,
     geo = sample_vol\<rparr>"

definition sample_inode :: ex_inode_t where
  "sample_inode = \<lparr>imode = 0x81A4, isize = 20000, iblocks = 4, iblock = (\<lambda>k. if k = 12 then 7 else 0)\<rparr>"

lemma sample_bsz [simp]: "bsz sample_vol = 1024" "per sample_vol = 256" "ex_block_size sample_vol = 1024"
  "ex_drive sample_vol = 0" "ex_bpg sample_vol = 16" "ex_blocks sample_vol = 16" "ex_inodes sample_vol = 8" "ex_ipg sample_vol = 8"
  "ex_inode_size sample_vol = 128" "ex_first_block sample_vol = 1"
  by (simp_all add: bsz_def per_def sample_vol_def)

lemma sample_vol_ok [simp]: "vol_ok sample_vol" "io_ok sample_vol sample_ex" "isz_ok sample_vol" "inode_wf sample_inode"
  by (simp_all add: vol_ok_def io_ok_def sample_ex_def isz_ok_def inode_wf_def sample_inode_def)

lemma sample_lba [simp]: "blk_lba sample_vol b = b * 2"
  using blk_lba_eq [OF sample_vol_ok(1), of b] by (simp add: nsec_def)

lemma sample_blk: "blk sample_vol sample_ex b j = (if j < 1024 then
    (let l = b * 2 + of_nat (j div 512); i = j mod 512 in
     if l = 4 \<and> i = 0 then 3 else if l = 4 \<and> i = 4 then 4 else if l = 4 \<and> i = 8 then 5
       else if l = 6 \<and> i = 0 then 0x1F else if l = 14 \<and> i = 0 then 8 else if l = 16 then 9 else 0) else 0)"
  by (simp add: blk_def sample_ex_def Let_def)

lemma sample_groups: "groups 16 16 = [0]" "ex_gd_block sample_vol 0 = 2" "gd_off sample_vol 0 = 0"
  by (simp_all add: groups_def ngroups_def ex_gd_block_def gd_bytes_def gd_off_def)

lemma sample_desc: "ex_rd32 (blk sample_vol sample_ex 2) 0 = 3" "ex_rd32 (blk sample_vol sample_ex 2) 4 = 4"
  "ex_rd32 (blk sample_vol sample_ex 2) 8 = 5" "bbm_of sample_vol (blk sample_vol sample_ex) 0 = 3"
  by (simp_all add: bbm_of_def sample_groups ex_rd32_def sample_blk)

lemma sample_groups_ok: "groups_ok sample_vol (blk sample_vol sample_ex)"
  by (simp add: groups_ok_def sample_groups sample_desc sbb_def)

lemma sample_cand: "cand sample_vol (blk sample_vol sample_ex) 0 5"
  by (simp add: cand_def cand_blk_def meta_at_def meta_group_def sample_groups sample_desc Let_def bm_get_def sample_blk word_le_nat_alt)

lemma ex_alloc_block_ok_witness: "\<exists>b s'. ex_alloc_block sample_vol sample_ex = (Val b, s') \<and> b \<le> 6"
proof -
  note t = ex_alloc_block_ok [OF sample_vol_ok(1,2) sample_groups_ok]
  have c: "\<forall>g \<in> set (grps sample_vol). \<forall>k < unat (ex_bpg sample_vol). cand sample_vol (blk sample_vol sample_ex) g k \<longrightarrow> b \<le> cand_blk sample_vol g k
    \<Longrightarrow> b \<le> 6" for b
  proof -
    assume "\<forall>g \<in> set (grps sample_vol). \<forall>k < unat (ex_bpg sample_vol). cand sample_vol (blk sample_vol sample_ex) g k \<longrightarrow> b \<le> cand_blk sample_vol g k"
    then have "b \<le> cand_blk sample_vol 0 5" using sample_cand by (simp add: sample_groups)
    then show "b \<le> 6" by (simp add: cand_blk_def)
  qed
  have n: "\<not> (\<forall>g \<in> set (grps sample_vol). \<forall>k < unat (ex_bpg sample_vol). \<not> cand sample_vol (blk sample_vol sample_ex) g k)"
    using sample_cand by (auto simp: sample_groups intro!: exI [of _ 5])
  show ?thesis
  proof (cases "ex_alloc_block sample_vol sample_ex")
    case (Pair r s')
    then show ?thesis using t c n by (cases r) auto
  qed
qed

lemma ex_data_read_contents_witness:
  "fst (ex_data_read sample_vol sample_inode 12288 3 sample_ex) = Val ([9, 9, 9], False)"
proof -
  have "bmap_at sample_vol (blk sample_vol sample_ex) sample_inode 12 = 8"
    by (simp add: bmap_at_def EX_DIRECT_def ind_at_def sample_inode_def ex_rd32_def sample_blk)
  then have f: "file_byte sample_vol (blk sample_vol sample_ex) sample_inode p = 9" if "p \<in> {12288, 12289, 12290}" for p
    using that by (auto simp: file_byte_def Let_def sample_blk)
  have "map (file_byte sample_vol (blk sample_vol sample_ex) sample_inode) [12288..<12288 + 3] = [9, 9, 9]"
    using f by (simp add: upt_rec [of 12288] upt_rec [of 12289] upt_rec [of 12290])
  then show ?thesis
    using ex_data_read_contents [OF sample_vol_ok(1,2), of sample_inode 3 3 12288]
    by (auto simp: sample_inode_def max_lb_def EX_DIRECT_def)
qed

lemma sample_slots: "slot_ok sample_vol (blk sample_vol sample_ex) 3" "slot_ok sample_vol (blk sample_vol sample_ex) 4"
  "slot_sep sample_vol (blk sample_vol sample_ex) 3" "ino_grp sample_vol 4 = ino_grp sample_vol 3"
  by (simp_all add: slot_ok_def slot_sep_def slot_itab_def slot_blk_def slot_off_def ino_grp_def sample_groups sample_desc)

lemma inode_write_read_witness:
  "\<exists>s' s''. ex_write_inode sample_vol 3 sample_inode sample_ex = (Val (), s') \<and> ex_inode sample_vol 3 s' = (Val sample_inode, s'')"
  using inode_write_read [OF sample_vol_ok(1,3,2) sample_slots(1,3) sample_vol_ok(4) sample_slots(2,4)] by auto

lemma indirect_error_reads_zeros_witness:
  "fst (ex_data_read sample_vol sample_inode 12288 3 (sample_ex\<lparr>fault := (\<lambda>_. Some 0)\<rparr>)) = Val ([0, 0, 0], False)"
proof -
  let ?s = "sample_ex\<lparr>fault := (\<lambda>_. Some 0)\<rparr>"
  have "drive_ok ?s (ex_drive sample_vol)" "fault ?s (ncmd ?s) = Some 0" "iblock sample_inode 12 \<noteq> 0" "isize sample_inode = 20000"
    by (simp_all add: sample_ex_def sample_inode_def)
  with indirect_error_reads_zeros [OF sample_vol_ok(1), of ?s 0 sample_inode 12288 3]
  have "fst (ex_data_read sample_vol sample_inode 12288 3 ?s) = Val (replicate 3 0, False)" by (simp add: EX_DIRECT_def)
  then show ?thesis by (simp add: numeral_3_eq_3)
qed

definition sample_dir :: buf where
  "sample_dir = (\<lambda>j. if j = 0 then 2 else if j = 5 then 4 else if j = 6 then 1 else if j = 8 then 46 else 0)"

lemma sample_dir_rec: "dent_ino sample_dir 0 = 2" "dent_rlen sample_dir 0 = 1024" "dent_nlen sample_dir 0 = 1"
  "dent_name sample_dir 0 = [46]" "dir_offs 1024 sample_dir 0 = [0]"
proof -
  show r: "dent_ino sample_dir 0 = 2" "dent_rlen sample_dir 0 = 1024" and n: "dent_nlen sample_dir 0 = 1"
    by (simp_all add: dent_ino_def dent_rlen_def dent_nlen_def ex_rd32_def ex_rd16_def sample_dir_def push_bit_eq_mult)
  show "dent_name sample_dir 0 = [46]" unfolding dent_name_def n by (simp add: sample_dir_def)
  show "dir_offs 1024 sample_dir 0 = [0]"
    using r by (subst dir_offs.simps) (simp, subst dir_offs.simps, simp)
qed

lemma dir_place_find_witness:
  "\<exists>b'. dir_place 1024 7 [97] False sample_dir = Some b' \<and> dir_find 1024 b' [97] = Some 7 \<and> dir_find 1024 b' [46] = Some 2"
proof -
  have u: "dent_used sample_dir 0 = 12" "dent_need [97] = 12" by (simp_all add: dent_used_def dent_need_def sample_dir_rec round4_def)
  have wf: "dir_wf 1024 sample_dir" by (simp add: dir_wf_def sample_dir_rec rec_ok_def)
  have m: "dent_match 1024 sample_dir x 0 \<longleftrightarrow> x = [46]" for x
    by (auto simp: dent_match_def dent_live_def sample_dir_rec cbytes_def)
  have f: "dir_find 1024 sample_dir [97] = None" "dir_find 1024 sample_dir [46] = Some 2"
    by (simp_all add: dir_find_def sample_dir_rec m)
  obtain b' where b': "dir_place 1024 7 [97] False sample_dir = Some b'"
    by (simp add: dir_place_def sample_dir_rec dent_fits_def u Let_def)
  from dir_place_find [OF wf _ _ f(1) b'] f(2) b' show ?thesis by (simp add: name_ok_def)
qed

end
