(* ===== verification/Fd_Proofs.thy ===== *)
theory Fd_Proofs
  imports Fd Ext_Alloc
begin

text \<open>
  The open file table: reference counts are exact under every interleaving of critical sections,
  reads through a descriptor return consecutive parts of the file, seeks compute exact offsets, and
  a forked task shares the entries of its parent.
\<close>

section \<open>Reference counts\<close>

definition fd_names :: "fdsys \<Rightarrow> nat \<Rightarrow> (task_id \<times> nat) set" where
  "fd_names s g = {(t, k). t < NTASK \<and> k < FD_MAX_TASK \<and> fd_tab s t k = int g}"

definition fd_wf :: "fdsys \<Rightarrow> bool" where
  "fd_wf s \<longleftrightarrow> (\<forall>t < NTASK. \<forall>k < FD_MAX_TASK. fd_tab s t k = -1 \<or> fd_valid (fd_tab s t k) s)"

definition fd_inv :: "fdsys \<Rightarrow> bool" where
  "fd_inv s \<longleftrightarrow> fd_wf s \<and>
     (\<forall>g < FD_MAX_GLOBAL. in_use (fds s g) \<longrightarrow> 0 < fref (fds s g) \<and> fref (fds s g) = int (card (fd_names s g)))"

lemma fd_names_finite [simp]: "finite (fd_names s g)"
  by (rule finite_subset [of _ "{..<NTASK} \<times> {..<FD_MAX_TASK}"]) (auto simp: fd_names_def)

lemma put_sel [simp]:
  "fds (put_tab t k g s) = fds s" "fd_tab (put_fd n e s) = fd_tab s" "fds (put_fd n e s) = (fds s)(n := e)"
  "fd_tab (put_tab t k g s) = (fd_tab s)(t := (fd_tab s t)(k := g))"
  by (simp_all add: put_tab_def put_fd_def)

lemma put_comm: "put_tab t k v (put_fd g e s) = put_fd g e (put_tab t k v s)"
  by (cases s) (simp add: put_tab_def put_fd_def)

lemma fd_names_put_fd [simp]: "fd_names (put_fd n e s) = fd_names s"
  by (simp add: fd_names_def fun_eq_iff)

lemma fd_names_put_tab:
  assumes "t < NTASK" "k < FD_MAX_TASK"
  shows "fd_names (put_tab t k v s) g = (if v = int g then insert (t, k) (fd_names s g) else fd_names s g - {(t, k)})"
  using assms by (auto simp: fd_names_def split: if_splits)

lemma fd_names_mem: "t < NTASK \<Longrightarrow> k < FD_MAX_TASK \<Longrightarrow> (t, k) \<in> fd_names s g \<longleftrightarrow> fd_tab s t k = int g"
  by (simp add: fd_names_def)

lemma fd_validD: "fd_valid g s \<Longrightarrow> \<exists>n < FD_MAX_GLOBAL. g = int n \<and> in_use (fds s n)"
  by (auto simp: fd_valid_def intro!: exI [of _ "nat g"])

lemma fd_valid_int [simp]: "fd_valid (int n) s \<longleftrightarrow> n < FD_MAX_GLOBAL \<and> in_use (fds s n)"
  by (simp add: fd_valid_def)

lemma fd_valid_neg [simp]: "\<not> fd_valid (-1) s"
  by (simp add: fd_valid_def)

text \<open>A slot of a table under the invariant is free or names a used entry.\<close>

lemma fd_wf_cases:
  assumes "fd_wf s" "t < NTASK" "k < FD_MAX_TASK"
  obtains "fd_tab s t k = -1" | n where "n < FD_MAX_GLOBAL" "fd_tab s t k = int n" "in_use (fds s n)"
  using assms fd_validD unfolding fd_wf_def by metis

lemma fd_wf_unused: "fd_wf s \<Longrightarrow> \<not> in_use (fds s g) \<Longrightarrow> fd_names s g = {}"
  by (auto simp: fd_names_def elim: fd_wf_cases)

lemma fd_invI:
  assumes "\<And>t k. t < NTASK \<Longrightarrow> k < FD_MAX_TASK \<Longrightarrow> fd_tab s t k = -1 \<or> fd_valid (fd_tab s t k) s"
    and "\<And>g. g < FD_MAX_GLOBAL \<Longrightarrow> in_use (fds s g) \<Longrightarrow> 0 < fref (fds s g) \<and> fref (fds s g) = int (card (fd_names s g))"
  shows "fd_inv s"
  using assms unfolding fd_inv_def fd_wf_def by blast

lemma fd_invD:
  assumes "fd_inv s"
  shows "fd_wf s" "g < FD_MAX_GLOBAL \<Longrightarrow> in_use (fds s g) \<Longrightarrow> 0 < fref (fds s g) \<and> fref (fds s g) = int (card (fd_names s g))"
  using assms unfolding fd_inv_def by blast+

lemma close_slot_inv:
  assumes inv: "fd_inv s" and t: "t < NTASK" and k: "k < FD_MAX_TASK"
  shows "fd_inv (close_slot t k s)"
proof (rule fd_wf_cases [OF fd_invD(1) [OF inv] t k])
  assume "fd_tab s t k = -1"
  then have "close_slot t k s = put_tab t k (fd_tab s t k) s" by (simp add: close_slot_def)
  then have "close_slot t k s = s" by (simp add: put_tab_def)
  with inv show ?thesis by simp
next
  fix n assume n: "n < FD_MAX_GLOBAL" "fd_tab s t k = int n" "in_use (fds s n)"
  let ?s = "close_slot t k s"
  have c: "?s = put_tab t k (-1) (fd_drop n s)" using n by (simp add: close_slot_def Let_def)
  have mem: "(t, k) \<in> fd_names s n" using n t k by (simp add: fd_names_mem)
  have names: "fd_names ?s g = fd_names s g - {(t, k)}" for g
    using t k by (simp add: c fd_names_put_tab fd_drop_def Let_def)
  have ref: "fref (fds s n) = int (card (fd_names s n))" using fd_invD(2) [OF inv n(1,3)] by simp
  show ?thesis
  proof (rule fd_invI)
    fix t' k' assume t': "t' < NTASK" "k' < FD_MAX_TASK"
    show "fd_tab ?s t' k' = -1 \<or> fd_valid (fd_tab ?s t' k') ?s"
    proof (cases "t' = t \<and> k' = k")
      case False
      then have e: "fd_tab ?s t' k' = fd_tab s t' k'" by (auto simp: c fd_drop_def Let_def)
      show ?thesis
      proof (rule fd_wf_cases [OF fd_invD(1) [OF inv] t'])
        fix m assume m: "m < FD_MAX_GLOBAL" "fd_tab s t' k' = int m" "in_use (fds s m)"
        have "in_use (fds ?s m)"
        proof (cases "m = n")
          case True
          then have "{(t, k), (t', k')} \<subseteq> fd_names s n" using m n t k t' by (simp add: fd_names_mem)
          moreover have "card {(t, k), (t', k')} = 2" using False by auto
          ultimately have "2 \<le> card (fd_names s n)" by (metis card_mono fd_names_finite)
          with True n ref show ?thesis by (simp add: c fd_drop_def Let_def)
        qed (use m in \<open>simp add: c fd_drop_def Let_def\<close>)
        with m e show ?thesis by simp
      qed (simp add: e)
    qed (simp add: c)
  next
    fix g assume g: "g < FD_MAX_GLOBAL" "in_use (fds ?s g)"
    show "0 < fref (fds ?s g) \<and> fref (fds ?s g) = int (card (fd_names ?s g))"
    proof (cases "g = n")
      case True
      then have "fref (fds ?s g) = fref (fds s n) - 1" "0 < fref (fds ?s g)" using g(2) by (simp_all add: c fd_drop_def Let_def split: if_splits)
      moreover have "card (fd_names ?s g) = card (fd_names s n) - 1" using True mem by (simp add: names)
      moreover have "0 < card (fd_names s n)" using mem by (auto simp: card_gt_0_iff)
      ultimately show ?thesis using ref by linarith
    next
      case False
      then have "(t, k) \<notin> fd_names s g" using n t k by (simp add: fd_names_mem)
      moreover have "fds ?s g = fds s g" using False by (simp add: c fd_drop_def Let_def)
      ultimately show ?thesis using fd_invD(2) [OF inv g(1)] g(2) by (simp add: names)
    qed
  qed
qed

text \<open>A free slot comes to name entry \<open>n\<close>, whose count grows by one.\<close>

lemma fd_bind_inv:
  assumes inv: "fd_inv s" and t: "t < NTASK" and k: "k < FD_MAX_TASK" and free: "fd_tab s t k = -1"
    and n: "n < FD_MAX_GLOBAL" and e: "in_use e" "fref e = int (card (fd_names s n)) + 1"
  shows "fd_inv (put_fd n e (put_tab t k (int n) s))"
proof (rule fd_invI)
  let ?s = "put_fd n e (put_tab t k (int n) s)"
  fix t' k' assume t': "t' < NTASK" "k' < FD_MAX_TASK"
  show "fd_tab ?s t' k' = -1 \<or> fd_valid (fd_tab ?s t' k') ?s"
    by (rule fd_wf_cases [OF fd_invD(1) [OF inv] t']) (use n e in \<open>auto split: if_splits\<close>)
next
  let ?s = "put_fd n e (put_tab t k (int n) s)"
  fix g assume g: "g < FD_MAX_GLOBAL" "in_use (fds ?s g)"
  have "(t, k) \<notin> fd_names s g" for g using t k free by (simp add: fd_names_mem)
  then have "card (fd_names ?s g) = (if g = n then Suc (card (fd_names s g)) else card (fd_names s g))"
    using t k by (simp add: fd_names_put_tab)
  then show "0 < fref (fds ?s g) \<and> fref (fds ?s g) = int (card (fd_names ?s g))"
    using fd_invD(2) [OF inv g(1)] g(2) e by (auto split: if_splits)
qed

text \<open>Entries may change where their count does not.\<close>

lemma fd_put_inv:
  assumes "fd_inv s" "in_use e = in_use (fds s g)" "in_use e \<Longrightarrow> fref e = fref (fds s g)"
  shows "fd_inv (put_fd g e s)"
proof (rule fd_invI)
  fix t k assume "t < NTASK" "k < FD_MAX_TASK"
  then show "fd_tab (put_fd g e s) t k = -1 \<or> fd_valid (fd_tab (put_fd g e s) t k) (put_fd g e s)"
    using fd_invD(1) [OF assms(1)] assms(2) by (auto elim!: fd_wf_cases split: if_splits)
next
  fix n assume "n < FD_MAX_GLOBAL" "in_use (fds (put_fd g e s) n)"
  then show "0 < fref (fds (put_fd g e s) n) \<and> fref (fds (put_fd g e s) n) = int (card (fd_names (put_fd g e s) n))"
    using fd_invD(2) [OF assms(1), of n] assms(2,3) by (auto split: if_splits)
qed

lemma fd_install_inv:
  assumes inv: "fd_inv s" and t: "t < NTASK"
  shows "fd_inv (snd (fd_install t ino flags s))"
proof (cases "scan (\<lambda>g. \<not> in_use (fds s g)) 0 FD_MAX_GLOBAL")
  case None
  then show ?thesis using inv by (simp add: fd_install_def fd_alloc_global_def)
next
  case (Some g)
  then have g: "g < FD_MAX_GLOBAL" "\<not> in_use (fds s g)" by (auto dest: scan_SomeD)
  let ?e = "\<lparr>in_use = True, fref = 1, fino = ino, foff = 0, fflags = flags\<rparr>"
  show ?thesis
  proof (cases "scan (\<lambda>k. fd_tab s t k < 0) 0 FD_MAX_TASK")
    case None
    have "fd_inv (put_fd g (?e\<lparr>in_use := False\<rparr>) s)" using inv g by (intro fd_put_inv) simp_all
    then show ?thesis using Some None by (simp add: fd_install_def fd_alloc_global_def fd_map_local_def put_fd_def)
  next
    case (Some k)
    then have k: "k < FD_MAX_TASK" "fd_tab s t k < 0" by (auto dest: scan_SomeD)
    then have "fd_tab s t k = -1" using fd_invD(1) [OF inv] t by (auto elim: fd_wf_cases)
    then have "fd_inv (put_fd g ?e (put_tab t k (int g) s))"
      using fd_bind_inv [OF inv t k(1) _ g(1), of ?e] fd_wf_unused [OF fd_invD(1) [OF inv] g(2)] by simp
    then show ?thesis
      using Some \<open>scan _ 0 FD_MAX_GLOBAL = _\<close> by (simp add: fd_install_def fd_alloc_global_def fd_map_local_def put_comm)
  qed
qed

lemma fd_move_inv: "fd_inv s \<Longrightarrow> fd_inv (snd (fd_move t fd f s))"
  by (auto simp: fd_move_def Let_def intro: fd_put_inv)

lemma fd_entry_run:
  "fd_entry t fd s = (if fd_valid (fd_local_get (Some t) fd s) s then (Val (nat (fd_local_get (Some t) fd s)), s) else (Err (-9), s))"
  by (simp add: fd_entry_def)

lemma fd_close_inv: "fd_inv s \<Longrightarrow> t < NTASK \<Longrightarrow> fd_inv (snd (fd_close (Some t) fd s))"
  by (cases "fd_valid (fd_local_get (Some t) fd s) s")
    (auto simp: fd_close_def fd_entry_run fd_local_get_def seq_def split: if_splits intro!: close_slot_inv)

lemma close_slots_inv: "fd_inv s \<Longrightarrow> t < NTASK \<Longrightarrow> \<forall>k \<in> set ks. k < FD_MAX_TASK \<Longrightarrow> fd_inv (fold (close_slot t) ks s)"
  by (induction ks arbitrary: s) (simp_all add: close_slot_inv)

lemma fd_close_all_inv: "fd_inv s \<Longrightarrow> t < NTASK \<Longrightarrow> fd_inv (fd_close_all (Some t) s)"
  by (simp add: fd_close_all_def close_slots_inv)

lemma inherit_slot_tab: "fd_tab (inherit_slot d r k s) = (fd_tab s)(d := (fd_tab s d)(k := fd_tab s r k))"
  by (simp add: inherit_slot_def Let_def)

lemma inherit_slot_inv:
  assumes inv: "fd_inv s" and d: "d < NTASK" and r: "r < NTASK" "d \<noteq> r" and k: "k < FD_MAX_TASK" and free: "fd_tab s d k = -1"
  shows "fd_inv (inherit_slot d r k s)"
proof (rule fd_wf_cases [OF fd_invD(1) [OF inv] r(1) k])
  assume e: "fd_tab s r k = -1"
  have "put_tab d k (-1) s = put_tab d k (fd_tab s d k) s" using free by simp
  then have "put_tab d k (-1) s = s" by (simp add: put_tab_def)
  then show ?thesis using inv e by (simp add: inherit_slot_def)
next
  fix n assume n: "n < FD_MAX_GLOBAL" "fd_tab s r k = int n" "in_use (fds s n)"
  then have "fref (fds s n) = int (card (fd_names s n))" using fd_invD(2) [OF inv] by blast
  then show ?thesis
    using fd_bind_inv [OF inv d k free n(1), of "(fds s n)\<lparr>fref := fref (fds s n) + 1\<rparr>"] n by (simp add: inherit_slot_def Let_def)
qed

lemma inherit_slots_inv:
  assumes "fd_inv s" "d < NTASK" "r < NTASK" "d \<noteq> r" "distinct ks" "\<forall>k \<in> set ks. k < FD_MAX_TASK \<and> fd_tab s d k = -1"
  shows "fd_inv (fold (inherit_slot d r) ks s)"
  using assms by (induction ks arbitrary: s) (auto simp: inherit_slot_inv inherit_slot_tab)

lemma fd_inherit_inv:
  assumes "fd_inv s" "d < NTASK" "r < NTASK" "d \<noteq> r" "\<forall>k < FD_MAX_TASK. fd_tab s d k = -1"
  shows "fd_inv (fd_inherit (Some d) (Some r) s)"
  using assms by (simp add: fd_inherit_def inherit_slots_inv)

section \<open>Any interleaving of critical sections\<close>

definition fd_init :: "exst \<Rightarrow> fdsys" where
  "fd_init e = \<lparr>fds = (\<lambda>_. \<lparr>in_use = False, fref = 0, fino = 0, foff = 0, fflags = 0\<rparr>), fd_tab = (\<lambda>_ _. -1), vol_st = e\<rparr>"

text \<open>The states the tasks can bring about, each critical section being one step; between two sections
  of a call other tasks run, and the volume changes at any time.  A table is inherited into a task
  that was just set up with an empty one.\<close>

inductive fd_reach :: "fdsys \<Rightarrow> bool" where
  init: "fd_reach (fd_init e)"
| vol: "fd_reach s \<Longrightarrow> fd_reach (s\<lparr>vol_st := e\<rparr>)"
| install: "fd_reach s \<Longrightarrow> t < NTASK \<Longrightarrow> fd_reach (snd (fd_install t ino flags s))"
| move: "fd_reach s \<Longrightarrow> t < NTASK \<Longrightarrow> fd_reach (snd (fd_move t fd f s))"
| close: "fd_reach s \<Longrightarrow> t < NTASK \<Longrightarrow> fd_reach (snd (fd_close (Some t) fd s))"
| close_all: "fd_reach s \<Longrightarrow> t < NTASK \<Longrightarrow> fd_reach (fd_close_all (Some t) s)"
| inherit: "fd_reach s \<Longrightarrow> d < NTASK \<Longrightarrow> r < NTASK \<Longrightarrow> d \<noteq> r \<Longrightarrow> \<forall>k < FD_MAX_TASK. fd_tab s d k = -1 \<Longrightarrow>
    fd_reach (fd_inherit (Some d) (Some r) s)"

lemma fd_init_inv: "fd_inv (fd_init e)"
  by (simp add: fd_inv_def fd_wf_def fd_init_def)

lemma fd_inv_vol [simp]: "fd_inv (s\<lparr>vol_st := e\<rparr>) = fd_inv s"
proof -
  have "fd_names (s\<lparr>vol_st := e\<rparr>) = fd_names s" "fd_valid g (s\<lparr>vol_st := e\<rparr>) = fd_valid g s" for g
    by (simp_all add: fd_names_def fd_valid_def fun_eq_iff)
  then show ?thesis unfolding fd_inv_def fd_wf_def by simp
qed

lemma fd_reach_keeps_inv: "fd_reach s \<Longrightarrow> fd_inv s"
  by (induction rule: fd_reach.induct)
    (auto intro: fd_init_inv fd_install_inv fd_move_inv fd_close_inv fd_close_all_inv fd_inherit_inv)

text \<open>Operations that stay within the reachable states, closed under sequencing.\<close>

definition fd_stays :: "(fdsys, 'a) opn \<Rightarrow> bool" where
  "fd_stays m \<longleftrightarrow> (\<forall>s. fd_reach s \<longrightarrow> fd_reach (snd (m s)))"

named_theorems stays \<open>operations that keep to reachable states\<close>

lemma stays_basic [stays]: "fd_stays (ret a)" "fd_stays (fail e)" "fd_stays trap" "fd_stays (gets f)"
  by (simp_all add: fd_stays_def)

lemma stays_seq [stays]: "fd_stays m \<Longrightarrow> (\<And>a. fd_stays (k a)) \<Longrightarrow> fd_stays (seq m k)"
  unfolding fd_stays_def seq_def by (auto split: prod.splits res.splits)

lemma stays_on_vol [stays]: "fd_stays (on_vol m)"
  by (auto simp: fd_stays_def on_vol_def split: prod.splits intro: fd_reach.vol)

lemma stays_err_to [stays]: "fd_stays m \<Longrightarrow> fd_stays (err_to e m)"
  unfolding fd_stays_def err_to_def by (auto split: prod.splits res.splits)

lemma stays_if [stays]: "(b \<Longrightarrow> fd_stays m) \<Longrightarrow> (\<not> b \<Longrightarrow> fd_stays n) \<Longrightarrow> fd_stays (if b then m else n)"
  by simp

lemma stays_pair [stays]: "(\<And>a b. fd_stays (k a b)) \<Longrightarrow> fd_stays (case p of (a, b) \<Rightarrow> k a b)"
  by (simp split: prod.splits)

lemma stays_sections [stays]:
  "t < NTASK \<Longrightarrow> fd_stays (fd_install t ino flags)" "t < NTASK \<Longrightarrow> fd_stays (fd_move t fd f)"
  "t < NTASK \<Longrightarrow> fd_stays (fd_close (Some t) fd)" "fd_stays (fd_entry t fd)"
  unfolding fd_stays_def by (auto intro: fd_reach.install fd_reach.move fd_reach.close simp: fd_entry_run)

lemma stays_lookup0 [stays]: "fd_stays (lookup0 p)"
  unfolding lookup0_def by (intro stays)

lemma stays_create [stays]: "fd_stays (open_create p)"
  unfolding open_create_def by (auto split: option.splits intro!: stays)

lemma stays_find [stays]: "fd_stays (open_find p flags)"
  using stays_lookup0 [of p] stays_create [of p] unfolding fd_stays_def open_find_def
  by (auto split: prod.splits res.splits)

lemma stays_calls:
  assumes "t < NTASK"
  shows "fd_stays (fd_open (Some t) p flags)" "fd_stays (fd_read (Some t) fd len)" "fd_stays (fd_write (Some t) fd buf len)"
    "fd_stays (fd_lseek (Some t) fd d whence)"
  unfolding fd_open_def fd_read_def fd_write_def fd_lseek_def seek_target_def option.case
  by (intro stays assms)+

text \<open>C14.  Whatever the tasks do, in any interleaving of their critical sections, the reference count of
  every open file is the number of descriptors that name it, no descriptor names a closed entry, and
  every system call keeps to such states.\<close>

theorem fd_refcounts_exact:
  assumes "fd_reach s"
  shows "fd_inv s \<and> (t < NTASK \<longrightarrow> fd_reach (snd (fd_open (Some t) p flags s)) \<and> fd_reach (snd (fd_read (Some t) fd len s)) \<and>
    fd_reach (snd (fd_write (Some t) fd buf len s)) \<and> fd_reach (snd (fd_lseek (Some t) fd d whence s)) \<and>
    fd_reach (snd (fd_close (Some t) fd s)))"
  using fd_reach_keeps_inv [OF assms] stays_calls [of t] stays_sections(3) [of t fd] assms unfolding fd_stays_def by blast

section \<open>Reading through a descriptor\<close>

lemma with_ex_lock_run:
  assumes "\<not> ex_held s" "m (geo s) (s\<lparr>ex_held := True\<rparr>) = (Val a, s')"
  shows "with_ex_lock m s = (Val a, s'\<lparr>ex_held := False\<rparr>)"
  using assms by (simp add: with_ex_lock_def)

text \<open>A file that can be read: mounted, on a working device, not a directory, within the range of the
  double-indirect map.\<close>

definition readable :: "exst \<Rightarrow> u32 \<Rightarrow> bool" where
  "readable e ino \<longleftrightarrow> (let v = geo e; D = blk v e; i = inode_at v D ino in
     ex_vol_mounted e \<and> \<not> ex_held e \<and> vol_ok v \<and> io_ok v e \<and> slot_ok v D ino \<and> \<not> is_dir_mode (imode i) \<and>
     unat (isize i) \<le> bsz v * max_lb v)"

definition file_bytes :: "exst \<Rightarrow> u32 \<Rightarrow> u8 list" where
  "file_bytes e ino = (let v = geo e; D = blk v e; i = inode_at v D ino in map (file_byte v D i) [0..<unat (isize i)])"

lemma take_drop_map_upt: "take n (drop k (map f [0..<m])) = map f [k..<k + min n (m - k)]"
  by (rule nth_equalityI) auto

lemma blk_held [simp]: "blk v (s\<lparr>ex_held := h\<rparr>) = blk v s" "io_ok v (s\<lparr>ex_held := h\<rparr>) = io_ok v s"
  by (simp_all add: blk_def io_ok_def fun_eq_iff)

lemma ex_read_ino_run:
  assumes r: "readable e ino"
  shows "\<exists>e'. ex_read_ino ino p len e = (Val (take (unat len) (drop (unat p) (file_bytes e ino))), e') \<and>
    readable e' ino \<and> file_bytes e' ino = file_bytes e ino"
proof -
  let ?v = "geo e" and ?D = "blk (geo e) e" and ?e = "e\<lparr>ex_held := True\<rparr>"
  let ?i = "inode_at ?v ?D ino"
  have v: "vol_ok ?v" "io_ok ?v ?e" "slot_ok ?v (blk ?v ?e) ino" "\<not> is_dir_mode (imode ?i)" "unat (isize ?i) \<le> bsz ?v * max_lb ?v"
    "ex_vol_mounted e" "\<not> ex_held e"
    using r by (simp_all add: readable_def Let_def)
  obtain e1 where e1: "ex_inode ?v ino ?e = (Val ?i, e1)" "reads {B_META} ?e e1"
    using ex_inode_run [OF v(1-3)] by auto
  have D1: "blk ?v e1 = ?D" "io_ok ?v e1" using reads_blk [OF e1(2)] reads_io [OF e1(2)] v(2) by simp_all
  obtain e2 where e2: "ex_data_read ?v ?i p len e1 =
      (Val (map (file_byte ?v ?D ?i) [unat p..<unat p + min (unat len) (unat (isize ?i) - unat p)], False), e2)" "reads {B_IND, B_DATA} e1 e2"
    using ex_data_read_run [OF v(1) D1(2) v(5) refl] D1(1) by metis
  have rd: "reads UNIV ?e e2" by (rule reads_trans [OF e1(2) e2(2)]) simp
  let ?e' = "e2\<lparr>ex_held := False\<rparr>"
  have g: "geo ?e' = ?v" "blk ?v ?e' = ?D" "io_ok ?v ?e'" "ex_vol_mounted ?e'"
    using rd reads_blk [OF rd] reads_io [OF rd] v by (simp_all add: reads_def)
  then have same: "readable ?e' ino" "file_bytes ?e' ino = file_bytes e ino"
    using v by (simp_all add: readable_def file_bytes_def Let_def)
  have "with_ex_lock (\<lambda>v. seq (err_to EX_EIO (ex_inode v ino)) (\<lambda>i. if is_dir_mode (imode i) then fail EX_EISDIR else ex_data_read v i p len)) e =
    (Val (map (file_byte ?v ?D ?i) [unat p..<unat p + min (unat len) (unat (isize ?i) - unat p)], False), ?e')"
    by (rule with_ex_lock_run [OF v(7)]) (simp add: e1 e2 v(4))
  then have "ex_read_ino ino p len e = (Val (take (unat len) (drop (unat p) (file_bytes e ino))), ?e')"
    using v(6) by (simp add: ex_read_ino_def file_bytes_def Let_def take_drop_map_upt)
  then show ?thesis using same by blast
qed

text \<open>The descriptor \<open>fd\<close> of task \<open>t\<close> is open on entry \<open>g\<close>.\<close>

definition fd_on :: "fdsys \<Rightarrow> task_id \<Rightarrow> int \<Rightarrow> nat \<Rightarrow> bool" where
  "fd_on s t fd g \<longleftrightarrow> fd_local_get (Some t) fd s = int g \<and> g < FD_MAX_GLOBAL \<and> in_use (fds s g)"

lemma fd_move_run:
  "fd_on s t fd g \<Longrightarrow> fd_move t fd f s = (Val (), put_fd g ((fds s g)\<lparr>foff := f (foff (fds s g))\<rparr>) s)"
  by (simp add: fd_on_def fd_move_def Let_def)

lemma fd_on_cong: "fd_tab s' = fd_tab s \<Longrightarrow> in_use (fds s' g) = in_use (fds s g) \<Longrightarrow> fd_on s' t fd g = fd_on s t fd g"
  unfolding fd_on_def fd_local_get_def by simp

lemma fd_on_vol [simp]: "fd_on (s\<lparr>vol_st := e\<rparr>) t fd g = fd_on s t fd g"
  by (rule fd_on_cong) simp_all

lemma fd_read_run:
  assumes on: "fd_on s t fd g" and fl: "fflags (fds s g) AND 3 \<noteq> 1" and r: "readable (vol_st s) (fino (fds s g))"
    and bs: "bs = take (unat (ucast len :: u32)) (drop (unat (foff (fds s g))) (file_bytes (vol_st s) (fino (fds s g))))"
  shows "\<exists>s'. fd_read (Some t) fd len s = (Val bs, s') \<and> fd_tab s' = fd_tab s \<and>
    fds s' = (fds s)(g := (fds s g)\<lparr>foff := foff (fds s g) + of_nat (length bs)\<rparr>) \<and> readable (vol_st s') (fino (fds s g)) \<and>
    file_bytes (vol_st s') (fino (fds s g)) = file_bytes (vol_st s) (fino (fds s g))"
proof -
  obtain e where e: "ex_read_ino (fino (fds s g)) (foff (fds s g)) (ucast len) (vol_st s) = (Val bs, e)"
    "readable e (fino (fds s g))" "file_bytes e (fino (fds s g)) = file_bytes (vol_st s) (fino (fds s g))"
    using ex_read_ino_run [OF r] unfolding bs by blast
  let ?s = "s\<lparr>vol_st := e\<rparr>"
  have en: "fd_entry t fd s = (Val g, s)" using on by (simp add: fd_entry_run fd_on_def)
  have ov: "on_vol (ex_read_ino (fino (fds s g)) (foff (fds s g)) (ucast len)) s = (Val bs, ?s)" by (simp add: on_vol_def e(1))
  have mv: "fd_move t fd (\<lambda>p. p + of_nat (length bs)) ?s = (Val (), put_fd g ((fds s g)\<lparr>foff := foff (fds s g) + of_nat (length bs)\<rparr>) ?s)"
    using fd_move_run [of ?s t fd g] on by simp
  have "fd_read (Some t) fd len s = (Val bs, put_fd g ((fds s g)\<lparr>foff := foff (fds s g) + of_nat (length bs)\<rparr>) ?s)"
    using fl by (simp add: fd_read_def en ov mv)
  then show ?thesis using e by (auto simp: put_fd_def)
qed

lemma file_bytes_small: "length (file_bytes e ino) < 2 ^ 32"
  using unat_u32 by (simp add: file_bytes_def Let_def)

lemma take_parts: "take n (drop k xs) @ take m (drop (k + length (take n (drop k xs))) xs) = take (n + m) (drop k xs)"
proof (cases "n \<le> length (drop k xs)")
  case True
  then have "length (take n (drop k xs)) = n" by simp
  then show ?thesis by (simp add: take_add add.commute [of k n])
qed simp

lemma fd_off_advance:
  assumes "bs = take n (drop (unat (p::u64)) F)" "length F < 2 ^ 32"
  shows "unat (p + of_nat (length bs)) = unat p + length bs"
proof (cases "bs = []")
  case False
  then have "unat p + length bs \<le> length F" using assms(1) by auto
  then show ?thesis using assms(2) by (simp add: unat_word_ariths unat_of_nat)
qed simp

text \<open>C18.  Two descriptors open on the same entry, of one task or of two, read consecutive parts of the
  file: what the second read returns continues what the first returned.\<close>

theorem fd_reads_consecutive:
  assumes "fd_on s t fd g" and "fd_on s t' fd' g" and "fflags (fds s g) AND 3 \<noteq> 1"
    and "readable (vol_st s) (fino (fds s g))"
  shows "\<exists>a s1 b s2. fd_read (Some t) fd n s = (Val a, s1) \<and> fd_read (Some t') fd' m s1 = (Val b, s2) \<and>
    a @ b = take (unat (ucast n :: u32) + unat (ucast m :: u32)) (drop (unat (foff (fds s g))) (file_bytes (vol_st s) (fino (fds s g)))) \<and>
    unat (foff (fds s2 g)) = unat (foff (fds s g)) + length (a @ b)"
proof -
  let ?e = "fds s g"
  let ?F = "file_bytes (vol_st s) (fino ?e)"
  define a where "a = take (unat (ucast n :: u32)) (drop (unat (foff ?e)) ?F)"
  obtain s1 where s1: "fd_read (Some t) fd n s = (Val a, s1)" "fds s1 = (fds s)(g := ?e\<lparr>foff := foff ?e + of_nat (length a)\<rparr>)"
    "readable (vol_st s1) (fino ?e)" "file_bytes (vol_st s1) (fino ?e) = ?F" and tab: "fd_tab s1 = fd_tab s"
    using fd_read_run [OF assms(1,3,4) a_def] by blast
  have oa: "unat (foff ?e + of_nat (length a)) = unat (foff ?e) + length a" by (rule fd_off_advance [OF a_def file_bytes_small])
  have on: "fd_on s1 t' fd' g" using fd_on_cong [OF tab, of g t' fd'] assms(2) s1(2) by simp
  define b where "b = take (unat (ucast m :: u32)) (drop (unat (foff ?e) + length a) ?F)"
  obtain s2 where s2: "fd_read (Some t') fd' m s1 = (Val b, s2)" "fds s2 = (fds s1)(g := (fds s1 g)\<lparr>foff := foff (fds s1 g) + of_nat (length b)\<rparr>)"
    using fd_read_run [OF on, of b m] assms(3) s1 oa b_def by auto
  have "unat (foff ?e + of_nat (length a) + of_nat (length b)) = unat (foff ?e) + length a + length b"
    using fd_off_advance [OF b_def [folded oa] file_bytes_small] oa by simp
  moreover have "a @ b = take (unat (ucast n :: u32) + unat (ucast m :: u32)) (drop (unat (foff ?e)) ?F)"
    unfolding a_def b_def by (rule take_parts)
  ultimately show ?thesis using s1 s2 by auto
qed

section \<open>Seeking\<close>

lemma ex_fsize_run:
  assumes r: "readable e ino"
  shows "\<exists>e'. ex_fsize ino e = (Val (isize (inode_at (geo e) (blk (geo e) e) ino)), e')"
proof -
  let ?v = "geo e" and ?e = "e\<lparr>ex_held := True\<rparr>"
  have v: "vol_ok ?v" "io_ok ?v ?e" "slot_ok ?v (blk ?v ?e) ino" "\<not> is_dir_mode (imode (inode_at ?v (blk ?v e) ino))" "\<not> ex_held e"
    using r by (simp_all add: readable_def Let_def)
  obtain e1 where "ex_inode ?v ino ?e = (Val (inode_at ?v (blk ?v e) ino), e1)" using ex_inode_run [OF v(1-3)] by auto
  then have "with_ex_lock (\<lambda>v. ex_fsize_locked v ino) e = (Val (isize (inode_at ?v (blk ?v e) ino)), e1\<lparr>ex_held := False\<rparr>)"
    using v(4,5) by (intro with_ex_lock_run) (simp_all add: ex_fsize_locked_def)
  then show ?thesis by (auto simp: ex_fsize_def)
qed

lemma seek_sum:
  assumes "a \<le> FD_MAX_OFF"
  shows "d > FD_MAX_OFF - a \<longleftrightarrow> unat a + unat d > unat FD_MAX_OFF"
    and "unat a + unat d \<le> unat FD_MAX_OFF \<Longrightarrow> a + d \<le> FD_MAX_OFF"
proof -
  have a: "unat a \<le> unat FD_MAX_OFF" using assms by (simp add: word_le_nat_alt)
  have s: "unat (FD_MAX_OFF - a) = unat FD_MAX_OFF - unat a" by (rule unat_sub [OF assms])
  show "d > FD_MAX_OFF - a \<longleftrightarrow> unat a + unat d > unat FD_MAX_OFF"
    unfolding word_less_nat_alt s using a by linarith
  assume l: "unat a + unat d \<le> unat FD_MAX_OFF"
  then have "unat (a + d) = unat a + unat d" by (simp add: FD_MAX_OFF_def unat_word_ariths)
  with l show "a + d \<le> FD_MAX_OFF" by (simp add: word_le_nat_alt)
qed

lemma fd_lseek_eq:
  assumes on: "fd_on s t fd g" and tg: "seek_target (fds s g) d org s = (Val no, s')" and s': "s' = s\<lparr>vol_st := e\<rparr>"
  shows "fd_lseek (Some t) fd d org s =
    (if no > FD_MAX_OFF then (Err (-22), s') else (Val no, put_fd g ((fds s g)\<lparr>foff := no\<rparr>) s'))"
proof -
  have en: "fd_entry t fd s = (Val g, s)" using on by (simp add: fd_entry_run fd_on_def)
  have mv: "fd_move t fd (\<lambda>_. no) s' = (Val (), put_fd g ((fds s g)\<lparr>foff := no\<rparr>) s')"
    using fd_move_run [of s' t fd g] on by (simp add: s')
  show ?thesis by (simp add: fd_lseek_def en tg mv)
qed

lemma fd_lseek_sum:
  assumes on: "fd_on s t fd g" and b: "b \<le> FD_MAX_OFF" and s': "s' = s\<lparr>vol_st := e\<rparr>"
    and tg: "seek_target (fds s g) d org s = (if unat b + unat d > unat FD_MAX_OFF then (Err (-22), s') else (Val (b + d), s'))"
  shows "fd_lseek (Some t) fd d org s =
    (if unat b + unat d \<le> unat FD_MAX_OFF then (Val (b + d), put_fd g ((fds s g)\<lparr>foff := b + d\<rparr>) s') else (Err (-22), s'))"
proof (cases "unat b + unat d \<le> unat FD_MAX_OFF")
  case True
  then have "seek_target (fds s g) d org s = (Val (b + d), s')" using tg by simp
  from fd_lseek_eq [OF on this s'] show ?thesis using True seek_sum(2) [OF b True] by simp
next
  case False
  then show ?thesis using on tg by (simp add: fd_lseek_def fd_entry_run fd_on_def)
qed

text \<open>A seek relative to the start, the current offset or the size of the file sets the offset of
  the entry to the exact sum when that is at most 64 MB, and otherwise, as for any other origin,
  fails with EINVAL and leaves the offset alone; no sum wraps around.\<close>

theorem fd_lseek_exact:
  assumes on: "fd_on s t fd g" and cur: "foff (fds s g) \<le> FD_MAX_OFF" and r: "readable (vol_st s) (fino (fds s g))"
    and sz: "isize (inode_at (geo (vol_st s)) (blk (geo (vol_st s)) (vol_st s)) (fino (fds s g))) = sz" "ucast sz \<le> FD_MAX_OFF"
    and base: "base = (if org = 0 then Some 0 else if org = 1 then Some (foff (fds s g)) else if org = 2 then Some (ucast sz) else None)"
  shows "\<exists>e. fd_lseek (Some t) fd d org s =
    (case base of
       Some b \<Rightarrow> if unat b + unat d \<le> unat FD_MAX_OFF
                 then (Val (b + d), put_fd g ((fds s g)\<lparr>foff := b + d\<rparr>) (s\<lparr>vol_st := e\<rparr>)) else (Err (-22), s\<lparr>vol_st := e\<rparr>)
     | None \<Rightarrow> (Err (-22), s))"
proof -
  have en: "fd_entry t fd s = (Val g, s)" using on by (simp add: fd_entry_run fd_on_def)
  have id: "s = s\<lparr>vol_st := vol_st s\<rparr>" by simp
  obtain e where "ex_fsize (fino (fds s g)) (vol_st s) = (Val sz, e)" using ex_fsize_run [OF r] sz(1) by auto
  then have fs: "err_to (-5) (on_vol (ex_fsize (fino (fds s g)))) s = (Val sz, s\<lparr>vol_st := e\<rparr>)" by (simp add: on_vol_def)
  consider "org = 0" | "org = 1" | "org = 2" | "org \<notin> {0, 1, 2}" by blast
  then show ?thesis
  proof cases
    case 1
    then have "seek_target (fds s g) d org s = (Val d, s)" by (simp add: seek_target_def)
    from fd_lseek_eq [OF on this id] show ?thesis
      using 1 by (intro exI [of _ "vol_st s"]) (simp add: base word_less_nat_alt not_less)
  next
    case 2
    have t: "seek_target (fds s g) d org s = (if unat (foff (fds s g)) + unat d > unat FD_MAX_OFF then (Err (-22), s) else (Val (foff (fds s g) + d), s))"
      using 2 by (simp add: seek_target_def seek_sum(1) [OF cur])
    show ?thesis
      unfolding fd_lseek_sum [OF on cur id t] using 2 by (intro exI [of _ "vol_st s"]) (simp add: base)
  next
    case 3
    have t: "seek_target (fds s g) d org s = (if unat (ucast sz :: u64) + unat d > unat FD_MAX_OFF then (Err (-22), s\<lparr>vol_st := e\<rparr>) else (Val (ucast sz + d), s\<lparr>vol_st := e\<rparr>))"
      using 3 by (simp add: seek_target_def fs seek_sum(1) [OF sz(2)] del: unat_ucast_u64)
    show ?thesis
      unfolding fd_lseek_sum [OF on sz(2) refl t] using 3 by (intro exI [of _ e]) (simp add: base)
  next
    case 4
    then show ?thesis by (simp add: base fd_lseek_def en seek_target_def)
  qed
qed

section \<open>Inheriting and opening\<close>

lemma inherit_slots_tab:
  "d \<noteq> r \<Longrightarrow> fd_tab (fold (inherit_slot d r) ks s) = (fd_tab s)(d := (\<lambda>k. if k \<in> set ks then fd_tab s r k else fd_tab s d k))"
  by (induction ks arbitrary: s) (auto simp: inherit_slot_tab fun_eq_iff)

lemma inherit_slot_entry: "(fds (inherit_slot d r k s) n)\<lparr>fref := 0\<rparr> = (fds s n)\<lparr>fref := 0\<rparr>"
  by (simp add: inherit_slot_def Let_def)

lemma inherit_slots_entry: "(fds (fold (inherit_slot d r) ks s) n)\<lparr>fref := 0\<rparr> = (fds s n)\<lparr>fref := 0\<rparr>"
  by (induction ks arbitrary: s) (simp_all add: inherit_slot_entry)

text \<open>After a fork the child's descriptors name the same entries as the parent's, which keep their
  inode, offset and mode, so the two share their offsets; the parent's table and those of all others are unchanged.\<close>

theorem fd_inherit_shares:
  assumes "d \<noteq> r" and "s' = fd_inherit (Some d) (Some r) s"
  shows "(fd_on s r fd g \<longleftrightarrow> fd_on s' d fd g) \<and> (fds s' g)\<lparr>fref := 0\<rparr> = (fds s g)\<lparr>fref := 0\<rparr> \<and> (t \<noteq> d \<longrightarrow> fd_tab s' t = fd_tab s t)"
proof -
  have e: "(fds s' g)\<lparr>fref := 0\<rparr> = (fds s g)\<lparr>fref := 0\<rparr>" using assms(2) by (simp add: fd_inherit_def inherit_slots_entry)
  then have "in_use (fds s' g) = in_use (fds s g)" by (metis fildes.select_convs(1) fildes.surjective fildes.update_convs(2))
  moreover have "fd_local_get (Some d) fd s' = fd_local_get (Some r) fd s"
    using assms by (auto simp: fd_local_get_def fd_inherit_def inherit_slots_tab)
  ultimately have "fd_on s r fd g \<longleftrightarrow> fd_on s' d fd g" by (simp add: fd_on_def)
  moreover have "t \<noteq> d \<longrightarrow> fd_tab s' t = fd_tab s t" using assms by (simp add: fd_inherit_def inherit_slots_tab)
  ultimately show ?thesis using e by blast
qed

section \<open>An example\<close>

text \<open>Inode 3 of the sample volume is a file of three bytes 9; task 0 has it open twice.\<close>

definition sample_file :: exst where
  "sample_file = sample_ex\<lparr>sec := (\<lambda>d l i. if l = 10 \<and> i = 260 then 3 else if l = 10 \<and> i = 296 then 8 else sec sample_ex d l i),
     ex_vol_mounted := True, geo := sample_vol\<rparr>"

definition sample_fds :: fdsys where
  "sample_fds = (fd_init sample_file)\<lparr>fds := (fds (fd_init sample_file))(0 := \<lparr>in_use = True, fref = 2, fino = 3, foff = 0, fflags = 0\<rparr>),
     fd_tab := (\<lambda>t k. if t = 0 \<and> k < 2 then 0 else -1)\<rparr>"

lemma sample_file_blk: "blk sample_vol sample_file b j = (if j < 1024 then
    (let l = b * 2 + of_nat (j div 512); i = j mod 512 in
     if l = 10 \<and> i = 260 then 3 else if l = 10 \<and> i = 296 then 8 else blk sample_vol sample_ex b j) else 0)"
  by (simp add: blk_def sample_file_def Let_def)

lemma sample_file_slot: "slot_itab sample_vol (blk sample_vol sample_file) 3 = 5" "slot_blk sample_vol (blk sample_vol sample_file) 3 = 5"
  "slot_off sample_vol 3 = 256"
  by (simp_all add: slot_itab_def slot_blk_def slot_off_def ino_grp_def sample_groups ex_rd32_def sample_file_blk sample_blk)

lemma sample_file_inode: "isize (inode_at sample_vol (blk sample_vol sample_file) 3) = 3" "imode (inode_at sample_vol (blk sample_vol sample_file) 3) = 0"
  "iblock (inode_at sample_vol (blk sample_vol sample_file) 3) 0 = 8"
  by (simp_all add: inode_at_def sample_file_slot inode_decode_def ex_rd32_def ex_rd16_def sample_file_blk sample_blk Let_def)

lemma sample_file_fields [simp]: "geo sample_file = sample_vol" "ex_vol_mounted sample_file" "\<not> ex_held sample_file" "io_ok sample_vol sample_file"
  by (simp_all add: sample_file_def io_ok_def sample_ex_def)

lemma sample_file_readable: "readable sample_file 3" "file_bytes sample_file 3 = [9, 9, 9]"
proof -
  show "readable sample_file 3"
    by (simp add: readable_def slot_ok_def sample_file_slot sample_file_inode is_dir_mode_def max_lb_def EX_DIRECT_def Let_def)
  have "file_byte sample_vol (blk sample_vol sample_file) (inode_at sample_vol (blk sample_vol sample_file) 3) p = 9" if "p < 3" for p
    using that by (simp add: file_byte_def bmap_at_def EX_DIRECT_def sample_file_inode sample_file_blk sample_blk Let_def)
  then show "file_bytes sample_file 3 = [9, 9, 9]"
    by (simp add: file_bytes_def sample_file_inode Let_def upt_rec)
qed

lemma sample_fds_on: "fd_on sample_fds 0 0 0" "fd_on sample_fds 0 1 0" "fds sample_fds 0 = \<lparr>in_use = True, fref = 2, fino = 3, foff = 0, fflags = 0\<rparr>"
  "vol_st sample_fds = sample_file"
  by (simp_all add: fd_on_def fd_local_get_def sample_fds_def fd_init_def fd_limits)

lemma fd_reads_consecutive_witness:
  "\<exists>a s1 b s2. fd_read (Some 0) 0 2 sample_fds = (Val a, s1) \<and> fd_read (Some 0) 1 5 s1 = (Val b, s2) \<and> a @ b = [9, 9, 9]"
  using fd_reads_consecutive [OF sample_fds_on(1,2), of 2 5] sample_file_readable by (auto simp: sample_fds_on)

lemma fd_lseek_exact_witness:
  "fst (fd_lseek (Some 0) 0 7 2 sample_fds) = Val 10 \<and> fst (fd_lseek (Some 0) 0 0xFFFFFFFFFFFFFFFF 2 sample_fds) = Err (-22)"
proof -
  have r: "readable (vol_st sample_fds) (fino (fds sample_fds 0))" "foff (fds sample_fds 0) \<le> FD_MAX_OFF"
    "isize (inode_at (geo (vol_st sample_fds)) (blk (geo (vol_st sample_fds)) (vol_st sample_fds)) (fino (fds sample_fds 0))) = 3"
    "ucast (3 :: u32) \<le> FD_MAX_OFF"
    using sample_file_readable by (simp_all add: sample_fds_on sample_file_inode FD_MAX_OFF_def)
  have a: "\<exists>e. fd_lseek (Some 0) 0 7 2 sample_fds = (Val 10, put_fd 0 ((fds sample_fds 0)\<lparr>foff := 10\<rparr>) (sample_fds\<lparr>vol_st := e\<rparr>))"
    using fd_lseek_exact [OF sample_fds_on(1) r(2,1,3,4) refl, of 7 2] by (simp add: FD_MAX_OFF_def)
  have b: "\<exists>e. fd_lseek (Some 0) 0 0xFFFFFFFFFFFFFFFF 2 sample_fds = (Err (-22), sample_fds\<lparr>vol_st := e\<rparr>)"
    using fd_lseek_exact [OF sample_fds_on(1) r(2,1,3,4) refl, of "0xFFFFFFFFFFFFFFFF" 2] by (simp add: FD_MAX_OFF_def)
  from a b show ?thesis by auto
qed

lemma fd_inherit_shares_witness: "fd_on (fd_inherit (Some 1) (Some 0) sample_fds) 1 0 0"
  using fd_inherit_shares [of 1 0, OF _ refl] sample_fds_on(1) by simp

lemma fd_refcounts_exact_witness: "fd_inv (snd (fd_open (Some 0) [47] 0 (fd_init sample_file)))"
proof -
  have "fd_reach (snd (fd_open (Some 0) [47] 0 (fd_init sample_file)))"
    using fd_refcounts_exact [OF fd_reach.init [of sample_file], of 0 "[47]" 0] by (simp add: NTASK_def)
  then show ?thesis using fd_refcounts_exact by blast
qed

end
