(* ===== verification/Mouse.thy ===== *)
theory Mouse
  imports Cons_Proofs
begin

text \<open>
  The PS/2 mouse of \<^verbatim>\<open>src/k64/mouse64.c\<close>: the three-byte packet assembler with clamping,
  routing of each packet to the window slots, and the packed position word of
  \<^verbatim>\<open>SYS_GETMOUSE\<close>.  The controller handshake of \<^verbatim>\<open>mouse_init\<close> is port I/O; its effect on
  the state, once the handshake has succeeded, is \<open>mouse_init_done\<close>.
\<close>

definition mouse_init_done :: "desk \<Rightarrow> desk" where
  "mouse_init_done d =
     (let w = fb_w (con d); h = fb_h (con d); m = (mou d)\<lparr>pkt_i := 0\<rparr>;
          m = (if w \<noteq> 0 then m\<lparr>mouse_max_x := w - 1\<rparr> else m);
          m = (if h \<noteq> 0 then m\<lparr>mouse_max_y := h - 1\<rparr> else m)
      in d\<lparr>mou := m\<lparr>mouse_x := mouse_max_x m div 2, mouse_y := mouse_max_y m div 2, mouse_live := True\<rparr>\<rparr>)"

text \<open>The position update of a complete packet: nine-bit deltas, screen y down, clamped.\<close>

definition clamp_coord :: "int \<Rightarrow> u32 \<Rightarrow> u32" where
  "clamp_coord n mx =
     (let n = (if n < 0 then 0 else n); n = (if (word_of_int n :: u32) > mx then sint mx else n) in word_of_int n)"

definition mouse_move :: "mouse64 \<Rightarrow> mouse64" where
  "mouse_move m =
     (if pkt m 0 AND 0xC0 = 0 then
        let dx = uint (pkt m 1) - (if pkt m 0 AND 0x10 \<noteq> 0 then 256 else 0);
            dy = uint (pkt m 2) - (if pkt m 0 AND 0x20 \<noteq> 0 then 256 else 0)
        in if dx \<noteq> 0 \<or> dy \<noteq> 0
           then m\<lparr>mouse_x := clamp_coord (sint (mouse_x m) + dx) (mouse_max_x m),
                  mouse_y := clamp_coord (sint (mouse_y m) - dy) (mouse_max_y m)\<rparr>
           else m
      else m)"

definition mouse_push :: "u8 \<Rightarrow> desk \<Rightarrow> bool \<times> desk" where
  "mouse_push b d =
     (let m = mou d
      in if \<not> mouse_live m then (False, d)
         else if pkt_i m = 0 \<and> b AND 0x08 = 0 then (False, d)
         else
           let m = m\<lparr>pkt := (pkt m)(pkt_i m := b), pkt_i := pkt_i m + 1\<rparr>
           in if pkt_i m < 3 then (False, d\<lparr>mou := m\<rparr>)
              else
                let m = m\<lparr>pkt_i := 0\<rparr>; ox = mouse_x m; oy = mouse_y m;
                    m = mouse_move (m\<lparr>mouse_btn := ucast (pkt m 0 AND 7)\<rparr>);
                    m = m\<lparr>mouse_seq := mouse_seq m + 1\<rparr>;
                    d = d\<lparr>mou := m, wsys := win_route_mouse (mouse_x m) (mouse_y m) (mouse_btn m) (wsys d)\<rparr>
                in if ox = mouse_x m \<and> oy = mouse_y m then (False, d)
                   else (True, d\<lparr>con := cons_cursor_moved ox oy (mouse_x m) (mouse_y m) (con d)\<rparr>))"

definition mouse_get :: "mouse64 \<Rightarrow> u64" where
  "mouse_get m = ucast (mouse_x m) OR push_bit 12 (ucast (mouse_y m)) OR push_bit 24 (ucast (mouse_btn m)) OR
     push_bit 32 (ucast (mouse_seq m))"

section \<open>Invariant and behaviour\<close>

definition mouse_ok :: "mouse64 \<Rightarrow> bool" where
  "mouse_ok m \<longleftrightarrow> mouse_x m \<le> mouse_max_x m \<and> mouse_y m \<le> mouse_max_y m \<and>
     unat (mouse_max_x m) < 4096 \<and> unat (mouse_max_y m) < 4096 \<and> unat (mouse_btn m) < 8 \<and> pkt_i m < 3"

definition clampi :: "int \<Rightarrow> int \<Rightarrow> int" where
  "clampi n hi = max 0 (min n hi)"

lemma sint_small:
  assumes "unat (x::u32) < 4096"
  shows "sint x = uint x" "uint x < 4096"
proof -
  have "uint x = int (unat x)" by (rule uint_nat)
  then show "uint x < 4096" using assms by linarith
  moreover have "- (2 ^ 31) \<le> (0 :: int)" "(4096 :: int) \<le> 2 ^ 31" by simp_all
  ultimately have "signed_take_bit 31 (uint x) = uint x" using uint_ge_0 [of x] by (intro signed_take_bit_int_eq_self) linarith+
  then show "sint x = uint x" by (simp add: sint_uint)
qed

lemma clamp_coord_eq:
  assumes "unat mx < 4096" "-4096 \<le> n" "n < 8192"
  shows "uint (clamp_coord n mx) = clampi n (uint mx)"
proof -
  note m = sint_small [OF assms(1)]
  have w: "uint (word_of_int k :: u32) = k" if "0 \<le> k" "k < 8192" for k :: int
    using that by (simp add: unsigned_of_int take_bit_int_eq_self)
  have gt: "(word_of_int k :: u32) > mx \<longleftrightarrow> k > uint mx" if "0 \<le> k" "k < 8192" for k :: int
    using w [OF that] by (simp add: word_less_def)
  show ?thesis
    using assms m w gt [of n] gt [of 0] by (auto simp: clamp_coord_def clampi_def Let_def m(1))
qed

lemma u32_le_uint: "(a::u32) \<le> b \<longleftrightarrow> uint a \<le> uint b"
  by (rule word_le_def)

lemma clamp_le: "unat mx < 4096 \<Longrightarrow> -4096 \<le> n \<Longrightarrow> n < 8192 \<Longrightarrow> clamp_coord n mx \<le> mx"
  by (simp add: u32_le_uint clamp_coord_eq clampi_def)

lemma delta_range: "-256 \<le> uint (b::u8) - (if P then 256 else 0)" "uint (b::u8) - (if P then 256 else 0) \<le> 255"
proof -
  have "0 \<le> uint b" "uint b < 256" using uint_bounded [of b] by simp_all
  then have "uint b - 256 \<ge> -256" "uint b \<ge> -256" "uint b - 256 \<le> 255" "uint b \<le> 255" by linarith+
  then show "-256 \<le> uint b - (if P then 256 else 0)" "uint b - (if P then 256 else 0) \<le> 255" by (cases P; simp)+
qed

lemma coord_range:
  assumes "x \<le> mx" "unat mx < 4096"
  shows "sint (x::u32) = uint x" "0 \<le> uint x" "uint x < 4096"
proof -
  have "unat x < 4096" using assms by (simp add: word_le_nat_alt)
  from sint_small [OF this] show "sint x = uint x" "uint x < 4096" by auto
qed simp

lemma mouse_move_ok:
  assumes "mouse_ok m"
  shows "mouse_ok (mouse_move m)"
proof -
  have b: "mouse_x m \<le> mouse_max_x m" "mouse_y m \<le> mouse_max_y m" "unat (mouse_max_x m) < 4096" "unat (mouse_max_y m) < 4096"
    using assms by (auto simp: mouse_ok_def)
  note x = coord_range [OF b(1,3)] and y = coord_range [OF b(2,4)]
  have "clamp_coord (sint (mouse_x m) + (uint (pkt m 1) - (if P then 256 else 0))) (mouse_max_x m) \<le> mouse_max_x m" for P
    using delta_range [of "pkt m 1" P] x by (intro clamp_le [OF b(3)]) linarith+
  moreover have "clamp_coord (sint (mouse_y m) - (uint (pkt m 2) - (if P then 256 else 0))) (mouse_max_y m) \<le> mouse_max_y m" for P
    using delta_range [of "pkt m 2" P] y by (intro clamp_le [OF b(4)]) linarith+
  ultimately show ?thesis using assms by (simp add: mouse_move_def Let_def mouse_ok_def)
qed

lemma btn_bound: "unat (ucast ((b::u8) AND 7) :: u32) < 8"
proof -
  have "unat (b AND 7) \<le> unat (7 :: u8)" by (rule word_and_le1 [THEN word_le_nat_alt [THEN iffD1]])
  then show ?thesis by (simp add: unsigned_ucast_eq take_bit_nat_eq_self)
qed

lemma mouse_move_fields [simp]:
  "mouse_btn (mouse_move m) = mouse_btn m" "pkt_i (mouse_move m) = pkt_i m" "mouse_seq (mouse_move m) = mouse_seq m"
  "mouse_live (mouse_move m) = mouse_live m" "mouse_max_x (mouse_move m) = mouse_max_x m" "mouse_max_y (mouse_move m) = mouse_max_y m"
  by (simp_all add: mouse_move_def Let_def)

section \<open>Properties\<close>

text \<open>Whatever bytes the controller delivers, the mouse position stays on the screen, the button
  word below 8 and the packet index in its three-byte buffer.\<close>

theorem mouse_push_ok:
  assumes "mouse_ok (mou d)" and "mouse_push b d = (moved, d')"
  shows "mouse_ok (mou d')"
proof -
  let ?m = "mou d"
  let ?m1 = "?m\<lparr>pkt := (pkt ?m)(pkt_i ?m := b), pkt_i := 0, mouse_btn := ucast (((pkt ?m)(pkt_i ?m := b)) 0 AND 7)\<rparr>"
  have ok1: "mouse_ok ?m1" using assms(1) btn_bound by (simp add: mouse_ok_def del: fun_upd_apply)
  have e: "(?m\<lparr>pkt := (pkt ?m)(pkt_i ?m := b), pkt_i := pkt_i ?m + 1\<rparr>)\<lparr>pkt_i := 0, mouse_btn := ucast (((pkt ?m)(pkt_i ?m := b)) 0 AND 7)\<rparr> = ?m1"
    by simp
  have ok2: "mouse_ok ((mouse_move ?m1)\<lparr>mouse_seq := s\<rparr>)" for s using mouse_move_ok [OF ok1] by (simp add: mouse_ok_def)
  have "mou d' = ?m \<or> (pkt_i ?m + 1 < 3 \<and> mou d' = ?m\<lparr>pkt := (pkt ?m)(pkt_i ?m := b), pkt_i := pkt_i ?m + 1\<rparr>) \<or>
        (\<exists>s. mou d' = (mouse_move ?m1)\<lparr>mouse_seq := s\<rparr>)"
    using assms(2) by (auto simp: mouse_push_def Let_def simp del: fun_upd_apply split: if_splits)
  then show ?thesis using assms(1) ok2 by (auto simp: mouse_ok_def)
qed

text \<open>A complete packet without overflow bits moves the pointer by its signed nine-bit deltas
  (screen y downwards), clamped to the screen, and reports the three button bits.\<close>

theorem mouse_packet_moves:
  assumes "mouse_ok (mou d)" and "mouse_live (mou d)" and "pkt_i (mou d) = 2" and "pkt (mou d) 0 AND 0xC0 = 0"
    and "dx = uint (pkt (mou d) 1) - (if pkt (mou d) 0 AND 0x10 \<noteq> 0 then 256 else 0)"
    and "dy = uint b - (if pkt (mou d) 0 AND 0x20 \<noteq> 0 then 256 else 0)"
    and "mouse_push b d = (moved, d')"
  shows "uint (mouse_x (mou d')) = clampi (uint (mouse_x (mou d)) + dx) (uint (mouse_max_x (mou d))) \<and>
         uint (mouse_y (mou d')) = clampi (uint (mouse_y (mou d)) - dy) (uint (mouse_max_y (mou d))) \<and>
         mouse_btn (mou d') = ucast (pkt (mou d) 0 AND 7) \<and> pkt_i (mou d') = 0"
proof -
  let ?m = "mou d"
  have b: "mouse_x ?m \<le> mouse_max_x ?m" "mouse_y ?m \<le> mouse_max_y ?m" "unat (mouse_max_x ?m) < 4096" "unat (mouse_max_y ?m) < 4096"
    using assms(1) by (auto simp: mouse_ok_def)
  note x = coord_range [OF b(1,3)] and y = coord_range [OF b(2,4)]
  have cx: "uint (clamp_coord (uint (mouse_x ?m) + dx) (mouse_max_x ?m)) = clampi (uint (mouse_x ?m) + dx) (uint (mouse_max_x ?m))"
    using delta_range [of "pkt ?m 1" "pkt ?m 0 AND 0x10 \<noteq> 0"] x assms(5) by (intro clamp_coord_eq [OF b(3)]) linarith+
  have cy: "uint (clamp_coord (uint (mouse_y ?m) - dy) (mouse_max_y ?m)) = clampi (uint (mouse_y ?m) - dy) (uint (mouse_max_y ?m))"
    using delta_range [of b "pkt ?m 0 AND 0x20 \<noteq> 0"] y assms(6) by (intro clamp_coord_eq [OF b(4)]) linarith+
  have z: "clampi (uint (mouse_x ?m)) (uint (mouse_max_x ?m)) = uint (mouse_x ?m)"
    "clampi (uint (mouse_y ?m)) (uint (mouse_max_y ?m)) = uint (mouse_y ?m)"
    using b(1,2) x y by (simp_all add: clampi_def u32_le_uint)
  define m1 where "m1 = mouse_move (?m\<lparr>pkt := (pkt ?m)(2 := b), pkt_i := 0, mouse_btn := ucast (pkt ?m 0 AND 7)\<rparr>)"
  have mv: "uint (mouse_x m1) = clampi (uint (mouse_x ?m) + dx) (uint (mouse_max_x ?m)) \<and>
            uint (mouse_y m1) = clampi (uint (mouse_y ?m) - dy) (uint (mouse_max_y ?m))"
    using assms(4-6) cx cy z by (simp add: m1_def mouse_move_def Let_def x(1) y(1))
  have "\<exists>s. mou d' = m1\<lparr>mouse_seq := s\<rparr>"
    using assms(2,3,7) by (auto simp: mouse_push_def Let_def m1_def split: if_splits)
  then show ?thesis using mv by (auto simp: m1_def)
qed

lemma bit_u32_4096: "unat (x::u32) < 4096 \<Longrightarrow> bit x n \<Longrightarrow> n < 12"
proof (rule ccontr)
  assume a: "unat x < 4096" "bit x n" "\<not> n < 12"
  then have "bit (unat x) n" by (simp add: bit_unsigned_iff)
  then have "2 ^ n \<le> unat x" by (metis bit_iff_odd div_less even_zero linorder_not_le)
  moreover have "(2::nat) ^ 12 \<le> 2 ^ n" using a(3) by (intro power_increasing) auto
  ultimately show False using a(1) by simp
qed

lemma bit_u32_8: "unat (x::u32) < 8 \<Longrightarrow> bit x n \<Longrightarrow> n < 3"
proof (rule ccontr)
  assume a: "unat x < 8" "bit x n" "\<not> n < 3"
  then have "bit (unat x) n" by (simp add: bit_unsigned_iff)
  then have "2 ^ n \<le> unat x" by (metis bit_iff_odd div_less even_zero linorder_not_le)
  moreover have "(2::nat) ^ 3 \<le> 2 ^ n" using a(3) by (intro power_increasing) auto
  ultimately show False using a(1) by simp
qed

text \<open>The packed word of \<^verbatim>\<open>mouse_get\<close> loses nothing: x, y, the buttons and the sequence
  number are read back from their bit fields.\<close>

theorem mouse_get_unpack:
  assumes "mouse_ok m"
  shows "take_bit 12 (mouse_get m) = ucast (mouse_x m) \<and> take_bit 12 (drop_bit 12 (mouse_get m)) = ucast (mouse_y m) \<and>
         take_bit 8 (drop_bit 24 (mouse_get m)) = ucast (mouse_btn m) \<and> drop_bit 32 (mouse_get m) = ucast (mouse_seq m)"
proof -
  have u: "unat (mouse_x m) < 4096" "unat (mouse_y m) < 4096" "unat (mouse_btn m) < 8"
    using assms by (auto simp: mouse_ok_def word_le_nat_alt)
  note bx = bit_u32_4096 [OF u(1)] and by' = bit_u32_4096 [OF u(2)] and bb = bit_u32_8 [OF u(3)]
  have sq: "bit (mouse_seq m) n \<Longrightarrow> n < 32" for n using bit_imp_le_length [of "mouse_seq m" n] by simp
  have e1: "take_bit 12 (mouse_get m) = ucast (mouse_x m)"
    by (rule bit_word_eqI) (auto simp: mouse_get_def bit_simps dest: bx by' bb)
  have e2: "take_bit 12 (drop_bit 12 (mouse_get m)) = ucast (mouse_y m)"
    by (rule bit_word_eqI) (auto simp: mouse_get_def bit_simps dest: bx by' bb)
  have e3: "take_bit 8 (drop_bit 24 (mouse_get m)) = ucast (mouse_btn m)"
    by (rule bit_word_eqI) (auto simp: mouse_get_def bit_simps dest: bx by' bb)
  have e4: "drop_bit 32 (mouse_get m) = ucast (mouse_seq m)"
    by (rule bit_word_eqI) (auto simp: mouse_get_def bit_simps dest: bx by' bb sq)
  from e1 e2 e3 e4 show ?thesis by blast
qed

section \<open>Witnesses\<close>

text \<open>A live mouse in the middle of a packet, at (512, 384) on a 1024 by 768 screen.\<close>

definition mouse_desk :: desk where
  "mouse_desk = boot_desk\<lparr>mou := zero_mouse\<lparr>mouse_live := True, mouse_max_x := 1023, mouse_max_y := 767, pkt_i := 2,
     pkt := (\<lambda>i. if i = 0 then 0x19 else 0xFE)\<rparr>\<rparr>"

lemma mouse_desk_ok: "mouse_ok (mou mouse_desk)"
  by (simp add: mouse_desk_def mouse_ok_def zero_mouse_def)

lemma mouse_push_ok_witness: "mouse_ok (mou (snd (mouse_push 3 mouse_desk)))"
  using mouse_push_ok [of mouse_desk 3 "fst (mouse_push 3 mouse_desk)" "snd (mouse_push 3 mouse_desk)"] mouse_desk_ok by simp

lemma mouse_desk_fields:
  "mouse_live (mou mouse_desk)" "pkt_i (mou mouse_desk) = 2" "pkt (mou mouse_desk) 0 = 0x19" "pkt (mou mouse_desk) 1 = 0xFE"
  "uint (mouse_x (mou mouse_desk)) = 512" "uint (mouse_y (mou mouse_desk)) = 384"
  "uint (mouse_max_x (mou mouse_desk)) = 1023" "uint (mouse_max_y (mou mouse_desk)) = 767"
  by (simp_all add: mouse_desk_def zero_mouse_def)

lemma mouse_packet_moves_witness:
  "uint (mouse_x (mou (snd (mouse_push 3 mouse_desk)))) = 510 \<and> uint (mouse_y (mou (snd (mouse_push 3 mouse_desk)))) = 381"
proof -
  have h: "pkt (mou mouse_desk) 0 AND 0xC0 = 0"
    "-2 = uint (pkt (mou mouse_desk) 1) - (if pkt (mou mouse_desk) 0 AND 0x10 \<noteq> 0 then 256 else 0)"
    "3 = uint (3 :: u8) - (if pkt (mou mouse_desk) 0 AND 0x20 \<noteq> 0 then 256 else 0)"
    unfolding mouse_desk_fields by simp_all
  have "clampi (512 + -2) 1023 = 510" "clampi (384 - 3) 767 = 381" by (simp_all add: clampi_def)
  with mouse_packet_moves [OF mouse_desk_ok mouse_desk_fields(1,2) h prod.collapse [symmetric]] show ?thesis
    unfolding mouse_desk_fields by simp
qed

lemma mouse_get_unpack_witness: "take_bit 12 (mouse_get (mou mouse_desk)) = 512"
  using mouse_get_unpack [OF mouse_desk_ok] by (simp add: mouse_desk_def zero_mouse_def)

end
