(* ===== verification/Syscall.thy ===== *)
theory Syscall
  imports Task Mouse
begin

text \<open>
  The system call dispatcher of \<^verbatim>\<open>src/k64/syscall64.c\<close>.  The number and the arguments are
  registers of the interrupt frame at \<open>r\<close>; the result goes to the saved RAX, and the value returned is the
  frame to resume, which is another task's after a switch.

  User memory is read and written through the live page tables.  Where the code has tested the range with
  \<^verbatim>\<open>vmm_user_ok\<close> the accesses cannot fault; where it has not, an absent page is fatal, a \<open>Trap\<close>.
  The bytes of a failed file read that reached the caller's buffer before the failure are not modelled.
\<close>

definition SYS64_PRINT :: u32 where "SYS64_PRINT = 1"
definition SYS64_TICKS :: u32 where "SYS64_TICKS = 8"
definition SYS64_YIELD :: u32 where "SYS64_YIELD = 9"
definition SYS64_EXIT :: u32 where "SYS64_EXIT = 10"
definition SYS64_SLEEP :: u32 where "SYS64_SLEEP = 19"
definition SYS64_PID :: u32 where "SYS64_PID = 20"
definition SYS64_FORK :: u32 where "SYS64_FORK = 71"
definition SYS64_WAITPID :: u32 where "SYS64_WAITPID = 72"
definition SYS64_EXEC :: u32 where "SYS64_EXEC = 76"
definition SYS64_CLONE :: u32 where "SYS64_CLONE = 104"
definition SYS64_BRK :: u32 where "SYS64_BRK = 120"
definition SYS64_MEMINFO :: u32 where "SYS64_MEMINFO = 131"
definition SYS64_GETBASE :: u32 where "SYS64_GETBASE = 132"
definition SYS64_GETCPU :: u32 where "SYS64_GETCPU = 133"
definition SYS64_PS :: u32 where "SYS64_PS = 134"
definition SYS64_GETCHAR :: u32 where "SYS64_GETCHAR = 135"
definition SYS64_SPAWN :: u32 where "SYS64_SPAWN = 136"
definition SYS64_GETMOUSE :: u32 where "SYS64_GETMOUSE = 137"
definition SYS64_FB_INFO :: u32 where "SYS64_FB_INFO = 138"
definition SYS64_FB_MAP :: u32 where "SYS64_FB_MAP = 139"
definition SYS64_FB_UNMAP :: u32 where "SYS64_FB_UNMAP = 140"
definition SYS64_WIN_CREATE :: u32 where "SYS64_WIN_CREATE = 141"
definition SYS64_WIN_CLOSE :: u32 where "SYS64_WIN_CLOSE = 142"
definition SYS64_WIN_FILL :: u32 where "SYS64_WIN_FILL = 143"
definition SYS64_WIN_TEXT :: u32 where "SYS64_WIN_TEXT = 144"
definition SYS64_WIN_SETPOS :: u32 where "SYS64_WIN_SETPOS = 145"
definition SYS64_WIN_PRESENT :: u32 where "SYS64_WIN_PRESENT = 146"
definition SYS64_WIN_GETEVENT :: u32 where "SYS64_WIN_GETEVENT = 147"
definition SYS64_WIN_FOCUS :: u32 where "SYS64_WIN_FOCUS = 148"
definition SYS64_WIN_LIST :: u32 where "SYS64_WIN_LIST = 149"
definition SYS64_WIN_RAISE :: u32 where "SYS64_WIN_RAISE = 150"
definition SYS64_REBOOT :: u32 where "SYS64_REBOOT = 151"
definition SYS64_WIN_BLIT :: u32 where "SYS64_WIN_BLIT = 152"
definition SYS64_BLOBREAD :: u32 where "SYS64_BLOBREAD = 153"
definition SYS64_OPEN :: u32 where "SYS64_OPEN = 154"
definition SYS64_READ :: u32 where "SYS64_READ = 155"
definition SYS64_WRITE :: u32 where "SYS64_WRITE = 156"
definition SYS64_CLOSE :: u32 where "SYS64_CLOSE = 157"
definition SYS64_LSEEK :: u32 where "SYS64_LSEEK = 158"
definition SYS64_READDIR :: u32 where "SYS64_READDIR = 159"

lemmas sysno = SYS64_PRINT_def SYS64_TICKS_def SYS64_YIELD_def SYS64_EXIT_def SYS64_SLEEP_def SYS64_PID_def SYS64_FORK_def
  SYS64_WAITPID_def SYS64_EXEC_def SYS64_CLONE_def SYS64_BRK_def SYS64_MEMINFO_def SYS64_GETBASE_def SYS64_GETCPU_def
  SYS64_PS_def SYS64_GETCHAR_def SYS64_SPAWN_def SYS64_GETMOUSE_def SYS64_FB_INFO_def SYS64_FB_MAP_def SYS64_FB_UNMAP_def
  SYS64_WIN_CREATE_def SYS64_WIN_CLOSE_def SYS64_WIN_FILL_def SYS64_WIN_TEXT_def SYS64_WIN_SETPOS_def SYS64_WIN_PRESENT_def
  SYS64_WIN_GETEVENT_def SYS64_WIN_FOCUS_def SYS64_WIN_LIST_def SYS64_WIN_RAISE_def SYS64_REBOOT_def SYS64_WIN_BLIT_def
  SYS64_BLOBREAD_def SYS64_OPEN_def SYS64_READ_def SYS64_WRITE_def SYS64_CLOSE_def SYS64_LSEEK_def SYS64_READDIR_def

section \<open>Arguments and results\<close>

text \<open>\<^verbatim>\<open>(int)a\<close> and \<^verbatim>\<open>(u32)a\<close>.\<close>

definition c_int :: "u64 \<Rightarrow> int" where
  "c_int a = sint (ucast a :: u32)"

abbreviation c_u32 :: "u64 \<Rightarrow> u32" where
  "c_u32 a \<equiv> ucast a"

text \<open>\<^verbatim>\<open>ret = (u64)(long)f(...)\<close>: an error number becomes the result.\<close>

definition sys_ret :: "(k64, u64) opn \<Rightarrow> (k64, u64) opn" where
  "sys_ret m k = (case m k of (Err e, k') \<Rightarrow> (Val (of_int e), k') | r \<Rightarrow> r)"

definition self_no :: "nat \<Rightarrow> k64 \<Rightarrow> task_id option" where
  "self_no me k = map_option tno (cur_cpu k me)"

definition on_fs :: "(fdsys, 'a) opn \<Rightarrow> (k64, 'a) opn" where
  "on_fs f k = (case f (fsys k) of (r, s) \<Rightarrow> (r, k\<lparr>fsys := s\<rparr>))"

definition on_desk :: "(desk \<Rightarrow> int \<times> desk) \<Rightarrow> (k64, u64) opn" where
  "on_desk f k = (case f (dsk k) of (n, d) \<Rightarrow> (Val (of_int n), k\<lparr>dsk := d\<rparr>))"

definition on_wins :: "(winsys \<Rightarrow> 'a \<times> winsys) \<Rightarrow> (k64, 'a) opn" where
  "on_wins f k = (case f (wsys (dsk k)) of (n, s) \<Rightarrow> (Val n, k\<lparr>dsk := (dsk k)\<lparr>wsys := s\<rparr>\<rparr>))"

section \<open>User memory\<close>

definition of_live :: "nat \<Rightarrow> (mem64 \<Rightarrow> 'a option) \<Rightarrow> (k64, 'a) opn" where
  "of_live me f k = (case f ((mm k)\<lparr>live_cr3 := cr3_of k me\<rparr>) of None \<Rightarrow> (Trap, k) | Some a \<Rightarrow> (Val a, k))"

primrec load_bytes :: "nat \<Rightarrow> u64 \<Rightarrow> mem64 \<Rightarrow> u8 list option" where
  "load_bytes 0 va m = Some []"
| "load_bytes (Suc n) va m =
     (case load_byte va m of None \<Rightarrow> None | Some b \<Rightarrow> map_option (Cons b) (load_bytes n (va + 1) m))"

text \<open>The copy loops for names: bytes up to a NUL, at most \<open>n\<close>; the flag tells whether the NUL was found.\<close>

primrec load_cstr :: "nat \<Rightarrow> u64 \<Rightarrow> mem64 \<Rightarrow> (bool \<times> u8 list) option" where
  "load_cstr 0 va m = Some (False, [])"
| "load_cstr (Suc n) va m =
     (case load_byte va m of
        None \<Rightarrow> None
      | Some b \<Rightarrow> if b = 0 then Some (True, []) else map_option (\<lambda>(t, bs). (t, b # bs)) (load_cstr n (va + 1) m))"

definition word_of :: "u8 list \<Rightarrow> u64" where
  "word_of bs = foldr (\<lambda>b w. ucast b OR push_bit 8 w) bs 0"

definition chars_of :: "u8 list \<Rightarrow> string" where
  "chars_of bs = map (\<lambda>b. char_of (unat b)) bs"

text \<open>An array of records in user memory; of each, only the bytes given are written.\<close>

primrec store_recs :: "nat \<Rightarrow> u64 \<Rightarrow> u64 \<Rightarrow> u8 list list \<Rightarrow> (k64, unit) opn" where
  "store_recs me va stride [] = ret ()"
| "store_recs me va stride (x # xs) = seq (store_user me va x) (\<lambda>_. store_recs me (va + stride) stride xs)"

definition c_int_bytes :: "int \<Rightarrow> u8 list" where
  "c_int_bytes n = bytes_of 4 (of_int n)"

definition c_u32_bytes :: "u32 \<Rightarrow> u8 list" where
  "c_u32_bytes n = bytes_of 4 (ucast n)"

text \<open>A name field, written up to and including its NUL.\<close>

definition name_bytes :: "string \<Rightarrow> u8 list" where
  "name_bytes s = lit s @ [0]"

section \<open>The calls\<close>

definition sys_print :: "layout \<Rightarrow> nat \<Rightarrow> u64 \<Rightarrow> u64 \<Rightarrow> (k64, u64) opn" where
  "sys_print L me ptr len =
     (if len = 0 then ret 0
      else if len > 2048 then ret (-14)
      else seq (gets (live_ok me ptr len)) (\<lambda>ok.
           if \<not> ok then ret (-14)
           else seq (of_live me (load_bytes (unat len) ptr)) (\<lambda>bs.
                seq (modify (say (s_write (font L) (if ptr = 0 then None else Some bs)))) (\<lambda>_. ret len))))"

definition sys_meminfo :: "nat \<Rightarrow> u64 \<Rightarrow> (k64, u64) opn" where
  "sys_meminfo me a =
     seq (gets (live_ok me a 16)) (\<lambda>ok.
     if \<not> ok then ret (-14)
     else seq (gets (\<lambda>k. pmm_total_frames (mm k))) (\<lambda>t.
          seq (store_user me a (bytes_of 8 t)) (\<lambda>_.
          seq (gets (\<lambda>k. pmm_free_frames (mm k))) (\<lambda>n.
          seq (store_user me (a + 8) (bytes_of 8 n)) (\<lambda>_. ret 0)))))"

definition state_no :: "tstate \<Rightarrow> int" where
  "state_no s = (case s of T_FREE \<Rightarrow> 0 | T_READY \<Rightarrow> 1 | T_RUNNING \<Rightarrow> 2 | T_ZOMBIE \<Rightarrow> 3 | T_BLOCKED \<Rightarrow> 4 | T_NEW \<Rightarrow> 5)"

definition ps_bytes :: "ps_entry \<Rightarrow> u8 list" where
  "ps_bytes p = c_int_bytes (ps_id p) @ c_int_bytes (state_no (ps_state p)) @ c_int_bytes (ps_parent p) @ c_int_bytes (ps_cpu p) @
     name_bytes (ps_name p)"

definition sys_ps :: "nat \<Rightarrow> u64 \<Rightarrow> u64 \<Rightarrow> (k64, u64) opn" where
  "sys_ps me a mx =
     (if mx = 0 \<or> mx > 64 then ret (-22)
      else seq (gets (live_ok me a (mx * 32))) (\<lambda>ok.
           if \<not> ok then ret (-14)
           else sys_ret (seq (task64_ps (a \<noteq> 0) (c_int mx)) (\<lambda>ps.
                         seq (store_recs me a 32 (map ps_bytes ps)) (\<lambda>_. ret (of_nat (length ps)))))))"

definition fbinfo_bytes :: "fbinfo \<Rightarrow> u8 list" where
  "fbinfo_bytes i = concat (map (bytes_of 8) [fi_addr i, fi_pitch i, fi_w i, fi_h i, fi_bpp i, fi_size i, fi_map_va i])"

definition sys_fb_info :: "nat \<Rightarrow> u64 \<Rightarrow> (k64, u64) opn" where
  "sys_fb_info me a =
     seq (gets (live_ok me a 56)) (\<lambda>ok.
     if \<not> ok then ret (-14)
     else sys_ret (seq (on_screen me fb_info) (\<lambda>i. seq (store_user me a (fbinfo_bytes i)) (\<lambda>_. ret 0))))"

definition sys_getchar :: "(k64, u64) opn" where
  "sys_getchar k = (case kbd_try_get (kbd k) of None \<Rightarrow> (Val (-1), k) | Some (c, b) \<Rightarrow> (Val (ucast c), k\<lparr>kbd := b\<rparr>))"

definition sys_win_create :: "nat \<Rightarrow> u64 \<Rightarrow> u64 \<Rightarrow> u64 \<Rightarrow> (k64, u64) opn" where
  "sys_win_create me a b c =
     seq (gets (live_ok me c 16)) (\<lambda>ok.
     if \<not> ok then ret (-14)
     else seq (of_live me (load_bytes 16 c)) (\<lambda>kt.
          seq (gets (self_no me)) (\<lambda>self. on_desk (win_create self (c_u32 a) (c_u32 b) (chars_of kt)))))"

definition sys_win_text :: "layout \<Rightarrow> nat \<Rightarrow> u64 \<Rightarrow> u64 \<Rightarrow> u64 \<Rightarrow> u64 \<Rightarrow> u64 \<Rightarrow> u64 \<Rightarrow> u64 \<Rightarrow> (k64, u64) opn" where
  "sys_win_text L me a b c d e f g =
     (if e = 0 then ret 0
      else seq (gets (live_ok me d e)) (\<lambda>ok.
           if e > 256 \<or> \<not> ok then ret (-14)
           else seq (of_live me (load_bytes (unat e) d)) (\<lambda>us.
                seq (gets (self_no me)) (\<lambda>self.
                on_desk (win_text (font L) self (c_int a) (c_u32 b) (c_u32 c) us (c_u32 f) (c_u32 g))))))"

definition wev_no :: "wev_type \<Rightarrow> u32" where
  "wev_no t = (case t of WEV_KEY \<Rightarrow> 1 | WEV_MOVE \<Rightarrow> 2 | WEV_BTN \<Rightarrow> 3 | WEV_ENTER \<Rightarrow> 4 | WEV_LEAVE \<Rightarrow> 5 | WEV_FOCUS \<Rightarrow> 6)"

definition winev_bytes :: "winev \<Rightarrow> u8 list" where
  "winev_bytes e = concat (map c_u32_bytes [wev_no (ev_type e), d0 e, d1 e, d2 e])"

definition sys_win_getevent :: "nat \<Rightarrow> u64 \<Rightarrow> u64 \<Rightarrow> u64 \<Rightarrow> (k64, u64) opn" where
  "sys_win_getevent me a b c =
     seq (gets (live_ok me b (c * 16))) (\<lambda>ok.
     if c < 1 \<or> c > 16 \<or> \<not> ok then ret (-14)
     else seq (gets (self_no me)) (\<lambda>self.
          seq (on_wins (win_getevent self (c_int a) (c_int c))) (\<lambda>x.
          case x of
            Inl e \<Rightarrow> ret (of_int e)
          | Inr es \<Rightarrow> seq (store_recs me b 16 (map winev_bytes es)) (\<lambda>_. ret (of_nat (length es))))))"

text \<open>The id of the task a window slot names as its owner.\<close>

definition task_no :: "task_id \<Rightarrow> tref" where
  "task_no n = (if n < 100 then Slot n else Idle (n - 100))"

definition wininfo_bytes :: "k64 \<Rightarrow> nat \<times> win \<Rightarrow> u8 list" where
  "wininfo_bytes k = (\<lambda>(i, w). concat (map c_u32_bytes [of_nat i, wx w, wy w, ww w, wh w]) @
     c_int_bytes (case owner w of None \<Rightarrow> -1 | Some t \<Rightarrow> tid (task_of (task_no t) k)) @ name_bytes (title w))"

definition sys_win_list :: "nat \<Rightarrow> u64 \<Rightarrow> u64 \<Rightarrow> (k64, u64) opn" where
  "sys_win_list me a b =
     seq (gets (live_ok me a (b * 40))) (\<lambda>ok.
     if b < 1 \<or> b > 16 \<or> \<not> ok then ret (-14)
     else seq (gets (\<lambda>k. (win_list (c_int b) (wsys (dsk k)), wininfo_bytes k))) (\<lambda>(x, enc).
          case x of
            Inl e \<Rightarrow> ret (of_int e)
          | Inr ws \<Rightarrow> seq (store_recs me a 40 (map enc ws)) (\<lambda>_. ret (of_nat (length ws)))))"

text \<open>The words a blit reads: those of the rectangle clipped to the slot, at 64-bit indices.\<close>

definition blit_reads :: "task_id option \<Rightarrow> int \<Rightarrow> u32 \<Rightarrow> u32 \<Rightarrow> u32 \<Rightarrow> u32 \<Rightarrow> winsys \<Rightarrow> nat list" where
  "blit_reads self wid x y w h s =
     (case (if self = None then None else win_get wid self True s) of
        None \<Rightarrow> []
      | Some i \<Rightarrow>
          let q = wins s i;
              x1 = (if x + w > ww q then ww q else x + w);
              y1 = (if y + h > wh q then wh q else y + h)
          in concat (map (\<lambda>yy. map (\<lambda>xx. (yy - unat y) * unat w + (xx - unat x)) [unat x..<unat x1]) [unat y..<unat y1]))"

definition load_pixels :: "u64 \<Rightarrow> nat list \<Rightarrow> mem64 \<Rightarrow> (nat \<Rightarrow> u32) option" where
  "load_pixels f is m =
     fold (\<lambda>i acc. case acc of None \<Rightarrow> None
                   | Some px \<Rightarrow> map_option (\<lambda>bs. px(i := ucast (word_of bs))) (load_bytes 4 (f + of_nat i * 4) m)) is (Some (\<lambda>_. 0))"

definition sys_win_blit :: "nat \<Rightarrow> u64 \<Rightarrow> u64 \<Rightarrow> u64 \<Rightarrow> u64 \<Rightarrow> u64 \<Rightarrow> u64 \<Rightarrow> (k64, u64) opn" where
  "sys_win_blit me a b c d e f =
     (let len = ucast (c_u32 d) * ucast (c_u32 e) * 4
      in if len = 0 then ret 0
         else seq (gets (live_ok me f len)) (\<lambda>ok.
              if len > 262144 \<or> \<not> ok then ret (-14)
              else seq (gets (self_no me)) (\<lambda>self.
                   seq (gets (\<lambda>k. blit_reads self (c_int a) (c_u32 b) (c_u32 c) (c_u32 d) (c_u32 e) (wsys (dsk k)))) (\<lambda>is.
                   seq (if f = 0 then ret (\<lambda>_. 0) else of_live me (load_pixels f is)) (\<lambda>px.
                   on_desk (win_blit self (c_int a) (c_u32 b) (c_u32 c) (c_u32 d) (c_u32 e) (if f = 0 then None else Some px)))))))"

definition sys_blobread :: "nat \<Rightarrow> u64 \<Rightarrow> u64 \<Rightarrow> u64 \<Rightarrow> (k64, u64) opn" where
  "sys_blobread me a b c =
     seq (of_live me (load_cstr 16 a)) (\<lambda>(_, kname).
     seq (gets (live_ok me b c)) (\<lambda>ok.
     if c \<noteq> 0 \<and> \<not> ok then ret (-14)
     else seq (gets (\<lambda>k. blob_read (chars_of kname) c (blobs k))) (\<lambda>(n, bs).
          seq (store_user me b bs) (\<lambda>_. ret (of_int n)))))"

definition fsdirent_bytes :: "u32 \<Rightarrow> bool \<Rightarrow> u8 list \<Rightarrow> u8 list" where
  "fsdirent_bytes ino is_dir name = c_u32_bytes ino @ c_u32_bytes (if is_dir then 2 else 1) @ cbytes name @ [0]"

text \<open>The listing loop with \<open>n\<close> entries written and room for \<open>left\<close> more; one entry is read past the last
  that fits.\<close>

primrec readdir_fill :: "nat \<Rightarrow> u32 \<Rightarrow> u64 \<Rightarrow> nat \<Rightarrow> nat \<Rightarrow> (k64, u64) opn" where
  "readdir_fill me ino o' n 0 = seq (on_fs (on_vol (ex_readdir_ino ino (of_nat n)))) (\<lambda>_. ret (of_nat n))"
| "readdir_fill me ino o' n (Suc left) =
     seq (on_fs (on_vol (ex_readdir_ino ino (of_nat n)))) (\<lambda>x.
     case x of
       None \<Rightarrow> ret (of_nat n)
     | Some (ei, ed, en) \<Rightarrow>
         seq (store_user me (o' + of_nat n * 72) (fsdirent_bytes ei ed en)) (\<lambda>_. readdir_fill me ino o' (Suc n) left))"

text \<open>A lookup that succeeds without a result leaves the caller's variables uninitialised, a \<open>Trap\<close> here.\<close>

definition sys_readdir :: "nat \<Rightarrow> u64 \<Rightarrow> u64 \<Rightarrow> u64 \<Rightarrow> (k64, u64) opn" where
  "sys_readdir me a b c =
     seq (of_live me (load_cstr 255 a)) (\<lambda>(nul, kpath).
     if \<not> nul then ret (-22)
     else seq (gets (live_ok me b (c * 72))) (\<lambda>ok.
          if b = 0 \<or> c = 0 \<or> c > 64 \<or> \<not> ok then ret (-14)
          else sys_ret (seq (err_to (-2) (on_fs (on_vol (ex_lookup kpath)))) (\<lambda>x.
                        case x of
                          None \<Rightarrow> trap
                        | Some (ino, is_dir, _) \<Rightarrow> if \<not> is_dir then ret (-20) else readdir_fill me ino b 0 (unat c)))))"

definition sys_open :: "nat \<Rightarrow> u64 \<Rightarrow> u64 \<Rightarrow> (k64, u64) opn" where
  "sys_open me a b =
     seq (of_live me (load_cstr 255 a)) (\<lambda>(nul, kpath).
     if \<not> nul then ret (-22)
     else seq (gets (self_no me)) (\<lambda>self.
          sys_ret (seq (on_fs (fd_open self kpath (c_u32 b))) (\<lambda>fd. ret (of_nat fd)))))"

definition sys_read :: "nat \<Rightarrow> u64 \<Rightarrow> u64 \<Rightarrow> u64 \<Rightarrow> (k64, u64) opn" where
  "sys_read me a b c =
     seq (gets (live_ok me b c)) (\<lambda>ok.
     if c = 0 \<or> c > 0x100000 \<or> \<not> ok then ret (-14)
     else seq (gets (self_no me)) (\<lambda>self.
          sys_ret (seq (on_fs (fd_read self (c_int a) c)) (\<lambda>bs.
                   seq (store_user me b bs) (\<lambda>_. ret (of_nat (length bs)))))))"

definition sys_write :: "nat \<Rightarrow> u64 \<Rightarrow> u64 \<Rightarrow> u64 \<Rightarrow> (k64, u64) opn" where
  "sys_write me a b c =
     seq (gets (live_ok me b c)) (\<lambda>ok.
     if c = 0 \<or> c > 0x100000 \<or> \<not> ok then ret (-14)
     else seq (gets (self_no me)) (\<lambda>self.
          seq (of_live me (load_bytes (unat c) b)) (\<lambda>bs.
          sys_ret (seq (on_fs (fd_write self (c_int a) bs c)) (\<lambda>n. ret (of_nat n))))))"

text \<open>The argument strings of a spawn: \<open>None\<close> for an address that is not the caller's or a string without
  a NUL in 128 bytes.\<close>

primrec spawn_args :: "nat \<Rightarrow> u64 \<Rightarrow> nat \<Rightarrow> (k64, u8 list list option) opn" where
  "spawn_args me c 0 = ret (Some [])"
| "spawn_args me c (Suc n) =
     seq (of_live me (load_bytes 8 c)) (\<lambda>p.
     seq (gets (live_ok me (word_of p) 129)) (\<lambda>ok.
     if \<not> ok then ret None
     else seq (of_live me (load_cstr 128 (word_of p))) (\<lambda>(nul, s).
          if \<not> nul then ret None
          else seq (spawn_args me (c + 8) n) (\<lambda>r. ret (map_option (Cons s) r)))))"

definition sys_spawn :: "layout \<Rightarrow> nat \<Rightarrow> u64 \<Rightarrow> u64 \<Rightarrow> u64 \<Rightarrow> (k64, u64) opn" where
  "sys_spawn L me a b c =
     (let argc = c_int b
      in if argc < 0 \<or> argc > 16 then ret (-22)
         else seq (gets (live_ok me a 17)) (\<lambda>ok.
              if \<not> ok then ret (-14)
              else seq (of_live me (load_cstr 16 a)) (\<lambda>(nul, kname).
                   if \<not> nul then ret (-22)
                   else seq (gets (live_ok me c (of_int argc * 8))) (\<lambda>ok.
                        if argc > 0 \<and> \<not> ok then ret (-14)
                        else seq (spawn_args me c (nat argc)) (\<lambda>kargs.
                             case kargs of
                               None \<Rightarrow> ret (-14)
                             | Some args \<Rightarrow>
                                 sys_ret (seq (task64_spawn_args L me (chars_of kname) args) (\<lambda>i. ret (of_nat i))))))))"

section \<open>The dispatcher\<close>

text \<open>The calls whose result is a value for RAX; an unknown number gives \<^verbatim>\<open>-ENOSYS\<close>.\<close>

definition syscall_value ::
  "layout \<Rightarrow> nat \<Rightarrow> u64 \<Rightarrow> u32 \<Rightarrow> u64 \<Rightarrow> u64 \<Rightarrow> u64 \<Rightarrow> u64 \<Rightarrow> u64 \<Rightarrow> u64 \<Rightarrow> u64 \<Rightarrow> (k64, u64) opn" where
  "syscall_value L me r n a b c d e f g =
     (if n = SYS64_PRINT then sys_print L me a b
      else if n = SYS64_TICKS then gets ticks
      else if n = SYS64_GETBASE then gets (\<lambda>k. case cur_cpu k me of None \<Rightarrow> 0 | Some t \<Rightarrow> user_base (task_of t k))
      else if n = SYS64_PID then gets (\<lambda>k. case cur_cpu k me of None \<Rightarrow> -1 | Some t \<Rightarrow> of_int (tid (task_of t k)))
      else if n = SYS64_FORK then sys_ret (seq (task64_fork L me r) (\<lambda>i. ret (of_nat i)))
      else if n = SYS64_MEMINFO then sys_meminfo me a
      else if n = SYS64_GETCPU then ret (of_nat me)
      else if n = SYS64_PS then sys_ps me a b
      else if n = SYS64_GETCHAR then sys_getchar
      else if n = SYS64_GETMOUSE then gets (\<lambda>k. mouse_get (mou (dsk k)))
      else if n = SYS64_FB_INFO then sys_fb_info me a
      else if n = SYS64_FB_MAP then seq (gets (self_no me)) (\<lambda>self. sys_ret (on_screen me (fb_map_current self)))
      else if n = SYS64_FB_UNMAP then
        seq (gets (self_no me)) (\<lambda>self. sys_ret (seq (on_screen me (fb_unmap_current (font L) self)) (\<lambda>_. ret 0)))
      else if n = SYS64_WIN_CREATE then sys_win_create me a b c
      else if n = SYS64_WIN_CLOSE then seq (gets (self_no me)) (\<lambda>self. on_desk (win_close self (c_int a)))
      else if n = SYS64_WIN_FILL then
        seq (gets (self_no me)) (\<lambda>self. on_desk (win_fill self (c_int a) (c_u32 b) (c_u32 c) (c_u32 d) (c_u32 e) (c_u32 f)))
      else if n = SYS64_WIN_TEXT then sys_win_text L me a b c d e f g
      else if n = SYS64_WIN_SETPOS then seq (gets (self_no me)) (\<lambda>self. on_desk (win_setpos self (c_int a) (c_u32 b) (c_u32 c)))
      else if n = SYS64_WIN_PRESENT then on_desk (\<lambda>d. (0, cons_present (font L) d))
      else if n = SYS64_WIN_GETEVENT then sys_win_getevent me a b c
      else if n = SYS64_WIN_FOCUS then seq (on_wins (win_focus_set (c_int a))) (\<lambda>n. ret (of_int n))
      else if n = SYS64_WIN_LIST then sys_win_list me a b
      else if n = SYS64_WIN_RAISE then on_desk (win_raise (c_int a))
      else if n = SYS64_REBOOT then trap
      else if n = SYS64_WIN_BLIT then sys_win_blit me a b c d e f
      else if n = SYS64_BLOBREAD then sys_blobread me a b c
      else if n = SYS64_READDIR then sys_readdir me a b c
      else if n = SYS64_OPEN then sys_open me a b
      else if n = SYS64_READ then sys_read me a b c
      else if n = SYS64_WRITE then sys_write me a b c
      else if n = SYS64_CLOSE then
        seq (gets (self_no me)) (\<lambda>self. sys_ret (seq (on_fs (fd_close self (c_int a))) (\<lambda>_. ret 0)))
      else if n = SYS64_LSEEK then seq (gets (self_no me)) (\<lambda>self. sys_ret (on_fs (fd_lseek self (c_int a) b (c_int c))))
      else if n = SYS64_SPAWN then sys_spawn L me a b c
      else if n = SYS64_CLONE then sys_ret (seq (task64_clone L me a) (\<lambda>i. ret (of_nat i)))
      else ret (-38))"

abbreviation "R_R9 \<equiv> (6 :: nat)"
abbreviation "R_R8 \<equiv> (7 :: nat)"
abbreviation "R_RDI \<equiv> (9 :: nat)"
abbreviation "R_RSI \<equiv> (10 :: nat)"
abbreviation "R_RDX \<equiv> (11 :: nat)"
abbreviation "R_RCX \<equiv> (12 :: nat)"
abbreviation "R_RBX \<equiv> (13 :: nat)"

definition syscall64_dispatch :: "layout \<Rightarrow> nat \<Rightarrow> bool \<Rightarrow> u64 \<Rightarrow> (k64, u64) opn" where
  "syscall64_dispatch L me shoot r =
     seq (gets (\<lambda>k n. kmem k (reg_at r n))) (\<lambda>reg.
     let n = c_u32 (reg R_RAX); a = reg R_RBX; b = reg R_RCX; c = reg R_RDX
     in if n = SYS64_YIELD then seq (set_reg r R_RAX 0) (\<lambda>_. task64_schedule me shoot r)
        else if n = SYS64_EXIT then seq (task64_exit L me (c_int a)) (\<lambda>_. task64_schedule me shoot r)
        else if n = SYS64_SLEEP then task64_sleep me shoot a r
        else if n = SYS64_BRK then task64_brk me a r
        else if n = SYS64_EXEC then task64_exec L me a r
        else if n = SYS64_WAITPID then task64_waitpid L me shoot (c_int a) b (c_int c \<noteq> 0) r
        else seq (syscall_value L me r n a b c (reg R_RSI) (reg R_RDI) (reg R_R8) (reg R_R9)) (rax_ret r))"

end
