(* ===== verification/Isr.thy ===== *)
theory Isr
  imports Syscall
begin

text \<open>
  The interrupt dispatcher of \<^verbatim>\<open>src/k64/isr64.c\<close>: timer, system calls, keyboard, mouse,
  inter-processor interrupts and the page fault ladder.  What the handler reads from the hardware is
  the record \<open>irq_in\<close>.  End-of-interrupt writes to the controllers and the trace of CR3 loads that ends a
  fatal dump are not part of the state; a halted CPU is a \<open>Trap\<close>.
\<close>

text \<open>The keyboard controller's status and data ports, the faulting address and the CPU's LAPIC id.\<close>

record irq_in =
  port64 :: u8
  port60 :: u8
  cr2 :: u64
  lapic_id :: u32

abbreviation "R_VEC \<equiv> (15 :: nat)"
abbreviation "R_ERR \<equiv> (16 :: nat)"
abbreviation "R_CS \<equiv> (18 :: nat)"
abbreviation "R_RSP \<equiv> (20 :: nat)"

section \<open>Devices\<close>

text \<open>A keyboard byte is taken only when the output buffer is full and not the mouse's; a translated key
  goes to the focused window, or to the ring when there is none.\<close>

definition irq_keyboard :: "irq_in \<Rightarrow> k64 \<Rightarrow> k64" where
  "irq_keyboard h k =
     (if port64 h AND 0x21 = 0x01 then
        let (c, b) = kbd_translate (port60 h) (kbd k); k = k\<lparr>kbd := b\<rparr>
        in if c \<ge> 0 then
             let (taken, s) = win_route_key (of_int c) (wsys (dsk k)); k = k\<lparr>dsk := (dsk k)\<lparr>wsys := s\<rparr>\<rparr>
             in if taken then k else k\<lparr>kbd := kbd_push_raw (of_int c) (kbd k)\<rparr>
           else k
      else k)"

definition irq_mouse :: "layout \<Rightarrow> irq_in \<Rightarrow> k64 \<Rightarrow> k64" where
  "irq_mouse L h k =
     (if port64 h AND 0x21 = 0x21 then
        let (moved, d) = mouse_push (port60 h) (dsk k) in k\<lparr>dsk := (if moved then cons_present (font L) d else d)\<rparr>
      else k)"

section \<open>Fatal dumps\<close>

definition raw_log :: "(u8 list \<Rightarrow> u8 list) list \<Rightarrow> k64 \<Rightarrow> k64" where
  "raw_log ws k = k\<lparr>tx := fold (\<lambda>w. w) ws (tx k)\<rparr>"

definition park :: "layout \<Rightarrow> nat \<Rightarrow> k64 \<Rightarrow> k64" where
  "park L me k = (if cr3_of k me AND NOT 0xFFF \<noteq> pml4_boot L then k\<lparr>cr3_of := (cr3_of k)(me := pml4_boot L)\<rparr> else k)"

definition fatal_pf :: "layout \<Rightarrow> nat \<Rightarrow> u64 \<Rightarrow> (nat \<Rightarrow> u64) \<Rightarrow> (k64, u64) opn" where
  "fatal_pf L me va reg =
     seq (gets (\<lambda>k. cr3_of k me AND NOT 0xFFF)) (\<lambda>fault_cr3.
     seq (modify (park L me)) (\<lambda>_.
     let cpu = of_nat (smp_cpu_by_stack (ap_stacks L) (reg R_RSP))
     in seq (modify (raw_log [s_raws (lit ''[K64] FATAL PF err=''), s_rawx (reg R_ERR), s_raws (lit '' addr=''), s_rawx va,
               s_raws (lit '' rip=''), s_rawx (reg R_RIP), s_raws (lit '' cr3=''), s_rawx fault_cr3, s_raws (lit '' rsp=''),
               s_rawx (reg R_RSP), s_raws (lit '' cpu~''), s_rawu cpu, s_raws [10]])) (\<lambda>_.
        seq (gets (\<lambda>k. cr3_of k me AND NOT 0xFFF)) (\<lambda>now.
        seq (on_serial (s_printf (font L) (lit ''[K64] PFCTX cpu~%u cr3=%x rsp=%x\<newline>'') [PU64 cpu, PU64 now, PU64 (reg R_RSP)])) (\<lambda>_.
        trap)))))"

definition fatal_exc :: "layout \<Rightarrow> nat \<Rightarrow> (nat \<Rightarrow> u64) \<Rightarrow> (k64, u64) opn" where
  "fatal_exc L me reg =
     seq (modify (park L me)) (\<lambda>_.
     seq (gets (\<lambda>k. cr3_of k me AND NOT 0xFFF)) (\<lambda>now.
     seq (modify (raw_log [s_raws (lit ''[K64] FATAL EXC vec=''), s_rawu (reg R_VEC), s_raws (lit '' err=''), s_rawx (reg R_ERR),
            s_raws (lit '' rip=''), s_rawx (reg R_RIP), s_raws (lit '' cs=''), s_rawx (reg R_CS), s_raws (lit '' cr3=''), s_rawx now,
            s_raws (lit '' rsp=''), s_rawx (reg R_RSP), s_raws (lit '' cpu~''),
            s_rawu (of_nat (smp_cpu_by_stack (ap_stacks L) (reg R_RSP))), s_raws [10]])) (\<lambda>_.
     trap)))"

section \<open>Page faults\<close>

text \<open>Copy-on-write, then the heap, then a kill of the faulting task, and last the dump.\<close>

definition page_fault :: "layout \<Rightarrow> nat \<Rightarrow> bool \<Rightarrow> u64 \<Rightarrow> (nat \<Rightarrow> u64) \<Rightarrow> u64 \<Rightarrow> (k64, u64) opn" where
  "page_fault L me shoot va reg r =
     (let err = reg R_ERR
      in seq (if err AND 7 = 7 then on_mem me (vmm_cow_resolve va) else ret (-1)) (\<lambda>cw.
         if cw \<ge> 0 then ret r
         else
           seq (if err AND 1 = 0 \<and> err AND 4 \<noteq> 0 then task64_demand me va else ret (-1)) (\<lambda>dm.
           if dm \<ge> 0 then ret r
           else
             seq (gets (\<lambda>k. if reg R_CS = 0x1B then vmm_probe va ((mm k)\<lparr>live_cr3 := cr3_of k me\<rparr>) else None)) (\<lambda>fl.
             case fl of
               None \<Rightarrow> fatal_pf L me va reg
             | Some fl \<Rightarrow>
                 if err AND 16 \<noteq> 0 \<and> fl AND 8 \<noteq> 0 then task64_kill_fault L me shoot r ''NX-KILL''
                 else if err AND 2 \<noteq> 0 \<and> fl AND 1 \<noteq> 0 \<and> fl AND 2 = 0 then task64_kill_fault L me shoot r ''RO-KILL''
                 else fatal_pf L me va reg))))"

section \<open>Dispatch\<close>

definition on_smp :: "(smp64 \<Rightarrow> smp64) \<Rightarrow> k64 \<Rightarrow> k64" where
  "on_smp f k = k\<lparr>smp := f (smp k)\<rparr>"

definition isr64_handler :: "layout \<Rightarrow> nat \<Rightarrow> irq_in \<Rightarrow> u64 \<Rightarrow> (k64, u64) opn" where
  "isr64_handler L me h r =
     seq (gets (\<lambda>k n. kmem k (reg_at r n))) (\<lambda>reg.
     seq (gets (\<lambda>k. smp_in_shootdown (lapic_id h) (smp k))) (\<lambda>shoot.
     let v = reg R_VEC
     in if v = 32 then task64_on_tick L me shoot r
        else if v = VEC_AP_TIMER then task64_ap_tick me shoot r
        else if v = 128 then syscall64_dispatch L me shoot r
        else if v = 33 then seq (modify (irq_keyboard h)) (\<lambda>_. ret r)
        else if v = 44 then seq (modify (irq_mouse L h)) (\<lambda>_. ret r)
        else if v = 39 \<or> v = 47 then ret r
        else if v = VEC_IPI_TEST then seq (modify (on_smp (smp_ack_test (lapic_id h)))) (\<lambda>_. ret r)
        else if v = VEC_IPI_TLB then seq (modify (on_smp (\<lambda>s. snd (smp_ack_tlb (lapic_id h) s)))) (\<lambda>_. ret r)
        else if v = VEC_SPURIOUS then seq (modify (on_smp (smp_ack_spurious (lapic_id h)))) (\<lambda>_. ret r)
        else if v = 3 then
          seq (modify (say (\<lambda>s. s_puts (font L) [10] (s_hex64 (font L) (reg R_RIP) (s_puts (font L) (lit ''[K64] EXC3 bp rip='') s))))) (\<lambda>_. ret r)
        else if v = 2 then trap
        else if v = 14 then page_fault L me shoot (cr2 h) reg r
        else if v < 32 then fatal_exc L me reg
        else seq (modify (say (\<lambda>s. s_puts (font L) [10] (s_dec64 (font L) v (s_puts (font L) (lit ''[K64] unexpected vec='') s))))) (\<lambda>_. ret r)))"

end
