(* ===== verification/Kernel_Step.thy ===== *)
theory Kernel_Step
  imports Frames Fork Fd_Proofs Isr
begin

text \<open>
  The kernel as a state machine.  \<open>kstep\<close> is the relation of its elementary state changes, each with the
  condition under which the code makes it; \<open>kernel_inv\<close> is the invariant of the whole state, and every
  elementary change keeps it.  Operations are related to the machine by three judgements: \<open>prim\<close> for those
  that neither move tasks nor touch descriptor tables, \<open>runs\<close> for those made on behalf of the running task
  of a CPU, and \<open>steps\<close> for those that may give up the CPU.
\<close>

section \<open>The invariant\<close>

definition desk_inv :: "desk \<Rightarrow> bool" where
  "desk_inv d \<longleftrightarrow> win_inv (wsys d) \<and> cons_inv (con d) \<and> mouse_ok (mou d)"

text \<open>A slot nobody can run: its descriptor table is empty.\<close>

definition dead :: "tstate \<Rightarrow> bool" where
  "dead s \<longleftrightarrow> s = T_FREE \<or> s = T_ZOMBIE"

definition empty_tab :: "nat \<Rightarrow> fdsys \<Rightarrow> bool" where
  "empty_tab i f \<longleftrightarrow> (\<forall>n < FD_MAX_TASK. fd_tab f i n = -1)"

definition files_inv :: "k64 \<Rightarrow> bool" where
  "files_inv k \<longleftrightarrow> fd_inv (fsys k) \<and> (\<forall>i < NTASK. dead (tstate (tasks k i)) \<longrightarrow> empty_tab i (fsys k))"

definition kernel_inv :: "k64 \<Rightarrow> bool" where
  "kernel_inv k \<longleftrightarrow> sched_inv k \<and> files_inv k \<and> desk_inv (dsk k) \<and> mem_inv (mm k)"

section \<open>Elementary changes\<close>

text \<open>A change of a task that neither starts, renames nor kills it.\<close>

definition mild :: "task64 \<Rightarrow> task64 \<Rightarrow> bool" where
  "mild u u' \<longleftrightarrow> tid u' = tid u \<and> (tstate u' = T_RUNNING \<longrightarrow> tstate u = T_RUNNING \<and> last_cpu u' = last_cpu u) \<and>
     (dead (tstate u') \<longrightarrow> dead (tstate u))"

definition fd_ok :: "nat \<Rightarrow> fdsys \<Rightarrow> fdsys \<Rightarrow> bool" where
  "fd_ok j f f' \<longleftrightarrow> (fd_inv f \<longrightarrow> fd_inv f') \<and> (\<forall>t. t \<noteq> j \<longrightarrow> fd_tab f' t = fd_tab f t)"

inductive kstep :: "k64 \<Rightarrow> k64 \<Rightarrow> bool" where
  memory: "calm (mm k) m \<Longrightarrow> kstep k (k\<lparr>mm := m\<rparr>)"
| regs: "kstep k (k\<lparr>kmem := a, cr3_of := b, fpu_of := c, rsp0_of := d, rnd := e, kbd := f, smp := g, fbs := h, ticks := t\<rparr>)"
| desktop: "desk_inv (dsk k) \<longrightarrow> desk_inv d \<Longrightarrow> kstep k (k\<lparr>dsk := d, tx := t\<rparr>)"
| files: "j < NTASK \<Longrightarrow> tstate (tasks k j) = T_RUNNING \<Longrightarrow> fd_ok j (fsys k) f \<Longrightarrow> kstep k (k\<lparr>fsys := f\<rparr>)"
| reserve: "i < NTASK \<Longrightarrow> tstate (tasks k i) = T_FREE \<Longrightarrow> tid u = int i \<Longrightarrow> tstate u = T_NEW \<Longrightarrow>
    kstep k (k\<lparr>tasks := (tasks k)(i := u), fsys := empty_fds i (fsys k)\<rparr>)"
| inherit: "i < NTASK \<Longrightarrow> j < NTASK \<Longrightarrow> i \<noteq> j \<Longrightarrow> empty_tab i (fsys k) \<Longrightarrow> \<not> dead (tstate (tasks k i)) \<Longrightarrow>
    kstep k (k\<lparr>fsys := fd_inherit (Some i) (Some j) (fsys k)\<rparr>)"
| unreserve: "empty_tab i (fsys k) \<Longrightarrow> kstep k (k\<lparr>tasks := (tasks k)(i := (tasks k i)\<lparr>tstate := T_FREE\<rparr>)\<rparr>)"
| zombie: "empty_tab i (fsys k) \<Longrightarrow> kstep k (k\<lparr>tasks := (tasks k)(i := (tasks k i)\<lparr>exit_code := st, tstate := T_ZOMBIE\<rparr>)\<rparr>)"
| tasks: "(\<And>i. mild (tasks k i) (ts i)) \<Longrightarrow> (\<And>i. mild (idle_tasks k i) (is i)) \<Longrightarrow> kstep k (k\<lparr>tasks := ts, idle_tasks := is\<rparr>)"
| switch: "kstep k (snd (task64_schedule me shoot r k))"

lemma mild_refl [simp]: "mild u u"
  by (simp add: mild_def)

lemma empty_fds_id: "empty_tab i f \<Longrightarrow> empty_fds i f = f"
proof -
  assume "empty_tab i f"
  then have "(\<lambda>n. if n < FD_MAX_TASK then - 1 else fd_tab f i n) = fd_tab f i" by (auto simp: empty_tab_def)
  then show ?thesis by (simp add: empty_fds_def)
qed

lemma task_of_tasks: "task_of t (k\<lparr>tasks := ts, idle_tasks := is\<rparr>) = (case t of Slot i \<Rightarrow> ts i | Idle i \<Rightarrow> is i)"
  by (simp add: task_of_def split: tref.splits)

text \<open>The scheduler kills no task and leaves everything but tasks and registers.\<close>

lemma schedule_frame:
  "fsys (snd (task64_schedule me shoot r k)) = fsys k" "mm (snd (task64_schedule me shoot r k)) = mm k"
  "dsk (snd (task64_schedule me shoot r k)) = dsk k"
  "dead (tstate (tasks (snd (task64_schedule me shoot r k)) i)) \<Longrightarrow> dead (tstate (tasks k i))"
  by (auto simp: task64_schedule_def sched_pick_def sched_switch_def demote_def Let_def dead_def split: option.splits if_splits tref.splits)

lemma fd_inherit_tab: "t \<noteq> i \<Longrightarrow> fd_tab (fd_inherit (Some i) (Some j) f) t = fd_tab f t"
proof -
  assume "t \<noteq> i"
  then have "fd_tab (fold (inherit_slot i j) ks f) t = fd_tab f t" for ks
    by (induction ks arbitrary: f) (simp_all add: inherit_slot_tab)
  then show ?thesis by (simp add: fd_inherit_def)
qed

lemma sched_inv_same: "tasks k' = tasks k \<Longrightarrow> idle_tasks k' = idle_tasks k \<Longrightarrow> cur_cpu k' = cur_cpu k \<Longrightarrow> sched_inv k' = sched_inv k"
proof -
  assume s: "tasks k' = tasks k" "idle_tasks k' = idle_tasks k" "cur_cpu k' = cur_cpu k"
  then have "task_of t k' = task_of t k" for t by (simp add: task_of_def split: tref.splits)
  then show ?thesis using s by (simp add: sched_inv_def named_def placed_def)
qed

lemma sched_inv_slot:
  assumes "sched_inv k" "quiet f"
  shows "sched_inv (k\<lparr>tasks := (tasks k)(i := f (tasks k i))\<rparr>)"
  using quiet_upd [OF assms, of "Slot i"] by (simp add: upd_task_def)

lemma kstep_sched: "kstep k k' \<Longrightarrow> sched_inv k \<Longrightarrow> files_inv k \<Longrightarrow> sched_inv k'"
proof (induction rule: kstep.induct)
  case (reserve i k u)
  then have "tid (tasks k i) = int i" by (simp add: sched_inv_def named_def)
  then show ?case using reserve
    by (intro sched_inv_quiet [OF \<open>sched_inv k\<close>]) (auto simp: task_of_def split: tref.splits if_splits)
next
  case (tasks k ts "is")
  then show ?case
    by (intro sched_inv_quiet [OF \<open>sched_inv k\<close>]) (auto simp: task_of_tasks mild_def task_of_def split: tref.splits)
next
  case (unreserve i k)
  then show ?case using sched_inv_slot [of k "\<lambda>u. u\<lparr>tstate := T_FREE\<rparr>" i] by (simp add: quiet_def)
next
  case (zombie i k st)
  then show ?case using sched_inv_slot [of k "\<lambda>u. u\<lparr>exit_code := st, tstate := T_ZOMBIE\<rparr>" i] by (simp add: quiet_def)
next
  case (switch k me shoot r)
  then show ?case by (intro schedule_inv)
qed (subst sched_inv_same; simp)+

lemma kstep_files: "kstep k k' \<Longrightarrow> files_inv k \<Longrightarrow> files_inv k'"
proof (induction rule: kstep.induct)
  case (files j k f)
  then have "t \<noteq> j" if "dead (tstate (tasks k t))" for t using that by (auto simp: dead_def)
  then show ?case using files by (auto simp: files_inv_def fd_ok_def empty_tab_def)
next
  case (reserve i k u)
  then have "empty_tab i (fsys k)" by (simp add: files_inv_def dead_def)
  then show ?case using reserve by (auto simp: files_inv_def empty_fds_id dead_def)
next
  case (inherit i j k)
  have "fd_inv (fd_inherit (Some i) (Some j) (fsys k))"
    by (rule fd_inherit_inv) (use inherit in \<open>auto simp: files_inv_def empty_tab_def\<close>)
  moreover have "empty_tab t (fd_inherit (Some i) (Some j) (fsys k))" if "t < NTASK" "dead (tstate (tasks k t))" for t
    using inherit that fd_inherit_tab [of t i j "fsys k"] by (cases "t = i") (auto simp: files_inv_def empty_tab_def)
  ultimately show ?case by (simp add: files_inv_def)
next
  case (tasks k ts "is")
  then show ?case by (auto simp: files_inv_def mild_def)
next
  case (switch k me shoot r)
  then show ?case by (auto simp: files_inv_def schedule_frame dest: schedule_frame(4))
qed (auto simp: files_inv_def)

lemma kstep_parts: "kstep k k' \<Longrightarrow> desk_inv (dsk k) \<Longrightarrow> desk_inv (dsk k')" "kstep k k' \<Longrightarrow> mem_inv (mm k) \<Longrightarrow> mem_inv (mm k')"
  by (induction rule: kstep.induct) (auto simp: schedule_frame intro: calm_inv)

lemma kstep_inv: "kstep k k' \<Longrightarrow> kernel_inv k \<Longrightarrow> kernel_inv k'"
  unfolding kernel_inv_def by (blast intro: kstep_sched kstep_files kstep_parts)

lemma ksteps_inv: "kstep\<^sup>*\<^sup>* k k' \<Longrightarrow> kernel_inv k \<Longrightarrow> kernel_inv k'"
  by (induction rule: rtranclp_induct) (auto intro: kstep_inv)

end
