(* ===== verification/Kernel_Runs.thy ===== *)
theory Kernel_Runs
  imports Kernel_Step
begin

text \<open>
  Which elementary changes the kernel's operations are made of: rules for each way the code composes
  operations, and one fact per operation of the task, screen, window and file layers.
\<close>

section \<open>Neutral operations\<close>

text \<open>What a neutral operation leaves alone.\<close>

definition same :: "k64 \<Rightarrow> k64 \<Rightarrow> bool" where
  "same k k' \<longleftrightarrow> cur_cpu k' = cur_cpu k \<and> fd_tab (fsys k') = fd_tab (fsys k) \<and>
     (\<forall>t. tid (task_of t k') = tid (task_of t k) \<and> tstate (task_of t k') = tstate (task_of t k) \<and>
          last_cpu (task_of t k') = last_cpu (task_of t k))"

lemma same_refl [simp]: "same k k"
  by (simp add: same_def)

lemma same_trans: "same a b \<Longrightarrow> same b c \<Longrightarrow> same a c"
  by (simp add: same_def)

definition prim :: "(k64, 'a) opn \<Rightarrow> bool" where
  "prim m \<longleftrightarrow> (\<forall>k. case m k of (Trap, _) \<Rightarrow> True | (_, k') \<Rightarrow> kstep\<^sup>*\<^sup>* k k' \<and> same k k')"

named_theorems prims \<open>neutral operations\<close>

lemma primI: "(\<And>k r k'. m k = (r, k') \<Longrightarrow> r \<noteq> Trap \<Longrightarrow> kstep\<^sup>*\<^sup>* k k' \<and> same k k') \<Longrightarrow> prim m"
  unfolding prim_def by (auto split: prod.splits res.splits)

lemma primD: "prim m \<Longrightarrow> m k = (r, k') \<Longrightarrow> r \<noteq> Trap \<Longrightarrow> kstep\<^sup>*\<^sup>* k k' \<and> same k k'"
  unfolding prim_def by (drule spec [of _ k]) (cases r; simp)

lemma prim_basic [prims]: "prim (ret a)" "prim (fail e)" "prim trap" "prim (gets f)"
  by (simp_all add: prim_def)

lemma prim_seq [prims]: "prim m \<Longrightarrow> (\<And>a. prim (f a)) \<Longrightarrow> prim (seq m f)"
  by (rule primI) (auto simp: seq_def split: prod.splits res.splits dest!: primD intro: rtranclp_trans same_trans)

lemma prim_err_to [prims]: "prim m \<Longrightarrow> prim (err_to e m)"
  by (rule primI) (auto simp: err_to_def split: prod.splits res.splits dest: primD)

lemma prim_sys_ret [prims]: "prim m \<Longrightarrow> prim (sys_ret m)"
  by (rule primI) (auto simp: sys_ret_def split: prod.splits res.splits dest: primD)

lemma prim_if [prims]: "(b \<Longrightarrow> prim m) \<Longrightarrow> (\<not> b \<Longrightarrow> prim n) \<Longrightarrow> prim (if b then m else n)"
  by simp

lemma prim_option [prims]: "prim m \<Longrightarrow> (\<And>a. prim (f a)) \<Longrightarrow> prim (case x of None \<Rightarrow> m | Some a \<Rightarrow> f a)"
  by (cases x) simp_all

lemma prim_sum [prims]: "(\<And>a. prim (m a)) \<Longrightarrow> (\<And>a. prim (f a)) \<Longrightarrow> prim (case x of Inl a \<Rightarrow> m a | Inr a \<Rightarrow> f a)"
  by (cases x) simp_all

lemma prim_pair [prims]: "(\<And>a b. prim (f a b)) \<Longrightarrow> prim (case p of (a, b) \<Rightarrow> f a b)"
  by (cases p) simp

lemma prim_Let [prims]: "(\<And>a. prim (f a)) \<Longrightarrow> prim (let x = a in f x)"
  by simp

text \<open>Elementary changes that are neutral.\<close>

lemma one_step: "kstep k k' \<Longrightarrow> kstep\<^sup>*\<^sup>* k k'"
  by blast

lemma regs_any:
  assumes "tasks k' = tasks k" "idle_tasks k' = idle_tasks k" "cur_cpu k' = cur_cpu k" "mm k' = mm k" "dsk k' = dsk k" "fsys k' = fsys k"
    "execs k' = execs k" "blobs k' = blobs k" "tx k' = tx k"
  shows "kstep k k'"
proof -
  have "k' = k\<lparr>kmem := kmem k', cr3_of := cr3_of k', fpu_of := fpu_of k', rsp0_of := rsp0_of k', rnd := rnd k', kbd := kbd k', smp := smp k',
      fbs := fbs k', ticks := ticks k'\<rparr>"
    using assms by (cases k, cases k') simp
  then show ?thesis using kstep.regs by metis
qed

lemma regs_step:
  "kstep k (k\<lparr>kmem := a\<rparr>)" "kstep k (k\<lparr>cr3_of := b\<rparr>)" "kstep k (k\<lparr>fpu_of := c\<rparr>)" "kstep k (k\<lparr>rnd := e\<rparr>)" "kstep k (k\<lparr>kbd := f\<rparr>)"
  "kstep k (k\<lparr>smp := g\<rparr>)" "kstep k (k\<lparr>fbs := h\<rparr>)" "kstep k (k\<lparr>ticks := t\<rparr>)"
  by (rule regs_any; simp)+

lemma desk_step:
  assumes "desk_inv (dsk k) \<Longrightarrow> desk_inv d"
  shows "kstep k (k\<lparr>dsk := d\<rparr>)" "kstep k (k\<lparr>tx := t, dsk := d\<rparr>)"
proof -
  have e: "k\<lparr>tx := t, dsk := d\<rparr> = k\<lparr>dsk := d, tx := t\<rparr>" by simp
  show "kstep k (k\<lparr>dsk := d\<rparr>)" using kstep.desktop [of k d "tx k"] assms by simp
  show "kstep k (k\<lparr>tx := t, dsk := d\<rparr>)" unfolding e using kstep.desktop [of k d t] assms by simp
qed

lemma mem_cr3_steps:
  assumes "calm ((mm k)\<lparr>live_cr3 := c\<rparr>) m"
  shows "kstep\<^sup>*\<^sup>* k (k\<lparr>mm := m, cr3_of := b\<rparr>)"
proof -
  have "kstep k (k\<lparr>mm := m\<rparr>)" by (rule kstep.memory) (rule calm_trans [OF calm_fields(4) assms])
  moreover have "kstep (k\<lparr>mm := m\<rparr>) (k\<lparr>mm := m, cr3_of := b\<rparr>)" using regs_step(2) [of "k\<lparr>mm := m\<rparr>" b] by simp
  ultimately show ?thesis by (blast intro: rtranclp.rtrancl_into_rtrancl)
qed

lemma prim_on_mem [prims]: "calms f \<Longrightarrow> prim (on_mem me f)"
proof (rule primI)
  fix k r k' assume f: "calms f" and m: "on_mem me f k = (r, k')" "r \<noteq> Trap"
  then obtain a x where x: "f ((mm k)\<lparr>live_cr3 := cr3_of k me\<rparr>) = Some (a, x)" "k' = k\<lparr>mm := x, cr3_of := (cr3_of k)(me := live_cr3 x)\<rparr>"
    by (auto simp: on_mem_def split: option.splits)
  then have "calm ((mm k)\<lparr>live_cr3 := cr3_of k me\<rparr>) x" using f by (auto simp: calms_def)
  then show "kstep\<^sup>*\<^sup>* k k' \<and> same k k'" unfolding x(2) by (auto intro: mem_cr3_steps simp: same_def task_of_def split: tref.splits)
qed

lemma prim_load [prims]: "prim (load_image me target img)"
proof (rule primI)
  fix k r k' assume m: "load_image me target img k = (r, k')" "r \<noteq> Trap"
  then obtain out a x where x: "loader_map_image target img (rnd k) ((mm k)\<lparr>live_cr3 := cr3_of k me\<rparr>) = Some (out, a, x)"
    "k' = k\<lparr>rnd := a, mm := x, cr3_of := (cr3_of k)(me := live_cr3 x)\<rparr>"
    by (auto simp: load_image_def split: option.splits)
  have "kstep k (k\<lparr>rnd := a\<rparr>)" by (rule regs_step)
  moreover have "kstep\<^sup>*\<^sup>* (k\<lparr>rnd := a\<rparr>) k'" unfolding x(2)
    using mem_cr3_steps [where k = "k\<lparr>rnd := a\<rparr>" and c = "cr3_of k me" and m = x and b = "(cr3_of k)(me := live_cr3 x)"] calm_load [OF x(1)] by simp
  ultimately show "kstep\<^sup>*\<^sup>* k k' \<and> same k k'"
    by (auto simp: x(2) same_def task_of_def split: tref.splits intro: rtranclp_trans converse_rtranclp_into_rtranclp)
qed

definition scr_ok :: "(scr, 'a) opn \<Rightarrow> bool" where
  "scr_ok g \<longleftrightarrow> (\<forall>b m d r b' m' d'. g (b, m, d) = (r, (b', m', d')) \<longrightarrow> calm m m' \<and> (desk_inv d \<longrightarrow> desk_inv d'))"

lemma prim_on_screen [prims]: "scr_ok g \<Longrightarrow> prim (on_screen me g)"
proof (rule primI)
  fix k r k' assume g: "scr_ok g" and m: "on_screen me g k = (r, k')" "r \<noteq> Trap"
  then obtain b x d where x: "g (fbs k, (mm k)\<lparr>live_cr3 := cr3_of k me\<rparr>, dsk k) = (r, (b, x, d))"
    "k' = k\<lparr>fbs := b, mm := x, cr3_of := (cr3_of k)(me := live_cr3 x), dsk := d\<rparr>"
    by (auto simp: on_screen_def split: prod.splits)
  then have c: "calm ((mm k)\<lparr>live_cr3 := cr3_of k me\<rparr>) x" "desk_inv (dsk k) \<Longrightarrow> desk_inv d" using g unfolding scr_ok_def by blast+
  let ?k1 = "k\<lparr>fbs := b\<rparr>" and ?k2 = "k\<lparr>fbs := b, mm := x, cr3_of := (cr3_of k)(me := live_cr3 x)\<rparr>"
  have "kstep k ?k1" by (rule regs_step)
  moreover have "kstep\<^sup>*\<^sup>* ?k1 ?k2" using mem_cr3_steps [where k = ?k1 and c = "cr3_of k me" and m = x] c(1) by simp
  moreover have "kstep ?k2 k'" unfolding x(2) using desk_step(1) [of ?k2 d] c(2) by simp
  ultimately show "kstep\<^sup>*\<^sup>* k k' \<and> same k k'"
    by (auto simp: x(2) same_def task_of_def split: tref.splits intro: rtranclp_trans converse_rtranclp_into_rtranclp)
qed

section \<open>Drawing and printing\<close>

lemma desk_inv_safe: "cons_safe d d' \<Longrightarrow> desk_inv d \<Longrightarrow> desk_inv d'"
  by (auto simp: desk_inv_def cons_safe_def)

lemma desk_inv_con: "desk_inv d \<Longrightarrow> cons_inv (con d)"
  by (simp add: desk_inv_def)

lemma desk_putc: "desk_inv d \<Longrightarrow> desk_inv (cons_putc ft c d)"
  by (rule desk_inv_safe [OF cons_putc_safe]) (simp_all add: desk_inv_con)

lemma desk_present: "desk_inv d \<Longrightarrow> desk_inv (cons_present ft d)"
  by (rule desk_inv_safe [OF cons_present_safe]) (simp_all add: desk_inv_con)

lemma desk_flags: "desk_inv d \<Longrightarrow> desk_inv (d\<lparr>con := cons_graphics on (con d)\<rparr>)"
  "desk_inv d \<Longrightarrow> desk_inv (d\<lparr>con := cons_status_tick t (con d)\<rparr>)" "desk_inv d \<Longrightarrow> desk_inv (d\<lparr>con := cons_mark_dirty a b (con d)\<rparr>)"
  using desk_inv_safe [OF cons_flags_safe(3)] desk_inv_safe [OF cons_flags_safe(2)] desk_inv_safe [OF cons_flags_safe(5)]
  by (simp_all add: upd_con_def desk_inv_con)

text \<open>Printing routines, as functions on the serial log and the desktop.\<close>

definition tidy :: "(ser \<Rightarrow> ser) \<Rightarrow> bool" where
  "tidy f \<longleftrightarrow> (\<forall>out d. desk_inv d \<longrightarrow> desk_inv (snd (f (out, d))))"

lemma tidy_sends: "sends ft f bs \<Longrightarrow> tidy f"
proof -
  assume "sends ft f bs"
  moreover have "desk_inv d \<Longrightarrow> desk_inv (fold (cons_putc ft) bs d)" for d bs by (induction bs arbitrary: d) (simp_all add: desk_putc)
  ultimately show ?thesis by (simp add: tidy_def sends_def)
qed

lemmas tidy_prints = tidy_sends [OF sends_puts(1)] tidy_sends [OF sends_puts(2)] tidy_sends [OF sends_write] tidy_sends [OF sends_dec(1)]
  tidy_sends [OF sends_dec(2)] tidy_sends [OF sends_hex(1)] tidy_sends [OF sends_hex(2)] tidy_sends [OF sends_putc] tidy_sends [OF sends_putnl]

lemma tidy_app: "tidy f \<Longrightarrow> tidy (\<lambda>s. g s) \<Longrightarrow> tidy (\<lambda>s. f (g s))"
  by (simp add: tidy_def split_paired_all) (metis prod.collapse)

lemma tidyD: "tidy f \<Longrightarrow> desk_inv (snd s) \<Longrightarrow> desk_inv (snd (f s))"
  by (cases s) (simp add: tidy_def)

lemma printf_desk: "desk_inv (snd s) \<Longrightarrow> desk_inv (snd (snd (s_printf ft cs as s)))"
  by (induction ft cs as s rule: s_printf.induct)
    (auto split: list.splits parg.splits option.splits simp: tidyD [OF tidy_prints(9)] tidyD [OF tidy_prints(2)]
      tidyD [OF tidy_prints(4)] tidyD [OF tidy_prints(6)] tidyD [OF tidy_prints(8)])

lemma prim_serial [prims]: "prim (on_serial (s_printf ft cs as))"
proof (rule primI)
  fix k r k' assume m: "on_serial (s_printf ft cs as) k = (r, k')" "r \<noteq> Trap"
  then obtain t d where x: "s_printf ft cs as (tx k, dsk k) = (r, (t, d))" "k' = k\<lparr>tx := t, dsk := d\<rparr>"
    by (auto simp: on_serial_def split: prod.splits)
  then have "desk_inv (dsk k) \<Longrightarrow> desk_inv d" using printf_desk [of "(tx k, dsk k)" ft cs as] by simp
  then show "kstep\<^sup>*\<^sup>* k k' \<and> same k k'"
    using desk_step(2) [of k d t] by (auto simp: x(2) same_def task_of_def split: tref.splits)
qed

lemma say_step: "tidy f \<Longrightarrow> kstep k (say f k)"
  using desk_step(2) [of k "snd (f (tx k, dsk k))" "fst (f (tx k, dsk k))"] by (simp add: say_def tidy_def split_beta)

lemma prim_modify: "(\<And>k. kstep\<^sup>*\<^sup>* k (f k) \<and> same k (f k)) \<Longrightarrow> prim (modify f)"
  by (simp add: prim_def)

lemma prim_say [prims]: "tidy f \<Longrightarrow> prim (modify (say f))"
  by (rule prim_modify) (auto simp: same_def dest: say_step)

lemma tidy_write [prims]: "tidy (s_write ft b)"
  using tidy_prints(3) by (cases b) (simp_all add: tidy_def s_write_def)

section \<open>Registers and task fields\<close>

lemma prim_regs [prims]: "prim (set_reg r n v)" "prim (rewind r)" "prim (cr3_swap me c)"
  "prim (modify (\<lambda>k. k\<lparr>kmem := a k\<rparr>))" "prim (modify (\<lambda>k. k\<lparr>cr3_of := b k\<rparr>))"
  unfolding set_reg_def rewind_def
  by (rule primI; auto simp: cr3_swap_def same_def task_of_def split: tref.splits if_splits intro: regs_step)+

lemma prim_rax [prims]: "prim (rax_ret r v)"
  unfolding rax_ret_def by (intro prims)

definition tame :: "(task64 \<Rightarrow> task64) \<Rightarrow> bool" where
  "tame f \<longleftrightarrow> (\<forall>u. tid (f u) = tid u \<and> tstate (f u) = tstate u \<and> last_cpu (f u) = last_cpu u)"

lemma upd_step:
  assumes "mild (task_of t k) (f (task_of t k))"
  shows "kstep k (upd_task t f k)"
proof (cases t)
  case (Slot i)
  then show ?thesis
    using kstep.tasks [of k "(tasks k)(i := f (tasks k i))" "idle_tasks k"] assms by (simp add: upd_task_def task_of_def)
next
  case (Idle i)
  then show ?thesis
    using kstep.tasks [of k "tasks k" "(idle_tasks k)(i := f (idle_tasks k i))"] assms by (simp add: upd_task_def task_of_def)
qed

lemma slots_step: "(\<And>i. mild (tasks k i) (ts i)) \<Longrightarrow> kstep k (k\<lparr>tasks := ts\<rparr>)"
proof -
  assume "\<And>i. mild (tasks k i) (ts i)"
  then have "kstep k (k\<lparr>tasks := ts, idle_tasks := idle_tasks k\<rparr>)" by (intro kstep.tasks) simp_all
  moreover have "k\<lparr>tasks := ts, idle_tasks := idle_tasks k\<rparr> = k\<lparr>tasks := ts\<rparr>" by simp
  ultimately show ?thesis by metis
qed

lemma tame_step: "tame f \<Longrightarrow> kstep k (upd_task t f k)" "tame f \<Longrightarrow> same k (upd_task t f k)"
  by (auto intro!: upd_step simp: tame_def mild_def same_def)

lemma prim_upd [prims]: "tame f \<Longrightarrow> prim (modify (upd_task t f))" "tame f \<Longrightarrow> prim (set_slot i f)"
  unfolding set_slot_def by (rule prim_modify; auto simp: tame_step)+

lemma tame_sets [prims]:
  "tame (\<lambda>u. u\<lparr>tcr3 := c\<rparr>)" "tame (\<lambda>u. u\<lparr>tcr3 := c, parent := p\<rparr>)" "tame (\<lambda>u. u\<lparr>heap_brk := b\<rparr>)" "tame (\<lambda>u. u\<lparr>trsp := s\<rparr>)" "tame (\<lambda>u. u\<lparr>fx := x\<rparr>)"
  "tame (\<lambda>u. u\<lparr>user_base := a, heap_base := h, heap_brk := b\<rparr>)" "tame (\<lambda>u. u\<lparr>wakeup_tick := w\<rparr>)" "tame (\<lambda>u. u\<lparr>trsp := s, fx := x\<rparr>)"
  "tame (\<lambda>u. u\<lparr>tcr3 := c, parent := p, user_base := a, heap_base := h, heap_brk := b\<rparr>)" "tame (set_image b e)"
  "tame (\<lambda>u. (set_image b e u)\<lparr>tname := n\<rparr>)"
  by (simp_all add: tame_def set_image_def)

lemma fx_init_step: "kstep\<^sup>*\<^sup>* k (fx_init L me t k) \<and> same k (fx_init L me t k)"
proof -
  let ?i = "fninit L (fpu_of k me)" and ?k = "k\<lparr>fpu_of := (fpu_of k)(me := fninit L (fpu_of k me))\<rparr>"
  have "kstep k ?k" "kstep ?k (upd_task t (\<lambda>u. u\<lparr>fx := ?i\<rparr>) ?k)" "same ?k (upd_task t (\<lambda>u. u\<lparr>fx := ?i\<rparr>) ?k)"
    by (intro regs_step tame_step tame_sets)+
  moreover have "same k ?k" by (simp add: same_def)
  ultimately show ?thesis unfolding fx_init_def Let_def by (meson r_into_rtranclp rtranclp.rtrancl_into_rtrancl same_trans)
qed

lemma prim_build [prims]: "prim (modify (build_frame t rip cs rsp ss))"
proof (rule prim_modify)
  fix k
  let ?w = "put_words (kstack_top (task_of t k) - 22 * 8) (replicate 17 0 @ [rip, cs, 0x202, rsp, ss]) (kmem k)"
  let ?f = "\<lambda>u. u\<lparr>trsp := kstack_top (task_of t k) - 22 * 8\<rparr>"
  have "kstep k (k\<lparr>kmem := ?w\<rparr>)" "kstep (k\<lparr>kmem := ?w\<rparr>) (upd_task t ?f (k\<lparr>kmem := ?w\<rparr>))" "same (k\<lparr>kmem := ?w\<rparr>) (upd_task t ?f (k\<lparr>kmem := ?w\<rparr>))"
    by (intro regs_step tame_step tame_sets)+
  moreover have "same k (k\<lparr>kmem := ?w\<rparr>)" by (simp add: same_def)
  ultimately show "kstep\<^sup>*\<^sup>* k (build_frame t rip cs rsp ss k) \<and> same k (build_frame t rip cs rsp ss k)"
    unfolding build_frame_def Let_def by (meson r_into_rtranclp rtranclp.rtrancl_into_rtrancl same_trans)
qed

lemma prim_fork_stack [prims]: "prim (modify (fork_stack me self i r))"
proof (rule prim_modify)
  fix k
  define m where "m = (copy_words (kstack_top (tasks k i) - KSTACK_SIZE) (kstack_top (task_of self k) - KSTACK_SIZE) 2048 (kmem k))
    (reg_at (kstack_top (tasks k i) - (kstack_top (task_of self k) - r)) R_RAX := 0)"
  let ?k1 = "k\<lparr>kmem := m\<rparr>"
  let ?f = "\<lambda>u. u\<lparr>fx := fpu_of k me\<rparr>"
  let ?g = "\<lambda>u. u\<lparr>trsp := kstack_top (tasks k i) - (kstack_top (task_of self k) - r), fx := fpu_of k me\<rparr>"
  have e: "fork_stack me self i r k = upd_task (Slot i) ?g (upd_task self ?f ?k1)" by (simp add: fork_stack_def Let_def m_def)
  have "kstep k ?k1" "kstep ?k1 (upd_task self ?f ?k1)" "kstep (upd_task self ?f ?k1) (upd_task (Slot i) ?g (upd_task self ?f ?k1))"
    "same ?k1 (upd_task self ?f ?k1)" "same (upd_task self ?f ?k1) (upd_task (Slot i) ?g (upd_task self ?f ?k1))"
    by (intro regs_step tame_step tame_sets)+
  moreover have "same k ?k1" by (simp add: same_def)
  ultimately show "kstep\<^sup>*\<^sup>* k (fork_stack me self i r k) \<and> same k (fork_stack me self i r k)"
    unfolding e by (meson r_into_rtranclp rtranclp.rtrancl_into_rtrancl same_trans)
qed

section \<open>Composite neutral operations\<close>

lemma scr_ops [prims]:
  "scr_ok fb_info" "scr_ok (fb_map_current self)" "scr_ok (fb_unmap_current ft self)" "scr_ok (fb_owner_release ft self)"
proof -
  have t: "desk_inv d \<Longrightarrow> desk_inv (text_restore ft d)" for d by (simp add: text_restore_def desk_present desk_flags)
  show "scr_ok fb_info" by (auto simp: scr_ok_def fb_info_def)
  show "scr_ok (fb_map_current self)" unfolding scr_ok_def
  proof (intro allI impI conjI)
    fix b m d r b' m' d' assume e: "fb_map_current self (b, m, d) = (r, (b', m', d'))"
    then show "calm m m'" by (rule calm_fb_map)
    show "desk_inv d'" if "desk_inv d"
      using e that by (auto simp: fb_map_current_def Let_def desk_flags split: option.splits if_splits prod.splits)
  qed
  show "scr_ok (fb_unmap_current ft self)" unfolding scr_ok_def
  proof (intro allI impI conjI)
    fix b m d r b' m' d' assume e: "fb_unmap_current ft self (b, m, d) = (r, (b', m', d'))"
    then show "calm m m'" by (rule calm_fb_unmap)
    show "desk_inv d'" if "desk_inv d"
      using e that by (auto simp: fb_unmap_current_def Let_def t split: option.splits if_splits prod.splits)
  qed
  show "scr_ok (fb_owner_release ft self)" unfolding scr_ok_def
  proof (intro allI impI conjI)
    fix b m d r b' m' d' assume e: "fb_owner_release ft self (b, m, d) = (r, (b', m', d'))"
    then show "calm m m'" by (rule calm_fb_release)
    show "desk_inv d'" if "desk_inv d"
      using e that by (auto simp: fb_owner_release_def t split: option.splits if_splits)
  qed
qed

lemma prim_desk: "(\<And>d. desk_inv d \<Longrightarrow> desk_inv (snd (f d))) \<Longrightarrow> prim (on_desk f)"
  by (rule primI) (auto simp: on_desk_def same_def task_of_def split: prod.splits tref.splits intro!: desk_step(1) r_into_rtranclp, metis snd_conv)

lemma prim_wins: "(\<And>s. win_inv s \<Longrightarrow> win_inv (snd (f s))) \<Longrightarrow> prim (on_wins f)"
  by (rule primI) (auto simp: on_wins_def same_def task_of_def desk_inv_def split: prod.splits tref.splits intro!: desk_step(1) r_into_rtranclp, metis snd_conv)

lemma prim_live [prims]: "prim (of_live me f)"
  by (rule primI) (auto simp: of_live_def split: option.splits)

lemma prim_mem_ops [prims]: "prim (teardown L me c)" "prim (store_user me va bs)" "prim (clone_of me c)" "prim (map_ustack me c i)" "prim (user_name me va)"
  unfolding teardown_def store_user_def clone_of_def map_ustack_def user_name_def by (intro prims calmed)+

lemma prim_wire [prims]: "prim (wire_image L me c i img)"
  unfolding wire_image_def by (intro prims)

text \<open>Window operations change the console only by marking rows dirty.\<close>

lemma cons_inv_dirty: "cons_inv c \<Longrightarrow> cons_inv (cons_mark_dirty a b c)"
  using cons_flags_safe(5) [of "boot_desk\<lparr>con := c\<rparr>" a b] by (simp add: upd_con_def cons_safe_def)

lemma desk_wins [prims]:
  assumes "desk_inv d"
  shows "desk_inv (snd (win_create self w h ttl d))" "desk_inv (snd (win_close self wid d))"
    "desk_inv (snd (win_fill self wid x y w h rgb d))" "desk_inv (snd (win_blit self wid x y w h us d))"
    "desk_inv (snd (win_text ft self wid x y cs fg bg d))" "desk_inv (snd (win_setpos self wid x y d))"
    "desk_inv (snd (win_raise wid d))"
proof -
  have i: "win_inv (wsys d)" "cons_inv (con d)" "mouse_ok (mou d)" using assms by (simp_all add: desk_inv_def)
  show "desk_inv (snd (win_create self w h ttl d))"
    using win_inv_create [OF i(1), of self w h ttl] i(2,3)
    by (auto simp: desk_inv_def win_create_def Let_def cons_inv_dirty split: option.splits)
  show "desk_inv (snd (win_close self wid d))"
    using win_inv_close [OF i(1), of self wid] i(2,3) by (auto simp: desk_inv_def win_close_def Let_def cons_inv_dirty split: option.splits)
  show "desk_inv (snd (win_fill self wid x y w h rgb d))"
    using win_inv_draw(1) [OF i(1), of self wid x y w h rgb] i(2,3)
    by (auto simp: desk_inv_def win_fill_def Let_def cons_inv_dirty split: option.splits)
  show "desk_inv (snd (win_blit self wid x y w h us d))"
    using win_inv_draw(2) [OF i(1), of self wid x y w h us] i(2,3)
    by (auto simp: desk_inv_def win_blit_def Let_def cons_inv_dirty split: option.splits)
  show "desk_inv (snd (win_text ft self wid x y cs fg bg d))"
    using win_inv_draw(3) [OF i(1), of ft self wid x y cs fg bg] i(2,3)
    by (auto simp: desk_inv_def win_text_def Let_def cons_inv_dirty split: option.splits)
  show "desk_inv (snd (win_setpos self wid x y d))"
    using win_inv_setpos [OF i(1), of self wid x y] i(2,3)
    by (auto simp: desk_inv_def win_setpos_def Let_def cons_inv_dirty split: option.splits)
  show "desk_inv (snd (win_raise wid d))"
    using win_inv_raise [OF i(1), of wid] i(2,3) by (auto simp: desk_inv_def win_raise_def Let_def cons_inv_dirty)
qed

lemma desk_release: "desk_inv d \<Longrightarrow> desk_inv (win_owner_release t d)"
proof -
  assume d: "desk_inv d"
  have "cons_inv (con (fold (release_slot t) xs d)) \<and> mou (fold (release_slot t) xs d) = mou d" if "cons_inv (con d)" for t xs d
    using that by (induction xs arbitrary: d) (simp_all add: release_slot_def Let_def cons_inv_dirty)
  then have "cons_inv (con (win_owner_release t d)) \<and> mou (win_owner_release t d) = mou d"
    using d by (simp add: win_owner_release_def desk_inv_def split: option.splits)
  then show ?thesis using d win_inv_release [of d t] by (simp add: desk_inv_def)
qed

lemma prim_release [prims]: "prim (release_screen L me t)"
proof -
  have "prim (modify (\<lambda>k. k\<lparr>dsk := win_owner_release (Some (tno t)) (dsk k)\<rparr>))"
    by (rule prim_modify) (auto simp: same_def intro!: desk_step(1) r_into_rtranclp desk_release)
  then show ?thesis unfolding release_screen_def by (intro prims)
qed

lemma prim_commit [prims]: "prim (exec_commit L me self fresh kname im r)"
proof -
  have "prim (modify (\<lambda>k. upd_task self (\<lambda>u. u\<lparr>tcr3 := fresh\<rparr>) (k\<lparr>cr3_of := (cr3_of k)(me := fresh)\<rparr>)))"
  proof (rule prim_modify)
    fix k :: k64
    let ?k = "k\<lparr>cr3_of := (cr3_of k)(me := fresh)\<rparr>"
    have "kstep k ?k" "kstep ?k (upd_task self (\<lambda>u. u\<lparr>tcr3 := fresh\<rparr>) ?k)" "same ?k (upd_task self (\<lambda>u. u\<lparr>tcr3 := fresh\<rparr>) ?k)"
      by (intro regs_step tame_step tame_sets)+
    moreover have "same k ?k" by (simp add: same_def)
    ultimately show "kstep\<^sup>*\<^sup>* k (upd_task self (\<lambda>u. u\<lparr>tcr3 := fresh\<rparr>) ?k) \<and> same k (upd_task self (\<lambda>u. u\<lparr>tcr3 := fresh\<rparr>) ?k)"
      by (meson r_into_rtranclp rtranclp.rtrancl_into_rtrancl same_trans)
  qed
  moreover have "prim (modify (\<lambda>k. fx_init L me self (upd_task self (\<lambda>u. (set_image b e u)\<lparr>tname := n\<rparr>) k)))" for b e n
  proof (rule prim_modify)
    fix k :: k64
    let ?k = "upd_task self (\<lambda>u. (set_image b e u)\<lparr>tname := n\<rparr>) k"
    have "kstep k ?k" "same k ?k" by (intro tame_step tame_sets)+
    with fx_init_step [of ?k L me self] show "kstep\<^sup>*\<^sup>* k (fx_init L me self ?k) \<and> same k (fx_init L me self ?k)"
      using converse_rtranclp_into_rtranclp [of kstep k ?k] same_trans [of k ?k] by blast
  qed
  ultimately show ?thesis unfolding exec_commit_def by (intro prims)
qed

lemma prim_handled [prims]:
  assumes "prim m" "\<And>e. prim (h e)" "\<And>a. prim (f a)"
  shows "prim (\<lambda>k. case m k of (Err e, k') \<Rightarrow> h e k' | (Trap, k') \<Rightarrow> (Trap, k') | (Val a, k') \<Rightarrow> f a k')"
  by (rule primI) (use assms in \<open>auto split: prod.splits res.splits dest!: primD intro: rtranclp_trans same_trans\<close>)

lemma prim_exec [prims]: "prim (task64_exec L me name r)"
  unfolding task64_exec_def by (intro prims)

lemma prim_heap [prims]: "prim (task64_brk me nw r)" "prim (task64_demand me va)"
  unfolding task64_brk_def brk_shrink_def task64_demand_def by (intro prims calmed)+

section \<open>Operations for the running task\<close>

text \<open>Slot \<open>j\<close> runs on the CPU, and the slots of \<open>E\<close> are reserved ones with empty descriptor tables.\<close>

definition call :: "nat \<Rightarrow> nat \<Rightarrow> nat set \<Rightarrow> k64 \<Rightarrow> bool" where
  "call me j E k \<longleftrightarrow> ours me k = Some (Slot j) \<and> j < NTASK \<and>
     (\<forall>i \<in> E. i < NTASK \<and> i \<noteq> j \<and> empty_tab i (fsys k) \<and> \<not> dead (tstate (tasks k i)))"

lemma call_subset: "call me j E k \<Longrightarrow> F \<subseteq> E \<Longrightarrow> call me j F k"
  by (auto simp: call_def)

lemma call_same: "same k k' \<Longrightarrow> call me j E k \<Longrightarrow> call me j E k'"
proof -
  assume s: "same k k'" and c: "call me j E k"
  have "tstate (tasks k' i) = tstate (tasks k i)" "last_cpu (tasks k' i) = last_cpu (tasks k i)" for i
    using s task_of_Slot unfolding same_def by metis+
  then show ?thesis using s c by (simp add: same_def call_def ours_iff empty_tab_def)
qed

definition runs :: "nat \<Rightarrow> nat \<Rightarrow> nat set \<Rightarrow> (k64, 'a) opn \<Rightarrow> nat set \<Rightarrow> bool" where
  "runs me j E m F \<longleftrightarrow> (\<forall>k r k'. call me j E k \<longrightarrow> m k = (r, k') \<longrightarrow> r \<noteq> Trap \<longrightarrow> kstep\<^sup>*\<^sup>* k k' \<and> call me j F k')"

definition steps :: "(k64 \<Rightarrow> bool) \<Rightarrow> (k64, 'a) opn \<Rightarrow> bool" where
  "steps Q m \<longleftrightarrow> (\<forall>k r k'. Q k \<longrightarrow> m k = (r, k') \<longrightarrow> r \<noteq> Trap \<longrightarrow> kstep\<^sup>*\<^sup>* k k')"

named_theorems ran \<open>operations of the running task\<close>

lemma runsI: "(\<And>k r k'. call me j E k \<Longrightarrow> m k = (r, k') \<Longrightarrow> r \<noteq> Trap \<Longrightarrow> kstep\<^sup>*\<^sup>* k k' \<and> call me j F k') \<Longrightarrow> runs me j E m F"
  unfolding runs_def by blast

lemma runsD: "runs me j E m F \<Longrightarrow> call me j E k \<Longrightarrow> m k = (r, k') \<Longrightarrow> r \<noteq> Trap \<Longrightarrow> kstep\<^sup>*\<^sup>* k k' \<and> call me j F k'"
  unfolding runs_def by blast

lemma runs_prim: "prim m \<Longrightarrow> F \<subseteq> E \<Longrightarrow> runs me j E m F"
  by (rule runsI) (blast dest: primD intro: call_same call_subset)

lemma steps_prim: "prim m \<Longrightarrow> steps Q m"
  unfolding steps_def by (blast dest: primD)

lemma steps_runs: "runs me j E m F \<Longrightarrow> steps (call me j E) m"
  unfolding steps_def by (blast dest: runsD)

lemma runs_seq: "runs me j E m F \<Longrightarrow> (\<And>a. runs me j F (f a) G) \<Longrightarrow> G \<subseteq> F \<Longrightarrow> runs me j E (seq m f) G"
  by (rule runsI) (auto simp: seq_def split: prod.splits res.splits dest!: runsD intro: rtranclp_trans call_subset)

lemma runs_then [ran]: "runs me j E m E \<Longrightarrow> (\<And>a. runs me j E (f a) {}) \<Longrightarrow> runs me j E (seq m f) {}"
  by (rule runs_seq) auto

lemma runs_if [ran]: "(b \<Longrightarrow> runs me j E m F) \<Longrightarrow> (\<not> b \<Longrightarrow> runs me j E n F) \<Longrightarrow> runs me j E (if b then m else n) F"
  by simp

lemma runs_option [ran]: "runs me j E m F \<Longrightarrow> (\<And>a. runs me j E (f a) F) \<Longrightarrow> runs me j E (case x of None \<Rightarrow> m | Some a \<Rightarrow> f a) F"
  by (cases x) simp_all

lemma runs_pair [ran]: "(\<And>a b. runs me j E (f a b) F) \<Longrightarrow> runs me j E (case p of (a, b) \<Rightarrow> f a b) F"
  by (cases p) simp

lemma runs_Let [ran]: "(\<And>a. runs me j E (f a) F) \<Longrightarrow> runs me j E (let x = a in f x) F"
  by simp

lemma runs_sys_ret [ran]: "runs me j E m F \<Longrightarrow> runs me j E (sys_ret m) F"
  by (rule runsI) (auto simp: sys_ret_def split: prod.splits res.splits dest: runsD)

lemma runs_err_to [ran]: "runs me j E m F \<Longrightarrow> runs me j E (err_to e m) F"
  by (rule runsI) (auto simp: err_to_def split: prod.splits res.splits dest: runsD)

text \<open>The running task is the one \<^verbatim>\<open>cur\<close> names.\<close>

lemma call_cur: "call me j E k \<Longrightarrow> cur_cpu k me = Some (Slot j)" "call me j E k \<Longrightarrow> self_no me k = Some j"
  by (simp_all add: call_def ours_iff self_no_def tno_def)

lemma runs_cur: "runs me j E (g (Some (Slot j))) F \<Longrightarrow> runs me j E (seq (gets (\<lambda>k. cur_cpu k me)) g) F"
  by (rule runsI) (metis call_cur(1) runsD seq_simps(2))

lemma runs_self: "runs me j E (g (Some j)) F \<Longrightarrow> runs me j E (seq (gets (self_no me)) g) F"
  by (rule runsI) (metis call_cur(2) runsD seq_simps(2))

lemma runs_Some: "runs me j E (f a) F \<Longrightarrow> runs me j E (case Some a of None \<Rightarrow> m | Some a \<Rightarrow> f a) F"
  by simp

lemma runs_None: "runs me j E m F \<Longrightarrow> runs me j E (case None of None \<Rightarrow> m | Some a \<Rightarrow> f a) F"
  by simp

section \<open>Slots\<close>

lemma runs_alloc:
  assumes "runs me j E (g None) F" "\<And>i. runs me j (insert i E) (g (Some i)) F"
  shows "runs me j E (seq (alloc_slot L me name) g) F"
proof (rule runsI)
  fix k r k' assume c: "call me j E k" and e: "seq (alloc_slot L me name) g k = (r, k')" "r \<noteq> Trap"
  show "kstep\<^sup>*\<^sup>* k k' \<and> call me j F k'"
  proof (cases "scan (\<lambda>i. tstate (tasks k i) = T_FREE) 1 NTASK")
    case None
    then have "alloc_slot L me name k = (Val None, k)" by (simp add: alloc_slot_def)
    then show ?thesis using e runsD [OF assms(1) c] by simp
  next
    case (Some i)
    then have i: "i < NTASK" "tstate (tasks k i) = T_FREE" by (auto dest: scan_SomeD)
    define u where "u = (tasks k i)\<lparr>tid := int i, tstate := T_NEW, trsp := 0, user_base := 0, tcr3 := 0,
        kstack_top := kstacks L + of_nat (Suc i) * KSTACK_SIZE, parent := -1, waiting_for := -2, wakeup_tick := 0,
        exit_code := 0, last_cpu := -1, heap_base := 0, heap_brk := 0, tname := name15 name\<rparr>"
    define k1 where "k1 = k\<lparr>tasks := (tasks k)(i := u), fsys := empty_fds i (fsys k)\<rparr>"
    have a: "alloc_slot L me name k = (Val (Some i), fx_init L me (Slot i) k1)" using Some by (simp add: alloc_slot_def u_def k1_def)
    have s: "kstep k k1" unfolding k1_def using i by (intro kstep.reserve) (simp_all add: u_def)
    have ij: "i \<noteq> j" using c i by (auto simp: call_def ours_iff)
    have "empty_tab n (empty_fds i (fsys k))" if "n = i \<or> empty_tab n (fsys k)" for n
      using that by (auto simp: empty_tab_def empty_fds_def)
    then have "call me j (insert i E) k1" using c i ij by (auto simp: call_def k1_def u_def ours_iff dead_def)
    then have "call me j (insert i E) (fx_init L me (Slot i) k1)" using call_same fx_init_step by blast
    moreover have "g (Some i) (fx_init L me (Slot i) k1) = (r, k')" using e a by simp
    ultimately have "kstep\<^sup>*\<^sup>* (fx_init L me (Slot i) k1) k' \<and> call me j F k'" using runsD [OF assms(2)] e(2) by blast
    then show ?thesis using s fx_init_step [of k1 L me "Slot i"] by (meson converse_rtranclp_into_rtranclp rtranclp_trans)
  qed
qed

lemma runs_unreserve: "i \<in> E \<Longrightarrow> runs me j E (task_unreserve i) {}"
proof (rule runsI)
  fix k r k' assume i: "i \<in> E" and c: "call me j E k" and e: "task_unreserve i k = (r, k')"
  have k': "k' = k\<lparr>tasks := (tasks k)(i := if tstate (tasks k i) = T_NEW then (tasks k i)\<lparr>tstate := T_FREE\<rparr> else tasks k i)\<rparr>"
    using e by (simp add: task_unreserve_def set_slot_def upd_task_def)
  have ij: "i \<noteq> j" "empty_tab i (fsys k)" using c i by (auto simp: call_def)
  then have "call me j {} k'" using c by (simp add: k' call_def ours_iff)
  moreover have "kstep\<^sup>*\<^sup>* k k'" unfolding k' using kstep.unreserve [OF ij(2)] by (cases "tstate (tasks k i) = T_NEW") auto
  ultimately show "kstep\<^sup>*\<^sup>* k k' \<and> call me j {} k'" by blast
qed

lemma runs_publish: "runs me j E (task_publish i) E"
proof (rule runsI)
  fix k r k' assume c: "call me j E k" and e: "task_publish i k = (r, k')"
  let ?f = "\<lambda>u. if tstate u = T_NEW then u\<lparr>tstate := T_READY\<rparr> else u"
  have k': "k' = upd_task (Slot i) ?f k" using e by (simp add: task_publish_def set_slot_def)
  have "kstep k k'" unfolding k' by (rule upd_step) (auto simp: mild_def dead_def)
  moreover have "call me j E k'" using c by (auto simp: k' call_def ours_iff dead_def)
  ultimately show "kstep\<^sup>*\<^sup>* k k' \<and> call me j E k'" by blast
qed

lemma runs_inherit: "i \<in> E \<Longrightarrow> runs me j E (on_files (fd_inherit (Some i) (Some j))) {}"
proof (rule runsI)
  fix k r k' assume i: "i \<in> E" and c: "call me j E k" and e: "on_files (fd_inherit (Some i) (Some j)) k = (r, k')"
  have k': "k' = k\<lparr>fsys := fd_inherit (Some i) (Some j) (fsys k)\<rparr>" using e by (simp add: on_files_def)
  have "kstep k k'" unfolding k' using c i by (intro kstep.inherit) (auto simp: call_def)
  then show "kstep\<^sup>*\<^sup>* k k' \<and> call me j {} k'" using c by (auto simp: k' call_def ours_iff)
qed

section \<open>Files\<close>

definition fd_run :: "nat \<Rightarrow> (fdsys, 'a) opn \<Rightarrow> bool" where
  "fd_run j m \<longleftrightarrow> (\<forall>s. fd_ok j s (snd (m s)))"

lemma fd_ok_refl [simp]: "fd_ok j s s"
  by (simp add: fd_ok_def)

lemma fd_ok_trans: "fd_ok j a b \<Longrightarrow> fd_ok j b c \<Longrightarrow> fd_ok j a c"
  by (simp add: fd_ok_def)

named_theorems fd_runs \<open>file operations of one task\<close>

lemma fd_run_basic [fd_runs]: "fd_run j (ret a)" "fd_run j (fail e)" "fd_run j trap" "fd_run j (gets f)" "fd_run j (fd_entry t fd)" "fd_run j (on_vol m)"
  by (auto simp: fd_run_def fd_entry_run on_vol_def fd_ok_def split: prod.splits)

lemma fd_run_seq [fd_runs]: "fd_run j m \<Longrightarrow> (\<And>a. fd_run j (f a)) \<Longrightarrow> fd_run j (seq m f)"
  unfolding fd_run_def seq_def by (auto split: prod.splits res.splits) (metis fd_ok_trans snd_conv)+

lemma fd_run_if [fd_runs]: "(b \<Longrightarrow> fd_run j m) \<Longrightarrow> (\<not> b \<Longrightarrow> fd_run j n) \<Longrightarrow> fd_run j (if b then m else n)"
  by simp

lemma fd_run_pair [fd_runs]: "(\<And>a b. fd_run j (k a b)) \<Longrightarrow> fd_run j (case p of (a, b) \<Rightarrow> k a b)"
  by (simp split: prod.splits)

lemma fd_run_option [fd_runs]: "fd_run j m \<Longrightarrow> (\<And>a. fd_run j (f a)) \<Longrightarrow> fd_run j (case x of None \<Rightarrow> m | Some a \<Rightarrow> f a)"
  by (cases x) simp_all

lemma fd_run_err_to [fd_runs]: "fd_run j m \<Longrightarrow> fd_run j (err_to e m)"
  unfolding fd_run_def err_to_def by (auto split: prod.splits res.splits) (metis snd_conv)+

lemma fd_run_find [fd_runs]: "fd_run j (open_find p flags)"
proof -
  have l: "fd_run j (lookup0 p)" "fd_run j (open_create p)" unfolding lookup0_def open_create_def by (intro fd_runs)+
  show ?thesis
    using l fd_ok_trans unfolding fd_run_def open_find_def by (auto split: prod.splits res.splits) (metis fd_ok_trans snd_conv)+
qed

lemma fd_run_sections [fd_runs]:
  assumes "j < NTASK"
  shows "fd_run j (fd_install j ino flags)" "fd_run j (fd_move j fd f)" "fd_run j (fd_close (Some j) fd)"
proof -
  show "fd_run j (fd_install j ino flags)"
    using assms fd_install_inv unfolding fd_run_def fd_ok_def
    by (auto simp: fd_install_def fd_alloc_global_def fd_map_local_def split: option.splits)
  show "fd_run j (fd_move j fd f)"
    using fd_move_inv unfolding fd_run_def fd_ok_def by (auto simp: fd_move_def Let_def)
  have "fd_ok j s (snd (fd_close (Some j) fd s))" for s
    using fd_close_inv [of s j fd] assms
    by (cases "fd_valid (fd_local_get (Some j) fd s) s") (auto simp: fd_ok_def fd_close_def fd_entry_run close_slot_def fd_drop_def Let_def)
  then show "fd_run j (fd_close (Some j) fd)" by (simp add: fd_run_def)
qed

lemma fd_run_calls [fd_runs]:
  assumes "j < NTASK"
  shows "fd_run j (fd_open (Some j) p flags)" "fd_run j (fd_read (Some j) fd len)" "fd_run j (fd_write (Some j) fd buf len)"
    "fd_run j (fd_lseek (Some j) fd d org)"
  unfolding fd_open_def fd_read_def fd_write_def fd_lseek_def seek_target_def option.case
  by (intro fd_runs assms)+

lemma fd_step:
  assumes c: "call me j E k" and f: "fd_ok j (fsys k) f"
  shows "kstep k (k\<lparr>fsys := f\<rparr>)" "call me j E (k\<lparr>fsys := f\<rparr>)"
proof -
  show "kstep k (k\<lparr>fsys := f\<rparr>)" using c f by (intro kstep.files) (auto simp: call_def ours_iff)
  have "empty_tab i f" if "i \<in> E" for i using c f that by (auto simp: call_def fd_ok_def empty_tab_def)
  then show "call me j E (k\<lparr>fsys := f\<rparr>)" using c by (auto simp: call_def ours_iff)
qed

lemma runs_fs: "(j < NTASK \<Longrightarrow> fd_run j f) \<Longrightarrow> runs me j E (on_fs f) E"
proof (rule runsI)
  fix k r k' assume f: "j < NTASK \<Longrightarrow> fd_run j f" and c: "call me j E k" and e: "on_fs f k = (r, k')"
  have "j < NTASK" using c by (simp add: call_def)
  moreover obtain s where "f (fsys k) = (r, s)" "k' = k\<lparr>fsys := s\<rparr>" using e by (auto simp: on_fs_def split: prod.splits)
  ultimately show "kstep\<^sup>*\<^sup>* k k' \<and> call me j E k'" using fd_step [OF c, of s] f unfolding fd_run_def by (metis r_into_rtranclp snd_conv)
qed

lemma close_all_tab: "empty_tab j (fd_close_all (Some j) s)" "t \<noteq> j \<Longrightarrow> fd_tab (fd_close_all (Some j) s) t = fd_tab s t"
proof -
  have t: "fd_tab (close_slot j n s) = (fd_tab s)(j := (fd_tab s j)(n := -1))" for n s by (simp add: close_slot_def fd_drop_def Let_def)
  have "fd_tab (fold (close_slot j) ks s) j n = (if n \<in> set ks then -1 else fd_tab s j n)" for ks n
    by (induction ks arbitrary: s) (auto simp: t)
  then show "empty_tab j (fd_close_all (Some j) s)" by (simp add: empty_tab_def fd_close_all_def)
  have "t \<noteq> j \<Longrightarrow> fd_tab (fold (close_slot j) ks s) t = fd_tab s t" for ks by (induction ks arbitrary: s) (auto simp: t)
  then show "t \<noteq> j \<Longrightarrow> fd_tab (fd_close_all (Some j) s) t = fd_tab s t" by (simp add: fd_close_all_def)
qed

section \<open>New tasks\<close>

lemma runs_drop:
  "i \<in> E \<Longrightarrow> (\<And>a. runs me j {} (f a) {}) \<Longrightarrow> runs me j E (seq (task_unreserve i) f) {}"
  "i \<in> E \<Longrightarrow> (\<And>a. runs me j {} (f a) {}) \<Longrightarrow> runs me j E (seq (on_files (fd_inherit (Some i) (Some (tno (Slot j))))) f) {}"
proof -
  have t: "tno (Slot j) = j" by (simp add: tno_def)
  show "i \<in> E \<Longrightarrow> (\<And>a. runs me j {} (f a) {}) \<Longrightarrow> runs me j E (seq (task_unreserve i) f) {}"
    by (rule runs_seq [OF runs_unreserve]) simp_all
  show "i \<in> E \<Longrightarrow> (\<And>a. runs me j {} (f a) {}) \<Longrightarrow> runs me j E (seq (on_files (fd_inherit (Some i) (Some (tno (Slot j))))) f) {}"
    unfolding t by (rule runs_seq [OF runs_inherit]) simp_all
qed

lemma runs_on_err:
  assumes "prim m" "i \<in> E"
  shows "runs me j E (on_err m (task_unreserve i)) {}"
proof (rule runsI)
  fix k r k' assume c: "call me j E k" and e: "on_err m (task_unreserve i) k = (r, k')" "r \<noteq> Trap"
  obtain r1 k1 where m: "m k = (r1, k1)" by fastforce
  then have r1: "r1 \<noteq> Trap" using e by (auto simp: on_err_def)
  from primD [OF assms(1) m r1] c have k1: "kstep\<^sup>*\<^sup>* k k1" "call me j E k1" by (auto intro: call_same)
  show "kstep\<^sup>*\<^sup>* k k' \<and> call me j {} k'"
  proof (cases r1)
    case (Err x)
    obtain r2 k2 where u: "task_unreserve i k1 = (r2, k2)" by fastforce
    moreover have "r2 \<noteq> Trap" "k' = k2" using e m u Err by (auto simp: on_err_def split: res.splits)
    ultimately show ?thesis using runsD [OF runs_unreserve [OF assms(2)] k1(2)] k1(1) by (auto intro: rtranclp_trans)
  qed (use e m k1 r1 in \<open>auto simp: on_err_def intro: call_subset\<close>)
qed

lemma runs_wire:
  "i \<in> E \<Longrightarrow> (\<And>a. runs me j {} (f a) {}) \<Longrightarrow> runs me j E (seq (on_err (wire_image L me c i img) (task_unreserve i)) f) {}"
  "i \<in> E \<Longrightarrow> (\<And>a. runs me j {} (f a) {}) \<Longrightarrow> runs me j E (seq (err_to e (on_err (wire_image L me c i img) (task_unreserve i))) f) {}"
  by (rule runs_seq [OF runs_on_err]; simp add: prims) (rule runs_seq [OF runs_err_to [OF runs_on_err]]; simp add: prims)

lemmas runs_special = runs_cur runs_self runs_alloc runs_Some runs_None runs_drop runs_wire

lemma runs_new [ran]:
  "runs me j {} (task64_fork L me r) {}" "runs me j {} (task64_clone L me func) {}"
  "runs me j {} (task64_spawn_args L me name args) {}" "runs me j {} (task64_spawn_image L me name) {}"
  unfolding task64_fork_def task64_clone_def task64_spawn_args_def task64_spawn_image_def
  by (intro runs_special ran; intro runs_special ran runs_publish runs_prim subset_refl prims calmed empty_subsetI insertI1)+

section \<open>Giving up the CPU\<close>

definition after :: "(k64 \<Rightarrow> bool) \<Rightarrow> (k64, 'a) opn \<Rightarrow> (k64 \<Rightarrow> bool) \<Rightarrow> bool" where
  "after Q m R \<longleftrightarrow> (\<forall>k r k'. Q k \<longrightarrow> m k = (r, k') \<longrightarrow> r \<noteq> Trap \<longrightarrow> kstep\<^sup>*\<^sup>* k k' \<and> R k')"

lemma after_prim: "prim m \<Longrightarrow> (\<And>k k'. same k k' \<Longrightarrow> Q k \<Longrightarrow> Q k') \<Longrightarrow> after Q m Q"
  unfolding after_def by (blast dest: primD)

lemma after_runs: "runs me j E m F \<Longrightarrow> after (call me j E) m (call me j F)"
  unfolding after_def by (blast dest: runsD)

lemma after_top: "steps Q m \<Longrightarrow> after Q m (\<lambda>_. True)"
  unfolding after_def steps_def by blast

lemma steps_after: "after Q m R \<Longrightarrow> (\<And>a. steps R (f a)) \<Longrightarrow> steps Q (seq m f)"
  unfolding steps_def after_def
  by (auto simp: seq_def split: prod.splits res.splits) (meson res.distinct rtranclp_trans)+

lemma steps_then: "prim m \<Longrightarrow> (\<And>k k'. same k k' \<Longrightarrow> Q k \<Longrightarrow> Q k') \<Longrightarrow> (\<And>a. steps Q (f a)) \<Longrightarrow> steps Q (seq m f)"
  by (rule steps_after [OF after_prim])

abbreviation anyhow :: "(k64, 'a) opn \<Rightarrow> bool" where
  "anyhow \<equiv> steps (\<lambda>_. True)"

named_theorems stepped \<open>operations made of elementary changes\<close>

lemma anyhow_seq [stepped]: "anyhow m \<Longrightarrow> (\<And>a. anyhow (f a)) \<Longrightarrow> anyhow (seq m f)"
  by (rule steps_after [OF after_top])

lemma steps_weaken: "anyhow m \<Longrightarrow> steps Q m"
  by (simp add: steps_def)

lemma anyhow_if [stepped]: "(b \<Longrightarrow> anyhow m) \<Longrightarrow> (\<not> b \<Longrightarrow> anyhow n) \<Longrightarrow> anyhow (if b then m else n)"
  by simp

lemma anyhow_option [stepped]: "anyhow m \<Longrightarrow> (\<And>a. anyhow (f a)) \<Longrightarrow> anyhow (case x of None \<Rightarrow> m | Some a \<Rightarrow> f a)"
  by (cases x) simp_all

lemma anyhow_wait [stepped]:
  "(\<And>z s c. anyhow (a z s c)) \<Longrightarrow> anyhow b \<Longrightarrow> anyhow c \<Longrightarrow> anyhow d \<Longrightarrow>
   anyhow (case w of W_Reap z s x \<Rightarrow> a z s x | W_Echild \<Rightarrow> b | W_Nohang \<Rightarrow> c | W_Block \<Rightarrow> d)"
  by (cases w) simp_all

lemma anyhow_schedule [stepped]: "anyhow (task64_schedule me shoot r)"
  unfolding steps_def by (metis kstep.switch r_into_rtranclp snd_conv)

lemma anyhow_wait_section [stepped]: "anyhow (wait_section t pid w r)"
proof -
  have "kstep\<^sup>*\<^sup>* k (snd (wait_section t pid w r k))" for k
  proof (cases "find (\<lambda>i. tstate (tasks k i) = T_ZOMBIE) (filter (wait_match (tid (task_of t k)) pid (tasks k)) [1..<NTASK])")
    case None
    then show ?thesis by (auto simp: wait_section_def Let_def mild_def dead_def intro!: upd_step r_into_rtranclp)
  next
    case (Some z)
    then have "tstate (tasks k z) = T_ZOMBIE" by (auto simp: find_Some_iff)
    then show ?thesis using Some by (auto simp: wait_section_def Let_def mild_def dead_def intro!: upd_step r_into_rtranclp)
  qed
  then show ?thesis unfolding steps_def by (metis snd_conv)
qed

lemma anyhow_sleep_section [stepped]: "anyhow (sleep_section t delta r)"
proof -
  have "kstep\<^sup>*\<^sup>* k (snd (sleep_section t delta r k))" for k
    by (auto simp: sleep_section_def Let_def mild_def dead_def intro!: upd_step r_into_rtranclp)
  then show ?thesis unfolding steps_def by (metis snd_conv)
qed

lemma tick_tidy: "tidy (tick_message ft now)"
  unfolding tidy_def
proof (intro allI impI)
  fix out d assume d: "desk_inv d"
  let ?p = "\<lambda>s. s_puts ft [10] (s_dec64 ft now (s_puts ft (lit ''[K64] tick '') s))"
  obtain t d' where e: "?p (out, d) = (t, d')" by fastforce
  have "tidy ?p" by (rule tidy_app [OF tidy_prints(1) tidy_app [OF tidy_prints(5) tidy_prints(1)]])
  then have "desk_inv d'" using tidyD [of ?p "(out, d)"] d e by simp
  then show "desk_inv (snd (tick_message ft now (out, d)))" unfolding tick_message_def e by (simp add: desk_flags)
qed

lemma anyhow_tick [stepped]: "anyhow (modify (tick_section L))"
proof -
  have "kstep\<^sup>*\<^sup>* k (tick_section L k)" for k
  proof -
    let ?k1 = "k\<lparr>ticks := ticks k + 1\<rparr>"
    define k2 where "k2 = (if (ticks k + 1) mod 100 = 0 then say (tick_message (font L) (ticks k + 1)) ?k1 else ?k1)"
    have 1: "kstep k ?k1" by (rule regs_step)
    have 2: "kstep\<^sup>*\<^sup>* ?k1 k2" unfolding k2_def using say_step [OF tick_tidy] by auto
    have 3: "kstep k2 (k2\<lparr>tasks := wake_sleepers (ticks k + 1) (tasks k2)\<rparr>)"
      by (rule slots_step) (simp add: wake_sleepers_def mild_def dead_def)
    show ?thesis unfolding tick_section_def Let_def k2_def [symmetric]
      by (rule rtranclp.rtrancl_into_rtrancl [of _ _ k2]) (use 1 2 3 in \<open>auto intro: converse_rtranclp_into_rtranclp\<close>)
  qed
  then show ?thesis by (simp add: steps_def)
qed

lemma exit_section_after:
  "after (\<lambda>k. empty_tab j (fsys k)) (exit_section (Slot j) status) (\<lambda>k. dead (tstate (tasks k j)))"
  unfolding after_def
proof (intro allI impI)
  fix k r k' assume e: "empty_tab j (fsys k)" and x: "exit_section (Slot j) status k = (r, k')"
  let ?k1 = "upd_task (Slot j) (\<lambda>u. u\<lparr>exit_code := status, tstate := T_ZOMBIE\<rparr>) k"
  let ?k2 = "?k1\<lparr>tasks := orphan (tid (tasks ?k1 j)) (tasks ?k1)\<rparr>"
  have 1: "kstep k ?k1" using kstep.zombie [OF e, of status] by (simp add: upd_task_def)
  have 2: "kstep ?k1 ?k2" by (rule slots_step) (simp add: orphan_def mild_def dead_def)
  have 3: "kstep ?k2 (upd_task (Slot n) (\<lambda>u. if b then u\<lparr>tstate := T_READY\<rparr> else u) ?k2)" for n b
    by (rule upd_step) (simp add: mild_def dead_def)
  have k': "k' = ?k2 \<or> (\<exists>n b. k' = upd_task (Slot n) (\<lambda>u. if b then u\<lparr>tstate := T_READY\<rparr> else u) ?k2 \<and> (b \<longrightarrow> tstate (tasks ?k2 n) = T_BLOCKED))"
    using x unfolding exit_section_def Let_def by (simp add: upd_task_def split: if_splits) blast
  have z: "tstate (tasks ?k2 j) = T_ZOMBIE" by (simp add: orphan_def)
  show "kstep\<^sup>*\<^sup>* k k' \<and> dead (tstate (tasks k' j))"
  proof (cases "k' = ?k2")
    case True
    then show ?thesis using 1 2 z by (auto simp: dead_def)
  next
    case False
    then obtain n b where n: "k' = upd_task (Slot n) (\<lambda>u. if b then u\<lparr>tstate := T_READY\<rparr> else u) ?k2" "b \<Longrightarrow> tstate (tasks ?k2 n) = T_BLOCKED"
      using k' by blast
    have "kstep\<^sup>*\<^sup>* k k'" unfolding n(1) using 1 2 3 by (meson converse_rtranclp_into_rtranclp r_into_rtranclp)
    moreover have "tstate (tasks k' j) = T_ZOMBIE" using n z by auto
    ultimately show ?thesis by (simp add: dead_def)
  qed
qed

lemma same_dead: "same k k' \<Longrightarrow> dead (tstate (tasks k j)) \<Longrightarrow> dead (tstate (tasks k' j))"
  using task_of_Slot unfolding same_def by metis

lemma exit_reap_steps: "steps (\<lambda>k. dead (tstate (tasks k j))) (exit_reap L me (Slot j))"
proof -
  have "steps (\<lambda>k. dead (tstate (tasks k j))) (modify (upd_task (Slot j) (\<lambda>u. u\<lparr>tcr3 := 0, tstate := T_FREE\<rparr>)))"
    by (auto simp: steps_def mild_def intro!: upd_step r_into_rtranclp)
  note last = this
  show ?thesis unfolding exit_reap_def
    by (rule steps_then [OF prim_regs(5)], erule same_dead, assumption, rule steps_then [OF prim_basic(4)], erule same_dead, assumption,
        rule steps_then [OF prim_mem_ops(1)], erule same_dead, assumption, rule last)
qed

lemma exit_steps [stepped]: "steps (call me j {}) (task64_exit L me status)"
proof -
  let ?P = "\<lambda>k. empty_tab j (fsys k)"
  have cl: "after (call me j {}) (on_files (fd_close_all (Some (tno (Slot j))))) ?P"
    unfolding after_def
  proof (intro allI impI)
    fix k r k' assume c: "call me j {} k" and e: "on_files (fd_close_all (Some (tno (Slot j)))) k = (r, k')"
    have k': "k' = k\<lparr>fsys := fd_close_all (Some j) (fsys k)\<rparr>" using e by (simp add: on_files_def tno_def)
    have "fd_ok j (fsys k) (fd_close_all (Some j) (fsys k))"
      using c fd_close_all_inv close_all_tab(2) unfolding fd_ok_def call_def by blast
    then show "kstep\<^sup>*\<^sup>* k k' \<and> empty_tab j (fsys k')" using fd_step(1) [OF c] close_all_tab(1) by (auto simp: k')
  qed
  have sm: "same k k' \<Longrightarrow> ?P k \<Longrightarrow> ?P k'" for k k' by (simp add: same_def empty_tab_def)
  have ex: "steps ?P (seq (exit_section (Slot j) status) (\<lambda>now. if now then exit_reap L me (Slot j) else ret ()))"
    by (rule steps_after [OF exit_section_after]) (simp add: exit_reap_steps steps_prim prims)
  have "steps (call me j {}) (seq (gets (\<lambda>k. cur_cpu k me)) g)" if "steps (call me j {}) (g (Some (Slot j)))" for g :: "tref option \<Rightarrow> (k64, unit) opn"
    using that unfolding steps_def by (metis call_cur(1) seq_simps(2))
  moreover have "steps (call me j {}) (seq (release_screen L me (Slot j)) (\<lambda>_.
       seq (on_files (fd_close_all (Some (tno (Slot j))))) (\<lambda>_.
       seq (gets (task_of (Slot j))) (\<lambda>u.
       seq (on_serial (s_printf (font L) (lit ''[K64] task %u (%s) exited status=%u\<newline>'')
              [PU64 (of_int (tid u)), PStr (Some (lit (tname u))), PU64 (of_int status)])) (\<lambda>_.
       seq (exit_section (Slot j) status) (\<lambda>now. if now then exit_reap L me (Slot j) else ret ()))))))"
    by (rule steps_then [OF prim_release], erule call_same, assumption, rule steps_after [OF cl],
        rule steps_then [OF prim_basic(4)], erule sm, assumption, rule steps_then [OF prim_serial], erule sm, assumption, rule ex)
  ultimately show ?thesis unfolding task64_exit_def by simp
qed

end
