(* ===== verification/Task_Samples.thy ===== *)
theory Task_Samples
  imports Fork Fd_Proofs
begin

text \<open>
  A machine after boot, on which the theorems about tasks are instantiated.
\<close>

section \<open>Examples\<close>

text \<open>The machine right after boot, over the sample memory and an empty volume.\<close>

definition sample_layout :: layout where
  "sample_layout = \<lparr>kstacks = 0x400000, idle_stacks = 0x500000, stack_top64 = 0x600000, pml4_boot = 0x105000, idle_main = 0x1000,
     fninit = (\<lambda>_ n. if n = 0 then 0x37F else 0), font = (\<lambda>_ _. 0), flag_spawn_clone = False, ap_stacks = 0x700000\<rparr>"

definition sample_task :: task64 where
  "sample_task = \<lparr>trsp = 0, kstack_top = 0, user_base = 0, tcr3 = 0, tid = 0, tstate = T_FREE, parent = 0, waiting_for = 0, wakeup_tick = 0,
     exit_code = 0, last_cpu = 0, heap_base = 0, heap_brk = 0, tname = [], fx = (\<lambda>_. 0)\<rparr>"

text \<open>Two processors are up.\<close>

definition sample_smp :: smp64 where
  "sample_smp = \<lparr>apic_ids = of_nat, ap_ready = (\<lambda>i. i < 2), ncpus = 2, test_ack = (\<lambda>_. 0), tlb_ack = (\<lambda>_. 0), spur_count = (\<lambda>_. 0),
     pending_va = (\<lambda>_. 0), ap_timer_go = (\<lambda>_. True), shoot_busy = (\<lambda>_. False)\<rparr>"

definition sample_boot :: k64 where
  "sample_boot = task64_init sample_layout 0
     \<lparr>tasks = (\<lambda>_. sample_task), idle_tasks = (\<lambda>_. sample_task), cur_cpu = (\<lambda>_. None), ticks = 0, kmem = (\<lambda>_. 0),
      cr3_of = (\<lambda>_. 0x100000), fpu_of = (\<lambda>_ _. 5), rsp0_of = (\<lambda>_. 0), mm = sample_space, dsk = cons_desk, fbs = sample_fb,
      fsys = sample_fds, execs = [], rnd = \<lparr>aslr_state = 3, exec_seq = 0\<rparr>, tx = [], kbd = kbd_reset, blobs = [], smp = sample_smp\<rparr>"

lemma init_slots: "tasks (task64_init L me k) i =
   (if i = 0 then (boot_task 0 (tasks k 0))\<lparr>tstate := T_RUNNING, kstack_top := stack_top64 L, tcr3 := pml4_boot L, parent := -1,
        last_cpu := 0, tname := ''idle'', fx := fninit L (fpu_of k me)\<rparr>
    else if i < NTASK then boot_task i (tasks k i) else tasks k i)"
  "cur_cpu (task64_init L me k) = (\<lambda>_. None)(0 := Some (Slot 0))"
  by (simp_all add: task64_init_def Let_def idle_setups fx_init_def NTASK_def)

lemma idle_setup_rest: "ticks (idle_setup L me i k) = ticks k" "mm (idle_setup L me i k) = mm k" "cr3_of (idle_setup L me i k) = cr3_of k"
  by (simp_all add: idle_setup_def Let_def build_frame_def fx_init_def)

lemma idle_setups_rest: "ticks (fold (idle_setup L me) cs k) = ticks k \<and> mm (fold (idle_setup L me) cs k) = mm k \<and>
    cr3_of (fold (idle_setup L me) cs k) = cr3_of k"
  by (induction cs arbitrary: k) (simp_all add: idle_setup_rest)

lemma boot_facts: "sched_inv sample_boot" "cur_cpu sample_boot = (\<lambda>_. None)(0 := Some (Slot 0))" "ticks sample_boot = 0"
  "mm sample_boot = sample_space" "cr3_of sample_boot = (\<lambda>_. 0x100000)"
  "tstate (tasks sample_boot i) = (if i = 0 then T_RUNNING else T_FREE)" "wakeup_tick (tasks sample_boot i) = 0"
  "last_cpu (tasks sample_boot 0) = 0" "kstack_top (tasks sample_boot 0) = 0x600000" "tcr3 (tasks sample_boot 0) = 0x105000"
  by (simp_all add: sample_boot_def task64_init_inv init_slots boot_task_def sample_task_def sample_layout_def)
    (simp_all add: task64_init_def Let_def idle_setups_rest fx_init_def)

lemma boot_ours: "ours 1 sample_boot = None" "ours 0 sample_boot = Some (Slot 0)"
  by (simp_all add: ours_def boot_facts)

lemma boot_chosen: "chosen 1 None sample_boot nx \<Longrightarrow> nx = Idle 1"
  by (cases nx) (auto simp: chosen_def eligible_def boot_facts split: if_splits)


theorem schedule_round_robin_witness: "cur_cpu (snd (task64_schedule 1 False 7 sample_boot)) 1 = Some (Idle 1)"
proof -
  obtain res k' where s: "task64_schedule 1 False 7 sample_boot = (res, k')" by fastforce
  have pl: "placed sample_boot" using boot_facts(1) by (simp add: sched_inv_def)
  obtain nx where "chosen 1 None sample_boot nx" "cur_cpu k' = (cur_cpu sample_boot)(1 := Some nx)"
    using schedule_round_robin [OF pl boot_ours(1) s] by blast
  moreover have "nx = Idle 1" using calculation(1) by (rule boot_chosen)
  ultimately show ?thesis using s by simp
qed

text \<open>Slot 3 is made ready.\<close>

definition sample_ready :: k64 where
  "sample_ready = upd_task (Slot 3) (\<lambda>u. u\<lparr>tstate := T_READY\<rparr>) sample_boot"


theorem sleep_loses_fpu_witness:
  "fx (tasks (snd (task64_sleep 0 False 5 7 sample_boot)) 0) = fx (tasks sample_boot 0)"
proof -
  obtain res k' where s: "task64_sleep 0 False 5 7 sample_boot = (res, k')" by fastforce
  have "fst (sleep_section (Slot 0) 5 7 sample_boot) = Val False" by (simp add: sleep_section_def Let_def boot_facts)
  moreover have "cur_cpu sample_boot 0 = Some (Slot 0)" "(5::u64) \<noteq> 0" by (simp_all add: boot_facts)
  ultimately have "\<forall>u. fx (task_of u k') = fx (task_of u sample_boot)"
    using sleep_loses_fpu [OF boot_facts(1) _ _ _ s] by blast
  then have "fx (task_of (Slot 0) k') = fx (task_of (Slot 0) sample_boot)" by blast
  then show ?thesis by (simp add: s)
qed

text \<open>CPU 1 runs slot 3 and CPU 0 is idle.\<close>

definition sample_duo :: k64 where
  "sample_duo = sample_boot\<lparr>tasks := (tasks sample_boot)(0 := (tasks sample_boot 0)\<lparr>tstate := T_ZOMBIE\<rparr>,
       3 := (tasks sample_boot 3)\<lparr>tstate := T_RUNNING, last_cpu := 1\<rparr>),
     idle_tasks := (idle_tasks sample_boot)(0 := (idle_tasks sample_boot 0)\<lparr>tstate := T_RUNNING, last_cpu := 0\<rparr>),
     cur_cpu := (\<lambda>_. None)(0 := Some (Idle 0), 1 := Some (Slot 3))\<rparr>"

lemma duo_inv: "sched_inv sample_duo"
proof -
  have n: "named sample_boot" "placed sample_boot" using boot_facts(1) by (simp_all add: sched_inv_def)
  have "tstate (idle_tasks sample_boot c) \<noteq> T_RUNNING" if c: "c < NCPU_MAX" for c
  proof
    assume "tstate (idle_tasks sample_boot c) = T_RUNNING"
    then obtain d where "cur_cpu sample_boot d = Some (Idle c)"
      using placed_ours [OF n(2), of "Idle c"] c by (auto simp: valid_def task_of_def ours_iff)
    then show False by (simp add: boot_facts split: if_splits)
  qed
  then have "placed sample_duo"
    unfolding placed_def by (auto simp: sample_duo_def valid_def task_of_def boot_facts NTASK_def split: tref.splits if_splits)
  moreover have "named sample_duo" using n(1) by (auto simp: named_def sample_duo_def)
  ultimately show ?thesis by (simp add: sched_inv_def)
qed

theorem sleep_wake_race_witness:
  "\<exists>k1 k2. sleep_section (Slot 3) 1 0x500 sample_duo = (Val False, k1) \<and> task64_on_tick sample_layout 0 False 0x600 k1 = (Val 0x500, k2) \<and>
    cur_cpu k2 0 = Some (Slot 3) \<and> cur_cpu k2 1 = Some (Slot 3) \<and> kmem k2 (reg_at 0x500 R_RIP) = kmem sample_duo (reg_at 0x500 R_RIP)"
  by (rule sleep_wake_race [OF duo_inv]) (auto simp: ours_def sample_duo_def NTASK_def boot_facts task_of_def)


text \<open>Slot 1 waits for its child, slot 2.\<close>

definition sample_wait :: k64 where
  "sample_wait = upd_task (Slot 1) (\<lambda>u. u\<lparr>tstate := T_BLOCKED, waiting_for := -1\<rparr>)
     (upd_task (Slot 2) (\<lambda>u. u\<lparr>tstate := T_READY, parent := 1\<rparr>) sample_boot)"


text \<open>Cloning an empty space takes one frame.\<close>

lemma clone_entries_empty:
  "(\<And>i. phys s src i = 0) \<Longrightarrow> fold (clone_entry l rec cow src nf) xs (True, s) = (True, s)"
  by (induction xs) (simp_all add: clone_entry_def)

lemma clone_empty:
  assumes z: "\<And>i. phys s src i = 0" and f: "free_set s = {a..<b}" "a < b" "0 < a" "a < PMM_MAX_FRAMES"
    and l: "\<not> mem_locked s" and n: "0 < unat (pmm_free_frames s)" and ne: "src \<noteq> of_nat a * 4096"
  shows "\<exists>s'. vmm_clone_space src s = Some (of_nat a * 4096, s')"
proof -
  let ?s = "s\<lparr>mem_locked := True\<rparr>"
  have fs: "free_set ?s = {a..<b}" using f(1) free_set_cong [of ?s s] by simp
  have nz: "(of_nat a * 4096 :: u64) \<noteq> 0" using frame_addr_eq_0_iff [OF f(4)] f(3) by simp
  have al: "pmm_alloc_inner ?s = (of_nat a * 4096, take_frame a ?s)" by (rule alloc_interval [OF fs f(2)])
  have "phys (take_frame a ?s) src i = 0" for i using z by (simp add: take_frame_def)
  note fold = clone_entries_empty [OF this, of "Suc 2" "clone_level 2 True" True "of_nat a * 4096" "[0..<512]"]
  have "clone_table (Suc 2) (clone_level 2 True) True src ?s = (of_nat a * 4096, take_frame a ?s)"
    unfolding clone_table_def Let_def al prod.case fold using nz by simp
  then have lv: "clone_level 3 True src ?s = (of_nat a * 4096, take_frame a ?s)"
    by (metis clone_level.simps(2) numeral_3_eq_3 numeral_2_eq_2)
  have "count_clone (Suc 2) ?s src = 0" unfolding count_clone.simps Let_def using z by (simp del: upt_rec_numeral)
  then have "count_clone 3 ?s src = 0" by (metis numeral_3_eq_3 numeral_2_eq_2)
  moreover have "filter (\<lambda>i. phys ?s src i AND PTE_P \<noteq> 0) [0..<512] = []" using z by (simp del: upt_rec_numeral)
  moreover have "pmm_free_frames ?s = pmm_free_frames s" by (simp add: pmm_free_frames_def)
  ultimately have "clone_space_reserved src True ?s = clone_level 3 True src ?s"
    unfolding clone_space_reserved_def Let_def using n by simp
  then show ?thesis using l lv by (simp add: vmm_clone_space_def mem_lock_acquire_def)
qed

lemma boot_clone: "\<exists>k'. clone_of 0 0x105000 k = (Val 0x200000, k')" if "mm k = sample_space"
proof -
  let ?s = "sample_space\<lparr>live_cr3 := cr3_of k 0\<rparr>"
  have f: "free_set ?s = {512..<516}" using sample_space_fields free_set_cong [of ?s sample_space] by simp
  have "pmm_inv ?s" using pmm_inv_cong [of ?s sample_space] sample_space_fields by simp
  then have n: "0 < unat (pmm_free_frames ?s)" using f by (simp add: pmm_inv_def pmm_free_frames_def)
  have "\<exists>s'. vmm_clone_space 0x105000 ?s = Some (of_nat 512 * 4096, s')"
    by (rule clone_empty [OF _ f _ _ _ _ n]) (simp_all add: sample_facts PMM_MAX_FRAMES_def)
  then show ?thesis using that by (auto simp: clone_of_def on_mem_def)
qed

lemma boot_alloc: "\<exists>k'. alloc_slot sample_layout 0 name sample_boot = (Val (Some 1), k') \<and> mm k' = sample_space"
proof -
  have "scan (\<lambda>i. tstate (tasks sample_boot i) = T_FREE) 1 NTASK = Some 1" by (rule scan_hit) (simp_all add: NTASK_def boot_facts)
  then show ?thesis unfolding alloc_slot_def by (simp add: fx_init_def Let_def boot_facts)
qed

lemma boot_fork: "\<exists>k'. task64_fork sample_layout 0 r sample_boot = (Val 1, k')"
proof -
  obtain k1 where a: "alloc_slot sample_layout 0 (tname (task_of (Slot 0) sample_boot)) sample_boot = (Val (Some 1), k1)" "mm k1 = sample_space"
    using boot_alloc by blast
  obtain k2 where c: "clone_of 0 0x105000 k1 = (Val 0x200000, k2)" using boot_clone [OF a(2)] by blast
  have t: "tcr3 (task_of (Slot 0) sample_boot) = 0x105000" "cur_cpu sample_boot 0 = Some (Slot 0)" by (simp_all add: boot_facts)
  show ?thesis
    unfolding task64_fork_def seq_simps t(2) option.case t(1)
    using a(1) c by (simp add: set_slot_def on_files_def task_publish_def)
qed

theorem fork_child_frame_witness:
  "\<exists>k'. task64_fork sample_layout 0 0x5FFF50 sample_boot = (Val 1, k') \<and> tstate (tasks k' 1) = T_READY \<and>
     kmem k' (reg_at (trsp (tasks k' 1)) R_RAX) = 0 \<and> kmem k' (reg_at (trsp (tasks k' 1)) R_RIP) = kmem sample_boot (reg_at 0x5FFF50 R_RIP)"
proof -
  obtain k' where f: "task64_fork sample_layout 0 0x5FFF50 sample_boot = (Val 1, k')" using boot_fork by blast
  have "tstate (tasks sample_boot 0) \<noteq> T_FREE" "kstack_top (tasks sample_boot 0) = 0x5FFF50 + of_nat (22 * 8)" "cur_cpu sample_boot 0 = Some (Slot 0)"
    by (simp_all add: boot_facts)
  note r = fork_child_frame [OF f this(3,1,2)]
  have "\<forall>n < 22. kmem k' (reg_at (trsp (tasks k' 1)) n) = (if n = R_RAX then 0 else kmem sample_boot (reg_at 0x5FFF50 n))"
    "tstate (tasks k' 1) = T_READY" using r by simp_all
  then show ?thesis using f by (intro exI [of _ k']) simp
qed

text \<open>The boot task with a heap of two pages at 0x6000 touches the first.\<close>

definition sample_heap :: k64 where
  "sample_heap = upd_task (Slot 0) (\<lambda>u. u\<lparr>heap_base := 0x6000, heap_brk := 0x7001\<rparr>) sample_boot"

theorem demand_heap_page_witness:
  "\<exists>k' pa. task64_demand 0 0x6123 sample_heap = (Val 0, k') \<and> phys (mm k') pa = (\<lambda>_. 0) \<and>
     walk (mm k') 3 0x100000 0x6000 = Some (0, leaf_entry pa (VMM_RW OR VMM_US OR VMM_NX))"
proof -
  let ?m = "(mm sample_heap)\<lparr>live_cr3 := cr3_of sample_heap 0, mem_locked := True, vmm_root := cr3_of sample_heap 0 AND NOT 0xFFF\<rparr>"
  have h: "mm sample_heap = sample_space" "cr3_of sample_heap = (\<lambda>_. 0x100000)" "cur_cpu sample_heap 0 = Some (Slot 0)"
    by (simp_all add: sample_heap_def boot_facts)
  have m: "?m = sample_space\<lparr>live_cr3 := 0x100000, mem_locked := True, vmm_root := 0x100000\<rparr>" by (simp add: h)
  have f: "free_set ?m = {512..<516}" using sample_space_fields(6) free_set_cong [of ?m sample_space] by (simp add: h)
  have al: "pmm_alloc_inner ?m = (0x200000, take_frame 512 ?m)" using alloc_interval(1) [OF f] by simp
  have "fst (vmm_map_page_inner 0x6000 0x200000 (VMM_RW OR VMM_US OR VMM_NX) (take_frame 512 ?m)) = 0"
    unfolding m by (simp add: vmm_map_page_inner_def next_tab_def Let_def sample_facts take_frame_def VMM_RW_def VMM_US_def VMM_NX_def)
  then obtain m' where d: "demand_map 0x6000 ?m = (Some (0x200000, 0), m')"
    unfolding demand_map_def al Let_def by (cases "vmm_map_page_inner 0x6000 0x200000 (VMM_RW OR VMM_US OR VMM_NX) (take_frame 512 ?m)")
      (auto simp: h sample_space_fields)
  obtain rc k' where r: "task64_demand 0 0x6123 sample_heap = (rc, k')" by fastforce
  have l: "\<not> mem_locked (mm sample_heap)" "pmm_inv (mm sample_heap)" "pt_tree (mm sample_heap) 0x100000" "0x100000 = cr3_of sample_heap 0 AND NOT 0xFFF"
    "(0x6123 :: u64) AND NOT 0xFFF = 0x6000" "nx_on (mm sample_heap)"
    using sample_tree by (simp_all add: h sample_space_fields)
  have b: "heap_base (task_of (Slot 0) sample_heap) = 0x6000" "page_up (heap_brk (task_of (Slot 0) sample_heap)) = 0x8000"
    by (simp_all add: sample_heap_def page_up_def)
  have "fst (task64_demand 0 0x6123 sample_heap) = Val 0"
    by (rule demand_run(1) [OF h(3) l(1), where pa = "0x200000" and m = m']) (unfold b l(5), use d in simp_all)
  then have r: "task64_demand 0 0x6123 sample_heap = (Val 0, k')" using r by simp
  from demand_heap_page [OF h(3) l(1-4) r l(5) [symmetric]] obtain pa where "phys (mm k') pa = (\<lambda>_. 0)"
    "\<forall>va'. walk (mm k') 3 0x100000 va' = (if page_key va' = page_key 0x6000
           then Some (0, leaf_entry pa (VMM_RW OR VMM_US OR VMM_NX)) else walk (mm sample_heap) 3 0x100000 va')" using l(6) by force
  then show ?thesis using r by (intro exI [of _ k'] exI [of _ pa]) simp
qed

end
