(* ===== verification/Kernel_Inv.thy ===== *)
theory Kernel_Inv
  imports Kernel_Runs Task_Samples
begin

text \<open>
  The whole kernel: every system call and every interrupt is a sequence of elementary changes, so each one that
  returns keeps the invariant of the whole state.
\<close>

section \<open>System calls\<close>

lemma prim_store_recs [prims]: "prim (store_recs me va stride xs)"
  by (induction xs arbitrary: va) (simp_all add: prims)

lemma prim_spawn_args [prims]: "prim (spawn_args me c n)"
  by (induction n arbitrary: c) (simp_all, (intro prims | assumption)+)

lemma prim_getchar [prims]: "prim sys_getchar"
  by (rule primI) (auto simp: sys_getchar_def same_def task_of_def split: option.splits prod.splits tref.splits intro!: regs_step r_into_rtranclp)

lemma prim_calls [prims]:
  "prim (sys_print L me a b)" "prim (sys_meminfo me a)" "prim (sys_ps me a b)" "prim (sys_fb_info me a)" "prim (sys_win_create me a b c)"
  "prim (sys_win_text L me a b c d e f g)" "prim (sys_win_getevent me a b c)" "prim (sys_win_list me a b)"
  "prim (sys_win_blit me a b c d e f)" "prim (sys_blobread me a b c)"
  unfolding sys_print_def sys_meminfo_def sys_ps_def task64_ps_def sys_fb_info_def sys_win_create_def sys_win_text_def sys_win_getevent_def
    sys_win_list_def sys_win_blit_def sys_blobread_def
  by (intro prims prim_desk desk_wins prim_wins win_inv_getevent; assumption?)+

lemma runs_readdir: "runs me j {} (readdir_fill me ino b n left) {}"
proof (induction left arbitrary: n)
  case 0
  show ?case by (simp, intro ran runs_fs fd_runs runs_prim prims subset_refl)
next
  case (Suc left)
  show ?case by (simp, intro ran runs_fs fd_runs runs_prim [OF prim_mem_ops(2)] runs_prim [OF prim_basic(1)] subset_refl Suc)
qed

lemma runs_file_calls [ran]:
  "runs me j {} (sys_readdir me a b c) {}" "runs me j {} (sys_open me a b) {}" "runs me j {} (sys_read me a b c) {}"
  "runs me j {} (sys_write me a b c) {}" "runs me j {} (sys_spawn L me a b c) {}"
  unfolding sys_readdir_def sys_open_def sys_read_def sys_write_def sys_spawn_def
  by (intro runs_special ran; intro runs_special ran runs_readdir runs_fs fd_runs runs_prim prims subset_refl; assumption?)+

lemma runs_value: "runs me j {} (syscall_value L me r n a b c d e f g) {}"
  unfolding syscall_value_def
  by (intro runs_if runs_special runs_file_calls runs_new runs_sys_ret; intro ran runs_fs fd_runs runs_prim prims prim_desk prim_wins desk_wins desk_present
      win_inv_focus_set subset_refl; (simp add: desk_present)?)

lemma steps_if: "(b \<Longrightarrow> steps Q m) \<Longrightarrow> (\<not> b \<Longrightarrow> steps Q n) \<Longrightarrow> steps Q (if b then m else n)"
  by simp

lemma steps_gets: "(\<And>a. steps Q (f a)) \<Longrightarrow> steps Q (seq (gets g) f)"
  by (simp add: steps_def)

lemma anyhow_calls [stepped]: "anyhow (task64_sleep me shoot d r)" "anyhow (task64_waitpid L me shoot pid p w r)"
  "anyhow (task64_on_tick L me shoot r)" "anyhow (task64_ap_tick me shoot r)"
  unfolding task64_sleep_def task64_waitpid_def task64_on_tick_def task64_ap_tick_def
  by (intro stepped; (intro steps_prim prims)?)+

lemma exit_then: "steps (call me j {}) (seq (task64_exit L me st) (\<lambda>_. task64_schedule me shoot r))"
  by (rule steps_after [OF after_top [OF exit_steps]]) (rule stepped)

lemma syscall_steps: "steps (call me j {}) (syscall64_dispatch L me shoot r)"
proof -
  have v: "steps (call me j {}) (seq (syscall_value L me r n a b c d e f g) (rax_ret r))" for n a b c d e f g
    by (rule steps_after [OF after_runs [OF runs_value]]) (intro steps_prim prims)
  have y: "steps (call me j {}) (seq (set_reg r R_RAX 0) (\<lambda>_. task64_schedule me shoot r))"
    by (rule steps_weaken) (intro stepped steps_prim prims)
  show ?thesis
    unfolding syscall64_dispatch_def Let_def
    by (intro steps_gets steps_if v y exit_then steps_weaken [OF anyhow_calls(1)] steps_weaken [OF anyhow_calls(2)] steps_prim prims)
qed

section \<open>Interrupts\<close>

lemma irq_keyboard_prim: "prim (modify (irq_keyboard h))"
proof (rule prim_modify)
  fix k :: k64
  obtain c b where t: "kbd_translate (port60 h) (kbd k) = (c, b)" by fastforce
  obtain tk s where w: "win_route_key (of_int c) (wsys (dsk k)) = (tk, s)" by fastforce
  have inv: "desk_inv (dsk k) \<Longrightarrow> desk_inv ((dsk k)\<lparr>wsys := s\<rparr>)"
    using win_inv_route_key [of "wsys (dsk k)" "of_int c"] w by (simp add: desk_inv_def)
  let ?k1 = "k\<lparr>kbd := b\<rparr>" and ?k2 = "k\<lparr>kbd := b, dsk := (dsk k)\<lparr>wsys := s\<rparr>\<rparr>"
  let ?k3 = "?k2\<lparr>kbd := kbd_push_raw (of_int c) b\<rparr>"
  have "kstep k ?k1" "kstep ?k2 ?k3" by (rule regs_step)+
  moreover have "kstep ?k1 ?k2" using desk_step(1) [of ?k1] inv by simp
  ultimately have "kstep\<^sup>*\<^sup>* k ?k1" "kstep\<^sup>*\<^sup>* k ?k2" "kstep\<^sup>*\<^sup>* k ?k3"
    by (auto intro: rtranclp.rtrancl_into_rtrancl)
  then show "kstep\<^sup>*\<^sup>* k (irq_keyboard h k) \<and> same k (irq_keyboard h k)"
    by (simp add: irq_keyboard_def t w Let_def same_def task_of_def split: tref.splits)
qed

lemma cons_inv_moved: "cons_inv c \<Longrightarrow> cons_inv (cons_cursor_moved ox oy nx ny c)"
  by (simp add: cons_inv_def grid_ok_def cursor_ok_def cons_cursor_moved_def cursor_band_def cons_mark_dirty_def Let_def)

lemma desk_mouse: "desk_inv d \<Longrightarrow> mouse_push b d = (moved, d') \<Longrightarrow> desk_inv d'"
  using mouse_push_ok [of d b moved d']
  by (auto simp: desk_inv_def mouse_push_def Let_def win_inv_route_mouse cons_inv_moved split: if_splits)

lemma irq_mouse_prim: "prim (modify (irq_mouse L h))"
proof (rule prim_modify)
  fix k :: k64
  obtain mv d where m: "mouse_push (port60 h) (dsk k) = (mv, d)" by fastforce
  have "desk_inv (dsk k) \<Longrightarrow> desk_inv (if mv then cons_present (font L) d else d)"
    using desk_mouse [OF _ m] by (simp add: desk_present)
  then have "kstep k (k\<lparr>dsk := (if mv then cons_present (font L) d else d)\<rparr>)" by (rule desk_step)
  then show "kstep\<^sup>*\<^sup>* k (irq_mouse L h k) \<and> same k (irq_mouse L h k)"
    by (auto simp: irq_mouse_def m same_def task_of_def split: tref.splits)
qed

lemma prim_smp: "prim (modify (on_smp f))"
  by (rule prim_modify) (auto simp: on_smp_def same_def task_of_def intro: regs_step split: tref.splits)

lemma prim_dump [prims]: "prim (modify (park L me))" "prim (modify (raw_log ws))"
proof -
  have "kstep k (raw_log ws k)" for k
    using desk_step(2) [of k "dsk k" "fold (\<lambda>w. w) ws (tx k)"] by (simp add: raw_log_def)
  then show "prim (modify (raw_log ws))"
    by (intro prim_modify) (auto simp: raw_log_def same_def task_of_def split: tref.splits)
  show "prim (modify (park L me))"
    by (rule prim_modify) (auto simp: park_def same_def task_of_def intro: regs_step split: tref.splits)
qed

lemma fatal_prim: "prim (fatal_pf L me va reg)" "prim (fatal_exc L me reg)"
  unfolding fatal_pf_def fatal_exc_def by (intro prims)+

lemma kill_steps: "steps (call me j {}) (task64_kill_fault L me shoot r kind)"
  unfolding task64_kill_fault_def
  by (intro steps_gets steps_then [OF prim_serial] exit_then; erule call_same, assumption)

lemma page_fault_steps:
  assumes "reg R_CS = 0x1B \<Longrightarrow> Q = call me j {}" and Q: "\<And>k k'. same k k' \<Longrightarrow> Q k \<Longrightarrow> Q k'"
  shows "steps Q (page_fault L me shoot va reg r)"
proof -
  have k: "steps Q (case (if reg R_CS = 0x1B then p else None) of None \<Rightarrow> fatal_pf L me va reg
             | Some fl \<Rightarrow> if b fl then task64_kill_fault L me shoot r a else if c fl then task64_kill_fault L me shoot r d else fatal_pf L me va reg)"
    for p :: "u64 option" and b c a d
    using assms(1) kill_steps by (auto simp: steps_prim fatal_prim split: option.splits)
  have g: "steps Q (seq (gets f) h)" if "\<And>k. steps Q (h (f k))" for f :: "k64 \<Rightarrow> 'x" and h :: "'x \<Rightarrow> (k64, u64) opn"
    using that by (auto simp: steps_def)
  show ?thesis
    unfolding page_fault_def Let_def
    by (intro steps_then [OF _ Q] steps_if g; (rule k | intro steps_prim prims calmed | assumption)?)
qed

lemma steps_read: "(\<And>a. steps (\<lambda>x. Q x \<and> f x = a) (h a)) \<Longrightarrow> steps Q (seq (gets f) h)"
  by (simp add: steps_def)

lemma steps_mono: "steps R m \<Longrightarrow> (\<And>x. Q x \<Longrightarrow> R x) \<Longrightarrow> steps Q m"
  by (simp add: steps_def)

text \<open>Only a system call and a fault of user code speak for the running task of the CPU.\<close>

definition on_behalf :: "u64 \<Rightarrow> k64 \<Rightarrow> bool" where
  "on_behalf r k \<longleftrightarrow> kmem k (reg_at r R_VEC) = 128 \<or> (kmem k (reg_at r R_VEC) = 14 \<and> kmem k (reg_at r R_CS) = 0x1B)"

lemma isr_steps: "steps (\<lambda>k. on_behalf r k \<longrightarrow> call me j {} k) (isr64_handler L me h r)"
proof -
  let ?Q = "\<lambda>reg b x. ((on_behalf r x \<longrightarrow> call me j {} x) \<and> (\<lambda>n. kmem x (reg_at r n)) = reg) \<and> smp_in_shootdown (lapic_id h) (smp x) = b"
  have q: "tidy (\<lambda>s. s_puts ft [10] (s_hex64 ft x (s_puts ft t s)))" "tidy (\<lambda>s. s_puts ft [10] (s_dec64 ft x (s_puts ft t s)))" for ft x t
    by (rule tidy_app [OF tidy_prints(1) tidy_app [OF _ tidy_prints(1)]], rule tidy_prints)+
  have same: "same x x' \<Longrightarrow> call me j {} x \<Longrightarrow> call me j {} x'" for x x' by (rule call_same)
  have s: "steps (?Q reg b) (syscall64_dispatch L me b r)" if "reg R_VEC = 128" for reg b
    by (rule steps_mono [OF syscall_steps]) (use that in \<open>auto simp: on_behalf_def\<close>)
  have p: "steps (?Q reg b) (page_fault L me b va reg r)" if "reg R_VEC = 14" for reg b va
  proof (cases "reg R_CS = 0x1B")
    case True
    have "steps (call me j {}) (page_fault L me b va reg r)" by (rule page_fault_steps) (auto intro: same)
    then show ?thesis by (rule steps_mono) (use True that in \<open>auto simp: on_behalf_def\<close>)
  next
    case False
    then have "anyhow (page_fault L me b va reg r)" by (intro page_fault_steps) auto
    then show ?thesis by (rule steps_weaken)
  qed
  show ?thesis
    unfolding isr64_handler_def Let_def
    by (intro steps_read steps_if; (erule s | erule p | intro steps_weaken [OF anyhow_calls(3)] steps_weaken [OF anyhow_calls(4)]
        | intro steps_prim prims prim_say q irq_keyboard_prim irq_mouse_prim prim_smp fatal_prim))
qed

section \<open>Every interrupt keeps the invariant\<close>

lemma ours_call: "kernel_inv k \<Longrightarrow> ours me k = Some (Slot j) \<Longrightarrow> call me j {} k"
  by (fastforce simp: kernel_inv_def sched_inv_def placed_def call_def ours_iff)

lemma interrupt_inv:
  assumes "kernel_inv k" and "on_behalf r k \<longrightarrow> ours me k = Some (Slot j)"
    and "isr64_handler L me h r k = (res, k')" and "res \<noteq> Trap"
  shows "kernel_inv k'"
proof -
  have "on_behalf r k \<longrightarrow> call me j {} k" using assms(1,2) ours_call by blast
  then have "kstep\<^sup>*\<^sup>* k k'" using isr_steps [of r me j L h] assms(3,4) unfolding steps_def by blast
  then show ?thesis using assms(1) by (rule ksteps_inv)
qed

text \<open>The states the machine goes through: handler after handler, on any CPU and for any hardware input, as
  long as no CPU has halted.\<close>

inductive irq_run :: "layout \<Rightarrow> k64 \<Rightarrow> k64 \<Rightarrow> bool" for L where
  start: "irq_run L k k"
| handle: "irq_run L k0 k \<Longrightarrow> on_behalf r k \<longrightarrow> ours me k = Some (Slot j) \<Longrightarrow>
    isr64_handler L me h r k = (res, k') \<Longrightarrow> res \<noteq> Trap \<Longrightarrow> irq_run L k0 k'"

lemma irq_run_inv: "irq_run L k k' \<Longrightarrow> kernel_inv k \<Longrightarrow> kernel_inv k'"
  by (induction rule: irq_run.induct) (auto intro: interrupt_inv)

text \<open>C2.  The kernel's invariant survives every sequence of interrupts, exceptions and system calls, on any
  CPUs and with any register contents and hardware input: every running task is on exactly the CPU it
  believes to be on, every open file is counted exactly as often as descriptors refer to it and dead tasks
  hold none, windows, console and mouse are well formed, and the frame allocator's free count is exact with
  its lock released.\<close>

theorem interrupts_keep_kernel_inv:
  assumes "irq_run L k k'" and "kernel_inv k"
  shows "kernel_inv k'"
  using assms by (rule irq_run_inv)

section \<open>Witnesses\<close>

text \<open>The booted machine over an empty volume, in the system call \<^verbatim>\<open>SYS64_PID\<close>.\<close>

definition sample_kernel :: k64 where
  "sample_kernel = sample_boot\<lparr>fsys := fd_init sample_file, kmem := (\<lambda>a. if a = reg_at 0x5FFF50 R_VEC then 128 else ucast SYS64_PID)\<rparr>"

lemma init_dsk: "dsk (task64_init L me k) = dsk k"
proof -
  have "dsk (fold (idle_setup L me) cs k) = dsk k" for cs k
    by (induction cs arbitrary: k) (simp_all add: idle_setup_def Let_def build_frame_def fx_init_def)
  then show ?thesis by (simp add: task64_init_def Let_def fx_init_def)
qed

lemma sample_kernel_inv: "kernel_inv sample_kernel"
proof -
  have "tasks sample_kernel = tasks sample_boot" "idle_tasks sample_kernel = idle_tasks sample_boot" "cur_cpu sample_kernel = cur_cpu sample_boot"
    by (simp_all add: sample_kernel_def)
  then have "sched_inv sample_kernel" using sched_inv_same boot_facts(1) by blast
  moreover have "files_inv sample_kernel" by (simp add: files_inv_def sample_kernel_def fd_init_inv) (simp add: empty_tab_def fd_init_def)
  moreover have "dsk sample_kernel = cons_desk" by (simp add: sample_kernel_def sample_boot_def init_dsk)
  then have "desk_inv (dsk sample_kernel)"
    using sample_cons_inv(1) by (simp add: desk_inv_def) (simp add: cons_desk_def boot_desk_def win_inv_boot mouse_ok_def zero_mouse_def)
  moreover have "mem_inv (mm sample_kernel)"
    using sample_space_fields(4,5) by (simp add: sample_kernel_def boot_facts mem_inv_def pmm_exact_def pmm_inv_def)
  ultimately show ?thesis by (simp add: kernel_inv_def)
qed

theorem interrupts_keep_kernel_inv_witness:
  "\<exists>k'. isr64_handler sample_layout 0 \<lparr>port64 = 0, port60 = 0, cr2 = 0, lapic_id = 0\<rparr> 0x5FFF50 sample_kernel = (Val 0x5FFF50, k') \<and> kernel_inv k'"
proof -
  let ?h = "\<lparr>port64 = 0, port60 = 0, cr2 = 0, lapic_id = 0\<rparr>"
  have v: "kmem sample_kernel (reg_at 0x5FFF50 R_VEC) = 128" by (simp add: sample_kernel_def)
  have rax: "kmem sample_kernel (reg_at 0x5FFF50 R_RAX) = ucast SYS64_PID" by (simp add: sample_kernel_def reg_at_def)
  have o: "ours 0 sample_kernel = Some (Slot 0)" by (simp add: ours_def sample_kernel_def boot_facts)
  have "\<exists>k'. isr64_handler sample_layout 0 ?h 0x5FFF50 sample_kernel = (Val 0x5FFF50, k')"
    by (simp add: isr64_handler_def v rax syscall64_dispatch_def syscall_value_def Let_def sysno rax_ret_def set_reg_def VEC_AP_TIMER_def)
  then obtain k' where e: "isr64_handler sample_layout 0 ?h 0x5FFF50 sample_kernel = (Val 0x5FFF50, k')" by blast
  have "irq_run sample_layout sample_kernel k'" by (rule irq_run.handle [OF irq_run.start _ e]) (use o in auto)
  then have "kernel_inv k'" using sample_kernel_inv by (rule interrupts_keep_kernel_inv)
  then show ?thesis using e by blast
qed

end
