(* ===== verification/Boot.thy ===== *)
theory Boot
  imports Frames
begin

text \<open>
  Taking over the machine's memory: the Multiboot information walk and \<^verbatim>\<open>mem64_init\<close> of
  \<^verbatim>\<open>src/k64/mem64.c\<close>.  What the boot loader and the linker leave is the record \<open>boot_in\<close>: the bytes
  of physical memory that hold the information structure, the end of the kernel image, the addresses of the
  boot page tables and the EFER register.  A loop that need not end is a \<open>partial_function\<close>, so that running
  forever is \<open>None\<close>; a halted machine is a \<open>Trap\<close>.
\<close>

record boot_in =
  mb_bytes :: "u64 \<Rightarrow> u8"
  kernel_end :: u64
  pml4_addr :: u64
  pdpt_low :: u64
  pd_low :: u64
  efer :: u64

type_synonym boot_st = "mem64 \<times> ser"

definition PAGE2M :: u64 where "PAGE2M = 512 * 4096"
definition RESERVE_TOP :: u64 where "RESERVE_TOP = 2 * 1024 * 1024"
definition GB4 :: u64 where "GB4 = 4 * 1024 * 1024 * 1024"

definition ld32 :: "(u64 \<Rightarrow> u8) \<Rightarrow> u64 \<Rightarrow> u32" where
  "ld32 b a = ucast (b a) OR push_bit 8 (ucast (b (a + 1))) OR push_bit 16 (ucast (b (a + 2))) OR push_bit 24 (ucast (b (a + 3)))"

definition ld64 :: "(u64 \<Rightarrow> u8) \<Rightarrow> u64 \<Rightarrow> u64" where
  "ld64 b a = ucast (ld32 b a) OR push_bit 32 (ucast (ld32 b (a + 4)))"

section \<open>The Multiboot information\<close>

text \<open>The tags before the end tag, as address, type and size; the walk stops at a tag that does not fit.\<close>

partial_function (option) mb_tags :: "(u64 \<Rightarrow> u8) \<Rightarrow> u64 \<Rightarrow> u64 \<Rightarrow> (u64 \<times> u32 \<times> u32) list option" where
  "mb_tags b en p =
     (if p + 8 \<le> en then
        let ty = ld32 b p; size = ld32 b (p + 4)
        in if size < 8 \<or> p + ucast size > en then Some []
           else if ty = 0 then Some []
           else Option.bind (mb_tags b en (p + (ucast (size + 7) AND NOT 7))) (\<lambda>ts. Some ((p, ty, size) # ts))
      else Some [])"

text \<open>The addresses of the entries of a memory map.\<close>

partial_function (option) mb_entries :: "u64 \<Rightarrow> u64 \<Rightarrow> u64 \<Rightarrow> u64 list option" where
  "mb_entries lim es e =
     (if e + es \<le> lim then Option.bind (mb_entries lim es (e + es)) (\<lambda>xs. Some (e # xs)) else Some [])"

section \<open>Pass 1: usable ranges and the framebuffer\<close>

definition memmap_entry :: "(u64 \<Rightarrow> u8) \<Rightarrow> u64 \<Rightarrow> mem64 \<times> (u64 \<times> u64) list \<Rightarrow> mem64 \<times> (u64 \<times> u64) list" where
  "memmap_entry b e x =
     (let (s, ranges) = x; base = ld64 b e; len = ld64 b (e + 8); et = ld32 b (e + 16)
      in if et \<noteq> 1 \<or> len = 0 then x
         else
           let s = (if base + len > mem_top s then s\<lparr>mem_top := base + len\<rparr> else s)
           in if base \<ge> GB4 then (s, ranges)
              else
                let len = (if base + len > GB4 \<or> base + len < base then GB4 - base else len)
                in if length ranges < 32 then (s, ranges @ [(base, len)]) else (s, ranges))"

definition boot_tag :: "(u64 \<Rightarrow> u8) \<Rightarrow> u64 \<times> u32 \<times> u32 \<Rightarrow> mem64 \<times> (u64 \<times> u64) list \<Rightarrow> (mem64 \<times> (u64 \<times> u64) list) option" where
  "boot_tag b t x =
     (let (p, ty, size) = t; (s, ranges) = x
      in if ty = 6 \<and> length ranges < 32 then
           Option.bind (mb_entries (p + ucast size) (ucast (ld32 b (p + 8))) (p + 16)) (\<lambda>es. Some (fold (memmap_entry b) es x))
         else if ty = 8 then
           Some (s\<lparr>g_fb := ld64 b (p + 8), g_fbsize := ucast (ld32 b (p + 16)) * ucast (ld32 b (p + 24))\<rparr>, ranges)
         else Some x)"

definition scan_tags :: "(u64 \<Rightarrow> u8) \<Rightarrow> u64 \<Rightarrow> mem64 \<Rightarrow> (mem64 \<times> (u64 \<times> u64) list) option" where
  "scan_tags b mb_info s =
     Option.bind (mb_tags b (mb_info + ucast (ld32 b mb_info)) (mb_info + 8)) (\<lambda>ts.
     fold (\<lambda>t x. Option.bind x (boot_tag b t)) ts (Some (s, [])))"

section \<open>Pass 2: the bitmap\<close>

definition reserve_top :: "boot_in \<Rightarrow> u64" where
  "reserve_top B = (let img_top = (kernel_end B + PAGE4K - 1) AND NOT (PAGE4K - 1) in if img_top > RESERVE_TOP then img_top else RESERVE_TOP)"

definition free_range :: "u64 \<Rightarrow> u64 \<times> u64 \<Rightarrow> mem64 \<Rightarrow> mem64" where
  "free_range rt r s =
     (let (base, len) = r;
          first = (base + PAGE4K - 1) div PAGE4K; last = (base + len) div PAGE4K;
          first = (if first * PAGE4K < rt then rt div PAGE4K else first)
      in fold (\<lambda>f. pmm_mark f False) [unat first..<unat last] s)"

definition reserve_fb :: "mem64 \<Rightarrow> mem64" where
  "reserve_fb s =
     (if g_fbsize s \<noteq> 0 \<and> g_fb s < mem_top s then
        let first = g_fb s div PAGE4K; last = (g_fb s + g_fbsize s + PAGE4K - 1) div PAGE4K
        in fold (\<lambda>f. pmm_mark f True) [unat first..<unat last] s
      else s)"

definition build_bitmap :: "boot_in \<Rightarrow> (u64 \<times> u64) list \<Rightarrow> mem64 \<Rightarrow> mem64" where
  "build_bitmap B ranges s =
     (let s = s\<lparr>pmm_bits := (\<lambda>i. if i < PMM_WORDS then NOT 0 else pmm_bits s i), pmm_total := 0, pmm_free_n := 0\<rparr>;
          s = reserve_fb (fold (free_range (reserve_top B)) ranges s)
      in s\<lparr>nx_on := bit (efer B) 11\<rparr>)"

section \<open>Pass 3: page directories\<close>

definition halt :: "font \<Rightarrow> string \<Rightarrow> (boot_st, 'a) opn" where
  "halt ft msg = seq (modify (apsnd (s_puts ft (lit msg)))) (\<lambda>_. trap)"

definition boot_alloc :: "(boot_st, u64) opn" where
  "boot_alloc x = (case pmm_alloc (fst x) of None \<Rightarrow> (Trap, x) | Some (pa, m) \<Rightarrow> (Val pa, (m, snd x)))"

definition on_tab :: "(mem64 \<Rightarrow> mem64) \<Rightarrow> (boot_st, unit) opn" where
  "on_tab f = modify (apfst f)"

definition top2m :: "mem64 \<Rightarrow> u64" where
  "top2m s = (mem_top s + PAGE2M - 1) AND NOT (PAGE2M - 1)"

definition fb_pdpt :: "mem64 \<Rightarrow> nat" where
  "fb_pdpt s = pidx 30 (g_fb s)"

definition need_idx :: "mem64 \<Rightarrow> nat list" where
  "need_idx s =
     (let hi = unat (drop_bit 30 (top2m s - 1)); ids = [1..<Suc (min 8 hi)]
      in if g_fbsize s \<noteq> 0 \<and> fb_pdpt s \<noteq> 0 \<and> hi < fb_pdpt s \<and> length ids < 8 then ids @ [fb_pdpt s] else ids)"

definition alloc_pds :: "font \<Rightarrow> boot_in \<Rightarrow> (boot_st, unit) opn" where
  "alloc_pds ft B =
     seq (gets (\<lambda>x. need_idx (fst x))) (\<lambda>is.
     for_each (\<lambda>i. seq boot_alloc (\<lambda>pd.
        if pd = 0 then halt ft ''[K64] FAIL: out of low frames for page tables\<newline>''
        else on_tab (set_entry (pdpt_low B) i (pd OR PTE_P OR PTE_RW)))) is)"

section \<open>Pass 4: the identity map\<close>

definition range_overlaps_fb :: "u64 \<Rightarrow> u64 \<Rightarrow> mem64 \<Rightarrow> bool" where
  "range_overlaps_fb base len s \<longleftrightarrow> g_fbsize s \<noteq> 0 \<and> base < g_fb s + g_fbsize s \<and> g_fb s < base + len"

definition identity_page :: "boot_in \<Rightarrow> u64 \<Rightarrow> mem64 \<Rightarrow> mem64" where
  "identity_page B pa s =
     (if range_overlaps_fb pa PAGE2M s then s
      else
        let pd = (if pidx 30 pa = 0 then pd_low B else phys s (pdpt_low B) (pidx 30 pa) AND PTE_ADDR)
        in set_entry pd (pidx 21 pa) ((pa AND NOT (PAGE2M - 1)) OR PTE_P OR PTE_RW OR PTE_PS) s)"

definition identity_fill :: "boot_in \<Rightarrow> mem64 \<Rightarrow> mem64" where
  "identity_fill B s =
     (let top = top2m s;
          s = fold (\<lambda>k. identity_page B (of_nat k * PAGE2M)) [0..<unat (top div PAGE2M)] s
      in fold (\<lambda>i. set_entry (pd_low B) i 0) [unat (drop_bit 21 top)..<512] s)"

section \<open>Passes 5 and 6: framebuffer and device window\<close>

definition fb_page :: "u64 \<Rightarrow> nat \<Rightarrow> mem64 \<Rightarrow> mem64" where
  "fb_page pd k s =
     (let pa = (g_fb s AND NOT (PAGE2M - 1)) + of_nat k * PAGE2M;
          ent = pa OR PTE_P OR PTE_RW OR PTE_PS OR PTE_PWT OR PTE_PCD
      in set_entry pd (pidx 21 pa) (if nx_on s then ent OR PTE_NX else ent) s)"

definition fb_pages :: "mem64 \<Rightarrow> nat list" where
  "fb_pages s =
     takeWhile (\<lambda>k. \<not> pidx 21 ((g_fb s AND NOT (PAGE2M - 1)) + of_nat k * PAGE2M) < pidx 21 (g_fb s))
       [0..<unat ((g_fbsize s + PAGE2M - 1) div PAGE2M)]"

definition map_fb :: "boot_in \<Rightarrow> (boot_st, unit) opn" where
  "map_fb B =
     seq (gets fst) (\<lambda>s.
     if g_fbsize s = 0 then ret ()
     else
       let e = phys s (pdpt_low B) (fb_pdpt s)
       in seq (if fb_pdpt s = 0 then ret (pd_low B)
               else if e AND PTE_P = 0 then
                 seq boot_alloc (\<lambda>nf. seq (on_tab (set_entry (pdpt_low B) (fb_pdpt s) (nf OR PTE_P OR PTE_RW))) (\<lambda>_. ret nf))
               else ret (e AND PTE_ADDR)) (\<lambda>pd.
          on_tab (fold (fb_page pd) (fb_pages s))))"

definition map_mmio :: "font \<Rightarrow> boot_in \<Rightarrow> (boot_st, unit) opn" where
  "map_mmio ft B =
     seq (gets (\<lambda>x. phys (fst x) (pdpt_low B) 3)) (\<lambda>e3.
     seq (if e3 AND PTE_P \<noteq> 0 then ret (e3 AND PTE_ADDR)
          else seq boot_alloc (\<lambda>nf.
               if nf = 0 then halt ft ''[K64] FAIL: no frame for MMIO PD\<newline>''
               else seq (on_tab (set_entry (pdpt_low B) 3 (nf OR PTE_P OR PTE_RW))) (\<lambda>_. ret nf))) (\<lambda>mpd.
     on_tab (fold (\<lambda>k. let pa = 0xFE000000 + of_nat k * PAGE2M
                       in set_entry mpd (pidx 21 pa) (pa OR PTE_P OR PTE_RW OR PTE_PS OR PTE_PWT OR PTE_PCD)) [0..<16])))"

section \<open>The whole initialisation\<close>

definition boot_report :: "font \<Rightarrow> mem64 \<Rightarrow> ser \<Rightarrow> ser" where
  "boot_report ft s o0 =
     (let o1 = s_hex64 ft (mem_top s) (s_puts ft (lit ''[K64] M3 PMM top='') o0);
          o2 = s_dec64 ft (pmm_total_frames s) (s_puts ft (lit '' total='') o1);
          o3 = s_dec64 ft (pmm_free_frames s) (s_puts ft (lit '' free='') o2);
          o4 = s_putc ft (if nx_on s then 49 else 48) (s_puts ft (lit '' NX='') o3)
      in s_puts ft [10] (s_hex64 ft (g_fb s) (s_puts ft (lit '' FB='') o4)))"

definition mem64_init :: "font \<Rightarrow> boot_in \<Rightarrow> u64 \<Rightarrow> (boot_st, unit) opn" where
  "mem64_init ft B mb_info =
     seq (\<lambda>x. case scan_tags (mb_bytes B) mb_info ((fst x)\<lparr>vmm_root := pml4_addr B\<rparr>) of
                None \<Rightarrow> (Trap, x) | Some (s, ranges) \<Rightarrow> (Val ranges, (s, snd x))) (\<lambda>ranges.
     seq (on_tab (build_bitmap B ranges)) (\<lambda>_.
     seq (gets (\<lambda>x. mem_top (fst x))) (\<lambda>top.
     if top = 0 \<or> ranges = [] then halt ft ''[K64] FAIL: no usable RAM in multiboot2 memmap\<newline>''
     else
       seq (alloc_pds ft B) (\<lambda>_.
       seq (on_tab (identity_fill B)) (\<lambda>_.
       seq (map_fb B) (\<lambda>_.
       seq (map_mmio ft B) (\<lambda>_.
       modify (\<lambda>x. (fst x, boot_report ft (fst x) (snd x))))))))))"

end
