(* ===== verification/Boot_Proofs.thy ===== *)
theory Boot_Proofs
  imports Boot Win_Proofs
begin

text \<open>
  What taking over the memory leaves: the walk over the Multiboot tags ends, and after \<^verbatim>\<open>mem64_init\<close> the frame
  allocator is consistent and hands out only RAM that the memory map lists as usable, above the kernel image
  and outside the framebuffer.
\<close>

section \<open>Rounding\<close>

lemma unat_round_down:
  assumes "k < 64"
  shows "unat ((a :: u64) AND NOT (mask k)) = 2 ^ k * (unat a div 2 ^ k)"
proof -
  have "a AND NOT (mask k) = push_bit k (drop_bit k a)"
    by (rule bit_word_eqI) (auto simp: bit_and_iff bit_not_iff bit_mask_iff bit_push_bit_iff bit_drop_bit_eq)
  then have "unat (a AND NOT (mask k)) = unat (push_bit k (drop_bit k a))" by simp
  also have "\<dots> = (2 ^ k * (unat a div 2 ^ k)) mod 2 ^ 64"
    unfolding unsigned_push_bit_eq unat_drop_bit_eq take_bit_eq_mod by (simp add: push_bit_eq_mult drop_bit_eq_div mult.commute)
  also have "\<dots> = 2 ^ k * (unat a div 2 ^ k)" using unat_u64 [of a] by (intro mod_less) (metis le_less_trans times_div_less_eq_dividend)
  finally show ?thesis .
qed

lemma masks: "(7 :: u64) = mask 3" "PAGE4K - 1 = mask 12" "PAGE2M - 1 = mask 21"
  by (simp_all add: PAGE4K_def PAGE2M_def mask_eq_exp_minus_1)

section \<open>The walks end\<close>

lemma tags_measure:
  assumes w: "unat mb + unat (ld32 b mb) < 2 ^ 62" and en: "en = mb + ucast (ld32 b mb)" and p: "unat mb + 8 \<le> unat p" "p + 8 \<le> en" "unat p < 2 ^ 63"
    and s: "8 \<le> sz" "p + ucast (sz :: u32) \<le> en"
  shows "unat p + 8 \<le> unat (p + (ucast (sz + 7) AND NOT 7))" "unat (p + (ucast (sz + 7) AND NOT 7)) < 2 ^ 63 \<and> unat (p + (ucast (sz + 7) AND NOT 7)) < unat en + 8"
proof -
  let ?z = "unat sz"
  have t: "unat (ld32 b mb) < 2 ^ 32" "?z < 2 ^ 32" using unsigned_less [of "ld32 b mb"] unsigned_less [of sz] by simp_all
  have uen: "unat en = unat mb + unat (ld32 b mb)" using w by (simp add: en unat_word_ariths unsigned_ucast_eq take_bit_nat_eq_self)
  have us: "unat (ucast sz :: u64) = ?z" using t by (simp add: unsigned_ucast_eq take_bit_nat_eq_self)
  have ps: "unat p + ?z \<le> unat en"
    using s(2) p(3) t by (simp add: word_le_nat_alt unat_word_ariths us)
  have z7: "?z + 7 < 2 ^ 32" using ps uen p(1) t by simp
  have u7: "unat (ucast (sz + 7) :: u64) = ?z + 7"
    using z7 by (simp add: unsigned_ucast_eq unat_word_ariths take_bit_nat_eq_self)
  have m: "unat ((x :: u64) AND NOT 7) = 8 * (unat x div 8)" for x using unat_round_down [of 3 x] by (simp add: masks)
  have r: "8 \<le> unat (ucast (sz + 7) AND NOT (7 :: u64))" "unat (ucast (sz + 7) AND NOT (7 :: u64)) \<le> ?z + 7"
    unfolding m u7 using s(1) by (simp_all add: word_le_nat_alt)
  have "unat (p + (ucast (sz + 7) AND NOT 7)) = unat p + unat (ucast (sz + 7) AND NOT (7 :: u64))"
    using r ps uen w by (simp add: unat_word_ariths)
  then show "unat p + 8 \<le> unat (p + (ucast (sz + 7) AND NOT 7))" "unat (p + (ucast (sz + 7) AND NOT 7)) < 2 ^ 63 \<and> unat (p + (ucast (sz + 7) AND NOT 7)) < unat en + 8"
    using r ps uen w by simp_all
qed
lemma tags_some:
  assumes w: "unat mb + unat (ld32 b mb) < 2 ^ 62" and en: "en = mb + ucast (ld32 b mb)"
  shows "unat mb + 8 \<le> unat p \<Longrightarrow> unat p < 2 ^ 63 \<Longrightarrow> \<exists>ts. mb_tags b en p = Some ts"
proof (induction "unat en + 8 - unat p" arbitrary: p rule: less_induct)
  case less
  let ?ty = "ld32 b p" and ?size = "ld32 b (p + 4)"
  let ?q = "p + (ucast (?size + 7) AND NOT 7)"
  show ?case
  proof (cases "p + 8 \<le> en \<and> \<not> (?size < 8 \<or> p + ucast ?size > en) \<and> ?ty \<noteq> 0")
    case True
    then have s: "8 \<le> ?size" "p + ucast ?size \<le> en" "p + 8 \<le> en" by auto
    note m = tags_measure [OF w en less.prems(1) s(3) less.prems(2) s(1,2)]
    have "unat p + 8 \<le> unat en" using s(3) less.prems(2) by (simp add: word_le_nat_alt unat_word_ariths)
    then have "unat en + 8 - unat ?q < unat en + 8 - unat p" using m(1) by linarith
    moreover have "unat mb + 8 \<le> unat ?q" using m(1) less.prems(1) by linarith
    ultimately obtain ts where "mb_tags b en ?q = Some ts" using less.hyps [of ?q] m(2) by blast
    then show ?thesis using True by (subst mb_tags.simps) (simp add: Let_def)
  next
    case False
    then show ?thesis by (subst mb_tags.simps) (auto simp: Let_def)
  qed
qed


text \<open>The inner loop has no such guard: a memory map that announces entries of size 0 is walked forever.\<close>

lemma empty_entries_hang: "e \<le> lim \<Longrightarrow> mb_entries lim 0 e = None"
proof (rule ccontr)
  assume "e \<le> lim" "mb_entries lim 0 e \<noteq> None"
  then obtain xs where xs: "mb_entries lim 0 e = Some xs" by blast
  have "mb_entries lim 0 e = Option.bind (mb_entries lim 0 e) (\<lambda>xs. Some (e # xs))"
    using \<open>e \<le> lim\<close> by (subst mb_entries.simps) simp
  then show False unfolding xs by simp
qed

section \<open>The bitmap\<close>

lemma mark_fold_used: "frame_used (fold (\<lambda>f. pmm_mark f u) fs s) g \<longleftrightarrow> (if g \<in> set fs \<and> g < PMM_MAX_FRAMES then u else frame_used s g)"
  by (induction fs arbitrary: s) auto

lemma mark_fold_fields: "mem_locked (fold (\<lambda>f. pmm_mark f u) fs s) = mem_locked s" "g_fb (fold (\<lambda>f. pmm_mark f u) fs s) = g_fb s"
  "g_fbsize (fold (\<lambda>f. pmm_mark f u) fs s) = g_fbsize s" "mem_top (fold (\<lambda>f. pmm_mark f u) fs s) = mem_top s"
  by (induction fs arbitrary: s) (simp_all add: pmm_mark_def Let_def)

lemma mark_fold_inv: "pmm_inv s \<Longrightarrow> 0 \<notin> set fs \<or> u \<Longrightarrow> pmm_inv (fold (\<lambda>f. pmm_mark f u) fs s)"
proof (induction fs arbitrary: s)
  case (Cons f fs)
  have "pmm_inv (pmm_mark f u s)"
  proof (cases "f = 0")
    case True
    then have "u" "frame_used s 0" using Cons.prems by (auto simp: pmm_inv_def)
    then have "pmm_mark f u s = s" using True by (simp add: pmm_mark_def frame_used_def Let_def and_one_eq bit_0 odd_iff_mod_2_eq_one)
    then show ?thesis using Cons.prems(1) by simp
  qed (use Cons.prems pmm_inv_mark in simp)
  then show ?case using Cons.IH Cons.prems(2) by auto
qed simp

text \<open>The frames a usable range gives to the allocator.\<close>

definition range_frames :: "u64 \<Rightarrow> u64 \<times> u64 \<Rightarrow> nat set" where
  "range_frames rt r = {f. unat rt \<le> f * 4096 \<and> unat (fst r) \<le> f * 4096 \<and> (f + 1) * 4096 \<le> unat (fst r) + unat (snd r)}"

lemma range_list:
  assumes rt: "2 ^ 12 dvd unat rt" and r: "unat base < 2 ^ 32" "unat base + unat len \<le> 2 ^ 32"
  shows "set [unat (let first = (base + PAGE4K - 1) div PAGE4K in if first * PAGE4K < rt then rt div PAGE4K else first)..<unat ((base + len) div PAGE4K)] =
    range_frames rt (base, len)"
proof -
  let ?f = "(base + PAGE4K - 1) div PAGE4K"
  have f: "unat ?f = (unat base + 4095) div 4096"
    using r(1) by (simp add: PAGE4K_def unat_div unat_word_ariths)
  have l: "unat ((base + len) div PAGE4K) = (unat base + unat len) div 4096"
    using r by (simp add: PAGE4K_def unat_div unat_word_ariths)
  have m: "unat (?f * PAGE4K) = unat ?f * 4096"
    using r(1) unfolding f by (simp add: unat_word_ariths PAGE4K_def f [unfolded PAGE4K_def])
  obtain q where q: "unat rt = 4096 * q" using rt by auto
  have d: "unat (rt div PAGE4K) = q" by (simp add: PAGE4K_def unat_div q)
  have "unat (if ?f * PAGE4K < rt then rt div PAGE4K else ?f) = max q ((unat base + 4095) div 4096)"
    using d f m q by (auto simp: word_less_nat_alt max_def)
  then show ?thesis
    unfolding Let_def l range_frames_def by (auto simp: q)
qed

definition range_ok :: "u64 \<times> u64 \<Rightarrow> bool" where
  "range_ok r \<longleftrightarrow> unat (fst r) < 2 ^ 32 \<and> unat (fst r) + unat (snd r) \<le> 2 ^ 32"

lemma free_range_eq:
  assumes "2 ^ 12 dvd unat rt" "range_ok r"
  shows "\<exists>fs. free_range rt r s = fold (\<lambda>f. pmm_mark f False) fs s \<and> set fs = range_frames rt r"
proof -
  obtain base len where r: "r = (base, len)" by fastforce
  let ?fs = "[unat (let first = (base + PAGE4K - 1) div PAGE4K in if first * PAGE4K < rt then rt div PAGE4K else first)..<unat ((base + len) div PAGE4K)]"
  have "set ?fs = range_frames rt r" unfolding r by (rule range_list) (use assms in \<open>simp_all add: r range_ok_def\<close>)
  moreover have "free_range rt r s = fold (\<lambda>f. pmm_mark f False) ?fs s" by (simp only: free_range_def r Let_def prod.case)
  ultimately show ?thesis by blast
qed

lemma free_ranges:
  assumes rt: "2 ^ 12 dvd unat rt" "0 < unat rt" and "\<forall>r \<in> set rs. range_ok r"
  defines "t \<equiv> fold (free_range rt) rs"
  shows "frame_used (t s) f \<longleftrightarrow> \<not> (f < PMM_MAX_FRAMES \<and> (\<exists>r \<in> set rs. f \<in> range_frames rt r)) \<and> frame_used s f"
    "pmm_inv s \<Longrightarrow> pmm_inv (t s)" "mem_locked (t s) = mem_locked s" "g_fb (t s) = g_fb s" "g_fbsize (t s) = g_fbsize s" "mem_top (t s) = mem_top s"
proof -
  have "(frame_used (t s) f \<longleftrightarrow> \<not> (f < PMM_MAX_FRAMES \<and> (\<exists>r \<in> set rs. f \<in> range_frames rt r)) \<and> frame_used s f) \<and>
    (pmm_inv s \<longrightarrow> pmm_inv (t s)) \<and> mem_locked (t s) = mem_locked s \<and> g_fb (t s) = g_fb s \<and> g_fbsize (t s) = g_fbsize s \<and> mem_top (t s) = mem_top s"
    using assms(3) unfolding t_def
  proof (induction rs arbitrary: s)
    case (Cons r rs)
    obtain fs where e: "free_range rt r s = fold (\<lambda>f. pmm_mark f False) fs s" "set fs = range_frames rt r"
      using free_range_eq [OF rt(1), of r s] Cons.prems by (meson list.set_intros(1))
    have "0 \<notin> set fs" using rt(2) by (auto simp: e(2) range_frames_def)
    then have i: "pmm_inv s \<Longrightarrow> pmm_inv (free_range rt r s)" unfolding e(1) by (intro mark_fold_inv) auto
    have u: "frame_used (free_range rt r s) g \<longleftrightarrow> \<not> (g < PMM_MAX_FRAMES \<and> g \<in> range_frames rt r) \<and> frame_used s g" for g
      unfolding e(1) mark_fold_used e(2) by auto
    from Cons.IH [of "free_range rt r s"] Cons.prems i show ?case by (auto simp: u) (auto simp: e(1) mark_fold_fields)
  qed simp
  then show "frame_used (t s) f \<longleftrightarrow> \<not> (f < PMM_MAX_FRAMES \<and> (\<exists>r \<in> set rs. f \<in> range_frames rt r)) \<and> frame_used s f"
    "pmm_inv s \<Longrightarrow> pmm_inv (t s)" "mem_locked (t s) = mem_locked s" "g_fb (t s) = g_fb s" "g_fbsize (t s) = g_fbsize s" "mem_top (t s) = mem_top s"
    by blast+
qed

definition fb_frames :: "mem64 \<Rightarrow> nat set" where
  "fb_frames s = {f. g_fbsize s \<noteq> 0 \<and> g_fb s < mem_top s \<and> unat (g_fb s) < (f + 1) * 4096 \<and> f * 4096 < unat (g_fb s) + unat (g_fbsize s)}"

lemma reserve_fb_eq:
  assumes w: "unat (g_fb s) + unat (g_fbsize s) + 4095 < 2 ^ 64"
  shows "frame_used (reserve_fb s) f \<longleftrightarrow> f < PMM_MAX_FRAMES \<and> f \<in> fb_frames s \<or> frame_used s f" "pmm_inv s \<Longrightarrow> pmm_inv (reserve_fb s)"
    "mem_locked (reserve_fb s) = mem_locked s" "g_fb (reserve_fb s) = g_fb s" "g_fbsize (reserve_fb s) = g_fbsize s" "mem_top (reserve_fb s) = mem_top s"
proof -
  let ?l = "[unat (g_fb s div PAGE4K)..<unat ((g_fb s + g_fbsize s + PAGE4K - 1) div PAGE4K)]"
  have e: "unat (g_fb s + g_fbsize s + PAGE4K - 1) = unat (g_fb s) + unat (g_fbsize s) + 4095"
    using w by (simp add: PAGE4K_def unat_word_ariths)
  have d: "a div 4096 \<le> f \<longleftrightarrow> a < (f + 1) * 4096" "f < (a + 4095) div 4096 \<longleftrightarrow> f * 4096 < a" for a f :: nat
    using div_less_iff_less_mult [of 4096 a "Suc f"] less_eq_div_iff_mult_less_eq [of 4096 "Suc f" "a + 4095"] by auto
  have "f \<in> set ?l \<longleftrightarrow> unat (g_fb s) div 4096 \<le> f \<and> f < (unat (g_fb s) + unat (g_fbsize s) + 4095) div 4096" for f
    unfolding atLeastLessThan_upt [symmetric] atLeastLessThan_iff unat_div e by (simp add: PAGE4K_def)
  then have l: "f \<in> set ?l \<longleftrightarrow> unat (g_fb s) < (f + 1) * 4096 \<and> f * 4096 < unat (g_fb s) + unat (g_fbsize s)" for f
    unfolding d .
  have r: "reserve_fb s = (if g_fbsize s \<noteq> 0 \<and> g_fb s < mem_top s then fold (\<lambda>f. pmm_mark f True) ?l s else s)"
    by (simp only: reserve_fb_def Let_def)
  show "frame_used (reserve_fb s) f \<longleftrightarrow> f < PMM_MAX_FRAMES \<and> f \<in> fb_frames s \<or> frame_used s f"
  proof (cases "g_fbsize s \<noteq> 0 \<and> g_fb s < mem_top s")
    case True
    then have "f \<in> fb_frames s \<longleftrightarrow> f \<in> set ?l" unfolding l by (simp add: fb_frames_def)
    moreover have "reserve_fb s = fold (\<lambda>f. pmm_mark f True) ?l s" using True unfolding r by presburger
    ultimately show ?thesis using mark_fold_used [of True ?l s f] by (simp only:) argo
  next
    case False
    then show ?thesis by (auto simp: r fb_frames_def)
  qed
  show "pmm_inv s \<Longrightarrow> pmm_inv (reserve_fb s)" unfolding r by (simp add: mark_fold_inv)
  show "mem_locked (reserve_fb s) = mem_locked s" "g_fb (reserve_fb s) = g_fb s" "g_fbsize (reserve_fb s) = g_fbsize s" "mem_top (reserve_fb s) = mem_top s"
    unfolding r by (simp_all add: mark_fold_fields)
qed

lemma reserve_top_ok: "2 ^ 12 dvd unat (reserve_top B)" "2 ^ 21 \<le> unat (reserve_top B)" "unat (kernel_end B) < 2 ^ 63 \<Longrightarrow> unat (kernel_end B) \<le> unat (reserve_top B)"
proof -
  let ?i = "(kernel_end B + PAGE4K - 1) AND NOT (PAGE4K - 1)"
  have i: "unat ?i = 4096 * (unat (kernel_end B + PAGE4K - 1) div 4096)" using unat_round_down [of 12] by (simp only: masks(2)) simp
  have r: "unat (reserve_top B) = (if unat ?i > 2 ^ 21 then unat ?i else 2 ^ 21)"
    by (simp add: reserve_top_def Let_def RESERVE_TOP_def word_less_nat_alt)
  show "2 ^ 12 dvd unat (reserve_top B)" "2 ^ 21 \<le> unat (reserve_top B)" unfolding r by (auto simp: i)
  assume "unat (kernel_end B) < 2 ^ 63"
  then have "unat (kernel_end B + PAGE4K - 1) = unat (kernel_end B) + 4095" by (simp add: PAGE4K_def unat_word_ariths)
  then have "unat (kernel_end B) \<le> unat ?i" unfolding i by simp
  then show "unat (kernel_end B) \<le> unat (reserve_top B)" unfolding r by simp
qed

lemma build_bitmap_ok:
  assumes "\<forall>r \<in> set rs. range_ok r" and w: "unat (g_fb s) + unat (g_fbsize s) + 4095 < 2 ^ 64"
  shows "pmm_inv (build_bitmap B rs s)" "mem_locked (build_bitmap B rs s) = mem_locked s"
    "g_fb (build_bitmap B rs s) = g_fb s" "g_fbsize (build_bitmap B rs s) = g_fbsize s" "mem_top (build_bitmap B rs s) = mem_top s"
    "free_set (build_bitmap B rs s) = {f. f < PMM_MAX_FRAMES \<and> (\<exists>r \<in> set rs. f \<in> range_frames (reserve_top B) r) \<and> f \<notin> fb_frames s}"
proof -
  let ?s0 = "s\<lparr>pmm_bits := (\<lambda>i. if i < PMM_WORDS then NOT 0 else pmm_bits s i), pmm_total := 0, pmm_free_n := 0\<rparr>"
  let ?s1 = "fold (free_range (reserve_top B)) rs ?s0"
  have u0: "frame_used ?s0 f" if "f < PMM_MAX_FRAMES" for f
    using that by (simp add: frame_used_def PMM_WORDS_def less_mult_imp_div_less PMM_MAX_FRAMES_def)
  then have i0: "pmm_inv ?s0" by (simp add: pmm_inv_def free_set_def PMM_MAX_FRAMES_def)
  have rt: "0 < unat (reserve_top B)" using reserve_top_ok(2) [of B] by (rule order.strict_trans2 [rotated]) simp
  note f = free_ranges [OF reserve_top_ok(1) rt assms(1), where s = ?s0]
  have w1: "unat (g_fb ?s1) + unat (g_fbsize ?s1) + 4095 < 2 ^ 64" using w f by simp
  note g = reserve_fb_eq [OF w1]
  have b: "build_bitmap B rs s = (reserve_fb ?s1)\<lparr>nx_on := bit (efer B) 11\<rparr>" by (simp add: build_bitmap_def Let_def)
  show "pmm_inv (build_bitmap B rs s)" unfolding b using g(2) f(2) i0 pmm_inv_cong [of "(reserve_fb ?s1)\<lparr>nx_on := bit (efer B) 11\<rparr>" "reserve_fb ?s1"] by simp
  show "mem_locked (build_bitmap B rs s) = mem_locked s" "g_fb (build_bitmap B rs s) = g_fb s" "g_fbsize (build_bitmap B rs s) = g_fbsize s"
    "mem_top (build_bitmap B rs s) = mem_top s" unfolding b using f g by simp_all
  have fb: "fb_frames ?s1 = fb_frames s" using f by (simp add: fb_frames_def)
  have "frame_used (build_bitmap B rs s) x = frame_used (reserve_fb ?s1) x" for x unfolding b by (simp add: frame_used_def)
  then show "free_set (build_bitmap B rs s) = {f. f < PMM_MAX_FRAMES \<and> (\<exists>r \<in> set rs. f \<in> range_frames (reserve_top B) r) \<and> f \<notin> fb_frames s}"
    unfolding free_set_def using f(1) g(1) u0 fb by auto
qed

section \<open>What the map says\<close>

text \<open>A range the memory map lists as usable.\<close>

definition usable :: "(u64 \<Rightarrow> u8) \<Rightarrow> u64 \<Rightarrow> u64 \<Rightarrow> u64 \<Rightarrow> bool" where
  "usable b mb_info base len \<longleftrightarrow>
     (\<exists>ts p sz es e. mb_tags b (mb_info + ucast (ld32 b mb_info)) (mb_info + 8) = Some ts \<and> (p, 6, sz) \<in> set ts \<and>
        mb_entries (p + ucast sz) (ucast (ld32 b (p + 8))) (p + 16) = Some es \<and> e \<in> set es \<and>
        ld32 b (e + 16) = 1 \<and> base = ld64 b e \<and> len = ld64 b (e + 8))"

text \<open>The recorded ranges are usable ranges cut at 4 GB.\<close>

definition cut_of :: "(u64 \<Rightarrow> u64 \<Rightarrow> bool) \<Rightarrow> u64 \<times> u64 \<Rightarrow> bool" where
  "cut_of U r \<longleftrightarrow> range_ok r \<and> (\<exists>len. U (fst r) len \<and> unat (snd r) \<le> unat len)"

lemma entry_range:
  assumes "ld32 b (e + 16) = 1 \<Longrightarrow> U (ld64 b e) (ld64 b (e + 8))" "\<forall>r \<in> set rs. cut_of U r" "memmap_entry b e (s, rs) = (s', rs')"
  shows "\<forall>r \<in> set rs'. cut_of U r" "s' = s\<lparr>mem_top := mem_top s'\<rparr>"
proof -
  let ?base = "ld64 b e" and ?len = "ld64 b (e + 8)"
  let ?cut = "if ?base + ?len > GB4 \<or> ?base + ?len < ?base then GB4 - ?base else ?len"
  have new: "cut_of U (?base, ?cut)" if "ld32 b (e + 16) = 1" "\<not> ?base \<ge> GB4"
  proof -
    have b: "unat ?base < 2 ^ 32" using that(2) by (simp add: GB4_def word_le_nat_alt)
    have g: "unat GB4 = 2 ^ 32" by (simp add: GB4_def)
    have "unat (GB4 - ?base) = 2 ^ 32 - unat ?base" using b g by (simp add: unat_sub word_le_nat_alt)
    moreover have "2 ^ 32 - unat ?base \<le> unat ?len" if "?base + ?len > GB4 \<or> ?base + ?len < ?base"
    proof (cases "unat ?base + unat ?len < 2 ^ 64")
      case True
      then have "unat (?base + ?len) = unat ?base + unat ?len" by (simp add: unat_word_ariths)
      then show ?thesis using that g by (auto simp: word_less_nat_alt)
    next
      case False
      then show ?thesis using b by simp
    qed
    moreover have "unat ?base + unat ?len \<le> 2 ^ 32" if "\<not> (?base + ?len > GB4 \<or> ?base + ?len < ?base)"
    proof -
      have "unat ?base + unat ?len < 2 ^ 64"
        using that unat_plus_simple [of ?base ?len] unat_u64 [of "?base + ?len"] by (simp add: not_less)
      then have "unat (?base + ?len) = unat ?base + unat ?len" by (simp add: unat_word_ariths)
      then show ?thesis using that g by (auto simp: word_less_nat_alt)
    qed
    ultimately show ?thesis using b assms(1) [OF that(1)] unfolding cut_of_def range_ok_def by (auto intro!: exI [of _ ?len])
  qed
  show "\<forall>r \<in> set rs'. cut_of U r" "s' = s\<lparr>mem_top := mem_top s'\<rparr>"
    using assms(2,3) new by (auto simp: memmap_entry_def Let_def split: if_splits)
qed

lemma entries_range:
  assumes "\<And>e. e \<in> set es \<Longrightarrow> ld32 b (e + 16) = 1 \<Longrightarrow> U (ld64 b e) (ld64 b (e + 8))"
  shows "\<forall>r \<in> set rs. cut_of U r \<Longrightarrow> fold (memmap_entry b) es (s, rs) = (s', rs') \<Longrightarrow> (\<forall>r \<in> set rs'. cut_of U r) \<and> mem_locked s' = mem_locked s"
  using assms
proof (induction es arbitrary: s rs)
  case (Cons e es)
  obtain s1 rs1 where e: "memmap_entry b e (s, rs) = (s1, rs1)" by fastforce
  note r = entry_range [OF Cons.prems(3) [of e] Cons.prems(1) e, simplified]
  have "mem_locked s1 = mem_locked s" by (subst r(2)) simp
  then show ?case using Cons.IH [of rs1 s1] Cons.prems e r(1) by simp
qed simp

lemma tag_ranges:
  assumes "mb_tags b (mb + ucast (ld32 b mb)) (mb + 8) = Some ts" "t \<in> set ts" "\<forall>r \<in> set rs. cut_of (usable b mb) r" "boot_tag b t (s, rs) = Some (s', rs')"
  shows "(\<forall>r \<in> set rs'. cut_of (usable b mb) r) \<and> mem_locked s' = mem_locked s"
proof -
  obtain p ty sz where t: "t = (p, ty, sz)" by (cases t)
  show ?thesis
  proof (cases "ty = 6 \<and> length rs < 32")
    case True
    then obtain es where es: "mb_entries (p + ucast sz) (ucast (ld32 b (p + 8))) (p + 16) = Some es" "fold (memmap_entry b) es (s, rs) = (s', rs')"
      using assms(4) by (auto simp: t boot_tag_def bind_eq_Some_conv)
    have "usable b mb (ld64 b e) (ld64 b (e + 8))" if "e \<in> set es" "ld32 b (e + 16) = 1" for e
      unfolding usable_def using assms(1,2) True es(1) that by (intro exI conjI) (auto simp: t)
    then show ?thesis by (intro entries_range [OF _ assms(3) es(2)])
  next
    case False
    then show ?thesis using assms(3,4) by (auto simp: t boot_tag_def Let_def split: if_splits)
  qed
qed

lemma scan_ranges:
  assumes "scan_tags b mb s = Some (s', rs)"
  shows "\<forall>r \<in> set rs. cut_of (usable b mb) r" "mem_locked s' = mem_locked s"
proof -
  obtain ts where ts: "mb_tags b (mb + ucast (ld32 b mb)) (mb + 8) = Some ts"
    and f: "fold (\<lambda>t x. Option.bind x (boot_tag b t)) ts (Some (s, [])) = Some (s', rs)"
    using assms by (auto simp: scan_tags_def bind_eq_Some_conv)
  have none: "fold (\<lambda>t x. Option.bind x (boot_tag b t)) us None = None" for us by (induction us) simp_all
  have "(\<forall>r \<in> set rs. cut_of (usable b mb) r) \<and> mem_locked s' = mem_locked a"
    if "fold (\<lambda>t x. Option.bind x (boot_tag b t)) us (Some (a, rs0)) = Some (s', rs)" "set us \<subseteq> set ts" "\<forall>r \<in> set rs0. cut_of (usable b mb) r" for us a rs0
    using that
  proof (induction us arbitrary: a rs0)
    case (Cons t us)
    obtain a1 rs1 where "boot_tag b t (a, rs0) = Some (a1, rs1)"
      using Cons.prems(1) none by (cases "boot_tag b t (a, rs0)") auto
    moreover from this have "(\<forall>r \<in> set rs1. cut_of (usable b mb) r) \<and> mem_locked a1 = mem_locked a"
      using Cons.prems(2,3) by (intro tag_ranges [OF ts]) auto
    ultimately show ?case using Cons.IH [of a1 rs1] Cons.prems(1,2) by simp
  qed simp
  from this [OF f] show "\<forall>r \<in> set rs. cut_of (usable b mb) r" "mem_locked s' = mem_locked s" by simp_all
qed

section \<open>Taking frames for page directories\<close>

text \<open>What the later passes do to the allocator: they only take frames.\<close>

definition takes :: "mem64 \<Rightarrow> mem64 \<Rightarrow> bool" where
  "takes m m' \<longleftrightarrow> (pmm_inv m \<and> \<not> mem_locked m \<longrightarrow> pmm_inv m' \<and> \<not> mem_locked m' \<and> free_set m' \<subseteq> free_set m)"

lemma takes_refl: "takes m m"
  by (simp add: takes_def)

lemma takes_trans: "takes a b \<Longrightarrow> takes b c \<Longrightarrow> takes a c"
  by (auto simp: takes_def)

lemma takes_entry: "takes m (set_entry t i e m)"
  using pmm_inv_cong [of "set_entry t i e m" m] free_set_cong [of "set_entry t i e m" m] by (simp add: takes_def set_entry_def)

lemma takes_fold: "(\<And>x a. takes a (f x a)) \<Longrightarrow> takes m (fold f xs m)"
  by (induction xs arbitrary: m) (auto intro: takes_refl takes_trans)

lemma takes_alloc: "boot_alloc (m, out) = (Val pa, m', out') \<Longrightarrow> takes m m'"
proof (cases "mem_locked m")
  case False
  assume a: "boot_alloc (m, out) = (Val pa, m', out')"
  let ?m = "m\<lparr>mem_locked := True\<rparr>"
  have "pmm_inv ?m = pmm_inv m" "free_set ?m = free_set m" using pmm_inv_cong [of ?m m] free_set_cong [of ?m m] by simp_all
  moreover have m': "m' = (snd (pmm_alloc_inner ?m))\<lparr>mem_locked := False\<rparr>"
    using a False by (auto simp: boot_alloc_def pmm_alloc_def mem_lock_acquire_def mem_lock_release_def split: option.splits prod.splits)
  moreover have "pmm_inv m' = pmm_inv (snd (pmm_alloc_inner ?m))" "free_set m' = free_set (snd (pmm_alloc_inner ?m))"
    unfolding m' by (rule pmm_inv_cong free_set_cong; simp)+
  moreover have "free_set (snd (pmm_alloc_inner ?m)) \<subseteq> free_set ?m" by (simp add: pmm_alloc_inner_eq)
  ultimately show ?thesis using pmm_inv_alloc [of ?m] by (simp add: takes_def)
qed (simp add: takes_def)

lemma halt_no_Val: "halt ft msg x \<noteq> (Val a, y)"
  by (simp add: halt_def)

lemma takes_pds: "alloc_pds ft B (m, out) = (Val (), m', out') \<Longrightarrow> takes m m'"
proof -
  let ?f = "\<lambda>i. seq boot_alloc (\<lambda>pd. if pd = 0 then halt ft ''[K64] FAIL: out of low frames for page tables\<newline>''
        else on_tab (set_entry (pdpt_low B) i (pd OR PTE_P OR PTE_RW)))"
  have one: "takes m m'" if run: "?f i (m, out) = (Val (), m', out')" for i m out m' out'
  proof -
    obtain pd x where x: "boot_alloc (m, out) = (Val pd, x)" "(if pd = 0 then halt ft ''[K64] FAIL: out of low frames for page tables\<newline>''
        else on_tab (set_entry (pdpt_low B) i (pd OR PTE_P OR PTE_RW))) x = (Val (), m', out')" using run by (rule seq_ValE)
    then have "m' = set_entry (pdpt_low B) i (pd OR PTE_P OR PTE_RW) (fst x)" by (cases x) (auto simp: halt_no_Val on_tab_def split: if_splits)
    then show ?thesis using takes_alloc [of m out pd "fst x" "snd x"] x(1) takes_trans takes_entry by simp
  qed
  have "for_each ?f ks (m, out) = (Val (), m', out') \<Longrightarrow> takes m m'" for ks m out
  proof (induction ks arbitrary: m out)
    case (Cons i ks)
    from Cons.prems obtain u x where x: "?f i (m, out) = (Val u, x)" "for_each ?f ks x = (Val (), m', out')"
      unfolding for_each.simps by (rule seq_ValE)
    then show ?case using one [of i m out "fst x" "snd x"] Cons.IH [of "fst x" "snd x"] takes_trans by simp
  qed (simp add: takes_refl)
  then show "alloc_pds ft B (m, out) = (Val (), m', out') \<Longrightarrow> takes m m'" by (simp add: alloc_pds_def)
qed

lemma takes_fill: "takes m (identity_fill B m)"
proof -
  have "takes a (identity_page B pa a)" for a pa by (simp add: identity_page_def Let_def takes_refl takes_entry)
  then show ?thesis unfolding identity_fill_def Let_def by (intro takes_trans [OF takes_fold takes_fold] takes_entry)
qed

lemma takes_fb: "map_fb B (m, out) = (Val (), m', out') \<Longrightarrow> takes m m'"
proof -
  assume r: "map_fb B (m, out) = (Val (), m', out')"
  have pages: "takes a (fold (fb_page pd) ks a)" for a pd ks by (rule takes_fold) (simp add: fb_page_def Let_def takes_entry)
  show ?thesis
  proof (cases "g_fbsize m = 0 \<or> fb_pdpt m = 0 \<or> phys m (pdpt_low B) (fb_pdpt m) AND PTE_P \<noteq> 0")
    case True
    then show ?thesis using r pages by (auto simp: map_fb_def on_tab_def takes_refl Let_def split: if_splits)
  next
    case False
    then obtain pd x where "boot_alloc (m, out) = (Val pd, x)"
      "m' = fold (fb_page pd) (fb_pages m) (set_entry (pdpt_low B) (fb_pdpt m) (pd OR PTE_P OR PTE_RW) (fst x))"
      using r by (auto simp: map_fb_def on_tab_def Let_def elim!: seq_ValE)
    then show ?thesis using takes_alloc [of m out pd "fst x" "snd x"] takes_trans pages takes_entry by (metis prod.collapse)
  qed
qed

lemma takes_mmio: "map_mmio ft B (m, out) = (Val (), m', out') \<Longrightarrow> takes m m'"
proof -
  assume r: "map_mmio ft B (m, out) = (Val (), m', out')"
  define w where "w mpd = fold (\<lambda>k. let pa = 0xFE000000 + of_nat k * PAGE2M
                       in set_entry mpd (pidx 21 pa) (pa OR PTE_P OR PTE_RW OR PTE_PS OR PTE_PWT OR PTE_PCD)) [0..<16]" for mpd
  have w: "takes a (w pd a)" for a pd unfolding w_def by (rule takes_fold) (simp only: Let_def takes_entry)
  note e = map_mmio_def [of ft B, folded w_def]
  show ?thesis
  proof (cases "phys m (pdpt_low B) 3 AND PTE_P \<noteq> 0")
    case True
    then have "m' = w (phys m (pdpt_low B) 3 AND PTE_ADDR) m" using r by (simp add: e on_tab_def)
    then show ?thesis using w by simp
  next
    case False
    then obtain pd x where "boot_alloc (m, out) = (Val pd, x)" "m' = w pd (set_entry (pdpt_low B) 3 (pd OR PTE_P OR PTE_RW) (fst x))"
      using r by (auto simp: e on_tab_def halt_no_Val elim!: seq_ValE split: if_splits)
    then show ?thesis using takes_alloc [of m out pd "fst x" "snd x"] takes_trans w takes_entry by (metis prod.collapse)
  qed
qed

lemma init_frames:
  assumes run: "mem64_init ft B mb_info (m, out) = (Val (), m', out')" and free: "\<not> mem_locked m"
    and img: "unat (kernel_end B) < 2 ^ 63"
    and scan: "scan_tags (mb_bytes B) mb_info (m\<lparr>vmm_root := pml4_addr B\<rparr>) = Some (s, rs)" "unat (g_fb s) + unat (g_fbsize s) + 4095 < 2 ^ 64"
  shows "pmm_inv m' \<and> \<not> mem_locked m' \<and>
    (\<forall>f \<in> free_set m'. 2 ^ 21 \<le> f * 4096 \<and> unat (kernel_end B) \<le> f * 4096 \<and> f \<notin> fb_frames s \<and>
       (\<exists>base len. usable (mb_bytes B) mb_info base len \<and> unat base \<le> f * 4096 \<and> (f + 1) * 4096 \<le> unat base + unat len))"
proof -
  note sc = scan_ranges [OF scan(1)]
  then have ok: "\<forall>r \<in> set rs. range_ok r" by (auto simp: cut_of_def)
  note bm = build_bitmap_ok [OF ok scan(2), of B]
  let ?m1 = "build_bitmap B rs s"
  have l: "\<not> mem_locked ?m1" using bm(2) sc(2) free by simp
  from run scan(1) obtain x1 x2 where p: "alloc_pds ft B (?m1, out) = (Val (), x1)"
    "map_fb B (identity_fill B (fst x1), snd x1) = (Val (), x2)" "map_mmio ft B x2 = (Val (), m', snd (snd (map_mmio ft B x2)))"
    unfolding mem64_init_def by (auto simp: on_tab_def halt_no_Val elim!: seq_ValE split: if_splits)
  have "takes ?m1 m'"
    using takes_pds [of ft B ?m1 out "fst x1" "snd x1"] takes_fill [of "fst x1" B]
      takes_fb [of B "identity_fill B (fst x1)" "snd x1" "fst x2" "snd x2"] takes_mmio [of ft B "fst x2" "snd x2" m'] p
    by (metis prod.collapse takes_trans)
  then have t: "pmm_inv m'" "\<not> mem_locked m'" "free_set m' \<subseteq> free_set ?m1" using bm(1) l by (auto simp: takes_def)
  have "2 ^ 21 \<le> f * 4096 \<and> unat (kernel_end B) \<le> f * 4096 \<and> f \<notin> fb_frames s \<and>
       (\<exists>base len. usable (mb_bytes B) mb_info base len \<and> unat base \<le> f * 4096 \<and> (f + 1) * 4096 \<le> unat base + unat len)" if mem: "f \<in> free_set m'" for f
  proof -
    obtain r where r: "r \<in> set rs" "f \<in> range_frames (reserve_top B) r" "f \<notin> fb_frames s" using mem t(3) unfolding bm(6) by blast
    obtain len where "usable (mb_bytes B) mb_info (fst r) len" "unat (snd r) \<le> unat len" using sc(1) r(1) by (auto simp: cut_of_def)
    then show ?thesis using r reserve_top_ok(2) [of B] reserve_top_ok(3) [OF img] unfolding range_frames_def
      by (intro conjI exI [of _ "fst r"] exI [of _ len]) auto
  qed
  then show ?thesis using t(1,2) by blast
qed

text \<open>
  C10.  \<^bold>\<open>Only usable RAM is handed out.\<close>  When \<^verbatim>\<open>mem64_init\<close> returns, the allocator's bitmap and its counter of free frames
  agree and frame 0 is reserved (\<open>pmm_inv\<close>), the lock is free, and every frame it may hand out lies in a range the memory map lists as usable,
  at or above 2 MB, at or above the end of the kernel image, and outside the framebuffer when that sits inside RAM.
\<close>

theorem mem64_init_frames:
  assumes run: "mem64_init ft B mb_info (m, out) = (Val (), m', out')" and free: "\<not> mem_locked m"
    and img: "unat (kernel_end B) < 2 ^ 63"
    and scan: "scan_tags (mb_bytes B) mb_info (m\<lparr>vmm_root := pml4_addr B\<rparr>) = Some (s, rs)" "unat (g_fb s) + unat (g_fbsize s) + 4095 < 2 ^ 64"
  shows "pmm_inv m' \<and> \<not> mem_locked m' \<and>
    (\<forall>f \<in> free_set m'. 2 ^ 21 \<le> f * 4096 \<and> unat (kernel_end B) \<le> f * 4096 \<and> f \<notin> fb_frames s \<and>
       (\<exists>base len. usable (mb_bytes B) mb_info base len \<and> unat base \<le> f * 4096 \<and> (f + 1) * 4096 \<le> unat base + unat len))"
  using assms by (rule init_frames)

section \<open>Witnesses\<close>

text \<open>An information structure at 4 KB: one memory map with one usable entry, the 16 KB at 2 MB, and the end tag.\<close>

definition sample_info :: "u64 \<Rightarrow> u8" where
  "sample_info a =
     (let k = unat (a - 0x1000)
      in if k = 0 then 56 else if k = 8 then 6 else if k = 12 then 40 else if k = 16 then 24
         else if k = 26 then 0x20 else if k = 33 then 0x40 else if k = 40 then 1 else if k = 52 then 8 else 0)"

definition sample_in :: boot_in where
  "sample_in = \<lparr>mb_bytes = sample_info, kernel_end = 0x180000, pml4_addr = 0x101000, pdpt_low = 0x102000, pd_low = 0x103000, efer = 0x900\<rparr>"

lemma sample_words: "ld32 sample_info 0x1000 = 56" "ld32 sample_info 0x1008 = 6" "ld32 sample_info 0x100C = 40" "ld32 sample_info 0x1010 = 24"
  "ld32 sample_info 0x1028 = 1" "ld64 sample_info 0x1018 = 0x200000" "ld64 sample_info 0x1020 = 0x4000" "ld32 sample_info 0x1030 = 0"
  by (simp_all add: ld32_def ld64_def sample_info_def)

lemma sample_words8: "ld32 sample_info 0x1034 = 8"
  by (simp add: ld32_def ld64_def sample_info_def)

lemma sample_tags: "mb_tags sample_info 0x1038 0x1008 = Some [(0x1008, 6, 40)]"
proof -
  have "mb_tags sample_info 0x1038 0x1030 = Some []" by (subst mb_tags.simps) (simp add: sample_words sample_words8)
  then show ?thesis by (subst mb_tags.simps) (simp add: sample_words)
qed

lemma sample_entries: "mb_entries 0x1030 24 0x1018 = Some [0x1018]"
proof -
  have "mb_entries 0x1030 24 0x1030 = Some []" by (subst mb_entries.simps) simp
  then show ?thesis by (subst mb_entries.simps) simp
qed

definition sample_raw :: mem64 where
  "sample_raw = sample_mem\<lparr>mem_top := 0\<rparr>"

lemma sample_scan: "scan_tags sample_info 0x1000 (sample_raw\<lparr>vmm_root := 0x101000\<rparr>) =
  Some (sample_raw\<lparr>vmm_root := 0x101000, mem_top := 0x204000\<rparr>, [(0x200000, 0x4000)])"
  by (simp add: scan_tags_def sample_words sample_tags boot_tag_def sample_entries memmap_entry_def GB4_def sample_raw_def sample_mem_def)

lemma sample_bitmap:
  defines "m1 \<equiv> build_bitmap sample_in [(0x200000, 0x4000)] (sample_raw\<lparr>vmm_root := 0x101000, mem_top := 0x204000\<rparr>)"
  shows "pmm_inv m1" "\<not> mem_locked m1" "g_fbsize m1 = 0" "mem_top m1 = 0x204000" "free_set m1 = {512..<516}"
proof -
  let ?s = "sample_raw\<lparr>vmm_root := 0x101000, mem_top := 0x204000\<rparr>"
  have ok: "\<forall>r \<in> set [(0x200000, 0x4000)]. range_ok r" by (simp add: range_ok_def)
  have z: "g_fb ?s = 0" "g_fbsize ?s = 0" by (simp_all add: sample_raw_def sample_mem_def)
  have w: "unat (g_fb ?s) + unat (g_fbsize ?s) + 4095 < 2 ^ 64" unfolding z by simp
  note b = build_bitmap_ok [OF ok w, of sample_in, folded m1_def]
  show "pmm_inv m1" "\<not> mem_locked m1" "g_fbsize m1 = 0" "mem_top m1 = 0x204000" using b z by (simp_all add: sample_raw_def sample_mem_def)
  have "reserve_top sample_in = 0x200000" by (simp add: reserve_top_def sample_in_def RESERVE_TOP_def PAGE4K_def)
  then show "free_set m1 = {512..<516}"
    unfolding b(6) range_frames_def fb_frames_def z by (auto simp: PMM_MAX_FRAMES_def)
qed

lemma alloc_some: "\<not> mem_locked m \<Longrightarrow> pmm_inv m \<Longrightarrow> free_set m \<noteq> {} \<Longrightarrow> \<exists>pa m'. boot_alloc (m, out) = (Val pa, m', out) \<and> pa \<noteq> 0"
proof -
  assume l: "\<not> mem_locked m" "pmm_inv m" "free_set m \<noteq> {}"
  let ?m = "m\<lparr>mem_locked := True\<rparr>"
  have f: "free_set ?m = free_set m" by (rule free_set_cong) simp
  have "Min (free_set m) < PMM_MAX_FRAMES" "Min (free_set m) \<noteq> 0"
    using Min_free_set [OF l(3)] free_set_bound pmm_inv_free_pos [OF l(2)] by (blast, fastforce)
  then have "(of_nat (Min (free_set m)) * 4096 :: u64) \<noteq> 0" by (simp only: frame_addr_eq_0_iff simp_thms)
  then show ?thesis using l f by (simp add: boot_alloc_def pmm_alloc_def mem_lock_acquire_def pmm_alloc_inner_eq)
qed

lemma mmio_some:
  assumes "\<not> mem_locked m" "pmm_inv m" "free_set m \<noteq> {}"
  shows "\<exists>x. map_mmio ft B (m, out) = (Val (), x)"
proof (cases "phys m (pdpt_low B) 3 AND PTE_P \<noteq> 0")
  case False
  obtain pa m' where "boot_alloc (m, out) = (Val pa, m', out)" "pa \<noteq> 0" using alloc_some [OF assms] by blast
  then show ?thesis using False by (simp add: map_mmio_def on_tab_def del: upt_rec_numeral upt_Suc)
qed (simp add: map_mmio_def on_tab_def del: upt_rec_numeral upt_Suc)

definition sample_log :: ser where
  "sample_log = ([], boot_desk)"

lemma sample_init: "\<exists>m' out'. mem64_init ft sample_in 0x1000 (sample_raw, out) = (Val (), m', out')"
proof -
  define m1 where "m1 = build_bitmap sample_in [(0x200000, 0x4000)] (sample_raw\<lparr>vmm_root := 0x101000, mem_top := 0x204000\<rparr>)"
  note b = sample_bitmap [folded m1_def]
  have "need_idx m1 = []" using b(3,4) by (simp add: need_idx_def top2m_def PAGE2M_def)
  then have a: "alloc_pds ft sample_in (m1, out) = (Val (), m1, out)" by (simp add: alloc_pds_def)
  let ?m2 = "identity_fill sample_in m1"
  have f: "g_fbsize (identity_fill B m) = g_fbsize m \<and> pmm_bits (identity_fill B m) = pmm_bits m \<and> mem_locked (identity_fill B m) = mem_locked m
     \<and> pmm_free_n (identity_fill B m) = pmm_free_n m" for B m
  proof -
    have i: "g_fbsize (fold f xs m) = g_fbsize m \<and> pmm_bits (fold f xs m) = pmm_bits m \<and> mem_locked (fold f xs m) = mem_locked m
     \<and> pmm_free_n (fold f xs m) = pmm_free_n m"
      if "\<And>x m. g_fbsize (f x m) = g_fbsize m \<and> pmm_bits (f x m) = pmm_bits m \<and> mem_locked (f x m) = mem_locked m \<and> pmm_free_n (f x m) = pmm_free_n m"
      for f :: "nat \<Rightarrow> mem64 \<Rightarrow> mem64" and xs m using that by (induction xs arbitrary: m) simp_all
    show ?thesis unfolding identity_fill_def Let_def
      by (simp add: i set_entry_def identity_page_def Let_def)
  qed
  have m2: "\<not> mem_locked ?m2" "pmm_inv ?m2" "free_set ?m2 \<noteq> {}" "g_fbsize ?m2 = 0"
    using b f [of sample_in m1] pmm_inv_cong [of ?m2 m1] free_set_cong [of ?m2 m1] by simp_all
  have "map_fb sample_in (?m2, out) = (Val (), ?m2, out)" using m2(4) by (simp add: map_fb_def)
  moreover obtain x where "map_mmio ft sample_in (?m2, out) = (Val (), x)" using mmio_some [OF m2(1-3)] by blast
  moreover have "mem_top m1 \<noteq> 0" using b(4) by simp
  moreover have "scan_tags (mb_bytes sample_in) 0x1000 (sample_raw\<lparr>vmm_root := pml4_addr sample_in\<rparr>) =
      Some (sample_raw\<lparr>vmm_root := 0x101000, mem_top := 0x204000\<rparr>, [(0x200000, 0x4000)])"
    using sample_scan by (simp add: sample_in_def)
  ultimately show ?thesis using a by (simp add: mem64_init_def on_tab_def m1_def [symmetric])
qed

lemma mem64_init_frames_witness:
  "\<exists>m' out'. mem64_init (\<lambda>_ _. 0) sample_in 0x1000 (sample_raw, sample_log) = (Val (), m', out') \<and> pmm_inv m' \<and> free_set m' \<subseteq> {512..}"
proof -
  obtain m' out' where r: "mem64_init (\<lambda>_ _. 0) sample_in 0x1000 (sample_raw, sample_log) = (Val (), m', out')" using sample_init by blast
  have s: "scan_tags (mb_bytes sample_in) 0x1000 (sample_raw\<lparr>vmm_root := pml4_addr sample_in\<rparr>) =
      Some (sample_raw\<lparr>vmm_root := 0x101000, mem_top := 0x204000\<rparr>, [(0x200000, 0x4000)])"
    using sample_scan by (simp add: sample_in_def)
  have "pmm_inv m' \<and> (\<forall>f \<in> free_set m'. 2 ^ 21 \<le> f * 4096)"
    using mem64_init_frames [OF r _ _ s] by (simp add: sample_raw_def sample_mem_def sample_in_def)
  then have "pmm_inv m' \<and> free_set m' \<subseteq> {512..}" by fastforce
  with r show ?thesis by blast
qed


end
