(* ===== verification/Kmain.thy ===== *)
theory Kmain
  imports Kernel_Inv Boot_Proofs
begin

text \<open>
  The boot path of \<^verbatim>\<open>kernel64_main\<close> in \<^verbatim>\<open>src/kernel64.c\<close>, from its first message to the thirteen tasks it starts: the boot
  information and the options on the command line, memory, console, image and asset registries, the task table
  and the demos.  The registers, cycle counters and images it finds are inputs.
\<close>

record boot_cpu =
  b_magic :: u64
  b_cs :: u16
  b_cr0 :: u64
  b_cr3 :: u64
  b_cr4 :: u64
  b_seed :: u64
  b_start :: u64
  b_bench :: "u64 \<times> u64"
  b_spawned :: u64

section \<open>Boot information\<close>

record boot_scan =
  n_tags :: nat
  usable_ram :: u64
  i_fb_addr :: u64
  i_fb_pitch :: u32
  i_fb_w :: u32
  i_fb_h :: u32
  i_fb_bpp :: u32
  cmdline :: "u64 option"

definition main_entry :: "(u64 \<Rightarrow> u8) \<Rightarrow> u64 \<Rightarrow> boot_scan \<Rightarrow> boot_scan" where
  "main_entry b e x =
     (let top = ld64 b e + ld64 b (e + 8)
      in if ld32 b (e + 16) = 1 \<and> top > usable_ram x then x\<lparr>usable_ram := top\<rparr> else x)"

definition main_tag :: "(u64 \<Rightarrow> u8) \<Rightarrow> u64 \<times> u32 \<times> u32 \<Rightarrow> boot_scan \<Rightarrow> boot_scan option" where
  "main_tag b t x =
     (let (p, ty, sz) = t; x = x\<lparr>n_tags := Suc (n_tags x)\<rparr>
      in if ty = 1 then Some (x\<lparr>cmdline := Some (p + 8)\<rparr>)
         else if ty = 6 then
           Option.bind (mb_entries (p + ucast sz) (ucast (ld32 b (p + 8))) (p + 16)) (\<lambda>es. Some (fold (main_entry b) es x))
         else if ty = 8 then
           Some (x\<lparr>i_fb_addr := ld64 b (p + 8), i_fb_pitch := ld32 b (p + 16), i_fb_w := ld32 b (p + 20), i_fb_h := ld32 b (p + 24),
                   i_fb_bpp := ucast (b (p + 28))\<rparr>)
         else Some x)"

definition main_scan :: "(u64 \<Rightarrow> u8) \<Rightarrow> u64 \<Rightarrow> boot_scan option" where
  "main_scan b mb_info =
     Option.bind (mb_tags b (mb_info + ucast (ld32 b mb_info)) (mb_info + 8)) (\<lambda>ts.
     fold (\<lambda>t x. Option.bind x (main_tag b t)) ts
       (Some \<lparr>n_tags = 0, usable_ram = 0, i_fb_addr = 0, i_fb_pitch = 0, i_fb_w = 0, i_fb_h = 0, i_fb_bpp = 0, cmdline = None\<rparr>))"

section \<open>The command line\<close>

text \<open>The positions a loop over the command line visits: it stops at 256, at the terminating NUL, or when the byte \<open>n\<close>
  places on is no longer inside the boot information.\<close>

definition cmd_span :: "(u64 \<Rightarrow> u8) \<Rightarrow> u64 \<Rightarrow> u64 \<Rightarrow> nat \<Rightarrow> nat list" where
  "cmd_span b en c n = takeWhile (\<lambda>i. \<not> c + of_nat i + of_nat n \<ge> en \<and> b (c + of_nat i) \<noteq> 0) [0..<256]"

definition cmd_at :: "(u64 \<Rightarrow> u8) \<Rightarrow> u64 \<Rightarrow> nat \<Rightarrow> string \<Rightarrow> bool" where
  "cmd_at b c i w \<longleftrightarrow> (\<forall>j < length w. b (c + of_nat (i + j)) = of_char (w ! j))"

definition has_cmd :: "u64 \<Rightarrow> u64 option \<Rightarrow> bool" where
  "has_cmd en c \<longleftrightarrow> (case c of None \<Rightarrow> False | Some c \<Rightarrow> c < en)"

text \<open>Substring options.\<close>

definition cmd_flag :: "(u64 \<Rightarrow> u8) \<Rightarrow> u64 \<Rightarrow> u64 option \<Rightarrow> string \<Rightarrow> bool" where
  "cmd_flag b en c w \<longleftrightarrow> has_cmd en c \<and> list_ex (\<lambda>i. cmd_at b (the c) i w) (cmd_span b en (the c) (length w))"

text \<open>The option that has to be a word of its own.\<close>

definition cmd_gui :: "(u64 \<Rightarrow> u8) \<Rightarrow> u64 \<Rightarrow> u64 option \<Rightarrow> bool" where
  "cmd_gui b en c \<longleftrightarrow> has_cmd en c \<and>
     list_ex (\<lambda>i. cmd_at b (the c) i ''gui'' \<and> (b (the c + of_nat (i + 3)) = 0 \<or> b (the c + of_nat (i + 3)) = 32) \<and>
                  (i = 0 \<or> b (the c + of_nat i - 1) = 32)) (cmd_span b en (the c) 3)"

section \<open>Messages\<close>

definition k_puts :: "font \<Rightarrow> string \<Rightarrow> (k64, unit) opn" where
  "k_puts ft msg = modify (say (s_puts ft (lit msg)))"

definition k_hex :: "font \<Rightarrow> u64 \<Rightarrow> (k64, unit) opn" where
  "k_hex ft v = modify (say (s_hex64 ft v))"

definition k_hex32 :: "font \<Rightarrow> u32 \<Rightarrow> (k64, unit) opn" where
  "k_hex32 ft v = modify (say (s_hex32 ft v))"

definition k_dec :: "font \<Rightarrow> u64 \<Rightarrow> (k64, unit) opn" where
  "k_dec ft v = modify (say (s_dec64 ft v))"

definition k_putc :: "font \<Rightarrow> u8 \<Rightarrow> (k64, unit) opn" where
  "k_putc ft c = modify (say (s_putc ft c))"

definition k_bit :: "font \<Rightarrow> nat \<Rightarrow> u64 \<Rightarrow> (k64, unit) opn" where
  "k_bit ft n v = k_putc ft (if bit v n then 49 else 48)"

definition all_of :: "(k64, unit) opn list \<Rightarrow> (k64, unit) opn" where
  "all_of ms = for_each (\<lambda>m. m) ms"

definition show_cpu :: "font \<Rightarrow> boot_cpu \<Rightarrow> u64 \<Rightarrow> (k64, unit) opn" where
  "show_cpu ft c e =
     all_of [k_puts ft ''[K64] CR3='', k_hex ft (b_cr3 c), k_puts ft '' EFER='', k_hex ft e, k_puts ft ''\<newline>[K64] CR0.PG='', k_bit ft 31 (b_cr0 c),
       k_puts ft '' CR4.PAE='', k_bit ft 5 (b_cr4 c), k_puts ft '' EFER.LME='', k_bit ft 8 e, k_puts ft ''\<newline>'']"

definition show_scan :: "font \<Rightarrow> boot_scan \<Rightarrow> (k64, unit) opn" where
  "show_scan ft x =
     all_of [k_puts ft ''[K64] tags='', k_dec ft (of_nat (n_tags x)), k_puts ft '' usable_ram_top='', k_hex ft (usable_ram x),
       k_puts ft ''\<newline>[K64] fb addr='', k_hex ft (i_fb_addr x), k_puts ft '' '', k_dec ft (ucast (i_fb_w x)), k_putc ft 120, k_dec ft (ucast (i_fb_h x)),
       k_puts ft ''x'', k_dec ft (ucast (i_fb_bpp x)), k_puts ft '' pitch='', k_dec ft (ucast (i_fb_pitch x)), k_puts ft ''\<newline>'']"

definition show_cmd :: "font \<Rightarrow> (u64 \<Rightarrow> u8) \<Rightarrow> u64 \<Rightarrow> u64 option \<Rightarrow> (k64, unit) opn" where
  "show_cmd ft b en c =
     (if has_cmd en c then
        all_of ([k_puts ft ''[K64] cmdline=\"''] @ map (\<lambda>i. k_putc ft (b (the c + of_nat i))) (cmd_span b en (the c) 0) @ [k_puts ft ''\"\<newline>''])
      else ret ())"

section \<open>Memory, console, registries\<close>

definition on_boot :: "(boot_st, 'a) opn \<Rightarrow> (k64, 'a) opn" where
  "on_boot f k = (case f (mm k, (tx k, dsk k)) of (r, (m, (t, d))) \<Rightarrow> (r, k\<lparr>mm := m, tx := t, dsk := d\<rparr>))"

definition k_desk :: "(desk \<Rightarrow> 'a \<times> desk) \<Rightarrow> (k64, 'a) opn" where
  "k_desk f k = (case f (dsk k) of (a, d) \<Rightarrow> (Val a, k\<lparr>dsk := d\<rparr>))"

definition start_cons :: "font \<Rightarrow> boot_scan \<Rightarrow> (k64, unit) opn" where
  "start_cons ft x =
     seq (k_desk (cons_init ft (i_fb_addr x) (i_fb_pitch x) (i_fb_w x) (i_fb_h x) (i_fb_bpp x))) (\<lambda>ok.
     k_puts ft (if ok then ''[K64] cons: framebuffer console live\<newline>'' else ''[K64] cons: no usable framebuffer, serial only\<newline>''))"

definition present_bench :: "font \<Rightarrow> u64 \<times> u64 \<Rightarrow> (k64, unit) opn" where
  "present_bench ft ts =
     seq (gets (\<lambda>k. live (con (dsk k)))) (\<lambda>on.
     if on then
       seq (for_each (\<lambda>_. k_desk (\<lambda>d. ((), cons_present ft (d\<lparr>con := cons_mark_dirty 0 16 (con d)\<rparr>)))) [0..<32 :: nat]) (\<lambda>_.
       all_of [k_puts ft ''PERF present-band tsc='', k_dec ft ((snd ts - fst ts) div 32), k_puts ft ''\<newline>''])
     else ret ())"

definition demo_images :: "string list" where
  "demo_images = [''hello'', ''fpu'', ''clone'', ''forkdemo'', ''execdemo'', ''execchild'', ''shell'', ''argdemo'', ''shelltest'', ''brkdemo'',
     ''nxtest'', ''asldemo'', ''smptest'', ''mousedemo'', ''gfxdemo'', ''winsrv'', ''term'', ''fsdemo'', ''fswrite'']"

definition desk_assets :: "string list" where
  "desk_assets = [''wallpaper'', ''icon_term'', ''icon_demo'']"

definition register_images :: "(string \<Rightarrow> u8 list) \<Rightarrow> (string \<Rightarrow> u8 list) \<Rightarrow> (k64, unit) opn" where
  "register_images img ast =
     modify (\<lambda>k. k\<lparr>execs := fold (\<lambda>n. exec_register (Some n) (img n)) demo_images (execs k),
                  blobs := fold (\<lambda>n. blob_register (Some n) (ast n)) desk_assets (blobs k)\<rparr>)"

section \<open>The first tasks\<close>

definition boot_target :: "layout \<Rightarrow> bool \<Rightarrow> (k64, nat) opn" where
  "boot_target L gui =
     (if gui then
        seq (k_puts (font L) ''[K64] boot target: desktop (winsrv)\<newline>'') (\<lambda>_. task64_spawn_args L 0 ''winsrv'' [lit ''winsrv'', lit ''boot''])
      else task64_spawn_image L 0 ''shell'')"

definition boot_tasks :: "layout \<Rightarrow> bool \<Rightarrow> (k64, nat) opn list" where
  "boot_tasks L gui =
     map (task64_spawn_image L 0) [''hello'', ''fpu'', ''clone'', ''forkdemo'', ''execdemo''] @ [boot_target L gui] @
     map (task64_spawn_image L 0) [''shelltest'', ''brkdemo'', ''nxtest'', ''asldemo'', ''smptest'', ''fsdemo'', ''fswrite'']"

text \<open>Every start is tried; the results are looked at afterwards.\<close>

primrec try_all :: "(k64, nat) opn list \<Rightarrow> (k64, nat option list) opn" where
  "try_all [] = ret []"
| "try_all (m # ms) = seq (attempt m) (\<lambda>r. seq (try_all ms) (\<lambda>rs. ret (r # rs)))"

definition k_halt :: "font \<Rightarrow> string \<Rightarrow> (k64, 'a) opn" where
  "k_halt ft msg = seq (k_puts ft msg) (\<lambda>_. trap)"

text \<open>The messages and the check before the boot information is read, and those after it.\<close>

definition boot_intro :: "layout \<Rightarrow> boot_in \<Rightarrow> boot_cpu \<Rightarrow> u64 \<Rightarrow> (k64, unit) opn" where
  "boot_intro L B c mb_info =
     (let ft = font L
      in seq (k_puts ft ''\<newline>[KERNEL64] boot start (long mode)\<newline>'') (\<lambda>_.
         seq (modify (\<lambda>k. k\<lparr>rnd := aslr_seed (b_seed c) (rnd k)\<rparr>)) (\<lambda>_.
         seq (all_of [k_puts ft ''[K64] magic='', k_hex32 ft (ucast (b_magic c)), k_puts ft '' mb_info='', k_hex ft mb_info, k_puts ft '' cs='',
                k_hex32 ft (ucast (b_cs c)), k_puts ft ''\<newline>'']) (\<lambda>_.
         if (ucast (b_magic c) :: u32) \<noteq> 0x36D76289 then k_halt ft ''[K64] FAIL: bad multiboot2 magic (want 0x36D76289)\<newline>''
         else
           seq (show_cpu ft c (efer B)) (\<lambda>_.
           all_of [k_puts ft ''[K64] mb_total_size='', k_dec ft (ucast (ld32 (mb_bytes B) mb_info)), k_puts ft ''\<newline>''])))))"

definition boot_show :: "font \<Rightarrow> (u64 \<Rightarrow> u8) \<Rightarrow> u64 \<Rightarrow> boot_scan \<Rightarrow> (k64, unit) opn" where
  "boot_show ft b en x =
     seq (show_scan ft x) (\<lambda>_. seq (show_cmd ft b en (cmdline x)) (\<lambda>_. k_puts ft ''[K64] BOOTED KERNEL64 LOOP\<newline>''))"

text \<open>Everything up to the first tasks, with what starting each of them gave.\<close>

definition boot_system :: "layout \<Rightarrow> boot_in \<Rightarrow> boot_cpu \<Rightarrow> (string \<Rightarrow> u8 list) \<Rightarrow> (string \<Rightarrow> u8 list) \<Rightarrow> u64 \<Rightarrow> (k64, nat option list) opn" where
  "boot_system L B c img ast mb_info =
     (let ft = font L; b = mb_bytes B; en = mb_info + ucast (ld32 b mb_info)
      in seq (boot_intro L B c mb_info) (\<lambda>_.
         case main_scan b mb_info of
           None \<Rightarrow> trap
         | Some x \<Rightarrow>
             seq (boot_show ft b en x) (\<lambda>_.
             seq (on_boot (mem64_init ft B mb_info)) (\<lambda>_.
             seq (start_cons ft x) (\<lambda>_.
             seq (present_bench ft (b_bench c)) (\<lambda>_.
             seq (register_images img ast) (\<lambda>_.
             seq (modify (task64_init L 0)) (\<lambda>_.
             try_all (boot_tasks (L\<lparr>flag_spawn_clone := cmd_flag b en (cmdline x) ''spawnclone''\<rparr>) (cmd_gui b en (cmdline x)))))))))))"

definition kernel64_main :: "layout \<Rightarrow> boot_in \<Rightarrow> boot_cpu \<Rightarrow> (string \<Rightarrow> u8 list) \<Rightarrow> (string \<Rightarrow> u8 list) \<Rightarrow> u64 \<Rightarrow> (k64, unit) opn" where
  "kernel64_main L B c img ast mb_info =
     seq (boot_system L B c img ast mb_info) (\<lambda>rs.
     if None \<in> set rs then k_halt (font L) ''[K64] FAIL: demo spawn broke\<newline>''
     else
       seq (k_puts (font L) ''[K64] M4 TASK OK (11 user demos)\<newline>'') (\<lambda>_.
       modify (say (perf_mark (font L) (b_spawned c) (lit ''boot-spawned'') (b_start c)))))"

end
