(* ===== verification/Kmain_Flags.thy ===== *)
theory Kmain_Flags
  imports Kmain "HOL-Library.Sublist"
begin

text \<open>
  The loops over the command line decide what they are meant to: \<^verbatim>\<open>gui\<close> as a word of the command line, \<^verbatim>\<open>noap\<close> and
  \<^verbatim>\<open>spawnclone\<close> as parts of it.
\<close>

section \<open>Options are what the command line says\<close>

text \<open>The command line as a string inside the boot information.\<close>

definition cmd_text :: "(u64 \<Rightarrow> u8) \<Rightarrow> u64 \<Rightarrow> u64 \<Rightarrow> u8 list \<Rightarrow> bool" where
  "cmd_text b en c cs \<longleftrightarrow>
     0 \<notin> set cs \<and> length cs < 256 \<and> (\<forall>i < length cs. b (c + of_nat i) = cs ! i) \<and> b (c + of_nat (length cs)) = 0 \<and>
     unat c + length cs < unat en \<and> unat en < 2 ^ 63"

fun words :: "u8 list \<Rightarrow> u8 list list" where
  "words [] = [[]]"
| "words (x # xs) = (if x = 32 then [] # words xs else (x # hd (words xs)) # tl (words xs))"

lemma words_hd: "hd (words cs) = takeWhile (\<lambda>x. x \<noteq> 32) cs"
  by (induction cs) auto

lemma words_nonempty [simp]: "words cs \<noteq> []"
  by (cases cs) simp_all

lemma words_tl: "w \<in> set (tl (words cs)) \<longleftrightarrow> (\<exists>ys zs. cs = ys @ 32 # zs \<and> w = takeWhile (\<lambda>x. x \<noteq> 32) zs)"
proof (induction cs)
  case (Cons x xs)
  have s: "set (words xs) = insert (hd (words xs)) (set (tl (words xs)))" by (cases "words xs") simp_all
  have e: "(\<exists>ys zs. x # xs = ys @ 32 # zs \<and> w = takeWhile (\<lambda>x. x \<noteq> 32) zs) \<longleftrightarrow>
      (x = 32 \<and> w = takeWhile (\<lambda>x. x \<noteq> 32) xs) \<or> (\<exists>ys zs. xs = ys @ 32 # zs \<and> w = takeWhile (\<lambda>x. x \<noteq> 32) zs)"
    by (auto simp: Cons_eq_append_conv)
  show ?case unfolding e using Cons s by (auto simp: words_hd)
qed simp

text \<open>A word of a text: bounded by blanks or the ends.\<close>

lemma words_iff:
  assumes "32 \<notin> set w"
  shows "w \<in> set (words cs) \<longleftrightarrow> (\<exists>ys zs. cs = ys @ w @ zs \<and> (ys = [] \<or> last ys = 32) \<and> (zs = [] \<or> hd zs = 32))"
proof -
  have t: "w = takeWhile (\<lambda>x. x \<noteq> 32) us \<longleftrightarrow> (\<exists>zs. us = w @ zs \<and> (zs = [] \<or> hd zs = 32))" for us
  proof
    assume "w = takeWhile (\<lambda>x. x \<noteq> 32) us"
    then show "\<exists>zs. us = w @ zs \<and> (zs = [] \<or> hd zs = 32)"
      using takeWhile_dropWhile_id [of "\<lambda>x. x \<noteq> 32" us] hd_dropWhile [of "\<lambda>x. x \<noteq> 32" us] by metis
  next
    assume "\<exists>zs. us = w @ zs \<and> (zs = [] \<or> hd zs = 32)"
    then obtain zs where z: "us = w @ zs" "zs = [] \<or> hd zs = 32" by blast
    have "takeWhile (\<lambda>x. x \<noteq> 32) us = w @ takeWhile (\<lambda>x. x \<noteq> 32) zs" unfolding z(1) using assms by (intro takeWhile_append2) auto
    then show "w = takeWhile (\<lambda>x. x \<noteq> 32) us" using z(2) by (cases zs) auto
  qed
  have "w \<in> set (words cs) \<longleftrightarrow> w = hd (words cs) \<or> w \<in> set (tl (words cs))" by (cases "words cs") auto
  also have "\<dots> \<longleftrightarrow> (\<exists>zs. cs = w @ zs \<and> (zs = [] \<or> hd zs = 32)) \<or> (\<exists>ys us zs. cs = ys @ 32 # us \<and> us = w @ zs \<and> (zs = [] \<or> hd zs = 32))"
    unfolding words_hd words_tl t by blast
  also have "\<dots> \<longleftrightarrow> (\<exists>ys zs. cs = ys @ w @ zs \<and> (ys = [] \<or> last ys = 32) \<and> (zs = [] \<or> hd zs = 32))"
  proof
    assume "(\<exists>zs. cs = w @ zs \<and> (zs = [] \<or> hd zs = 32)) \<or> (\<exists>ys us zs. cs = ys @ 32 # us \<and> us = w @ zs \<and> (zs = [] \<or> hd zs = 32))"
    then show "\<exists>ys zs. cs = ys @ w @ zs \<and> (ys = [] \<or> last ys = 32) \<and> (zs = [] \<or> hd zs = 32)"
    proof
      assume "\<exists>ys us zs. cs = ys @ 32 # us \<and> us = w @ zs \<and> (zs = [] \<or> hd zs = 32)"
      then obtain ys zs where "cs = (ys @ [32]) @ w @ zs" "zs = [] \<or> hd zs = 32" by auto
      then show ?thesis by (metis last_snoc)
    qed auto
  next
    assume "\<exists>ys zs. cs = ys @ w @ zs \<and> (ys = [] \<or> last ys = 32) \<and> (zs = [] \<or> hd zs = 32)"
    then obtain ys zs where y: "cs = ys @ w @ zs" "ys = [] \<or> last ys = 32" "zs = [] \<or> hd zs = 32" by blast
    show "(\<exists>zs. cs = w @ zs \<and> (zs = [] \<or> hd zs = 32)) \<or> (\<exists>ys us zs. cs = ys @ 32 # us \<and> us = w @ zs \<and> (zs = [] \<or> hd zs = 32))"
    proof (cases "ys = []")
      case False
      then have "cs = butlast ys @ 32 # (w @ zs)" using y(1,2) append_butlast_last_id [of ys] by simp
      then show ?thesis using y(3) by blast
    qed (use y in auto)
  qed
  finally show ?thesis .
qed

lemma upt_while: "i \<in> set (takeWhile P [0..<m]) \<longleftrightarrow> i < m \<and> (\<forall>j \<le> i. P j)"
proof (induction m)
  case (Suc m)
  show ?case
  proof (cases "\<forall>j < m. P j")
    case True
    then have "takeWhile P [0..<Suc m] = [0..<m] @ takeWhile P [m]" by (simp add: takeWhile_append)
    then show ?thesis using True by (auto simp: less_Suc_eq_le le_less)
  next
    case False
    then have "takeWhile P [0..<Suc m] = takeWhile P [0..<m]" by (auto simp: takeWhile_append)
    then show ?thesis using Suc False by (auto simp: less_Suc_eq)
  qed
qed simp

lemma span_text:
  assumes "cmd_text b en c cs" "n < 256"
  shows "i \<in> set (cmd_span b en c n) \<longleftrightarrow> i < length cs \<and> unat c + i + n < unat en"
proof -
  note t = assms(1) [unfolded cmd_text_def]
  have u: "unat (c + of_nat j + of_nat n) = unat c + j + n" if "j < 256" for j
  proof -
    have "unat (c + of_nat j) = unat c + j" using t that by (simp add: unat_word_ariths unat_of_nat)
    then show ?thesis using t that assms(2) by (simp add: unat_word_ariths unat_of_nat)
  qed
  have "i \<in> set (cmd_span b en c n) \<longleftrightarrow> i < 256 \<and> (\<forall>j \<le> i. unat c + j + n < unat en \<and> b (c + of_nat j) \<noteq> 0)"
    unfolding cmd_span_def upt_while using u by (auto simp: word_le_nat_alt not_le)
  also have "\<dots> \<longleftrightarrow> i < length cs \<and> unat c + i + n < unat en"
  proof
    assume a: "i < 256 \<and> (\<forall>j \<le> i. unat c + j + n < unat en \<and> b (c + of_nat j) \<noteq> 0)"
    then have "i < length cs" using t by (metis not_le)
    then show "i < length cs \<and> unat c + i + n < unat en" using a by blast
  next
    assume a: "i < length cs \<and> unat c + i + n < unat en"
    have "b (c + of_nat j) \<noteq> 0" if "j \<le> i" for j
    proof -
      have "j < length cs" using a that by simp
      then have "b (c + of_nat j) \<in> set cs" using t by simp
      then show ?thesis using t by metis
    qed
    then show "i < 256 \<and> (\<forall>j \<le> i. unat c + j + n < unat en \<and> b (c + of_nat j) \<noteq> 0)" using a t by auto
  qed
  finally show ?thesis .
qed

lemma at_text:
  assumes "cmd_text b en c cs" "0 \<notin> set (lit w)" "i < length cs"
  shows "cmd_at b c i w \<longleftrightarrow> i + length w \<le> length cs \<and> take (length w) (drop i cs) = lit w"
proof -
  note t = assms(1) [unfolded cmd_text_def]
  have b: "b (c + of_nat (i + j)) = cs ! (i + j)" if "i + j < length cs" for j using t that by blast
  show ?thesis
  proof
    assume a: "cmd_at b c i w"
    have l: "i + length w \<le> length cs"
    proof (rule ccontr)
      assume "\<not> i + length w \<le> length cs"
      then have "length cs - i < length w" "i + (length cs - i) = length cs" using assms(3) by auto
      then have "b (c + of_nat (length cs)) = of_char (w ! (length cs - i))" using a by (metis cmd_at_def)
      moreover have "of_char (w ! (length cs - i)) \<in> set (lit w)" using \<open>length cs - i < length w\<close> by (simp add: lit_def)
      ultimately show False using t assms(2) by metis
    qed
    moreover have "take (length w) (drop i cs) = lit w"
      using l a b by (intro nth_equalityI) (auto simp: lit_def cmd_at_def)
    ultimately show "i + length w \<le> length cs \<and> take (length w) (drop i cs) = lit w" by blast
  next
    assume a: "i + length w \<le> length cs \<and> take (length w) (drop i cs) = lit w"
    show "cmd_at b c i w" unfolding cmd_at_def
    proof (intro allI impI)
      fix j assume j: "j < length w"
      then have "take (length w) (drop i cs) ! j = cs ! (i + j)" using conjunct1 [OF a] by simp
      then have "cs ! (i + j) = lit w ! j" using a by metis
      then show "b (c + of_nat (i + j)) = of_char (w ! j)" using a b [of j] j by (simp add: lit_def)
    qed
  qed
qed

lemma flag_text:
  assumes "cmd_text b en c cs" "0 \<notin> set (lit w)" "w \<noteq> []" "length w < 256"
  shows "cmd_flag b en (Some c) w \<longleftrightarrow> sublist (lit w) cs"
proof -
  have h: "has_cmd en (Some c)" using assms(1) by (simp add: has_cmd_def cmd_text_def word_less_nat_alt)
  have l: "length (lit w) = length w" by (simp add: lit_def)
  have "cmd_flag b en (Some c) w \<longleftrightarrow> (\<exists>i. i < length cs \<and> unat c + i + length w < unat en \<and> i + length w \<le> length cs \<and> take (length w) (drop i cs) = lit w)"
    using h at_text [OF assms(1,2)] span_text [OF assms(1,4)] by (auto simp: cmd_flag_def list_ex_iff)
  also have "\<dots> \<longleftrightarrow> (\<exists>i. i + length w \<le> length cs \<and> take (length w) (drop i cs) = lit w)"
    using assms(1,3) unfolding cmd_text_def by (metis (no_types, lifting) add.assoc add_le_cancel_left le_add1 length_greater_0_conv less_add_same_cancel1 order.strict_trans1 order_less_le_trans)
  also have "\<dots> \<longleftrightarrow> sublist (lit w) cs"
  proof
    assume "\<exists>i. i + length w \<le> length cs \<and> take (length w) (drop i cs) = lit w"
    then show "sublist (lit w) cs" by (metis sublist_take sublist_drop sublist_order.order_trans)
  next
    assume "sublist (lit w) cs"
    then obtain ys zs where "cs = ys @ lit w @ zs" by (auto simp: sublist_def)
    then show "\<exists>i. i + length w \<le> length cs \<and> take (length w) (drop i cs) = lit w"
      by (intro exI [of _ "length ys"]) (simp add: l)
  qed
  finally show ?thesis .
qed

lemma gui_text:
  assumes t: "cmd_text b en c cs"
  shows "cmd_gui b en (Some c) \<longleftrightarrow> lit ''gui'' \<in> set (words cs)"
proof -
  have h: "has_cmd en (Some c)" using t by (simp add: has_cmd_def cmd_text_def word_less_nat_alt)
  have l: "length (lit ''gui'') = 3" "0 \<notin> set (lit ''gui'')" "32 \<notin> set (lit ''gui'')" by (simp_all add: lit_def)
  have at: "b (c + of_nat j) = (if j < length cs then cs ! j else 0)" if "j \<le> length cs" for j
    using t that unfolding cmd_text_def by (metis nat_less_le)
  have sp: "i \<in> set (cmd_span b en c 3) \<longleftrightarrow> i < length cs \<and> unat c + i + 3 < unat en" for i by (rule span_text [OF t]) simp
  have at3: "cmd_at b c i ''gui'' \<longleftrightarrow> i + 3 \<le> length cs \<and> take 3 (drop i cs) = lit ''gui''" if "i < length cs" for i
    using at_text [OF t l(2) that] by (simp add: numeral_3_eq_3)
  have end_ok: "b (c + of_nat (i + 3)) = 0 \<or> b (c + of_nat (i + 3)) = 32 \<longleftrightarrow> drop (i + 3) cs = [] \<or> hd (drop (i + 3) cs) = 32" if "i + 3 \<le> length cs" for i
  proof -
    have "0 \<notin> set cs" using t by (simp add: cmd_text_def)
    then have "i + 3 < length cs \<Longrightarrow> cs ! (i + 3) \<noteq> 0" by (metis nth_mem)
    then show ?thesis using at [OF that] by (auto simp: hd_drop_conv_nth)
  qed
  have start_ok: "i = 0 \<or> b (c + of_nat i - 1) = 32 \<longleftrightarrow> take i cs = [] \<or> last (take i cs) = 32" if "i < length cs" for i
  proof (cases i)
    case (Suc j)
    then have "c + of_nat i - 1 = c + of_nat j" by simp
    then show ?thesis using at [of j] that Suc by (auto simp: take_Suc_conv_app_nth)
  qed simp
  have "cmd_gui b en (Some c) \<longleftrightarrow> (\<exists>i. i < length cs \<and> unat c + i + 3 < unat en \<and> i + 3 \<le> length cs \<and> take 3 (drop i cs) = lit ''gui'' \<and>
     (drop (i + 3) cs = [] \<or> hd (drop (i + 3) cs) = 32) \<and> (take i cs = [] \<or> last (take i cs) = 32))"
  proof -
    have "(i \<in> set (cmd_span b en c 3) \<and> cmd_at b c i ''gui'' \<and> (b (c + of_nat (i + 3)) = 0 \<or> b (c + of_nat (i + 3)) = 32) \<and> (i = 0 \<or> b (c + of_nat i - 1) = 32)) \<longleftrightarrow>
      (i < length cs \<and> unat c + i + 3 < unat en \<and> i + 3 \<le> length cs \<and> take 3 (drop i cs) = lit ''gui'' \<and>
     (drop (i + 3) cs = [] \<or> hd (drop (i + 3) cs) = 32) \<and> (take i cs = [] \<or> last (take i cs) = 32))" for i
      using sp [of i] at3 [of i] end_ok [of i] start_ok [of i] by blast
    then show ?thesis unfolding cmd_gui_def list_ex_iff Bex_def option.sel using h by blast
  qed
  also have "\<dots> \<longleftrightarrow> (\<exists>ys zs. cs = ys @ lit ''gui'' @ zs \<and> (ys = [] \<or> last ys = 32) \<and> (zs = [] \<or> hd zs = 32))"
  proof
    assume "\<exists>i. i < length cs \<and> unat c + i + 3 < unat en \<and> i + 3 \<le> length cs \<and> take 3 (drop i cs) = lit ''gui'' \<and>
     (drop (i + 3) cs = [] \<or> hd (drop (i + 3) cs) = 32) \<and> (take i cs = [] \<or> last (take i cs) = 32)"
    then obtain i where i: "take 3 (drop i cs) = lit ''gui''" "drop (i + 3) cs = [] \<or> hd (drop (i + 3) cs) = 32" "take i cs = [] \<or> last (take i cs) = 32" by blast
    have "cs = take i cs @ take 3 (drop i cs) @ drop (i + 3) cs" by (metis append_take_drop_id drop_drop add.commute)
    then show "\<exists>ys zs. cs = ys @ lit ''gui'' @ zs \<and> (ys = [] \<or> last ys = 32) \<and> (zs = [] \<or> hd zs = 32)" unfolding i(1) using i(2,3) by blast
  next
    assume "\<exists>ys zs. cs = ys @ lit ''gui'' @ zs \<and> (ys = [] \<or> last ys = 32) \<and> (zs = [] \<or> hd zs = 32)"
    then obtain ys zs where y: "cs = ys @ lit ''gui'' @ zs" "ys = [] \<or> last ys = 32" "zs = [] \<or> hd zs = 32" by blast
    moreover have "unat c + length ys + 3 < unat en" using t y(1) l(1) by (simp add: cmd_text_def)
    ultimately show "\<exists>i. i < length cs \<and> unat c + i + 3 < unat en \<and> i + 3 \<le> length cs \<and> take 3 (drop i cs) = lit ''gui'' \<and>
     (drop (i + 3) cs = [] \<or> hd (drop (i + 3) cs) = 32) \<and> (take i cs = [] \<or> last (take i cs) = 32)"
      by (intro exI [of _ "length ys"]) (simp add: l(1))
  qed
  finally show ?thesis using words_iff [OF l(3)] by simp
qed

text \<open>
  C33.  \<^bold>\<open>Boot options.\<close>  For a command line of less than 256 bytes inside the boot information, the byte loops of \<^verbatim>\<open>kernel64_main\<close> are
  equivalent to their specification: the desktop is chosen exactly when \<^verbatim>\<open>gui\<close> is one of the blank-separated words, and
  \<^verbatim>\<open>noap\<close> and \<^verbatim>\<open>spawnclone\<close> exactly when the text contains them.
\<close>

theorem command_line_options:
  assumes "cmd_text b en c cs"
  shows "(cmd_gui b en (Some c) \<longleftrightarrow> lit ''gui'' \<in> set (words cs)) \<and>
    (cmd_flag b en (Some c) ''noap'' \<longleftrightarrow> sublist (lit ''noap'') cs) \<and> (cmd_flag b en (Some c) ''spawnclone'' \<longleftrightarrow> sublist (lit ''spawnclone'') cs)"
  using gui_text [OF assms] flag_text [OF assms, of "''noap''"] flag_text [OF assms, of "''spawnclone''"] by (simp add: lit_def)

definition sample_line :: "u64 \<Rightarrow> u8" where
  "sample_line a = (let k = unat (a - 0x1000) in if k < 9 then lit ''nogui gui'' ! k else 0)"

lemma sample_text: "cmd_text sample_line 0x2000 0x1000 (take 9 (lit ''nogui gui''))"
proof -
  have "sample_line (0x1000 + of_nat i) = take 9 (lit ''nogui gui'') ! i" if "i < 9" for i
    using that by (simp add: sample_line_def unat_of_nat)
  then show ?thesis by (simp add: cmd_text_def lit_def sample_line_def)
qed

lemma command_line_options_witness:
  "cmd_gui sample_line 0x2000 (Some 0x1000) \<and> \<not> cmd_flag sample_line 0x2000 (Some 0x1000) ''noap''"
proof -
  have w: "words (take 9 (lit ''nogui gui'')) = [lit ''nogui'', lit ''gui'']" by (simp add: lit_def)
  have n: "\<not> sublist (lit ''noap'') (take 9 (lit ''nogui gui''))" by (simp add: lit_def sublist_code)
  show ?thesis using command_line_options [OF sample_text] w n by simp
qed

end
