(* ===== verification/Kmain_Proofs.thy ===== *)
theory Kmain_Proofs
  imports Kmain_Flags
begin

text \<open>
  The boot path establishes the invariant of the whole kernel: what each stage of \<^verbatim>\<open>kernel64_main\<close> leaves alone, and that
  every start of a task is a sequence of elementary changes of the kernel's state machine.
\<close>

section \<open>Before the console\<close>

text \<open>What an operation of the early boot leaves alone: memory, files, and a desktop whose console is not live yet.\<close>

definition early :: "(k64, 'a) opn \<Rightarrow> bool" where
  "early m \<longleftrightarrow> (\<forall>k a k'. \<not> live (con (dsk k)) \<longrightarrow> m k = (Val a, k') \<longrightarrow> mm k' = mm k \<and> fsys k' = fsys k \<and> dsk k' = dsk k)"

named_theorems earlies \<open>operations of the early boot\<close>

lemma dark_putc: "\<not> live (con d) \<Longrightarrow> fold (cons_putc ft) bs d = d"
  by (induction bs) (simp_all add: cons_putc_def)

lemma early_say: "sends ft f bs \<Longrightarrow> early (modify (say f))"
  by (auto simp: early_def say_def sends_def dark_putc split: prod.splits)

lemma sends_hex32: "\<exists>bs. sends ft (s_hex32 ft v) bs"
proof -
  have a: "sends ft (\<lambda>s. s_putc_locked ft 120 (s_putc_locked ft 48 s)) [48, 120]" using sends_putc by (simp add: sends_def)
  have "sends ft (fold (\<lambda>i. s_putc_locked ft (hex_digit i v)) (rev [0..<8])) (concat (map (\<lambda>i. [hex_digit i v]) (rev [0..<8])))"
    by (rule sends_fold) (rule sends_putc)
  from sends_comp [OF a this] show ?thesis unfolding s_hex32_def by blast
qed

lemma early_prints [earlies]: "early (k_puts ft msg)" "early (k_hex ft v)" "early (k_hex32 ft u)" "early (k_dec ft v)" "early (k_putc ft c)" "early (k_bit ft n v)"
  using sends_hex32 [of ft u]
  by (auto simp: k_puts_def k_hex_def k_hex32_def k_dec_def k_bit_def k_putc_def s_putc_def intro: early_say sends_puts(1) sends_hex(2) sends_dec(2) sends_putc)

lemma early_seq [earlies]: "early m \<Longrightarrow> (\<And>a. early (f a)) \<Longrightarrow> early (seq m f)"
  unfolding early_def by (metis seq_ValE)

lemma early_basic [earlies]: "early (ret a)" "early (modify (\<lambda>k. k\<lparr>rnd := g k\<rparr>))"
  by (simp_all add: early_def)

lemma early_all: "(\<And>m. m \<in> set ms \<Longrightarrow> early m) \<Longrightarrow> early (all_of ms)"
  unfolding all_of_def by (induction ms) (auto intro!: earlies)

lemma early_shows [earlies]: "early (show_cpu ft c e)" "early (show_scan ft x)" "early (show_cmd ft b en cl)"
  unfolding show_cpu_def show_scan_def show_cmd_def by (auto intro!: early_all earlies)

section \<open>Memory\<close>

lemma alloc_out: "boot_alloc (m, out) = (Val pa, m', out') \<Longrightarrow> out' = out"
  by (auto simp: boot_alloc_def split: option.splits)

lemma pds_out: "alloc_pds ft B (m, out) = (Val (), m', out') \<Longrightarrow> out' = out"
proof -
  let ?f = "\<lambda>i. seq boot_alloc (\<lambda>pd. if pd = 0 then halt ft ''[K64] FAIL: out of low frames for page tables\<newline>''
        else on_tab (set_entry (pdpt_low B) i (pd OR PTE_P OR PTE_RW)))"
  have one: "?f i (m, out) = (Val (), m', out') \<Longrightarrow> out' = out" for i m out m' out'
    by (auto elim!: seq_ValE simp: halt_no_Val on_tab_def split: if_splits dest: alloc_out)
  have "for_each ?f ks (m, out) = (Val (), m', out') \<Longrightarrow> out' = out" for ks m out
  proof (induction ks arbitrary: m out)
    case (Cons i ks)
    from Cons.prems obtain u x where x: "?f i (m, out) = (Val u, x)" "for_each ?f ks x = (Val (), m', out')"
      unfolding for_each.simps by (rule seq_ValE)
    moreover obtain m1 o1 where "x = (m1, o1)" by (metis surj_pair)
    ultimately show ?case using one [of i m out m1 o1] Cons.IH [of m1 o1] by simp
  qed simp
  then show "alloc_pds ft B (m, out) = (Val (), m', out') \<Longrightarrow> out' = out" by (simp add: alloc_pds_def)
qed

lemma maps_out: "map_fb B (m, out) = (Val (), m', out') \<Longrightarrow> out' = out" "map_mmio ft B (m, out) = (Val (), m', out') \<Longrightarrow> out' = out"
  by (auto simp: map_fb_def map_mmio_def on_tab_def Let_def halt_no_Val simp del: upt_rec_numeral upt_Suc elim!: seq_ValE split: if_splits dest: alloc_out)

lemma init_out: "mem64_init ft B mb (m, out) = (Val (), m', out') \<Longrightarrow> out' = boot_report ft m' out"
proof -
  assume r: "mem64_init ft B mb (m, out) = (Val (), m', out')"
  then obtain m1 x1 x2 x3 where p: "alloc_pds ft B (m1, out) = (Val (), x1)" "map_fb B (identity_fill B (fst x1), snd x1) = (Val (), x2)"
    "map_mmio ft B x2 = (Val (), x3)" "m' = fst x3" "out' = boot_report ft (fst x3) (snd x3)"
    unfolding mem64_init_def by (auto simp: on_tab_def halt_no_Val elim!: seq_ValE split: if_splits option.splits)
  moreover obtain a1 o1 a2 o2 a3 o3 where "x1 = (a1, o1)" "x2 = (a2, o2)" "x3 = (a3, o3)" by (metis prod.exhaust)
  ultimately show ?thesis using pds_out [of ft B m1 out a1 o1] maps_out(1) [of B "identity_fill B a1" o1 a2 o2] maps_out(2) [of ft B a2 o2 a3 o3]
    by simp
qed

lemma report_sends: "\<exists>bs. sends ft (boot_report ft s) bs"
proof -
  let ?a = "\<lambda>o0. s_hex64 ft (mem_top s) (s_puts ft (lit ''[K64] M3 PMM top='') o0)"
  let ?b = "\<lambda>o1. s_dec64 ft (pmm_total_frames s) (s_puts ft (lit '' total='') o1)"
  let ?c = "\<lambda>o2. s_dec64 ft (pmm_free_frames s) (s_puts ft (lit '' free='') o2)"
  let ?d = "\<lambda>o3. s_putc ft (if nx_on s then 49 else 48) (s_puts ft (lit '' NX='') o3)"
  let ?e = "\<lambda>o4. s_puts ft [10] (s_hex64 ft (g_fb s) (s_puts ft (lit '' FB='') o4))"
  have "boot_report ft s = (\<lambda>o0. ?e (?d (?c (?b (?a o0)))))" by (rule ext) (simp add: boot_report_def Let_def)
  then show ?thesis unfolding s_putc_def
    by (simp only:) (rule exI, rule sends_comp [OF sends_comp [OF sends_comp [OF sends_comp [OF sends_comp [OF sends_puts(1) sends_hex(2)] sends_comp [OF sends_puts(1) sends_dec(2)]]
      sends_comp [OF sends_puts(1) sends_dec(2)]] sends_comp [OF sends_puts(1) sends_putc]] sends_comp [OF sends_comp [OF sends_puts(1) sends_hex(2)] sends_puts(1)]])
qed

section \<open>Console and tasks\<close>

lemma cons_init_desk:
  assumes "cons_init ft addr pitch w h bpp d = (ok, d')" "desk_inv d" "\<not> live (con d)"
  shows "desk_inv d'"
proof (cases ok)
  case True
  then have "cons_inv (con d') \<and> wsys d' = wsys d \<and> mou d' = mou d" using cons_init_ok [of ft addr pitch w h bpp d d'] assms(1) by simp
  then show ?thesis using assms(2) by (simp add: desk_inv_def)
next
  case False
  then have "d' = d \<or> (\<exists>c. d' = d\<lparr>con := c\<rparr> \<and> \<not> live c)" using assms(1,3) by (auto simp: cons_init_def Let_def split: if_splits)
  then show ?thesis using assms(2) by (auto simp: desk_inv_def cons_inv_def)
qed

text \<open>From the console on: memory and files stay, the desktop stays well formed.\<close>

definition orderly :: "(k64, 'a) opn \<Rightarrow> bool" where
  "orderly m \<longleftrightarrow> (\<forall>k a k'. desk_inv (dsk k) \<longrightarrow> m k = (Val a, k') \<longrightarrow> mm k' = mm k \<and> fsys k' = fsys k \<and> desk_inv (dsk k'))"

lemma orderly_seq: "orderly m \<Longrightarrow> (\<And>a. orderly (f a)) \<Longrightarrow> orderly (seq m f)"
proof -
  assume o: "orderly m" "\<And>a. orderly (f a)"
  show ?thesis unfolding orderly_def
  proof (intro allI impI)
    fix k a k' assume d: "desk_inv (dsk k)" and e: "seq m f k = (Val a, k')"
    obtain b k1 where b: "m k = (Val b, k1)" "f b k1 = (Val a, k')" using e by (rule seq_ValE)
    have "mm k1 = mm k \<and> fsys k1 = fsys k \<and> desk_inv (dsk k1)" using o(1) d b(1) unfolding orderly_def by blast
    then show "mm k' = mm k \<and> fsys k' = fsys k \<and> desk_inv (dsk k')" using o(2) [of b] b(2) unfolding orderly_def by metis
  qed
qed

lemma orderly_ret: "orderly (ret a)"
  by (simp add: orderly_def)

lemma orderly_say: "tidy f \<Longrightarrow> orderly (modify (say f))"
  by (auto simp: orderly_def say_def tidy_def split: prod.splits) (metis snd_conv)

lemma orderly_each: "(\<And>x. orderly (f x)) \<Longrightarrow> orderly (for_each f xs)"
  by (induction xs) (simp_all only: for_each.simps orderly_ret orderly_seq)

lemma orderly_bench: "orderly (present_bench ft ts)"
proof -
  have d: "desk_inv d \<Longrightarrow> desk_inv (cons_present ft (d\<lparr>con := cons_mark_dirty 0 16 (con d)\<rparr>))" for d
    by (rule desk_present) (simp add: desk_inv_def cons_inv_dirty)
  have "orderly (k_desk (\<lambda>d. ((), cons_present ft (d\<lparr>con := cons_mark_dirty 0 16 (con d)\<rparr>))))"
    using d by (auto simp: orderly_def k_desk_def)
  moreover have "orderly (all_of [k_puts ft ''PERF present-band tsc='', k_dec ft v, k_puts ft ''\<newline>''])" for v
    unfolding all_of_def k_puts_def k_dec_def for_each.simps by (intro orderly_seq orderly_say tidy_prints orderly_ret)
  ultimately have s: "orderly (seq (for_each (\<lambda>_. k_desk (\<lambda>d. ((), cons_present ft (d\<lparr>con := cons_mark_dirty 0 16 (con d)\<rparr>)))) [0..<32 :: nat]) (\<lambda>_.
      all_of [k_puts ft ''PERF present-band tsc='', k_dec ft v, k_puts ft ''\<newline>'']))" for v
    by (intro orderly_seq orderly_each)
  show ?thesis unfolding present_bench_def
    by (rule orderly_seq) (simp add: orderly_def, simp only: s orderly_ret split: if_split, simp)
qed

lemma init_fields: "mm (task64_init L me k) = mm k" "fsys (task64_init L me k) = fold empty_fds [0..<NTASK] (fsys k)"
proof -
  have "mm (fold (idle_setup L me) cs k) = mm k" "fsys (fold (idle_setup L me) cs k) = fsys k" for cs k
    by (induction cs arbitrary: k) (simp_all add: idle_setup_def Let_def build_frame_def fx_init_def)
  then show "mm (task64_init L me k) = mm k" "fsys (task64_init L me k) = fold empty_fds [0..<NTASK] (fsys k)"
    by (simp_all add: task64_init_def Let_def fx_init_def)
qed

lemma emptied: "fds (fold empty_fds is f) = fds f" "i \<in> set is \<Longrightarrow> empty_tab i (fold empty_fds is f)"
proof -
  show "fds (fold empty_fds is f) = fds f" by (induction "is" arbitrary: f) (simp_all add: empty_fds_def)
  have "fd_tab (fold empty_fds is f) i n = (if i \<in> set is \<and> n < FD_MAX_TASK then -1 else fd_tab f i n)" for n
    by (induction "is" arbitrary: f) (auto simp: empty_fds_def)
  then show "i \<in> set is \<Longrightarrow> empty_tab i (fold empty_fds is f)" by (simp add: empty_tab_def)
qed

lemma init_files: "(\<And>g. \<not> in_use (fds (fsys k) g)) \<Longrightarrow> files_inv (task64_init L me k)"
proof -
  assume u: "\<And>g. \<not> in_use (fds (fsys k) g)"
  let ?f = "fold empty_fds [0..<NTASK] (fsys k)"
  have e: "empty_tab i ?f" if "i < NTASK" for i using emptied(2) [of i "[0..<NTASK]"] that by simp
  have "fd_wf ?f" using e by (auto simp: fd_wf_def empty_tab_def)
  then have "fd_inv ?f" using u emptied(1) [of "[0..<NTASK]" "fsys k"] by (simp add: fd_inv_def)
  then show ?thesis using e by (simp add: files_inv_def init_fields)
qed

lemma init_call: "call 0 0 {} (task64_init L 0 k)"
  by (simp add: init_slots call_def ours_iff NTASK_def)

lemma runs_attempt: "runs me j E m F \<Longrightarrow> runs me j E (attempt m) F"
  by (rule runsI) (auto simp: attempt_def split: prod.splits res.splits dest: runsD)

lemma runs_try: "(\<And>m. m \<in> set ms \<Longrightarrow> runs me j {} m {}) \<Longrightarrow> runs me j {} (try_all ms) {}"
proof (induction ms)
  case Nil
  show ?case unfolding try_all.simps by (rule runs_prim [OF prim_basic(1)]) simp
next
  case (Cons m ms)
  have "runs me j {} (ret rs) {}" for rs :: "nat option list" by (rule runs_prim [OF prim_basic(1)]) simp
  then show ?case unfolding try_all.simps using Cons by (intro runs_then runs_attempt) auto
qed

lemma runs_boot: "m \<in> set (boot_tasks L gui) \<Longrightarrow> runs 0 j {} m {}"
proof -
  have p: "runs 0 j {} (k_puts ft msg) {}" for ft msg unfolding k_puts_def by (rule runs_prim [OF prim_say [OF tidy_prints(1)]]) simp
  have "runs 0 j {} (boot_target L gui) {}" unfolding boot_target_def by (auto intro: runs_new runs_then p)
  then show "m \<in> set (boot_tasks L gui) \<Longrightarrow> runs 0 j {} m {}" unfolding boot_tasks_def by (auto intro: runs_new)
qed

lemma halt_none: "k_halt ft msg k \<noteq> (Val a, k')"
  by (simp add: k_halt_def k_puts_def)

lemma finish_prim: "prim (seq (k_puts ft msg) (\<lambda>_. modify (say (perf_mark ft v tag t0))))"
proof -
  have "tidy (perf_mark ft v tag t0)"
    unfolding tidy_def perf_mark_def s_dec64_locked_def by (intro allI impI tidyD [OF tidy_prints(2)] tidyD [OF tidy_prints(4)]) simp
  then show ?thesis unfolding k_puts_def by (intro prims tidy_prints)
qed

lemma cons_start:
  assumes "start_cons ft x k = (Val (), k')" "desk_inv (dsk k)" "\<not> live (con (dsk k))"
  shows "desk_inv (dsk k') \<and> mm k' = mm k \<and> fsys k' = fsys k"
proof -
  obtain ok d where d: "cons_init ft (i_fb_addr x) (i_fb_pitch x) (i_fb_w x) (i_fb_h x) (i_fb_bpp x) (dsk k) = (ok, d)" by fastforce
  have "desk_inv d" by (rule cons_init_desk [OF d assms(2,3)])
  have o: "orderly (k_puts ft msg)" for msg unfolding k_puts_def by (rule orderly_say [OF tidy_prints(1)])
  have "k_puts ft (if ok then ''[K64] cons: framebuffer console live\<newline>'' else ''[K64] cons: no usable framebuffer, serial only\<newline>'') (k\<lparr>dsk := d\<rparr>) = (Val (), k')"
    using assms(1) by (simp add: start_cons_def k_desk_def seq_def d)
  then show ?thesis using o [unfolded orderly_def, rule_format, of "k\<lparr>dsk := d\<rparr>" _ "()" k'] \<open>desk_inv d\<close> by simp
qed

lemma mem_start:
  assumes "on_boot (mem64_init ft B mb) k = (Val (), k')" "\<not> mem_locked (mm k)" "unat (kernel_end B) < 2 ^ 63" "\<not> live (con (dsk k))"
    and "scan_tags (mb_bytes B) mb ((mm k)\<lparr>vmm_root := pml4_addr B\<rparr>) = Some (s, rs)" "unat (g_fb s) + unat (g_fbsize s) + 4095 < 2 ^ 64"
  shows "mem_inv (mm k') \<and> dsk k' = dsk k \<and> fsys k' = fsys k"
proof -
  obtain m' t d where r: "mem64_init ft B mb (mm k, (tx k, dsk k)) = (Val (), m', (t, d))" "k' = k\<lparr>mm := m', tx := t, dsk := d\<rparr>"
    using assms(1) by (auto simp: on_boot_def split: prod.splits)
  have "pmm_inv m' \<and> \<not> mem_locked m'" using init_frames [OF r(1) assms(2,3,5,6)] by blast
  then have "mem_inv m'" by (simp add: mem_inv_def pmm_exact_def pmm_inv_def)
  moreover have "d = dsk k" using init_out [OF r(1)] report_sends [of ft m'] assms(4) by (auto simp: sends_def dark_putc)
  ultimately show ?thesis using r(2) by simp
qed

lemma boot_inv:
  assumes run: "boot_system L B c img ast mb k = (Val rs, k')"
    and bss: "\<not> mem_locked (mm k)" "\<not> live (con (dsk k))" "desk_inv (dsk k)" "\<And>g. \<not> in_use (fds (fsys k) g)"
    and img: "unat (kernel_end B) < 2 ^ 63"
    and scan: "scan_tags (mb_bytes B) mb ((mm k)\<lparr>vmm_root := pml4_addr B\<rparr>) = Some (s, rgs)" "unat (g_fb s) + unat (g_fbsize s) + 4095 < 2 ^ 64"
  shows "kernel_inv k' \<and> ours 0 k' = Some (Slot 0)"
proof -
  let ?ft = "font L" and ?b = "mb_bytes B"
  let ?en = "mb + ucast (ld32 ?b mb)"
  have e: "early (boot_intro L B c mb)" "early (boot_show ?ft ?b ?en x)" for x
  proof -
    have "early (k_halt ft msg)" for ft msg by (simp add: early_def halt_none)
    then show "early (boot_intro L B c mb)" unfolding boot_intro_def Let_def by (auto intro!: earlies early_all)
    show "early (boot_show ?ft ?b ?en x)" unfolding boot_show_def by (intro earlies)
  qed
  obtain x k0 k1 k2 k3 k4 L' gui where f: "boot_intro L B c mb k = (Val (), k0)" "boot_show ?ft ?b ?en x k0 = (Val (), k1)"
    "on_boot (mem64_init ?ft B mb) k1 = (Val (), k2)" "start_cons ?ft x k2 = (Val (), k3)" "present_bench ?ft (b_bench c) k3 = (Val (), k4)"
    "try_all (boot_tasks L' gui) (task64_init L 0 (snd (register_images img ast k4))) = (Val rs, k')"
    using run unfolding boot_system_def Let_def by (auto simp: register_images_def elim!: seq_ValE split: option.splits)
  have k0: "mm k0 = mm k" "fsys k0 = fsys k" "dsk k0 = dsk k" using e(1) f(1) bss(2) unfolding early_def by blast+
  have k1: "mm k1 = mm k" "fsys k1 = fsys k" "dsk k1 = dsk k" using e(2) [of x] f(2) bss(2) k0 unfolding early_def by metis+
  have k2: "mem_inv (mm k2)" "dsk k2 = dsk k" "fsys k2 = fsys k"
    using mem_start [OF f(3)] bss(1,2) img scan k1 by auto
  have k3: "desk_inv (dsk k3)" "mem_inv (mm k3)" "fsys k3 = fsys k" using cons_start [OF f(4)] k2 bss(2,3) by auto
  have k4: "desk_inv (dsk k4)" "mem_inv (mm k4)" "fsys k4 = fsys k" using orderly_bench [of ?ft "b_bench c"] f(5) k3 unfolding orderly_def by metis+
  let ?k5 = "snd (register_images img ast k4)"
  have "kernel_inv (task64_init L 0 ?k5)"
    using k4 bss(4) task64_init_inv init_files [of ?k5 L 0] by (simp add: kernel_inv_def init_dsk init_fields register_images_def)
  moreover have "kstep\<^sup>*\<^sup>* (task64_init L 0 ?k5) k'" "call 0 0 {} k'" using runsD [OF runs_try [OF runs_boot] init_call f(6)] by simp_all
  ultimately show ?thesis using ksteps_inv by (auto simp: call_def)
qed


section \<open>Witnesses\<close>

definition sample_bss :: k64 where
  "sample_bss = sample_boot\<lparr>mm := sample_raw, dsk := boot_desk, fsys := fd_init sample_file, execs := []\<rparr>"

definition sample_cpu :: boot_cpu where
  "sample_cpu = \<lparr>b_magic = 0x36D76289, b_cs = 8, b_cr0 = 0, b_cr3 = 0, b_cr4 = 0, b_seed = 7, b_start = 0, b_bench = (0, 0), b_spawned = 0\<rparr>"

lemma sample_main_scan: "\<exists>x. main_scan sample_info 0x1000 = Some x \<and> i_fb_addr x = 0 \<and> cmdline x = None"
  by (simp add: main_scan_def sample_words sample_tags main_tag_def sample_entries main_entry_def)

lemma say_boot_fields [simp]: "mm (say f k) = mm k" "fsys (say f k) = fsys k" "execs (say f k) = execs k"
  by (simp_all add: say_def split: prod.splits)

lemma say_dark: "sends ft f bs \<Longrightarrow> \<not> live (con (dsk k)) \<Longrightarrow> dsk (say f k) = dsk k"
  by (simp add: say_def sends_def dark_putc)

text \<open>A message changes the log only, before the console is up.\<close>

definition silent :: "(k64, unit) opn \<Rightarrow> bool" where
  "silent m \<longleftrightarrow> early m \<and> (\<forall>k. \<exists>k'. m k = (Val (), k') \<and> execs k' = execs k)"

lemma silent_prints: "silent (k_puts ft msg)" "silent (k_hex ft v)" "silent (k_hex32 ft u)" "silent (k_dec ft v)" "silent (k_putc ft ch)" "silent (k_bit ft n v)"
  by (simp_all add: silent_def early_prints) (simp_all add: k_puts_def k_hex_def k_hex32_def k_dec_def k_putc_def k_bit_def)

lemma silent_seq: "silent m \<Longrightarrow> silent n \<Longrightarrow> silent (seq m (\<lambda>_. n))"
proof -
  assume a: "silent m" "silent n"
  have "\<exists>k'. seq m (\<lambda>_. n) k = (Val (), k') \<and> execs k' = execs k" for k
  proof -
    obtain k1 where 1: "m k = (Val (), k1)" "execs k1 = execs k" using a(1) unfolding silent_def by blast
    obtain k2 where "n k1 = (Val (), k2)" "execs k2 = execs k1" using a(2) unfolding silent_def by blast
    then show ?thesis using 1 by simp
  qed
  moreover have "early (seq m (\<lambda>_. n))" using a by (intro early_seq) (simp_all add: silent_def)
  ultimately show ?thesis unfolding silent_def by blast
qed

lemma silent_all: "(\<And>m. m \<in> set ms \<Longrightarrow> silent m) \<Longrightarrow> silent (all_of ms)"
proof (induction ms)
  case Nil
  show ?case by (simp add: all_of_def silent_def early_def)
next
  case (Cons m ms)
  then show ?case unfolding all_of_def for_each.simps by (intro silent_seq) auto
qed

lemma silent_boot: "silent (boot_intro L B sample_cpu mb)" "silent (boot_show ft b en (x\<lparr>cmdline := None\<rparr>))"
proof -
  have r: "silent (modify (\<lambda>k. k\<lparr>rnd := g k\<rparr>))" for g by (simp add: silent_def early_def)
  have m: "(ucast (b_magic sample_cpu) :: u32) = 0x36D76289" by (simp add: sample_cpu_def)
  show "silent (boot_intro L B sample_cpu mb)"
    unfolding boot_intro_def show_cpu_def Let_def m by (simp only: simp_thms if_False) (intro silent_seq silent_all r silent_prints; auto intro: silent_prints)
  have s: "show_cmd ft b en (cmdline (x\<lparr>cmdline := None\<rparr>)) = ret ()" by (simp add: show_cmd_def has_cmd_def)
  have "silent (ret ())" by (simp add: silent_def early_def)
  then show "silent (boot_show ft b en (x\<lparr>cmdline := None\<rparr>))"
    unfolding boot_show_def s show_scan_def by (intro silent_seq silent_all silent_prints; auto intro: silent_prints)
qed

lemma init_execs: "execs (task64_init L me k) = execs k"
proof -
  have "execs (fold (idle_setup L me) cs k) = execs k" for cs k
    by (induction cs arbitrary: k) (simp_all add: idle_setup_def Let_def build_frame_def fx_init_def)
  then show ?thesis by (simp add: task64_init_def Let_def fx_init_def)
qed

lemma no_images: "fold (\<lambda>n. exec_register (Some n) []) ns r = r"
  by (induction ns) (simp_all add: exec_register_def reg_add_def)

lemma spawn_fails: "execs k = [] \<Longrightarrow> task64_spawn_image L me n k = (Err (- 1), k)"
  by (simp add: task64_spawn_image_def exec_lookup_def)

lemma try_fails: "(\<And>m. m \<in> set ms \<Longrightarrow> m k = (Err (- 1), k)) \<Longrightarrow> try_all ms k = (Val (map (\<lambda>_. None) ms), k)"
proof (induction ms)
  case (Cons m ms)
  then have "m k = (Err (- 1), k)" "try_all ms k = (Val (map (\<lambda>_. None) ms), k)" by auto
  then show ?case by (simp add: attempt_def seq_def)
qed simp

lemma silent_run:
  assumes "silent m" "\<not> live (con (dsk k))"
  obtains k' where "m k = (Val (), k')" "mm k' = mm k" "fsys k' = fsys k" "dsk k' = dsk k" "execs k' = execs k"
proof -
  obtain k' where k': "m k = (Val (), k')" "execs k' = execs k" using assms(1) unfolding silent_def by blast
  then have "mm k' = mm k \<and> fsys k' = fsys k \<and> dsk k' = dsk k" using assms unfolding silent_def early_def by blast
  with k' that show ?thesis by blast
qed

lemma sample_system: "\<exists>rs k1. boot_system sample_layout sample_in sample_cpu (\<lambda>_. []) (\<lambda>_. []) 0x1000 sample_bss = (Val rs, k1)"
proof -
  let ?L = sample_layout
  let ?ft = "font ?L" and ?en = "0x1000 + ucast (ld32 sample_info 0x1000)"
  have dark: "\<not> live (con boot_desk)" by (simp add: boot_desk_def zero_cons_def)
  obtain x where x: "main_scan sample_info 0x1000 = Some x" "i_fb_addr x = 0" "cmdline x = None" using sample_main_scan by blast
  have x': "x\<lparr>cmdline := None\<rparr> = x" using x(3) by (cases x) simp
  have b: "mm sample_bss = sample_raw" "dsk sample_bss = boot_desk" "execs sample_bss = []" by (simp_all add: sample_bss_def)
  obtain k0 where k0: "boot_intro ?L sample_in sample_cpu 0x1000 sample_bss = (Val (), k0)" "mm k0 = sample_raw" "dsk k0 = boot_desk" "execs k0 = []"
    using silent_run [OF silent_boot(1), of sample_bss ?L sample_in "0x1000"] b dark by auto
  obtain k1 where k1: "boot_show ?ft sample_info ?en x k0 = (Val (), k1)" "mm k1 = sample_raw" "dsk k1 = boot_desk" "execs k1 = []"
    using silent_run [OF silent_boot(2), of k0 ?ft sample_info ?en x] k0 dark x' by auto
  obtain m' t' d' where m: "mem64_init ?ft sample_in 0x1000 (sample_raw, (tx k1, boot_desk)) = (Val (), m', (t', d'))" using sample_init by (metis prod.collapse)
  have d': "d' = boot_desk" using init_out [OF m] report_sends [of ?ft m'] dark by (auto simp: sends_def dark_putc)
  define k2 where "k2 = k1\<lparr>mm := m', tx := t', dsk := boot_desk\<rparr>"
  have k2: "on_boot (mem64_init ?ft sample_in 0x1000) k1 = (Val (), k2)" "dsk k2 = boot_desk" "execs k2 = []"
    using m k1 by (simp_all add: on_boot_def k2_def d')
  obtain k3 where p: "k_puts ?ft ''[K64] cons: no usable framebuffer, serial only\<newline>'' k2 = (Val (), k3)" "dsk k3 = boot_desk" "execs k3 = []"
    using silent_run [OF silent_prints(1), of k2 ?ft] k2 dark by auto
  have k3: "start_cons ?ft x k2 = (Val (), k3)"
    using p(1) k2(2) by (simp add: start_cons_def k_desk_def cons_init_def x(2) seq_def k2_def)
  have k4: "present_bench ?ft (b_bench sample_cpu) k3 = (Val (), k3)" using p(2) dark by (simp add: present_bench_def)
  let ?k5 = "task64_init ?L 0 (snd (register_images (\<lambda>_. []) (\<lambda>_. []) k3))"
  have k5: "execs ?k5 = []" using p(3) no_images by (simp add: init_execs register_images_def)
  let ?L' = "?L\<lparr>flag_spawn_clone := cmd_flag sample_info ?en (cmdline x) ''spawnclone''\<rparr>"
  have g: "\<not> cmd_gui sample_info ?en (cmdline x)" using x(3) by (simp add: cmd_gui_def has_cmd_def)
  have "try_all (boot_tasks ?L' (cmd_gui sample_info ?en (cmdline x))) ?k5 = (Val (map (\<lambda>_. None) (boot_tasks ?L' (cmd_gui sample_info ?en (cmdline x)))), ?k5)"
    using k5 g by (intro try_fails) (auto simp: boot_tasks_def boot_target_def intro: spawn_fails)
  then show ?thesis using k0(1) k1(1) k2(1) k3 k4 x(1)
    by (simp add: boot_system_def Let_def sample_in_def [THEN arg_cong [of _ _ mb_bytes]] register_images_def)
qed


end
