(* ===== verification/Syscall_Proofs.thy ===== *)
theory Syscall_Proofs
  imports Isr Task_Samples
begin

text \<open>
  System calls from the trap frame to the result: what they do with pointers of user programs.
\<close>

section \<open>User memory\<close>

abbreviation live_mem :: "nat \<Rightarrow> k64 \<Rightarrow> mem64" where
  "live_mem me k \<equiv> (mm k)\<lparr>live_cr3 := cr3_of k me\<rparr>"

lemma load_bytes_some:
  assumes "\<forall>i < n. \<exists>b. load_byte (va + of_nat i) m = Some b"
  shows "\<exists>bs. load_bytes n va m = Some bs \<and> length bs = n \<and> (\<forall>i < n. load_byte (va + of_nat i) m = Some (bs ! i))"
  using assms
proof (induction n arbitrary: va)
  case (Suc n)
  obtain b where b: "load_byte va m = Some b" using Suc.prems [rule_format, of 0] by auto
  have "\<forall>i < n. \<exists>b. load_byte (va + 1 + of_nat i) m = Some b"
    using Suc.prems [rule_format, of "Suc i" for i] by (simp add: algebra_simps)
  from Suc.IH [OF this] obtain bs where bs: "load_bytes n (va + 1) m = Some bs" "length bs = n"
    "\<forall>i < n. load_byte (va + 1 + of_nat i) m = Some (bs ! i)" by blast
  have "load_byte (va + of_nat i) m = Some ((b # bs) ! i)" if "i < Suc n" for i
    using that b bs(3) by (cases i) (simp_all add: algebra_simps)
  then show ?case using b bs by (intro exI [of _ "b # bs"]) simp
qed simp

lemma user_ok_load: "vmm_user_ok va len m \<Longrightarrow> i < unat len \<Longrightarrow> \<exists>b. load_byte (va + of_nat i) m = Some b"
proof -
  assume ok: "vmm_user_ok va len m" and i: "i < unat len"
  have "(of_nat i :: u64) < len"
    using i unat_u64 [of len] by (simp add: word_less_nat_alt unat_of_nat take_bit_nat_eq_self)
  from user_ok_bytes [OF ok this] show ?thesis by (auto simp: load_byte_def Let_def)
qed

lemma load_cstr_bad: "load_byte va m = None \<Longrightarrow> load_cstr (Suc n) va m = None"
  by simp

section \<open>The way in\<close>

lemma syscall_enter:
  "kmem k (reg_at r R_VEC) = 128 \<Longrightarrow> isr64_handler L me h r k = syscall64_dispatch L me (smp_in_shootdown (lapic_id h) (smp k)) r k"
  by (simp add: isr64_handler_def Let_def VEC_AP_TIMER_def)

lemma syscall_plain:
  assumes "c_u32 (kmem k (reg_at r R_RAX)) = n" "n \<notin> {SYS64_YIELD, SYS64_EXIT, SYS64_SLEEP, SYS64_BRK, SYS64_EXEC, SYS64_WAITPID}"
  shows "syscall64_dispatch L me shoot r k =
    seq (syscall_value L me r n (kmem k (reg_at r R_RBX)) (kmem k (reg_at r R_RCX)) (kmem k (reg_at r R_RDX)) (kmem k (reg_at r R_RSI))
      (kmem k (reg_at r R_RDI)) (kmem k (reg_at r R_R8)) (kmem k (reg_at r R_R9))) (rax_ret r) k"
  using assms by (simp add: syscall64_dispatch_def Let_def)

section \<open>Printing\<close>

lemma print_run:
  assumes "0 < len" "len \<le> 2048" "ptr \<noteq> 0" "live_ok me ptr len k" "load_bytes (unat len) ptr (live_mem me k) = Some bs"
  shows "sys_print L me ptr len k = (Val len, k\<lparr>tx := tx k @ crlf bs, dsk := fold (cons_putc (font L)) (crlf bs) (dsk k)\<rparr>)"
  using assms sends_write [of "font L" bs] by (auto simp: sys_print_def of_live_def seq_def say_def sends_def)

text \<open>C23.  A print of at most 2048 bytes either sends exactly the bytes at the caller's pointer, as its page
  tables map them, to the serial line and the screen, newlines as CR LF, and returns the length; or, when the
  range is not the user's, changes nothing and returns \<^verbatim>\<open>-EFAULT\<close>.  It never faults in the kernel.\<close>

theorem print_syscall:
  assumes "kmem k (reg_at r R_VEC) = 128" and "c_u32 (kmem k (reg_at r R_RAX)) = SYS64_PRINT"
    and "kmem k (reg_at r R_RBX) = ptr" and "kmem k (reg_at r R_RCX) = len" and "0 < len" and "len \<le> 2048" and "ptr \<noteq> 0"
  shows "if live_ok me ptr len k
    then \<exists>bs. length bs = unat len \<and> (\<forall>i < unat len. load_byte (ptr + of_nat i) ((mm k)\<lparr>live_cr3 := cr3_of k me\<rparr>) = Some (bs ! i)) \<and>
      isr64_handler L me h r k = (Val r, k\<lparr>kmem := (kmem k)(reg_at r R_RAX := len), tx := tx k @ crlf bs,
        dsk := fold (cons_putc (font L)) (crlf bs) (dsk k)\<rparr>)
    else isr64_handler L me h r k = (Val r, k\<lparr>kmem := (kmem k)(reg_at r R_RAX := -14)\<rparr>)"
proof -
  have e: "isr64_handler L me h r k = seq (sys_print L me ptr len) (rax_ret r) k"
    using assms by (simp add: syscall_enter syscall_plain sysno syscall_value_def)
  show ?thesis
  proof (cases "live_ok me ptr len k")
    case True
    from load_bytes_some [of "unat len" ptr "live_mem me k"] user_ok_load [of ptr len "live_mem me k"] True
    obtain bs where bs: "load_bytes (unat len) ptr (live_mem me k) = Some bs" "length bs = unat len"
      "\<forall>i < unat len. load_byte (ptr + of_nat i) (live_mem me k) = Some (bs ! i)" by (auto simp: live_ok_def)
    have "isr64_handler L me h r k = (Val r, k\<lparr>kmem := (kmem k)(reg_at r R_RAX := len), tx := tx k @ crlf bs,
        dsk := fold (cons_putc (font L)) (crlf bs) (dsk k)\<rparr>)"
      unfolding e by (simp add: seq_def print_run [OF assms(5-7) True bs(1)] rax_ret_def set_reg_def)
    then show ?thesis using True bs by auto
  next
    case False
    then show ?thesis unfolding e using assms(5,6) by (simp add: sys_print_def seq_def rax_ret_def set_reg_def)
  qed
qed

section \<open>Unchecked pointers\<close>

lemma of_live_trap: "f (live_mem me k) = None \<Longrightarrow> seq (of_live me f) g k = (Trap, k)"
  by (simp add: of_live_def seq_def)

text \<open>C39.  \<^verbatim>\<open>OPEN\<close>, \<^verbatim>\<open>READDIR\<close> and \<^verbatim>\<open>BLOBREAD\<close> read the name at the caller's
  pointer without checking it, so a pointer to an unmapped page faults in kernel mode and the machine halts.\<close>

theorem bad_path_halts:
  assumes "kmem k (reg_at r R_VEC) = 128" and "c_u32 (kmem k (reg_at r R_RAX)) \<in> {SYS64_OPEN, SYS64_READDIR, SYS64_BLOBREAD}"
    and "load_byte (kmem k (reg_at r R_RBX)) ((mm k)\<lparr>live_cr3 := cr3_of k me\<rparr>) = None"
  shows "isr64_handler L me h r k = (Trap, k)"
proof -
  define p where "p = kmem k (reg_at r R_RBX)"
  have t: "load_cstr n p (live_mem me k) = None" if "0 < n" for n
    using that assms(3) by (cases n) (simp_all add: p_def)
  have "seq (of_live me (load_cstr n p)) g k = (Trap, k)" if "0 < n" for n and g :: "bool \<times> u8 list \<Rightarrow> (k64, u64) opn"
    by (rule of_live_trap) (rule t [OF that])
  then have "sys_open me p b k = (Trap, k)" "sys_readdir me p b c k = (Trap, k)" "sys_blobread me p b c k = (Trap, k)" for b c
    by (simp_all add: sys_open_def sys_readdir_def sys_blobread_def)
  then show ?thesis using assms(1,2)
    by (auto simp: syscall_enter syscall_plain sysno syscall_value_def seq_def p_def)
qed

text \<open>A blit whose size wraps: the sides below have the product \<open>2 ^ 62 + 1\<close>.\<close>

lemma load_pixels_bad:
  assumes "i \<in> set is" "load_bytes 4 (f + of_nat i * 4) m = None"
  shows "load_pixels f is m = None"
proof -
  let ?g = "\<lambda>i acc. case acc of None \<Rightarrow> None
                   | Some px \<Rightarrow> map_option (\<lambda>bs. px(i := ucast (word_of bs) :: u32)) (load_bytes 4 (f + of_nat i * 4) m)"
  have n: "fold ?g xs None = None" for xs by (induction xs) simp_all
  have "fold ?g xs acc = None" if "i \<in> set xs" for xs acc
    using that
  proof (induction xs arbitrary: acc)
    case (Cons x xs)
    show ?case
    proof (cases "x = i")
      case True
      then show ?thesis using assms(2) n by (cases acc) simp_all
    next
      case False
      then show ?thesis using Cons by simp
    qed
  qed simp
  then show ?thesis using assms(1) by (simp add: load_pixels_def)
qed

text \<open>\<^verbatim>\<open>WIN_BLIT\<close> computes the size of its source as a 64-bit product that wraps: for a
  3340214413 by 1380655685 rectangle it checks four bytes and then reads pixels beyond them, so a caller whose
  buffer ends at the end of a page halts the machine.\<close>

theorem blit_size_wraps:
  assumes "kmem k (reg_at r R_VEC) = 128" and "c_u32 (kmem k (reg_at r R_RAX)) = SYS64_WIN_BLIT"
    and "kmem k (reg_at r R_RCX) = 0" and "kmem k (reg_at r R_RDX) = 0"
    and "kmem k (reg_at r R_RSI) = 3340214413" and "kmem k (reg_at r R_RDI) = 1380655685" and "kmem k (reg_at r R_R8) = f"
    and "self_no me k = Some t" and "win_get (c_int (kmem k (reg_at r R_RBX))) (Some t) True (wsys (dsk k)) = Some i"
    and "2 \<le> ww (wins (wsys (dsk k)) i)" and "1 \<le> wh (wins (wsys (dsk k)) i)"
    and "f \<noteq> 0" and "live_ok me f 4 k" and "load_byte (f + 4) ((mm k)\<lparr>live_cr3 := cr3_of k me\<rparr>) = None"
  shows "isr64_handler L me h r k = (Trap, k)"
proof -
  let ?s = "wsys (dsk k)" and ?a = "c_int (kmem k (reg_at r R_RBX))"
  have w: "2 \<le> unat (if (3340214413 :: u32) > ww (wins ?s i) then ww (wins ?s i) else 3340214413)"
    "1 \<le> unat (if (1380655685 :: u32) > wh (wins ?s i) then wh (wins ?s i) else 1380655685)"
    using assms(10,11) by (simp_all add: word_le_nat_alt)
  have "Suc 0 \<in> set (blit_reads (Some t) ?a 0 0 3340214413 1380655685 ?s)"
    using w assms(9) by (auto simp: blit_reads_def Let_def image_iff intro!: bexI [of _ 0])
  moreover have "load_bytes 4 (f + of_nat (Suc 0) * 4) (live_mem me k) = None"
    using assms(14) by (simp add: numeral_eq_Suc)
  ultimately have "load_pixels f (blit_reads (Some t) ?a 0 0 3340214413 1380655685 ?s) (live_mem me k) = None"
    by (rule load_pixels_bad)
  moreover have len: "(18446744073709551620 :: u64) = 4" by simp
  have "live_ok me f 18446744073709551620 k" by (subst len) (rule assms(13))
  ultimately have "sys_win_blit me (kmem k (reg_at r R_RBX)) 0 0 3340214413 1380655685 f k = (Trap, k)"
    using assms(8,12) by (simp add: sys_win_blit_def Let_def of_live_trap)
  then show ?thesis using assms(1-7)
    by (simp add: syscall_enter syscall_plain sysno syscall_value_def seq_def)
qed

section \<open>Stores to user memory\<close>

text \<open>Byte \<open>i\<close> of the page frame at \<open>pa\<close>.\<close>

definition page_byte :: "mem64 \<Rightarrow> u64 \<Rightarrow> nat \<Rightarrow> u8" where
  "page_byte m pa i = ucast (drop_bit (8 * (i mod 8)) (phys m pa (i div 8)))"

lemma bit_set_byte: "k < 8 \<Longrightarrow> q < 64 \<Longrightarrow> bit (set_byte k b w) q \<longleftrightarrow> (if 8 * k \<le> q \<and> q < 8 * k + 8 then bit b (q - 8 * k) else bit w q)"
proof -
  assume k: "k < 8" "q < 64"
  have ff: "bit (0xFF :: u64) n \<longleftrightarrow> n < 8" for n
    using bit_mask_iff [of 8 n, where 'a = u64] by (auto simp: mask_eq_exp_minus_1)
  have b: "bit b n \<Longrightarrow> n < 8" for n using bit_imp_le_length [of b n] by simp
  have "bit (push_bit (8 * k) (0xFF :: u64)) q \<longleftrightarrow> 8 * k \<le> q \<and> q < 8 * k + 8"
    "bit (push_bit (8 * k) (ucast b :: u64)) q \<longleftrightarrow> 8 * k \<le> q \<and> bit b (q - 8 * k)"
    using k unfolding bit_push_bit_iff ff by (auto simp: bit_unsigned_iff)
  then show ?thesis using k b [of "q - 8 * k"] by (auto simp: set_byte_def bit_or_iff bit_and_iff bit_not_iff)
qed

lemma set_byte_bits:
  assumes "j < 8" "k < 8"
  shows "(ucast (drop_bit (8 * j) (set_byte k b w)) :: u8) = (if j = k then b else ucast (drop_bit (8 * j) w))"
proof (rule bit_word_eqI)
  fix n assume "n < LENGTH(8)"
  then have n: "n < 8" by simp
  have l: "bit (ucast (drop_bit (8 * j) x) :: u8) n \<longleftrightarrow> bit x (8 * j + n)" for x :: u64
    using n by (simp add: bit_unsigned_iff bit_drop_bit_eq add.commute)
  have "8 * j + n < 64" using assms n by simp
  moreover have "8 * k \<le> 8 * j + n \<and> 8 * j + n < 8 * k + 8 \<longleftrightarrow> j = k" using n by auto
  ultimately show "bit (ucast (drop_bit (8 * j) (set_byte k b w)) :: u8) n = bit (if j = k then b else ucast (drop_bit (8 * j) w)) n"
    using n by (simp add: l bit_set_byte [OF assms(2)])
qed

lemma page_byte_set:
  assumes "o' < 4096"
  shows "page_byte (set_entry pa (o' div 8) (set_byte (o' mod 8) b (phys m pa (o' div 8))) m) pa i =
    (if i = o' then b else page_byte m pa i)"
proof (cases "i div 8 = o' div 8")
  case True
  then have "i = o' \<longleftrightarrow> i mod 8 = o' mod 8" by (metis mod_mult_div_eq)
  then show ?thesis using True by (simp add: page_byte_def set_entry_def set_byte_bits)
next
  case False
  then show ?thesis by (auto simp: page_byte_def set_entry_def)
qed

lemma in_page:
  assumes "pb AND 0xFFF = (0 :: u64)" "n < 4096"
  shows "(pb + of_nat n) AND 0xFFF = of_nat n" "(pb + of_nat n) AND NOT 0xFFF = pb" "drop_bit 12 (pb + of_nat n) = drop_bit 12 pb"
proof -
  have t: "take_bit 12 (of_nat n :: u64) = of_nat n" using assms(2) by (simp add: take_bit_of_nat take_bit_nat_eq_self)
  have b: "bit (of_nat n :: u64) i \<Longrightarrow> i < 12" for i by (subst (asm) t [symmetric]) (simp only: bit_take_bit_iff)
  have p: "bit pb i \<Longrightarrow> \<not> i < 12" for i using assms(1) by (auto simp: page_aligned_iff)
  have e: "pb + of_nat n = pb OR of_nat n" by (rule disjunctive_add) (use b p in blast)
  show "(pb + of_nat n) AND 0xFFF = of_nat n" unfolding e
    by (rule bit_word_eqI) (unfold bit_or_iff bit_and_iff FFF_bit, use b p in blast)
  show "(pb + of_nat n) AND NOT 0xFFF = pb" unfolding e
    by (rule bit_word_eqI) (unfold bit_or_iff bit_and_iff bit_not_iff FFF_bit, use b p in auto)
  show "drop_bit 12 (pb + of_nat n) = drop_bit 12 pb" unfolding e
    by (rule bit_word_eqI) (unfold bit_or_iff bit_drop_bit_eq comp_def, use b in force)
qed

lemma store_in_page:
  assumes w: "\<And>f. walk (m\<lparr>phys := (phys m)(pa := f)\<rparr>) 3 (live_cr3 m AND PTE_ADDR) pb = Some (0, e)"
    and pa: "e AND PTE_ADDR = pa" "pa AND 0xFFF = 0" and pb: "pb AND 0xFFF = 0" and n: "n + length bs \<le> 4096"
  shows "\<exists>f. store_bytes (pb + of_nat n) bs m = Some (m\<lparr>phys := (phys m)(pa := f)\<rparr>) \<and>
    (\<forall>i. page_byte (m\<lparr>phys := (phys m)(pa := f)\<rparr>) pa i = (if n \<le> i \<and> i < n + length bs then bs ! (i - n) else page_byte m pa i))"
  using w n
proof (induction bs arbitrary: n m)
  case Nil
  have "m\<lparr>phys := (phys m)(pa := phys m pa)\<rparr> = m" by simp
  then show ?case by (intro exI [of _ "phys m pa"]) auto
next
  case (Cons b bs)
  have n: "n < 4096" using Cons.prems(2) by simp
  note q = in_page [OF pb n] and q' = in_page [OF pa(2) n]
  let ?f = "(phys m pa)(n div 8 := set_byte (n mod 8) b (phys m pa (n div 8)))"
  let ?m = "m\<lparr>phys := (phys m)(pa := ?f)\<rparr>"
  have un: "unat (of_nat n :: u64) = n" using n by (simp add: unat_of_nat take_bit_nat_eq_self)
  have "m\<lparr>phys := (phys m)(pa := phys m pa)\<rparr> = m" by simp
  then have "walk m 3 (live_cr3 m AND PTE_ADDR) (pb + of_nat n) = Some (0, e)"
    using Cons.prems(1) [of "phys m pa"] walk_page [OF q(3)] by simp
  then have s: "store_byte (pb + of_nat n) b m = Some ?m"
    by (simp add: store_byte_def Let_def pa(1) mask12 q q' q'(2) [simplified] un set_entry_def)
  have live: "live_cr3 ?m = live_cr3 m" by simp
  have m: "?m\<lparr>phys := (phys ?m)(pa := f)\<rparr> = m\<lparr>phys := (phys m)(pa := f)\<rparr>" for f by simp
  have "walk (?m\<lparr>phys := (phys ?m)(pa := f)\<rparr>) 3 (live_cr3 ?m AND PTE_ADDR) pb = Some (0, e)" for f
    unfolding m live by (rule Cons.prems(1))
  from Cons.IH [OF this, of "Suc n"] Cons.prems(2) obtain f where f: "store_bytes (pb + of_nat (Suc n)) bs ?m = Some (m\<lparr>phys := (phys m)(pa := f)\<rparr>)"
    "\<And>i. page_byte (m\<lparr>phys := (phys m)(pa := f)\<rparr>) pa i = (if Suc n \<le> i \<and> i < Suc n + length bs then bs ! (i - Suc n) else page_byte ?m pa i)"
    unfolding m by auto
  have pbm: "page_byte ?m pa i = (if i = n then b else page_byte m pa i)" for i
    using page_byte_set [OF n, of pa b m i] by (simp add: set_entry_def)
  have "store_bytes (pb + of_nat n) (b # bs) m = Some (m\<lparr>phys := (phys m)(pa := f)\<rparr>)"
    using s f(1) by (simp add: algebra_simps)
  moreover have "page_byte (m\<lparr>phys := (phys m)(pa := f)\<rparr>) pa i =
      (if n \<le> i \<and> i < n + length (b # bs) then (b # bs) ! (i - n) else page_byte m pa i)" for i
    unfolding f(2) pbm by (auto simp: nth_Cons')
  ultimately show ?case by blast
qed

lemma load_in_page:
  assumes "walk m 3 (live_cr3 m AND PTE_ADDR) pb = Some (0, e)" "e AND PTE_ADDR = pa" "pa AND 0xFFF = 0" "pb AND 0xFFF = 0" "n < 4096"
  shows "load_byte (pb + of_nat n) m = Some (page_byte m pa n)"
proof -
  note q = in_page [OF assms(4,5)] and q' = in_page [OF assms(3,5)]
  have un: "unat (of_nat n :: u64) = n" using assms(5) by (simp add: unat_of_nat take_bit_nat_eq_self)
  have "walk m 3 (live_cr3 m AND PTE_ADDR) (pb + of_nat n) = Some (0, e)" using assms(1) walk_page [OF q(3)] by simp
  then show ?thesis by (simp add: load_byte_def Let_def assms(2) mask12 q q' q'(2) [simplified] un page_byte_def)
qed

lemma load_bytes_in_page:
  assumes "walk m 3 (live_cr3 m AND PTE_ADDR) pb = Some (0, e)" "e AND PTE_ADDR = pa" "pa AND 0xFFF = 0" "pb AND 0xFFF = 0" "n + l \<le> 4096"
  shows "load_bytes l (pb + of_nat n) m = Some (map (page_byte m pa) [n..<n + l])"
  using assms(5)
proof (induction l arbitrary: n)
  case (Suc l)
  have "load_byte (pb + of_nat n) m = Some (page_byte m pa n)" by (rule load_in_page [OF assms(1-4)]) (use Suc.prems in simp)
  moreover have "load_bytes l (pb + of_nat n + 1) m = Some (map (page_byte m pa) [Suc n..<Suc n + l])"
    using Suc.IH [of "Suc n"] Suc.prems by (simp add: algebra_simps)
  ultimately show ?case by (simp add: upt_rec [of n])
qed simp

text \<open>A page of user memory as a space sees it: its frame is not a table of the space.\<close>

definition sees :: "mem64 \<Rightarrow> u64 \<Rightarrow> u64 \<Rightarrow> u64 \<Rightarrow> bool" where
  "sees m root pb pa \<longleftrightarrow> pb AND 0xFFF = 0 \<and> (\<exists>e. walk m 3 root pb = Some (0, e) \<and> e AND PTE_ADDR = pa) \<and>
     (\<forall>p t. pt_path m root p t \<longrightarrow> t \<noteq> pa)"

lemma sees_walk:
  assumes "sees m root pb pa"
  shows "\<exists>e. e AND PTE_ADDR = pa \<and> (\<forall>f. walk (m\<lparr>phys := (phys m)(pa := f)\<rparr>) 3 root pb = Some (0, e))"
proof -
  obtain e where e: "walk m 3 root pb = Some (0, e)" "e AND PTE_ADDR = pa" using assms by (auto simp: sees_def)
  have "walk (m\<lparr>phys := (phys m)(pa := f)\<rparr>) 3 root pb = walk m 3 root pb" for f
    by (rule walk_cong [where root = root and q = "[]"]) (use assms in \<open>auto simp: sees_def\<close>)
  then show ?thesis using e by auto
qed

lemma pte_addr_aligned: "(e AND PTE_ADDR) AND 0xFFF = 0"
  by (simp add: page_aligned_iff) (simp add: bit_and_iff PTE_ADDR_bit)

lemma store_user_run:
  assumes s: "sees (mm k) (cr3_of k me AND PTE_ADDR) pb pa" and n: "n + length bs \<le> 4096"
  shows "\<exists>f. store_user me (pb + of_nat n) bs k = (Val (), k\<lparr>mm := (live_mem me k)\<lparr>phys := (phys (mm k))(pa := f)\<rparr>\<rparr>) \<and>
    (\<forall>i. page_byte ((mm k)\<lparr>phys := (phys (mm k))(pa := f)\<rparr>) pa i = (if n \<le> i \<and> i < n + length bs then bs ! (i - n) else page_byte (mm k) pa i))"
proof -
  obtain e where e: "e AND PTE_ADDR = pa" "\<And>f. walk ((mm k)\<lparr>phys := (phys (mm k))(pa := f)\<rparr>) 3 (cr3_of k me AND PTE_ADDR) pb = Some (0, e)"
    using sees_walk [OF s] by auto
  have w: "walk ((live_mem me k)\<lparr>phys := (phys (live_mem me k))(pa := f)\<rparr>) 3 (live_cr3 (live_mem me k) AND PTE_ADDR) pb = Some (0, e)" for f
    using e(2) [of f] walk_phys_cong [of "(live_mem me k)\<lparr>phys := (phys (live_mem me k))(pa := f)\<rparr>" "(mm k)\<lparr>phys := (phys (mm k))(pa := f)\<rparr>"] by simp
  have al: "pa AND 0xFFF = 0" "pb AND 0xFFF = 0" using e(1) pte_addr_aligned s by (auto simp: sees_def)
  have pbs: "page_byte ((live_mem me k)\<lparr>phys := g\<rparr>) = page_byte ((mm k)\<lparr>phys := g\<rparr>)" "page_byte (live_mem me k) = page_byte (mm k)" for g
    by (simp_all add: page_byte_def fun_eq_iff)
  from store_in_page [OF w e(1) al n] obtain f where
    "store_bytes (pb + of_nat n) bs (live_mem me k) = Some ((live_mem me k)\<lparr>phys := (phys (mm k))(pa := f)\<rparr>)"
    "\<And>i. page_byte ((mm k)\<lparr>phys := (phys (mm k))(pa := f)\<rparr>) pa i = (if n \<le> i \<and> i < n + length bs then bs ! (i - n) else page_byte (mm k) pa i)"
    unfolding pbs by auto
  then show ?thesis by (intro exI [of _ f]) (simp add: store_user_def on_mem_def)
qed

lemma sees_store:
  assumes "sees m root pb pa"
  shows "sees (m\<lparr>phys := (phys m)(pa := f)\<rparr>) root pb pa"
proof -
  let ?m = "m\<lparr>phys := (phys m)(pa := f)\<rparr>"
  have "pt_path m root p t" if "pt_path ?m root p t" for p t
    using that
  proof (induction p arbitrary: t rule: rev_induct)
    case (snoc i p)
    from pt_path_snocD [OF snoc.prems] obtain u where u: "pt_path ?m root p u" "length p < 3" "i < 512" "bit (phys ?m u i) 0" "\<not> bit (phys ?m u i) 7"
      "t = phys ?m u i AND PTE_ADDR" by blast
    have pu: "pt_path m root p u" using snoc.IH [OF u(1)] .
    then have "u \<noteq> pa" using assms by (auto simp: sees_def)
    then show ?case using u pt_path_snoc [OF pu u(2,3)] by simp
  qed (simp add: pt_path_def)
  then show ?thesis using assms sees_walk [OF assms] unfolding sees_def by blast
qed

lemma sees_cong: "phys m' = phys m \<Longrightarrow> sees m' root pb pa = sees m root pb pa"
proof -
  assume p: "phys m' = phys m"
  have "tab_at m' t q = tab_at m t q" for t q by (induction q arbitrary: t) (simp_all add: p Let_def)
  then show ?thesis using walk_phys_cong [OF p] by (simp add: sees_def pt_path_def)
qed

lemma load_seen:
  assumes "sees m (live_cr3 m AND PTE_ADDR) pb pa" "n + l \<le> 4096"
  shows "load_bytes l (pb + of_nat n) m = Some (map (page_byte m pa) [n..<n + l])"
proof -
  obtain e where e: "walk m 3 (live_cr3 m AND PTE_ADDR) pb = Some (0, e)" "e AND PTE_ADDR = pa" "pb AND 0xFFF = 0"
    using assms(1) by (auto simp: sees_def)
  then show ?thesis using load_bytes_in_page [OF e(1,2) _ e(3) assms(2)] pte_addr_aligned by auto
qed

lemma meminfo_run:
  assumes s: "sees (mm k) (cr3_of k me AND PTE_ADDR) pb pa" and n: "n + 16 \<le> 4096" and ok: "live_ok me (pb + of_nat n) 16 k"
  shows "\<exists>f. sys_meminfo me (pb + of_nat n) k = (Val 0, k\<lparr>mm := (live_mem me k)\<lparr>phys := (phys (mm k))(pa := f)\<rparr>\<rparr>) \<and>
    map (page_byte ((mm k)\<lparr>phys := (phys (mm k))(pa := f)\<rparr>) pa) [n..<n + 16] = bytes_of 8 (pmm_total_frames (mm k)) @ bytes_of 8 (pmm_free_frames (mm k))"
proof -
  let ?T = "bytes_of 8 (pmm_total_frames (mm k))" and ?F = "bytes_of 8 (pmm_free_frames (mm k))"
  have l: "length (bytes_of 8 w) = 8" for w by (simp add: bytes_of_def)
  have n1: "n + length ?T \<le> 4096" "(n + 8) + length ?F \<le> 4096" using n by (simp_all add: l)
  from store_user_run [OF s n1(1)] obtain f where f: "store_user me (pb + of_nat n) ?T k = (Val (), k\<lparr>mm := (live_mem me k)\<lparr>phys := (phys (mm k))(pa := f)\<rparr>\<rparr>)"
    "\<And>i. page_byte ((mm k)\<lparr>phys := (phys (mm k))(pa := f)\<rparr>) pa i = (if n \<le> i \<and> i < n + 8 then ?T ! (i - n) else page_byte (mm k) pa i)"
    by (auto simp: l)
  define k1 where "k1 = k\<lparr>mm := (live_mem me k)\<lparr>phys := (phys (mm k))(pa := f)\<rparr>\<rparr>"
  have fr: "pmm_free_frames (mm k1) = pmm_free_frames (mm k)" by (simp add: k1_def pmm_free_frames_def)
  have ph: "phys (mm k1) = (phys (mm k))(pa := f)" "cr3_of k1 = cr3_of k" by (simp_all add: k1_def)
  have "sees (mm k1) (cr3_of k1 me AND PTE_ADDR) pb pa"
    using sees_store [OF s, of f] sees_cong [of "mm k1" "(mm k)\<lparr>phys := (phys (mm k))(pa := f)\<rparr>"] by (simp add: ph)
  from store_user_run [OF this n1(2)] obtain g where g: "store_user me (pb + of_nat (n + 8)) ?F k1 =
      (Val (), k1\<lparr>mm := (live_mem me k1)\<lparr>phys := (phys (mm k1))(pa := g)\<rparr>\<rparr>)"
    "\<And>i. page_byte ((mm k1)\<lparr>phys := (phys (mm k1))(pa := g)\<rparr>) pa i = (if n + 8 \<le> i \<and> i < n + 8 + 8 then ?F ! (i - (n + 8)) else page_byte (mm k1) pa i)"
    by (auto simp: l)
  have a: "pb + of_nat n + 8 = pb + of_nat (n + 8)" by simp
  have "sys_meminfo me (pb + of_nat n) k = (Val 0, k1\<lparr>mm := (live_mem me k1)\<lparr>phys := (phys (mm k1))(pa := g)\<rparr>\<rparr>)"
    unfolding sys_meminfo_def a using ok f(1) [folded k1_def] g(1) fr by (simp add: seq_def)
  moreover have "k1\<lparr>mm := (live_mem me k1)\<lparr>phys := (phys (mm k1))(pa := g)\<rparr>\<rparr> = k\<lparr>mm := (live_mem me k)\<lparr>phys := (phys (mm k))(pa := g)\<rparr>\<rparr>"
    by (simp add: k1_def)
  moreover have "map (page_byte ((mm k)\<lparr>phys := (phys (mm k))(pa := g)\<rparr>) pa) [n..<n + 16] = ?T @ ?F"
  proof (rule nth_equalityI)
    fix i assume "i < length (map (page_byte ((mm k)\<lparr>phys := (phys (mm k))(pa := g)\<rparr>) pa) [n..<n + 16])"
    then have i: "i < 16" by simp
    have "page_byte ((mm k)\<lparr>phys := (phys (mm k))(pa := g)\<rparr>) pa (n + i) = page_byte ((mm k1)\<lparr>phys := (phys (mm k1))(pa := g)\<rparr>) pa (n + i)"
      "page_byte (mm k1) pa (n + i) = page_byte ((mm k)\<lparr>phys := (phys (mm k))(pa := f)\<rparr>) pa (n + i)"
      by (simp_all add: page_byte_def k1_def)
    then show "map (page_byte ((mm k)\<lparr>phys := (phys (mm k))(pa := g)\<rparr>) pa) [n..<n + 16] ! i = (?T @ ?F) ! i"
      using i f(2) [of "n + i"] g(2) [of "n + i"] by (auto simp: nth_append l)
  qed (simp add: l)
  ultimately show ?thesis by auto
qed

text \<open>\<^verbatim>\<open>MEMINFO\<close> stores its two numbers in the frame under the caller's pointer, whether or not
  the page is writable: every address space that maps the frame reads them, the caller's own and, for a
  copy-on-write page, the one it is shared with, which should have kept its contents.\<close>

theorem meminfo_reaches_sharers:
  assumes "kmem k (reg_at r R_VEC) = 128" and "c_u32 (kmem k (reg_at r R_RAX)) = SYS64_MEMINFO"
    and "kmem k (reg_at r R_RBX) = pb + of_nat n" and "n + 16 \<le> 4096" and "live_ok me (pb + of_nat n) 16 k"
    and "sees (mm k) (cr3_of k me AND PTE_ADDR) pb pa" and "sees (mm k) (root2 AND PTE_ADDR) pb2 pa"
  shows "\<exists>k'. isr64_handler L me h r k = (Val r, k') \<and> kmem k' = (kmem k)(reg_at r R_RAX := 0) \<and>
    load_bytes 16 (pb2 + of_nat n) ((mm k')\<lparr>live_cr3 := root2\<rparr>) =
      Some (bytes_of 8 (pmm_total_frames (mm k)) @ bytes_of 8 (pmm_free_frames (mm k)))"
proof -
  from meminfo_run [OF assms(6,4,5)] obtain f where f:
    "sys_meminfo me (pb + of_nat n) k = (Val 0, k\<lparr>mm := (live_mem me k)\<lparr>phys := (phys (mm k))(pa := f)\<rparr>\<rparr>)"
    "map (page_byte ((mm k)\<lparr>phys := (phys (mm k))(pa := f)\<rparr>) pa) [n..<n + 16] = bytes_of 8 (pmm_total_frames (mm k)) @ bytes_of 8 (pmm_free_frames (mm k))"
    by blast
  define k' where "k' = k\<lparr>mm := (live_mem me k)\<lparr>phys := (phys (mm k))(pa := f)\<rparr>, kmem := (kmem k)(reg_at r R_RAX := 0)\<rparr>"
  have "isr64_handler L me h r k = (Val r, k')"
    using assms(1-3) f(1) by (simp add: syscall_enter syscall_plain sysno syscall_value_def seq_def rax_ret_def set_reg_def k'_def)
  moreover have "sees ((mm k')\<lparr>live_cr3 := root2\<rparr>) (live_cr3 ((mm k')\<lparr>live_cr3 := root2\<rparr>) AND PTE_ADDR) pb2 pa"
    using sees_store [OF assms(7), of f] sees_cong [of "(mm k')\<lparr>live_cr3 := root2\<rparr>" "(mm k)\<lparr>phys := (phys (mm k))(pa := f)\<rparr>"] by (simp add: k'_def)
  then have "load_bytes 16 (pb2 + of_nat n) ((mm k')\<lparr>live_cr3 := root2\<rparr>) = Some (map (page_byte ((mm k')\<lparr>live_cr3 := root2\<rparr>) pa) [n..<n + 16])"
    using assms(4) by (rule load_seen)
  moreover have "page_byte ((mm k')\<lparr>live_cr3 := root2\<rparr>) = page_byte ((mm k)\<lparr>phys := (phys (mm k))(pa := f)\<rparr>)"
    by (simp add: page_byte_def k'_def fun_eq_iff)
  ultimately show ?thesis using f(2) by (intro exI [of _ k']) (simp add: k'_def)
qed

section \<open>Exceptions of user code\<close>

text \<open>An exception of user code other than a breakpoint or a page fault (a division by zero, a privileged
  instruction) halts the machine instead of ending the task.\<close>

theorem user_exception_halts:
  assumes "kmem k (reg_at r R_VEC) = v" and "v < 32" and "v \<notin> {2, 3, 14}" and "kmem k (reg_at r R_CS) = 0x1B"
  shows "fst (isr64_handler L me h r k) = Trap"
proof -
  have "fst (fatal_exc L me reg k) = Trap" for reg by (simp add: fatal_exc_def)
  moreover have "v \<noteq> 32" "v \<noteq> VEC_AP_TIMER" "v \<noteq> 128" "v \<noteq> 33" "v \<noteq> 44" "v \<noteq> 39" "v \<noteq> 47" "v \<noteq> VEC_IPI_TEST" "v \<noteq> VEC_IPI_TLB" "v \<noteq> VEC_SPURIOUS"
    using assms(2) by (auto simp: VEC_AP_TIMER_def VEC_IPI_TEST_def VEC_IPI_TLB_def VEC_SPURIOUS_def)
  ultimately show ?thesis using assms(1-3) by (simp add: isr64_handler_def Let_def)
qed

section \<open>Witnesses\<close>

text \<open>The boot task in a system call whose number and arguments are given; a second address space shares
  the copy-on-write page at 0x5000.\<close>

definition sample_call :: "u64 \<Rightarrow> u64 \<Rightarrow> u64 \<Rightarrow> k64" where
  "sample_call n a b = sample_boot\<lparr>mm := sample_space\<lparr>phys := (phys sample_space)(0x110000 := (\<lambda>i. if i = 0 then 0x101007 else 0))\<rparr>,
     kmem := (\<lambda>x. if x = reg_at 0x5FFF50 R_VEC then 128 else if x = reg_at 0x5FFF50 R_RAX then n else if x = reg_at 0x5FFF50 R_RBX then a
       else if x = reg_at 0x5FFF50 R_RCX then b else 0)\<rparr>"

lemma call_facts: "kmem (sample_call n a b) (reg_at 0x5FFF50 R_VEC) = 128" "kmem (sample_call n a b) (reg_at 0x5FFF50 R_RAX) = n"
  "kmem (sample_call n a b) (reg_at 0x5FFF50 R_RBX) = a" "kmem (sample_call n a b) (reg_at 0x5FFF50 R_RCX) = b"
  "cr3_of (sample_call n a b) = (\<lambda>_. 0x100000)"
  "phys (mm (sample_call n a b)) = (phys sample_space)(0x110000 := (\<lambda>i. if i = 0 then 0x101007 else 0))"
  by (simp_all add: sample_call_def reg_at_def boot_facts)

lemma call_phys: "phys (mm (sample_call n a b)) t i = (if t = 0x110000 \<and> i = 0 then 0x101007 else if t = 0x110000 then 0 else phys sample_space t i)"
  by (simp add: call_facts)

lemma call_paths:
  assumes "pt_path (mm (sample_call n a b)) root p t" "root = 0x100000 \<or> root = 0x110000"
  shows "t \<in> {root, 0x101000, 0x102000, 0x103000}"
proof -
  have "length p \<le> 3" using assms by (simp add: pt_path_def)
  then consider "p = []" | x where "p = [x]" | x y where "p = [x, y]" | x y z where "p = [x, y, z]"
    by (cases p rule: remdups_adj.cases; auto simp: numeral_3_eq_3 le_Suc_eq length_Suc_conv)
  then show ?thesis using assms
    by cases (auto simp: pt_path_def Let_def call_phys sample_phys sample_addr split: if_splits)
qed

lemma call_sees: "sees (mm (sample_call n a b)) 0x100000 0x5000 0x104000" "sees (mm (sample_call n a b)) 0x110000 0x5000 0x104000"
proof -
  have "walk (mm (sample_call n a b)) 3 0x100000 0x5000 = Some (0, 0x104205)" "walk (mm (sample_call n a b)) 3 0x110000 0x5000 = Some (0, 0x104205)"
    by (simp_all add: numeral_3_eq_3 Let_def call_phys sample_facts)
  then show "sees (mm (sample_call n a b)) 0x100000 0x5000 0x104000" "sees (mm (sample_call n a b)) 0x110000 0x5000 0x104000"
    unfolding sees_def using sample_addr(4) by (auto dest: call_paths)
qed

lemma call_ok: "live_ok 0 0x5008 16 (sample_call n a b)" "live_ok 0 0x5FFC 4 (sample_call n a b)"
proof -
  have s: "user_page_ok ((mm (sample_call n a b))\<lparr>live_cr3 := 0x100000\<rparr>) 0x5000"
    by (simp add: user_page_ok_walk numeral_3_eq_3 Let_def call_phys sample_facts)
  show "live_ok 0 0x5008 16 (sample_call n a b)" "live_ok 0 0x5FFC 4 (sample_call n a b)"
    using s by (simp_all add: live_ok_def call_facts vmm_user_ok_def Let_def vmm_is_canonical_def drop_bit_eq_div)
qed

theorem print_syscall_witness:
  "\<exists>bs k'. length bs = 16 \<and> isr64_handler sample_layout 0 \<lparr>port64 = 0, port60 = 0, cr2 = 0, lapic_id = 0\<rparr> 0x5FFF50 (sample_call 1 0x5008 16) = (Val 0x5FFF50, k') \<and>
     tx k' = tx sample_boot @ crlf bs"
  using print_syscall [of "sample_call 1 0x5008 16" "0x5FFF50" "0x5008" 16 0 sample_layout "\<lparr>port64 = 0, port60 = 0, cr2 = 0, lapic_id = 0\<rparr>"]
  by (auto simp: call_facts call_ok sysno) (auto simp: sample_call_def)

theorem bad_path_halts_witness:
  "fst (isr64_handler sample_layout 0 \<lparr>port64 = 0, port60 = 0, cr2 = 0, lapic_id = 0\<rparr> 0x5FFF50 (sample_call 154 0x6000 0)) = Trap"
proof -
  have "load_byte 0x6000 ((mm (sample_call 154 0x6000 0))\<lparr>live_cr3 := 0x100000\<rparr>) = None"
    by (simp add: load_byte_def numeral_3_eq_3 Let_def call_phys sample_facts)
  then show ?thesis
    using bad_path_halts [of "sample_call 154 0x6000 0" "0x5FFF50" 0 sample_layout "\<lparr>port64 = 0, port60 = 0, cr2 = 0, lapic_id = 0\<rparr>"]
    by (simp add: call_facts sysno)
qed

theorem meminfo_reaches_sharers_witness:
  "\<exists>k'. isr64_handler sample_layout 0 \<lparr>port64 = 0, port60 = 0, cr2 = 0, lapic_id = 0\<rparr> 0x5FFF50 (sample_call 131 0x5008 0) = (Val 0x5FFF50, k') \<and>
    load_bytes 16 0x5008 ((mm k')\<lparr>live_cr3 := 0x110000\<rparr>) = Some (bytes_of 8 4 @ bytes_of 8 4) \<and>
    \<not> bit (phys sample_space 0x103000 5) 1 \<and> bit (phys sample_space 0x103000 5) 9"
proof -
  have e: "(0x5008 :: u64) = 0x5000 + of_nat 8" by simp
  have a: "0x110000 AND PTE_ADDR = (0x110000 :: u64)" by (simp add: PTE_ADDR_def)
  have f: "pmm_free_frames (mm (sample_call 131 0x5008 0)) = 4" "pmm_total_frames (mm (sample_call 131 0x5008 0)) = 4"
    by (simp_all add: sample_call_def pmm_free_frames_def pmm_total_frames_def sample_space_def sample_mem_def)
  have "\<not> bit (phys sample_space 0x103000 5) 1 \<and> bit (phys sample_space 0x103000 5) 9" by (simp add: sample_phys)
  moreover from meminfo_reaches_sharers [of "sample_call 131 0x5008 0" "0x5FFF50" "0x5000" 8 0 "0x104000" "0x110000" "0x5000" sample_layout
      "\<lparr>port64 = 0, port60 = 0, cr2 = 0, lapic_id = 0\<rparr>"]
  have "\<exists>k'. isr64_handler sample_layout 0 \<lparr>port64 = 0, port60 = 0, cr2 = 0, lapic_id = 0\<rparr> 0x5FFF50 (sample_call 131 0x5008 0) = (Val 0x5FFF50, k') \<and>
    load_bytes 16 0x5008 ((mm k')\<lparr>live_cr3 := 0x110000\<rparr>) = Some (bytes_of 8 4 @ bytes_of 8 4)"
    using call_ok call_sees [of 131 "0x5008" 0] f by (auto simp: call_facts sysno a sample_addr)
  ultimately show ?thesis by blast
qed

text \<open>The boot task owns a window and blits from the last word of its page.\<close>

definition sample_blit :: k64 where
  "sample_blit = (sample_call 152 0 0)\<lparr>dsk := boot_desk\<lparr>wsys := boot_winsys\<lparr>wins := (\<lambda>_. zero_win\<lparr>used := True, ww := 16, wh := 16, owner := Some 0\<rparr>)\<rparr>\<rparr>,
     kmem := (kmem (sample_call 152 0 0))(reg_at 0x5FFF50 R_RSI := 3340214413, reg_at 0x5FFF50 R_RDI := 1380655685, reg_at 0x5FFF50 R_R8 := 0x5FFC)\<rparr>"

lemma blit_facts:
  "kmem sample_blit (reg_at 0x5FFF50 R_VEC) = 128" "kmem sample_blit (reg_at 0x5FFF50 R_RAX) = 152" "kmem sample_blit (reg_at 0x5FFF50 R_RBX) = 0"
  "kmem sample_blit (reg_at 0x5FFF50 R_RCX) = 0" "kmem sample_blit (reg_at 0x5FFF50 R_RDX) = 0" "kmem sample_blit (reg_at 0x5FFF50 R_RSI) = 3340214413"
  "kmem sample_blit (reg_at 0x5FFF50 R_RDI) = 1380655685" "kmem sample_blit (reg_at 0x5FFF50 R_R8) = 0x5FFC" "self_no 0 sample_blit = Some 0"
  "live_ok 0 0x5FFC 4 sample_blit"
  using call_ok(2) [of 152 0 0] by (simp_all add: sample_blit_def sample_call_def reg_at_def self_no_def boot_facts tno_def live_ok_def)

theorem blit_size_wraps_witness:
  "fst (isr64_handler sample_layout 0 \<lparr>port64 = 0, port60 = 0, cr2 = 0, lapic_id = 0\<rparr> 0x5FFF50 sample_blit) = Trap"
proof -
  have "load_byte (0x5FFC + 4) ((mm sample_blit)\<lparr>live_cr3 := cr3_of sample_blit 0\<rparr>) = None"
    using call_phys [of 152 0 0] call_facts(5) [of 152 0 0] by (simp add: sample_blit_def load_byte_def numeral_3_eq_3 Let_def sample_facts)
  moreover have w: "win_get (c_int 0) (Some 0) True (wsys (dsk sample_blit)) = Some 0" "2 \<le> ww (wins (wsys (dsk sample_blit)) 0)"
    "1 \<le> wh (wins (wsys (dsk sample_blit)) 0)"
    by (simp_all add: sample_blit_def win_get_def c_int_def WIN_MAX_def)
  ultimately show ?thesis
    using blit_size_wraps [of sample_blit "0x5FFF50" "0x5FFC" 0 0 0 sample_layout "\<lparr>port64 = 0, port60 = 0, cr2 = 0, lapic_id = 0\<rparr>"]
    by (simp add: blit_facts sysno)
qed

theorem user_exception_halts_witness:
  "fst (isr64_handler sample_layout 0 \<lparr>port64 = 0, port60 = 0, cr2 = 0, lapic_id = 0\<rparr> 0x5FFF50
     (sample_boot\<lparr>kmem := (\<lambda>x. if x = reg_at 0x5FFF50 R_CS then 0x1B else 0)\<rparr>)) = Trap"
  by (rule user_exception_halts [of _ _ 0]) (simp_all add: reg_at_def)

end
