(* ===== verification/Shoot.thy ===== *)
theory Shoot
  imports Smp
begin

text \<open>
  TLB shootdown of \<^verbatim>\<open>src/k64/smp64.c\<close> as a machine of concurrent CPUs.  Each CPU has the program
  counter of \<^verbatim>\<open>smp_shootdown\<close> and that of the interrupt handler \<^verbatim>\<open>smp_ack_tlb\<close>; one step is
  one access to a shared variable.  Interrupts are off while the IPIs are sent and on while the
  acknowledgements are awaited.  A pending IPI of the same vector is not counted twice.  Of the translation
  caches the machine keeps the pages whose old translation a CPU may still use.
\<close>

definition SHOOT_SPIN :: nat where "SHOOT_SPIN = 20000000"

datatype spc = Out | Put_va u64 nat | Clear_ack u64 nat | Send_ipi u64 nat | Wait u64 nat nat nat | Tally u64 nat nat | Done u64 nat

datatype hpc = No_irq | Invalidate u64 | Acknowledge

record mach =
  sh :: smp64
  lids :: "nat \<Rightarrow> u32"
  irr :: "nat \<Rightarrow> bool"
  stale :: "nat \<Rightarrow> u64 set"
  pc :: "nat \<Rightarrow> spc"
  irqpc :: "nat \<Rightarrow> hpc"

definition page_of :: "u64 \<Rightarrow> u64" where
  "page_of va = va AND NOT 0xFFF"

text \<open>\<^verbatim>\<open>invlpg\<close>, or a reload of CR3 for the address of all ones.\<close>

definition drops :: "u64 \<Rightarrow> u64 set" where
  "drops va = (if va = - 1 then UNIV else {page_of va})"

text \<open>\<^verbatim>\<open>ipi_send\<close>: the CPU with the LAPIC id has the interrupt pending.\<close>

definition ipi_send :: "u32 \<Rightarrow> mach \<Rightarrow> mach" where
  "ipi_send dest m = m\<lparr>irr := (\<lambda>j. irr m j \<or> lids m j = dest)\<rparr>"

definition set_busy :: "nat \<Rightarrow> bool \<Rightarrow> mach \<Rightarrow> mach" where
  "set_busy c b m =
     (let me = smp_cpu_index (lids m c) (sh m)
      in if 0 \<le> me \<and> me < int NCPU_MAX then m\<lparr>sh := (sh m)\<lparr>shoot_busy := (shoot_busy (sh m))(nat me := b)\<rparr>\<rparr> else m)"

definition at_pc :: "nat \<Rightarrow> spc \<Rightarrow> mach \<Rightarrow> mach" where
  "at_pc c p m = m\<lparr>pc := (pc m)(c := p)\<rparr>"

text \<open>The call, and one step of the body.\<close>

definition smp_shootdown :: "u64 \<Rightarrow> nat \<Rightarrow> mach \<Rightarrow> mach" where
  "smp_shootdown va c m = at_pc c (if ncpus (sh m) < 2 then Done va 0 else Put_va va 1) m"

definition shoot_go :: "nat \<Rightarrow> mach \<Rightarrow> mach option" where
  "shoot_go c m =
     (case pc m c of
        Out \<Rightarrow> None
      | Put_va va i \<Rightarrow>
          Some (if i < ncpus (sh m) then at_pc c (Clear_ack va i) (m\<lparr>sh := (sh m)\<lparr>pending_va := (pending_va (sh m))(i := va)\<rparr>\<rparr>)
                else at_pc c (Wait va 1 SHOOT_SPIN 0) (set_busy c True m))
      | Clear_ack va i \<Rightarrow> Some (at_pc c (Send_ipi va i) (m\<lparr>sh := (sh m)\<lparr>tlb_ack := (tlb_ack (sh m))(i := 0)\<rparr>\<rparr>))
      | Send_ipi va i \<Rightarrow> Some (at_pc c (Put_va va (i + 1)) (ipi_send (apic_ids (sh m) i) m))
      | Wait va i spin ok \<Rightarrow>
          Some (if i < ncpus (sh m) then
                  if tlb_ack (sh m) i = 0 \<and> spin > 0 then at_pc c (Wait va i (spin - 1) ok) m else at_pc c (Tally va i ok) m
                else at_pc c (Done va ok) (set_busy c False m))
      | Tally va i ok \<Rightarrow> Some (at_pc c (Wait va (i + 1) SHOOT_SPIN (if tlb_ack (sh m) i \<noteq> 0 then ok + 1 else ok)) m)
      | Done va ok \<Rightarrow> None)"

definition if_set :: "spc \<Rightarrow> bool" where
  "if_set p = (case p of Put_va va i \<Rightarrow> False | Clear_ack va i \<Rightarrow> False | Send_ipi va i \<Rightarrow> False | _ \<Rightarrow> True)"

text \<open>The interrupt is taken and \<^verbatim>\<open>smp_ack_tlb\<close> reads the address; it drops the translations; it acknowledges.\<close>

definition ack_go :: "nat \<Rightarrow> mach \<Rightarrow> mach option" where
  "ack_go c m =
     (let i = smp_cpu_index (lids m c) (sh m)
      in case irqpc m c of
           No_irq \<Rightarrow>
             if irr m c \<and> if_set (pc m c) then
               Some (m\<lparr>irr := (irr m)(c := False), irqpc := (irqpc m)(c := if 0 \<le> i then Invalidate (pending_va (sh m) (nat i)) else No_irq)\<rparr>)
             else None
         | Invalidate va \<Rightarrow> Some (m\<lparr>stale := (stale m)(c := stale m c - drops va), irqpc := (irqpc m)(c := Acknowledge)\<rparr>)
         | Acknowledge \<Rightarrow>
             Some (m\<lparr>sh := (sh m)\<lparr>tlb_ack := (tlb_ack (sh m))(nat i := tlb_ack (sh m) (nat i) + 1)\<rparr>, irqpc := (irqpc m)(c := No_irq)\<rparr>))"

text \<open>One step of a CPU: its handler runs to the end before its program goes on.\<close>

datatype act = Call u64 | Body | Handler

definition cpu_go :: "nat \<times> act \<Rightarrow> mach \<Rightarrow> mach option" where
  "cpu_go e m =
     (let (c, a) = e
      in if c \<ge> ncpus (sh m) then None
         else case a of
           Call va \<Rightarrow> (if irqpc m c = No_irq \<and> (case pc m c of Out \<Rightarrow> True | Done _ _ \<Rightarrow> True | _ \<Rightarrow> False) then Some (smp_shootdown va c m) else None)
         | Body \<Rightarrow> (if irqpc m c = No_irq then shoot_go c m else None)
         | Handler \<Rightarrow> ack_go c m)"

fun shoot_run :: "(nat \<times> act) list \<Rightarrow> mach \<Rightarrow> mach option" where
  "shoot_run [] m = Some m"
| "shoot_run (e # es) m = (case cpu_go e m of None \<Rightarrow> None | Some m' \<Rightarrow> shoot_run es m')"

section \<open>Basic facts\<close>

lemma at_pc_simps [simp]: "sh (at_pc c p m) = sh m" "lids (at_pc c p m) = lids m" "irr (at_pc c p m) = irr m" "stale (at_pc c p m) = stale m"
  "pc (at_pc c p m) = (pc m)(c := p)" "irqpc (at_pc c p m) = irqpc m"
  by (simp_all add: at_pc_def)

lemma set_busy_simps [simp]: "ncpus (sh (set_busy c b m)) = ncpus (sh m)" "apic_ids (sh (set_busy c b m)) = apic_ids (sh m)"
  "pending_va (sh (set_busy c b m)) = pending_va (sh m)" "tlb_ack (sh (set_busy c b m)) = tlb_ack (sh m)" "lids (set_busy c b m) = lids m"
  "irr (set_busy c b m) = irr m" "stale (set_busy c b m) = stale m" "pc (set_busy c b m) = pc m" "irqpc (set_busy c b m) = irqpc m"
  by (simp_all add: set_busy_def Let_def)

lemma ipi_send_simps [simp]: "sh (ipi_send d m) = sh m" "lids (ipi_send d m) = lids m" "stale (ipi_send d m) = stale m" "pc (ipi_send d m) = pc m"
  "irqpc (ipi_send d m) = irqpc m" "irr (ipi_send d m) j \<longleftrightarrow> irr m j \<or> lids m j = d"
  by (simp_all add: ipi_send_def)

text \<open>Processors that have come up: the ids they found are theirs and differ.\<close>

definition up_ok :: "mach \<Rightarrow> bool" where
  "up_ok m \<longleftrightarrow> ncpus (sh m) \<le> NCPU_MAX \<and> (\<forall>i < ncpus (sh m). apic_ids (sh m) i = lids m i) \<and> inj_on (lids m) {..<ncpus (sh m)}"

lemma cpu_index: "up_ok m \<Longrightarrow> i < ncpus (sh m) \<Longrightarrow> smp_cpu_index (lids m i) (sh m) = int i"
proof -
  assume u: "up_ok m" "i < ncpus (sh m)"
  have "scan (\<lambda>j. apic_ids (sh m) j = lids m i) 0 (ncpus (sh m)) = Some i"
    unfolding scan_Some_iff using u by (auto simp: up_ok_def inj_on_def)
  then show ?thesis by (simp add: smp_cpu_index_def)
qed

section \<open>One shootdown\<close>

definition clean :: "u64 \<Rightarrow> mach \<Rightarrow> nat \<Rightarrow> bool" where
  "clean va m i \<longleftrightarrow> stale m i \<inter> drops va = {}"

lemma clean_upd [simp]: "clean va (at_pc c p m) i = clean va m i" "clean va (set_busy c b m) i = clean va m i" "clean va (ipi_send d m) i = clean va m i"
  "clean va (m\<lparr>sh := s\<rparr>) i = clean va m i"
  by (simp_all add: clean_def)

text \<open>A CPU that the shootdown of \<open>va\<close> has not reached, and one that has been sent its IPI.\<close>

definition unsent :: "mach \<Rightarrow> nat \<Rightarrow> bool" where
  "unsent m i \<longleftrightarrow> \<not> irr m i \<and> irqpc m i = No_irq"

definition sent :: "u64 \<Rightarrow> mach \<Rightarrow> nat \<Rightarrow> bool" where
  "sent va m i \<longleftrightarrow> pending_va (sh m) i = va \<and>
     (case irqpc m i of
        No_irq \<Rightarrow> if irr m i then tlb_ack (sh m) i = 0 else clean va m i
      | Invalidate v \<Rightarrow> \<not> irr m i \<and> v = va \<and> tlb_ack (sh m) i = 0
      | Acknowledge \<Rightarrow> \<not> irr m i \<and> tlb_ack (sh m) i = 0 \<and> clean va m i)"

lemma sent_acked: "sent va m i \<Longrightarrow> tlb_ack (sh m) i \<noteq> 0 \<Longrightarrow> clean va m i"
  by (auto simp: sent_def split: hpc.splits if_splits)

definition resting :: "spc \<Rightarrow> bool" where
  "resting p = (case p of Out \<Rightarrow> True | Done _ _ \<Rightarrow> True | _ \<Rightarrow> False)"

definition progress :: "u64 \<Rightarrow> mach \<Rightarrow> spc \<Rightarrow> bool" where
  "progress va m p =
     (let n = ncpus (sh m); reached = (\<lambda>j. (\<forall>i. 1 \<le> i \<and> i < j \<longrightarrow> sent va m i) \<and> (\<forall>i. j \<le> i \<and> i < n \<longrightarrow> unsent m i));
          counted = (\<lambda>j ok. (\<forall>i. 1 \<le> i \<and> i < n \<longrightarrow> sent va m i) \<and> ok < j \<and> (ok + 1 = j \<longrightarrow> (\<forall>i. 1 \<le> i \<and> i < j \<longrightarrow> clean va m i)))
      in case p of
           Out \<Rightarrow> False
         | Put_va v j \<Rightarrow> v = va \<and> 1 \<le> j \<and> j \<le> n \<and> reached j
         | Clear_ack v j \<Rightarrow> v = va \<and> 1 \<le> j \<and> j < n \<and> reached j \<and> pending_va (sh m) j = va
         | Send_ipi v j \<Rightarrow> v = va \<and> 1 \<le> j \<and> j < n \<and> reached j \<and> pending_va (sh m) j = va \<and> tlb_ack (sh m) j = 0
         | Wait v j k ok \<Rightarrow> v = va \<and> 1 \<le> j \<and> j \<le> n \<and> counted j ok
         | Tally v j ok \<Rightarrow> v = va \<and> 1 \<le> j \<and> j < n \<and> counted j ok
         | Done v ok \<Rightarrow> v = va \<and> counted n ok)"

definition shooting :: "u64 \<Rightarrow> nat \<Rightarrow> mach \<Rightarrow> bool" where
  "shooting va c m \<longleftrightarrow> up_ok m \<and> c < ncpus (sh m) \<and> 1 \<le> ncpus (sh m) \<and> unsent m 0 \<and> (\<forall>d. d \<noteq> c \<longrightarrow> resting (pc m d)) \<and> progress va m (pc m c)"

lemma ack_effect:
  assumes "up_ok m" "d < ncpus (sh m)" "ack_go d m = Some m'"
  shows "ncpus (sh m') = ncpus (sh m)" "up_ok m'" "pc m' = pc m" "pending_va (sh m') = pending_va (sh m)" "\<not> unsent m d"
    "clean va m i \<Longrightarrow> clean va m' i" "unsent m i \<Longrightarrow> unsent m' i \<and> tlb_ack (sh m') i = tlb_ack (sh m) i" "sent va m i \<Longrightarrow> sent va m' i"
  using assms cpu_index [OF assms(1,2)]
  by (auto simp: ack_go_def Let_def up_ok_def unsent_def sent_def clean_def split: hpc.splits if_splits)

lemma ack_progress:
  assumes "up_ok m" "d < ncpus (sh m)" "ack_go d m = Some m'" "progress va m p"
  shows "progress va m' p"
proof -
  note e = ack_effect [OF assms(1-3)]
  show ?thesis using assms(4) e(6-8)
    by (auto simp: progress_def Let_def e(1,4) split: spc.splits)
qed

lemma unsent_upd: "unsent (m\<lparr>sh := s\<rparr>) i = unsent m i" "unsent (at_pc c p m) i = unsent m i" "unsent (set_busy c b m) i = unsent m i"
  by (simp_all add: unsent_def)

lemma sent_upd: "sent va (at_pc c p m) i = sent va m i" "sent va (set_busy c b m) i = sent va m i"
  by (simp_all add: sent_def split: hpc.splits)

lemma sent_shared:
  assumes "sent va m i" "i \<noteq> j"
  shows "sent va (m\<lparr>sh := (sh m)\<lparr>pending_va := (pending_va (sh m))(j := v)\<rparr>\<rparr>) i" "sent va (m\<lparr>sh := (sh m)\<lparr>tlb_ack := (tlb_ack (sh m))(j := w)\<rparr>\<rparr>) i"
  using assms by (auto simp: sent_def split: hpc.splits)

lemma ipi_sent:
  assumes u: "up_ok m" and j: "1 \<le> j" "j < ncpus (sh m)" and n: "unsent m j" "pending_va (sh m) j = va" "tlb_ack (sh m) j = 0"
  shows "sent va (ipi_send (apic_ids (sh m) j) m) j" "i < ncpus (sh m) \<Longrightarrow> i \<noteq> j \<Longrightarrow> unsent (ipi_send (apic_ids (sh m) j) m) i = unsent m i"
    "i < ncpus (sh m) \<Longrightarrow> i \<noteq> j \<Longrightarrow> sent va (ipi_send (apic_ids (sh m) j) m) i = sent va m i"
proof -
  have d: "lids m i = apic_ids (sh m) j \<longleftrightarrow> i = j" if "i < ncpus (sh m)" for i using u j that by (auto simp: up_ok_def inj_on_def)
  show "sent va (ipi_send (apic_ids (sh m) j) m) j" using n d [OF j(2)] by (simp add: sent_def unsent_def)
  show "unsent (ipi_send (apic_ids (sh m) j) m) i = unsent m i" "sent va (ipi_send (apic_ids (sh m) j) m) i = sent va m i"
    if "i < ncpus (sh m)" "i \<noteq> j" using d [OF that(1)] that(2) by (simp_all add: unsent_def sent_def split: hpc.splits)
qed

lemma body_frame:
  assumes "shoot_go c m = Some m'"
  shows "ncpus (sh m') = ncpus (sh m)" "up_ok m' = up_ok m" "d \<noteq> c \<Longrightarrow> pc m' d = pc m d" "irqpc m' = irqpc m" "stale m' = stale m"
  using assms by (auto simp: shoot_go_def up_ok_def split: spc.splits if_splits)

lemma resting_stuck: "resting (pc m d) \<Longrightarrow> shoot_go d m = None"
  by (cases "pc m d") (simp_all add: resting_def shoot_go_def)

lemma body_progress:
  assumes u: "up_ok m" "1 \<le> ncpus (sh m)" and p: "progress va m (pc m c)" and g: "shoot_go c m = Some m'"
  shows "progress va m' (pc m' c)"
proof (cases "pc m c")
  case (Put_va v j)
  show ?thesis
  proof (cases "j < ncpus (sh m)")
    case True
    then show ?thesis using Put_va p g
      by (auto simp: shoot_go_def progress_def Let_def unsent_upd sent_upd sent_shared)
  next
    case False
    then have "j = ncpus (sh m)" using Put_va p by (simp add: progress_def Let_def)
    then show ?thesis using Put_va p g u(2) by (auto simp: shoot_go_def progress_def Let_def unsent_upd sent_upd)
  qed
next
  case (Clear_ack v j)
  then show ?thesis using p g by (auto simp: shoot_go_def progress_def Let_def unsent_upd sent_upd sent_shared)
next
  case (Send_ipi v j)
  then have j: "1 \<le> j" "j < ncpus (sh m)" "unsent m j" "pending_va (sh m) j = va" "tlb_ack (sh m) j = 0" "v = va"
    using p by (auto simp: progress_def Let_def)
  note s = ipi_sent [OF u(1) j(1-5)]
  have "sent va (ipi_send (apic_ids (sh m) j) m) i" if "1 \<le> i" "i < Suc j" for i
    using s(1) s(3) [of i] that j Send_ipi p by (cases "i = j") (auto simp: progress_def Let_def)
  moreover have "unsent (ipi_send (apic_ids (sh m) j) m) i" if "Suc j \<le> i" "i < ncpus (sh m)" for i
    using s(2) [of i] that Send_ipi p by (auto simp: progress_def Let_def)
  ultimately show ?thesis using Send_ipi g j by (auto simp: shoot_go_def progress_def Let_def unsent_upd sent_upd)
next
  case (Wait v j k ok)
  then show ?thesis using p g by (auto simp: shoot_go_def progress_def Let_def unsent_upd sent_upd)
next
  case (Tally v j ok)
  have "clean va m j" if "tlb_ack (sh m) j \<noteq> 0" using that Tally p sent_acked [of va m j] by (auto simp: progress_def Let_def)
  then show ?thesis using Tally p g by (auto simp: shoot_go_def progress_def Let_def unsent_upd sent_upd less_Suc_eq)
qed (use g in \<open>simp_all add: shoot_go_def\<close>)

lemma body_boot_cpu:
  assumes "up_ok m" "1 \<le> ncpus (sh m)" "progress va m (pc m c)" "shoot_go c m = Some m'" "unsent m 0"
  shows "unsent m' 0"
proof (cases "pc m c")
  case (Send_ipi v j)
  then have "1 \<le> j" "j < ncpus (sh m)" using assms(3) by (auto simp: progress_def Let_def)
  then have "lids m 0 \<noteq> apic_ids (sh m) j" using assms(1) by (auto simp: up_ok_def inj_on_def)
  then show ?thesis using assms(4,5) Send_ipi by (auto simp: shoot_go_def unsent_def)
qed (use assms(4,5) in \<open>auto simp: shoot_go_def unsent_def split: if_splits\<close>)

lemma step_shooting:
  assumes s: "shooting va c m" and g: "cpu_go (d, a) m = Some m'" and a: "\<And>v. a \<noteq> Call v"
  shows "shooting va c m' \<and> ncpus (sh m') = ncpus (sh m)"
proof (cases a)
  case (Call v)
  then show ?thesis using a by blast
next
  case Body
  then have b: "shoot_go d m = Some m'" using g by (auto simp: cpu_go_def split: if_splits)
  have "d = c" using b s resting_stuck [of m d] by (auto simp: shooting_def)
  then show ?thesis
    using b s body_progress [of m va c m'] body_boot_cpu [of m va c m'] body_frame [of c m m'] by (auto simp: shooting_def)
next
  case Handler
  then have b: "ack_go d m = Some m'" "d < ncpus (sh m)" using g by (auto simp: cpu_go_def split: if_splits)
  have u: "up_ok m" using s by (simp add: shooting_def)
  show ?thesis using s ack_progress [OF u b(2,1)] ack_effect [OF u b(2,1)] by (auto simp: shooting_def)
qed

lemma run_shooting:
  assumes "shooting va c m" "shoot_run es m = Some m'" "\<forall>(d, a) \<in> set es. \<forall>v. a \<noteq> Call v"
  shows "shooting va c m' \<and> ncpus (sh m') = ncpus (sh m)"
  using assms
proof (induction es arbitrary: m)
  case (Cons e es)
  obtain d a where e: "e = (d, a)" by fastforce
  from Cons.prems obtain m1 where m1: "cpu_go (d, a) m = Some m1" "shoot_run es m1 = Some m'" by (auto simp: e split: option.splits)
  have "shooting va c m1 \<and> ncpus (sh m1) = ncpus (sh m)" using step_shooting [OF Cons.prems(1) m1(1)] Cons.prems(3) by (auto simp: e)
  then show ?case using Cons.IH [OF _ m1(2)] Cons.prems(3) by auto
qed simp

text \<open>No shootdown is in progress.\<close>

definition quiet_cpus :: "mach \<Rightarrow> bool" where
  "quiet_cpus m \<longleftrightarrow> up_ok m \<and> (\<forall>i. \<not> irr m i \<and> irqpc m i = No_irq \<and> resting (pc m i))"

lemma call_shooting:
  assumes q: "quiet_cpus m" and g: "cpu_go (c, Call va) m = Some m'"
  shows "shooting va c m' \<and> ncpus (sh m') = ncpus (sh m)"
proof -
  let ?p = "if ncpus (sh m) < 2 then Done va 0 else Put_va va 1"
  have c: "c < ncpus (sh m)" and m': "m' = at_pc c ?p m" using g by (auto simp: cpu_go_def smp_shootdown_def split: if_splits)
  have u: "unsent m i" "up_ok m" "resting (pc m i)" for i using q by (simp_all add: quiet_cpus_def unsent_def)
  have "progress va (at_pc c ?p m) ?p" using c u(1) by (cases "ncpus (sh m) < 2") (auto simp: progress_def Let_def unsent_upd)
  moreover have "up_ok (at_pc c ?p m)" using u(2) by (simp add: up_ok_def)
  ultimately show ?thesis using c u unfolding m' by (simp add: shooting_def unsent_upd)
qed


section \<open>The handler\<close>

text \<open>Undisturbed, the steps of the handler are the function \<^verbatim>\<open>smp_ack_tlb\<close>.\<close>

lemma handler_is_ack_tlb:
  assumes "c < ncpus (sh m)" "irr m c" "irqpc m c = No_irq" "if_set (pc m c)" "smp_ack_tlb (lids m c) (sh m) = (Some f, s)"
  shows "shoot_run [(c, Handler), (c, Handler), (c, Handler)] m =
    Some (m\<lparr>sh := s, irr := (irr m)(c := False), irqpc := (irqpc m)(c := No_irq),
      stale := (stale m)(c := stale m c - (case f of Flush_all \<Rightarrow> UNIV | Flush_page va \<Rightarrow> {page_of va}))\<rparr>)"
  using assms by (auto simp: cpu_go_def ack_go_def smp_ack_tlb_def Let_def drops_def fun_upd_twist split: if_splits)

section \<open>The boot CPU\<close>

definition aim :: "nat \<Rightarrow> spc \<Rightarrow> bool" where
  "aim n p = (case p of Put_va va j \<Rightarrow> 1 \<le> j | Clear_ack va j \<Rightarrow> 1 \<le> j \<and> j < n | Send_ipi va j \<Rightarrow> 1 \<le> j \<and> j < n | _ \<Rightarrow> True)"

definition aimed :: "mach \<Rightarrow> bool" where
  "aimed m \<longleftrightarrow> (\<forall>c. aim (ncpus (sh m)) (pc m c))"

lemma resting_aim: "resting p \<Longrightarrow> aim n p"
  by (cases p) (simp_all add: resting_def aim_def)

lemma body_aimed:
  assumes u: "up_ok m" and a: "aimed m" and z: "unsent m 0" and g: "shoot_go c m = Some m'"
  shows "aimed m' \<and> unsent m' 0"
proof
  have n: "ncpus (sh m') = ncpus (sh m)" by (rule body_frame [OF g])
  have ac: "aim (ncpus (sh m)) (pc m c)" using a by (simp add: aimed_def)
  have "aim (ncpus (sh m)) (pc m' c)"
    using g ac by (cases "pc m c") (auto simp: shoot_go_def aim_def split: if_splits)
  then show "aimed m'" unfolding aimed_def n using body_frame(3) [OF g] a by (metis aimed_def)
  show "unsent m' 0"
  proof (cases "pc m c")
    case (Send_ipi v j)
    then have "1 \<le> j" "j < ncpus (sh m)" using ac by (auto simp: aim_def)
    then have "lids m 0 \<noteq> apic_ids (sh m) j" using u by (auto simp: up_ok_def inj_on_def)
    then show ?thesis using g z Send_ipi by (auto simp: shoot_go_def unsent_def)
  qed (use g z in \<open>auto simp: shoot_go_def unsent_def split: if_splits\<close>)
qed

lemma step_aimed:
  assumes "up_ok m" "aimed m" "unsent m 0" "cpu_go (d, a) m = Some m'"
  shows "up_ok m' \<and> aimed m' \<and> unsent m' 0 \<and> stale m' 0 = stale m 0"
proof (cases a)
  case (Call v)
  then have "m' = smp_shootdown v d m" using assms(4) by (auto simp: cpu_go_def split: if_splits)
  moreover have "aim n (Done v 0)" "aim n (Put_va v (Suc 0))" for n by (simp_all add: aim_def)
  ultimately show ?thesis using assms(1-3) by (auto simp: smp_shootdown_def up_ok_def aimed_def unsent_upd)
next
  case Body
  then have b: "shoot_go d m = Some m'" using assms(4) by (auto simp: cpu_go_def split: if_splits)
  then show ?thesis using body_aimed [OF assms(1-3) b] body_frame [OF b] assms(1) by simp
next
  case Handler
  then have b: "ack_go d m = Some m'" "d < ncpus (sh m)" using assms(4) by (auto simp: cpu_go_def split: if_splits)
  note e = ack_effect [OF assms(1) b(2,1)]
  have "d \<noteq> 0" using e(5) assms(3) by metis
  then have "stale m' 0 = stale m 0" using b by (auto simp: ack_go_def Let_def split: hpc.splits if_splits)
  then show ?thesis using e assms(2,3) by (simp add: aimed_def)
qed

text \<open>CPU 0 is never shot down: the loops of \<^verbatim>\<open>smp_shootdown\<close> start at index 1 although any CPU may
  initiate, so whatever shootdowns run, CPU 0 keeps every old translation.\<close>

theorem boot_cpu_never_shot:
  assumes "quiet_cpus m" and "shoot_run es m = Some m'"
  shows "stale m' 0 = stale m 0"
proof -
  have "up_ok m' \<and> aimed m' \<and> unsent m' 0 \<and> stale m' 0 = stale m 0" if "up_ok m" "aimed m" "unsent m 0" "shoot_run es m = Some m'" for m
    using that
  proof (induction es arbitrary: m)
    case (Cons e es)
    obtain d a where e: "e = (d, a)" by fastforce
    from Cons.prems obtain m1 where m1: "cpu_go (d, a) m = Some m1" "shoot_run es m1 = Some m'" by (auto simp: e split: option.splits)
    from step_aimed [OF Cons.prems(1-3) m1(1)] Cons.IH [OF _ _ _ m1(2)] show ?case by auto
  qed simp
  moreover have "aimed m" using assms(1) resting_aim by (simp add: aimed_def quiet_cpus_def)
  ultimately show ?thesis using assms by (simp add: quiet_cpus_def unsent_def)
qed

section \<open>Waiting is bounded\<close>

text \<open>The steps a call may still take.\<close>

definition todo :: "nat \<Rightarrow> spc \<Rightarrow> nat" where
  "todo n p =
     (let t = (n - 1) * (SHOOT_SPIN + 2) + 1
      in case p of
           Out \<Rightarrow> 0
         | Put_va va i \<Rightarrow> 3 * (n - i) + 1 + t
         | Clear_ack va i \<Rightarrow> 3 * (n - Suc i) + 3 + t
         | Send_ipi va i \<Rightarrow> 3 * (n - Suc i) + 2 + t
         | Wait va i k ok \<Rightarrow> if i < n then k + 3 + (n - Suc i) * (SHOOT_SPIN + 2) else 1
         | Tally va i ok \<Rightarrow> 2 + (n - Suc i) * (SHOOT_SPIN + 2)
         | Done va ok \<Rightarrow> 0)"

lemma body_todo: "shoot_go c m = Some m' \<Longrightarrow> todo (ncpus (sh m')) (pc m' c) < todo (ncpus (sh m)) (pc m c)"
proof -
  assume g: "shoot_go c m = Some m'"
  have d: "(n - i) * q = q + (n - Suc i) * q" if "i < n" for n i q :: nat
    using that by (metis Suc_diff_Suc mult_Suc)
  show ?thesis
    using g d [of 1 "ncpus (sh m)" "SHOOT_SPIN + 2"] d [of "Suc i" "ncpus (sh m)" "SHOOT_SPIN + 2" for i]
    by (cases "pc m c") (auto simp: shoot_go_def todo_def Let_def split: if_splits)
qed

lemma resting_done: "\<not> resting p \<Longrightarrow> pc m c = p \<Longrightarrow> shoot_go c m \<noteq> None"
  by (cases p) (simp_all add: resting_def shoot_go_def)

lemma step_todo:
  assumes g: "cpu_go (d, a) m = Some m'" and a: "\<And>v. (d, a) \<noteq> (c, Call v)"
  shows "ncpus (sh m') = ncpus (sh m) \<and> (if (d, a) = (c, Body) then 1 else 0) + todo (ncpus (sh m')) (pc m' c) \<le> todo (ncpus (sh m)) (pc m c)"
proof (cases a)
  case (Call v)
  then have "d \<noteq> c" using a by blast
  then show ?thesis using Call g by (auto simp: cpu_go_def smp_shootdown_def split: if_splits)
next
  case Body
  then have b: "shoot_go d m = Some m'" using g by (auto simp: cpu_go_def split: if_splits)
  note f = body_frame(1) [OF b] body_frame(3) [OF b, of c] and t = body_todo [OF b]
  show ?thesis using Body f t by (cases "d = c") auto
next
  case Handler
  then have "ack_go d m = Some m'" using g by (auto simp: cpu_go_def split: if_splits)
  then show ?thesis using Handler by (auto simp: ack_go_def Let_def split: hpc.splits if_splits)
qed

text \<open>C25.  A shootdown ends: whatever the other CPUs do, a call takes at most a fixed number of its own steps, and
  short of its return the CPU can always take the next one, unless it is in an interrupt handler.\<close>

theorem shootdown_terminates:
  assumes "pc m c = Put_va va 1" and "c < ncpus (sh m)" and "shoot_run es m = Some m'" and "\<forall>v. (c, Call v) \<notin> set es"
  shows "count_list es (c, Body) \<le> (ncpus (sh m) - 1) * (SHOOT_SPIN + 5) + 2 \<and>
    (resting (pc m' c) \<or> irqpc m' c \<noteq> No_irq \<or> cpu_go (c, Body) m' \<noteq> None)"
proof -
  have r: "ncpus (sh m') = ncpus (sh m) \<and> count_list es (c, Body) + todo (ncpus (sh m')) (pc m' c) \<le> todo (ncpus (sh m)) (pc m c)"
    using assms(3,4)
  proof (induction es arbitrary: m)
    case (Cons e es)
    obtain d a where e: "e = (d, a)" by fastforce
    from Cons.prems obtain m1 where m1: "cpu_go (d, a) m = Some m1" "shoot_run es m1 = Some m'" by (auto simp: e split: option.splits)
    have "(d, a) \<noteq> (c, Call v)" for v using Cons.prems(2) by (auto simp: e)
    from step_todo [OF m1(1) this] Cons.IH [OF m1(2)] Cons.prems(2) show ?case by (auto simp: e)
  qed simp
  have "todo (ncpus (sh m)) (pc m c) = (ncpus (sh m) - 1) * (SHOOT_SPIN + 5) + 2"
    using assms(1,2) by (cases "ncpus (sh m)") (simp_all add: todo_def Let_def algebra_simps)
  moreover have "cpu_go (c, Body) m' \<noteq> None" if "\<not> resting (pc m' c)" "irqpc m' c = No_irq"
    using resting_done [OF that(1) refl] that(2) r assms(2) by (auto simp: cpu_go_def)
  ultimately show ?thesis using r by fastforce
qed

section \<open>Concurrent shootdowns\<close>

text \<open>Three CPUs whose caches may hold old translations of page 0x5000.\<close>

definition three_cpus :: mach where
  "three_cpus = \<lparr>sh = \<lparr>apic_ids = of_nat, ap_ready = (\<lambda>i. i < 3), ncpus = 3, test_ack = (\<lambda>_. 0), tlb_ack = (\<lambda>_. 0), spur_count = (\<lambda>_. 0),
     pending_va = (\<lambda>_. 0), ap_timer_go = (\<lambda>_. True), shoot_busy = (\<lambda>_. False)\<rparr>, lids = of_nat, irr = (\<lambda>_. False), stale = (\<lambda>_. {0x5000}),
     pc = (\<lambda>_. Out), irqpc = (\<lambda>_. No_irq)\<rparr>"

lemma three_quiet: "quiet_cpus three_cpus"
proof -
  have "inj_on (of_nat :: nat \<Rightarrow> u32) {..<3}"
    by (rule inj_onI) (simp add: word_of_nat_eq_iff take_bit_nat_eq_self)
  then show ?thesis by (simp add: quiet_cpus_def up_ok_def three_cpus_def resting_def NCPU_MAX_def)
qed

definition both_send :: "(nat \<times> act) list" where
  "both_send = (0, Call 0x5000) # replicate 7 (0, Body) @ (1, Call 0x9000) # replicate 7 (1, Body)"

lemma rep_acts: "replicate 7 x = [x, x, x, x, x, x, x]" "replicate 5 x = [x, x, x, x, x]" "replicate 3 x = [x, x, x]" "replicate 4 x = [x, x, x, x]"
  by (simp_all add: numeral_eq_Suc)

lemmas run_defs = cpu_go_def Let_def smp_shootdown_def shoot_go_def at_pc_def set_busy_def smp_cpu_index_def ipi_send_def ack_go_def if_set_def NCPU_MAX_def

text \<open>Two shootdowns at once lose one: CPU 1 overwrites the address CPU 0 asked for before the others have
  read it, they drop only the second page and acknowledge, and both calls count everyone.  CPU 0's call reports
  success while the other CPUs still use the old translation of its page.\<close>

theorem concurrent_shootdowns_lost:
  "\<exists>m'. shoot_run (both_send @ replicate 3 (1, Handler) @ replicate 3 (2, Handler) @ replicate 5 (0, Body)) three_cpus = Some m' \<and>
     pc m' 0 = Done 0x5000 2 \<and> 0x5000 \<in> stale m' 1 \<and> 0x5000 \<in> stale m' 2"
  by (simp add: both_send_def three_cpus_def rep_acts run_defs drops_def page_of_def)

section \<open>Bring-up\<close>

lemma start_ap_state:
  "fst (start_ap ft up ap (s, out)) = (let s = (case up ap of None \<Rightarrow> s | Some lid \<Rightarrow> ap_main ap lid s) in if ap_ready s ap then s\<lparr>ncpus := ap + 1\<rparr> else s)"
  by (simp add: start_ap_def Let_def)

lemma init_state:
  assumes "0 < tlen" "tlen \<le> 2048"
  shows "fst (smp_init ft lid tlen up (s, out)) = fold (\<lambda>ap s. fst (start_ap ft up ap (s, out))) [1, 2, 3]
    (s\<lparr>apic_ids := (apic_ids s)(0 := lid), ap_ready := (ap_ready s)(0 := True), ncpus := 1\<rparr>)"
proof -
  have l: "[1..<NCPU_MAX] = [1, 2, 3]" by (simp add: NCPU_MAX_def upt_rec)
  have f: "fst (fold (start_ap ft up) xs (s, o')) = fold (\<lambda>ap s. fst (start_ap ft up ap (s, out))) xs s" for xs s o'
  proof (induction xs arbitrary: s o')
    case (Cons x xs)
    obtain s1 o1 where e: "start_ap ft up x (s, o') = (s1, o1)" by (rule prod.exhaust [of "start_ap ft up x (s, o')"])
    have "s1 = fst (start_ap ft up x (s, out))" using e start_ap_state [of ft up x s] by (metis fst_conv)
    then show ?case using Cons e by simp
  qed simp
  have "tlen \<noteq> 0" "\<not> tlen > 2048" using assms by auto
  then show ?thesis unfolding smp_init_def l prod.case Let_def split_beta if_False by (simp only: fst_conv f if_False simp_thms)
qed

text \<open>\<^verbatim>\<open>smp_init\<close> marks as ready exactly the processors that answered, and sets the number of CPUs to one
  more than the highest of them, so a processor that did not start is counted when a later one did.\<close>

theorem smp_init_counts:
  assumes "\<forall>i. \<not> ap_ready s i" and "0 < tlen" and "tlen \<le> 2048" and "smp_init ft lid tlen up (s, out) = (s', out')"
  shows "(\<forall>i. ap_ready s' i \<longleftrightarrow> i = 0 \<or> i \<in> {1, 2, 3} \<and> up i \<noteq> None) \<and>
    ncpus s' = (if up 3 \<noteq> None then 4 else if up 2 \<noteq> None then 3 else if up 1 \<noteq> None then 2 else 1)"
proof -
  have "s' = fst (smp_init ft lid tlen up (s, out))" using assms(4) by simp
  note s' = this [unfolded init_state [OF assms(2,3)] start_ap_state Let_def fold.simps comp_def id_apply]
  show ?thesis unfolding s' using assms(1)
    by (cases "up 1"; cases "up 2"; cases "up 3") (auto simp: ap_main_def NCPU_MAX_def)
qed

section \<open>Witnesses\<close>


theorem boot_cpu_never_shot_witness:
  "\<exists>m'. shoot_run ((1, Call 0x5000) # replicate 7 (1, Body) @ replicate 3 (1, Handler) @ replicate 3 (2, Handler) @ replicate 5 (1, Body)) three_cpus = Some m' \<and>
     pc m' 1 = Done 0x5000 2 \<and> stale m' 0 = {0x5000}"
proof -
  let ?es = "(1, Call 0x5000) # replicate 7 (1, Body) @ replicate 3 (1, Handler) @ replicate 3 (2, Handler) @ replicate 5 (1, Body)"
  have "\<exists>m'. shoot_run ?es three_cpus = Some m' \<and> pc m' 1 = Done 0x5000 2"
    by (simp add: three_cpus_def rep_acts run_defs)
  then obtain m' where m': "shoot_run ?es three_cpus = Some m'" "pc m' 1 = Done 0x5000 2" by blast
  have "stale m' 0 = stale three_cpus 0" by (rule boot_cpu_never_shot [OF three_quiet m'(1)])
  then show ?thesis using m' by (auto simp: three_cpus_def)
qed

theorem shootdown_terminates_witness:
  "count_list (replicate 4 (0 :: nat, Body)) (0, Body) \<le> (3 - 1) * (SHOOT_SPIN + 5) + (2 :: nat)"
proof -
  let ?m = "at_pc 0 (Put_va 0x5000 1) three_cpus"
  have "\<exists>m'. shoot_run (replicate 4 (0, Body)) ?m = Some m'"
    by (simp add: three_cpus_def rep_acts run_defs)
  then obtain m' where "shoot_run (replicate 4 (0, Body)) ?m = Some m'" by blast
  from shootdown_terminates [of ?m 0 "0x5000", OF _ _ this] show ?thesis by (auto simp: three_cpus_def)
qed

theorem smp_init_counts_witness:
  "\<forall>d. ncpus (fst (smp_init (\<lambda>_ _. 0) 0 100 (\<lambda>i. if i = 2 then Some 2 else None)
     ((sh three_cpus)\<lparr>ap_ready := (\<lambda>_. False)\<rparr>, ([], d)))) = 3"
proof
  fix d
  show "ncpus (fst (smp_init (\<lambda>_ _. 0) 0 100 (\<lambda>i. if i = 2 then Some 2 else None) ((sh three_cpus)\<lparr>ap_ready := (\<lambda>_. False)\<rparr>, ([], d)))) = 3"
    using smp_init_counts [of "(sh three_cpus)\<lparr>ap_ready := (\<lambda>_. False)\<rparr>" 100 "\<lambda>_ _. 0" 0 "\<lambda>i. if i = 2 then Some 2 else None" "([], d)",
        OF _ _ _ prod.collapse [symmetric]]
    by simp
qed

end
