(* ===== verification/Ahci.thy ===== *)
theory Ahci
  imports Ext Serial Vmm
begin

text \<open>
  The AHCI driver of \<^verbatim>\<open>src/k64/ahci64.c\<close> at the level of its registers.  The host bus adapter, the PCI
  configuration space and the disks are outside the program: \<open>hw\<close> is what the driver sees of them, loads and
  stores on I/O ports and on device registers, over a state the driver cannot look into.  A store may make the
  device read the command memory of the driver and change its bounce buffer.
\<close>

record port_mem =
  cl_flags :: u16
  cl_prdtl :: u16
  cl_ctba :: u32
  cl_ctbau :: u32
  cfis :: "nat \<Rightarrow> u8"
  prd_dba :: u32
  prd_dbau :: u32
  prd_rsv :: u32
  prd_dbc :: u32

record 'h hw =
  outl :: "u16 \<Rightarrow> u32 \<Rightarrow> 'h \<Rightarrow> 'h"
  inl :: "u16 \<Rightarrow> 'h \<Rightarrow> u32 \<times> 'h"
  mrd :: "u64 \<Rightarrow> 'h \<Rightarrow> u32 \<times> 'h"
  mwr :: "u64 \<Rightarrow> u32 \<Rightarrow> (nat \<Rightarrow> port_mem) \<times> buf \<Rightarrow> 'h \<Rightarrow> buf \<times> 'h"
  mem_at :: u64
  bounce_at :: u64

record 'h ahci =
  hba :: 'h
  ahci_mem :: "nat \<Rightarrow> port_mem"
  ahci_bounce :: buf
  ahci_mmio :: u64
  ahci_ports :: "nat \<Rightarrow> int"
  ahci_ndrives :: nat
  ahci_held :: bool
  avm :: mem64
  alog :: ser

definition AHCI64_DRIVE_BASE :: int where "AHCI64_DRIVE_BASE = 4"
definition AHCI64_MAX_PORTS :: nat where "AHCI64_MAX_PORTS = 8"

definition HBA_GHC :: u64 where "HBA_GHC = 4"
definition HBA_PI :: u64 where "HBA_PI = 0xC"
definition PX_CLB :: u64 where "PX_CLB = 0"
definition PX_FB :: u64 where "PX_FB = 8"
definition PX_IS :: u64 where "PX_IS = 0x10"
definition PX_IE :: u64 where "PX_IE = 0x14"
definition PX_CMD :: u64 where "PX_CMD = 0x18"
definition PX_TFD :: u64 where "PX_TFD = 0x20"
definition PX_SIG :: u64 where "PX_SIG = 0x24"
definition PX_SSTS :: u64 where "PX_SSTS = 0x28"
definition PX_SERR :: u64 where "PX_SERR = 0x30"
definition PX_CI :: u64 where "PX_CI = 0x38"
definition GHC_AE :: u32 where "GHC_AE = 0x80000000"
definition CMD_ST :: u32 where "CMD_ST = 1"
definition CMD_SUD :: u32 where "CMD_SUD = 2"
definition CMD_FRE :: u32 where "CMD_FRE = 0x10"
definition CMD_FR :: u32 where "CMD_FR = 0x4000"
definition CMD_CR :: u32 where "CMD_CR = 0x8000"
definition IS_TFES :: u32 where "IS_TFES = 0x40000000"
definition SSTS_DET :: u32 where "SSTS_DET = 3"

section \<open>Register access\<close>

definition out_l :: "'h hw \<Rightarrow> u16 \<Rightarrow> u32 \<Rightarrow> ('h ahci, unit) opn" where
  "out_l H port v = modify (\<lambda>s. s\<lparr>hba := outl H port v (hba s)\<rparr>)"

definition in_l :: "'h hw \<Rightarrow> u16 \<Rightarrow> ('h ahci, u32) opn" where
  "in_l H port s = (let (v, h) = inl H port (hba s) in (Val v, s\<lparr>hba := h\<rparr>))"

definition rd_reg :: "'h hw \<Rightarrow> u64 \<Rightarrow> ('h ahci, u32) opn" where
  "rd_reg H a s = (let (v, h) = mrd H a (hba s) in (Val v, s\<lparr>hba := h\<rparr>))"

definition wr_reg :: "'h hw \<Rightarrow> u64 \<Rightarrow> u32 \<Rightarrow> ('h ahci, unit) opn" where
  "wr_reg H a v s = (let (b, h) = mwr H a v (ahci_mem s, ahci_bounce s) (hba s) in (Val (), s\<lparr>hba := h, ahci_bounce := b\<rparr>))"

definition log_puts :: "font \<Rightarrow> string \<Rightarrow> ('h ahci, unit) opn" where
  "log_puts ft msg = modify (\<lambda>s. s\<lparr>alog := s_puts ft (lit msg) (alog s)\<rparr>)"

definition log_hex :: "font \<Rightarrow> u64 \<Rightarrow> ('h ahci, unit) opn" where
  "log_hex ft v = modify (\<lambda>s. s\<lparr>alog := s_hex64 ft v (alog s)\<rparr>)"

definition log_dec :: "font \<Rightarrow> u64 \<Rightarrow> ('h ahci, unit) opn" where
  "log_dec ft v = modify (\<lambda>s. s\<lparr>alog := s_dec64 ft v (alog s)\<rparr>)"

definition pci_addr :: "u8 \<Rightarrow> u8 \<Rightarrow> u8 \<Rightarrow> u32" where
  "pci_addr slot func rg = 0x80000000 OR push_bit 11 (ucast slot) OR push_bit 8 (ucast func) OR (ucast rg AND 0xFC)"

definition pci_cfg :: "'h hw \<Rightarrow> u8 \<Rightarrow> u8 \<Rightarrow> u8 \<Rightarrow> ('h ahci, u32) opn" where
  "pci_cfg H slot func rg = seq (out_l H 0xCF8 (pci_addr slot func rg)) (\<lambda>_. in_l H 0xCFC)"

definition pci_cfg_w :: "'h hw \<Rightarrow> u8 \<Rightarrow> u8 \<Rightarrow> u8 \<Rightarrow> u32 \<Rightarrow> ('h ahci, unit) opn" where
  "pci_cfg_w H slot func rg v = seq (out_l H 0xCF8 (pci_addr slot func rg)) (\<lambda>_. out_l H 0xCFC v)"

definition px :: "nat \<Rightarrow> u64 \<Rightarrow> 'h ahci \<Rightarrow> u64" where
  "px port reg s = ahci_mmio s + 0x100 + of_nat port * 0x80 + reg"

definition rd_px :: "'h hw \<Rightarrow> nat \<Rightarrow> u64 \<Rightarrow> ('h ahci, u32) opn" where
  "rd_px H port reg s = rd_reg H (px port reg s) s"

definition wr_px :: "'h hw \<Rightarrow> nat \<Rightarrow> u64 \<Rightarrow> u32 \<Rightarrow> ('h ahci, unit) opn" where
  "wr_px H port reg v s = wr_reg H (px port reg s) v s"

text \<open>The polling loops: at most \<open>t\<close> turns; the result is whether the loop stopped before its count ran out.\<close>

primrec wait_clear :: "'h hw \<Rightarrow> nat \<Rightarrow> u64 \<Rightarrow> u32 \<Rightarrow> nat \<Rightarrow> ('h ahci, bool) opn" where
  "wait_clear H port reg m 0 = ret False"
| "wait_clear H port reg m (Suc t) = seq (rd_px H port reg) (\<lambda>v. if v AND m = 0 then ret True else wait_clear H port reg m t)"

primrec wait_done :: "'h hw \<Rightarrow> nat \<Rightarrow> nat \<Rightarrow> ('h ahci, bool) opn" where
  "wait_done H port 0 = ret False"
| "wait_done H port (Suc t) =
     seq (rd_px H port PX_CI) (\<lambda>ci.
     seq (rd_px H port PX_IS) (\<lambda>s.
     if s AND IS_TFES \<noteq> 0 then ret True else if ci AND 1 = 0 then ret True else wait_done H port t))"

section \<open>Bringing a port up\<close>

text \<open>A port's command memory takes 8192 bytes: the command list, the received-FIS area at 1024 and the
  command table at 4096.\<close>

definition port_mem_at :: "'h hw \<Rightarrow> nat \<Rightarrow> u64" where
  "port_mem_at H port = mem_at H + of_nat port * 8192"

definition ahci_port_start :: "'h hw \<Rightarrow> font \<Rightarrow> nat \<Rightarrow> ('h ahci, int) opn" where
  "ahci_port_start H ft port =
     seq (rd_px H port PX_CMD) (\<lambda>c.
     seq (wr_px H port PX_CMD (c AND NOT (CMD_ST OR CMD_FRE))) (\<lambda>_.
     seq (wait_clear H port PX_CMD (CMD_CR OR CMD_FR) 200000) (\<lambda>stopped.
     if \<not> stopped then seq (log_puts ft ''[AHCI] port engine never stopped\<newline>'') (\<lambda>_. ret (- 1))
     else if port_mem_at H port \<ge> 0x100000000 then ret (- 1)
     else
       let mem_phys = ucast (port_mem_at H port) :: u32
       in seq (wr_px H port PX_CLB mem_phys) (\<lambda>_.
          seq (wr_px H port (PX_CLB + 4) 0) (\<lambda>_.
          seq (wr_px H port PX_FB (mem_phys + 1024)) (\<lambda>_.
          seq (wr_px H port (PX_FB + 4) 0) (\<lambda>_.
          seq (wr_px H port PX_IS 0xFFFFFFFF) (\<lambda>_.
          seq (wr_px H port PX_SERR 0xFFFFFFFF) (\<lambda>_.
          seq (wr_px H port PX_IE 0) (\<lambda>_.
          seq (rd_px H port PX_CMD) (\<lambda>c.
          seq (wr_px H port PX_CMD (c OR (CMD_SUD OR CMD_FRE OR CMD_ST))) (\<lambda>_. ret 0))))))))))))"

definition add_drive :: "font \<Rightarrow> nat \<Rightarrow> ('h ahci, unit) opn" where
  "add_drive ft p =
     seq (gets ahci_ndrives) (\<lambda>n.
     seq (modify (\<lambda>s. s\<lparr>ahci_ports := (ahci_ports s)(n := int p)\<rparr>)) (\<lambda>_.
     seq (log_puts ft ''[AHCI] port '') (\<lambda>_.
     seq (log_dec ft (of_nat p)) (\<lambda>_.
     seq (log_puts ft '' SATA -> drive '') (\<lambda>_.
     seq (log_dec ft (of_int (AHCI64_DRIVE_BASE + int n))) (\<lambda>_.
     seq (log_puts ft ''\<newline>'') (\<lambda>_.
     modify (\<lambda>s. s\<lparr>ahci_ndrives := Suc n\<rparr>))))))))"

text \<open>One turn of the port loop of \<^verbatim>\<open>ahci64_init\<close>; the loop ends when eight drives are known.\<close>

definition init_port :: "'h hw \<Rightarrow> font \<Rightarrow> u32 \<Rightarrow> nat \<Rightarrow> ('h ahci, unit option) opn" where
  "init_port H ft pi p =
     seq (gets ahci_ndrives) (\<lambda>n.
     if \<not> n < AHCI64_MAX_PORTS then ret (Some ())
     else if \<not> bit pi p then ret None
     else
       seq (rd_px H p PX_SSTS) (\<lambda>ssts.
       if ssts AND SSTS_DET \<noteq> SSTS_DET then ret None
       else
         seq (rd_px H p PX_SIG) (\<lambda>sig.
         if drop_bit 16 sig = 0xEB14 then ret None
         else
           seq (ahci_port_start H ft p) (\<lambda>r.
           if r < 0 then ret None
           else
             seq (add_drive ft p) (\<lambda>_. ret None)))))"

definition map_bar :: "u64 \<Rightarrow> ('h ahci, int) opn" where
  "map_bar a s = (case vmm_map_page a a (VMM_RW OR VMM_UC) (avm s) of None \<Rightarrow> (Trap, s) | Some (r, m) \<Rightarrow> (Val r, s\<lparr>avm := m\<rparr>))"

text \<open>The registers, inside the device window or mapped on demand: \<open>Some True\<close> go on, \<open>Some False\<close> leave, \<open>None\<close> next device.\<close>

definition reach_bar :: "u32 \<Rightarrow> ('h ahci, bool option) opn" where
  "reach_bar base =
     (if base < 0xFE000000 \<or> base \<ge> 0xFF000000 then
        if (ucast base :: u64) < 0x100000000 - 8192 \<and> base \<ge> 0x1000000 then
          seq (map_bar (ucast base)) (\<lambda>r.
          if r \<noteq> 0 then ret (Some False)
          else seq (map_bar (ucast (base + 4096))) (\<lambda>r. ret (Some (r = 0))))
        else ret None
      else ret (Some True))"

definition init_hba :: "'h hw \<Rightarrow> font \<Rightarrow> u8 \<Rightarrow> u8 \<Rightarrow> u32 \<Rightarrow> ('h ahci, unit) opn" where
  "init_hba H ft slot func base =
     seq (pci_cfg H slot func 4) (\<lambda>pcicmd.
     seq (pci_cfg_w H slot func 4 (pcicmd OR 6)) (\<lambda>_.
     seq (modify (\<lambda>s. s\<lparr>ahci_mmio := ucast base\<rparr>)) (\<lambda>_.
     seq (rd_reg H (ucast base + HBA_GHC)) (\<lambda>g.
     seq (wr_reg H (ucast base + HBA_GHC) (g OR GHC_AE)) (\<lambda>_.
     seq (rd_reg H (ucast base + HBA_PI)) (\<lambda>pi.
     seq (log_puts ft ''[AHCI] controller @ '') (\<lambda>_.
     seq (log_hex ft (ucast base)) (\<lambda>_.
     seq (log_puts ft '' PI='') (\<lambda>_.
     seq (log_hex ft (ucast pi)) (\<lambda>_.
     seq (log_puts ft ''\<newline>'') (\<lambda>_.
     seq (each (init_port H ft pi) [0..<32]) (\<lambda>_.
     seq (gets ahci_ndrives) (\<lambda>n.
     log_puts ft (if n \<noteq> 0 then ''[AHCI] ready\<newline>'' else ''[AHCI] no disks\<newline>''))))))))))))))"

definition init_func :: "'h hw \<Rightarrow> font \<Rightarrow> nat \<times> nat \<Rightarrow> ('h ahci, unit option) opn" where
  "init_func H ft sf =
     (let slot = of_nat (fst sf); func = of_nat (snd sf)
      in seq (pci_cfg H slot func 0) (\<lambda>id.
         if id = 0xFFFFFFFF then ret None
         else
           seq (pci_cfg H slot func 8) (\<lambda>cls.
           if drop_bit 24 cls AND 0xFF \<noteq> 1 \<or> drop_bit 16 cls AND 0xFF \<noteq> 6 \<or> drop_bit 8 cls AND 0xFF \<noteq> 1 then ret None
           else
             seq (pci_cfg H slot func 0x24) (\<lambda>bar5.
             if bar5 AND 1 \<noteq> 0 then ret None
             else
               let base = bar5 AND NOT 0xF
               in seq (reach_bar base) (\<lambda>r.
                  case r of None \<Rightarrow> ret None
                  | Some go \<Rightarrow> if go then seq (init_hba H ft slot func base) (\<lambda>_. ret (Some ())) else ret (Some ()))))))"

definition ahci64_init :: "'h hw \<Rightarrow> font \<Rightarrow> ('h ahci, unit) opn" where
  "ahci64_init H ft =
     seq (modify (\<lambda>s. s\<lparr>ahci_ports := (\<lambda>i. if i < AHCI64_MAX_PORTS then -1 else ahci_ports s i)\<rparr>)) (\<lambda>_.
     seq (each (init_func H ft) [(slot, func). slot \<leftarrow> [0..<32], func \<leftarrow> [0..<8]]) (\<lambda>r.
     case r of Some _ \<Rightarrow> ret () | None \<Rightarrow> log_puts ft ''[AHCI] no AHCI controller (PCI)\<newline>''))"

definition ahci64_present :: "'h ahci \<Rightarrow> bool" where
  "ahci64_present s \<longleftrightarrow> ahci_ndrives s > 0"

definition ahci64_drive_count :: "'h ahci \<Rightarrow> nat" where
  "ahci64_drive_count s = ahci_ndrives s"

section \<open>Commands\<close>

text \<open>The command FIS: register, host to device; READ or WRITE DMA EXT.\<close>

definition cmd_fis :: "bool \<Rightarrow> u32 \<Rightarrow> nat \<Rightarrow> nat \<Rightarrow> u8" where
  "cmd_fis is_write lba count =
     (\<lambda>_. 0)(0 := 0x27, 1 := 0x80, 2 := (if is_write then 0x35 else 0x25), 4 := ucast lba, 5 := ucast (drop_bit 8 lba),
             6 := ucast (drop_bit 16 lba), 7 := 0x40, 8 := ucast (drop_bit 24 lba), 9 := 0, 10 := 0, 12 := of_nat count)"

definition fill_cmd :: "'h hw \<Rightarrow> nat \<Rightarrow> bool \<Rightarrow> u32 \<Rightarrow> nat \<Rightarrow> port_mem \<Rightarrow> port_mem" where
  "fill_cmd H port is_write lba count m =
     m\<lparr>cl_flags := 5 OR push_bit 10 1 OR (if is_write then push_bit 6 1 else 0), cl_prdtl := 1,
       cl_ctba := ucast (port_mem_at H port + 4096), cl_ctbau := 0, cfis := cmd_fis is_write lba count,
       prd_dba := ucast (bounce_at H), prd_dbau := 0, prd_rsv := 0, prd_dbc := (of_nat (count * 512) - 1) OR push_bit 31 1\<rparr>"

definition cmd_failed :: "'h hw \<Rightarrow> nat \<Rightarrow> bool \<Rightarrow> u32 \<Rightarrow> ('h ahci, bool) opn" where
  "cmd_failed H port in_time is' =
     (if \<not> in_time \<or> is' AND IS_TFES \<noteq> 0 then ret True else seq (rd_px H port PX_CI) (\<lambda>ci. ret (ci AND 1 \<noteq> 0)))"

text \<open>A port number past the array is an access outside it.\<close>

definition ahci_issue :: "'h hw \<Rightarrow> font \<Rightarrow> nat \<Rightarrow> bool \<Rightarrow> u32 \<Rightarrow> nat \<Rightarrow> ('h ahci, int) opn" where
  "ahci_issue H ft port is_write lba count =
     (if bounce_at H \<ge> 0x100000000 then ret (- 1)
      else if \<not> port < AHCI64_MAX_PORTS then trap
      else
        seq (modify (\<lambda>s. s\<lparr>ahci_mem := (ahci_mem s)(port := fill_cmd H port is_write lba count (ahci_mem s port))\<rparr>)) (\<lambda>_.
        seq (wr_px H port PX_IS 0xFFFFFFFF) (\<lambda>_.
        seq (wr_px H port PX_SERR 0xFFFFFFFF) (\<lambda>_.
        seq (wait_clear H port PX_TFD 0x88 200000) (\<lambda>idle.
        if \<not> idle then
          seq (log_puts ft ''[AHCI] port not idle (TFD='') (\<lambda>_.
          seq (rd_px H port PX_TFD) (\<lambda>v.
          seq (log_hex ft (ucast v)) (\<lambda>_.
          seq (log_puts ft '')\<newline>'') (\<lambda>_. ret (- 1)))))
        else
          seq (wr_px H port PX_CI 1) (\<lambda>_.
          seq (wait_done H port 4999999) (\<lambda>t.
          seq (rd_px H port PX_IS) (\<lambda>is'.
          seq (cmd_failed H port t is') (\<lambda>bad.
          if bad then
            seq (log_puts ft ''[AHCI] transfer error IS='') (\<lambda>_.
            seq (log_hex ft (ucast is')) (\<lambda>_.
            seq (log_puts ft ''\<newline>'') (\<lambda>_.
            seq (wr_px H port PX_IS 0xFFFFFFFF) (\<lambda>_.
            seq (wr_px H port PX_SERR 0xFFFFFFFF) (\<lambda>_.
            seq (rd_px H port PX_CMD) (\<lambda>c.
            seq (wr_px H port PX_CMD (c OR CMD_ST)) (\<lambda>_. ret (- 1))))))))
          else ret 0))))))))) "

text \<open>The bounce buffer of the driver; the lock is held across the command.\<close>

definition drive_slot :: "int \<Rightarrow> 'h ahci \<Rightarrow> bool" where
  "drive_slot drive s \<longleftrightarrow>
     (let slot = drive - AHCI64_DRIVE_BASE
      in ahci_mmio s \<noteq> 0 \<and> \<not> slot < 0 \<and> slot < int AHCI64_MAX_PORTS \<and> \<not> ahci_ports s (nat slot) < 0)"

definition slot_port :: "int \<Rightarrow> 'h ahci \<Rightarrow> nat" where
  "slot_port drive s = nat (ahci_ports s (nat (drive - AHCI64_DRIVE_BASE)))"

definition ahci_lock_acquire :: "('h ahci, unit) opn" where
  "ahci_lock_acquire s = (if ahci_held s then (Trap, s) else (Val (), s\<lparr>ahci_held := True\<rparr>))"

definition ahci_lock_release :: "('h ahci, unit) opn" where
  "ahci_lock_release = modify (\<lambda>s. s\<lparr>ahci_held := False\<rparr>)"

definition hw_read :: "'h hw \<Rightarrow> font \<Rightarrow> int \<Rightarrow> u32 \<Rightarrow> int \<Rightarrow> ('h ahci, (nat \<times> buf)) opn" where
  "hw_read H ft drive lba count =
     seq (gets (drive_slot drive)) (\<lambda>ok.
     if \<not> ok \<or> count < 1 then fail (- 1)
     else
       let n = batch_limit lba (nat count)
       in seq ahci_lock_acquire (\<lambda>_.
          seq (gets (slot_port drive)) (\<lambda>port.
          seq (ahci_issue H ft port False lba n) (\<lambda>rc.
          seq (gets ahci_bounce) (\<lambda>b.
          seq ahci_lock_release (\<lambda>_. if rc = 0 then ret (n, b) else fail rc))))))"

definition hw_write :: "'h hw \<Rightarrow> font \<Rightarrow> int \<Rightarrow> u32 \<Rightarrow> int \<Rightarrow> buf \<Rightarrow> ('h ahci, unit) opn" where
  "hw_write H ft drive lba count data =
     seq (gets (drive_slot drive)) (\<lambda>ok.
     if \<not> ok \<or> count < 1 then fail (- 1)
     else
       let n = batch_limit lba (nat count)
       in seq ahci_lock_acquire (\<lambda>_.
          seq (modify (\<lambda>s. s\<lparr>ahci_bounce := (\<lambda>j. if j < n * 512 then data j else ahci_bounce s j)\<rparr>)) (\<lambda>_.
          seq (gets (slot_port drive)) (\<lambda>port.
          seq (ahci_issue H ft port True lba n) (\<lambda>rc.
          seq ahci_lock_release (\<lambda>_. if rc = 0 then ret () else fail rc))))))"

end
