(* ===== verification/Ahci_Proofs.thy ===== *)
theory Ahci_Proofs
  imports Ahci Win_Proofs
begin

text \<open>
  The AHCI driver on a device that works as the AHCI and ATA documents say implements the sector device the ext2
  volume is built on; the table of drives that start-up leaves; and what a disk on a port above the seventh does.
\<close>

section \<open>A working host bus adapter\<close>

text \<open>What a command says, read the way the AHCI and ATA documents define the command header, the register FIS
  and the region descriptor: 48 bits of sector number, 16 bits of count, the byte count less one.\<close>

definition fis_lba :: "(nat \<Rightarrow> u8) \<Rightarrow> nat" where
  "fis_lba f = unat (f 4) + 2 ^ 8 * unat (f 5) + 2 ^ 16 * unat (f 6) + 2 ^ 24 * unat (f 8) + 2 ^ 32 * unat (f 9) + 2 ^ 40 * unat (f 10)"

definition fis_count :: "(nat \<Rightarrow> u8) \<Rightarrow> nat" where
  "fis_count f = unat (f 12) + 2 ^ 8 * unat (f 13)"

definition cmd_says :: "'h hw \<Rightarrow> nat \<Rightarrow> port_mem \<Rightarrow> bool \<Rightarrow> u32 \<Rightarrow> nat \<Rightarrow> bool" where
  "cmd_says H p m w lba n \<longleftrightarrow>
     cl_flags m AND 31 = 5 \<and> bit (cl_flags m) 6 = w \<and> cl_prdtl m = 1 \<and> cl_ctba m = ucast (port_mem_at H p + 4096) \<and> cl_ctbau m = 0 \<and>
     cfis m 0 = 0x27 \<and> bit (cfis m 1) 7 \<and> cfis m 2 = (if w then 0x35 else 0x25) \<and> bit (cfis m 7) 6 \<and>
     fis_lba (cfis m) = unat lba \<and> fis_count (cfis m) = n \<and>
     prd_dba m = ucast (bounce_at H) \<and> prd_dbau m = 0 \<and> Suc (unat (prd_dbc m AND mask 22)) = n * 512"

definition reg_at :: "u64 \<Rightarrow> nat \<Rightarrow> u64 \<Rightarrow> u64" where
  "reg_at mm p r = mm + 0x100 + of_nat p * 0x80 + r"

text \<open>The device: \<open>disk h p\<close> are the sectors of the drive on port \<open>p\<close>, \<open>idle h p\<close> says that the port takes a command, and
  \<open>pend h p k\<close> that a command is running which \<open>k\<close> more looks at the command register find unfinished.\<close>

record 'h view =
  disk :: "'h \<Rightarrow> nat \<Rightarrow> u32 \<Rightarrow> nat \<Rightarrow> u8"
  idle :: "'h \<Rightarrow> nat \<Rightarrow> bool"
  pend :: "'h \<Rightarrow> nat \<Rightarrow> nat \<Rightarrow> bool"

definition others :: "'h view \<Rightarrow> nat \<Rightarrow> 'h \<Rightarrow> 'h \<Rightarrow> bool" where
  "others V p h h' \<longleftrightarrow> (\<forall>q. q \<noteq> p \<longrightarrow> disk V h' q = disk V h q \<and> (idle V h q \<longrightarrow> idle V h' q))"

definition same :: "'h view \<Rightarrow> nat \<Rightarrow> 'h \<Rightarrow> 'h \<Rightarrow> bool" where
  "same V p h h' \<longleftrightarrow> disk V h' p = disk V h p \<and> others V p h h'"

text \<open>The effect of a command on the drive and on the bounce buffer.\<close>

definition moved :: "bool \<Rightarrow> u32 \<Rightarrow> nat \<Rightarrow> (u32 \<Rightarrow> nat \<Rightarrow> u8) \<times> buf \<Rightarrow> (u32 \<Rightarrow> nat \<Rightarrow> u8) \<times> buf" where
  "moved w lba n x =
     (let (d, b) = x
      in if w then (\<lambda>l. if unat (l - lba) < n then (\<lambda>i. if i < 512 then b (unat (l - lba) * 512 + i) else d l i) else d l, b)
         else (d, \<lambda>j. if j < n * 512 then d (lba + of_nat (j div 512)) (j mod 512) else b j))"

definition hba_ok :: "'h hw \<Rightarrow> u64 \<Rightarrow> 'h view \<Rightarrow> bool" where
  "hba_ok H mm V \<longleftrightarrow>
     (\<forall>h p. p < 8 \<and> idle V h p \<longrightarrow> (\<exists>v h'. mrd H (reg_at mm p PX_TFD) h = (v, h') \<and> v AND 0x88 = 0 \<and> idle V h' p \<and> same V p h h')) \<and>
     (\<forall>h p r M b. p < 8 \<and> idle V h p \<and> r \<in> {PX_IS, PX_SERR} \<longrightarrow>
        (\<exists>h'. mwr H (reg_at mm p r) 0xFFFFFFFF (M, b) h = (b, h') \<and> idle V h' p \<and> same V p h h')) \<and>
     (\<forall>h p M b w lba n. p < 8 \<and> idle V h p \<and> 1 \<le> n \<and> n \<le> 128 \<and> cmd_says H p (M p) w lba n \<longrightarrow>
        (\<exists>b' h' k. mwr H (reg_at mm p PX_CI) 1 (M, b) h = (b', h') \<and> k < 4999999 \<and> pend V h' p k \<and> others V p h h' \<and>
           (disk V h' p, b') = moved w lba n (disk V h p, b))) \<and>
     (\<forall>h p k. p < 8 \<and> pend V h p k \<longrightarrow>
        (\<exists>v h'. mrd H (reg_at mm p PX_CI) h = (v, h') \<and> (v AND 1 = 0 \<longleftrightarrow> k = 0) \<and> pend V h' p (k - 1) \<and> same V p h h')) \<and>
     (\<forall>h p k. p < 8 \<and> pend V h p k \<longrightarrow>
        (\<exists>v h'. mrd H (reg_at mm p PX_IS) h = (v, h') \<and> v AND IS_TFES = 0 \<and> pend V h' p k \<and> same V p h h')) \<and>
     (\<forall>h p. pend V h p 0 \<longrightarrow> idle V h p)"

lemma hba_same_refl: "same V p h h"
  by (simp add: same_def others_def)

lemma others_same: "same V p h h' \<Longrightarrow> others V p h h'"
  by (simp add: same_def)

lemma others_trans: "others V p h h1 \<Longrightarrow> others V p h1 h2 \<Longrightarrow> others V p h h2"
  by (simp add: others_def)

lemma hba_same_trans: "same V p h h1 \<Longrightarrow> same V p h1 h2 \<Longrightarrow> same V p h h2"
  by (auto simp: same_def intro: others_trans)

section \<open>What the driver writes\<close>

lemma byte_pieces: "unat (ucast (x :: u32) :: u8) + 2 ^ 8 * unat (ucast (drop_bit 8 x) :: u8) + 2 ^ 16 * unat (ucast (drop_bit 16 x) :: u8) +
  2 ^ 24 * unat (ucast (drop_bit 24 x) :: u8) = unat x"
proof -
  define a b c d where "a = unat x" and "b = a div 256" and "c = b div 256" and "d = c div 256"
  have "a < 2 ^ 32" using unsigned_less [of x] by (simp add: a_def)
  then have d: "d < 256" by (simp add: b_def c_def d_def div_less_iff_less_mult)
  have "a div 65536 = c" "a div 16777216 = d" by (simp_all add: b_def c_def d_def flip: div_mult2_eq)
  moreover have "a = 256 * b + a mod 256" "b = 256 * c + b mod 256" "c = 256 * d + c mod 256" by (simp_all add: b_def c_def d_def)
  ultimately have "a mod 256 + 256 * (b mod 256) + 65536 * (c mod 256) + 16777216 * (d mod 256) = a" using d by simp
  with \<open>a div 65536 = c\<close> \<open>a div 16777216 = d\<close> d show ?thesis
    by (simp add: unsigned_ucast_eq take_bit_eq_mod unat_div drop_bit_eq_div flip: a_def b_def)
qed

lemma cmd_encodes: "n \<le> 128 \<Longrightarrow> 1 \<le> n \<Longrightarrow> cmd_says H p (fill_cmd H p w lba n m) w lba n"
proof -
  assume n: "n \<le> 128" "1 \<le> n"
  let ?f = "cmd_fis w lba n"
  have l: "fis_lba ?f = unat lba" using byte_pieces [of lba] by (simp add: fis_lba_def cmd_fis_def)
  have c: "fis_count ?f = n" using n by (simp add: fis_count_def cmd_fis_def unat_of_nat)
  have d: "(of_nat (n * 512) - 1) OR push_bit 31 1 = (of_nat (n * 512 - 1) OR push_bit 31 1 :: u32)" using n by (simp add: of_nat_diff)
  have "((of_nat (n * 512 - 1) OR push_bit 31 1) AND mask 22 :: u32) = take_bit 22 (of_nat (n * 512 - 1))"
    by (simp add: take_bit_or flip: take_bit_eq_mask)
  also have "unat \<dots> = n * 512 - 1" using n by (simp only: unsigned_take_bit_eq unat_of_nat) (simp add: take_bit_eq_mod)
  finally have "Suc (unat (((of_nat (n * 512) - 1) OR push_bit 31 1 :: u32) AND mask 22)) = n * 512" using n unfolding d by simp
  then show ?thesis using l c by (simp add: cmd_says_def fill_cmd_def) (simp add: cmd_fis_def bit_simps)
qed

lemma seq_stepI: "m s = (Val a, s') \<Longrightarrow> k a s' = r \<Longrightarrow> seq m k s = r"
  by simp

section \<open>A command on a working device\<close>

lemma rd_px_step: "mrd H (reg_at (ahci_mmio s) p r) (hba s) = (v, h') \<Longrightarrow> rd_px H p r s = (Val v, s\<lparr>hba := h'\<rparr>)"
  by (simp add: rd_px_def rd_reg_def px_def reg_at_def)

lemma wr_px_step: "mwr H (reg_at (ahci_mmio s) p r) v (ahci_mem s, ahci_bounce s) (hba s) = (b, h') \<Longrightarrow>
  wr_px H p r v s = (Val (), s\<lparr>hba := h', ahci_bounce := b\<rparr>)"
  by (simp add: wr_px_def wr_reg_def px_def reg_at_def)

text \<open>The laws of a working device, one by one.\<close>

lemma hba_laws:
  assumes "hba_ok H mm V" "p < 8"
  shows "idle V h p \<Longrightarrow> \<exists>v h'. mrd H (reg_at mm p PX_TFD) h = (v, h') \<and> v AND 0x88 = 0 \<and> idle V h' p \<and> same V p h h'"
    "idle V h p \<Longrightarrow> r \<in> {PX_IS, PX_SERR} \<Longrightarrow> \<exists>h'. mwr H (reg_at mm p r) 0xFFFFFFFF (M, b) h = (b, h') \<and> idle V h' p \<and> same V p h h'"
    "idle V h p \<Longrightarrow> 1 \<le> n \<Longrightarrow> n \<le> 128 \<Longrightarrow> cmd_says H p (M p) w lba n \<Longrightarrow>
      \<exists>b' h' k. mwr H (reg_at mm p PX_CI) 1 (M, b) h = (b', h') \<and> k < 4999999 \<and> pend V h' p k \<and> others V p h h' \<and>
           (disk V h' p, b') = moved w lba n (disk V h p, b)"
    "pend V h p k \<Longrightarrow> \<exists>v h'. mrd H (reg_at mm p PX_CI) h = (v, h') \<and> (v AND 1 = 0 \<longleftrightarrow> k = 0) \<and> pend V h' p (k - 1) \<and> same V p h h'"
    "pend V h p k \<Longrightarrow> \<exists>v h'. mrd H (reg_at mm p PX_IS) h = (v, h') \<and> v AND IS_TFES = 0 \<and> pend V h' p k \<and> same V p h h'"
    "pend V h p 0 \<Longrightarrow> idle V h p"
proof -
  note a = assms(1) [unfolded hba_ok_def]
  note b = a [THEN conjunct2]
  note c = b [THEN conjunct2]
  note d = c [THEN conjunct2]
  note e = d [THEN conjunct2]
  show "idle V h p \<Longrightarrow> \<exists>v h'. mrd H (reg_at mm p PX_TFD) h = (v, h') \<and> v AND 0x88 = 0 \<and> idle V h' p \<and> same V p h h'"
    using a [THEN conjunct1] assms(2) by blast
  show "idle V h p \<Longrightarrow> r \<in> {PX_IS, PX_SERR} \<Longrightarrow> \<exists>h'. mwr H (reg_at mm p r) 0xFFFFFFFF (M, b) h = (b, h') \<and> idle V h' p \<and> same V p h h'"
    using b [THEN conjunct1] assms(2) by blast
  show "idle V h p \<Longrightarrow> 1 \<le> n \<Longrightarrow> n \<le> 128 \<Longrightarrow> cmd_says H p (M p) w lba n \<Longrightarrow>
      \<exists>b' h' k. mwr H (reg_at mm p PX_CI) 1 (M, b) h = (b', h') \<and> k < 4999999 \<and> pend V h' p k \<and> others V p h h' \<and>
           (disk V h' p, b') = moved w lba n (disk V h p, b)"
    using c [THEN conjunct1, rule_format, of p h n M w lba b] assms(2) by blast
  show "pend V h p k \<Longrightarrow> \<exists>v h'. mrd H (reg_at mm p PX_CI) h = (v, h') \<and> (v AND 1 = 0 \<longleftrightarrow> k = 0) \<and> pend V h' p (k - 1) \<and> same V p h h'"
    using d [THEN conjunct1] assms(2) by blast
  show "pend V h p k \<Longrightarrow> \<exists>v h'. mrd H (reg_at mm p PX_IS) h = (v, h') \<and> v AND IS_TFES = 0 \<and> pend V h' p k \<and> same V p h h'"
    using e [THEN conjunct1] assms(2) by blast
  show "pend V h p 0 \<Longrightarrow> idle V h p" using e [THEN conjunct2] by blast
qed

lemma wait_done_ok:
  assumes ok: "hba_ok H mm V" "p < 8"
  shows "k < t \<Longrightarrow> pend V (hba s) p k \<Longrightarrow> ahci_mmio s = mm \<Longrightarrow>
    \<exists>h'. wait_done H p t s = (Val True, s\<lparr>hba := h'\<rparr>) \<and> pend V h' p 0 \<and> same V p (hba s) h'"
proof (induction t arbitrary: k s)
  case (Suc t)
  obtain v h1 where ci: "mrd H (reg_at mm p PX_CI) (hba s) = (v, h1)" "v AND 1 = 0 \<longleftrightarrow> k = 0" "pend V h1 p (k - 1)" "same V p (hba s) h1"
    using hba_laws(4) [OF ok Suc.prems(2)] by blast
  obtain u h2 where st: "mrd H (reg_at mm p PX_IS) h1 = (u, h2)" "u AND IS_TFES = 0" "pend V h2 p (k - 1)" "same V p h1 h2"
    using hba_laws(5) [OF ok ci(3)] by blast
  have r1: "rd_px H p PX_CI s = (Val v, s\<lparr>hba := h1\<rparr>)" using ci(1) Suc.prems(3) by (intro rd_px_step) simp
  have r2: "rd_px H p PX_IS (s\<lparr>hba := h1\<rparr>) = (Val u, s\<lparr>hba := h2\<rparr>)" using st(1) Suc.prems(3) rd_px_step [of H "s\<lparr>hba := h1\<rparr>"] by simp
  note sm = hba_same_trans [OF ci(4) st(4)]
  show ?case
  proof (cases "k = 0")
    case True
    then show ?thesis using r1 r2 st ci(2) sm by (auto intro!: exI [of _ h2])
  next
    case False
    then have "k - 1 < t" using Suc.prems(1) by simp
    then obtain h' where "wait_done H p t (s\<lparr>hba := h2\<rparr>) = (Val True, s\<lparr>hba := h'\<rparr>)" "pend V h' p 0" "same V p h2 h'"
      using Suc.IH [of "k - 1" "s\<lparr>hba := h2\<rparr>"] Suc.prems st(3) by auto
    then show ?thesis using False r1 r2 st(2) ci(2) hba_same_trans [OF sm] by (auto intro!: exI [of _ h'])
  qed
qed simp

lemma issue_ok:
  assumes ok: "hba_ok H mm V" "p < 8" and s: "idle V (hba s) p" "ahci_mmio s = mm" "bounce_at H < 0x100000000" and n: "1 \<le> n" "n \<le> 128"
  shows "\<exists>h' b'. ahci_issue H ft p w lba n s =
      (Val 0, s\<lparr>hba := h', ahci_mem := (ahci_mem s)(p := fill_cmd H p w lba n (ahci_mem s p)), ahci_bounce := b'\<rparr>) \<and>
    idle V h' p \<and> others V p (hba s) h' \<and> (disk V h' p, b') = moved w lba n (disk V (hba s) p, ahci_bounce s)"
proof -
  let ?M = "(ahci_mem s)(p := fill_cmd H p w lba n (ahci_mem s p))"
  define s0 where "s0 = s\<lparr>ahci_mem := ?M\<rparr>"
  have s0: "ahci_mmio s0 = mm" "ahci_mem s0 = ?M" "hba s0 = hba s" "ahci_bounce s0 = ahci_bounce s" using s(2) by (simp_all add: s0_def)
  obtain h1 where h1: "mwr H (reg_at mm p PX_IS) 0xFFFFFFFF (?M, ahci_bounce s) (hba s) = (ahci_bounce s, h1)" "idle V h1 p" "same V p (hba s) h1"
    using hba_laws(2) [OF ok s(1), of PX_IS] by blast
  obtain h2 where h2: "mwr H (reg_at mm p PX_SERR) 0xFFFFFFFF (?M, ahci_bounce s) h1 = (ahci_bounce s, h2)" "idle V h2 p" "same V p h1 h2"
    using hba_laws(2) [OF ok h1(2), of PX_SERR] by blast
  obtain v h3 where h3: "mrd H (reg_at mm p PX_TFD) h2 = (v, h3)" "v AND 0x88 = 0" "idle V h3 p" "same V p h2 h3"
    using hba_laws(1) [OF ok h2(2)] by blast
  have says: "cmd_says H p (?M p) w lba n" using cmd_encodes [OF n(2,1)] by simp
  obtain b4 h4 k where h4: "mwr H (reg_at mm p PX_CI) 1 (?M, ahci_bounce s) h3 = (b4, h4)" "k < 4999999" "pend V h4 p k" "others V p h3 h4"
    "(disk V h4 p, b4) = moved w lba n (disk V h3 p, ahci_bounce s)"
    using hba_laws(3) [where M = ?M, OF ok h3(3) n says] by blast
  let ?s4 = "s0\<lparr>hba := h4, ahci_bounce := b4\<rparr>"
  obtain h5 where h5: "wait_done H p 4999999 ?s4 = (Val True, ?s4\<lparr>hba := h5\<rparr>)" "pend V h5 p 0" "same V p h4 h5"
    using wait_done_ok [OF ok h4(2), of ?s4] h4(3) s0 by auto
  obtain u h6 where h6: "mrd H (reg_at mm p PX_IS) h5 = (u, h6)" "u AND IS_TFES = 0" "pend V h6 p 0" "same V p h5 h6"
    using hba_laws(5) [OF ok h5(2)] by blast
  obtain x h7 where h7: "mrd H (reg_at mm p PX_CI) h6 = (x, h7)" "x AND 1 = 0" "pend V h7 p 0" "same V p h6 h7"
    using hba_laws(4) [OF ok h6(3)] by fastforce
  have w1: "wr_px H p PX_IS 0xFFFFFFFF s0 = (Val (), s0\<lparr>hba := h1\<rparr>)"
    using wr_px_step [of H s0 p PX_IS "0xFFFFFFFF"] h1(1) s0 by (simp add: s0_def)
  have w2: "wr_px H p PX_SERR 0xFFFFFFFF (s0\<lparr>hba := h1\<rparr>) = (Val (), s0\<lparr>hba := h2\<rparr>)"
    using wr_px_step [of H "s0\<lparr>hba := h1\<rparr>" p PX_SERR "0xFFFFFFFF"] h2(1) s0 by (simp add: s0_def)
  have r3: "rd_px H p PX_TFD (s0\<lparr>hba := h2\<rparr>) = (Val v, s0\<lparr>hba := h3\<rparr>)"
    using rd_px_step [of H "s0\<lparr>hba := h2\<rparr>" p PX_TFD] h3(1) s0 by simp
  have "wait_clear H p PX_TFD 0x88 (Suc 199999) (s0\<lparr>hba := h2\<rparr>) = (Val True, s0\<lparr>hba := h3\<rparr>)" unfolding wait_clear.simps using r3 h3(2) by simp
  then have t3: "wait_clear H p PX_TFD 0x88 200000 (s0\<lparr>hba := h2\<rparr>) = (Val True, s0\<lparr>hba := h3\<rparr>)" by (simp only: numeral_eq_Suc) simp
  have w4: "wr_px H p PX_CI 1 (s0\<lparr>hba := h3\<rparr>) = (Val (), ?s4)"
    using wr_px_step [of H "s0\<lparr>hba := h3\<rparr>" p PX_CI 1] h4(1) s0 by simp
  have r6: "rd_px H p PX_IS (?s4\<lparr>hba := h5\<rparr>) = (Val u, ?s4\<lparr>hba := h6\<rparr>)"
    using rd_px_step [of H "?s4\<lparr>hba := h5\<rparr>" p PX_IS] h6(1) s0 by simp
  have r7: "rd_px H p PX_CI (?s4\<lparr>hba := h6\<rparr>) = (Val x, ?s4\<lparr>hba := h7\<rparr>)"
    using rd_px_step [of H "?s4\<lparr>hba := h6\<rparr>" p PX_CI] h7(1) s0 by simp
  have r8: "cmd_failed H p True u (?s4\<lparr>hba := h6\<rparr>) = (Val False, ?s4\<lparr>hba := h7\<rparr>)"
    using r7 h7(2) h6(2) by (simp add: cmd_failed_def)
  have "bounce_at H \<ge> 0x100000000 \<longleftrightarrow> False" "\<not> p < AHCI64_MAX_PORTS \<longleftrightarrow> False"
    using s(3) ok(2) by (simp_all add: AHCI64_MAX_PORTS_def not_le)
  then have "ahci_issue H ft p w lba n s = (Val 0, ?s4\<lparr>hba := h7\<rparr>)"
    unfolding ahci_issue_def
    apply (simp only: if_False seq_simps s0_def [symmetric])
    apply (rule seq_stepI, rule w1)
    apply (rule seq_stepI, rule w2)
    apply (rule seq_stepI, rule t3)
    apply (simp only: not_True_eq_False if_False)
    apply (rule seq_stepI, rule w4)
    apply (rule seq_stepI, rule h5(1))
    apply (rule seq_stepI, rule r6)
    apply (rule seq_stepI, rule r8)
    apply (simp only: if_False ret_run)
    done
  moreover have sm: "same V p h4 h7" by (rule hba_same_trans [OF hba_same_trans [OF h5(3) h6(4)] h7(4)])
  moreover have s3: "same V p (hba s) h3" by (rule hba_same_trans [OF hba_same_trans [OF h1(3) h2(3)] h3(4)])
  moreover have "others V p (hba s) h7" by (rule others_trans [OF others_trans [OF others_same [OF s3] h4(4)] others_same [OF sm]])
  moreover have "(disk V h7 p, b4) = moved w lba n (disk V (hba s) p, ahci_bounce s)"
    using h4(5) sm s3 by (simp add: same_def)
  moreover have "idle V h7 p" by (rule hba_laws(6) [OF ok h7(3)])
  ultimately show ?thesis by (auto simp: s0_def intro!: exI [of _ h7] exI [of _ b4])
qed

section \<open>The driver implements the sector device\<close>

fun agree :: "('a \<Rightarrow> 'b \<Rightarrow> bool) \<Rightarrow> 'a res \<Rightarrow> 'b res \<Rightarrow> bool" where
  "agree P (Val a) (Val b) \<longleftrightarrow> P a b"
| "agree P (Err e) (Err e') \<longleftrightarrow> e = e'"
| "agree P Trap Trap \<longleftrightarrow> True"
| "agree P _ _ \<longleftrightarrow> False"

text \<open>The driver serves the device of the volume: the same drives answer, on ports of their own that are ready, with
  the same sectors.\<close>

definition serves :: "'h hw \<Rightarrow> 'h view \<Rightarrow> 'h ahci \<Rightarrow> exst \<Rightarrow> bool" where
  "serves H V s e \<longleftrightarrow>
     hba_ok H (ahci_mmio s) V \<and> bounce_at H < 0x100000000 \<and> \<not> ahci_held s \<and> fault e = (\<lambda>_. None) \<and>
     (\<forall>d. drive_ok e d = drive_slot d s) \<and>
     (\<forall>d. drive_slot d s \<longrightarrow> slot_port d s < 8 \<and> idle V (hba s) (slot_port d s)) \<and>
     (\<forall>d l i. drive_slot d s \<longrightarrow> i < 512 \<longrightarrow> sec e d l i = disk V (hba s) (slot_port d s) l i) \<and>
     (\<forall>d d'. drive_slot d s \<longrightarrow> drive_slot d' s \<longrightarrow> slot_port d s = slot_port d' s \<longrightarrow> d = d')"

lemma slot_cong: "ahci_mmio s' = ahci_mmio s \<Longrightarrow> ahci_ports s' = ahci_ports s \<Longrightarrow> drive_slot d s' = drive_slot d s \<and> slot_port d s' = slot_port d s"
  by (simp add: drive_slot_def slot_port_def)

text \<open>The state after a command on drive \<open>d\<close>.\<close>

lemma serves_step:
  assumes s: "serves H V s e" "drive_slot d s" and p: "p = slot_port d s"
    and h: "idle V h' p" "others V p (hba s) h'" "fault e' = fault e" "drive_ok e' = drive_ok e"
    and sec: "\<And>l i. i < 512 \<Longrightarrow> sec e' d l i = disk V h' p l i" "\<And>d'. d' \<noteq> d \<Longrightarrow> sec e' d' = sec e d'"
  shows "serves H V (s\<lparr>hba := h', ahci_mem := M, ahci_bounce := b, ahci_held := False\<rparr>) e'"
proof -
  let ?s = "s\<lparr>hba := h', ahci_mem := M, ahci_bounce := b, ahci_held := False\<rparr>"
  have c: "drive_slot d' ?s = drive_slot d' s" "slot_port d' ?s = slot_port d' s" for d' by (simp_all add: drive_slot_def slot_port_def)
  have q: "slot_port d' s \<noteq> p" if "drive_slot d' s" "d' \<noteq> d" for d' using s that unfolding serves_def p by blast
  have i: "slot_port d' s < 8 \<and> idle V h' (slot_port d' s)" if "drive_slot d' s" for d'
    using q [OF that] that h(1,2) s(1) p unfolding serves_def others_def by (cases "d' = d") auto
  have k: "sec e' d' l i = disk V h' (slot_port d' s) l i" if "drive_slot d' s" "i < 512" for d' l i
  proof (cases "d' = d")
    case True
    then show ?thesis using sec(1) that(2) p by simp
  next
    case False
    then show ?thesis using q [OF that(1) False] sec(2) h(2) s(1) that unfolding serves_def others_def by simp
  qed
  show ?thesis using s(1) h(3,4) i k unfolding serves_def c by simp
qed

lemma serves_port: "serves H V s e \<Longrightarrow> drive_slot d s \<Longrightarrow> hba_ok H (ahci_mmio s) V \<and> bounce_at H < 0x100000000 \<and> \<not> ahci_held s \<and>
    slot_port d s < 8 \<and> idle V (hba s) (slot_port d s)"
  by (simp add: serves_def)

lemma batch_range: "1 \<le> batch_limit lba c \<and> batch_limit lba c \<le> 128"
  by (simp add: batch_limit_def)

text \<open>
  C11.  \<^bold>\<open>Reads implement the sector device.\<close>  On a working device \<^verbatim>\<open>ahci64_read\<close>, from the command it encodes in memory to the polled
  completion, gives what the abstract sector device gives: the same error for an unknown drive or an empty request, and
  otherwise the same number of sectors with the same bytes; afterwards the driver still serves that device.
\<close>

theorem ahci_read_refines:
  assumes "serves H V s e"
  shows "agree (\<lambda>(n, b) (n', b'). n = n' \<and> (\<forall>j < n * 512. b j = b' j)) (fst (hw_read H ft d lba (int c) s)) (fst (ahci64_read d lba c e)) \<and>
    serves H V (snd (hw_read H ft d lba (int c) s)) (snd (ahci64_read d lba c e))"
proof (cases "drive_slot d s \<and> 1 \<le> c")
  case True
  let ?n = "batch_limit lba c" and ?p = "slot_port d s" and ?s1 = "s\<lparr>ahci_held := True\<rparr>"
  note sv = serves_port [OF assms conjunct1 [OF True]]
  have p1: "slot_port d ?s1 = ?p" by (simp add: slot_port_def)
  obtain h' b' where r: "ahci_issue H ft ?p False lba ?n ?s1 =
      (Val 0, ?s1\<lparr>hba := h', ahci_mem := (ahci_mem s)(?p := fill_cmd H ?p False lba ?n (ahci_mem s ?p)), ahci_bounce := b'\<rparr>)"
    and h: "idle V h' ?p" "others V ?p (hba s) h'" "(disk V h' ?p, b') = moved False lba ?n (disk V (hba s) ?p, ahci_bounce s)"
    using issue_ok [of H "ahci_mmio s" V ?p ?s1 ?n ft False lba] sv batch_range [of lba c] by auto
  let ?s' = "s\<lparr>hba := h', ahci_mem := (ahci_mem s)(?p := fill_cmd H ?p False lba ?n (ahci_mem s ?p)), ahci_bounce := b', ahci_held := False\<rparr>"
  have run: "hw_read H ft d lba (int c) s = (Val (?n, b'), ?s')"
    using True sv r by (simp add: hw_read_def ahci_lock_acquire_def ahci_lock_release_def seq_def p1 Let_def)
  let ?e' = "e\<lparr>ncmd := Suc (ncmd e)\<rparr>"
  have f: "fault e = (\<lambda>_. None)" "drive_ok e d" using assms True by (simp_all add: serves_def)
  then have spec: "ahci64_read d lba c e = (Val (?n, \<lambda>j. sec e d (lba + of_nat (j div 512)) (j mod 512)), ?e')"
    using True by (simp add: ahci64_read_def Let_def)
  have b: "disk V h' ?p = disk V (hba s) ?p" "b' = (\<lambda>j. if j < ?n * 512 then disk V (hba s) ?p (lba + of_nat (j div 512)) (j mod 512) else ahci_bounce s j)"
    using h(3) by (simp_all add: moved_def)
  have sec: "sec e d l i = disk V (hba s) ?p l i" if "i < 512" for l i using assms True that by (simp add: serves_def)
  have "serves H V ?s' ?e'" using sec by (intro serves_step [OF assms _ refl h(1,2)]) (simp_all add: True b(1))
  then show ?thesis unfolding run spec by (simp add: b(2) sec)
next
  case False
  then have "hw_read H ft d lba (int c) s = (Err (- 1), s)" "ahci64_read d lba c e = (Err (- 1), e)"
    using assms by (auto simp: hw_read_def ahci64_read_def serves_def)
  then show ?thesis using assms by simp
qed

text \<open>
  C12.  \<^bold>\<open>Writes implement the sector device.\<close>  The same for \<^verbatim>\<open>ahci64_write\<close>: the sectors of the drive are those the abstract write
  leaves, and no other drive changes.
\<close>

theorem ahci_write_refines:
  assumes "serves H V s e"
  shows "agree (=) (fst (hw_write H ft d lba (int c) data s)) (fst (ahci64_write d lba c data e)) \<and>
    serves H V (snd (hw_write H ft d lba (int c) data s)) (snd (ahci64_write d lba c data e))"
proof (cases "drive_slot d s \<and> 1 \<le> c")
  case True
  let ?n = "batch_limit lba c" and ?p = "slot_port d s"
  let ?b = "\<lambda>j. if j < ?n * 512 then data j else ahci_bounce s j"
  let ?s1 = "s\<lparr>ahci_held := True, ahci_bounce := ?b\<rparr>"
  note sv = serves_port [OF assms conjunct1 [OF True]]
  have p1: "slot_port d ?s1 = ?p" by (simp add: slot_port_def)
  obtain h' b' where r: "ahci_issue H ft ?p True lba ?n ?s1 =
      (Val 0, ?s1\<lparr>hba := h', ahci_mem := (ahci_mem s)(?p := fill_cmd H ?p True lba ?n (ahci_mem s ?p)), ahci_bounce := b'\<rparr>)"
    and h: "idle V h' ?p" "others V ?p (hba s) h'" "(disk V h' ?p, b') = moved True lba ?n (disk V (hba s) ?p, ?b)"
    using issue_ok [of H "ahci_mmio s" V ?p ?s1 ?n ft True lba] sv batch_range [of lba c] by auto
  let ?s' = "s\<lparr>hba := h', ahci_mem := (ahci_mem s)(?p := fill_cmd H ?p True lba ?n (ahci_mem s ?p)), ahci_bounce := b', ahci_held := False\<rparr>"
  have run: "hw_write H ft d lba (int c) data s = (Val (), ?s')"
    using True sv r by (simp add: hw_write_def ahci_lock_acquire_def ahci_lock_release_def seq_def p1 Let_def cong: if_cong)
  let ?e' = "e\<lparr>ncmd := Suc (ncmd e),
     sec := (\<lambda>d' l. if d' = d \<and> unat (l - lba) < ?n then (\<lambda>i. data (unat (l - lba) * 512 + i)) else sec e d' l)\<rparr>"
  have f: "fault e = (\<lambda>_. None)" "drive_ok e d" using assms True by (simp_all add: serves_def)
  then have spec: "ahci64_write d lba c data e = (Val (), ?e')"
    using True by (simp add: ahci64_write_def Let_def)
  have sec: "sec e d l i = disk V (hba s) ?p l i" if "i < 512" for l i using assms True that by (simp add: serves_def)
  have "sec ?e' d l i = disk V h' ?p l i" if "i < 512" for l i
  proof (cases "unat (l - lba) < ?n")
    case True
    then have "unat (l - lba) * 512 + i < ?n * 512" using that by linarith
    then show ?thesis using True that h(3) by (simp add: moved_def)
  next
    case False
    then show ?thesis using that h(3) sec by (simp add: moved_def)
  qed
  then have "serves H V ?s' ?e'" by (intro serves_step [OF assms _ refl h(1,2)]) (auto simp: True)
  then show ?thesis unfolding run spec by simp
next
  case False
  then have "hw_write H ft d lba (int c) data s = (Err (- 1), s)" "ahci64_write d lba c data e = (Err (- 1), e)"
    using assms by (auto simp: hw_write_def ahci64_write_def serves_def)
  then show ?thesis using assms by simp
qed

section \<open>The drives found at start-up\<close>

definition drives :: "'h ahci \<Rightarrow> (nat \<Rightarrow> int) \<times> nat \<times> u64" where
  "drives s = (ahci_ports s, ahci_ndrives s, ahci_mmio s)"

text \<open>An operation that leaves the table of drives alone.\<close>

definition steady :: "('h ahci, 'a) opn \<Rightarrow> bool" where
  "steady m \<longleftrightarrow> (\<forall>s. drives (snd (m s)) = drives s)"

named_theorems steadies \<open>operations that leave the table of drives alone\<close>

lemma steady_basic [steadies]: "steady (ret z)" "steady (fail e)" "steady (gets f)" "steady (rd_reg H a)" "steady (wr_reg H a v)" "steady (in_l H q)"
  "steady (out_l H q v)" "steady (rd_px H p r)" "steady (wr_px H p r v)" "steady (log_puts ft m)" "steady (log_hex ft x)" "steady (log_dec ft x)" "steady (map_bar x)"
  by (auto simp: steady_def drives_def rd_reg_def wr_reg_def in_l_def out_l_def rd_px_def wr_px_def log_puts_def log_hex_def log_dec_def map_bar_def
      split: prod.splits option.splits)

lemma steady_seq [steadies]: "steady m \<Longrightarrow> (\<And>a. steady (k a)) \<Longrightarrow> steady (seq m k)"
  by (simp add: steady_def seq_def split: prod.splits res.splits) (metis snd_conv)

lemma steady_if [steadies]: "steady a \<Longrightarrow> steady b \<Longrightarrow> steady (if c then a else b)"
  by simp

lemma steady_clear [steadies]: "steady (wait_clear H p r m t)"
  by (induction t) (simp_all only: wait_clear.simps steadies)

lemma steady_pci [steadies]: "steady (pci_cfg H sl fn r)" "steady (pci_cfg_w H sl fn r v)"
  unfolding pci_cfg_def pci_cfg_w_def by (intro steadies)+

lemma steady_start [steadies]: "steady (ahci_port_start H ft p)"
  unfolding ahci_port_start_def Let_def by (intro steadies)

lemma steady_reach [steadies]: "steady (reach_bar base)"
  unfolding reach_bar_def by (intro steadies)

lemma steadyD: "steady m \<Longrightarrow> m s = (r, s') \<Longrightarrow> drives s' = drives s"
  by (metis steady_def snd_conv)

text \<open>The drives are ports below \<open>q\<close> in ascending order.\<close>

definition ports_below :: "nat \<Rightarrow> 'h ahci \<Rightarrow> bool" where
  "ports_below q s \<longleftrightarrow> ahci_ndrives s \<le> 8 \<and> (\<forall>i < ahci_ndrives s. 0 \<le> ahci_ports s i \<and> ahci_ports s i < int q) \<and>
     (\<forall>i j. i < j \<longrightarrow> j < ahci_ndrives s \<longrightarrow> ahci_ports s i < ahci_ports s j) \<and> (\<forall>i. ahci_ndrives s \<le> i \<longrightarrow> i < 8 \<longrightarrow> ahci_ports s i = -1)"

lemma ports_mono: "ports_below q s \<Longrightarrow> q \<le> q' \<Longrightarrow> ports_below q' s"
  unfolding ports_below_def by fastforce

lemma ports_cong: "drives s' = drives s \<Longrightarrow> ports_below q s' = ports_below q s"
  by (simp add: ports_below_def drives_def)

lemma ports_new:
  assumes "ports_below p s" "ahci_ndrives s < 8"
    and "ahci_ports s' = (ahci_ports s)(ahci_ndrives s := int p)" "ahci_ndrives s' = Suc (ahci_ndrives s)"
  shows "ports_below (Suc p) s'"
  using assms unfolding ports_below_def by (auto simp: less_Suc_eq)

lemma init_port_ports:
  assumes "init_port H ft pi p s = (Val r, s')" "ports_below p s"
  shows "ports_below (Suc p) s'" "ahci_mmio s' = ahci_mmio s"
proof -
  have "ports_below (Suc p) s' \<and> ahci_mmio s' = ahci_mmio s"
  proof (cases "drives s' = drives s")
    case True
    then show ?thesis using ports_cong [of s' s p] assms(2) ports_mono [of p s' "Suc p"] by (simp add: drives_def)
  next
    case False
    then obtain s3 where d: "drives s3 = drives s" "add_drive ft p s3 = (Val (), s')" and n: "ahci_ndrives s < 8"
      using assms(1) unfolding init_port_def AHCI64_MAX_PORTS_def
      by (auto elim!: seq_ValE split: if_splits dest!: steadyD [OF steady_basic(8)] steadyD [OF steady_start])
    then have "ahci_ports s' = (ahci_ports s3)(ahci_ndrives s3 := int p)" "ahci_ndrives s' = Suc (ahci_ndrives s3)" "ahci_mmio s' = ahci_mmio s3"
      by (auto simp: add_drive_def log_puts_def log_dec_def)
    moreover have "ports_below p s3" using ports_cong [OF d(1)] assms(2) by simp
    ultimately show ?thesis using n d(1) ports_new [of p s3 s'] by (simp add: drives_def)
  qed
  then show "ports_below (Suc p) s'" "ahci_mmio s' = ahci_mmio s" by simp_all
qed

lemma init_ports_all: "each (init_port H ft pi) [a..<b] s = (Val r, s') \<Longrightarrow> ports_below a s \<Longrightarrow> a \<le> b \<Longrightarrow> ports_below b s' \<and> ahci_mmio s' = ahci_mmio s"
proof (induction "b - a" arbitrary: a s)
  case (Suc n)
  then have e: "[a..<b] = a # [Suc a..<b]" by (simp add: upt_conv_Cons)
  obtain r1 s1 where r1: "init_port H ft pi a s = (Val r1, s1)" "(case r1 of Some b \<Rightarrow> ret (Some b) | None \<Rightarrow> each (init_port H ft pi) [Suc a..<b]) s1 = (Val r, s')"
    using Suc.prems(1) unfolding e each.simps by (rule seq_ValE)
  note p = init_port_ports [OF r1(1) Suc.prems(2)]
  show ?case
  proof (cases r1)
    case None
    then show ?thesis using Suc.hyps(1) [of "Suc a" s1] Suc.hyps(2) r1(2) p by simp
  next
    case (Some u)
    then show ?thesis using r1(2) p ports_mono [OF p(1), of b] Suc.hyps(2) by simp
  qed
qed simp

lemma init_hba_ports:
  assumes "init_hba H ft sl fn base s = (Val (), s')" "ports_below 0 s"
  shows "ports_below 32 s' \<and> ahci_mmio s' = ucast base"
proof -
  obtain pi s1 s2 r where d: "ports_below 0 s1" "ahci_mmio s1 = ucast base" and e: "each (init_port H ft pi) [0..<32] s1 = (Val r, s2)" "drives s' = drives s2"
  proof -
    from assms(1) obtain pi r x y where "drives x = drives (s\<lparr>ahci_mmio := ucast base\<rparr>)" "each (init_port H ft pi) [0..<32] x = (Val r, y)" "drives s' = drives y"
      unfolding init_hba_def
      by (auto simp del: upt_rec_numeral elim!: seq_ValE dest!: steadyD [OF steady_basic(4)] steadyD [OF steady_basic(5)] steadyD [OF steady_pci(1)] steadyD [OF steady_pci(2)]
          steadyD [OF steady_basic(10)] steadyD [OF steady_basic(11)]) (simp add: drives_def)
    then show ?thesis using assms(2) that [of x "pi" r y] by (simp add: drives_def ports_below_def)
  qed
  then show ?thesis using init_ports_all [OF e(1) d(1)] ports_cong [OF e(2)] by (simp add: drives_def)
qed


lemma reach_bar_high: "reach_bar base s = (Val r, s') \<Longrightarrow> drives s' = drives s \<and> (r = Some True \<longrightarrow> (ucast base :: u64) \<noteq> 0)"
proof -
  assume a: "reach_bar base s = (Val r, s')"
  have "(ucast base :: u64) \<noteq> 0" if "r = Some True"
  proof -
    have "0x1000000 \<le> base" using a that by (auto simp: reach_bar_def not_less split: if_splits elim: order_trans [rotated])
    then have "0 < unat base" by (simp add: word_le_nat_alt)
    moreover have "unat base < 2 ^ 32" using unsigned_less [of base] by simp
    then have "unat (ucast base :: u64) = unat base" by (simp add: unsigned_ucast_eq take_bit_nat_eq_self)
    ultimately show ?thesis by (metis less_irrefl unat_0)
  qed
  then show ?thesis using steadyD [OF steady_reach a] by simp
qed

lemma init_func_ports:
  assumes "init_func H ft sf s = (Val r, s')" "ports_below 0 s" "ahci_mmio s = 0"
  shows "(r = None \<longrightarrow> drives s' = drives s) \<and> ports_below 32 s' \<and> (ahci_mmio s' = 0 \<longrightarrow> ahci_ndrives s' = 0)"
proof (cases "drives s' = drives s")
  case True
  then show ?thesis using assms(2,3) ports_cong [OF True] ports_mono by (auto simp: drives_def ports_below_def)
next
  case False
  then obtain base s1 where b: "drives s1 = drives s" "init_hba H ft (of_nat (fst sf)) (of_nat (snd sf)) base s1 = (Val (), s')" "r = Some ()" "(ucast base :: u64) \<noteq> 0"
    using assms(1) unfolding init_func_def Let_def
    by (auto elim!: seq_ValE split: if_splits option.splits dest!: steadyD [OF steady_pci(1)] reach_bar_high)
  then have "ports_below 0 s1" using assms(2) ports_cong [OF b(1)] by simp
  then show ?thesis using init_hba_ports [OF b(2)] b(3,4) by simp
qed

lemma init_funcs_ports:
  "each (init_func H ft) sfs s = (Val r, s') \<Longrightarrow> ports_below 0 s \<Longrightarrow> ahci_mmio s = 0 \<Longrightarrow> ports_below 32 s' \<and> (ahci_mmio s' = 0 \<longrightarrow> ahci_ndrives s' = 0)"
proof (induction sfs arbitrary: s)
  case Nil
  then show ?case using ports_mono by (auto simp: ports_below_def)
next
  case (Cons sf sfs)
  obtain r1 s1 where r1: "init_func H ft sf s = (Val r1, s1)" "(case r1 of Some b \<Rightarrow> ret (Some b) | None \<Rightarrow> each (init_func H ft) sfs) s1 = (Val r, s')"
    using Cons.prems(1) unfolding each.simps by (rule seq_ValE)
  note f = init_func_ports [OF r1(1) Cons.prems(2,3)]
  show ?case
  proof (cases r1)
    case None
    then have "drives s1 = drives s" using f by simp
    then show ?thesis using Cons.IH [of s1] None r1(2) ports_cong [of s1 s 0] Cons.prems(2,3) by (simp add: drives_def)
  next
    case (Some u)
    then show ?thesis using r1(2) f by simp
  qed
qed

text \<open>
  \<^bold>\<open>The drives found.\<close>  After \<^verbatim>\<open>ahci64_init\<close>, whatever the PCI bus and the device registers answer, at most eight drives are
  known, the drive numbers that answer are exactly 4, 5, ... without a gap, and they belong to different ports of the adapter, in
  ascending order.
\<close>

theorem ahci_init_drives:
  assumes "ahci64_init H ft s = (Val (), s')" "ahci_ndrives s = 0" "ahci_mmio s = 0"
  shows "ahci64_drive_count s' \<le> 8 \<and> (\<forall>d. drive_slot d s' \<longleftrightarrow> 4 \<le> d \<and> d < 4 + int (ahci64_drive_count s')) \<and>
    (\<forall>d. drive_slot d s' \<longrightarrow> slot_port d s' < 32) \<and> (\<forall>d d'. drive_slot d s' \<and> drive_slot d' s' \<and> d < d' \<longrightarrow> slot_port d s' < slot_port d' s')"
proof -
  let ?s0 = "s\<lparr>ahci_ports := (\<lambda>i. if i < AHCI64_MAX_PORTS then -1 else ahci_ports s i)\<rparr>"
  obtain r s1 where r: "each (init_func H ft) [(slot, func). slot \<leftarrow> [0..<32], func \<leftarrow> [0..<8]] ?s0 = (Val r, s1)" "drives s' = drives s1"
    using assms(1) unfolding ahci64_init_def by (auto simp del: upt_rec_numeral elim!: seq_ValE split: option.splits dest!: steadyD [OF steady_basic(10)])
  have p0: "ports_below 0 ?s0" using assms(2) by (simp add: ports_below_def AHCI64_MAX_PORTS_def)
  have p: "ports_below 32 s'" "ahci_mmio s' = 0 \<longrightarrow> ahci_ndrives s' = 0"
    using init_funcs_ports [OF r(1) p0] ports_cong [OF r(2)] r(2) assms(3) by (simp_all add: drives_def)
  have i: "drive_slot d s' \<longleftrightarrow> 4 \<le> d \<and> d < 4 + int (ahci_ndrives s')" for d
  proof -
    have n: "ahci_ndrives s' \<le> 8" and a: "\<And>i. i < ahci_ndrives s' \<Longrightarrow> 0 \<le> ahci_ports s' i" and
      b: "\<And>i. ahci_ndrives s' \<le> i \<Longrightarrow> i < 8 \<Longrightarrow> ahci_ports s' i = -1" using p(1) by (auto simp: ports_below_def)
    show ?thesis
    proof (cases "nat (d - 4) < ahci_ndrives s'")
      case True
      then show ?thesis using p(2) n a [OF True] by (auto simp: drive_slot_def AHCI64_DRIVE_BASE_def AHCI64_MAX_PORTS_def)
    next
      case False
      then have "4 \<le> d \<Longrightarrow> d < 12 \<Longrightarrow> ahci_ports s' (nat (d - 4)) = -1" using b [of "nat (d - 4)"] by simp
      then show ?thesis using False by (auto simp: drive_slot_def AHCI64_DRIVE_BASE_def AHCI64_MAX_PORTS_def)
    qed
  qed
  have asc: "slot_port d s' < slot_port d' s'" if "drive_slot d s'" "drive_slot d' s'" "d < d'" for d d'
  proof -
    have l: "nat (d - 4) < nat (d' - 4)" "nat (d' - 4) < ahci_ndrives s'" using i [of d] i [of d'] that by linarith+
    then have "ahci_ports s' (nat (d - 4)) < ahci_ports s' (nat (d' - 4))" "0 \<le> ahci_ports s' (nat (d - 4))"
      using p(1) unfolding ports_below_def by auto
    then show ?thesis by (simp add: slot_port_def AHCI64_DRIVE_BASE_def)
  qed
  have hi: "slot_port d s' < 32" if "drive_slot d s'" for d
  proof -
    have "nat (d - 4) < ahci_ndrives s'" using i [of d] that by linarith
    then have "ahci_ports s' (nat (d - 4)) < 32" using p(1) unfolding ports_below_def by auto
    then show ?thesis by (simp add: slot_port_def AHCI64_DRIVE_BASE_def)
  qed
  have "ahci_ndrives s' \<le> 8" using p(1) by (simp add: ports_below_def)
  then show ?thesis unfolding ahci64_drive_count_def by (intro conjI allI impI i) (auto intro: asc hi)
qed


text \<open>
  \<^bold>\<open>A disk on a high port.\<close>  The driver's command memory has eight entries and is indexed by the number of the port, which may be
  anything below 32: a command for a drive on port 8 or above accesses memory outside the array.
\<close>

theorem high_port_overruns:
  assumes "drive_slot d s" "8 \<le> slot_port d s" "1 \<le> c" "\<not> ahci_held s" "bounce_at H < 0x100000000"
  shows "fst (hw_read H ft d lba c s) = Trap \<and> fst (hw_write H ft d lba c data s) = Trap"
proof -
  have "slot_port d (s\<lparr>ahci_held := True\<rparr>) = slot_port d s" "slot_port d (s\<lparr>ahci_held := True, ahci_bounce := b\<rparr>) = slot_port d s" for b
    by (simp_all add: slot_port_def)
  moreover have "ahci_issue H ft (slot_port d s) w lba n x = (Trap, x)" for w n x
    using assms(2,5) by (simp add: ahci_issue_def AHCI64_MAX_PORTS_def not_le)
  ultimately show ?thesis
    using assms(1-4) by (simp add: hw_read_def hw_write_def ahci_lock_acquire_def seq_def Let_def)
qed

section \<open>Witnesses\<close>

text \<open>A small host bus adapter at \<open>0xFEBD0000\<close>, behind function 0 of slot 0, with a disk on every port of \<open>pi\<close>: its state is the
  latched configuration address and the sectors; a command is carried out when it is issued.\<close>

type_synonym emu = "u32 \<times> (nat \<Rightarrow> u32 \<Rightarrow> nat \<Rightarrow> u8)"

definition emu_cfg :: "u32 \<Rightarrow> u32" where
  "emu_cfg a = (let r = a AND 0xFC in if r = 0 then 0x29228086 else if r = 8 then 0x01060100 else if r = 0x24 then 0xFEBD0000 else 0)"

definition emu_reg :: "u32 \<Rightarrow> u64 \<Rightarrow> u32" where
  "emu_reg pi a = (if a = 0xFEBD000C then pi else let r = (a - 0xFEBD0100) AND 0x7F in if r = PX_SSTS then 3 else if r = PX_SIG then 0x101 else 0)"

definition emu_wr :: "u64 \<Rightarrow> u32 \<Rightarrow> (nat \<Rightarrow> port_mem) \<times> buf \<Rightarrow> emu \<Rightarrow> buf \<times> emu" where
  "emu_wr a v x h =
     (let (M, b) = x; k = unat (a - 0xFEBD0100); p = k div 128
      in if k mod 128 = 0x38 \<and> v = 1 then
           let (dp, b') = moved (cfis (M p) 2 = 0x35) (of_nat (fis_lba (cfis (M p)))) (fis_count (cfis (M p))) (snd h p, b)
           in (b', (fst h, (snd h)(p := dp)))
         else (b, h))"

definition emu_hw :: "u32 \<Rightarrow> emu hw" where
  "emu_hw pi = \<lparr>outl = (\<lambda>q v h. if q = 0xCF8 then (v, snd h) else h), inl = (\<lambda>q h. (emu_cfg (fst h), h)), mrd = (\<lambda>a h. (emu_reg pi a, h)),
     mwr = emu_wr, mem_at = 0x300000, bounce_at = 0x400000\<rparr>"

definition emu_view :: "emu view" where
  "emu_view = \<lparr>disk = snd, idle = (\<lambda>_ _. True), pend = (\<lambda>_ _ k. k = 0)\<rparr>"

lemma less_8: "(p :: nat) < 8 \<longleftrightarrow> p = 0 \<or> p = 1 \<or> p = 2 \<or> p = 3 \<or> p = 4 \<or> p = 5 \<or> p = 6 \<or> p = 7"
  by auto

lemma emu_regs: "p < 8 \<Longrightarrow> emu_reg pi (reg_at 0xFEBD0000 p PX_TFD) = 0 \<and> emu_reg pi (reg_at 0xFEBD0000 p PX_CI) = 0 \<and> emu_reg pi (reg_at 0xFEBD0000 p PX_IS) = 0"
  unfolding less_8 by (elim disjE) (simp_all add: emu_reg_def reg_at_def PX_TFD_def PX_CI_def PX_IS_def PX_SSTS_def PX_SIG_def)

lemma emu_writes: "p < 8 \<Longrightarrow> r \<in> {PX_IS, PX_SERR} \<Longrightarrow> emu_wr (reg_at 0xFEBD0000 p r) v (M, b) h = (b, h)"
  unfolding less_8 by (elim disjE insertE emptyE) (simp_all add: emu_wr_def reg_at_def PX_IS_def PX_SERR_def)

lemma emu_issue: "p < 8 \<Longrightarrow> emu_wr (reg_at 0xFEBD0000 p PX_CI) 1 (M, b) h =
   (let (dp, b') = moved (cfis (M p) 2 = 0x35) (of_nat (fis_lba (cfis (M p)))) (fis_count (cfis (M p))) (snd h p, b) in (b', (fst h, (snd h)(p := dp))))"
  unfolding less_8 by (elim disjE) (simp_all add: emu_wr_def reg_at_def PX_CI_def)

lemma emu_ok: "hba_ok (emu_hw pi) 0xFEBD0000 emu_view"
proof -
  have "\<exists>b' h' k. mwr (emu_hw pi) (reg_at 0xFEBD0000 p PX_CI) 1 (M, b) h = (b', h') \<and> k < 4999999 \<and> pend emu_view h' p k \<and> others emu_view p h h' \<and>
      (disk emu_view h' p, b') = moved w lba n (disk emu_view h p, b)"
    if "p < 8" "cmd_says (emu_hw pi) p (M p) w lba n" for h p M b w lba n
  proof -
    have "(cfis (M p) 2 = 0x35) = w" "of_nat (fis_lba (cfis (M p))) = lba" "fis_count (cfis (M p)) = n"
      using that(2) by (auto simp: cmd_says_def split: if_splits)
    then have "emu_wr (reg_at 0xFEBD0000 p PX_CI) 1 (M, b) h =
      (let (dp, b') = moved w lba n (snd h p, b) in (b', (fst h, (snd h)(p := dp))))" using emu_issue [OF that(1), of M b h] by simp
    then show ?thesis by (cases "moved w lba n (snd h p, b)") (simp add: emu_hw_def emu_view_def others_def)
  qed
  then show ?thesis unfolding hba_ok_def
    using emu_regs emu_writes by (intro conjI allI impI) (auto simp: emu_hw_def emu_view_def same_def others_def)
qed

definition emu_drv :: "int \<Rightarrow> emu ahci" where
  "emu_drv p = \<lparr>hba = (0, \<lambda>q l i. of_nat (unat l + i)), ahci_mem = (\<lambda>_. \<lparr>cl_flags = 0, cl_prdtl = 0, cl_ctba = 0, cl_ctbau = 0, cfis = (\<lambda>_. 0),
       prd_dba = 0, prd_dbau = 0, prd_rsv = 0, prd_dbc = 0\<rparr>), ahci_bounce = (\<lambda>_. 0), ahci_mmio = 0xFEBD0000,
     ahci_ports = (\<lambda>i. if i = 0 then p else -1), ahci_ndrives = 1, ahci_held = False, avm = sample_mem, alog = ([], boot_desk)\<rparr>"

definition emu_dev :: exst where
  "emu_dev = \<lparr>sec = (\<lambda>d l i. of_nat (unat l + i)), drive_ok = (\<lambda>d. d = 4), fault = (\<lambda>_. None), ncmd = 0, bufs = (\<lambda>_ _. 0), ex_held = False,
     ex_vol_mounted = False, geo = \<lparr>ex_drive = 4, ex_block_size = 0, ex_inodes = 0, ex_blocks = 0, ex_first_block = 0, ex_bpg = 0, ex_ipg = 0, ex_inode_size = 0\<rparr>\<rparr>"

lemma emu_slot: "0 \<le> p \<Longrightarrow> drive_slot d (emu_drv p) \<longleftrightarrow> d = 4" "slot_port 4 (emu_drv p) = nat p"
  by (auto simp: drive_slot_def slot_port_def emu_drv_def AHCI64_DRIVE_BASE_def AHCI64_MAX_PORTS_def)

lemma emu_serves: "serves (emu_hw 1) emu_view (emu_drv 2) emu_dev"
  unfolding serves_def using emu_ok [of 1] emu_slot [of 2] by (simp add: emu_drv_def emu_dev_def emu_hw_def emu_view_def)

lemma ahci_read_refines_witness: "\<exists>b s'. hw_read (emu_hw 1) (\<lambda>_ _. 0) 4 7 3 (emu_drv 2) = (Val (3, b), s') \<and> b 513 = 9"
proof -
  have e: "ahci64_read 4 7 3 emu_dev = (Val (3, \<lambda>j. of_nat (unat (7 + of_nat (j div 512) :: u32) + j mod 512)), emu_dev\<lparr>ncmd := 1\<rparr>)"
    by (simp add: ahci64_read_def emu_dev_def batch_limit_def)
  obtain r s' where r: "hw_read (emu_hw 1) (\<lambda>_ _. 0) 4 7 (int 3) (emu_drv 2) = (r, s')" by fastforce
  then obtain b where "r = Val (3, b)" "\<forall>j < 3 * 512. b j = of_nat (unat (7 + of_nat (j div 512) :: u32) + j mod 512)"
    using ahci_read_refines [OF emu_serves, of "\<lambda>_ _. 0" 4 7 3] unfolding e by (cases r) auto
  moreover from this(2) have "b 513 = 9" by (auto dest: spec [of _ 513])
  ultimately show ?thesis using r by simp
qed

lemma ahci_write_refines_witness: "\<exists>s'. hw_write (emu_hw 1) (\<lambda>_ _. 0) 4 7 3 (\<lambda>_. 5) (emu_drv 2) = (Val (), s') \<and> disk emu_view (hba s') (slot_port 4 s') 8 11 = 5"
proof -
  obtain e' where e: "ahci64_write 4 7 3 (\<lambda>_. 5) emu_dev = (Val (), e')" "sec e' 4 8 11 = 5" "drive_ok e' 4"
    by (simp add: ahci64_write_def emu_dev_def batch_limit_def)
  obtain r s' where r: "hw_write (emu_hw 1) (\<lambda>_ _. 0) 4 7 (int 3) (\<lambda>_. 5) (emu_drv 2) = (r, s')" by fastforce
  have a: "r = Val ()" "serves (emu_hw 1) emu_view s' e'"
    using ahci_write_refines [OF emu_serves, of "\<lambda>_ _. 0" 4 7 3 "\<lambda>_. 5"] unfolding e r by (cases r; simp)+
  then have "sec e' 4 8 11 = disk emu_view (hba s') (slot_port 4 s') 8 11" using e(3) unfolding serves_def by simp
  then show ?thesis using a(1) e(2) r by simp
qed

text \<open>Start-up on a machine whose only disk hangs on port 8.\<close>

definition emu_boot :: "emu ahci" where
  "emu_boot = (emu_drv 0)\<lparr>ahci_mmio := 0, ahci_ndrives := 0\<rparr>"

lemma emu_runs:
  "out_l (emu_hw pi) 0xCF8 v s = (Val (), s\<lparr>hba := (v, snd (hba s))\<rparr>)" "out_l (emu_hw pi) 0xCFC v s = (Val (), s)"
  "in_l (emu_hw pi) q s = (Val (emu_cfg (fst (hba s))), s)" "rd_reg (emu_hw pi) a s = (Val (emu_reg pi a), s)"
  by (simp_all add: out_l_def in_l_def rd_reg_def emu_hw_def)

lemma emu_pci: "pci_cfg (emu_hw pi) 0 0 r s = (Val (emu_cfg (pci_addr 0 0 r)), s\<lparr>hba := (pci_addr 0 0 r, snd (hba s))\<rparr>)"
  "pci_cfg_w (emu_hw pi) 0 0 r v s = (Val (), s\<lparr>hba := (pci_addr 0 0 r, snd (hba s))\<rparr>)"
  by (simp_all add: pci_cfg_def pci_cfg_w_def emu_runs)

lemma emu_wr_quiet: "unat (a - 0xFEBD0100) mod 128 \<noteq> 0x38 \<Longrightarrow> wr_reg (emu_hw pi) a v s = (Val (), s)"
  by (simp add: wr_reg_def emu_hw_def emu_wr_def)

lemma emu_start8:
  assumes "ahci_mmio s = 0xFEBD0000"
  shows "ahci_port_start (emu_hw pi) ft 8 s = (Val 0, s)"
proof -
  have r: "rd_px (emu_hw pi) 8 PX_CMD s = (Val 0, s)" using assms
    by (simp add: rd_px_def px_def emu_runs emu_reg_def PX_CMD_def PX_SSTS_def PX_SIG_def)
  have w: "wr_px (emu_hw pi) 8 g v s = (Val (), s)" if "g \<in> {PX_CMD, PX_CLB, PX_CLB + 4, PX_FB, PX_FB + 4, PX_IS, PX_SERR, PX_IE}" for g v
    using that assms by (elim insertE emptyE) (simp_all add: wr_px_def px_def emu_wr_quiet PX_CMD_def PX_CLB_def PX_FB_def PX_IS_def PX_SERR_def PX_IE_def)
  have "wait_clear (emu_hw pi) 8 PX_CMD m (Suc 199999) s = (Val True, s)" for m unfolding wait_clear.simps using r by simp
  then have c: "wait_clear (emu_hw pi) 8 PX_CMD m 200000 s = (Val True, s)" for m by (simp only: numeral_eq_Suc) simp
  have "\<not> port_mem_at (emu_hw pi) 8 \<ge> 0x100000000" by (simp add: port_mem_at_def emu_hw_def)
  then show ?thesis unfolding ahci_port_start_def Let_def using r w c by (simp add: seq_def)
qed

lemma init_port_skip: "ahci_ndrives s < 8 \<Longrightarrow> \<not> bit pi p \<Longrightarrow> init_port H ft pi p s = (Val None, s)"
  by (simp add: init_port_def AHCI64_MAX_PORTS_def)

lemma each_skip: "(\<And>x. x \<in> set xs \<Longrightarrow> f x s = (Val None, s)) \<Longrightarrow> each f (xs @ ys) s = each f ys s"
  by (induction xs) simp_all

lemma emu_ports:
  assumes "ahci_mmio s = 0xFEBD0000" "ahci_ndrives s = 0"
  shows "\<exists>s'. each (init_port (emu_hw 0x100) ft 0x100) [0..<32] s = (Val None, s') \<and> drives s' = ((ahci_ports s)(0 := 8), 1, 0xFEBD0000)"
proof -
  have bits: "bit (0x100 :: u32) p \<longleftrightarrow> p = 8" for p
  proof -
    have "(0x100 :: u32) = push_bit 8 1" by simp
    then show ?thesis by (simp only: bit_push_bit_iff bit_1_iff) auto
  qed
  have nb: "p \<noteq> 8 \<Longrightarrow> \<not> bit (0x100 :: u32) p" for p using bits by blast
  have l: "[0..<32] = [0..<8] @ [8] @ [9..<32 :: nat]" by (simp add: upt_add_eq_append [of 0 8 24, simplified] upt_conv_Cons)
  have r: "rd_px (emu_hw 0x100) 8 PX_SSTS s = (Val 3, s)" "rd_px (emu_hw 0x100) 8 PX_SIG s = (Val 0x101, s)"
    using assms(1) by (simp_all add: rd_px_def px_def emu_runs emu_reg_def PX_SSTS_def PX_SIG_def)
  obtain s1 where a: "add_drive ft 8 s = (Val (), s1)" "drives s1 = ((ahci_ports s)(0 := 8), 1, 0xFEBD0000)"
    using assms by (simp add: add_drive_def log_puts_def log_dec_def drives_def)
  have p8: "init_port (emu_hw 0x100) ft 0x100 8 s = (Val None, s1)"
    using assms r emu_start8 [OF assms(1), of "0x100" ft] a(1) bits [of 8] by (simp add: init_port_def AHCI64_MAX_PORTS_def SSTS_DET_def seq_def)
  have n1: "ahci_ndrives s1 < 8" using a(2) by (simp add: drives_def)
  have "each (init_port (emu_hw 0x100) ft 0x100) [0..<32] s = each (init_port (emu_hw 0x100) ft 0x100) ([8] @ [9..<32]) s"
    unfolding l by (rule each_skip, rule init_port_skip, simp add: assms(2), rule nb) (auto simp del: upt_rec_numeral)
  also have "\<dots> = each (init_port (emu_hw 0x100) ft 0x100) ([9..<32] @ []) s1" using p8 by (simp del: upt_rec_numeral)
  also have "\<dots> = each (init_port (emu_hw 0x100) ft 0x100) [] s1"
    by (rule each_skip, rule init_port_skip, rule n1, rule nb) (auto simp del: upt_rec_numeral)
  finally show ?thesis using a(2) by simp
qed

lemma emu_hba:
  assumes "ahci_ndrives s = 0"
  shows "\<exists>s'. init_hba (emu_hw 0x100) ft 0 0 0xFEBD0000 s = (Val (), s') \<and> drives s' = ((ahci_ports s)(0 := 8), 1, 0xFEBD0000)"
proof -
  let ?H = "emu_hw 0x100"
  let ?up = "s\<lparr>hba := (pci_addr 0 0 4, snd (hba s)), ahci_mmio := 0xFEBD0000\<rparr>"
  define s1 where "s1 = ?up\<lparr>alog := s_puts ft (lit ''\<newline>'') (s_hex64 ft (ucast (0x100 :: u32)) (s_puts ft (lit '' PI='') (s_hex64 ft 0xFEBD0000 (s_puts ft (lit ''[AHCI] controller @ '') (alog s)))))\<rparr>"
  have "ahci_mmio s1 = 0xFEBD0000" "ahci_ndrives s1 = 0" "ahci_ports s1 = ahci_ports s" using assms by (simp_all add: s1_def)
  then obtain s2 where s2: "each (init_port ?H ft 0x100) [0..<32] s1 = (Val None, s2)" "drives s2 = ((ahci_ports s)(0 := 8), 1, 0xFEBD0000)"
    using emu_ports [of s1 ft] by auto
  have g: "wr_reg ?H (0xFEBD0000 + HBA_GHC) v x = (Val (), x)" for v x by (rule emu_wr_quiet) (simp add: HBA_GHC_def)
  have i: "emu_reg 0x100 (0xFEBD0000 + HBA_PI) = 0x100" by (simp add: emu_reg_def HBA_PI_def)
  have "init_hba ?H ft 0 0 0xFEBD0000 s = seq (each (init_port ?H ft 0x100) [0..<32]) (\<lambda>_.
     seq (gets ahci_ndrives) (\<lambda>n. log_puts ft (if n \<noteq> 0 then ''[AHCI] ready\<newline>'' else ''[AHCI] no disks\<newline>''))) s1"
    unfolding init_hba_def by (simp add: emu_pci emu_runs g i log_puts_def log_hex_def s1_def del: upt_rec_numeral each.simps)
  then show ?thesis using s2 by (simp add: log_puts_def drives_def del: upt_rec_numeral)
qed

lemma emu_found: "\<exists>s'. ahci64_init (emu_hw 0x100) ft emu_boot = (Val (), s') \<and> drives s' = ((\<lambda>i. -1)(0 := 8), 1, 0xFEBD0000)"
proof -
  let ?H = "emu_hw 0x100"
  define s0 where "s0 = emu_boot\<lparr>ahci_ports := (\<lambda>i. if i < AHCI64_MAX_PORTS then -1 else ahci_ports emu_boot i)\<rparr>"
  define s1 where "s1 = s0\<lparr>hba := (pci_addr 0 0 0x24, snd (hba s0))\<rparr>"
  have s1: "ahci_ndrives s1 = 0" "ahci_ports s1 = (\<lambda>i. -1)" by (auto simp: s1_def s0_def emu_boot_def emu_drv_def AHCI64_MAX_PORTS_def)
  obtain s2 where h: "init_hba ?H ft 0 0 0xFEBD0000 s1 = (Val (), s2)" "drives s2 = ((\<lambda>i. -1)(0 := 8), 1, 0xFEBD0000)"
    using emu_hba [OF s1(1), of ft] s1(2) by auto
  have v: "emu_cfg (pci_addr 0 0 0) = 0x29228086" "emu_cfg (pci_addr 0 0 8) = 0x01060100" "emu_cfg (pci_addr 0 0 0x24) = 0xFEBD0000"
    by (simp_all add: emu_cfg_def pci_addr_def)
  have b: "reach_bar 0xFEBD0000 x = (Val (Some True), x)" for x :: "emu ahci" by (simp add: reach_bar_def)
  have f: "init_func ?H ft (0, 0) s0 = (Val (Some ()), s2)"
    unfolding init_func_def Let_def using h(1) by (simp add: emu_pci v b s1_def)
  have l: "[(slot, func). slot \<leftarrow> [0..<32], func \<leftarrow> [0..<8]] = (0, 0) # [(0, func). func \<leftarrow> [1..<8]] @ [(slot, func). slot \<leftarrow> [1..<32], func \<leftarrow> [0..<8 :: nat]]"
    by (simp add: upt_conv_Cons [of 0 32] upt_conv_Cons [of 0 8] del: upt_rec_numeral)
  show ?thesis unfolding ahci64_init_def l using h(2) f by (simp add: s0_def [symmetric] del: upt_rec_numeral)
qed

lemma ahci_init_drives_witness: "\<exists>s'. ahci64_init (emu_hw 0x100) (\<lambda>_ _. 0) emu_boot = (Val (), s') \<and> drive_slot 4 s' \<and> \<not> drive_slot 5 s' \<and> slot_port 4 s' = 8"
proof -
  obtain s' where s': "ahci64_init (emu_hw 0x100) (\<lambda>_ _. 0) emu_boot = (Val (), s')" "drives s' = ((\<lambda>i. -1)(0 := 8), 1, 0xFEBD0000)" using emu_found by blast
  have "\<forall>d. drive_slot d s' \<longleftrightarrow> 4 \<le> d \<and> d < 4 + int (ahci64_drive_count s')"
    using ahci_init_drives [OF s'(1)] by (simp add: emu_boot_def)
  moreover have "ahci64_drive_count s' = 1" "slot_port 4 s' = 8" using s'(2) by (simp_all add: drives_def ahci64_drive_count_def slot_port_def AHCI64_DRIVE_BASE_def)
  ultimately show ?thesis using s'(1) by simp
qed

lemma high_port_overruns_witness: "fst (hw_read (emu_hw 0x100) (\<lambda>_ _. 0) 4 0 1 (emu_drv 8)) = Trap"
  using high_port_overruns [of 4 "emu_drv 8" 1 "emu_hw 0x100" "\<lambda>_ _. 0" 0 "\<lambda>_. 0"] emu_slot [of 8] by (simp add: emu_drv_def emu_hw_def)

end
