(* ===== verification/Desc.thy ===== *)
theory Desc
  imports Smp
begin

text \<open>
  Descriptor tables, interrupt controller and timer of \<^verbatim>\<open>src/k64/gdt64.c\<close> and \<^verbatim>\<open>src/k64/idt64.c\<close>: the GDT with a task state segment
  per CPU, the IDT, and the bytes sent to the PIC and the PIT.  The addresses the linker chose are the record \<open>tab_at\<close>.
\<close>

section \<open>GDT and task state segments\<close>

record tab_at =
  gdt_addr :: u64
  tss_addr :: u64
  ist_addr :: u64
  boot_stack :: u64
  idt_addr :: u64

record tss64 =
  rsp0 :: u64
  rsp1 :: u64
  rsp2 :: u64
  ist1 :: u64
  ist_rest :: "nat \<Rightarrow> u64"
  iomap_base :: u16

text \<open>Shared tables; \<open>gdtr\<close> and \<open>task_reg\<close> are the registers each CPU has loaded.\<close>

record desc_st =
  gdt64 :: "nat \<Rightarrow> u64"
  tss_array :: "nat \<Rightarrow> tss64"
  gdt_ptr :: "u16 \<times> u64"
  gdtr :: "nat \<Rightarrow> u16 \<times> u64"
  task_reg :: "nat \<Rightarrow> u16"

definition GDT64_CODE :: u64 where "GDT64_CODE = 0x00209A0000000000"
definition GDT64_DATA :: u64 where "GDT64_DATA = 0x0000920000000000"
definition GDT64_UCODE :: u64 where "GDT64_UCODE = 0x0020FA0000000000"
definition GDT64_UDATA :: u64 where "GDT64_UDATA = 0x0000F20000000000"

definition GDT64_TSS_SEL :: "nat \<Rightarrow> u16" where
  "GDT64_TSS_SEL i = 0x28 + of_nat i * 16"

definition tss_at :: "tab_at \<Rightarrow> nat \<Rightarrow> u64" where
  "tss_at A i = tss_addr A + of_nat i * 104"

definition ist_top :: "tab_at \<Rightarrow> nat \<Rightarrow> u64" where
  "ist_top A i = ist_addr A + of_nat i * 16384 + 16384"

definition tss_lo :: "u64 \<Rightarrow> u64 \<Rightarrow> u64" where
  "tss_lo base lim =
     (lim AND 0xFFFF) OR push_bit 16 (base AND 0xFFFF) OR push_bit 32 (drop_bit 16 base AND 0xFF) OR push_bit 40 0x89 OR
     push_bit 48 (drop_bit 16 lim AND 0xF) OR push_bit 56 (drop_bit 24 base AND 0xFF)"

definition tss_desc_fill :: "tab_at \<Rightarrow> nat \<Rightarrow> desc_st \<Rightarrow> desc_st" where
  "tss_desc_fill A i s =
     s\<lparr>gdt64 := (gdt64 s)(5 + 2 * i := tss_lo (tss_at A i) 103, 6 + 2 * i := drop_bit 32 (tss_at A i))\<rparr>"

definition gdt64_flush :: "nat \<Rightarrow> u16 \<Rightarrow> desc_st \<Rightarrow> desc_st" where
  "gdt64_flush cpu sel s = s\<lparr>gdtr := (gdtr s)(cpu := gdt_ptr s), task_reg := (task_reg s)(cpu := sel)\<rparr>"

definition set_tss :: "tab_at \<Rightarrow> nat \<Rightarrow> u64 \<Rightarrow> desc_st \<Rightarrow> desc_st" where
  "set_tss A i sp s = s\<lparr>tss_array := (tss_array s)(i := (tss_array s i)\<lparr>rsp0 := sp, ist1 := ist_top A i, iomap_base := 104\<rparr>)\<rparr>"

definition gdt64_init :: "tab_at \<Rightarrow> desc_st \<Rightarrow> desc_st" where
  "gdt64_init A s =
     (let s = s\<lparr>gdt64 := (\<lambda>i. if i < 16 then 0 else gdt64 s i)\<rparr>;
          s = s\<lparr>gdt64 := (gdt64 s)(1 := GDT64_CODE, 2 := GDT64_DATA, 3 := GDT64_UCODE, 4 := GDT64_UDATA)\<rparr>;
          s = set_tss A 0 (boot_stack A) s;
          s = fold (tss_desc_fill A) [0..<NCPU_MAX] s;
          s = s\<lparr>gdt_ptr := (13 * 8 - 1, gdt_addr A)\<rparr>
      in gdt64_flush 0 (GDT64_TSS_SEL 0) s)"

definition gdt64_ap_load :: "tab_at \<Rightarrow> nat \<Rightarrow> u64 \<Rightarrow> desc_st \<Rightarrow> desc_st" where
  "gdt64_ap_load A i sp s = gdt64_flush i (GDT64_TSS_SEL i) (set_tss A i sp s)"

definition tss64_set_rsp0_cpu :: "int \<Rightarrow> u64 \<Rightarrow> desc_st \<Rightarrow> desc_st" where
  "tss64_set_rsp0_cpu cpu sp s =
     (if 0 \<le> cpu \<and> cpu < int NCPU_MAX
      then s\<lparr>tss_array := (tss_array s)(nat cpu := (tss_array s (nat cpu))\<lparr>rsp0 := sp\<rparr>)\<rparr> else s)"

section \<open>IDT\<close>

record idt_ent =
  off_lo :: u16
  sel :: u16
  g_ist :: u8
  attr :: u8
  off_mid :: u16
  off_hi :: u32
  zero_w :: u32

definition IDT_PRESENT_INT :: u8 where "IDT_PRESENT_INT = 0x8E"
definition IDT_SYSCALL_GATE :: u8 where "IDT_SYSCALL_GATE = 0xEE"

definition set_gate :: "nat \<Rightarrow> u64 \<Rightarrow> u8 \<Rightarrow> u8 \<Rightarrow> (nat \<Rightarrow> idt_ent) \<Rightarrow> nat \<Rightarrow> idt_ent" where
  "set_gate n a i at idt =
     idt(n := \<lparr>off_lo = ucast (a AND 0xFFFF), sel = 8, g_ist = i, attr = at, off_mid = ucast (drop_bit 16 a AND 0xFFFF),
               off_hi = ucast (drop_bit 32 a), zero_w = 0\<rparr>)"

text \<open>\<open>stub n\<close> is the address of the entry code of vector \<open>n\<close>.\<close>

definition idt64_init :: "(nat \<Rightarrow> u64) \<Rightarrow> (nat \<Rightarrow> idt_ent) \<Rightarrow> nat \<Rightarrow> idt_ent" where
  "idt64_init stub idt =
     (let idt = (\<lambda>i. if i < 256 then \<lparr>off_lo = 0, sel = 0, g_ist = 0, attr = 0, off_mid = 0, off_hi = 0, zero_w = 0\<rparr> else idt i);
          idt = fold (\<lambda>i. set_gate i (stub i) (if i = 8 then 1 else 0) IDT_PRESENT_INT) [0..<48] idt;
          idt = set_gate 128 (stub 128) 0 IDT_SYSCALL_GATE idt;
          idt = set_gate 96 (stub 96) 0 IDT_PRESENT_INT idt;
          idt = set_gate 97 (stub 97) 0 IDT_PRESENT_INT idt;
          idt = set_gate 255 (stub 255) 0 IDT_PRESENT_INT idt
      in set_gate 80 (stub 80) 0 IDT_PRESENT_INT idt)"

definition idt64_load :: "tab_at \<Rightarrow> u16 \<times> u64" where
  "idt64_load A = (256 * 16 - 1, idt_addr A)"

section \<open>PIC and PIT\<close>

text \<open>The bytes sent, as port and value, in order; each \<^verbatim>\<open>io_wait\<close> is a byte to port 0x80.\<close>

definition pic_remap_mask_timer_kbd_mouse :: "(u16 \<times> u8) list" where
  "pic_remap_mask_timer_kbd_mouse =
     concat (map (\<lambda>x. [x, (0x80, 0)])
       [(0x20, 0x11), (0xA0, 0x11), (0x21, 32), (0xA1, 40), (0x21, 4), (0xA1, 2), (0x21, 1), (0xA1, 1)]) @ [(0x21, 0xF8), (0xA1, 0xEF)]"

definition pit_div :: "u32 \<Rightarrow> u32" where
  "pit_div hz =
     (let hz = (if hz = 0 then 100 else hz); div' = 1193182 div hz;
          div' = (if div' = 0 then 1 else div')
      in if div' > 0xFFFF then 0xFFFF else div')"

definition pit_init_hz :: "u32 \<Rightarrow> (u16 \<times> u8) list" where
  "pit_init_hz hz = [(0x43, 0x36), (0x40, ucast (pit_div hz AND 0xFF)), (0x40, ucast (drop_bit 8 (pit_div hz) AND 0xFF))]"

end
