(* ===== verification/Desc_Proofs.thy ===== *)
theory Desc_Proofs
  imports Desc
begin

text \<open>
  The tables of \<^verbatim>\<open>gdt64.c\<close> and \<^verbatim>\<open>idt64.c\<close> as the processor reads them: encoded addresses decode to themselves, every CPU has a task
  state segment of its own, and user code can enter the kernel through one gate only.
\<close>

section \<open>What the processor reads\<close>

text \<open>The fields of a 16-byte system descriptor and of an interrupt gate, as the processor decodes them.\<close>

definition sys_base :: "u64 \<Rightarrow> u64 \<Rightarrow> u64" where
  "sys_base lo hi =
     (drop_bit 16 lo AND mask 16) OR push_bit 16 (drop_bit 32 lo AND mask 8) OR push_bit 24 (drop_bit 56 lo AND mask 8) OR push_bit 32 hi"

definition sys_limit :: "u64 \<Rightarrow> u64" where
  "sys_limit lo = (lo AND mask 16) OR push_bit 16 (drop_bit 48 lo AND mask 4)"

definition seg_access :: "u64 \<Rightarrow> u64" where
  "seg_access lo = drop_bit 40 lo AND mask 8"

definition gate_addr :: "idt_ent \<Rightarrow> u64" where
  "gate_addr g = ucast (off_lo g) OR push_bit 16 (ucast (off_mid g)) OR push_bit 32 (ucast (off_hi g))"

definition gate_dpl :: "idt_ent \<Rightarrow> nat" where
  "gate_dpl g = unat (drop_bit 5 (attr g) AND mask 2)"

lemma field_masks: "(0xFFFF :: u64) = mask 16" "(0xFF :: u64) = mask 8" "(0xF :: u64) = mask 4"
  by (simp_all add: mask_eq_exp_minus_1)

lemma small_bits: "bit (0x89 :: u64) n \<Longrightarrow> n < 8" "bit (103 :: u64) n \<Longrightarrow> n < 7"
proof -
  have "(0x89 :: u64) = take_bit 8 0x89" "(103 :: u64) = take_bit 7 103" by simp_all
  then show "bit (0x89 :: u64) n \<Longrightarrow> n < 8" "bit (103 :: u64) n \<Longrightarrow> n < 7" by (metis bit_take_bit_iff)+
qed

lemma tss_lo_bits:
  "bit (tss_lo base 103) n \<longleftrightarrow>
     (if n < 16 then bit (103 :: u64) n else if n < 40 then bit base (n - 16) else if n < 48 then bit (0x89 :: u64) (n - 40)
      else if n < 56 then False else n < 64 \<and> bit base (n - 32))"
proof -
  have e: "bit (tss_lo base 103) n \<longleftrightarrow>
     (bit (103 :: u64) n \<and> n < 16 \<or> 16 \<le> n \<and> n < 64 \<and> bit base (n - 16) \<and> n - 16 < 16 \<or> 32 \<le> n \<and> n < 64 \<and> bit base (16 + (n - 32)) \<and> n - 32 < 8 \<or>
      40 \<le> n \<and> n < 64 \<and> bit (0x89 :: u64) (n - 40) \<or> 56 \<le> n \<and> n < 64 \<and> bit base (24 + (n - 56)) \<and> n - 56 < 8)"
  proof -
    have l: "drop_bit 16 (103 :: u64) = 0" by simp
    show ?thesis unfolding tss_lo_def field_masks l
      by (simp only: bit_or_iff bit_and_iff bit_mask_iff bit_push_bit_iff bit_drop_bit_eq o_apply bit_0_eq bot_apply simp_thms possible_bit_word) auto
  qed
  consider "n < 16" | "16 \<le> n" "n < 32" | "32 \<le> n" "n < 40" | "40 \<le> n" "n < 48" | "48 \<le> n" "n < 56" | "56 \<le> n" by linarith
  then show ?thesis
  proof cases
    case 3
    then have "16 + (n - 32) = n - 16" "n - 32 < 8" by simp_all
    then show ?thesis using 3 unfolding e by auto
  next
    case 5
    then show ?thesis using small_bits(1) [of "n - 40"] unfolding e by auto
  next
    case 6
    then have "24 + (n - 56) = n - 32" by simp
    then show ?thesis using 6 small_bits(1) [of "n - 40"] unfolding e by auto
  qed (unfold e, auto)
qed

lemma tss_lo_decode: "sys_base (tss_lo base 103) (drop_bit 32 base) = base" "sys_limit (tss_lo base 103) = 103" "seg_access (tss_lo base 103) = 0x89"
proof -
  note bits = bit_or_iff bit_and_iff bit_mask_iff bit_push_bit_iff bit_drop_bit_eq o_apply tss_lo_bits possible_bit_word
  show "sys_base (tss_lo base 103) (drop_bit 32 base) = base"
  proof (rule bit_word_eqI)
    fix n assume "n < LENGTH(64)"
    then consider "n < 16" | "16 \<le> n" "n < 24" | "24 \<le> n" "n < 32" | "32 \<le> n" "n < 64" by fastforce
    then show "bit (sys_base (tss_lo base 103) (drop_bit 32 base)) n = bit base n"
      by cases (auto simp: sys_base_def bits)
  qed
  show "sys_limit (tss_lo base 103) = 103"
  proof (rule bit_word_eqI)
    fix n assume "n < LENGTH(64)"
    consider "n < 16" | "16 \<le> n" "n < 20" | "20 \<le> n" by linarith
    then show "bit (sys_limit (tss_lo base 103)) n = bit (103 :: u64) n"
      by cases (use small_bits(2) [of n] in \<open>auto simp: sys_limit_def bits\<close>)
  qed
  show "seg_access (tss_lo base 103) = 0x89"
  proof (rule bit_word_eqI)
    fix n assume "n < LENGTH(64)"
    consider "n < 8" | "8 \<le> n" by linarith
    then show "bit (seg_access (tss_lo base 103)) n = bit (0x89 :: u64) n"
      by cases (use small_bits(1) [of n] in \<open>auto simp: seg_access_def bits\<close>)
  qed
qed

section \<open>Every CPU has its own task state segment\<close>

lemma fill_gdt: "gdt64 (fold (tss_desc_fill A) is s) j = (if \<exists>i \<in> set is. j = 5 + 2 * i then tss_lo (tss_at A ((j - 5) div 2)) 103
    else if \<exists>i \<in> set is. j = 6 + 2 * i then drop_bit 32 (tss_at A ((j - 6) div 2)) else gdt64 s j)"
proof (induction "is" arbitrary: s)
  case (Cons i "is")
  have "5 + 2 * a \<noteq> 6 + 2 * b" for a b :: nat by presburger
  then show ?case unfolding fold_simps o_apply Cons by (auto simp: tss_desc_fill_def)
qed simp

lemma fill_rest: "tss_array (fold (tss_desc_fill A) is s) = tss_array s" "gdt_ptr (fold (tss_desc_fill A) is s) = gdt_ptr s"
  by (induction "is" arbitrary: s) (simp_all add: tss_desc_fill_def)

lemma init_tss:
  assumes "i < NCPU_MAX"
  shows "gdt64 (gdt64_init A s) (5 + 2 * i) = tss_lo (tss_at A i) 103" "gdt64 (gdt64_init A s) (6 + 2 * i) = drop_bit 32 (tss_at A i)"
proof -
  have n: "6 + 2 * i \<noteq> 5 + 2 * j" for j :: nat by presburger
  show "gdt64 (gdt64_init A s) (5 + 2 * i) = tss_lo (tss_at A i) 103" "gdt64 (gdt64_init A s) (6 + 2 * i) = drop_bit 32 (tss_at A i)"
    unfolding gdt64_init_def Let_def gdt64_flush_def using assms n by (simp_all add: fill_gdt del: upt_rec_numeral)
qed

lemma ap_loads:
  fixes st :: "nat \<Rightarrow> u64" and A :: tab_at
  defines "up is \<equiv> fold (\<lambda>i. gdt64_ap_load A i (st i)) is"
  shows "gdt64 (up is s) = gdt64 s" "gdt_ptr (up is s) = gdt_ptr s"
    "task_reg (up is s) i = (if i \<in> set is then GDT64_TSS_SEL i else task_reg s i)"
    "gdtr (up is s) i = (if i \<in> set is then gdt_ptr s else gdtr s i)"
    "rsp0 (tss_array (up is s) i) = (if i \<in> set is then st i else rsp0 (tss_array s i))"
    "ist1 (tss_array (up is s) i) = (if i \<in> set is then ist_top A i else ist1 (tss_array s i))"
  unfolding up_def by (induction "is" arbitrary: s) (simp_all add: gdt64_ap_load_def gdt64_flush_def set_tss_def)


section \<open>User code enters through one gate\<close>

lemma gate_addr_set: "gate_addr (set_gate n a i at idt n) = a"
proof (rule bit_word_eqI)
  fix m assume "m < LENGTH(64)"
  then consider "m < 16" | "16 \<le> m" "m < 32" | "32 \<le> m" "m < 64" by fastforce
  then show "bit (gate_addr (set_gate n a i at idt n)) m = bit a m"
    unfolding gate_addr_def set_gate_def field_masks
    by cases (auto simp: bit_or_iff bit_and_iff bit_mask_iff bit_push_bit_iff bit_drop_bit_eq bit_unsigned_iff)
qed

lemma set_gate_other [simp]: "m \<noteq> n \<Longrightarrow> set_gate n a i at idt m = idt m"
  by (simp add: set_gate_def)

lemma set_gate_fields [simp]: "g_ist (set_gate n a i at idt n) = i" "attr (set_gate n a i at idt n) = at" "sel (set_gate n a i at idt n) = 8"
  by (simp_all add: set_gate_def)

lemma gates_fold:
  "fold (\<lambda>i. set_gate i (stub i) (if i = 8 then 1 else 0) IDT_PRESENT_INT) is idt n =
     (if n \<in> set is then set_gate n (stub n) (if n = 8 then 1 else 0) IDT_PRESENT_INT idt n else idt n)"
proof (induction "is" arbitrary: idt)
  case (Cons i "is")
  then show ?case by (cases "n = i") (simp_all add: set_gate_def)
qed simp

definition vectors :: "nat set" where
  "vectors = {..<48} \<union> {80, 96, 97, 128, 255}"

text \<open>
  C35.  \<^bold>\<open>One gate for user code.\<close>  In the table \<^verbatim>\<open>idt64_init\<close> builds, exactly the vectors with a handler are present, every gate leads to
  the handler of its vector in the kernel's code segment, the double fault runs on its own stack, and only vector 128 may be
  invoked from user mode.
\<close>

theorem only_syscall_gate_is_open:
  fixes stub :: "nat \<Rightarrow> u64" and idt :: "nat \<Rightarrow> idt_ent"
  assumes "n < 256"
  defines "g \<equiv> idt64_init stub idt n"
  shows "(bit (attr g) 7 \<longleftrightarrow> n \<in> vectors) \<and>
    (n \<in> vectors \<longrightarrow> gate_addr g = stub n \<and> sel g = 8 \<and> g_ist g = (if n = 8 then 1 else 0) \<and> gate_dpl g = (if n = 128 then 3 else 0))"
proof -
  define z where "z = (\<lambda>i. if i < 256 then \<lparr>off_lo = 0, sel = 0, g_ist = 0, attr = 0, off_mid = 0, off_hi = 0, zero_w = 0\<rparr> else idt i)"
  have g: "g = (if n \<in> {80, 96, 97, 255} then set_gate n (stub n) 0 IDT_PRESENT_INT z n else if n = 128 then set_gate n (stub n) 0 IDT_SYSCALL_GATE z n
      else if n < 48 then set_gate n (stub n) (if n = 8 then 1 else 0) IDT_PRESENT_INT z n else z n)"
    unfolding g_def idt64_init_def Let_def z_def [symmetric] by (auto simp: set_gate_def gates_fold)
  have a: "bit IDT_PRESENT_INT 7" "bit IDT_SYSCALL_GATE 7" "unat (drop_bit 5 IDT_PRESENT_INT AND mask 2) = 0" "unat (drop_bit 5 IDT_SYSCALL_GATE AND mask 2) = 3"
    by (simp_all add: IDT_PRESENT_INT_def IDT_SYSCALL_GATE_def mask_eq_exp_minus_1)
  show ?thesis
  proof (cases "n \<in> vectors")
    case True
    then have "g = set_gate n (stub n) (if n = 8 then 1 else 0) (if n = 128 then IDT_SYSCALL_GATE else IDT_PRESENT_INT) z n"
      unfolding g vectors_def by auto
    then show ?thesis using True a by (simp add: gate_addr_set gate_dpl_def)
  next
    case False
    then have "g = z n" unfolding g vectors_def by auto
    then show ?thesis using False assms(1) by (simp add: z_def)
  qed
qed

section \<open>The timer's divisor\<close>

text \<open>
  \<^bold>\<open>The timer's divisor.\<close>  For every requested frequency the two bytes \<^verbatim>\<open>pit_init_hz\<close> sends are the low and high half of the divisor
  nearest below, kept between 1 and 65535; 0, which the device takes for 65536, is never programmed.
\<close>

theorem pit_divisor:
  "\<exists>lo hi. pit_init_hz hz = [(0x43, 0x36), (0x40, lo), (0x40, hi)] \<and>
     unat lo + 256 * unat hi = max 1 (min 65535 (1193182 div (if hz = 0 then 100 else unat hz)))"
proof -
  let ?h = "if hz = 0 then 100 else hz"
  have h: "unat ?h = (if hz = 0 then 100 else unat hz)" by simp
  have d: "unat (1193182 div ?h) = 1193182 div unat ?h" by (simp add: unat_div)
  have "unat (pit_div hz) = max 1 (min 65535 (1193182 div unat ?h))"
    unfolding pit_div_def Let_def using d [symmetric] by (auto simp: word_less_nat_alt max_def min_def Suc_le_eq unat_gt_0)
  moreover have "unat (ucast (pit_div hz AND 0xFF) :: u8) + 256 * unat (ucast (drop_bit 8 (pit_div hz) AND 0xFF) :: u8) = unat (pit_div hz)" if "unat (pit_div hz) < 65536"
  proof -
    have m: "(0xFF :: u32) = mask 8" by (simp add: mask_eq_exp_minus_1)
    have "unat (pit_div hz AND 0xFF) = unat (pit_div hz) mod 256" "unat (drop_bit 8 (pit_div hz) AND 0xFF) = unat (pit_div hz) div 256 mod 256"
      unfolding m by (simp_all add: unsigned_take_bit_eq take_bit_eq_mod unat_drop_bit_eq drop_bit_eq_div unat_div unat_mod flip: take_bit_eq_mask)
    then have "unat (ucast (pit_div hz AND 0xFF) :: u8) = unat (pit_div hz) mod 256" "unat (ucast (drop_bit 8 (pit_div hz) AND 0xFF) :: u8) = unat (pit_div hz) div 256 mod 256"
      by (simp_all add: unsigned_ucast_eq take_bit_eq_mod)
    moreover have "unat (pit_div hz) div 256 < 256" using that by (simp add: div_less_iff_less_mult)
    ultimately show ?thesis by simp
  qed
  ultimately show ?thesis unfolding pit_init_hz_def h by simp
qed

section \<open>Witnesses\<close>

definition sample_tabs :: tab_at where
  "sample_tabs = \<lparr>gdt_addr = 0x110000, tss_addr = 0x111000, ist_addr = 0x120000, boot_stack = 0x118000, idt_addr = 0x112000\<rparr>"

definition zero_desc :: desc_st where
  "zero_desc = \<lparr>gdt64 = (\<lambda>_. 0), tss_array = (\<lambda>_. \<lparr>rsp0 = 0, rsp1 = 0, rsp2 = 0, ist1 = 0, ist_rest = (\<lambda>_. 0), iomap_base = 0\<rparr>),
     gdt_ptr = (0, 0), gdtr = (\<lambda>_. (0, 0)), task_reg = (\<lambda>_. 0)\<rparr>"

definition zero_idt :: "nat \<Rightarrow> idt_ent" where
  "zero_idt = (\<lambda>_. \<lparr>off_lo = 0, sel = 0, g_ist = 0, attr = 0, off_mid = 0, off_hi = 0, zero_w = 0\<rparr>)"


lemma only_syscall_gate_is_open_witness: "gate_dpl (idt64_init (\<lambda>n. 0x100000 + of_nat n) zero_idt 14) = 0 \<and>
  gate_dpl (idt64_init (\<lambda>n. 0x100000 + of_nat n) zero_idt 128) = 3"
  using only_syscall_gate_is_open [of 14 "\<lambda>n. 0x100000 + of_nat n" zero_idt] only_syscall_gate_is_open [of 128 "\<lambda>n. 0x100000 + of_nat n" zero_idt]
  by (simp add: vectors_def)

end
