(* ===== verification/Spin.thy ===== *)
theory Spin
  imports K64_Prelude
begin

text \<open>
  The spin lock of \<^verbatim>\<open>src/k64/spin64.h\<close> on several CPUs.  A CPU that takes the lock saves its interrupt flag, clears it, and
  then tests and sets the lock word until it was clear; the release clears the word and restores the saved flag.  Each
  atomic access is one step of one CPU, in any order; an interrupt can only be taken while the flag is set, and its
  handler may take the lock itself.
\<close>

section \<open>The machine\<close>

text \<open>Where a CPU is: outside, about to test, inside, or about to restore its flag; the argument is the saved flag.\<close>

datatype where_at = Outside | Trying bool | Inside bool | Leaving bool

text \<open>\<open>frames\<close> are the interrupted places below the current one.\<close>

record cpu_lock =
  at_pc :: where_at
  if_flag :: bool
  frames :: "(where_at \<times> bool) list"

record spin64 =
  locked :: bool
  cpus :: "nat \<Rightarrow> cpu_lock"

definition set_cpu :: "nat \<Rightarrow> cpu_lock \<Rightarrow> spin64 \<Rightarrow> spin64" where
  "set_cpu c x s = s\<lparr>cpus := (cpus s)(c := x)\<rparr>"

section \<open>Steps\<close>

text \<open>\<^verbatim>\<open>pushfq; pop; cli\<close>\<close>

definition lock_enter :: "nat \<Rightarrow> spin64 \<Rightarrow> spin64" where
  "lock_enter c s = (let x = cpus s c in set_cpu c (x\<lparr>at_pc := Trying (if_flag x), if_flag := False\<rparr>) s)"

text \<open>One \<^verbatim>\<open>__sync_lock_test_and_set\<close>: the word is set, and the loop is left when it was clear.\<close>

definition lock_try :: "nat \<Rightarrow> bool \<Rightarrow> spin64 \<Rightarrow> spin64" where
  "lock_try c fl s =
     (let old = locked s; s = s\<lparr>locked := True\<rparr>
      in if old then s else set_cpu c ((cpus s c)\<lparr>at_pc := Inside fl\<rparr>) s)"

definition lock_release :: "nat \<Rightarrow> bool \<Rightarrow> spin64 \<Rightarrow> spin64" where
  "lock_release c fl s = set_cpu c ((cpus s c)\<lparr>at_pc := Leaving fl\<rparr>) (s\<lparr>locked := False\<rparr>)"

text \<open>\<^verbatim>\<open>push; popfq\<close>\<close>

definition lock_restore :: "nat \<Rightarrow> bool \<Rightarrow> spin64 \<Rightarrow> spin64" where
  "lock_restore c fl s = set_cpu c ((cpus s c)\<lparr>at_pc := Outside, if_flag := fl\<rparr>) s"

inductive spin_step :: "spin64 \<Rightarrow> spin64 \<Rightarrow> bool" where
  enter: "at_pc (cpus s c) = Outside \<Longrightarrow> spin_step s (lock_enter c s)"
| attempt: "at_pc (cpus s c) = Trying fl \<Longrightarrow> spin_step s (lock_try c fl s)"
| release: "at_pc (cpus s c) = Inside fl \<Longrightarrow> spin_step s (lock_release c fl s)"
| restore: "at_pc (cpus s c) = Leaving fl \<Longrightarrow> spin_step s (lock_restore c fl s)"
| interrupt: "if_flag (cpus s c) \<Longrightarrow>
    spin_step s (set_cpu c \<lparr>at_pc = Outside, if_flag = False, frames = (at_pc (cpus s c), True) # frames (cpus s c)\<rparr> s)"
| iret: "at_pc (cpus s c) = Outside \<Longrightarrow> frames (cpus s c) = (p, fl) # fs \<Longrightarrow>
    spin_step s (set_cpu c \<lparr>at_pc = p, if_flag = fl, frames = fs\<rparr> s)"

inductive spin_run :: "spin64 \<Rightarrow> spin64 \<Rightarrow> bool" where
  start: "spin_run s s"
| step: "spin_run s t \<Longrightarrow> spin_step t u \<Longrightarrow> spin_run s u"

inductive_cases spin_stepE: "spin_step s t"

section \<open>Mutual exclusion\<close>

definition inside :: "spin64 \<Rightarrow> nat \<Rightarrow> bool" where
  "inside s c \<longleftrightarrow> (\<exists>fl. at_pc (cpus s c) = Inside fl)"

definition spin_inv :: "spin64 \<Rightarrow> bool" where
  "spin_inv s \<longleftrightarrow>
     (\<forall>c. at_pc (cpus s c) \<noteq> Outside \<longrightarrow> \<not> if_flag (cpus s c)) \<and> (\<forall>c. set (frames (cpus s c)) \<subseteq> {(Outside, True)}) \<and>
     (\<forall>c d. inside s c \<longrightarrow> inside s d \<longrightarrow> c = d) \<and> (locked s \<longleftrightarrow> (\<exists>c. inside s c))"

definition spin_boot :: "spin64 \<Rightarrow> bool" where
  "spin_boot s \<longleftrightarrow> \<not> locked s \<and> (\<forall>c. at_pc (cpus s c) = Outside \<and> frames (cpus s c) = [])"

lemma spin_boot_inv: "spin_boot s \<Longrightarrow> spin_inv s"
  by (simp add: spin_boot_def spin_inv_def inside_def)

lemma inside_set: "inside (set_cpu c x s) d \<longleftrightarrow> (if d = c then \<exists>fl. at_pc x = Inside fl else inside s d)"
  by (simp add: inside_def set_cpu_def)

lemma inside_locked [simp]: "inside (s\<lparr>locked := b\<rparr>) d = inside s d"
  by (simp add: inside_def)

lemma spin_step_inv:
  assumes "spin_step s t" "spin_inv s"
  shows "spin_inv t"
  using assms(1)
proof cases
  case (enter c)
  then have "\<not> inside s c" by (simp add: inside_def)
  then show ?thesis using enter assms(2) unfolding spin_inv_def lock_enter_def Let_def
    by (auto simp: inside_set) (auto simp: set_cpu_def split: if_splits)
next
  case (attempt c fl)
  show ?thesis
  proof (cases "locked s")
    case True
    then have "lock_try c fl s = s" by (simp add: lock_try_def)
    then show ?thesis using attempt assms(2) by simp
  next
    case False
    then show ?thesis using attempt assms(2) unfolding spin_inv_def lock_try_def Let_def
      by (auto simp: inside_set) (auto simp: set_cpu_def split: if_splits)
  qed
next
  case (release c fl)
  then have "inside s c" by (simp add: inside_def)
  then show ?thesis using release assms(2) unfolding spin_inv_def lock_release_def
    by (auto simp: inside_set) (auto simp: set_cpu_def split: if_splits)
next
  case (restore c fl)
  then have "\<not> inside s c" by (simp add: inside_def)
  then show ?thesis using restore assms(2) unfolding spin_inv_def lock_restore_def
    by (auto simp: inside_set) (auto simp: set_cpu_def split: if_splits)
next
  case (interrupt c)
  then have "at_pc (cpus s c) = Outside" using assms(2) by (auto simp: spin_inv_def)
  moreover from this have "\<not> inside s c" by (simp add: inside_def)
  ultimately show ?thesis using interrupt assms(2) unfolding spin_inv_def
    by (auto simp: inside_set) (auto simp: set_cpu_def split: if_splits)
next
  case (iret c p fl fs)
  have "set (frames (cpus s c)) \<subseteq> {(Outside, True)}" using assms(2) unfolding spin_inv_def by blast
  then have "p = Outside" "set fs \<subseteq> {(Outside, True)}" using iret by simp_all
  moreover have "\<not> inside s c" using iret by (simp add: inside_def)
  ultimately show ?thesis using iret assms(2) unfolding spin_inv_def
    by (auto simp: inside_set) (auto simp: set_cpu_def split: if_splits)
qed

text \<open>
  C26.  \<^bold>\<open>The lock excludes.\<close>  In every state the CPUs reach from a free lock, by any interleaving of their steps and of interrupts, at most
  one CPU is inside a section of the lock, its interrupts are off, and the lock word is set exactly when some CPU is inside.
\<close>

theorem spin_lock_excludes:
  assumes "spin_run s t" "spin_boot s"
  shows "(inside t c \<and> inside t d \<longrightarrow> c = d) \<and> (inside t c \<longrightarrow> \<not> if_flag (cpus t c)) \<and> (locked t \<longleftrightarrow> (\<exists>c. inside t c))"
proof -
  have "spin_inv t" using assms by (induction rule: spin_run.induct) (auto intro: spin_step_inv spin_boot_inv)
  moreover have "inside t c \<Longrightarrow> at_pc (cpus t c) \<noteq> Outside" by (auto simp: inside_def)
  ultimately show ?thesis unfolding spin_inv_def by blast
qed

text \<open>Taking and releasing a free lock leaves everything as it was, the interrupt flag included.\<close>

lemma spin_section_neutral:
  assumes "at_pc (cpus s c) = Outside" "\<not> locked s"
  defines "fl \<equiv> if_flag (cpus s c)"
  shows "inside (lock_try c fl (lock_enter c s)) c" "lock_restore c fl (lock_release c fl (lock_try c fl (lock_enter c s))) = s"
proof -
  show "inside (lock_try c fl (lock_enter c s)) c"
    using assms(2) by (simp add: inside_def lock_try_def lock_enter_def set_cpu_def Let_def)
  have "(cpus s c)\<lparr>at_pc := Outside, if_flag := fl\<rparr> = cpus s c" using assms(1) by (simp add: fl_def)
  then show "lock_restore c fl (lock_release c fl (lock_try c fl (lock_enter c s))) = s"
    using assms(2) by (simp add: lock_restore_def lock_release_def lock_try_def lock_enter_def set_cpu_def Let_def)
qed

section \<open>Witnesses\<close>

definition sample_lock :: spin64 where
  "sample_lock = \<lparr>locked = False, cpus = (\<lambda>_. \<lparr>at_pc = Outside, if_flag = True, frames = []\<rparr>)\<rparr>"

lemma spin_lock_excludes_witness: "inside (lock_try 1 True (lock_enter 1 sample_lock)) 1 \<and> \<not> if_flag (cpus (lock_try 1 True (lock_enter 1 sample_lock)) 1)"
proof -
  let ?s1 = "lock_enter 1 sample_lock" and ?t = "lock_try 1 True (lock_enter 1 sample_lock)"
  have i: "inside ?t 1" using spin_section_neutral(1) [of sample_lock 1] by (simp add: sample_lock_def)
  have "spin_run sample_lock ?s1" by (rule spin_run.step [OF spin_run.start spin_step.enter]) (simp add: sample_lock_def)
  then have "spin_run sample_lock ?t"
    by (rule spin_run.step) (rule spin_step.attempt, simp add: sample_lock_def lock_enter_def set_cpu_def Let_def)
  then have "inside ?t 1 \<longrightarrow> \<not> if_flag (cpus ?t 1)" using spin_lock_excludes [of sample_lock ?t 1 1] by (simp add: sample_lock_def spin_boot_def)
  with i show ?thesis by blast
qed

end
