(* ===== verification/Spec2Isabelle.thy ===== *)
theory Spec2Isabelle
  imports Kmain_Proofs Syscall_Proofs Shoot Ahci_Proofs Desc_Proofs Spin
begin

text \<open>
  This development models the 64-bit kernel of Mectov OS: the C code of \<^verbatim>\<open>src/k64\<close> as
  functions on explicit state, with the theorems that make its components correct.

  \<^bold>\<open>The program.\<close>  The kernel boots into long mode, starts up to four CPUs, and runs user programs
  in private address spaces.  \<^verbatim>\<open>mem64.c\<close> owns physical frames and page tables;
  \<^verbatim>\<open>task64.c\<close> owns the task table and schedules it on every CPU; \<^verbatim>\<open>loader64.c\<close> maps
  program images; \<^verbatim>\<open>ext64.c\<close> is an ext2 file system on the sector device
  \<^verbatim>\<open>ahci64.c\<close>, reached through the open files of \<^verbatim>\<open>fd64.c\<close>; \<^verbatim>\<open>win64.c\<close>,
  \<^verbatim>\<open>cons64.c\<close>, \<^verbatim>\<open>mouse64.c\<close>, \<^verbatim>\<open>kbd64.c\<close> and \<^verbatim>\<open>fb64.c\<close>
  are the desktop.  Interrupts enter through \<^verbatim>\<open>isr64.c\<close>, system calls through
  \<^verbatim>\<open>syscall64.c\<close>.

  \<^bold>\<open>Style of the model.\<close>  C structures are records, machine integers are words of their width, an
  operation is a function from the old state to its result and the new state.  Operations that can
  fail or not return have the type \<open>opn\<close> of theory \<open>Res\<close>: \<open>Val\<close> is a normal return, \<open>Err\<close> a negative
  error number and \<open>Trap\<close> an operation that never returns (a fault in kernel mode, a division by
  zero, spinning on a lock the caller holds).  In the older theories a lock that cannot be taken is
  \<open>None\<close>.  A critical section is one atomic step.  Loops are structural recursion or folds over the
  range of their index; where the C loop has a data-dependent exit the definition carries its own
  termination proof, so no fuel is used anywhere.

  \<^bold>\<open>Theories.\<close>
  \<^item> \<open>K64_Prelude\<close>: word and bit lemmas, first-index scans, C strings.
    \<open>Res\<close>: operations with errors, their sequencing and inversion rules.
    \<open>Ring\<close>: the contract of a bounded queue as a locale \<open>bounded_queue\<close>, with its client lemmas.
  \<^item> \<open>Pmm\<close> (\<^verbatim>\<open>mem64.c\<close>, frames): bitmap, reference counts, free counter; the locale
    \<open>frame_allocator\<close> and its interpretation; the allocator invariant and exactness of allocation.
  \<^item> \<open>Vmm\<close>, \<open>Vmm_Walk\<close> (\<^verbatim>\<open>mem64.c\<close>, paging): four-level tables in physical memory; \<open>walk\<close> is
    the reference semantics of the hardware, \<open>pt_tree\<close> says that the tables of a space form a tree;
    map, unmap, the user pointer check, copy-on-write and teardown are proved against it.
  \<^item> \<open>Loader\<close>, \<open>Loader_Proofs\<close> (\<^verbatim>\<open>loader64.c\<close>, \<^verbatim>\<open>blob64.c\<close>): registry, image formats,
    write-xor-execute mappings.
  \<^item> \<open>Desk\<close>, \<open>Win\<close>, \<open>Win_Proofs\<close>, \<open>Cons\<close>, \<open>Cons_Proofs\<close>, \<open>Mouse\<close>, \<open>Kbd\<close>, \<open>Fb\<close>, \<open>Fb_Proofs\<close>: the
    desktop, its pool of window pixels, compositing, the text console, input queues (both rings
    interpret \<open>bounded_queue\<close>) and the ownership of the screen.
  \<^item> \<open>Ext\<close>, \<open>Ext_Write\<close>, \<open>Ext_Disk\<close>, \<open>Ext_Alloc\<close> (\<^verbatim>\<open>ext64.c\<close>, \<^verbatim>\<open>ahci64.c\<close>): the volume on
    a device whose commands may fail; a file is refined to its bytes.  \<open>Fd\<close>, \<open>Fd_Proofs\<close>
    (\<^verbatim>\<open>fd64.c\<close>): reference counts of open files under every interleaving.
  \<^item> \<open>Task\<close>, \<open>Sched\<close>, \<open>Sched_Block\<close>, \<open>Fork\<close>, \<open>Task_Samples\<close> (\<^verbatim>\<open>task64.c\<close>): the state of the whole
    kernel, the scheduler's invariant, fairness, blocking, fork and demand paging.

  \<^bold>\<open>Witnesses.\<close>  Every theorem with hypotheses is applied to a concrete state: a sample memory with one
  address space, a sample volume with one file, a sample desktop, the machine after boot.

  \<^bold>\<open>Not modelled.\<close>  Translation caches, so \<^verbatim>\<open>vmm_publish\<close> has no effect; port and
  memory-mapped device registers (serial line, PIC, PIT, APIC, PCI, the AHCI command engine), which
  have no state the kernel logic depends on beyond what is a parameter of the model; the assembly entry
  code; the contents of the font; user programs.
\<close>

end
